(* ===== verification/Kronical_Prelude.thy ===== *)
theory Kronical_Prelude
  imports Main "HOL-Library.Word" "HOL-Library.Multiset"
begin

text \<open>
  Shared vocabulary of the development: the machine integers of the Rust sources, instants and
  durations of the chrono crate as the sources use them, the string and arithmetic primitives of
  the Rust standard library the components call, an interface for the components that consume
  their input in batches, and the list lemmas the component proofs share.

  Rust integers are kept at their width.  The sources are built without overflow checks in the
  release profile that the README installs, so \<open>+=\<close> wraps, as \<open>+\<close> does on words;
  \<open>saturating_add\<close> is \<open>sat_add\<close> below.  Casts between integers of one width keep the
  bits, so an \<open>i32\<close> and a \<open>u32\<close> are both \<open>32 word\<close>; a signed comparison reads the word with
  \<open>sint\<close>.
\<close>

section \<open>Machine integers\<close>

type_synonym u8 = "8 word"
type_synonym u16 = "16 word"
type_synonym u32 = "32 word"
type_synonym u64 = "64 word"
type_synonym i16 = "16 word"
type_synonym i32 = "32 word"

definition sat_add :: "'a::len word \<Rightarrow> 'a word \<Rightarrow> 'a word" where
  "sat_add a b = (if uint a + uint b < 2 ^ LENGTH('a) then a + b else - 1)"

section \<open>Instants and durations\<close>

text \<open>
  An instant \<open>DateTime<Utc>\<close> is its number of nanoseconds since the Unix epoch, and the
  difference of two instants is a number of nanoseconds.  \<open>num_seconds\<close> and
  \<open>num_milliseconds\<close> truncate towards zero, as chrono's \<open>TimeDelta\<close> does; the calendar reads
  \<open>timestamp\<close>, \<open>timestamp_millis\<close> and \<open>timestamp_subsec_nanos\<close> round towards minus infinity.
\<close>

type_synonym instant = int
type_synonym duration = int

definition trunc_div :: "int \<Rightarrow> int \<Rightarrow> int" where
  "trunc_div a b = (if a < 0 then - ((- a) div b) else a div b)"

definition num_seconds :: "duration \<Rightarrow> int" where
  "num_seconds d = trunc_div d 1000000000"

definition num_milliseconds :: "duration \<Rightarrow> int" where
  "num_milliseconds d = trunc_div d 1000000"

definition secs :: "int \<Rightarrow> duration" where
  "secs n = n * 1000000000"

definition millis :: "int \<Rightarrow> duration" where
  "millis n = n * 1000000"

definition mins :: "int \<Rightarrow> duration" where
  "mins n = n * 60000000000"

definition epoch_secs :: "instant \<Rightarrow> int" where
  "epoch_secs t = t div 1000000000"

definition epoch_millis :: "instant \<Rightarrow> int" where
  "epoch_millis t = t div 1000000"

definition subsec_nanos :: "instant \<Rightarrow> int" where
  "subsec_nanos t = t mod 1000000000"

section \<open>Strings\<close>

text \<open>
  A Rust string is its sequence of bytes.  \<open>eq_ignore_ascii_case\<close> compares bytes and folds only
  the letters A to Z.
\<close>

definition ascii_lower :: "char \<Rightarrow> char" where
  "ascii_lower c = (if 65 \<le> (of_char c :: nat) \<and> (of_char c :: nat) \<le> 90
     then char_of ((of_char c :: nat) + 32) else c)"

definition eq_ignore_ascii_case :: "string \<Rightarrow> string \<Rightarrow> bool" where
  "eq_ignore_ascii_case a b \<longleftrightarrow> map ascii_lower a = map ascii_lower b"

text \<open>\<open>contains\<close>, \<open>starts_with\<close> and the rest of a string behind a prefix.\<close>

fun str_contains :: "string \<Rightarrow> string \<Rightarrow> bool" where
  "str_contains pat [] = (pat = [])"
| "str_contains pat (c # cs) = (take (length pat) (c # cs) = pat \<or> str_contains pat cs)"

definition starts_with :: "string \<Rightarrow> string \<Rightarrow> bool" where
  "starts_with s pre = (take (length pre) s = pre)"

text \<open>The decimal digits of a number, as \<open>to_string\<close> and \<open>format!\<close> print it.\<close>

fun nat_str :: "nat \<Rightarrow> string" where
  "nat_str n = (if n < 10 then [char_of (48 + n)]
     else nat_str (n div 10) @ [char_of (48 + n mod 10)])"

declare nat_str.simps [simp del]

definition int_str :: "int \<Rightarrow> string" where
  "int_str i = (if i < 0 then CHR ''-'' # nat_str (nat (- i)) else nat_str (nat i))"

section \<open>Collections of proof rules\<close>

named_theorems time_simps \<open>unfolding rules for instants and durations\<close>
named_theorems kronical_inv \<open>invariant preservation by the operations of a component\<close>

lemmas time_defs [time_simps] =
  trunc_div_def num_seconds_def num_milliseconds_def secs_def millis_def mins_def

section \<open>Generic lemmas\<close>

subsection \<open>Saturating addition\<close>

lemma unat_sat_add: "unat (sat_add a (b :: 'a::len word)) = min (unat a + unat b) (2 ^ LENGTH('a) - 1)"
proof -
  have "sat_add a b = (if unat a + unat b < 2 ^ LENGTH('a) then a + b else - 1)"
    unfolding sat_add_def uint_nat by (metis of_nat_add of_nat_less_numeral_power_cancel_iff)
  then show ?thesis
    by (auto simp: unat_word_ariths unsigned_minus_1_eq_mask mask_eq_exp_minus_1)
qed

lemma sat_add_0 [simp]: "sat_add a 0 = a" "sat_add 0 a = a"
  by (simp_all add: sat_add_def)

lemma sat_add_mono: "a \<le> sat_add a (b :: 'a::len word)"
proof -
  have "unat a < 2 ^ LENGTH('a)" by (rule unsigned_less)
  then have "unat a \<le> 2 ^ LENGTH('a) - 1" by linarith
  then show ?thesis unfolding word_le_nat_alt unat_sat_add by simp
qed

subsection \<open>Truncated division\<close>

lemma trunc_div_mono:
  assumes "0 < k" "a \<le> b"
  shows "trunc_div a k \<le> trunc_div b k"
proof -
  have "0 \<le> x div k" if "0 \<le> x" for x
    using that assms(1) by (simp add: pos_imp_zdiv_nonneg_iff)
  moreover have "x div k \<le> y div k" if "x \<le> y" for x y
    using that assms(1) by (rule zdiv_mono1)
  ultimately show ?thesis
    using assms(2) by (smt (verit) trunc_div_def)
qed

lemma num_seconds_0 [simp]: "num_seconds 0 = 0"
  by (simp add: time_simps)

lemma num_seconds_mono: "a \<le> b \<Longrightarrow> num_seconds a \<le> num_seconds b"
  by (simp add: num_seconds_def trunc_div_mono)

lemma num_seconds_secs [simp]: "num_seconds (secs n) = n"
  by (auto simp: time_simps)

lemma num_seconds_nonneg: "0 \<le> d \<Longrightarrow> 0 \<le> num_seconds d"
  by (simp add: time_simps)

lemma num_seconds_pos: "(0 < num_seconds d) = (1000000000 \<le> d)"
  by (auto simp: time_simps)

lemma num_milliseconds_mono: "a \<le> b \<Longrightarrow> num_milliseconds a \<le> num_milliseconds b"
  by (simp add: num_milliseconds_def trunc_div_mono)

subsection \<open>Case folding\<close>

lemma eq_ignore_ascii_case_refl [simp]: "eq_ignore_ascii_case s s"
  by (simp add: eq_ignore_ascii_case_def)

lemma eq_ignore_ascii_case_sym: "eq_ignore_ascii_case a b = eq_ignore_ascii_case b a"
  by (auto simp: eq_ignore_ascii_case_def)

lemma eq_ignore_ascii_case_length: "eq_ignore_ascii_case a b \<Longrightarrow> length a = length b"
  unfolding eq_ignore_ascii_case_def by (rule map_eq_imp_length_eq)

subsection \<open>Bounded buffers\<close>

text \<open>The last \<open>n\<close> elements of a list, what a ring buffer of capacity \<open>n\<close> keeps of its history.\<close>

definition last_n :: "nat \<Rightarrow> 'a list \<Rightarrow> 'a list" where
  "last_n n xs = drop (length xs - n) xs"

lemma length_last_n [simp]: "length (last_n n xs) = min n (length xs)"
  by (auto simp: last_n_def)

lemma last_n_Nil [simp]: "last_n n [] = []"
  by (simp add: last_n_def)

lemma last_n_snoc:
  assumes "0 < n"
  shows "last_n n (xs @ [x]) =
    (if n \<le> length (last_n n xs) then tl (last_n n xs) else last_n n xs) @ [x]"
proof (cases "n \<le> length xs")
  case True
  then have "length (xs @ [x]) - n = Suc (length xs - n)" by simp
  with True assms show ?thesis
    by (simp add: last_n_def drop_Suc tl_drop)
next
  case False
  with assms show ?thesis by (simp add: last_n_def)
qed

lemma set_last_n: "set (last_n n xs) \<subseteq> set xs"
  by (simp add: last_n_def set_drop_subset)

lemma take_rev_last_n: "k \<le> n \<Longrightarrow> take k (rev (last_n n xs)) = take k (rev xs)"
  by (simp add: last_n_def rev_drop min_def)

subsection \<open>Chains\<close>

text \<open>Consecutive elements of a list are related.\<close>

fun chain :: "('a \<Rightarrow> 'a \<Rightarrow> bool) \<Rightarrow> 'a list \<Rightarrow> bool" where
  "chain r (x # y # zs) = (r x y \<and> chain r (y # zs))"
| "chain r _ = True"

lemma chain_Cons: "chain r (x # xs) = ((xs = [] \<or> r x (hd xs)) \<and> chain r xs)"
  by (cases xs) auto

lemma chain_append:
  "chain r (xs @ ys) = (chain r xs \<and> chain r ys \<and> (xs = [] \<or> ys = [] \<or> r (last xs) (hd ys)))"
  by (induction xs) (auto simp: chain_Cons)

lemma list_all2_in2: "list_all2 P xs ys \<Longrightarrow> y \<in> set ys \<Longrightarrow> \<exists>x. x \<in> set xs \<and> P x y"
  by (induction rule: list_all2_induct) auto

section \<open>Hash maps\<close>

text \<open>
  A \<open>HashMap\<close> is an association list with distinct keys.  \<open>upsert k d f\<close> is
  \<open>entry(k).or_insert_with(d)\<close> followed by an update of the entry; \<open>hm_insert\<close> and \<open>hm_remove\<close> are
  \<open>insert\<close> and \<open>remove\<close>.  The order in which a hash map is iterated is not the order of the list:
  where the sources iterate over a map, the order is a parameter.
\<close>

fun upsert :: "'k \<Rightarrow> 'v \<Rightarrow> ('v \<Rightarrow> 'v) \<Rightarrow> ('k \<times> 'v) list \<Rightarrow> ('k \<times> 'v) list" where
  "upsert k d f [] = [(k, f d)]"
| "upsert k d f ((k', v) # m) = (if k' = k then (k', f v) # m else (k', v) # upsert k d f m)"

definition hm_insert :: "'k \<Rightarrow> 'v \<Rightarrow> ('k \<times> 'v) list \<Rightarrow> ('k \<times> 'v) list" where
  "hm_insert k v m = upsert k v (\<lambda>_. v) m"

definition hm_remove :: "'k \<Rightarrow> ('k \<times> 'v) list \<Rightarrow> ('k \<times> 'v) list" where
  "hm_remove k m = filter (\<lambda>(k', _). k' \<noteq> k) m"

lemma map_of_upsert:
  "map_of (upsert k d f m) = (map_of m)(k \<mapsto> f (case map_of m k of None \<Rightarrow> d | Some v \<Rightarrow> v))"
  by (induction k d f m rule: upsert.induct) (auto simp: fun_eq_iff)

lemma keys_upsert: "fst ` set (upsert k d f m) = insert k (fst ` set m)"
  by (induction k d f m rule: upsert.induct) auto

lemma distinct_upsert [simp]: "distinct (map fst m) \<Longrightarrow> distinct (map fst (upsert k d f m))"
proof (induction k d f m rule: upsert.induct)
  case (2 k d f k' v m)
  then show ?case using keys_upsert [of k d f m] by (auto simp flip: set_map)
qed simp

lemma upsert_fresh: "k \<notin> fst ` set m \<Longrightarrow> upsert k d f m = m @ [(k, f d)]"
  by (induction k d f m rule: upsert.induct) auto

lemma map_of_hm_insert [simp]: "map_of (hm_insert k v m) = (map_of m)(k \<mapsto> v)"
  by (simp add: hm_insert_def map_of_upsert)

lemma distinct_hm_insert [simp]: "distinct (map fst m) \<Longrightarrow> distinct (map fst (hm_insert k v m))"
  by (simp add: hm_insert_def)

lemma keys_hm_insert [simp]: "fst ` set (hm_insert k v m) = insert k (fst ` set m)"
  by (simp add: hm_insert_def keys_upsert)

lemma length_hm_insert:
  "length (hm_insert k v m) = (if k \<in> fst ` set m then length m else Suc (length m))"
  unfolding hm_insert_def
proof (induction m)
  case (Cons x m)
  then show ?case by (cases x) simp
qed simp

lemma map_of_hm_remove [simp]: "map_of (hm_remove k m) = (map_of m)(k := None)"
  by (induction m) (auto simp: hm_remove_def fun_eq_iff)

lemma distinct_map_fst_filter: "distinct (map fst m) \<Longrightarrow> distinct (map fst (filter P m))"
  by (induction m) auto

lemma distinct_hm_remove [simp]: "distinct (map fst m) \<Longrightarrow> distinct (map fst (hm_remove k m))"
  by (simp add: hm_remove_def distinct_map_fst_filter)

lemma keys_hm_remove [simp]: "fst ` set (hm_remove k m) = fst ` set m - {k}"
  by (auto simp: hm_remove_def image_iff)

text \<open>Iteration over a hash map visits every entry once.\<close>

definition iterates :: "('a list \<Rightarrow> 'a list) \<Rightarrow> bool" where
  "iterates it \<longleftrightarrow> (\<forall>m. mset (it m) = mset m)"

lemma iterates_set: "iterates it \<Longrightarrow> set (it m) = set m"
  unfolding iterates_def by (metis mset_eq_setD)

lemma iterates_length: "iterates it \<Longrightarrow> length (it m) = length m"
  unfolding iterates_def by (metis mset_eq_length)

lemma iterates_distinct: "iterates it \<Longrightarrow> distinct (map fst (it m)) = distinct (map fst m)"
  unfolding iterates_def by (metis mset_eq_imp_distinct_iff mset_map)

lemma iterates_id [simp]: "iterates (\<lambda>m. m)" "iterates rev"
  by (simp_all add: iterates_def)

section \<open>Batch processing\<close>

text \<open>
  Several components read a vector of inputs, update their own state and append to an output
  vector.  Such a component is a step function; its batch operation is the left-to-right run.
  How the input stream is cut into batches then has no influence on the result, which is what
  makes the ingest stage's timer-driven batching sound.
\<close>

fun run_steps :: "('s \<Rightarrow> 'i \<Rightarrow> 's \<times> 'o list) \<Rightarrow> 's \<Rightarrow> 'i list \<Rightarrow> 's \<times> 'o list" where
  "run_steps f s [] = (s, [])"
| "run_steps f s (x # xs) =
     (let (s', o1) = f s x; (s'', o2) = run_steps f s' xs in (s'', o1 @ o2))"

lemma run_steps_append:
  "run_steps f s (xs @ ys) =
     (let (s', o1) = run_steps f s xs; (s'', o2) = run_steps f s' ys in (s'', o1 @ o2))"
  by (induction xs arbitrary: s) (auto simp: Let_def split_beta)

locale batch_component =
  fixes step :: "'s \<Rightarrow> 'i \<Rightarrow> 's \<times> 'o list"
    and batch :: "'s \<Rightarrow> 'i list \<Rightarrow> 's \<times> 'o list"
  assumes batch_run: "batch s xs = run_steps step s xs"
begin

lemma batch_Nil: "batch s [] = (s, [])"
  by (simp add: batch_run)

lemma batch_append:
  "batch s (xs @ ys) =
     (let (s', o1) = batch s xs; (s'', o2) = batch s' ys in (s'', o1 @ o2))"
  by (simp add: batch_run run_steps_append)

lemma batch_concat:
  "batch s (concat xss) = run_steps batch s xss"
proof (induction xss arbitrary: s)
  case Nil
  then show ?case by (simp add: batch_Nil)
next
  case (Cons xs xss)
  show ?case
    by (simp add: batch_append Cons.IH Let_def split_beta)
qed

lemma batch_invariant:
  assumes init: "I s" and keep: "\<And>s x. I s \<Longrightarrow> I (fst (step s x))"
  shows "I (fst (batch s xs))"
proof -
  have "I (fst (run_steps step s xs))"
    using init keep by (induction xs arbitrary: s) (auto simp: Let_def split_beta)
  then show ?thesis by (simp add: batch_run)
qed

lemma batch_outputs:
  assumes init: "I s" and keep: "\<And>s x. I s \<Longrightarrow> I (fst (step s x))"
    and out: "\<And>s x y. I s \<Longrightarrow> x \<in> set xs \<Longrightarrow> y \<in> set (snd (step s x)) \<Longrightarrow> P x y"
    and mem: "y \<in> set (snd (batch s xs))"
  shows "\<exists>x \<in> set xs. P x y"
  using init mem out unfolding batch_run
proof (induction xs arbitrary: s)
  case Nil
  then show ?case by simp
next
  case (Cons x xs)
  from Cons.prems(2) consider "y \<in> set (snd (step s x))"
    | "y \<in> set (snd (run_steps step (fst (step s x)) xs))"
    by (auto simp: Let_def split_beta)
  then show ?case
  proof cases
    case 1
    with Cons.prems show ?thesis by auto
  next
    case 2
    with Cons.IH [OF keep [OF Cons.prems(1)] 2] Cons.prems(3) show ?thesis by auto
  qed
qed

end

end
