(* ===== verification/Events.thy ===== *)
theory Events
  imports Kronical_Prelude
begin

text \<open>
  The data of crates/core/src/events.rs and crates/core/src/events/model.rs: raw input events as
  the hook and the focus tracker deliver them, the event envelopes the pipeline works on, and the
  activity states of crates/core/src/records.rs.  Fields carry a prefix per struct, constructors a
  prefix where Rust's enum name would tell them apart.
\<close>

section \<open>Raw events\<close>

record mouse_position =
  pos_x :: i32
  pos_y :: i32

text \<open>A Rust \<open>char\<close> is a Unicode scalar value of 32 bits.\<close>

record keyboard_event_data =
  key_code :: "u16 option"
  key_char :: "u32 option"
  key_modifiers :: "string list"

datatype mouse_button = Primary | Secondary | Middle | Button4 | Button5 | OtherButton u8

datatype mouse_event_kind = Moved | Pressed | Released | Clicked | Dragged

datatype wheel_axis = Vertical | Horizontal

datatype wheel_scroll_type = UnitScroll | BlockScroll | UnknownScroll u8

record mouse_event_data =
  mouse_pos :: mouse_position
  mouse_btn :: "mouse_button option"
  mouse_click_count :: "u16 option"
  mouse_event_type :: "mouse_event_kind option"
  wheel_amount :: "i32 option"
  wheel_rotation :: "i32 option"
  mouse_wheel_axis :: "wheel_axis option"
  mouse_wheel_scroll_type :: "wheel_scroll_type option"

record window_focus_info =
  fi_pid :: i32
  fi_process_start_time :: u64
  fi_app_name :: string
  fi_window_title :: string
  fi_window_id :: u32
  fi_window_instance_start :: instant
  fi_window_position :: "mouse_position option"
  fi_window_size :: "(u32 \<times> u32) option"

datatype raw_event =
    RawKeyboardInput instant u64 keyboard_event_data
  | RawMouseInput instant u64 mouse_event_data
  | RawWindowFocusChange instant u64 window_focus_info

fun raw_timestamp :: "raw_event \<Rightarrow> instant" where
  "raw_timestamp (RawKeyboardInput ts _ _) = ts"
| "raw_timestamp (RawMouseInput ts _ _) = ts"
| "raw_timestamp (RawWindowFocusChange ts _ _) = ts"

fun raw_event_id :: "raw_event \<Rightarrow> u64" where
  "raw_event_id (RawKeyboardInput _ i _) = i"
| "raw_event_id (RawMouseInput _ i _) = i"
| "raw_event_id (RawWindowFocusChange _ i _) = i"

fun raw_event_type :: "raw_event \<Rightarrow> string" where
  "raw_event_type (RawKeyboardInput _ _ _) = ''keyboard''"
| "raw_event_type (RawMouseInput _ _ _) = ''mouse''"
| "raw_event_type (RawWindowFocusChange _ _ _) = ''window_focus_change''"

section \<open>Activity states and envelopes\<close>

datatype activity_state = Active | Passive | Inactive | Locked

datatype event_source = Hook | Derived | Polling

datatype signal_kind =
    KeyboardInput | MouseInput | AppChanged | WindowChanged | ActivityPulse | LockStart | LockEnd

datatype hint_kind = FocusChanged | StateChanged | TitleChanged | PositionChanged | SizeChanged

datatype event_kind = Signal signal_kind | Hint hint_kind

datatype event_payload =
    PKeyboard keyboard_event_data
  | PMouse mouse_event_data
  | PFocus window_focus_info
  | PLock string
  | PTitle u32 string
  | PState activity_state activity_state
  | PNone

record event_envelope =
  env_id :: u64
  env_timestamp :: instant
  env_source :: event_source
  env_kind :: event_kind
  env_payload :: event_payload
  env_derived :: bool
  env_polling :: bool
  env_sensitive :: bool

definition is_signal :: "event_envelope \<Rightarrow> bool" where
  "is_signal e = (case env_kind e of Signal _ \<Rightarrow> True | Hint _ \<Rightarrow> False)"

definition is_hint :: "event_envelope \<Rightarrow> bool" where
  "is_hint e = (case env_kind e of Signal _ \<Rightarrow> False | Hint _ \<Rightarrow> True)"

datatype split_reason = SplitStateChange activity_state | SplitAppWindowChanged | SplitTitleChanged
  | SplitLockBoundary

text \<open>\<open>DefaultSplitPolicy::split_reason\<close>.\<close>

definition split_reason_of :: "event_envelope \<Rightarrow> split_reason option" where
  "split_reason_of e = (case env_kind e of
      Signal AppChanged \<Rightarrow> Some SplitAppWindowChanged
    | Signal WindowChanged \<Rightarrow> Some SplitAppWindowChanged
    | Hint TitleChanged \<Rightarrow> Some SplitTitleChanged
    | _ \<Rightarrow> None)"

record state_transition =
  tr_from :: activity_state
  tr_to :: activity_state

text \<open>An activity state as \<open>format!("{:?}", state)\<close> prints it.\<close>

fun activity_state_debug :: "activity_state \<Rightarrow> string" where
  "activity_state_debug Active = ''Active''"
| "activity_state_debug Passive = ''Passive''"
| "activity_state_debug Inactive = ''Inactive''"
| "activity_state_debug Locked = ''Locked''"

section \<open>Lemmas\<close>

lemma is_hint_not_signal: "is_hint e = (\<not> is_signal e)"
  by (simp add: is_hint_def is_signal_def split: event_kind.split)

lemma activity_state_debug_inj: "activity_state_debug a = activity_state_debug b \<longleftrightarrow> a = b"
  by (cases a; cases b; simp)

lemma split_reason_of_Some:
  "split_reason_of e = Some SplitAppWindowChanged \<longleftrightarrow>
     env_kind e = Signal AppChanged \<or> env_kind e = Signal WindowChanged"
  "split_reason_of e = Some SplitTitleChanged \<longleftrightarrow> env_kind e = Hint TitleChanged"
  by (auto simp: split_reason_of_def split: event_kind.splits signal_kind.splits hint_kind.splits)

end
