(* ===== verification/State_Engine.thy ===== *)
theory State_Engine
  imports Events
begin

text \<open>
  The activity state machine: \<open>DefaultStateEngine\<close> of crates/core/src/events/model.rs and the
  \<open>StateDeriver\<close> of crates/core/src/events/derive_hint.rs that turns its transitions into
  \<open>StateChanged\<close> hints.  The machine reads signals and clock ticks.  Its behaviour is compared
  with a specification over the whole history of inputs: whether the last lock boundary was a
  \<open>LockStart\<close>, and how long ago the last accepted signal was.
\<close>

section \<open>The engine\<close>

record state_engine =
  eng_current :: activity_state
  eng_last_signal_time :: instant
  eng_active_grace_secs :: int
  eng_idle_threshold_secs :: int
  eng_locked :: bool

definition engine_new :: "instant \<Rightarrow> int \<Rightarrow> int \<Rightarrow> state_engine" where
  "engine_new now active_grace_secs idle_threshold_secs =
     \<lparr> eng_current = Inactive,
       eng_last_signal_time = now,
       eng_active_grace_secs = active_grace_secs,
       eng_idle_threshold_secs = idle_threshold_secs,
       eng_locked = False \<rparr>"

definition engine_compute :: "state_engine \<Rightarrow> instant \<Rightarrow> activity_state" where
  "engine_compute s now =
     (if eng_locked s then Locked
      else let dt = num_seconds (now - eng_last_signal_time s) in
        if dt \<le> eng_active_grace_secs s then Active
        else if dt \<le> eng_idle_threshold_secs s then Passive
        else Inactive)"

definition engine_on_signal ::
  "state_engine \<Rightarrow> event_envelope \<Rightarrow> instant \<Rightarrow> state_engine \<times> state_transition option" where
  "engine_on_signal s ev now = (case env_kind ev of
      Signal LockStart \<Rightarrow>
        if eng_locked s then (s, None)
        else (let from = eng_current s; s' = s\<lparr>eng_locked := True, eng_current := Locked\<rparr>
              in (s', Some \<lparr>tr_from = from, tr_to = eng_current s'\<rparr>))
    | Signal LockEnd \<Rightarrow>
        if \<not> eng_locked s then (s, None)
        else (let s1 = s\<lparr>eng_locked := False\<rparr>; from = eng_current s1; to = engine_compute s1 now
              in (s1\<lparr>eng_current := to\<rparr>, Some \<lparr>tr_from = from, tr_to = to\<rparr>))
    | Signal _ \<Rightarrow>
        if eng_locked s then (s, None)
        else (let s1 = s\<lparr>eng_last_signal_time := now\<rparr>; from = eng_current s1;
                  to = engine_compute s1 now
              in if to \<noteq> from then (s1\<lparr>eng_current := to\<rparr>, Some \<lparr>tr_from = from, tr_to = to\<rparr>)
                 else (s1, None))
    | Hint _ \<Rightarrow> (s, None))"

definition engine_on_tick :: "state_engine \<Rightarrow> instant \<Rightarrow> state_engine \<times> state_transition option" where
  "engine_on_tick s now =
     (if eng_locked s then (s, None)
      else (let from = eng_current s; to = engine_compute s now
            in if to \<noteq> from then (s\<lparr>eng_current := to\<rparr>, Some \<lparr>tr_from = from, tr_to = to\<rparr>)
               else (s, None)))"

section \<open>The state deriver\<close>

record state_deriver =
  sd_engine :: state_engine

definition state_deriver_new :: "instant \<Rightarrow> int \<Rightarrow> int \<Rightarrow> state_deriver" where
  "state_deriver_new now active_grace_secs idle_threshold_secs =
     \<lparr> sd_engine = engine_new now active_grace_secs idle_threshold_secs \<rparr>"

definition state_hint :: "u64 \<Rightarrow> instant \<Rightarrow> state_transition \<Rightarrow> event_envelope" where
  "state_hint i now tr =
     \<lparr> env_id = i, env_timestamp = now, env_source = Derived, env_kind = Hint StateChanged,
       env_payload = PState (tr_from tr) (tr_to tr),
       env_derived = True, env_polling = False, env_sensitive = False \<rparr>"

definition deriver_on_signal ::
  "state_deriver \<Rightarrow> event_envelope \<Rightarrow> state_deriver \<times> event_envelope option" where
  "deriver_on_signal d env =
     (let now = env_timestamp env; (eng, tr) = engine_on_signal (sd_engine d) env now
      in (d\<lparr>sd_engine := eng\<rparr>, map_option (state_hint (env_id env) now) tr))"

text \<open>\<open>now.timestamp_millis() as u64\<close> reduces modulo \<open>2 ^ 64\<close>.\<close>

definition deriver_on_tick ::
  "state_deriver \<Rightarrow> instant \<Rightarrow> state_deriver \<times> event_envelope option" where
  "deriver_on_tick d now =
     (let (eng, tr) = engine_on_tick (sd_engine d) now
      in (d\<lparr>sd_engine := eng\<rparr>, map_option (state_hint (word_of_int (epoch_millis now)) now) tr))"

section \<open>Runs\<close>

text \<open>
  The pipeline feeds the deriver with signals, at the time of the envelope, and with ticks.  A run
  collects the hints the inputs give.
\<close>

datatype deriver_input = Sig event_envelope | Tick instant

fun deriver_step :: "state_deriver \<Rightarrow> deriver_input \<Rightarrow> state_deriver \<times> event_envelope list" where
  "deriver_step d (Sig ev) = (let (d', h) = deriver_on_signal d ev in (d', case h of None \<Rightarrow> [] | Some x \<Rightarrow> [x]))"
| "deriver_step d (Tick now) = (let (d', h) = deriver_on_tick d now in (d', case h of None \<Rightarrow> [] | Some x \<Rightarrow> [x]))"

fun deriver_run :: "state_deriver \<Rightarrow> deriver_input list \<Rightarrow> state_deriver \<times> event_envelope list" where
  "deriver_run d [] = (d, [])"
| "deriver_run d (i # is) =
     (let (d', h) = deriver_step d i; (d'', hs) = deriver_run d' is in (d'', h @ hs))"

abbreviation deriver_state :: "state_deriver \<Rightarrow> activity_state" where
  "deriver_state d \<equiv> eng_current (sd_engine d)"

section \<open>Specification over histories\<close>

fun is_lock_start :: "deriver_input \<Rightarrow> bool" where
  "is_lock_start (Sig ev) = (env_kind ev = Signal LockStart)"
| "is_lock_start (Tick _) = False"

fun is_lock_end :: "deriver_input \<Rightarrow> bool" where
  "is_lock_end (Sig ev) = (env_kind ev = Signal LockEnd)"
| "is_lock_end (Tick _) = False"

text \<open>A history is locked when its last lock boundary is a \<open>LockStart\<close>.\<close>

definition history_locked :: "deriver_input list \<Rightarrow> bool" where
  "history_locked h = (case dropWhile (\<lambda>i. \<not> is_lock_start i \<and> \<not> is_lock_end i) (rev h) of
      [] \<Rightarrow> False | i # _ \<Rightarrow> is_lock_start i)"

fun activity_time :: "deriver_input \<Rightarrow> instant option" where
  "activity_time (Sig ev) = (case env_kind ev of
      Signal LockStart \<Rightarrow> None | Signal LockEnd \<Rightarrow> None | Signal _ \<Rightarrow> Some (env_timestamp ev) | Hint _ \<Rightarrow> None)"
| "activity_time (Tick _) = None"

text \<open>The time of the last activity signal that arrived in an unlocked history; newest input first.\<close>

fun last_activity_rev :: "instant \<Rightarrow> deriver_input list \<Rightarrow> instant" where
  "last_activity_rev t0 [] = t0"
| "last_activity_rev t0 (i # is) = (case activity_time i of
      Some t \<Rightarrow> if history_locked (rev is) then last_activity_rev t0 is else t
    | None \<Rightarrow> last_activity_rev t0 is)"

definition last_activity :: "instant \<Rightarrow> deriver_input list \<Rightarrow> instant" where
  "last_activity t0 h = last_activity_rev t0 (rev h)"

definition activity_level :: "int \<Rightarrow> int \<Rightarrow> duration \<Rightarrow> activity_state" where
  "activity_level grace idle d =
     (if num_seconds d \<le> grace then Active else if num_seconds d \<le> idle then Passive else Inactive)"

text \<open>The order in which activity decays without input.\<close>

fun activity_rank :: "activity_state \<Rightarrow> nat" where
  "activity_rank Active = 2"
| "activity_rank Passive = 1"
| "activity_rank Inactive = 0"
| "activity_rank Locked = 0"

text \<open>A list of hints that leads from one state to another, each hint starting where the last one ended.\<close>

fun hint_path :: "activity_state \<Rightarrow> event_envelope list \<Rightarrow> activity_state \<Rightarrow> bool" where
  "hint_path a [] b = (a = b)"
| "hint_path a (h # hs) b = (case env_payload h of
      PState x y \<Rightarrow> x = a \<and> y \<noteq> a \<and> hint_path y hs b | _ \<Rightarrow> False)"

definition is_state_hint :: "event_envelope \<Rightarrow> bool" where
  "is_state_hint h \<longleftrightarrow> env_kind h = Hint StateChanged \<and> env_source h = Derived \<and> env_derived h"

section \<open>Invariants and lemmas\<close>

definition engine_inv :: "state_engine \<Rightarrow> bool" where
  "engine_inv s \<longleftrightarrow> (eng_locked s \<longleftrightarrow> eng_current s = Locked)"

lemma engine_compute_unlocked:
  "\<not> eng_locked s \<Longrightarrow> engine_compute s now =
     activity_level (eng_active_grace_secs s) (eng_idle_threshold_secs s) (now - eng_last_signal_time s)"
  by (simp add: engine_compute_def activity_level_def Let_def)

lemma activity_level_not_Locked [simp]: "activity_level g i d \<noteq> Locked" "Locked \<noteq> activity_level g i d"
  by (auto simp: activity_level_def)

lemma engine_new_inv [kronical_inv]: "engine_inv (engine_new now g i)"
  by (simp add: engine_inv_def engine_new_def)

lemmas engine_op_defs = engine_on_signal_def engine_on_tick_def

lemma engine_on_signal_inv [kronical_inv]:
  "engine_inv s \<Longrightarrow> engine_inv (fst (engine_on_signal s ev now))"
  by (auto simp: engine_on_signal_def engine_inv_def engine_compute_unlocked Let_def
      split: event_kind.split signal_kind.split)

lemma engine_on_tick_inv [kronical_inv]:
  "engine_inv s \<Longrightarrow> engine_inv (fst (engine_on_tick s now))"
  by (auto simp: engine_on_tick_def engine_inv_def engine_compute_unlocked Let_def)

definition reports :: "activity_state \<Rightarrow> activity_state \<Rightarrow> state_transition option \<Rightarrow> bool" where
  "reports before after tr \<longleftrightarrow>
     tr = (if before = after then None else Some \<lparr>tr_from = before, tr_to = after\<rparr>)"

lemma engine_on_signal_reports:
  "engine_inv s \<Longrightarrow> engine_on_signal s ev now = (s', tr) \<Longrightarrow> reports (eng_current s) (eng_current s') tr"
  by (auto simp: engine_on_signal_def engine_inv_def reports_def engine_compute_unlocked Let_def
      split: event_kind.splits signal_kind.splits if_splits)

lemma engine_on_tick_reports:
  "engine_inv s \<Longrightarrow> engine_on_tick s now = (s', tr) \<Longrightarrow> reports (eng_current s) (eng_current s') tr"
  by (auto simp: engine_on_tick_def engine_inv_def reports_def engine_compute_unlocked Let_def
      split: if_splits)

lemma engine_params [simp]:
  "eng_active_grace_secs (fst (engine_on_signal s ev now)) = eng_active_grace_secs s"
  "eng_idle_threshold_secs (fst (engine_on_signal s ev now)) = eng_idle_threshold_secs s"
  "eng_active_grace_secs (fst (engine_on_tick s now)) = eng_active_grace_secs s"
  "eng_idle_threshold_secs (fst (engine_on_tick s now)) = eng_idle_threshold_secs s"
  by (auto simp: engine_op_defs Let_def split: event_kind.split signal_kind.split)

subsection \<open>The deriver as a batch component\<close>

interpretation deriver: batch_component deriver_step deriver_run
proof
  show "deriver_run s xs = run_steps deriver_step s xs" for s xs
    by (induction xs arbitrary: s) (simp_all add: Let_def)
qed

definition deriver_inv :: "state_deriver \<Rightarrow> bool" where
  "deriver_inv d = engine_inv (sd_engine d)"

lemma deriver_new_inv [kronical_inv]: "deriver_inv (state_deriver_new now g i)"
  by (simp add: deriver_inv_def state_deriver_new_def kronical_inv)

lemma deriver_step_engine:
  "sd_engine (fst (deriver_step d (Sig ev))) = fst (engine_on_signal (sd_engine d) ev (env_timestamp ev))"
  "sd_engine (fst (deriver_step d (Tick now))) = fst (engine_on_tick (sd_engine d) now)"
  by (simp_all add: deriver_on_signal_def deriver_on_tick_def Let_def split_beta)

lemma deriver_step_inv [kronical_inv]: "deriver_inv d \<Longrightarrow> deriver_inv (fst (deriver_step d i))"
  by (cases i) (simp_all add: deriver_inv_def deriver_step_engine kronical_inv del: deriver_step.simps)

lemma deriver_run_inv [kronical_inv]: "deriver_inv d \<Longrightarrow> deriver_inv (fst (deriver_run d is))"
  by (rule deriver.batch_invariant [of deriver_inv]) (auto intro: kronical_inv)

text \<open>What one input emits: nothing, or one hint that reports the change of state.\<close>

lemma deriver_step_hint:
  assumes "deriver_inv d" and "deriver_step d i = (d', hs)"
  shows "if deriver_state d' = deriver_state d then hs = []
    else \<exists>h. hs = [h] \<and> env_payload h = PState (deriver_state d) (deriver_state d') \<and> is_state_hint h"
proof (cases i)
  case (Sig ev)
  obtain e tr where e: "engine_on_signal (sd_engine d) ev (env_timestamp ev) = (e, tr)" by force
  with assms(1) have "reports (deriver_state d) (eng_current e) tr"
    by (auto simp: deriver_inv_def intro: engine_on_signal_reports)
  moreover have "d' = d\<lparr>sd_engine := e\<rparr>"
    and "hs = (case tr of None \<Rightarrow> [] | Some t \<Rightarrow> [state_hint (env_id ev) (env_timestamp ev) t])"
    using assms(2) Sig e by (simp_all add: deriver_on_signal_def split: option.splits)
  ultimately show ?thesis
    by (simp add: reports_def state_hint_def is_state_hint_def)
next
  case (Tick now)
  obtain e tr where e: "engine_on_tick (sd_engine d) now = (e, tr)" by force
  with assms(1) have "reports (deriver_state d) (eng_current e) tr"
    by (auto simp: deriver_inv_def intro: engine_on_tick_reports)
  moreover have "d' = d\<lparr>sd_engine := e\<rparr>"
    and "hs = (case tr of None \<Rightarrow> [] | Some t \<Rightarrow> [state_hint (word_of_int (epoch_millis now)) now t])"
    using assms(2) Tick e by (simp_all add: deriver_on_tick_def split: option.splits)
  ultimately show ?thesis
    by (simp add: reports_def state_hint_def is_state_hint_def)
qed

lemma deriver_run_path:
  "deriver_inv d \<Longrightarrow> deriver_run d is = (d', hs) \<Longrightarrow>
     hint_path (deriver_state d) hs (deriver_state d') \<and> list_all is_state_hint hs"
proof (induction "is" arbitrary: d hs)
  case Nil
  then show ?case by simp
next
  case (Cons i "is")
  obtain d1 h where s: "deriver_step d i = (d1, h)" by force
  obtain d2 hs' where r: "deriver_run d1 is = (d2, hs')" by force
  have d1: "deriver_inv d1" using deriver_step_inv [OF Cons.prems(1), of i] s by simp
  from Cons.prems(2) s r have [simp]: "d' = d2" "hs = h @ hs'" by simp_all
  from Cons.IH [OF d1] r
  have "hint_path (deriver_state d1) hs' (deriver_state d2) \<and> list_all is_state_hint hs'" by simp
  with deriver_step_hint [OF Cons.prems(1) s] show ?case
    by (auto split: if_split_asm)
qed

subsection \<open>The history specification\<close>

lemma history_locked_snoc:
  "history_locked (h @ [i]) = (if is_lock_start i then True else if is_lock_end i then False else history_locked h)"
  by (simp add: history_locked_def)

lemma last_activity_snoc:
  "last_activity t0 (h @ [i]) = (case activity_time i of
      Some t \<Rightarrow> if history_locked h then last_activity t0 h else t | None \<Rightarrow> last_activity t0 h)"
  by (simp add: last_activity_def split: option.split)

lemma history_spec_Nil [simp]: "\<not> history_locked []" "last_activity t0 [] = t0"
  by (simp_all add: history_locked_def last_activity_def)

text \<open>The abstraction relation between an engine and the history it has read.\<close>

definition engine_of_history :: "instant \<Rightarrow> int \<Rightarrow> int \<Rightarrow> deriver_input list \<Rightarrow> state_engine \<Rightarrow> bool" where
  "engine_of_history t0 g i h s \<longleftrightarrow>
     eng_locked s = history_locked h \<and> eng_last_signal_time s = last_activity t0 h \<and>
     eng_active_grace_secs s = g \<and> eng_idle_threshold_secs s = i \<and> engine_inv s"

lemma engine_of_history_signal:
  "engine_of_history t0 g i h s \<Longrightarrow>
     engine_of_history t0 g i (h @ [Sig ev]) (fst (engine_on_signal s ev (env_timestamp ev)))"
  by (auto simp: engine_of_history_def history_locked_snoc last_activity_snoc kronical_inv)
     (auto simp: engine_on_signal_def Let_def split: event_kind.splits signal_kind.splits if_split_asm)

lemma engine_of_history_tick:
  "engine_of_history t0 g i h s \<Longrightarrow>
     engine_of_history t0 g i (h @ [Tick now]) (fst (engine_on_tick s now))"
  by (auto simp: engine_of_history_def history_locked_snoc last_activity_snoc kronical_inv)
     (auto simp: engine_on_tick_def Let_def split: if_split_asm)

lemma deriver_run_snoc:
  "fst (deriver_run d (h @ [i])) = fst (deriver_step (fst (deriver_run d h)) i)"
  by (simp add: deriver.batch_append Let_def split_beta)

lemma engine_of_history_run:
  "engine_of_history t0 g i h (sd_engine (fst (deriver_run (state_deriver_new t0 g i) h)))"
proof (induction h rule: rev_induct)
  case Nil
  then show ?case
    by (simp add: engine_of_history_def state_deriver_new_def engine_new_def engine_inv_def)
next
  case (snoc x h)
  then show ?case
    by (cases x) (simp_all add: deriver_run_snoc deriver_step_engine engine_of_history_signal
        engine_of_history_tick del: deriver_step.simps)
qed

lemma engine_on_tick_current:
  "engine_of_history t0 g i h s \<Longrightarrow> eng_current (fst (engine_on_tick s now)) =
     (if history_locked h then Locked else activity_level g i (now - last_activity t0 h))"
  by (auto simp: engine_of_history_def engine_on_tick_def engine_inv_def engine_compute_unlocked Let_def)

lemma tick_state:
  "deriver_state (fst (deriver_run (state_deriver_new t0 g i) (h @ [Tick now]))) =
     (if history_locked h then Locked else activity_level g i (now - last_activity t0 h))"
  using engine_on_tick_current [OF engine_of_history_run]
  by (simp add: deriver_run_snoc deriver_step_engine del: deriver_step.simps)

lemma activity_level_decays:
  "d \<le> d' \<Longrightarrow> activity_rank (activity_level g i d') \<le> activity_rank (activity_level g i d)"
  using num_seconds_mono [of d d'] by (auto simp: activity_level_def)

section \<open>Properties\<close>

text \<open>
  C2: The state machine refines its specification over histories.  After any history of signals
  and ticks and a tick at \<open>now\<close>, the engine is in \<open>Locked\<close> exactly when the last lock boundary was
  a \<open>LockStart\<close>, and otherwise in the level that the time since the last activity signal received
  while unlocked gives.
\<close>
theorem state_refines_history:
  "deriver_state (fst (deriver_run (state_deriver_new t0 grace idle) (h @ [Tick now]))) =
     (if history_locked h then Locked
      else activity_level grace idle (now - last_activity t0 h))"
  by (rule tick_state)

text \<open>
  The \<open>StateChanged\<close> hints a run emits describe its states completely: they form a path from
  \<open>Inactive\<close>, the initial state, to the state the engine is in, every hint starts where the one
  before ended, no hint is a self loop, and every one of them is marked as derived.
\<close>
theorem hints_form_path:
  "deriver_run (state_deriver_new t0 grace idle) h = (d, hs) \<Longrightarrow>
     hint_path Inactive hs (deriver_state d) \<and> list_all is_state_hint hs"
  using deriver_run_path [OF deriver_new_inv]
  by (fastforce simp: state_deriver_new_def engine_new_def)

text \<open>A run with a keyboard signal, a lock, a tick while locked, an unlock and a late tick.\<close>

definition demo_signal :: "signal_kind \<Rightarrow> instant \<Rightarrow> event_envelope" where
  "demo_signal k t = \<lparr> env_id = 7, env_timestamp = t, env_source = Hook, env_kind = Signal k,
     env_payload = PNone, env_derived = False, env_polling = False, env_sensitive = False \<rparr>"

definition demo_history :: "deriver_input list" where
  "demo_history = [Sig (demo_signal KeyboardInput (secs 5)), Sig (demo_signal LockStart (secs 9)),
     Tick (secs 400), Sig (demo_signal LockEnd (secs 401)), Tick (secs 900)]"

lemma demo_history_run:
  "map env_payload (snd (deriver_run (state_deriver_new 0 30 120) demo_history)) =
     [PState Inactive Active, PState Active Locked, PState Locked Inactive]"
  by code_simp

theorem hints_form_path_witness:
  "hint_path Inactive (snd (deriver_run (state_deriver_new 0 30 120) demo_history))
     (deriver_state (fst (deriver_run (state_deriver_new 0 30 120) demo_history)))"
  using hints_form_path [of 0 30 120 demo_history, OF prod.collapse [symmetric]] by blast

text \<open>
  Without input the activity only decays: of two ticks in a row with a clock that does not run
  backwards, the second never raises the activity level, and it never leaves \<open>Locked\<close>.
\<close>
theorem ticks_decay:
  assumes "t1 \<le> t2"
  shows "activity_rank (deriver_state (fst (deriver_run (state_deriver_new t0 grace idle) (h @ [Tick t1, Tick t2]))))
     \<le> activity_rank (deriver_state (fst (deriver_run (state_deriver_new t0 grace idle) (h @ [Tick t1]))))"
proof -
  have snoc: "h @ [Tick t1, Tick t2] = (h @ [Tick t1]) @ [Tick t2]" by simp
  show ?thesis
    unfolding snoc tick_state
    using assms by (simp add: history_locked_snoc last_activity_snoc activity_level_decays)
qed

theorem ticks_decay_witness:
  "activity_rank (deriver_state (fst (deriver_run (state_deriver_new 0 30 120) ([Sig (demo_signal MouseInput 0)] @ [Tick (secs 3), Tick (secs 60)]))))
     \<le> activity_rank (deriver_state (fst (deriver_run (state_deriver_new 0 30 120) ([Sig (demo_signal MouseInput 0)] @ [Tick (secs 3)]))))"
  by (rule ticks_decay) (simp add: secs_def)

text \<open>
  An activity signal that arrives while the session is unlocked makes the machine \<open>Active\<close> at
  once when the grace period is not negative; while it is locked, every signal but \<open>LockEnd\<close> leaves
  the machine as it is and emits nothing.
\<close>
theorem signal_effect:
  assumes "0 \<le> grace" and "activity_time (Sig ev) = Some t"
    and "d = fst (deriver_run (state_deriver_new t0 grace idle) h)"
  shows "if history_locked h then deriver_on_signal d ev = (d, None)
    else deriver_state (fst (deriver_on_signal d ev)) = Active"
proof -
  have eh: "engine_of_history t0 grace idle h (sd_engine d)"
    using engine_of_history_run assms(3) by simp
  obtain k where k: "env_kind ev = Signal k" "k \<noteq> LockStart" "k \<noteq> LockEnd"
    using assms(2) by (auto split: event_kind.splits signal_kind.splits)
  have "engine_on_signal (sd_engine d) ev (env_timestamp ev) = (sd_engine d, None)" if "history_locked h"
    using eh that k by (auto simp: engine_of_history_def engine_on_signal_def split: signal_kind.splits)
  moreover have "eng_current (fst (engine_on_signal (sd_engine d) ev (env_timestamp ev))) = Active"
    if "\<not> history_locked h"
    using eh that k assms(1)
    by (auto simp: engine_of_history_def engine_on_signal_def engine_compute_def Let_def split: signal_kind.splits)
  ultimately show ?thesis
    by (simp add: deriver_on_signal_def Let_def split_beta)
qed

theorem signal_effect_witness:
  "if history_locked [Tick (secs 500)]
   then deriver_on_signal (fst (deriver_run (state_deriver_new 0 30 120) [Tick (secs 500)]))
          (demo_signal MouseInput (secs 501))
        = (fst (deriver_run (state_deriver_new 0 30 120) [Tick (secs 500)]), None)
   else deriver_state (fst (deriver_on_signal (fst (deriver_run (state_deriver_new 0 30 120) [Tick (secs 500)]))
          (demo_signal MouseInput (secs 501)))) = Active"
  by (rule signal_effect [of 30 _ "secs 501"]) (simp_all add: demo_signal_def)

text \<open>
  A daemon that has received no input at all becomes \<open>Active\<close> at its first tick, when that tick
  falls within the grace period after the start: the engine starts in \<open>Inactive\<close> but with the start
  as the time of its last signal.
\<close>
theorem startup_tick_activates:
  assumes "t0 \<le> now" and "now - t0 \<le> secs grace"
  shows "deriver_on_tick (state_deriver_new t0 grace idle) now =
    ((state_deriver_new t0 grace idle)\<lparr>sd_engine := (engine_new t0 grace idle)\<lparr>eng_current := Active\<rparr>\<rparr>,
     Some (state_hint (word_of_int (epoch_millis now)) now \<lparr>tr_from = Inactive, tr_to = Active\<rparr>))"
proof -
  have "num_seconds (now - t0) \<le> grace"
    using num_seconds_mono [OF assms(2)] by simp
  then show ?thesis
    by (simp add: deriver_on_tick_def state_deriver_new_def engine_on_tick_def engine_compute_def engine_new_def)
qed

theorem startup_tick_activates_witness:
  "deriver_on_tick (state_deriver_new 0 30 120) (secs 1) =
    ((state_deriver_new 0 30 120)\<lparr>sd_engine := (engine_new 0 30 120)\<lparr>eng_current := Active\<rparr>\<rparr>,
     Some (state_hint (word_of_int (epoch_millis (secs 1))) (secs 1) \<lparr>tr_from = Inactive, tr_to = Active\<rparr>))"
  by (rule startup_tick_activates) (simp_all add: secs_def)

end
