(* ===== verification/Adapter.thy ===== *)
theory Adapter
  imports Events
begin

text \<open>
  \<open>EventAdapter\<close> of crates/core/src/events/adapter.rs: raw events become envelopes.  Input events
  are one signal each.  A focus event is compared with the last focus: a change of the process or
  the window is a signal, a \<open>FocusChanged\<close> hint and, unless the login window took the focus, an
  activity pulse; a change of the title alone is a \<open>TitleChanged\<close> hint; anything else is dropped.
\<close>

section \<open>Operations\<close>

record event_adapter =
  ad_last_focus :: "window_focus_info option"

definition adapter_new :: event_adapter where
  "adapter_new = \<lparr> ad_last_focus = None \<rparr>"

definition hook_envelope :: "u64 \<Rightarrow> instant \<Rightarrow> event_kind \<Rightarrow> event_payload \<Rightarrow> event_envelope" where
  "hook_envelope i now k p =
     \<lparr> env_id = i, env_timestamp = now, env_source = Hook, env_kind = k, env_payload = p,
       env_derived = False, env_polling = False, env_sensitive = False \<rparr>"

text \<open>The three envelopes of a change of focus; \<open>k\<close> is \<open>AppChanged\<close> or \<open>WindowChanged\<close>.\<close>

definition focus_change_envelopes ::
  "signal_kind \<Rightarrow> u64 \<Rightarrow> instant \<Rightarrow> window_focus_info \<Rightarrow> bool \<Rightarrow> event_envelope list" where
  "focus_change_envelopes k event_id now current login_focus =
     [hook_envelope event_id now (Signal k) (PFocus current),
      hook_envelope event_id now (Hint FocusChanged) (PFocus current)] @
     (if \<not> login_focus then [hook_envelope event_id now (Signal ActivityPulse) PNone] else [])"

definition title_change_envelope :: "u64 \<Rightarrow> instant \<Rightarrow> window_focus_info \<Rightarrow> event_envelope" where
  "title_change_envelope event_id now current =
     \<lparr> env_id = event_id, env_timestamp = now, env_source = Polling, env_kind = Hint TitleChanged,
       env_payload = PTitle (fi_window_id current) (fi_window_title current),
       env_derived = False, env_polling = True, env_sensitive = False \<rparr>"

definition is_login_focus :: "window_focus_info \<Rightarrow> bool" where
  "is_login_focus fi = eq_ignore_ascii_case (fi_app_name fi) ''loginwindow''"

definition adapt_focus ::
  "window_focus_info option \<Rightarrow> u64 \<Rightarrow> instant \<Rightarrow> window_focus_info \<Rightarrow> event_envelope list" where
  "adapt_focus last_focus event_id now current =
     (let login_focus = is_login_focus current in
      case last_focus of
        Some l \<Rightarrow>
          if fi_pid l \<noteq> fi_pid current \<or> fi_process_start_time l \<noteq> fi_process_start_time current
             \<or> fi_app_name l \<noteq> fi_app_name current
          then focus_change_envelopes AppChanged event_id now current login_focus
          else if fi_window_id l \<noteq> fi_window_id current
          then focus_change_envelopes WindowChanged event_id now current login_focus
          else if fi_window_title l \<noteq> fi_window_title current
          then [title_change_envelope event_id now current]
          else []
      | None \<Rightarrow> focus_change_envelopes AppChanged event_id now current login_focus)"

fun adapt_event :: "event_adapter \<Rightarrow> raw_event \<Rightarrow> event_adapter \<times> event_envelope list" where
  "adapt_event a (RawKeyboardInput ts i data) =
     (a, [hook_envelope i ts (Signal KeyboardInput) (PKeyboard data)])"
| "adapt_event a (RawMouseInput ts i data) =
     (a, [hook_envelope i ts (Signal MouseInput) (PMouse data)])"
| "adapt_event a (RawWindowFocusChange ts i focus_info) =
     (a\<lparr>ad_last_focus := Some focus_info\<rparr>, adapt_focus (ad_last_focus a) i ts focus_info)"

fun adapt_batch :: "event_adapter \<Rightarrow> raw_event list \<Rightarrow> event_adapter \<times> event_envelope list" where
  "adapt_batch a [] = (a, [])"
| "adapt_batch a (e # es) =
     (let (a', out) = adapt_event a e; (a'', out') = adapt_batch a' es in (a'', out @ out'))"

section \<open>Specification\<close>

text \<open>The identity of a window: what the adapter compares before it looks at the title.\<close>

definition app_identity :: "window_focus_info \<Rightarrow> i32 \<times> u64 \<times> string" where
  "app_identity fi = (fi_pid fi, fi_process_start_time fi, fi_app_name fi)"

definition window_identity :: "window_focus_info \<Rightarrow> (i32 \<times> u64 \<times> string) \<times> u32" where
  "window_identity fi = (app_identity fi, fi_window_id fi)"

text \<open>The focus a list of envelopes ends in, read from its focus and title hints.\<close>

fun replay_focus :: "window_focus_info option \<Rightarrow> event_envelope list \<Rightarrow> window_focus_info option" where
  "replay_focus f [] = f"
| "replay_focus f (e # es) = replay_focus
     (case (env_kind e, env_payload e) of
        (Hint FocusChanged, PFocus fi) \<Rightarrow> Some fi
      | (Hint TitleChanged, PTitle _ t) \<Rightarrow> map_option (\<lambda>fi. fi\<lparr>fi_window_title := t\<rparr>) f
      | _ \<Rightarrow> f) es"

text \<open>The part of a focus the envelopes carry on: its window and its title.\<close>

definition focus_view :: "window_focus_info option \<Rightarrow> (((i32 \<times> u64 \<times> string) \<times> u32) \<times> string) option" where
  "focus_view f = map_option (\<lambda>fi. (window_identity fi, fi_window_title fi)) f"

definition raw_focus :: "raw_event \<Rightarrow> window_focus_info option" where
  "raw_focus e = (case e of RawWindowFocusChange _ _ fi \<Rightarrow> Some fi | _ \<Rightarrow> None)"

fun is_input :: "raw_event \<Rightarrow> bool" where
  "is_input (RawWindowFocusChange _ _ _) = False"
| "is_input _ = True"

definition is_input_signal :: "event_envelope \<Rightarrow> bool" where
  "is_input_signal e \<longleftrightarrow> env_kind e = Signal KeyboardInput \<or> env_kind e = Signal MouseInput"

section \<open>Lemmas\<close>

interpretation adapter: batch_component adapt_event adapt_batch
proof
  show "adapt_batch s xs = run_steps adapt_event s xs" for s xs
    by (induction xs arbitrary: s) (simp_all add: Let_def)
qed

lemmas adapt_defs = adapt_focus_def focus_change_envelopes_def title_change_envelope_def hook_envelope_def

lemma adapt_event_ids:
  "y \<in> set (snd (adapt_event a x)) \<Longrightarrow> env_id y = raw_event_id x \<and> env_timestamp y = raw_timestamp x"
  by (cases x) (auto simp: adapt_defs Let_def split: option.splits if_splits)

lemma adapt_focus_inputs: "filter is_input_signal (adapt_focus f i now fi) = []"
  by (auto simp: adapt_defs is_input_signal_def Let_def split: option.splits)

lemma adapt_batch_inputs:
  "map env_id (filter is_input_signal (snd (adapt_batch a raw))) = map raw_event_id (filter is_input raw)"
proof (induction raw arbitrary: a)
  case Nil
  then show ?case by simp
next
  case (Cons e es)
  then show ?case
    by (cases e) (simp_all add: Let_def split_beta adapt_focus_inputs,
        simp_all add: hook_envelope_def is_input_signal_def)
qed

lemma focus_view_title:
  "focus_view (map_option (\<lambda>fi. fi\<lparr>fi_window_title := t\<rparr>) f) =
     map_option (\<lambda>(w, _). (w, t)) (focus_view f)"
  by (cases f) (simp_all add: focus_view_def window_identity_def app_identity_def)

text \<open>One raw event: replaying its envelopes gives the adapter's own view of the focus.\<close>

lemma adapt_event_replay:
  assumes "focus_view f = focus_view (ad_last_focus a)"
  shows "focus_view (replay_focus f (snd (adapt_event a e))) =
    focus_view (ad_last_focus (fst (adapt_event a e)))"
proof (cases e)
  case (RawWindowFocusChange ts i fi)
  with assms show ?thesis
    by (auto simp: adapt_defs Let_def focus_view_title split: option.split)
       (auto simp: focus_view_def window_identity_def app_identity_def)
qed (use assms in \<open>simp_all add: hook_envelope_def\<close>)

lemma replay_focus_append: "replay_focus f (xs @ ys) = replay_focus (replay_focus f xs) ys"
  by (induction xs arbitrary: f) simp_all

lemma adapt_batch_replay:
  "focus_view f = focus_view (ad_last_focus a) \<Longrightarrow>
     focus_view (replay_focus f (snd (adapt_batch a raw))) = focus_view (ad_last_focus (fst (adapt_batch a raw)))"
proof (induction raw arbitrary: a f)
  case Nil
  then show ?case by simp
next
  case (Cons e es)
  from Cons.IH [OF adapt_event_replay [OF Cons.prems, of e]] show ?case
    by (simp add: Let_def split_beta replay_focus_append)
qed

lemma adapt_batch_last_focus:
  "ad_last_focus (fst (adapt_batch a raw)) =
     (case rev (List.map_filter raw_focus raw) of [] \<Rightarrow> ad_last_focus a | fi # _ \<Rightarrow> Some fi)"
proof (induction raw arbitrary: a)
  case Nil
  then show ?case by (simp add: List.map_filter_def)
next
  case (Cons e es)
  then show ?case
    by (cases e) (simp_all add: List.map_filter_def raw_focus_def Let_def split_beta split: list.split)
qed

section \<open>Properties\<close>

text \<open>
  No input is lost, invented or reordered: the keyboard and mouse signals of a batch carry the
  ids of its keyboard and mouse events, in their order, and every envelope carries the id and the
  time of a raw event of the batch.
\<close>
theorem adapter_inputs_preserved:
  "map env_id (filter is_input_signal (snd (adapt_batch a raw))) = map raw_event_id (filter is_input raw)
   \<and> (\<forall>y. y \<in> set (snd (adapt_batch a raw)) \<longrightarrow>
        (\<exists>x. x \<in> set raw \<and> env_id y = raw_event_id x \<and> env_timestamp y = raw_timestamp x))"
proof (intro conjI allI impI)
  show "map env_id (filter is_input_signal (snd (adapt_batch a raw))) = map raw_event_id (filter is_input raw)"
    by (rule adapt_batch_inputs)
next
  fix y
  assume "y \<in> set (snd (adapt_batch a raw))"
  then have "\<exists>x \<in> set raw. env_id y = raw_event_id x \<and> env_timestamp y = raw_timestamp x"
    by (intro adapter.batch_outputs [where I = "\<lambda>_. True" and y = y]) (auto dest: adapt_event_ids)
  then show "\<exists>x. x \<in> set raw \<and> env_id y = raw_event_id x \<and> env_timestamp y = raw_timestamp x"
    by blast
qed

definition demo_focus :: "string \<Rightarrow> u32 \<Rightarrow> string \<Rightarrow> window_focus_info" where
  "demo_focus app wid title = \<lparr> fi_pid = 41, fi_process_start_time = 9, fi_app_name = app,
     fi_window_title = title, fi_window_id = wid, fi_window_instance_start = 0,
     fi_window_position = None, fi_window_size = None \<rparr>"

definition demo_key :: "instant \<Rightarrow> u64 \<Rightarrow> raw_event" where
  "demo_key t i = RawKeyboardInput t i \<lparr>key_code = Some 40, key_char = None, key_modifiers = []\<rparr>"

definition demo_raw :: "raw_event list" where
  "demo_raw = [RawWindowFocusChange 0 1 (demo_focus ''Safari'' 3 ''Inbox''), demo_key 5 2,
     RawWindowFocusChange 9 3 (demo_focus ''Safari'' 3 ''Sent''),
     RawWindowFocusChange 11 4 (demo_focus ''LoginWindow'' 8 []), demo_key 20 5,
     RawWindowFocusChange 30 6 (demo_focus ''Safari'' 3 ''Sent'')]"

lemma demo_raw_kinds:
  "map env_kind (snd (adapt_batch adapter_new demo_raw)) =
     [Signal AppChanged, Hint FocusChanged, Signal ActivityPulse, Signal KeyboardInput,
      Hint TitleChanged, Signal AppChanged, Hint FocusChanged, Signal KeyboardInput,
      Signal AppChanged, Hint FocusChanged, Signal ActivityPulse]"
  by code_simp

theorem adapter_inputs_preserved_witness:
  "map env_id (filter is_input_signal (snd (adapt_batch adapter_new demo_raw))) = [2, 5]"
proof -
  have "map raw_event_id (filter is_input demo_raw) = [2, 5]" by code_simp
  then show ?thesis using adapter_inputs_preserved [of adapter_new demo_raw] by simp
qed

text \<open>
  The envelopes carry the focus faithfully: whoever replays the focus and title hints of the
  envelopes has the same window and title as the last focus event of the raw stream.
\<close>
theorem adapter_focus_replay:
  "focus_view (replay_focus None (snd (adapt_batch adapter_new raw))) =
     focus_view (case rev (List.map_filter raw_focus raw) of [] \<Rightarrow> None | fi # _ \<Rightarrow> Some fi)"
  using adapt_batch_replay [of None adapter_new raw] adapt_batch_last_focus [of adapter_new raw]
  by (simp add: adapter_new_def split: list.splits)

end
