(* ===== verification/Lock_Deriver.thy ===== *)
theory Lock_Deriver
  imports Adapter
begin

text \<open>
  \<open>LockDeriver\<close> of crates/core/src/events/derive_signal.rs: focus on the login window is a locked
  session.  The deriver turns the change of focus into \<open>LockStart\<close> and \<open>LockEnd\<close> signals and keeps
  input, pulses and titles of a locked session from the rest of the pipeline.
\<close>

section \<open>Operations\<close>

record lock_deriver =
  ld_locked :: bool

definition lock_deriver_new :: lock_deriver where
  "lock_deriver_new = \<lparr> ld_locked = False \<rparr>"

definition lock_envelope :: "event_envelope \<Rightarrow> signal_kind \<Rightarrow> string \<Rightarrow> event_envelope" where
  "lock_envelope e k reason =
     \<lparr> env_id = env_id e, env_timestamp = env_timestamp e, env_source = Derived,
       env_kind = Signal k, env_payload = PLock reason,
       env_derived = True, env_polling = False, env_sensitive = False \<rparr>"

definition payload_is_login :: "event_payload \<Rightarrow> bool" where
  "payload_is_login p = (case p of
      PFocus fi \<Rightarrow> eq_ignore_ascii_case (fi_app_name fi) ''loginwindow'' | _ \<Rightarrow> False)"

text \<open>The body of the loop; the last component of a branch is \<open>forward_original\<close>.\<close>

definition derive_event :: "lock_deriver \<Rightarrow> event_envelope \<Rightarrow> lock_deriver \<times> event_envelope list" where
  "derive_event d e =
     (let (d', out, forward_original) =
        (case env_kind e of
           Signal kind \<Rightarrow>
             (if kind = AppChanged \<or> kind = WindowChanged then
                (if payload_is_login (env_payload e) then
                   (d\<lparr>ld_locked := True\<rparr>,
                    if \<not> ld_locked d then [lock_envelope e LockStart ''loginwindow''] else [],
                    False)
                 else if ld_locked d then
                   (d\<lparr>ld_locked := False\<rparr>, [lock_envelope e LockEnd ''unlock''], True)
                 else (d, [], True))
              else if kind = LockStart then (d\<lparr>ld_locked := True\<rparr>, [], True)
              else if kind = LockEnd then (d\<lparr>ld_locked := False\<rparr>, [], True)
              else (d, [], \<not> ld_locked d))
         | Hint k \<Rightarrow> (d, [], if ld_locked d then k = FocusChanged else True))
      in (d', out @ (if forward_original then [e] else [])))"

fun lock_derive :: "lock_deriver \<Rightarrow> event_envelope list \<Rightarrow> lock_deriver \<times> event_envelope list" where
  "lock_derive d [] = (d, [])"
| "lock_derive d (e # es) =
     (let (d', out) = derive_event d e; (d'', out') = lock_derive d' es in (d'', out @ out'))"

section \<open>Specification\<close>

text \<open>
  The discipline of a derived stream: \<open>LockStart\<close> and \<open>LockEnd\<close> alternate, and between them
  nothing but \<open>FocusChanged\<close> hints passes.  The function follows the lock through a stream and
  gives its final value, or \<open>None\<close> where the discipline is broken.
\<close>

fun lock_discipline :: "bool \<Rightarrow> event_envelope list \<Rightarrow> bool option" where
  "lock_discipline b [] = Some b"
| "lock_discipline b (e # es) = (case env_kind e of
      Signal LockStart \<Rightarrow> if b then None else lock_discipline True es
    | Signal LockEnd \<Rightarrow> if b then lock_discipline False es else None
    | k \<Rightarrow> if b \<and> k \<noteq> Hint FocusChanged then None else lock_discipline b es)"

definition is_lock_signal :: "event_envelope \<Rightarrow> bool" where
  "is_lock_signal e \<longleftrightarrow> env_kind e = Signal LockStart \<or> env_kind e = Signal LockEnd"

text \<open>The ids of the input events that arrive while the login window does not have the focus.\<close>

fun unlocked_input_ids :: "bool \<Rightarrow> raw_event list \<Rightarrow> u64 list" where
  "unlocked_input_ids b [] = []"
| "unlocked_input_ids b (RawWindowFocusChange _ _ fi # es) = unlocked_input_ids (is_login_focus fi) es"
| "unlocked_input_ids b (e # es) = (if b then [] else [raw_event_id e]) @ unlocked_input_ids b es"

definition login_focused :: "window_focus_info option \<Rightarrow> bool" where
  "login_focused f = (case f of None \<Rightarrow> False | Some fi \<Rightarrow> is_login_focus fi)"

section \<open>Lemmas\<close>

interpretation locks: batch_component derive_event lock_derive
proof
  show "lock_derive s xs = run_steps derive_event s xs" for s xs
    by (induction xs arbitrary: s) (simp_all add: Let_def)
qed

lemma lock_discipline_append:
  "lock_discipline b (xs @ ys) = (case lock_discipline b xs of None \<Rightarrow> None | Some b' \<Rightarrow> lock_discipline b' ys)"
  by (induction xs arbitrary: b) (auto split: event_kind.split signal_kind.split)

lemma derive_event_discipline:
  "\<not> is_lock_signal e \<Longrightarrow>
     lock_discipline (ld_locked d) (snd (derive_event d e)) = Some (ld_locked (fst (derive_event d e)))"
  by (auto simp: derive_event_def is_lock_signal_def lock_envelope_def Let_def
      split: event_kind.split signal_kind.split)

lemma lock_derive_discipline:
  "list_all (\<lambda>e. \<not> is_lock_signal e) es \<Longrightarrow>
     lock_discipline (ld_locked d) (snd (lock_derive d es)) = Some (ld_locked (fst (lock_derive d es)))"
  by (induction es arbitrary: d)
     (simp_all add: Let_def split_beta lock_discipline_append derive_event_discipline)

lemma adapt_event_no_lock: "list_all (\<lambda>e. \<not> is_lock_signal e) (snd (adapt_event a e))"
  by (cases e) (auto simp: adapt_defs is_lock_signal_def Let_def split: option.split)

lemma adapt_batch_no_lock: "list_all (\<lambda>e. \<not> is_lock_signal e) (snd (adapt_batch a raw))"
  by (induction raw arbitrary: a) (simp_all add: Let_def split_beta adapt_event_no_lock)

lemma is_login_focus_same_app:
  "fi_app_name a = fi_app_name b \<Longrightarrow> is_login_focus a = is_login_focus b"
  by (simp add: is_login_focus_def)

text \<open>One raw event through the adapter and the deriver.\<close>

lemma hook_envelope_input [simp]:
  "is_input_signal (hook_envelope i ts k p) \<longleftrightarrow> k = Signal KeyboardInput \<or> k = Signal MouseInput"
  "env_id (hook_envelope i ts k p) = i"
  by (simp_all add: is_input_signal_def hook_envelope_def)

lemma lock_envelope_not_input [simp]:
  "is_input_signal (lock_envelope e k r) \<longleftrightarrow> k = KeyboardInput \<or> k = MouseInput"
  by (simp add: is_input_signal_def lock_envelope_def)

lemma derive_event_hook:
  "derive_event d (hook_envelope i ts (Signal KeyboardInput) p) =
     (d, if ld_locked d then [] else [hook_envelope i ts (Signal KeyboardInput) p])"
  "derive_event d (hook_envelope i ts (Signal MouseInput) p) =
     (d, if ld_locked d then [] else [hook_envelope i ts (Signal MouseInput) p])"
  "derive_event d (hook_envelope i ts (Signal ActivityPulse) p) =
     (d, if ld_locked d then [] else [hook_envelope i ts (Signal ActivityPulse) p])"
  "derive_event d (hook_envelope i ts (Hint FocusChanged) p) = (d, [hook_envelope i ts (Hint FocusChanged) p])"
  by (simp_all add: derive_event_def hook_envelope_def)

lemma derive_event_focus:
  assumes "k = AppChanged \<or> k = WindowChanged"
  shows "derive_event d (hook_envelope i ts (Signal k) (PFocus fi)) =
    (d\<lparr>ld_locked := is_login_focus fi\<rparr>,
     if is_login_focus fi
     then (if ld_locked d then [] else [lock_envelope (hook_envelope i ts (Signal k) (PFocus fi)) LockStart ''loginwindow''])
     else (if ld_locked d then [lock_envelope (hook_envelope i ts (Signal k) (PFocus fi)) LockEnd ''unlock''] else [])
       @ [hook_envelope i ts (Signal k) (PFocus fi)])"
proof -
  have "env_kind (hook_envelope i ts (Signal k) (PFocus fi)) = Signal k"
    "env_payload (hook_envelope i ts (Signal k) (PFocus fi)) = PFocus fi"
    by (simp_all add: hook_envelope_def)
  with assms show ?thesis
    by (simp add: derive_event_def payload_is_login_def is_login_focus_def)
qed

lemma derive_focus_change:
  assumes "k = AppChanged \<or> k = WindowChanged"
  shows "ld_locked (fst (lock_derive d (focus_change_envelopes k i ts fi (is_login_focus fi)))) = is_login_focus fi"
    and "filter is_input_signal (snd (lock_derive d (focus_change_envelopes k i ts fi (is_login_focus fi)))) = []"
  using assms by (auto simp: focus_change_envelopes_def derive_event_focus derive_event_hook)

lemma derive_title_change:
  "lock_derive d [title_change_envelope i ts fi] = (d, if ld_locked d then [] else [title_change_envelope i ts fi])"
  "\<not> is_input_signal (title_change_envelope i ts fi)"
  by (simp_all add: title_change_envelope_def derive_event_def is_input_signal_def)

lemma derive_adapted_focus:
  assumes "ld_locked d = login_focused f"
  shows "ld_locked (fst (lock_derive d (adapt_focus f i ts fi))) = is_login_focus fi"
    and "filter is_input_signal (snd (lock_derive d (adapt_focus f i ts fi))) = []"
  using assms is_login_focus_same_app [of "the f" fi]
  by (auto simp: adapt_focus_def Let_def derive_focus_change derive_title_change login_focused_def
      simp del: lock_derive.simps(2) split: option.split)

lemma locked_follows_login:
  "ld_locked d = login_focused (ad_last_focus a) \<Longrightarrow>
   adapt_batch a raw = (a', envs) \<Longrightarrow> lock_derive d envs = (d', out) \<Longrightarrow>
     ld_locked d' = login_focused (ad_last_focus a') \<and>
     map env_id (filter is_input_signal out) = unlocked_input_ids (ld_locked d) raw"
proof (induction raw arbitrary: a d envs out)
  case Nil
  then show ?case by simp
next
  case (Cons e es)
  obtain a1 es1 where e: "adapt_event a e = (a1, es1)" by force
  obtain a2 es2 where r: "adapt_batch a1 es = (a2, es2)" by force
  obtain d1 o1 where d1: "lock_derive d es1 = (d1, o1)" by force
  obtain d2 o2 where d2: "lock_derive d1 es2 = (d2, o2)" by force
  have [simp]: "a' = a2" "envs = es1 @ es2" using Cons.prems(2) e r by simp_all
  have [simp]: "d' = d2" "out = o1 @ o2"
    using Cons.prems(3) d1 d2 by (simp_all add: locks.batch_append)
  have step: "ld_locked d1 = login_focused (ad_last_focus a1) \<and>
      map env_id (filter is_input_signal o1) @ unlocked_input_ids (ld_locked d1) es =
      unlocked_input_ids (ld_locked d) (e # es)"
  proof (cases e)
    case (RawWindowFocusChange ts i fi)
    with derive_adapted_focus [OF Cons.prems(1), of i ts fi] e d1 show ?thesis
      by (auto simp: login_focused_def)
  next
    case (RawKeyboardInput ts i data)
    with e d1 Cons.prems(1) show ?thesis
      by (auto simp: derive_event_hook)
  next
    case (RawMouseInput ts i data)
    with e d1 Cons.prems(1) show ?thesis
      by (auto simp: derive_event_hook)
  qed
  with Cons.IH [of d1 a1 es2 o2] r d2
  have "ld_locked d2 = login_focused (ad_last_focus a2)"
    and "map env_id (filter is_input_signal o2) = unlocked_input_ids (ld_locked d1) es"
    by simp_all
  with step [THEN conjunct2, symmetric] show ?case by (simp del: unlocked_input_ids.simps)
qed

section \<open>Properties\<close>

text \<open>
  C5: The locked session is exactly the focused login window, and input is private while it is
  locked.  For every stream of raw events, after the adapter and the lock deriver the deriver is
  locked exactly when the last focus event of the stream was on the login window, and the keyboard
  and mouse signals that leave the deriver are exactly the input events that arrived while the
  login window did not have the focus, in their order.
\<close>
theorem lock_is_login_focus:
  "case adapt_batch adapter_new raw of (a, envs) \<Rightarrow>
   case lock_derive lock_deriver_new envs of (d, out) \<Rightarrow>
     ld_locked d = (case rev (List.map_filter raw_focus raw) of [] \<Rightarrow> False | fi # _ \<Rightarrow> is_login_focus fi)
     \<and> map env_id (filter is_input_signal out) = unlocked_input_ids False raw"
proof -
  obtain a envs where a: "adapt_batch adapter_new raw = (a, envs)" by force
  obtain d out where d: "lock_derive lock_deriver_new envs = (d, out)" by force
  have "ad_last_focus a = (case rev (List.map_filter raw_focus raw) of [] \<Rightarrow> None | fi # _ \<Rightarrow> Some fi)"
    using adapt_batch_last_focus [of adapter_new raw] a by (simp add: adapter_new_def split: list.split)
  moreover have "ld_locked d = login_focused (ad_last_focus a) \<and>
     map env_id (filter is_input_signal out) = unlocked_input_ids False raw"
    using locked_follows_login [OF _ a d]
    by (simp add: lock_deriver_new_def adapter_new_def login_focused_def)
  ultimately show ?thesis
    using a d by (simp add: login_focused_def split: list.split)
qed

text \<open>
  The derived stream of every raw stream is disciplined: lock boundaries alternate, starting
  with \<open>LockStart\<close>, nothing but \<open>FocusChanged\<close> hints lies between a \<open>LockStart\<close> and its
  \<open>LockEnd\<close>, and the boundaries end in the deriver's own flag.
\<close>
theorem lock_boundaries_alternate:
  "lock_discipline False (snd (lock_derive lock_deriver_new (snd (adapt_batch adapter_new raw)))) =
     Some (ld_locked (fst (lock_derive lock_deriver_new (snd (adapt_batch adapter_new raw)))))"
  using lock_derive_discipline [OF adapt_batch_no_lock [of adapter_new raw], of lock_deriver_new]
  by (simp add: lock_deriver_new_def)

end
