(* ===== verification/Records.thy ===== *)
theory Records
  imports State_Engine Lock_Deriver
begin

text \<open>
  Activity records and the \<open>RecordBuilder\<close> of crates/core/src/records.rs: hints cut the timeline
  into records of one state and one focus each.  The builder reads the clock itself, once when it
  closes a record and once when it opens the next; both readings are arguments here.  Titles are
  interned for sharing only, so a title is its text (the interner is modelled in its own theory,
  where interning is shown to keep the text).
\<close>

section \<open>Operations\<close>

record activity_record =
  rec_id :: u64
  rec_run_id :: "string option"
  rec_start_time :: instant
  rec_end_time :: "instant option"
  rec_state :: activity_state
  rec_focus_info :: "window_focus_info option"
  rec_event_count :: u32
  rec_triggering_events :: "u64 list"

record record_builder =
  rb_current_state :: activity_state
  rb_current_record :: "activity_record option"
  rb_current_focus :: "window_focus_info option"
  rb_next_record_id :: u64

definition with_next_record_id :: "activity_state \<Rightarrow> u64 \<Rightarrow> record_builder" where
  "with_next_record_id initial_state next_record_id =
     \<lparr> rb_current_state = initial_state, rb_current_record = None, rb_current_focus = None,
       rb_next_record_id = next_record_id \<rparr>"

definition record_builder_new :: "activity_state \<Rightarrow> record_builder" where
  "record_builder_new initial_state = with_next_record_id initial_state 0"

definition start_new_current :: "instant \<Rightarrow> record_builder \<Rightarrow> record_builder" where
  "start_new_current now_utc b =
     b\<lparr> rb_current_record := Some
          \<lparr> rec_id = rb_next_record_id b, rec_run_id = None, rec_start_time = now_utc,
            rec_end_time = None, rec_state = rb_current_state b,
            rec_focus_info = rb_current_focus b, rec_event_count = 0, rec_triggering_events = [] \<rparr>,
        rb_next_record_id := rb_next_record_id b + 1 \<rparr>"

definition finalize_current :: "instant \<Rightarrow> record_builder \<Rightarrow> record_builder \<times> activity_record option" where
  "finalize_current now b = (case rb_current_record b of
      Some r \<Rightarrow> (b\<lparr>rb_current_record := None\<rparr>, Some (r\<lparr>rec_end_time := Some now\<rparr>))
    | None \<Rightarrow> (b, None))"

definition apply_focus_change ::
  "instant \<Rightarrow> instant \<Rightarrow> record_builder \<Rightarrow> window_focus_info \<Rightarrow> record_builder \<times> activity_record option" where
  "apply_focus_change t_end t_start b focus_info =
     (let b1 = b\<lparr>rb_current_focus := Some focus_info\<rparr>;
          (b2, completed) = finalize_current t_end b1
      in (start_new_current t_start b2, completed))"

definition apply_title_change ::
  "instant \<Rightarrow> instant \<Rightarrow> record_builder \<Rightarrow> u32 \<Rightarrow> string \<Rightarrow> record_builder \<times> activity_record option" where
  "apply_title_change t_end t_start b window_id new_title =
     (let should_update =
        (case map_option (\<lambda>cf. fi_window_id cf = window_id) (rb_current_focus b) of
           Some u \<Rightarrow> u | None \<Rightarrow> False)
      in if should_update then
           (let (b1, completed) = finalize_current t_end b;
                b2 = (case rb_current_focus b1 of
                        Some cf \<Rightarrow> b1\<lparr>rb_current_focus := Some (cf\<lparr>fi_window_title := new_title\<rparr>)\<rparr>
                      | None \<Rightarrow> b1)
            in (start_new_current t_start b2, completed))
         else (b, None))"

definition transition_to ::
  "instant \<Rightarrow> instant \<Rightarrow> record_builder \<Rightarrow> activity_state \<Rightarrow> record_builder \<times> activity_record option" where
  "transition_to t_end t_start b to =
     (if rb_current_state b \<noteq> to then
        (let (b1, completed) = finalize_current t_end b;
             b2 = b1\<lparr>rb_current_state := to\<rparr>
         in (start_new_current t_start b2, completed))
      else (b, None))"

definition on_hint ::
  "instant \<Rightarrow> instant \<Rightarrow> record_builder \<Rightarrow> event_envelope \<Rightarrow> record_builder \<times> activity_record option" where
  "on_hint t_end t_start b env = (case env_kind env of
      Hint FocusChanged \<Rightarrow> (case env_payload env of
          PFocus f \<Rightarrow> apply_focus_change t_end t_start b f | _ \<Rightarrow> (b, None))
    | Hint StateChanged \<Rightarrow> (case env_payload env of
          PState _ to \<Rightarrow> transition_to t_end t_start b to | _ \<Rightarrow> (b, None))
    | Hint TitleChanged \<Rightarrow> (case env_payload env of
          PTitle window_id title \<Rightarrow> apply_title_change t_end t_start b window_id title | _ \<Rightarrow> (b, None))
    | _ \<Rightarrow> (b, None))"

definition finalize_all :: "instant \<Rightarrow> record_builder \<Rightarrow> record_builder \<times> activity_record option" where
  "finalize_all now b = finalize_current now b"

section \<open>Runs\<close>

text \<open>
  A run of the builder over hints, each with the two clock readings its handling may take; the
  completed records in the order in which the builder returns them, and the record \<open>finalize_all\<close>
  returns at the end.
\<close>

type_synonym timed_hint = "event_envelope \<times> instant \<times> instant"

fun builder_step :: "record_builder \<Rightarrow> timed_hint \<Rightarrow> record_builder \<times> activity_record list" where
  "builder_step b (env, t_end, t_start) =
     (let (b', r) = on_hint t_end t_start b env in (b', case r of None \<Rightarrow> [] | Some x \<Rightarrow> [x]))"

fun builder_run :: "record_builder \<Rightarrow> timed_hint list \<Rightarrow> record_builder \<times> activity_record list" where
  "builder_run b [] = (b, [])"
| "builder_run b (h # hs) =
     (let (b', r) = builder_step b h; (b'', rs) = builder_run b' hs in (b'', r @ rs))"

definition all_records :: "record_builder \<Rightarrow> timed_hint list \<Rightarrow> instant \<Rightarrow> activity_record list" where
  "all_records b hs t_final =
     (let (b', rs) = builder_run b hs; (_, r) = finalize_all t_final b'
      in rs @ (case r of None \<Rightarrow> [] | Some x \<Rightarrow> [x]))"

section \<open>Specification\<close>

text \<open>
  What a hint means for the timeline, without records, ids and clocks: the state and focus that
  hold after it, or \<open>None\<close> when it does not cut the timeline.
\<close>

type_synonym view = "activity_state \<times> window_focus_info option"

fun next_view :: "view \<Rightarrow> event_envelope \<Rightarrow> view option" where
  "next_view (s, f) env = (case (env_kind env, env_payload env) of
      (Hint FocusChanged, PFocus g) \<Rightarrow> Some (s, Some g)
    | (Hint StateChanged, PState _ to) \<Rightarrow> if s = to then None else Some (to, f)
    | (Hint TitleChanged, PTitle w t) \<Rightarrow>
        (case f of Some g \<Rightarrow> if fi_window_id g = w then Some (s, Some (g\<lparr>fi_window_title := t\<rparr>)) else None
         | None \<Rightarrow> None)
    | _ \<Rightarrow> None)"

fun split_views :: "view \<Rightarrow> event_envelope list \<Rightarrow> view list" where
  "split_views v [] = []"
| "split_views v (h # hs) = (case next_view v h of None \<Rightarrow> split_views v hs | Some v' \<Rightarrow> v' # split_views v' hs)"

definition record_view :: "activity_record \<Rightarrow> view" where
  "record_view r = (rec_state r, rec_focus_info r)"

definition builder_view :: "record_builder \<Rightarrow> view" where
  "builder_view b = (rb_current_state b, rb_current_focus b)"

text \<open>The clock readings of a run, in the order in which the builder takes them.\<close>

definition clock_readings :: "timed_hint list \<Rightarrow> instant list" where
  "clock_readings hs = concat (map (\<lambda>(_, t_end, t_start). [t_end, t_start]) hs)"

definition closed_at :: "activity_record \<Rightarrow> instant \<Rightarrow> bool" where
  "closed_at r t \<longleftrightarrow> rec_end_time r = Some t"

section \<open>Lemmas\<close>

lemmas builder_op_defs =
  on_hint_def apply_focus_change_def apply_title_change_def transition_to_def start_new_current_def

definition builder_inv :: "record_builder \<Rightarrow> bool" where
  "builder_inv b \<longleftrightarrow> (case rb_current_record b of None \<Rightarrow> True
     | Some r \<Rightarrow> record_view r = builder_view b \<and> rec_id r + 1 = rb_next_record_id b
         \<and> rec_end_time r = None \<and> rec_event_count r = 0 \<and> rec_triggering_events r = [])"

lemma with_next_record_id_inv [kronical_inv]: "builder_inv (with_next_record_id s n)"
  by (simp add: builder_inv_def with_next_record_id_def)

text \<open>What one hint does, in terms of the views.\<close>

lemma on_hint_no_split:
  "next_view (builder_view b) env = None \<Longrightarrow> on_hint t_end t_start b env = (b, None)"
  by (auto simp: builder_op_defs builder_view_def
      split: event_kind.splits hint_kind.splits event_payload.splits if_splits option.splits)

definition opened :: "view \<Rightarrow> instant \<Rightarrow> record_builder \<Rightarrow> record_builder" where
  "opened v t b = start_new_current t (b\<lparr>rb_current_state := fst v, rb_current_focus := snd v, rb_current_record := None\<rparr>)"

lemma on_hint_split:
  assumes "next_view (builder_view b) env = Some v"
  shows "on_hint t_end t_start b env =
    (opened v t_start b, map_option (\<lambda>r. r\<lparr>rec_end_time := Some t_end\<rparr>) (rb_current_record b))"
  using assms
  by (cases b)
     (auto simp: builder_op_defs builder_view_def opened_def finalize_current_def Let_def
      split: event_kind.splits hint_kind.splits event_payload.splits if_splits option.splits)

lemma opened_simps [simp]:
  "builder_view (opened v t b) = v"
  "rb_next_record_id (opened v t b) = rb_next_record_id b + 1"
  "builder_inv (opened v t b)"
  "\<exists>r. rb_current_record (opened v t b) = Some r"
  by (simp_all add: opened_def start_new_current_def builder_view_def builder_inv_def record_view_def)

lemma opened_record:
  "rb_current_record (opened v t b) = Some
     \<lparr> rec_id = rb_next_record_id b, rec_run_id = None, rec_start_time = t, rec_end_time = None,
       rec_state = fst v, rec_focus_info = snd v, rec_event_count = 0, rec_triggering_events = [] \<rparr>"
  by (simp add: opened_def start_new_current_def)

interpretation builder: batch_component builder_step builder_run
proof
  show "builder_run s xs = run_steps builder_step s xs" for s xs
    by (induction xs arbitrary: s) (simp_all add: Let_def)
qed

text \<open>
  The records of a run from a builder: its open record, closed, then one record per split.
\<close>

definition open_list :: "record_builder \<Rightarrow> activity_record list" where
  "open_list b = (case rb_current_record b of None \<Rightarrow> [] | Some r \<Rightarrow> [r])"

lemma all_records_Nil:
  "all_records b [] t = map (\<lambda>r. r\<lparr>rec_end_time := Some t\<rparr>) (open_list b)"
  by (simp add: all_records_def finalize_all_def finalize_current_def open_list_def split: option.split)

lemma all_records_no_split:
  "next_view (builder_view b) env = None \<Longrightarrow>
     all_records b ((env, t_end, t_start) # hs) t = all_records b hs t"
  by (simp add: all_records_def on_hint_no_split Let_def split_beta)

lemma all_records_split:
  "next_view (builder_view b) env = Some v \<Longrightarrow>
     all_records b ((env, t_end, t_start) # hs) t =
       map (\<lambda>r. r\<lparr>rec_end_time := Some t_end\<rparr>) (open_list b) @ all_records (opened v t_start b) hs t"
  by (simp add: all_records_def on_hint_split open_list_def Let_def split_beta split: option.split)

lemma open_list_opened: "map record_view (open_list (opened v t b)) = [v]"
  "map rec_id (open_list (opened v t b)) = [rb_next_record_id b]"
  by (simp_all add: open_list_def opened_record record_view_def)

lemma record_view_closed [simp]: "record_view (r\<lparr>rec_end_time := t\<rparr>) = record_view r"
  by (simp add: record_view_def)

lemma all_records_views:
  "map record_view (all_records b hs t) =
     map record_view (open_list b) @ split_views (builder_view b) (map fst hs)"
proof (induction hs arbitrary: b)
  case Nil
  then show ?case by (simp add: all_records_Nil comp_def)
next
  case (Cons h hs)
  obtain env te ts where h: "h = (env, te, ts)" by (cases h)
  show ?case
    by (cases "next_view (builder_view b) env")
       (simp_all add: h all_records_no_split all_records_split Cons.IH open_list_opened comp_def)
qed

text \<open>Ids count up from the builder's next id.\<close>

fun count_from :: "u64 \<Rightarrow> nat \<Rightarrow> u64 list" where
  "count_from i 0 = []"
| "count_from i (Suc n) = i # count_from (i + 1) n"

lemma all_records_ids:
  "map rec_id (all_records b hs t) =
     map rec_id (open_list b) @ count_from (rb_next_record_id b) (length (split_views (builder_view b) (map fst hs)))"
proof (induction hs arbitrary: b)
  case Nil
  then show ?case by (simp add: all_records_Nil comp_def)
next
  case (Cons h hs)
  obtain env te ts where h: "h = (env, te, ts)" by (cases h)
  show ?case
    by (cases "next_view (builder_view b) env")
       (simp_all add: h all_records_no_split all_records_split Cons.IH open_list_opened comp_def)
qed

lemma set_count_from: "set (count_from i n) = (\<lambda>k. i + of_nat k) ` {..<n}"
proof (induction n arbitrary: i)
  case (Suc n)
  have "{..<Suc n} = insert 0 (Suc ` {..<n})" by (rule lessThan_Suc_eq_insert_0)
  then show ?case by (simp add: Suc.IH image_image add.assoc)
qed simp

lemma distinct_count_from: "n \<le> 2 ^ 64 \<Longrightarrow> distinct (count_from i n)"
proof (induction n arbitrary: i)
  case (Suc n)
  have "i \<noteq> i + 1 + of_nat k" if "k < n" for k
  proof
    assume "i = i + 1 + of_nat k"
    then have "of_nat (Suc k) = (0 :: u64)" by (simp add: algebra_simps)
    then have "2 ^ 64 dvd Suc k" by (simp add: word_of_nat_eq_0_iff del: of_nat_Suc)
    with that Suc.prems show False by (auto dest: dvd_imp_le)
  qed
  then have "i \<notin> set (count_from (i + 1) n)" by (auto simp: set_count_from)
  with Suc show ?case by simp
qed simp

text \<open>The timeline of a run under a clock that does not run backwards.\<close>

definition timeline :: "activity_record list \<Rightarrow> bool" where
  "timeline rs \<longleftrightarrow>
     list_all (\<lambda>r. \<exists>t. closed_at r t \<and> rec_start_time r \<le> t) rs \<and>
     chain (\<lambda>r r'. \<exists>t. closed_at r t \<and> t \<le> rec_start_time r') rs"

lemma timeline_Cons:
  "timeline (r # rs) \<longleftrightarrow> (\<exists>t. closed_at r t \<and> rec_start_time r \<le> t \<and> (rs = [] \<or> t \<le> rec_start_time (hd rs))) \<and> timeline rs"
  by (auto simp: timeline_def chain_Cons closed_at_def)

lemma clock_readings_simps [simp]: "clock_readings [] = []" "clock_readings ((e, t1, t2) # hs) = t1 # t2 # clock_readings hs"
  by (simp_all add: clock_readings_def)

lemma all_records_hd:
  "rb_current_record b = Some r \<Longrightarrow>
     all_records b hs t \<noteq> [] \<and> rec_start_time (hd (all_records b hs t)) = rec_start_time r"
proof (induction hs arbitrary: b)
  case Nil
  then show ?case by (simp add: all_records_Nil open_list_def)
next
  case (Cons h hs)
  obtain env te ts where h: "h = (env, te, ts)" by (cases h)
  with Cons show ?case
    by (cases "next_view (builder_view b) env")
       (simp_all add: all_records_no_split all_records_split open_list_def)
qed

lemma all_records_timeline:
  "sorted (t0 # clock_readings hs @ [t]) \<Longrightarrow> list_all (\<lambda>r. rec_start_time r \<le> t0) (open_list b) \<Longrightarrow>
     timeline (all_records b hs t)"
proof (induction hs arbitrary: b t0)
  case Nil
  then show ?case
    by (auto simp: all_records_Nil open_list_def timeline_def closed_at_def split: option.splits)
next
  case (Cons h hs)
  obtain env te ts where h: "h = (env, te, ts)" by (cases h)
  from Cons.prems(1) h have clk: "t0 \<le> te" "te \<le> ts" "sorted (ts # clock_readings hs @ [t])" by auto
  show ?case
  proof (cases "next_view (builder_view b) env")
    case None
    have "sorted (t0 # clock_readings hs @ [t])" using clk by auto
    with Cons.IH [OF _ Cons.prems(2)] None show ?thesis by (simp add: h all_records_no_split)
  next
    case (Some v)
    let ?b = "opened v ts b"
    have "list_all (\<lambda>r. rec_start_time r \<le> ts) (open_list ?b)"
      by (simp add: open_list_def opened_record)
    then have "timeline (all_records ?b hs t)" by (rule Cons.IH [OF clk(3)])
    moreover have "rec_start_time (hd (all_records ?b hs t)) = ts"
      using all_records_hd [OF opened_record, of v ts b hs t] by simp
    ultimately show ?thesis
      using Cons.prems(2) clk Some
      by (auto simp: h all_records_split open_list_def timeline_Cons closed_at_def split: option.splits)
  qed
qed

text \<open>The builder follows the state of the hints it reads.\<close>

lemma builder_state_path:
  "hint_path (rb_current_state b) (map fst hs) s \<Longrightarrow> list_all is_state_hint (map fst hs) \<Longrightarrow>
     rb_current_state (fst (builder_run b hs)) = s"
proof (induction hs arbitrary: b)
  case Nil
  then show ?case by simp
next
  case (Cons h hs)
  obtain env te ts where h: "h = (env, te, ts)" by (cases h)
  from Cons.prems h obtain y where y: "env_payload env = PState (rb_current_state b) y"
    "y \<noteq> rb_current_state b" "hint_path y (map fst hs) s" "env_kind env = Hint StateChanged"
    by (auto simp: is_state_hint_def split: event_payload.splits)
  have "rb_current_state (fst (on_hint te ts b env)) = y"
    using y by (simp add: on_hint_def transition_to_def start_new_current_def finalize_current_def split: option.split)
  with Cons y(3) show ?case by (simp add: h Let_def split_beta)
qed

section \<open>Properties\<close>

text \<open>
  C4: The records are exactly the pieces the hints cut the timeline into.  A fresh builder that
  reads any list of hints and is then finalized returns one record per hint that changes the state,
  the focus or the title of the focused window, with the state and focus that hold after that hint,
  in order, whatever the clock reads, and with consecutive ids from the given first id.
\<close>
theorem records_are_segments:
  "map record_view (all_records (with_next_record_id s0 n) hs t) = split_views (s0, None) (map fst hs)
   \<and> map rec_id (all_records (with_next_record_id s0 n) hs t) =
       count_from n (length (split_views (s0, None) (map fst hs)))"
  by (simp add: all_records_views all_records_ids)
     (simp add: with_next_record_id_def open_list_def builder_view_def)

text \<open>
  Record ids are unique within a run of fewer than \<open>2 ^ 64\<close> hints, also where the counter
  wraps around.
\<close>
theorem record_ids_distinct:
  assumes "length hs \<le> 2 ^ 64"
  shows "distinct (map rec_id (all_records (with_next_record_id s0 n) hs t))"
proof -
  have "length (split_views v es) \<le> length es" for v es
    by (induction es arbitrary: v) (auto split: option.split intro: le_SucI)
  from this [of "(s0, None)" "map fst hs"] assms show ?thesis
    by (simp add: all_records_ids)
       (simp add: with_next_record_id_def open_list_def builder_view_def distinct_count_from)
qed

definition demo_hints :: "timed_hint list" where
  "demo_hints =
     [(state_hint 1 0 \<lparr>tr_from = Inactive, tr_to = Active\<rparr>, 10, 11),
      (hook_envelope 2 0 (Hint FocusChanged) (PFocus (demo_focus ''Mail'' 4 ''Inbox'')), 20, 21),
      (title_change_envelope 3 0 (demo_focus ''Mail'' 5 ''Other''), 30, 31),
      (title_change_envelope 4 0 (demo_focus ''Mail'' 4 ''Sent''), 40, 41)]"

lemma demo_hints_records:
  "map (\<lambda>r. (rec_id r, rec_state r, rec_start_time r, rec_end_time r))
     (all_records (with_next_record_id Inactive (- 1)) demo_hints 50) =
   [(- 1, Active, 11, Some 20), (0, Active, 21, Some 40), (1, Active, 41, Some 50)]"
  by code_simp

theorem record_ids_distinct_witness:
  "distinct (map rec_id (all_records (with_next_record_id Inactive (- 1)) demo_hints 50))"
  by (rule record_ids_distinct) (simp add: demo_hints_def)

text \<open>
  Under a clock that does not run backwards the records of a run form a timeline: every record
  is closed, ends no earlier than it starts, and ends no later than the next record starts, so
  records never overlap.
\<close>
theorem records_do_not_overlap:
  assumes "sorted (clock_readings hs @ [t])"
  shows "timeline (all_records (with_next_record_id s0 n) hs t)"
proof -
  define t0 where "t0 = hd (clock_readings hs @ [t])"
  have "sorted (t0 # clock_readings hs @ [t])"
    using assms unfolding t0_def by (cases "clock_readings hs @ [t]") auto
  then show ?thesis
    by (rule all_records_timeline) (simp add: with_next_record_id_def open_list_def)
qed

theorem records_do_not_overlap_witness:
  "timeline (all_records (with_next_record_id Inactive 0) demo_hints 50)"
  by (rule records_do_not_overlap) (simp add: demo_hints_def)

text \<open>
  The record builder and the state deriver agree: a builder that starts in \<open>Inactive\<close> and reads
  the hints of a run of the deriver, at whatever times, is in the deriver's state.
\<close>
theorem builder_follows_engine:
  assumes "deriver_run (state_deriver_new t0 grace idle) h = (d, map fst hs)"
  shows "rb_current_state (fst (builder_run (with_next_record_id Inactive n) hs)) = deriver_state d"
proof -
  have "hint_path Inactive (map fst hs) (deriver_state d)" "list_all is_state_hint (map fst hs)"
    using deriver_run_path [OF deriver_new_inv assms] by (simp_all add: state_deriver_new_def engine_new_def)
  then show ?thesis by (intro builder_state_path) (simp_all add: with_next_record_id_def)
qed

theorem builder_follows_engine_witness:
  "rb_current_state (fst (builder_run (with_next_record_id Inactive 0)
       (map (\<lambda>e. (e, 1, 1)) (snd (deriver_run (state_deriver_new 0 30 120) demo_history)))))
   = deriver_state (fst (deriver_run (state_deriver_new 0 30 120) demo_history))"
  by (rule builder_follows_engine [of 0 30 120 demo_history])
     (simp add: comp_def prod_eq_iff)

end
