(* ===== verification/Snapshot_Bus.thy ===== *)
theory Snapshot_Bus
  imports Records
begin

text \<open>
  The snapshot bus of crates/core/src/snapshot.rs: the last snapshot, the last 64 state transitions
  and the last 64 health messages.  The bus owns a receiver of each watch channel, so a send never
  fails and a value sent is the value the next borrow sees; transitions are pushed by the snapshot
  stage only and health messages by the storage writer only, so the read and the write of a push
  are one step.
\<close>

section \<open>Data\<close>

record transition =
  trn_from :: activity_state
  trn_to :: activity_state
  trn_at :: instant
  trn_by_signal :: "string option"
  trn_run_id :: "string option"

record counts =
  signals_seen :: u64
  hints_seen :: u64
  records_emitted :: u64

definition counts_default :: counts where
  "counts_default = \<lparr> signals_seen = 0, hints_seen = 0, records_emitted = 0 \<rparr>"

record storage_info =
  backlog_count :: u64
  last_flush_at :: "instant option"

text \<open>A \<open>usize\<close> is 64 bits wide on the platforms the daemon is built for.\<close>

record config_summary =
  cfg_active_grace_secs :: u64
  cfg_idle_threshold_secs :: u64
  cfg_retention_minutes :: u64
  cfg_ephemeral_max_duration_secs :: u64
  cfg_ephemeral_min_distinct_ids :: u64
  cfg_ephemeral_app_max_duration_secs :: u64
  cfg_ephemeral_app_min_distinct_procs :: u64

definition config_summary_default :: config_summary where
  "config_summary_default =
     \<lparr> cfg_active_grace_secs = 0, cfg_idle_threshold_secs = 0, cfg_retention_minutes = 0,
       cfg_ephemeral_max_duration_secs = 0, cfg_ephemeral_min_distinct_ids = 0,
       cfg_ephemeral_app_max_duration_secs = 0, cfg_ephemeral_app_min_distinct_procs = 0 \<rparr>"

record snapshot_window =
  sw_window_id :: string
  sw_window_title :: string
  sw_first_seen :: instant
  sw_last_seen :: instant
  sw_duration_seconds :: u64
  sw_is_group :: bool

record snapshot_app =
  sa_app_name :: string
  sa_pid :: i32
  sa_process_start_time :: u64
  sa_windows :: "snapshot_window list"
  sa_total_duration_secs :: u64
  sa_total_duration_pretty :: string

record snapshot =
  sn_seq :: u64
  sn_mono_ns :: u64
  sn_run_id :: "string option"
  sn_activity_state :: activity_state
  sn_focus :: "window_focus_info option"
  sn_last_transition :: "transition option"
  sn_transitions_recent :: "transition list"
  sn_counts :: counts
  sn_cadence_ms :: u32
  sn_cadence_reason :: string
  sn_next_timeout :: "instant option"
  sn_storage :: storage_info
  sn_config :: config_summary
  sn_health :: "string list"
  sn_aggregated_apps :: "snapshot_app list"
  sn_records :: "activity_record list"

definition snapshot_empty :: "u64 \<Rightarrow> snapshot" where
  "snapshot_empty mono_ns =
     \<lparr> sn_seq = 0, sn_mono_ns = mono_ns, sn_run_id = None, sn_activity_state = Inactive,
       sn_focus = None, sn_last_transition = None, sn_transitions_recent = [],
       sn_counts = counts_default, sn_cadence_ms = 0, sn_cadence_reason = [], sn_next_timeout = None,
       sn_storage = \<lparr> backlog_count = 0, last_flush_at = None \<rparr>, sn_config = config_summary_default,
       sn_health = [], sn_aggregated_apps = [], sn_records = [] \<rparr>"

section \<open>Operations\<close>

record snapshot_bus =
  bus_seq :: u64
  bus_run_id :: "string option"
  bus_snapshot :: snapshot
  bus_health :: "string list"
  bus_transitions :: "transition list"

definition bus_new :: "u64 \<Rightarrow> snapshot_bus" where
  "bus_new mono_ns = \<lparr> bus_seq = 0, bus_run_id = None, bus_snapshot = snapshot_empty mono_ns,
     bus_health = [], bus_transitions = [] \<rparr>"

definition bus_new_with_run_id :: "u64 \<Rightarrow> string \<Rightarrow> snapshot_bus" where
  "bus_new_with_run_id mono_ns run_id = (bus_new mono_ns)\<lparr> bus_run_id := Some run_id \<rparr>"

definition recent_transitions :: "snapshot_bus \<Rightarrow> nat \<Rightarrow> transition list" where
  "recent_transitions bus limit =
     (let buf = bus_transitions bus; n = min limit (length buf) in take n (rev buf))"

definition publish_basic ::
  "u64 \<Rightarrow> activity_state \<Rightarrow> window_focus_info option \<Rightarrow> transition option \<Rightarrow> activity_record list \<Rightarrow>
   counts \<Rightarrow> u32 \<Rightarrow> string \<Rightarrow> instant option \<Rightarrow> storage_info \<Rightarrow> config_summary \<Rightarrow> string list \<Rightarrow>
   snapshot_app list \<Rightarrow> snapshot_bus \<Rightarrow> snapshot_bus" where
  "publish_basic mono_ns state focus last_transition records cnts cadence_ms cadence_reason
     next_timeout storage config health aggregated_apps bus =
     (let seq = bus_seq bus + 1; bus1 = bus\<lparr> bus_seq := bus_seq bus + 1 \<rparr>
      in bus1\<lparr> bus_snapshot :=
           \<lparr> sn_seq = seq, sn_mono_ns = mono_ns, sn_run_id = bus_run_id bus,
             sn_activity_state = state, sn_focus = focus, sn_last_transition = last_transition,
             sn_transitions_recent = recent_transitions bus1 5, sn_counts = cnts,
             sn_cadence_ms = cadence_ms, sn_cadence_reason = cadence_reason,
             sn_next_timeout = next_timeout, sn_storage = storage, sn_config = config,
             sn_health = health, sn_aggregated_apps = aggregated_apps, sn_records = records \<rparr> \<rparr>)"

definition push_back64 :: "'a list \<Rightarrow> 'a \<Rightarrow> 'a list" where
  "push_back64 buf x = (if 64 \<le> length buf then tl buf else buf) @ [x]"

definition push_transition :: "snapshot_bus \<Rightarrow> transition \<Rightarrow> snapshot_bus" where
  "push_transition bus t = bus\<lparr> bus_transitions := push_back64 (bus_transitions bus) t \<rparr>"

definition push_health :: "snapshot_bus \<Rightarrow> string \<Rightarrow> snapshot_bus" where
  "push_health bus msg = bus\<lparr> bus_health := push_back64 (bus_health bus) msg \<rparr>"

definition current_health :: "snapshot_bus \<Rightarrow> string list" where
  "current_health bus = bus_health bus"

section \<open>Bounded histories\<close>

text \<open>
  The contract of a push that keeps at most \<open>cap\<close> entries and drops the oldest: after any sequence
  of pushes the store holds the last \<open>cap\<close> entries pushed.
\<close>

locale bounded_history =
  fixes push :: "'b \<Rightarrow> 'a \<Rightarrow> 'b" and entries :: "'b \<Rightarrow> 'a list" and cap :: nat
  assumes cap_pos: "0 < cap"
    and push_entries: "entries (push b x) = (if cap \<le> length (entries b) then tl (entries b) else entries b) @ [x]"
begin

lemma pushes_last:
  assumes "entries b = last_n cap h"
  shows "entries (foldl push b xs) = last_n cap (h @ xs)"
  using assms
proof (induction xs arbitrary: b h)
  case Nil
  then show ?case by simp
next
  case (Cons x xs)
  have "entries (push b x) = last_n cap (h @ [x])"
    using Cons.prems last_n_snoc [OF cap_pos, of h x] by (simp add: push_entries)
  from Cons.IH [OF this] show ?case by simp
qed

lemma pushes_from_empty: "entries b = [] \<Longrightarrow> entries (foldl push b xs) = last_n cap xs"
  using pushes_last [of b "[]" xs] by simp

lemma pushes_bounded: "entries b = [] \<Longrightarrow> length (entries (foldl push b xs)) \<le> cap"
  by (simp add: pushes_from_empty)

end

interpretation transitions: bounded_history push_transition bus_transitions 64
  by unfold_locales (simp_all add: push_transition_def push_back64_def)

interpretation health: bounded_history push_health bus_health 64
  by unfold_locales (simp_all add: push_health_def push_back64_def)

text \<open>The operations of the bus as events, to speak of their interleaving.\<close>

datatype bus_event = BusTransition transition | BusHealth string
  | BusPublish u64 activity_state "window_focus_info option" "transition option" "activity_record list" counts

definition bus_apply :: "snapshot_bus \<Rightarrow> bus_event \<Rightarrow> snapshot_bus" where
  "bus_apply bus ev = (case ev of
      BusTransition t \<Rightarrow> push_transition bus t
    | BusHealth m \<Rightarrow> push_health bus m
    | BusPublish ns s f lt rs c \<Rightarrow>
        publish_basic ns s f lt rs c 0 [] None \<lparr> backlog_count = 0, last_flush_at = None \<rparr>
          config_summary_default (current_health bus) [] bus)"

definition pushed_transitions :: "bus_event list \<Rightarrow> transition list" where
  "pushed_transitions evs = List.map_filter (\<lambda>ev. case ev of BusTransition t \<Rightarrow> Some t | _ \<Rightarrow> None) evs"

definition pushed_health :: "bus_event list \<Rightarrow> string list" where
  "pushed_health evs = List.map_filter (\<lambda>ev. case ev of BusHealth m \<Rightarrow> Some m | _ \<Rightarrow> None) evs"

definition is_publish :: "bus_event \<Rightarrow> bool" where
  "is_publish ev = (case ev of BusPublish _ _ _ _ _ _ \<Rightarrow> True | _ \<Rightarrow> False)"

section \<open>Lemmas\<close>

lemma recent_transitions_take: "recent_transitions bus n = take n (rev (bus_transitions bus))"
  by (auto simp: recent_transitions_def Let_def min_def)

definition bus_history :: "bus_event list \<Rightarrow> snapshot_bus \<Rightarrow> bool" where
  "bus_history evs bus \<longleftrightarrow>
     bus_transitions bus = last_n 64 (pushed_transitions evs) \<and>
     bus_health bus = last_n 64 (pushed_health evs) \<and>
     bus_seq bus = of_nat (length (filter is_publish evs)) \<and>
     sn_seq (bus_snapshot bus) = bus_seq bus"

lemma map_filter_snoc: "List.map_filter f (xs @ [x]) = List.map_filter f xs @ (case f x of None \<Rightarrow> [] | Some y \<Rightarrow> [y])"
  by (simp add: List.map_filter_def split: option.split)

lemma bus_apply_history:
  assumes h: "bus_history evs bus"
  shows "bus_history (evs @ [ev]) (bus_apply bus ev)"
proof (cases ev)
  case (BusTransition t)
  have "bus_transitions (push_transition bus t) = last_n 64 (pushed_transitions evs @ [t])"
    using transitions.pushes_last [of bus "pushed_transitions evs" "[t]"] h by (simp add: bus_history_def)
  with h BusTransition show ?thesis
    by (simp add: bus_history_def bus_apply_def pushed_transitions_def pushed_health_def map_filter_snoc
        is_publish_def push_transition_def)
next
  case (BusHealth m)
  have "bus_health (push_health bus m) = last_n 64 (pushed_health evs @ [m])"
    using health.pushes_last [of bus "pushed_health evs" "[m]"] h by (simp add: bus_history_def)
  with h BusHealth show ?thesis
    by (simp add: bus_history_def bus_apply_def pushed_transitions_def pushed_health_def map_filter_snoc
        is_publish_def push_health_def)
next
  case (BusPublish ns s f lt rs c)
  with h show ?thesis
    by (simp add: bus_history_def bus_apply_def pushed_transitions_def pushed_health_def map_filter_snoc
        is_publish_def publish_basic_def Let_def add.commute)
qed

lemma bus_run_history: "bus_history evs (foldl bus_apply (bus_new ns) evs)"
proof (induction evs rule: rev_induct)
  case Nil
  then show ?case
    by (simp add: bus_history_def bus_new_def snapshot_empty_def pushed_transitions_def pushed_health_def List.map_filter_def)
next
  case (snoc ev evs)
  then show ?case by (simp add: bus_apply_history)
qed

section \<open>Properties\<close>

text \<open>
  The bus keeps the newest history of every interleaving of its operations: after any sequence
  of pushed transitions, pushed health messages and published snapshots, the transition and health
  buffers are the last 64 pushed, and the sequence number of the last snapshot counts the snapshots
  published (modulo \<open>2 ^ 64\<close>).
\<close>
theorem bus_keeps_newest:
  "bus_transitions (foldl bus_apply (bus_new ns) evs) = last_n 64 (pushed_transitions evs)
   \<and> current_health (foldl bus_apply (bus_new ns) evs) = last_n 64 (pushed_health evs)
   \<and> sn_seq (bus_snapshot (foldl bus_apply (bus_new ns) evs)) = of_nat (length (filter is_publish evs))"
  using bus_run_history [of evs ns] by (simp add: bus_history_def current_health_def)

text \<open>
  A published snapshot shows the newest transitions first: its \<open>transitions_recent\<close> are the
  last five transitions pushed before it, newest first, and \<open>recent_transitions n\<close> gives the newest
  \<open>n\<close> for every \<open>n\<close> up to the capacity.
\<close>
theorem bus_recent_newest_first:
  assumes "n \<le> 64" and "bus = foldl bus_apply (bus_new ns) evs"
  shows "recent_transitions bus n = take n (rev (pushed_transitions evs))
    \<and> sn_transitions_recent (bus_snapshot (bus_apply bus (BusPublish ns' s f lt rs c))) =
        take 5 (rev (pushed_transitions evs))"
proof -
  have "bus_transitions bus = last_n 64 (pushed_transitions evs)"
    using bus_run_history [of evs ns] assms(2) by (simp add: bus_history_def)
  then show ?thesis
    using assms(1) by (simp add: bus_apply_def publish_basic_def Let_def recent_transitions_take take_rev_last_n)
qed

definition demo_transition :: "activity_state \<Rightarrow> activity_state \<Rightarrow> instant \<Rightarrow> transition" where
  "demo_transition a b t = \<lparr> trn_from = a, trn_to = b, trn_at = t, trn_by_signal = None, trn_run_id = None \<rparr>"

theorem bus_recent_newest_first_witness:
  "recent_transitions (foldl bus_apply (bus_new 1)
      [BusTransition (demo_transition Inactive Active 4), BusTransition (demo_transition Active Passive 9)]) 1
   = [demo_transition Active Passive 9]"
  using bus_recent_newest_first [of 1 _ 1 "[BusTransition (demo_transition Inactive Active 4),
      BusTransition (demo_transition Active Passive 9)]", OF _ refl]
  by (simp add: pushed_transitions_def List.map_filter_def)

end
