(* ===== verification/Aggregation.thy ===== *)
theory Aggregation
  imports Records
begin

text \<open>
  \<open>aggregate_activities_since\<close> of crates/core/src/records.rs: activity records become totals per
  application and per window since a given time; short-lived windows of one title are collected in
  ephemeral groups, windows of one title with close activity in temporal groups, and the remaining
  windows are cut to the most recent ones.

  The orders in which the hash maps are iterated and the Unicode functions \<open>trim\<close> and
  \<open>to_lowercase\<close> are parameters (\<open>agg_env\<close>).  A \<open>HashSet\<close> is a set.
\<close>

section \<open>Data\<close>

record window_activity =
  wa_window_id :: u32
  wa_window_title :: string
  wa_duration_seconds :: u64
  wa_first_seen :: instant
  wa_last_seen :: instant
  wa_record_count :: u32

record ephemeral_group =
  eg_title_key :: string
  eg_distinct_ids :: "u32 set"
  eg_occurrence_count :: u32
  eg_total_duration_seconds :: u64
  eg_first_seen :: instant
  eg_last_seen :: instant

record temporal_group =
  tg_title_key :: string
  tg_distinct_ids :: "u32 set"
  tg_occurrence_count :: u32
  tg_total_duration_seconds :: u64
  tg_max_duration_seconds :: u64
  tg_first_seen :: instant
  tg_last_seen :: instant
  tg_anchor_last_seen :: instant

record aggregated_activity =
  aa_app_name :: string
  aa_pid :: i32
  aa_process_start_time :: u64
  aa_windows :: "(u32 \<times> window_activity) list"
  aa_ephemeral_groups :: "(string \<times> ephemeral_group) list"
  aa_temporal_groups :: "temporal_group list"
  aa_total_duration_seconds :: u64
  aa_first_seen :: instant
  aa_last_seen :: instant

type_synonym app_key = "u32 \<times> u64"
type_synonym window_entry = "u32 \<times> window_activity"

text \<open>
  The parameters: iteration over an app's windows (three times, told apart by a number), over the
  staged groups and the titles of an app, and over the apps, and the two string functions.
\<close>

record agg_env =
  it_windows :: "nat \<Rightarrow> app_key \<Rightarrow> window_entry list \<Rightarrow> window_entry list"
  it_staged :: "app_key \<Rightarrow> (string \<times> ephemeral_group) list \<Rightarrow> (string \<times> ephemeral_group) list"
  it_titles :: "app_key \<Rightarrow> (string \<times> window_entry list) list \<Rightarrow> (string \<times> window_entry list) list"
  it_apps :: "(app_key \<times> aggregated_activity) list \<Rightarrow> (app_key \<times> aggregated_activity) list"
  str_trim :: "string \<Rightarrow> string"
  str_to_lowercase :: "string \<Rightarrow> string"

definition agg_env_ok :: "agg_env \<Rightarrow> bool" where
  "agg_env_ok E \<longleftrightarrow> (\<forall>n k. iterates (it_windows E n k)) \<and> (\<forall>k. iterates (it_staged E k)) \<and>
     (\<forall>k. iterates (it_titles E k)) \<and> iterates (it_apps E)"

section \<open>Operations\<close>

definition normalize_title :: "agg_env \<Rightarrow> string \<Rightarrow> string" where
  "normalize_title E s = str_to_lowercase E (str_trim E s)"

definition agg_app_key :: "window_focus_info \<Rightarrow> app_key" where
  "agg_app_key fi = (fi_pid fi, fi_process_start_time fi)"

text \<open>The body of the loop over the records; the three updates of an entry come first.\<close>

definition touch_window ::
  "window_focus_info \<Rightarrow> instant \<Rightarrow> instant \<Rightarrow> u64 \<Rightarrow> window_activity \<Rightarrow> window_activity" where
  "touch_window fi rec_start rec_end duration w =
     w\<lparr> wa_window_title := fi_window_title fi,
        wa_duration_seconds := wa_duration_seconds w + duration,
        wa_first_seen := min (wa_first_seen w) rec_start,
        wa_last_seen := max (wa_last_seen w) rec_end,
        wa_record_count := wa_record_count w + 1 \<rparr>"

definition new_window :: "window_focus_info \<Rightarrow> instant \<Rightarrow> instant \<Rightarrow> window_activity" where
  "new_window fi rec_start rec_end =
     \<lparr> wa_window_id = fi_window_id fi, wa_window_title = fi_window_title fi, wa_duration_seconds = 0,
       wa_first_seen = rec_start, wa_last_seen = rec_end, wa_record_count = 0 \<rparr>"

definition new_app :: "window_focus_info \<Rightarrow> instant \<Rightarrow> instant \<Rightarrow> aggregated_activity" where
  "new_app fi rec_start rec_end =
     \<lparr> aa_app_name = fi_app_name fi, aa_pid = fi_pid fi,
       aa_process_start_time = fi_process_start_time fi, aa_windows = [], aa_ephemeral_groups = [],
       aa_temporal_groups = [], aa_total_duration_seconds = 0,
       aa_first_seen = rec_start, aa_last_seen = rec_end \<rparr>"

definition touch_app ::
  "window_focus_info \<Rightarrow> instant \<Rightarrow> instant \<Rightarrow> u64 \<Rightarrow> aggregated_activity \<Rightarrow> aggregated_activity" where
  "touch_app fi rec_start rec_end duration a =
     (let a1 = a\<lparr> aa_total_duration_seconds := aa_total_duration_seconds a + duration,
                  aa_first_seen := min (aa_first_seen a) rec_start,
                  aa_last_seen := max (aa_last_seen a) rec_end \<rparr>
      in if fi_window_title fi \<noteq> [] \<and> 0 < fi_window_id fi
         then a1\<lparr> aa_windows := upsert (fi_window_id fi) (new_window fi rec_start rec_end)
                    (touch_window fi rec_start rec_end duration) (aa_windows a1) \<rparr>
         else a1)"

definition agg_record ::
  "instant \<Rightarrow> instant \<Rightarrow> (app_key \<times> aggregated_activity) list \<Rightarrow> activity_record \<Rightarrow>
   (app_key \<times> aggregated_activity) list" where
  "agg_record since now app_map r = (case rec_focus_info r of
      None \<Rightarrow> app_map
    | Some fi \<Rightarrow>
        (let rec_start = max (rec_start_time r) since;
             rec_end = (case rec_end_time r of Some t \<Rightarrow> t | None \<Rightarrow> now)
         in if rec_end \<le> since then app_map
            else (let dur = num_seconds (rec_end - rec_start)
                  in if dur \<le> 0 then app_map
                     else upsert (agg_app_key fi) (new_app fi rec_start rec_end)
                            (touch_app fi rec_start rec_end (word_of_int dur)) app_map)))"

text \<open>First pass over an app: short-lived windows by title.\<close>

definition new_group :: "string \<Rightarrow> window_activity \<Rightarrow> ephemeral_group" where
  "new_group title_key w =
     \<lparr> eg_title_key = title_key, eg_distinct_ids = {}, eg_occurrence_count = 0,
       eg_total_duration_seconds = 0, eg_first_seen = wa_first_seen w, eg_last_seen = wa_last_seen w \<rparr>"

definition touch_group :: "u32 \<Rightarrow> window_activity \<Rightarrow> ephemeral_group \<Rightarrow> ephemeral_group" where
  "touch_group i w g =
     g\<lparr> eg_distinct_ids := insert i (eg_distinct_ids g),
        eg_occurrence_count := eg_occurrence_count g + 1,
        eg_total_duration_seconds := eg_total_duration_seconds g + wa_duration_seconds w,
        eg_first_seen := min (eg_first_seen g) (wa_first_seen w),
        eg_last_seen := max (eg_last_seen g) (wa_last_seen w) \<rparr>"

fun stage_windows ::
  "agg_env \<Rightarrow> u64 \<Rightarrow> window_entry list \<Rightarrow>
   (string \<times> ephemeral_group) list \<times> (string \<times> u32 list) list \<Rightarrow>
   (string \<times> ephemeral_group) list \<times> (string \<times> u32 list) list" where
  "stage_windows E short_thresh_secs [] (staged, members) = (staged, members)"
| "stage_windows E short_thresh_secs ((i, w) # ws) (staged, members) =
     (if wa_duration_seconds w < short_thresh_secs then
        (let title_key = normalize_title E (wa_window_title w)
         in stage_windows E short_thresh_secs ws
              (upsert title_key (new_group title_key w) (touch_group i w) staged,
               upsert title_key [] (\<lambda>ids. ids @ [i]) members))
      else stage_windows E short_thresh_secs ws (staged, members))"

fun keep_groups ::
  "nat \<Rightarrow> (string \<times> u32 list) list \<Rightarrow> (string \<times> ephemeral_group) list \<Rightarrow>
   aggregated_activity \<Rightarrow> aggregated_activity" where
  "keep_groups min_ids members [] a = a"
| "keep_groups min_ids members ((title_key, g) # gs) a =
     keep_groups min_ids members gs
       (if min_ids \<le> card (eg_distinct_ids g) then
          a\<lparr> aa_ephemeral_groups := hm_insert title_key g (aa_ephemeral_groups a),
             aa_windows := (case map_of members title_key of
                 Some ids \<Rightarrow> foldl (\<lambda>ws i. hm_remove i ws) (aa_windows a) ids
               | None \<Rightarrow> aa_windows a) \<rparr>
        else a)"

text \<open>Second pass: windows of one title whose activity is at most an hour apart.\<close>

definition build_temporal_group :: "string \<Rightarrow> window_entry list \<Rightarrow> temporal_group" where
  "build_temporal_group title_key windows =
     (let ids = foldl (\<lambda>s (i, _). insert i s) {} windows;
          last_seen = foldl (\<lambda>t (_, w). if t < wa_last_seen w then wa_last_seen w else t)
                        (wa_last_seen (snd (hd windows))) windows
      in \<lparr> tg_title_key = title_key, tg_distinct_ids = ids,
           tg_occurrence_count = of_nat (card ids),
           tg_total_duration_seconds = foldl (\<lambda>t (_, w). sat_add t (wa_duration_seconds w)) 0 windows,
           tg_max_duration_seconds = foldl (\<lambda>t (_, w). max t (wa_duration_seconds w)) 0 windows,
           tg_first_seen = foldl (\<lambda>t (_, w). if wa_first_seen w < t then wa_first_seen w else t)
                             (wa_first_seen (snd (hd windows))) windows,
           tg_last_seen = last_seen,
           tg_anchor_last_seen = last_seen \<rparr>)"

fun windows_by_title ::
  "agg_env \<Rightarrow> window_entry list \<Rightarrow> (string \<times> window_entry list) list \<Rightarrow> (string \<times> window_entry list) list" where
  "windows_by_title E [] by_title = by_title"
| "windows_by_title E ((i, w) # ws) by_title =
     windows_by_title E ws
       (upsert (normalize_title E (wa_window_title w)) [] (\<lambda>l. l @ [(i, w)]) by_title)"

definition newest_first :: "window_entry list \<Rightarrow> window_entry list" where
  "newest_first = sort_key (\<lambda>(_, w). - wa_last_seen w)"

text \<open>
  The loop over the sorted windows of a title.  \<open>cur\<close> is \<open>None\<close> while the vector \<open>current\<close> is
  empty; otherwise it holds \<open>prev_last_seen\<close>, which the code sets whenever it pushes, and \<open>current\<close>.
\<close>

definition flush_cluster :: "window_entry list \<Rightarrow> window_entry list list" where
  "flush_cluster current = (if 2 \<le> length current then [current] else [])"

fun clusters :: "(instant \<times> window_entry list) option \<Rightarrow> window_entry list \<Rightarrow> window_entry list list" where
  "clusters None [] = []"
| "clusters (Some (prev, current)) [] = flush_cluster current"
| "clusters None ((i, w) # ws) = clusters (Some (wa_last_seen w, [(i, w)])) ws"
| "clusters (Some (prev, current)) ((i, w) # ws) =
     (if prev - wa_last_seen w \<le> mins 60
      then clusters (Some (wa_last_seen w, current @ [(i, w)])) ws
      else flush_cluster current @ clusters (Some (wa_last_seen w, [(i, w)])) ws)"

definition title_clusters :: "window_entry list \<Rightarrow> window_entry list list" where
  "title_clusters items = (if length items < 2 then [] else clusters None (newest_first items))"

definition temporal_pass :: "agg_env \<Rightarrow> app_key \<Rightarrow> aggregated_activity \<Rightarrow> aggregated_activity" where
  "temporal_pass E k a =
     (let by_title = windows_by_title E (it_windows E 1 k (aa_windows a)) [];
          found = concat (map (\<lambda>(t, items). map (\<lambda>c. (t, c)) (title_clusters items)) (it_titles E k by_title));
          grouped_ids = fst ` set (concat (map snd found))
      in a\<lparr> aa_windows := filter (\<lambda>(i, _). i \<notin> grouped_ids) (aa_windows a),
            aa_temporal_groups := map (\<lambda>(t, c). build_temporal_group t c) found \<rparr>)"

definition trim_windows :: "agg_env \<Rightarrow> app_key \<Rightarrow> nat \<Rightarrow> aggregated_activity \<Rightarrow> aggregated_activity" where
  "trim_windows E k max_windows_per_app a =
     (if 0 < max_windows_per_app \<and> max_windows_per_app < length (aa_windows a)
      then a\<lparr> aa_windows := foldl (\<lambda>m (i, w). hm_insert i w m) []
                (take max_windows_per_app (newest_first (it_windows E 2 k (aa_windows a)))) \<rparr>
      else a)"

definition group_app ::
  "agg_env \<Rightarrow> u64 \<Rightarrow> nat \<Rightarrow> nat \<Rightarrow> app_key \<Rightarrow> aggregated_activity \<Rightarrow> aggregated_activity" where
  "group_app E short_thresh_secs min_ids max_windows k a =
     (let (staged, members) = stage_windows E short_thresh_secs (it_windows E 0 k (aa_windows a)) ([], []);
          a1 = keep_groups min_ids members (it_staged E k staged) a
      in trim_windows E k max_windows (temporal_pass E k a1))"

definition aggregate_activities_since ::
  "agg_env \<Rightarrow> activity_record list \<Rightarrow> instant \<Rightarrow> instant \<Rightarrow> u64 \<Rightarrow> nat \<Rightarrow> nat \<Rightarrow> aggregated_activity list" where
  "aggregate_activities_since E records since now short_thresh_secs min_ids max_windows =
     (let app_map = foldl (agg_record since now) [] records;
          app_map' = map (\<lambda>(k, a). (k, group_app E short_thresh_secs min_ids max_windows k a)) app_map
      in sort_key (\<lambda>a. - aa_last_seen a) (map snd (it_apps E app_map')))"

section \<open>Specification\<close>

text \<open>
  What a record contributes since a given time: its focus, the part of its interval after that time
  and its length in whole seconds.
\<close>

type_synonym contribution = "window_focus_info \<times> instant \<times> instant \<times> u64"

definition contribution_of :: "instant \<Rightarrow> instant \<Rightarrow> activity_record \<Rightarrow> contribution option" where
  "contribution_of since now r = (case rec_focus_info r of None \<Rightarrow> None
    | Some fi \<Rightarrow>
        (let s = max (rec_start_time r) since; e = (case rec_end_time r of Some t \<Rightarrow> t | None \<Rightarrow> now)
         in if since < e \<and> 0 < num_seconds (e - s) then Some (fi, s, e, word_of_int (num_seconds (e - s)))
            else None))"

fun ct_key :: "contribution \<Rightarrow> app_key" where "ct_key (fi, s, e, d) = agg_app_key fi"
fun ct_start :: "contribution \<Rightarrow> instant" where "ct_start (fi, s, e, d) = s"
fun ct_end :: "contribution \<Rightarrow> instant" where "ct_end (fi, s, e, d) = e"
fun ct_duration :: "contribution \<Rightarrow> u64" where "ct_duration (fi, s, e, d) = d"

text \<open>The window a contribution counts for: windows without a title or with id 0 are not listed.\<close>

fun ct_window :: "contribution \<Rightarrow> u32 option" where
  "ct_window (fi, s, e, d) = (if fi_window_title fi \<noteq> [] \<and> 0 < fi_window_id fi then Some (fi_window_id fi) else None)"

definition contributions :: "instant \<Rightarrow> instant \<Rightarrow> app_key \<Rightarrow> activity_record list \<Rightarrow> contribution list" where
  "contributions since now k rs = filter (\<lambda>c. ct_key c = k) (List.map_filter (contribution_of since now) rs)"

definition window_ids :: "contribution list \<Rightarrow> u32 set" where
  "window_ids cs = {i. Some i \<in> ct_window ` set cs}"

definition totals_of :: "contribution list \<Rightarrow> aggregated_activity \<Rightarrow> bool" where
  "totals_of cs a \<longleftrightarrow> cs \<noteq> [] \<and>
     aa_total_duration_seconds a = sum_list (map ct_duration cs) \<and>
     aa_first_seen a = Min (ct_start ` set cs) \<and> aa_last_seen a = Max (ct_end ` set cs)"

definition window_totals_of :: "contribution list \<Rightarrow> u32 \<Rightarrow> window_activity \<Rightarrow> bool" where
  "window_totals_of cs i w \<longleftrightarrow>
     wa_window_id w = i \<and>
     wa_duration_seconds w = sum_list (map ct_duration (filter (\<lambda>c. ct_window c = Some i) cs))"

definition agg_key :: "aggregated_activity \<Rightarrow> app_key" where
  "agg_key a = (aa_pid a, aa_process_start_time a)"

definition ephemeral_ids :: "aggregated_activity \<Rightarrow> u32 set" where
  "ephemeral_ids a = (\<Union>(_, g) \<in> set (aa_ephemeral_groups a). eg_distinct_ids g)"

definition temporal_ids :: "aggregated_activity \<Rightarrow> u32 set" where
  "temporal_ids a = (\<Union>g \<in> set (aa_temporal_groups a). tg_distinct_ids g)"

definition lane_ids :: "aggregated_activity \<Rightarrow> u32 set" where
  "lane_ids a = fst ` set (aa_windows a)"

section \<open>Lemmas: the totals\<close>

lemma agg_record_contribution:
  "agg_record since now m r = (case contribution_of since now r of None \<Rightarrow> m
     | Some (fi, s, e, d) \<Rightarrow> upsert (agg_app_key fi) (new_app fi s e) (touch_app fi s e d) m)"
  by (auto simp: agg_record_def contribution_of_def Let_def split: option.split)

lemma contributions_snoc:
  "contributions since now k (rs @ [r]) = contributions since now k rs @
     (case contribution_of since now r of None \<Rightarrow> [] | Some c \<Rightarrow> if ct_key c = k then [c] else [])"
  by (simp add: contributions_def List.map_filter_def split: option.split)

text \<open>The entry of an app before the grouping passes.\<close>

definition raw_entry :: "contribution list \<Rightarrow> aggregated_activity \<Rightarrow> bool" where
  "raw_entry cs a \<longleftrightarrow> totals_of cs a \<and> aa_ephemeral_groups a = [] \<and> aa_temporal_groups a = [] \<and>
     distinct (map fst (aa_windows a)) \<and>
     (\<forall>i. map_of (aa_windows a) i = None \<longleftrightarrow> i \<notin> window_ids cs) \<and>
     (\<forall>i w. map_of (aa_windows a) i = Some w \<longrightarrow> window_totals_of cs i w)"

lemma totals_of_touch:
  assumes "totals_of cs a"
  shows "totals_of (cs @ [(fi, s, e, d)]) (touch_app fi s e d a)"
  using assms by (auto simp: totals_of_def touch_app_def Let_def min.commute max.commute)

lemma totals_of_new: "totals_of [(fi, s, e, d)] (touch_app fi s e d (new_app fi s e))"
  by (simp add: totals_of_def touch_app_def new_app_def Let_def)

lemma window_ids_snoc: "window_ids (cs @ [c]) = window_ids cs \<union> (case ct_window c of None \<Rightarrow> {} | Some i \<Rightarrow> {i})"
  by (auto simp: window_ids_def split: option.split)

lemma window_ids_filter: "i \<notin> window_ids cs \<Longrightarrow> filter (\<lambda>c. ct_window c = Some i) cs = []"
  by (auto simp: window_ids_def filter_empty_conv image_iff)

text \<open>The windows of an entry after one more contribution.\<close>

lemma touch_app_windows:
  "map_of (aa_windows (touch_app fi s e d a)) =
     (if ct_window (fi, s, e, d) = None then map_of (aa_windows a)
      else (map_of (aa_windows a))(fi_window_id fi \<mapsto> touch_window fi s e d
        (case map_of (aa_windows a) (fi_window_id fi) of None \<Rightarrow> new_window fi s e | Some w \<Rightarrow> w)))"
  by (simp add: touch_app_def map_of_upsert Let_def)

lemma window_totals_touch:
  assumes "\<forall>i. map_of ws i = None \<longleftrightarrow> i \<notin> window_ids cs"
    and "\<forall>i w. map_of ws i = Some w \<longrightarrow> window_totals_of cs i w"
    and "ct_window (fi, s, e, d) = Some j"
  shows "window_totals_of (cs @ [(fi, s, e, d)]) j
    (touch_window fi s e d (case map_of ws j of None \<Rightarrow> new_window fi s e | Some w \<Rightarrow> w))"
  using assms
  by (auto simp: window_totals_of_def touch_window_def new_window_def window_ids_filter
      split: option.splits if_splits)

lemma raw_entry_touch:
  assumes "totals_of (cs @ [(fi, s, e, d)]) (touch_app fi s e d a)"
    and "aa_ephemeral_groups a = []" "aa_temporal_groups a = []" "distinct (map fst (aa_windows a))"
    and ids: "\<forall>i. map_of (aa_windows a) i = None \<longleftrightarrow> i \<notin> window_ids cs"
    and tot: "\<forall>i w. map_of (aa_windows a) i = Some w \<longrightarrow> window_totals_of cs i w"
  shows "raw_entry (cs @ [(fi, s, e, d)]) (touch_app fi s e d a)"
proof -
  have ids': "map_of (aa_windows (touch_app fi s e d a)) i = None \<longleftrightarrow> i \<notin> window_ids (cs @ [(fi, s, e, d)])" for i
    using ids by (auto simp: touch_app_windows window_ids_snoc split: option.splits)
  have "window_totals_of (cs @ [(fi, s, e, d)]) i w"
    if w: "map_of (aa_windows (touch_app fi s e d a)) i = Some w" for i w
  proof (cases "ct_window (fi, s, e, d) = Some i")
    case True
    with w window_totals_touch [OF ids tot True] show ?thesis
      by (auto simp: touch_app_windows split: if_splits)
  next
    case False
    with w tot show ?thesis
      by (auto simp: touch_app_windows window_totals_of_def split: if_splits)
  qed
  with ids' assms(1-4) show ?thesis
    by (auto simp: raw_entry_def touch_app_def Let_def)
qed

definition app_map_inv ::
  "instant \<Rightarrow> instant \<Rightarrow> activity_record list \<Rightarrow> (app_key \<times> aggregated_activity) list \<Rightarrow> bool" where
  "app_map_inv since now rs m \<longleftrightarrow> distinct (map fst m) \<and>
     (\<forall>k. map_of m k = None \<longleftrightarrow> contributions since now k rs = []) \<and>
     (\<forall>k a. map_of m k = Some a \<longrightarrow> agg_key a = k \<and> raw_entry (contributions since now k rs) a)"

lemma touch_app_key [simp]: "agg_key (touch_app fi s e d a) = agg_key a"
  "agg_key (new_app fi s e) = agg_app_key fi"
  by (simp_all add: agg_key_def touch_app_def new_app_def agg_app_key_def Let_def)

lemma new_app_empty [simp]: "aa_windows (new_app fi s e) = []"
  "aa_ephemeral_groups (new_app fi s e) = []" "aa_temporal_groups (new_app fi s e) = []"
  by (simp_all add: new_app_def)

lemma agg_record_inv:
  assumes inv: "app_map_inv since now rs m"
  shows "app_map_inv since now (rs @ [r]) (agg_record since now m r)"
proof (cases "contribution_of since now r")
  case None
  with inv show ?thesis by (simp add: agg_record_contribution contributions_snoc app_map_inv_def)
next
  case (Some c)
  obtain fi s e d where c: "c = (fi, s, e, d)" by (cases c)
  let ?k = "agg_app_key fi"
  let ?a = "touch_app fi s e d (case map_of m ?k of None \<Rightarrow> new_app fi s e | Some a \<Rightarrow> a)"
  have "agg_key ?a = ?k \<and> raw_entry (contributions since now ?k rs @ [(fi, s, e, d)]) ?a"
  proof (cases "map_of m ?k")
    case None
    then have [simp]: "contributions since now ?k rs = []" using inv unfolding app_map_inv_def by blast
    show ?thesis
      using None raw_entry_touch [of "[]" fi s e d "new_app fi s e"] totals_of_new [of fi s e d]
      by (simp add: window_ids_def)
  next
    case (Some a)
    with inv have "agg_key a = ?k" "raw_entry (contributions since now ?k rs) a"
      unfolding app_map_inv_def by blast+
    with Some show ?thesis
      using raw_entry_touch [of "contributions since now ?k rs" fi s e d a] totals_of_touch
      by (simp add: raw_entry_def)
  qed
  with inv Some c show ?thesis
    by (auto simp: agg_record_contribution contributions_snoc app_map_inv_def map_of_upsert)
qed

lemma app_map_inv_records: "app_map_inv since now rs (foldl (agg_record since now) [] rs)"
proof (induction rs rule: rev_induct)
  case Nil
  then show ?case by (simp add: app_map_inv_def contributions_def List.map_filter_def)
next
  case (snoc r rs)
  then show ?case by (simp add: agg_record_inv)
qed

section \<open>Lemmas: the first pass\<close>

definition short_ids :: "agg_env \<Rightarrow> u64 \<Rightarrow> window_entry list \<Rightarrow> string \<Rightarrow> u32 set" where
  "short_ids E thr ws t = {i. \<exists>w. (i, w) \<in> set ws \<and> wa_duration_seconds w < thr \<and> normalize_title E (wa_window_title w) = t}"

definition stage_inv ::
  "agg_env \<Rightarrow> u64 \<Rightarrow> window_entry list \<Rightarrow> (string \<times> ephemeral_group) list \<times> (string \<times> u32 list) list \<Rightarrow> bool" where
  "stage_inv E thr ws = (\<lambda>(staged, members). distinct (map fst staged) \<and>
     (\<forall>t. (map_of staged t = None \<longleftrightarrow> short_ids E thr ws t = {}) \<and>
          (\<forall>g. map_of staged t = Some g \<longrightarrow> eg_distinct_ids g = short_ids E thr ws t) \<and>
          set (case map_of members t of None \<Rightarrow> [] | Some ids \<Rightarrow> ids) = short_ids E thr ws t))"

lemma short_ids_snoc:
  "short_ids E thr (ws @ [(i, w)]) t = short_ids E thr ws t \<union>
     (if wa_duration_seconds w < thr \<and> normalize_title E (wa_window_title w) = t then {i} else {})"
  by (auto simp: short_ids_def)

lemma stage_windows_inv:
  "stage_inv E thr done acc \<Longrightarrow> stage_inv E thr (done @ ws) (stage_windows E thr ws acc)"
proof (induction E thr ws acc arbitrary: "done" rule: stage_windows.induct)
  case (1 E thr staged members)
  then show ?case by simp
next
  case (2 E thr i w ws staged members)
  let ?t = "normalize_title E (wa_window_title w)"
  show ?case
  proof (cases "wa_duration_seconds w < thr")
    case True
    have "stage_inv E thr (done @ [(i, w)])
       (upsert ?t (new_group ?t w) (touch_group i w) staged, upsert ?t [] (\<lambda>ids. ids @ [i]) members)"
      using "2.prems" True
      by (auto simp: stage_inv_def short_ids_snoc map_of_upsert new_group_def touch_group_def
          split: option.splits)
    from "2.IH"(1) [OF True refl this] True show ?thesis by (simp add: Let_def)
  next
    case False
    have "stage_inv E thr (done @ [(i, w)]) (staged, members)"
      using "2.prems" False by (simp add: stage_inv_def short_ids_snoc)
    from "2.IH"(2) [OF False this] False show ?thesis by simp
  qed
qed

lemma stage_windows_Nil: "stage_inv E thr ws (stage_windows E thr ws ([], []))"
  using stage_windows_inv [of E thr "[]" "([], [])" ws]
  by (simp add: stage_inv_def short_ids_def)

lemma foldl_hm_remove: "foldl (\<lambda>ws i. hm_remove i ws) m ids = filter (\<lambda>(i, _). i \<notin> set ids) m"
  by (induction ids arbitrary: m) (auto simp: hm_remove_def intro: filter_cong)

definition kept_groups :: "nat \<Rightarrow> (string \<times> ephemeral_group) list \<Rightarrow> (string \<times> ephemeral_group) list" where
  "kept_groups n gs = filter (\<lambda>(t, g). n \<le> card (eg_distinct_ids g)) gs"

definition members_of :: "(string \<times> u32 list) list \<Rightarrow> string \<Rightarrow> u32 set" where
  "members_of members t = set (case map_of members t of None \<Rightarrow> [] | Some ids \<Rightarrow> ids)"

lemma keep_groups_effect:
  "distinct (map fst (aa_ephemeral_groups a @ gs)) \<Longrightarrow>
     keep_groups n members gs a =
       a\<lparr> aa_ephemeral_groups := aa_ephemeral_groups a @ kept_groups n gs,
          aa_windows := filter (\<lambda>(i, _). i \<notin> (\<Union>t \<in> fst ` set (kept_groups n gs). members_of members t)) (aa_windows a) \<rparr>"
proof (induction n members gs a rule: keep_groups.induct)
  case (1 n members a)
  then show ?case by (simp add: kept_groups_def case_prod_unfold)
next
  case (2 n members t g gs a)
  show ?case
  proof (cases "n \<le> card (eg_distinct_ids g)")
    case True
    have fresh: "t \<notin> fst ` set (aa_ephemeral_groups a)" using "2.prems" by auto
    have ws: "(case map_of members t of Some ids \<Rightarrow> foldl (\<lambda>ws i. hm_remove i ws) (aa_windows a) ids | None \<Rightarrow> aa_windows a)
        = filter (\<lambda>(i, _). i \<notin> members_of members t) (aa_windows a)"
      by (simp add: members_of_def foldl_hm_remove case_prod_unfold split: option.split)
    have kept: "kept_groups n ((t, g) # gs) = (t, g) # kept_groups n gs" using True by (simp add: kept_groups_def)
    show ?thesis
      unfolding kept
      using "2.prems" True "2.IH"
      by (simp add: ws hm_insert_def upsert_fresh [OF fresh] case_prod_unfold)
  next
    case False
    with 2 show ?thesis by (simp add: kept_groups_def)
  qed
qed

text \<open>After the first pass an app's windows are split between its ephemeral groups and the lane.\<close>

definition first_pass :: "agg_env \<Rightarrow> u64 \<Rightarrow> nat \<Rightarrow> app_key \<Rightarrow> aggregated_activity \<Rightarrow> aggregated_activity" where
  "first_pass E thr n k a =
     (let (staged, members) = stage_windows E thr (it_windows E 0 k (aa_windows a)) ([], [])
      in keep_groups n members (it_staged E k staged) a)"

lemma first_pass_split:
  assumes ok: "agg_env_ok E" and eph: "aa_ephemeral_groups a = []"
  shows "ephemeral_ids (first_pass E thr n k a) \<subseteq> lane_ids a"
    and "aa_windows (first_pass E thr n k a) =
      filter (\<lambda>(i, _). i \<notin> ephemeral_ids (first_pass E thr n k a)) (aa_windows a)"
proof -
  obtain staged members where st: "stage_windows E thr (it_windows E 0 k (aa_windows a)) ([], []) = (staged, members)"
    by force
  let ?S = "short_ids E thr (it_windows E 0 k (aa_windows a))"
  have inv: "stage_inv E thr (it_windows E 0 k (aa_windows a)) (staged, members)"
    using stage_windows_Nil [of E thr "it_windows E 0 k (aa_windows a)"] st by simp
  let ?gs = "it_staged E k staged"
  have it: "iterates (it_staged E k)" "iterates (it_windows E 0 k)" using ok unfolding agg_env_ok_def by blast+
  have dist: "distinct (map fst ?gs)"
    using inv by (simp add: stage_inv_def iterates_distinct [OF it(1)])
  have ids: "eg_distinct_ids g = ?S t \<and> members_of members t = ?S t" if "(t, g) \<in> set ?gs" for t g
  proof -
    from that have "(t, g) \<in> set staged" by (simp add: iterates_set [OF it(1)])
    then have "map_of staged t = Some g" using inv by (simp add: stage_inv_def)
    then show ?thesis using inv unfolding stage_inv_def members_of_def by blast
  qed
  have fp: "first_pass E thr n k a =
      a\<lparr> aa_ephemeral_groups := kept_groups n ?gs,
         aa_windows := filter (\<lambda>(i, _). i \<notin> (\<Union>t \<in> fst ` set (kept_groups n ?gs). members_of members t)) (aa_windows a) \<rparr>"
    using keep_groups_effect [of a ?gs n members] dist eph by (simp add: first_pass_def st)
  have sub: "set (kept_groups n ?gs) \<subseteq> set ?gs" by (auto simp: kept_groups_def)
  have e: "ephemeral_ids (first_pass E thr n k a) = (\<Union>t \<in> fst ` set (kept_groups n ?gs). ?S t)"
  proof -
    have "(\<Union>x \<in> set (kept_groups n ?gs). eg_distinct_ids (snd x)) = (\<Union>x \<in> set (kept_groups n ?gs). ?S (fst x))"
      using ids sub by (intro SUP_cong) auto
    then show ?thesis by (simp add: ephemeral_ids_def fp case_prod_unfold)
  qed
  have m: "(\<Union>t \<in> fst ` set (kept_groups n ?gs). members_of members t) = (\<Union>t \<in> fst ` set (kept_groups n ?gs). ?S t)"
    using ids sub by (intro SUP_cong) auto
  have "aa_windows (first_pass E thr n k a) =
      filter (\<lambda>(i, _). i \<notin> (\<Union>t \<in> fst ` set (kept_groups n ?gs). members_of members t)) (aa_windows a)"
    unfolding fp by simp
  then show "aa_windows (first_pass E thr n k a) =
      filter (\<lambda>(i, _). i \<notin> ephemeral_ids (first_pass E thr n k a)) (aa_windows a)"
    unfolding m e .
  show "ephemeral_ids (first_pass E thr n k a) \<subseteq> lane_ids a"
    using e iterates_set [OF it(2)] by (force simp: short_ids_def lane_ids_def)
qed

section \<open>Lemmas: the second pass and the cap\<close>

lemma mset_upsert_snoc:
  "mset (concat (map snd (upsert t [] (\<lambda>l. l @ [x]) m))) = add_mset x (mset (concat (map snd m)))"
  by (induction m) auto

lemma windows_by_title_mset:
  "mset (concat (map snd (windows_by_title E ws m))) = mset ws + mset (concat (map snd m))"
  by (induction E ws m rule: windows_by_title.induct) (simp_all add: mset_upsert_snoc)

definition open_cluster :: "(instant \<times> window_entry list) option \<Rightarrow> window_entry list" where
  "open_cluster cur = (case cur of None \<Rightarrow> [] | Some (_, c) \<Rightarrow> c)"

lemma clusters_mset: "mset (concat (clusters cur ws)) \<subseteq># mset (open_cluster cur) + mset ws"
proof (induction cur ws rule: clusters.induct)
  case (4 prev current i w ws)
  show ?case
  proof (cases "prev - wa_last_seen w \<le> mins 60")
    case True
    with "4.IH"(1) show ?thesis by (simp add: open_cluster_def)
  next
    case False
    have "mset (concat (flush_cluster current)) \<subseteq># mset current" by (simp add: flush_cluster_def)
    from subset_mset.add_mono [OF this "4.IH"(2) [OF False]] False show ?thesis
      by (simp add: open_cluster_def add_ac)
  qed
qed (auto simp: open_cluster_def flush_cluster_def)

text \<open>A cluster has at least two windows, each at most an hour older than the one before it.\<close>

definition hourly :: "window_entry list \<Rightarrow> bool" where
  "hourly c \<longleftrightarrow> chain (\<lambda>(_, w) (_, w'). wa_last_seen w - wa_last_seen w' \<le> mins 60) c"

definition cluster_inv :: "(instant \<times> window_entry list) option \<Rightarrow> bool" where
  "cluster_inv cur = (case cur of None \<Rightarrow> True
     | Some (prev, c) \<Rightarrow> c \<noteq> [] \<and> prev = wa_last_seen (snd (last c)) \<and> hourly c)"

lemma clusters_hourly:
  "cluster_inv cur \<Longrightarrow> c \<in> set (clusters cur ws) \<Longrightarrow> 2 \<le> length c \<and> hourly c"
proof (induction cur ws arbitrary: c rule: clusters.induct)
  case (4 prev current i w ws)
  have new: "cluster_inv (Some (wa_last_seen w, [(i, w)]))" by (simp add: cluster_inv_def hourly_def)
  show ?case
  proof (cases "prev - wa_last_seen w \<le> mins 60")
    case True
    have "cluster_inv (Some (wa_last_seen w, current @ [(i, w)]))"
      using "4.prems"(1) True by (simp add: cluster_inv_def hourly_def chain_append case_prod_unfold)
    with "4.IH"(1) [OF True] "4.prems"(2) True show ?thesis by simp
  next
    case False
    from "4.prems"(2) False
    consider "c \<in> set (flush_cluster current)" | "c \<in> set (clusters (Some (wa_last_seen w, [(i, w)])) ws)"
      by auto
    then show ?thesis
    proof cases
      case 1
      with "4.prems"(1) show ?thesis by (simp add: flush_cluster_def cluster_inv_def split: if_splits)
    next
      case 2
      with "4.IH"(2) [OF False new] show ?thesis by simp
    qed
  qed
qed (auto simp: cluster_inv_def flush_cluster_def hourly_def split: if_splits)

lemma title_clusters_mset: "mset (concat (title_clusters items)) \<subseteq># mset items"
  using clusters_mset [of None "newest_first items"]
  by (simp add: title_clusters_def open_cluster_def newest_first_def)

lemma found_mset:
  "mset (concat (map snd (concat (map (\<lambda>(t, items). map (\<lambda>c. (t, c)) (title_clusters items)) m))))
     \<subseteq># mset (concat (map snd m))"
proof (induction m)
  case (Cons x m)
  obtain t items where x: "x = (t, items)" by (cases x)
  show ?case using subset_mset.add_mono [OF title_clusters_mset [of items] Cons.IH] by (simp add: x comp_def)
qed simp

definition found_clusters :: "agg_env \<Rightarrow> app_key \<Rightarrow> aggregated_activity \<Rightarrow> (string \<times> window_entry list) list" where
  "found_clusters E k a = concat (map (\<lambda>(t, items). map (\<lambda>c. (t, c)) (title_clusters items))
     (it_titles E k (windows_by_title E (it_windows E 1 k (aa_windows a)) [])))"

lemma temporal_pass_found:
  "temporal_pass E k a =
     a\<lparr> aa_windows := filter (\<lambda>(i, _). i \<notin> fst ` set (concat (map snd (found_clusters E k a)))) (aa_windows a),
        aa_temporal_groups := map (\<lambda>(t, c). build_temporal_group t c) (found_clusters E k a) \<rparr>"
  by (simp add: temporal_pass_def found_clusters_def Let_def)

lemma found_clusters_mset:
  assumes "agg_env_ok E"
  shows "mset (concat (map snd (found_clusters E k a))) \<subseteq># mset (aa_windows a)"
proof -
  let ?m = "windows_by_title E (it_windows E 1 k (aa_windows a)) []"
  have it: "mset (it_titles E k ?m) = mset ?m" "mset (it_windows E 1 k (aa_windows a)) = mset (aa_windows a)"
    using assms unfolding agg_env_ok_def iterates_def by blast+
  have "mset (concat (map snd (it_titles E k ?m))) = mset (concat (map snd ?m))"
    using it(1) by (metis mset_concat mset_map sum_mset_sum_list)
  also have "\<dots> = mset (aa_windows a)" by (simp add: windows_by_title_mset it(2) del: One_nat_def)
  finally show ?thesis using found_mset [of "it_titles E k ?m"] by (simp add: found_clusters_def)
qed

lemma build_temporal_group_ids [simp]: "tg_distinct_ids (build_temporal_group t c) = fst ` set c"
proof -
  have "foldl (\<lambda>s (i, _). insert i s) A c = A \<union> fst ` set c" for A
    by (induction c arbitrary: A) auto
  then show ?thesis by (simp add: build_temporal_group_def Let_def)
qed

lemma temporal_ids_pass:
  "temporal_ids (temporal_pass E k a) = fst ` set (concat (map snd (found_clusters E k a)))"
  by (simp add: temporal_pass_found temporal_ids_def image_UN case_prod_unfold)

lemma foldl_hm_insert:
  "distinct (map fst (m @ xs)) \<Longrightarrow> foldl (\<lambda>m (i, w). hm_insert i w m) m xs = m @ xs"
proof (induction xs arbitrary: m)
  case (Cons x xs)
  then show ?case by (cases x) (simp add: hm_insert_def upsert_fresh)
qed simp

lemma trim_windows_effect:
  assumes "agg_env_ok E" and "distinct (map fst (aa_windows a))"
  shows "trim_windows E k n a =
    (if 0 < n \<and> n < length (aa_windows a)
     then a\<lparr> aa_windows := take n (newest_first (it_windows E 2 k (aa_windows a))) \<rparr> else a)"
proof -
  have it: "mset (it_windows E 2 k (aa_windows a)) = mset (aa_windows a)"
    using assms(1) unfolding agg_env_ok_def iterates_def by blast
  have "mset (map fst (newest_first (it_windows E 2 k (aa_windows a)))) = mset (map fst (aa_windows a))"
    using it by (simp add: newest_first_def)
  then have "distinct (map fst (newest_first (it_windows E 2 k (aa_windows a))))"
    using assms(2) mset_eq_imp_distinct_iff by blast
  then have "distinct (map fst (take n (newest_first (it_windows E 2 k (aa_windows a)))))"
    by (metis distinct_take take_map)
  then show ?thesis by (simp add: trim_windows_def foldl_hm_insert [of "[]", simplified])
qed

section \<open>Lemmas: the whole aggregation\<close>

lemma group_app_passes: "group_app E thr n mx k a = trim_windows E k mx (temporal_pass E k (first_pass E thr n k a))"
  by (simp add: group_app_def first_pass_def Let_def split_beta)

lemma keep_groups_fields [simp]:
  "aa_total_duration_seconds (keep_groups n members gs a) = aa_total_duration_seconds a"
  "aa_first_seen (keep_groups n members gs a) = aa_first_seen a"
  "aa_last_seen (keep_groups n members gs a) = aa_last_seen a"
  "aa_pid (keep_groups n members gs a) = aa_pid a"
  "aa_process_start_time (keep_groups n members gs a) = aa_process_start_time a"
  by (induction n members gs a rule: keep_groups.induct) simp_all

lemma group_app_fields [simp]:
  "aa_total_duration_seconds (group_app E thr n mx k a) = aa_total_duration_seconds a"
  "aa_first_seen (group_app E thr n mx k a) = aa_first_seen a"
  "aa_last_seen (group_app E thr n mx k a) = aa_last_seen a"
  "agg_key (group_app E thr n mx k a) = agg_key a"
  by (simp_all add: group_app_def temporal_pass_def trim_windows_def agg_key_def Let_def split_beta)

lemma raw_entry_lane: "raw_entry cs a \<Longrightarrow> lane_ids a = window_ids cs"
proof -
  assume r: "raw_entry cs a"
  have "i \<in> lane_ids a \<longleftrightarrow> i \<in> window_ids cs" for i
    using r unfolding raw_entry_def lane_ids_def by (metis map_of_eq_None_iff)
  then show ?thesis by blast
qed

text \<open>One app: its groups and its lane before and after the cap.\<close>

lemma group_app_lanes:
  assumes ok: "agg_env_ok E" and raw: "raw_entry cs a"
    and a'_def: "a' = group_app E thr n mx k a"
  shows "ephemeral_ids a' \<inter> temporal_ids a' = {}" "ephemeral_ids a' \<inter> lane_ids a' = {}"
    "temporal_ids a' \<inter> lane_ids a' = {}"
    "ephemeral_ids a' \<union> temporal_ids a' \<union> lane_ids a' \<subseteq> window_ids cs"
    "mx = 0 \<Longrightarrow> ephemeral_ids a' \<union> temporal_ids a' \<union> lane_ids a' = window_ids cs"
    "0 < mx \<Longrightarrow> length (aa_windows a') \<le> mx"
    "set (aa_windows a') \<subseteq> set (aa_windows a)"
proof -
  let ?f = "first_pass E thr n k a"
  let ?t = "temporal_pass E k ?f"
  have dist: "distinct (map fst (aa_windows a))" and eph: "aa_ephemeral_groups a = []"
    using raw by (auto simp: raw_entry_def)
  note fw = first_pass_split [OF ok eph, of thr n k]
  have fl: "lane_ids ?f = lane_ids a - ephemeral_ids ?f"
    unfolding lane_ids_def fw(2) by (auto simp: image_iff)
  have et: "ephemeral_ids ?t = ephemeral_ids ?f" by (simp add: temporal_pass_found ephemeral_ids_def)
  have tsub: "temporal_ids ?t \<subseteq> lane_ids ?f"
    using set_mset_mono [OF found_clusters_mset [OF ok, of k ?f]]
    unfolding temporal_ids_pass lane_ids_def by (auto simp del: set_concat)
  have tl: "lane_ids ?t = lane_ids ?f - temporal_ids ?t"
    unfolding temporal_ids_pass by (auto simp: lane_ids_def temporal_pass_found image_iff simp del: set_concat)
  have tw: "set (aa_windows ?t) \<subseteq> set (aa_windows a)" "distinct (map fst (aa_windows ?t))"
    using dist by (auto simp: temporal_pass_found fw(2) distinct_map_fst_filter)
  have a': "a' = (if 0 < mx \<and> mx < length (aa_windows ?t)
      then ?t\<lparr> aa_windows := take mx (newest_first (it_windows E 2 k (aa_windows ?t))) \<rparr> else ?t)"
    unfolding a'_def group_app_passes by (rule trim_windows_effect [OF ok tw(2)])
  have "set (it_windows E 2 k (aa_windows ?t)) = set (aa_windows ?t)"
    using ok unfolding agg_env_ok_def by (metis iterates_set)
  then have cap: "set (aa_windows a') \<subseteq> set (aa_windows ?t)" "ephemeral_ids a' = ephemeral_ids ?t"
      "temporal_ids a' = temporal_ids ?t"
    using set_take_subset [of mx "newest_first (it_windows E 2 k (aa_windows ?t))"]
    by (auto simp: a' ephemeral_ids_def temporal_ids_def newest_first_def)
  then have lsub: "lane_ids a' \<subseteq> lane_ids ?t" by (auto simp: lane_ids_def)
  show "ephemeral_ids a' \<inter> temporal_ids a' = {}" "ephemeral_ids a' \<inter> lane_ids a' = {}"
    "temporal_ids a' \<inter> lane_ids a' = {}"
    using cap(2,3) lsub tl tsub fl et by auto
  show "ephemeral_ids a' \<union> temporal_ids a' \<union> lane_ids a' \<subseteq> window_ids cs"
    using cap(2,3) lsub tl tsub fl et fw(1) raw_entry_lane [OF raw] by auto
  show "ephemeral_ids a' \<union> temporal_ids a' \<union> lane_ids a' = window_ids cs" if "mx = 0"
  proof -
    have "a' = ?t" using that by (simp add: a')
    then show ?thesis using tl tsub fl et fw(1) raw_entry_lane [OF raw] by auto
  qed
  show "length (aa_windows a') \<le> mx" if "0 < mx" using that by (simp add: a')
  show "set (aa_windows a') \<subseteq> set (aa_windows a)" using cap(1) tw(1) by blast
qed

lemma aggregate_entry:
  assumes "agg_env_ok E"
  shows "a \<in> set (aggregate_activities_since E rs since now thr n mx) \<longleftrightarrow>
    (\<exists>k b. map_of (foldl (agg_record since now) [] rs) k = Some b \<and> a = group_app E thr n mx k b)"
proof -
  have it: "iterates (it_apps E)" using assms by (simp add: agg_env_ok_def)
  define m where "m = foldl (agg_record since now) [] rs"
  have "distinct (map fst m)"
    using app_map_inv_records [of since now rs] by (simp add: app_map_inv_def m_def)
  then have "map_of m k = Some b \<longleftrightarrow> (k, b) \<in> set m" for k b by simp
  then show ?thesis
    unfolding aggregate_activities_since_def Let_def m_def [symmetric]
    by (force simp: iterates_set [OF it])
qed

lemma aggregate_keys:
  assumes "agg_env_ok E"
  shows "mset (map agg_key (aggregate_activities_since E rs since now thr n mx)) =
    mset (map fst (foldl (agg_record since now) [] rs))"
proof -
  let ?m = "foldl (agg_record since now) [] rs"
  have it: "mset (it_apps E m) = mset m" for m using assms by (simp add: agg_env_ok_def iterates_def)
  have k: "agg_key b = k" if "(k, b) \<in> set ?m" for k b
    using that app_map_inv_records [of since now rs] unfolding app_map_inv_def by (metis map_of_eq_Some_iff)
  have "mset (map agg_key (aggregate_activities_since E rs since now thr n mx)) =
      mset (map (\<lambda>(k, b). agg_key b) ?m)"
    by (simp add: aggregate_activities_since_def Let_def it multiset.map_comp comp_def case_prod_unfold)
  also have "map (\<lambda>(k, b). agg_key b) ?m = map fst ?m"
    using k by (auto intro: map_cong)
  finally show ?thesis .
qed

lemma aggregate_raw:
  assumes "agg_env_ok E" "a \<in> set (aggregate_activities_since E rs since now thr n mx)"
  obtains b k where "a = group_app E thr n mx k b" "k = agg_key a"
    "raw_entry (contributions since now (agg_key a) rs) b"
proof -
  from aggregate_entry [OF assms(1)] assms(2) obtain k b
    where b: "map_of (foldl (agg_record since now) [] rs) k = Some b" "a = group_app E thr n mx k b" by blast
  with app_map_inv_records [of since now rs]
  have r: "agg_key b = k" "raw_entry (contributions since now k rs) b" unfolding app_map_inv_def by blast+
  have "agg_key a = k" unfolding b(2) by (simp add: r(1))
  with b(2) r(2) show thesis by (intro that [of k b]) simp_all
qed

section \<open>Properties\<close>

text \<open>
  C7: The totals per application are exact.  For every list of records the aggregation lists every
  application that has a contribution since the given time, and no other, exactly once and with the
  most recently used first; the duration of an application is the sum of the durations of its
  contributions, and its first and last time are the earliest start and the latest end of them.
  This holds whatever the iteration orders of the hash maps are.
\<close>
theorem aggregate_totals:
  assumes "agg_env_ok E" and "res = aggregate_activities_since E rs since now thr min_ids max_windows"
  shows "distinct (map agg_key res)
    \<and> set (map agg_key res) = {k. contributions since now k rs \<noteq> []}
    \<and> list_all (\<lambda>a. totals_of (contributions since now (agg_key a) rs) a) res
    \<and> sorted (rev (map aa_last_seen res))"
proof (intro conjI)
  let ?m = "foldl (agg_record since now) [] rs"
  note inv = app_map_inv_records [of since now rs]
  note keys = aggregate_keys [OF assms(1), of rs since now thr min_ids max_windows]
  have "distinct (map fst ?m)" using inv unfolding app_map_inv_def by blast
  then show "distinct (map agg_key res)" unfolding assms(2) using mset_eq_imp_distinct_iff [OF keys] by blast
  have "set (map agg_key res) = fst ` set ?m" unfolding assms(2) using mset_eq_setD [OF keys] by simp
  also have "\<dots> = {k. contributions since now k rs \<noteq> []}"
    using inv unfolding app_map_inv_def map_of_eq_None_iff by blast
  finally show "set (map agg_key res) = {k. contributions since now k rs \<noteq> []}" .
  have "totals_of (contributions since now (agg_key a) rs) a" if res: "a \<in> set res" for a
  proof -
    obtain b k where a: "a = group_app E thr min_ids max_windows k b" and "k = agg_key a"
      and raw: "raw_entry (contributions since now (agg_key a) rs) b"
      by (rule aggregate_raw [OF assms(1) res [unfolded assms(2)]])
    have "totals_of (contributions since now (agg_key a) rs) b" using raw by (simp add: raw_entry_def)
    moreover have "aa_total_duration_seconds a = aa_total_duration_seconds b"
      "aa_first_seen a = aa_first_seen b" "aa_last_seen a = aa_last_seen b"
      unfolding a by simp_all
    ultimately show ?thesis by (simp add: totals_of_def)
  qed
  then show "list_all (\<lambda>a. totals_of (contributions since now (agg_key a) rs) a) res"
    by (simp add: list_all_iff)
  have "sorted (map (\<lambda>a. - aa_last_seen a) res)"
    unfolding assms(2) aggregate_activities_since_def Let_def by (rule sorted_sort_key)
  then show "sorted (rev (map aa_last_seen res))"
    by (simp add: sorted_wrt_rev sorted_wrt_map)
qed

definition ascii_env :: agg_env where
  "ascii_env = \<lparr> it_windows = (\<lambda>_ _ m. m), it_staged = (\<lambda>_ m. m), it_titles = (\<lambda>_ m. m), it_apps = rev,
     str_trim = (\<lambda>s. rev (dropWhile (\<lambda>c. c = CHR '' '') (rev (dropWhile (\<lambda>c. c = CHR '' '') s)))),
     str_to_lowercase = map ascii_lower \<rparr>"

lemma ascii_env_ok: "agg_env_ok ascii_env"
  by (simp add: agg_env_ok_def ascii_env_def)

definition demo_record :: "u64 \<Rightarrow> instant \<Rightarrow> instant \<Rightarrow> window_focus_info \<Rightarrow> activity_record" where
  "demo_record i s e fi = \<lparr> rec_id = i, rec_run_id = None, rec_start_time = s, rec_end_time = Some e,
     rec_state = Active, rec_focus_info = Some fi, rec_event_count = 0, rec_triggering_events = [] \<rparr>"

definition demo_records :: "activity_record list" where
  "demo_records =
     [demo_record 0 (secs 0) (secs 300) (demo_focus ''Mail'' 4 ''Inbox''),
      demo_record 1 (secs 300) (secs 310) (demo_focus ''Mail'' 5 ''Draft''),
      demo_record 2 (secs 310) (secs 312) (demo_focus ''Mail'' 6 '' draft''),
      demo_record 3 (secs 400) (secs 700) (demo_focus ''Mail'' 7 ''INBOX''),
      demo_record 4 (secs 700) (secs 701) (demo_focus ''Mail'' 8 [])]"

abbreviation demo_aggregate :: "aggregated_activity list" where
  "demo_aggregate \<equiv> aggregate_activities_since ascii_env demo_records (secs 100) (secs 701) 60 2 0"

lemma demo_aggregate_result:
  "map (\<lambda>a. (aa_total_duration_seconds a, map fst (aa_windows a),
       map (\<lambda>(t, g). (t, eg_distinct_ids g, eg_total_duration_seconds g)) (aa_ephemeral_groups a),
       map (\<lambda>g. (tg_title_key g, tg_distinct_ids g)) (aa_temporal_groups a))) demo_aggregate
   = [(513, [], [(''draft'', {5, 6}, 12)], [(''inbox'', {4, 7})])]"
  by code_simp

lemma demo_aggregate_hd: "hd demo_aggregate \<in> set demo_aggregate"
proof -
  have "demo_aggregate \<noteq> []" using demo_aggregate_result by force
  then show ?thesis by simp
qed

theorem aggregate_totals_witness:
  "list_all (\<lambda>a. totals_of (contributions (secs 100) (secs 701) (agg_key a) demo_records) a) demo_aggregate"
  using aggregate_totals [OF ascii_env_ok refl, of demo_records "secs 100" "secs 701" 60 2 0] by blast

text \<open>
  Every window of an application is listed in exactly one place.  The ids of its ephemeral
  groups, its temporal groups and its window lane are pairwise disjoint and all come from the
  contributions of the application; without a cap on the lane they are all of its windows, and with
  a cap the lane has at most that many entries.
\<close>
theorem aggregate_partitions_windows:
  assumes "agg_env_ok E"
    and "a \<in> set (aggregate_activities_since E rs since now thr min_ids max_windows)"
  shows "ephemeral_ids a \<inter> temporal_ids a = {} \<and> ephemeral_ids a \<inter> lane_ids a = {}
    \<and> temporal_ids a \<inter> lane_ids a = {}
    \<and> (if max_windows = 0
       then ephemeral_ids a \<union> temporal_ids a \<union> lane_ids a = window_ids (contributions since now (agg_key a) rs)
       else ephemeral_ids a \<union> temporal_ids a \<union> lane_ids a \<subseteq> window_ids (contributions since now (agg_key a) rs)
         \<and> length (aa_windows a) \<le> max_windows)"
proof -
  obtain b k where a: "a = group_app E thr min_ids max_windows k b" "k = agg_key a"
    and raw: "raw_entry (contributions since now (agg_key a) rs) b" by (rule aggregate_raw [OF assms])
  note lanes = group_app_lanes [OF assms(1) raw a(1)]
  then show ?thesis by (simp add: lanes)
qed

theorem aggregate_partitions_windows_witness:
  "ephemeral_ids (hd demo_aggregate) \<union> temporal_ids (hd demo_aggregate) \<union> lane_ids (hd demo_aggregate)
     = window_ids (contributions (secs 100) (secs 701) (agg_key (hd demo_aggregate)) demo_records)"
  using aggregate_partitions_windows [OF ascii_env_ok demo_aggregate_hd] by simp

text \<open>
  The duration shown for a window of the lane is the sum of the durations of the contributions
  to that window, and every temporal group has at least two windows of the lane, each last used at
  most an hour before the next newer one.
\<close>
theorem aggregate_window_durations:
  assumes "agg_env_ok E"
    and "a \<in> set (aggregate_activities_since E rs since now thr min_ids max_windows)"
  shows "list_all (\<lambda>(i, w). window_totals_of (contributions since now (agg_key a) rs) i w) (aa_windows a)
    \<and> list_all (\<lambda>g. \<exists>t c. g = build_temporal_group t c \<and> 2 \<le> length c \<and> hourly c) (aa_temporal_groups a)"
proof
  obtain b k where a: "a = group_app E thr min_ids max_windows k b" and "k = agg_key a"
    and raw: "raw_entry (contributions since now (agg_key a) rs) b" by (rule aggregate_raw [OF assms])
  have "window_totals_of (contributions since now (agg_key a) rs) i w" if "(i, w) \<in> set (aa_windows b)" for i w
    using raw that unfolding raw_entry_def by (metis map_of_eq_Some_iff)
  then show "list_all (\<lambda>(i, w). window_totals_of (contributions since now (agg_key a) rs) i w) (aa_windows a)"
    using group_app_lanes(7) [OF assms(1) raw a] by (auto simp: list_all_iff)
  have "2 \<le> length c \<and> hourly c" if "c \<in> set (title_clusters items)" for c items
    using that clusters_hourly [of None c "newest_first items"]
    by (auto simp: title_clusters_def cluster_inv_def split: if_splits)
  moreover have "aa_temporal_groups a = aa_temporal_groups (temporal_pass E k (first_pass E thr min_ids k b))"
    unfolding a group_app_passes by (simp add: trim_windows_def)
  ultimately show "list_all (\<lambda>g. \<exists>t c. g = build_temporal_group t c \<and> 2 \<le> length c \<and> hourly c) (aa_temporal_groups a)"
    by (fastforce simp: temporal_pass_found found_clusters_def list_all_iff)
qed

theorem aggregate_window_durations_witness:
  "list_all (\<lambda>g. \<exists>t c. g = build_temporal_group t c \<and> 2 \<le> length c \<and> hourly c)
     (aa_temporal_groups (hd demo_aggregate))"
  using aggregate_window_durations [OF ascii_env_ok demo_aggregate_hd] by blast

end
