(* ===== verification/Ingest.thy ===== *)
theory Ingest
  imports Events
begin

text \<open>
  The first stage of the pipeline: src/daemon/pipeline/ingest.rs, with the events of
  src/daemon/coordinator.rs, the batch types of src/daemon/pipeline/types.rs and the mouse mappings
  of crates/input/src/lib.rs.  The stage gives every event an id, collects raw events and flushes
  them on a 50 ms ticker.

  One iteration of the stage's loop is a step.  What \<open>select!\<close> picks, the readings of the wall clock
  and of the monotonic clock, and whether the receiver of the next stage still exists are inputs of
  the step.  \<open>next_event_id\<close> spins until the clock shows another millisecond; a list of readings
  that ends before that has the value \<open>None\<close>.
\<close>

section \<open>Events and batches\<close>

datatype kronical_event =
    KeyboardInputEvent
  | MouseInputEvent i32 i32 "mouse_button option" u16 mouse_event_kind
  | MouseWheelEvent u16 i32 i32 wheel_scroll_type u16 i16 "wheel_axis option"
  | WindowFocusChangeEvent window_focus_info
  | ShutdownEvent

datatype flush_reason = FlushTimeout | FlushShutdown

record raw_batch =
  batch_events :: "raw_event list"
  batch_reason :: flush_reason

definition batch_is_empty :: "raw_batch \<Rightarrow> bool" where
  "batch_is_empty b = (batch_events b = [])"

datatype derive_command = DeriveBatch raw_batch | DeriveTick instant | DeriveShutdown

section \<open>Mouse mappings\<close>

text \<open>The enums of the hook library with the variants the mappings match; its codes are parameters.\<close>

datatype hook_mouse_button = HookNoButton | HookButton1 | HookButton2 | HookButton3 | HookButton4 | HookButton5

datatype hook_mouse_event_type = HookMoved | HookPressed | HookReleased | HookClicked | HookDragged

fun button_from_hook :: "hook_mouse_button \<Rightarrow> mouse_button option" where
  "button_from_hook HookNoButton = None"
| "button_from_hook HookButton1 = Some Primary"
| "button_from_hook HookButton2 = Some Secondary"
| "button_from_hook HookButton3 = Some Middle"
| "button_from_hook HookButton4 = Some Button4"
| "button_from_hook HookButton5 = Some Button5"

fun event_kind_from_hook :: "hook_mouse_event_type \<Rightarrow> mouse_event_kind" where
  "event_kind_from_hook HookMoved = Moved"
| "event_kind_from_hook HookPressed = Pressed"
| "event_kind_from_hook HookReleased = Released"
| "event_kind_from_hook HookClicked = Clicked"
| "event_kind_from_hook HookDragged = Dragged"

definition wheel_scroll_type_from_raw :: "u8 \<Rightarrow> u8 \<Rightarrow> u8 \<Rightarrow> wheel_scroll_type" where
  "wheel_scroll_type_from_raw unit_code block_code raw =
     (if raw = unit_code then UnitScroll else if raw = block_code then BlockScroll else UnknownScroll raw)"

definition wheel_axis_from_direction :: "u8 \<Rightarrow> u8 \<Rightarrow> u8 \<Rightarrow> wheel_axis option" where
  "wheel_axis_from_direction vertical_code horizontal_code direction =
     (if direction = vertical_code then Some Vertical
      else if direction = horizontal_code then Some Horizontal else None)"

section \<open>Operations\<close>

definition convert_kronid_to_raw :: "kronical_event \<Rightarrow> instant \<Rightarrow> u64 \<Rightarrow> string + raw_event" where
  "convert_kronid_to_raw event now event_id = (case event of
      KeyboardInputEvent \<Rightarrow>
        Inr (RawKeyboardInput now event_id \<lparr> key_code = None, key_char = None, key_modifiers = [] \<rparr>)
    | MouseInputEvent x y button clicks kind \<Rightarrow>
        Inr (RawMouseInput now event_id
          \<lparr> mouse_pos = \<lparr> pos_x = x, pos_y = y \<rparr>, mouse_btn = button,
            mouse_click_count = (if 0 < clicks then Some clicks else None),
            mouse_event_type = Some kind, wheel_amount = None, wheel_rotation = None,
            mouse_wheel_axis = None, mouse_wheel_scroll_type = None \<rparr>)
    | MouseWheelEvent clicks x y scroll_type amount rotation axis \<Rightarrow>
        Inr (RawMouseInput now event_id
          \<lparr> mouse_pos = \<lparr> pos_x = x, pos_y = y \<rparr>, mouse_btn = None,
            mouse_click_count = Some clicks, mouse_event_type = None,
            wheel_amount = Some (ucast amount), wheel_rotation = Some (scast rotation),
            mouse_wheel_axis = axis, mouse_wheel_scroll_type = Some scroll_type \<rparr>)
    | WindowFocusChangeEvent focus_info \<Rightarrow> Inr (RawWindowFocusChange now event_id focus_info)
    | ShutdownEvent \<Rightarrow> Inl ''Cannot convert Shutdown event to RawEvent'')"

definition EVENT_ID_SEQ_BITS :: nat where "EVENT_ID_SEQ_BITS = 12"

definition EVENT_ID_SEQ_MASK :: u64 where "EVENT_ID_SEQ_MASK = push_bit EVENT_ID_SEQ_BITS 1 - 1"

definition timestamp_millis_u64 :: "instant \<Rightarrow> u64" where
  "timestamp_millis_u64 t = word_of_int (epoch_millis t)"

text \<open>The busy-wait loop: the first reading that shows another millisecond.\<close>

fun spin_until_changed :: "u64 \<Rightarrow> instant list \<Rightarrow> instant option" where
  "spin_until_changed last_event_ms [] = None"
| "spin_until_changed last_event_ms (now # readings) =
     (if timestamp_millis_u64 now \<noteq> last_event_ms then Some now
      else spin_until_changed last_event_ms readings)"

text \<open>
  \<open>next_event_id\<close> on the readings of the clock, the first of which is the reading at its start:
  the new \<open>last_event_ms\<close> and \<open>event_seq\<close>, the time and the id.
\<close>

definition make_event_id :: "u64 \<Rightarrow> u64 \<Rightarrow> u64" where
  "make_event_id now_ms event_seq = or (push_bit EVENT_ID_SEQ_BITS now_ms) event_seq"

definition next_event_id ::
  "u64 \<Rightarrow> u64 \<Rightarrow> instant list \<Rightarrow> ((u64 \<times> u64) \<times> instant \<times> u64) option" where
  "next_event_id last_event_ms event_seq readings = (case readings of
      [] \<Rightarrow> None
    | now # rest \<Rightarrow>
        (let now_ms = timestamp_millis_u64 now
         in if now_ms = last_event_ms
            then (if EVENT_ID_SEQ_MASK \<le> event_seq
                  then (case spin_until_changed last_event_ms rest of
                          None \<Rightarrow> None
                        | Some now' \<Rightarrow>
                            (let ms' = timestamp_millis_u64 now'
                             in Some ((ms', 0), now', make_event_id ms' 0)))
                  else Some ((last_event_ms, event_seq + 1), now, make_event_id now_ms (event_seq + 1)))
            else Some ((now_ms, 0), now, make_event_id now_ms 0)))"

record ingest_state =
  ing_pending :: "raw_event list"
  ing_event_count :: u64
  ing_last_event_ms :: u64
  ing_event_seq :: u64
  ing_last_idle_tick :: int
  ing_running :: bool

definition ingest_init :: "int \<Rightarrow> ingest_state" where
  "ingest_init mono_now = \<lparr> ing_pending = [], ing_event_count = 0, ing_last_event_ms = 0, ing_event_seq = 0,
     ing_last_idle_tick = mono_now, ing_running = True \<rparr>"

text \<open>
  What an iteration reads: an event with the clock readings of \<open>next_event_id\<close>, a disconnected
  event channel, or the ticker.  The instants are the wall clock and the monotonic clock after that.
\<close>

datatype ingest_input =
    IngestEvent kronical_event "instant list" instant int
  | IngestDisconnected
  | IngestTicker instant int

definition idle_tick_interval :: int where "idle_tick_interval = millis 500"

text \<open>The end of an iteration: the tick, if one is due.\<close>

definition send_tick ::
  "bool \<Rightarrow> instant option \<Rightarrow> int \<Rightarrow> ingest_state \<Rightarrow> ingest_state \<times> derive_command list" where
  "send_tick derive_ok tick_due mono_now st = (case tick_due of
      None \<Rightarrow> (st, [])
    | Some now \<Rightarrow> if derive_ok then (st\<lparr> ing_last_idle_tick := mono_now \<rparr>, [DeriveTick now])
                  else (st\<lparr> ing_running := False \<rparr>, []))"

definition ingest_event ::
  "bool \<Rightarrow> kronical_event \<Rightarrow> instant list \<Rightarrow> instant \<Rightarrow> int \<Rightarrow> ingest_state \<Rightarrow>
   (ingest_state \<times> derive_command list) option" where
  "ingest_event derive_ok event readings wall mono_now st =
     (let st1 = st\<lparr> ing_event_count := ing_event_count st + 1 \<rparr>
      in case next_event_id (ing_last_event_ms st1) (ing_event_seq st1) readings of
           None \<Rightarrow> None
         | Some ((ms, sq), now, event_id) \<Rightarrow>
             (let st2 = st1\<lparr> ing_last_event_ms := ms, ing_event_seq := sq \<rparr>
              in case convert_kronid_to_raw event now event_id of
                   Inr raw \<Rightarrow>
                     Some (send_tick derive_ok (Some wall) mono_now (st2\<lparr> ing_pending := ing_pending st2 @ [raw] \<rparr>))
                 | Inl e \<Rightarrow> Some (st2, [])))"

definition ingest_step ::
  "bool \<Rightarrow> ingest_state \<Rightarrow> ingest_input \<Rightarrow> (ingest_state \<times> derive_command list) option" where
  "ingest_step derive_ok st inp = (case inp of
      IngestEvent ShutdownEvent readings wall mono_now \<Rightarrow>
        (if ing_pending st \<noteq> []
         then (let batch = \<lparr> batch_events = ing_pending st, batch_reason = FlushShutdown \<rparr>;
                   st1 = st\<lparr> ing_pending := [], ing_running := False \<rparr>
               in Some (st1, if derive_ok then [DeriveBatch batch, DeriveShutdown] else []))
         else Some (st\<lparr> ing_running := False \<rparr>, if derive_ok then [DeriveShutdown] else []))
    | IngestEvent event readings wall mono_now \<Rightarrow> ingest_event derive_ok event readings wall mono_now st
    | IngestDisconnected \<Rightarrow> Some (st\<lparr> ing_running := False \<rparr>, [])
    | IngestTicker wall mono_now \<Rightarrow>
        (if ing_pending st = []
         then Some (send_tick derive_ok
                (if idle_tick_interval \<le> mono_now - ing_last_idle_tick st then Some wall else None) mono_now st)
         else (let batch = \<lparr> batch_events = ing_pending st, batch_reason = FlushTimeout \<rparr>;
                   st1 = st\<lparr> ing_pending := [] \<rparr>
               in if derive_ok
                  then (case send_tick derive_ok (Some wall) mono_now st1 of
                          (st2, out) \<Rightarrow> Some (st2, DeriveBatch batch # out))
                  else Some (st1\<lparr> ing_running := False \<rparr>, []))))"

text \<open>A run of the loop while the next stage exists; it stops reading after a break.\<close>

fun ingest_run :: "ingest_state \<Rightarrow> ingest_input list \<Rightarrow> (ingest_state \<times> derive_command list) option" where
  "ingest_run st [] = Some (st, [])"
| "ingest_run st (i # is) =
     (if \<not> ing_running st then Some (st, [])
      else case ingest_step True st i of
             None \<Rightarrow> None
           | Some (st', out) \<Rightarrow> (case ingest_run st' is of None \<Rightarrow> None | Some (st'', out') \<Rightarrow> Some (st'', out @ out')))"

section \<open>Specification\<close>

text \<open>The raw events of a list of commands, and those a run has read and kept.\<close>

fun command_events :: "derive_command \<Rightarrow> raw_event list" where
  "command_events (DeriveBatch b) = batch_events b"
| "command_events _ = []"

definition sent_events :: "derive_command list \<Rightarrow> raw_event list" where
  "sent_events cmds = concat (map command_events cmds)"

text \<open>All readings a run takes for its ids, in order, are a clock that does not run backwards and
  stays within the 52 bits an id has for milliseconds.\<close>

fun input_readings :: "ingest_input \<Rightarrow> instant list" where
  "input_readings (IngestEvent _ rs _ _) = rs"
| "input_readings _ = []"

definition good_clock :: "ingest_input list \<Rightarrow> bool" where
  "good_clock is \<longleftrightarrow> sorted (concat (map input_readings is)) \<and>
     (\<forall>t \<in> set (concat (map input_readings is)). 0 < epoch_millis t \<and> epoch_millis t < 2 ^ 52)"

text \<open>The events a run reads before it stops.\<close>

fun read_events :: "ingest_input list \<Rightarrow> kronical_event list" where
  "read_events [] = []"
| "read_events (IngestEvent ev _ _ _ # is) = (if ev = ShutdownEvent then [] else ev # read_events is)"
| "read_events (IngestDisconnected # is) = []"
| "read_events (IngestTicker _ _ # is) = read_events is"

text \<open>Whether the first input that stops the loop is a shutdown event.\<close>

fun stops_by_shutdown :: "ingest_input list \<Rightarrow> bool" where
  "stops_by_shutdown [] = False"
| "stops_by_shutdown (IngestEvent ev _ _ _ # is) = (ev = ShutdownEvent \<or> stops_by_shutdown is)"
| "stops_by_shutdown (IngestDisconnected # is) = False"
| "stops_by_shutdown (IngestTicker _ _ # is) = stops_by_shutdown is"

definition converted :: "kronical_event \<Rightarrow> raw_event \<Rightarrow> bool" where
  "converted ev raw \<longleftrightarrow> convert_kronid_to_raw ev (raw_timestamp raw) (raw_event_id raw) = Inr raw"

section \<open>Lemmas: event ids\<close>

lemma convert_ok:
  "ev \<noteq> ShutdownEvent \<Longrightarrow> \<exists>raw. convert_kronid_to_raw ev now i = Inr raw \<and> raw_timestamp raw = now \<and> raw_event_id raw = i"
  by (cases ev) (simp_all add: convert_kronid_to_raw_def)

lemma convert_fails: "convert_kronid_to_raw ev now i = Inl e \<longleftrightarrow>
    ev = ShutdownEvent \<and> e = ''Cannot convert Shutdown event to RawEvent''"
  by (cases ev) (auto simp: convert_kronid_to_raw_def)

lemma seq_mask: "EVENT_ID_SEQ_MASK = 4095"
  by (simp add: EVENT_ID_SEQ_MASK_def EVENT_ID_SEQ_BITS_def push_bit_eq_mult)

lemma make_event_id_value:
  assumes "uint ms < 2 ^ 52" and "uint sq < 4096"
  shows "uint (make_event_id ms sq) = uint ms * 4096 + uint sq"
proof -
  have "\<not> bit (push_bit 12 ms) n \<or> \<not> bit sq n" for n
  proof (cases "n < 12")
    case True
    then show ?thesis by (simp add: bit_push_bit_iff)
  next
    case False
    have "take_bit 12 (uint sq) = uint sq" using assms(2) by (simp add: take_bit_int_eq_self_iff)
    then have "\<not> bit (uint sq) n" using False by (metis bit_take_bit_iff not_less)
    then show ?thesis by (metis bit_uint_iff bit_imp_le_length)
  qed
  then have "or (push_bit 12 ms) sq = push_bit 12 ms + sq" by (simp add: disjunctive_add)
  then have "make_event_id ms sq = ms * 4096 + sq"
    by (simp add: make_event_id_def EVENT_ID_SEQ_BITS_def push_bit_eq_mult)
  moreover have "uint (ms * 4096 + sq) = (uint ms * 4096 + uint sq) mod 2 ^ 64"
    by (simp add: uint_word_ariths mod_simps)
  ultimately show ?thesis using assms by simp
qed

text \<open>The position of a pair of millisecond and sequence number in the order of ids.\<close>

definition id_rank :: "u64 \<Rightarrow> u64 \<Rightarrow> int" where
  "id_rank ms sq = uint ms * 4096 + uint sq"

definition id_state_ok :: "u64 \<Rightarrow> u64 \<Rightarrow> bool" where
  "id_state_ok ms sq \<longleftrightarrow> uint ms < 2 ^ 52 \<and> uint sq < 4096"

definition readings_ok :: "u64 \<Rightarrow> instant list \<Rightarrow> bool" where
  "readings_ok ms rs \<longleftrightarrow> (\<forall>t \<in> set rs. uint ms \<le> epoch_millis t \<and> epoch_millis t < 2 ^ 52)"

lemma timestamp_millis_u64_value:
  "0 \<le> epoch_millis t \<Longrightarrow> epoch_millis t < 2 ^ 52 \<Longrightarrow> uint (timestamp_millis_u64 t) = epoch_millis t"
  by (simp add: timestamp_millis_u64_def uint_word_of_int)

lemma spin_until_changed_Some:
  "spin_until_changed ms rs = Some t \<Longrightarrow> t \<in> set rs \<and> timestamp_millis_u64 t \<noteq> ms"
  by (induction ms rs rule: spin_until_changed.induct) (auto split: if_splits)

lemma id_rank_less:
  "id_state_ok ms sq \<Longrightarrow> uint ms < uint ms' \<Longrightarrow> id_rank ms sq < id_rank ms' sq'"
proof -
  assume "id_state_ok ms sq" "uint ms < uint ms'"
  then have "uint ms * 4096 + uint sq < (uint ms + 1) * 4096" "(uint ms + 1) * 4096 \<le> uint ms' * 4096"
    by (simp_all add: id_state_ok_def)
  moreover have "0 \<le> uint sq'" by simp
  ultimately show ?thesis unfolding id_rank_def by linarith
qed

lemma next_event_id_correct:
  assumes ok: "id_state_ok ms sq" and rs: "readings_ok ms rs"
    and r: "next_event_id ms sq rs = Some ((ms', sq'), now, i)"
  shows "id_state_ok ms' sq' \<and> uint i = id_rank ms' sq' \<and> id_rank ms sq < id_rank ms' sq'
    \<and> now \<in> set rs \<and> uint ms' = epoch_millis now"
proof -
  obtain t rest where rs': "rs = t # rest" using r by (cases rs) (auto simp: next_event_id_def)
  have val: "uint (timestamp_millis_u64 x) = epoch_millis x" "epoch_millis x < 2 ^ 52" "uint ms \<le> epoch_millis x"
    if "x \<in> set rs" for x
    using rs that by (auto simp: readings_ok_def intro!: timestamp_millis_u64_value order_trans [OF uint_ge_0])
  have new: ?thesis if x: "x \<in> set rs" "timestamp_millis_u64 x \<noteq> ms"
      "ms' = timestamp_millis_u64 x" "sq' = 0" "now = x" "i = make_event_id ms' 0" for x
  proof -
    have "uint ms \<noteq> uint ms'" using x(2,3) by (metis word_uint_eq_iff)
    then have "uint ms < uint ms'" using val [OF x(1)] x(3) by simp
    moreover have ok': "id_state_ok ms' sq'" using val [OF x(1)] x(3,4) by (simp add: id_state_ok_def)
    moreover have "uint i = id_rank ms' sq'"
      using ok' x(4,6) make_event_id_value [of ms' 0] by (simp add: id_rank_def id_state_ok_def)
    ultimately show ?thesis
      using val [OF x(1)] x(1,3,5) id_rank_less [OF ok, of ms' sq'] by simp
  qed
  show ?thesis
  proof (cases "timestamp_millis_u64 t = ms")
    case False
    have "ms' = timestamp_millis_u64 t" "sq' = 0" "now = t" "i = make_event_id ms' 0"
      using r rs' False by (auto simp: next_event_id_def Let_def)
    with False rs' show ?thesis by (intro new [where x = t]) auto
  next
    case same: True
    show ?thesis
    proof (cases "EVENT_ID_SEQ_MASK \<le> sq")
      case True
      obtain x where x: "spin_until_changed ms rest = Some x"
        using r same True by (cases "spin_until_changed ms rest") (simp_all add: rs' next_event_id_def Let_def)
      have "ms' = timestamp_millis_u64 x" "sq' = 0" "now = x" "i = make_event_id ms' 0"
        using r same True x by (auto simp: rs' next_event_id_def Let_def)
      with spin_until_changed_Some [OF x] rs' show ?thesis by (intro new [where x = x]) auto
    next
      case False
      then have "uint sq < 4095" by (simp add: seq_mask word_le_def)
      then have sq1: "uint (sq + 1) = uint sq + 1" by (simp add: uint_word_ariths)
      have eqs: "ms' = ms" "sq' = sq + 1" "now = t" "i = make_event_id ms (sq + 1)"
        using r rs' same False by (auto simp: next_event_id_def Let_def)
      have "uint ms = epoch_millis t" using val(1) [of t] rs' same by simp
      with ok \<open>uint sq < 4095\<close> rs' show ?thesis
        unfolding eqs by (simp add: id_state_ok_def id_rank_def sq1 make_event_id_value)
    qed
  qed
qed

section \<open>Lemmas: runs\<close>

lemma sent_events_simps [simp]:
  "sent_events [] = []" "sent_events (xs @ ys) = sent_events xs @ sent_events ys"
  "sent_events (DeriveTick t # cs) = sent_events cs" "sent_events (DeriveShutdown # cs) = sent_events cs"
  "sent_events (DeriveBatch b # cs) = batch_events b @ sent_events cs"
  by (simp_all add: sent_events_def)

text \<open>One iteration: either the events kept and sent stay the same, or one new event is added.\<close>

lemma ingest_step_ticker:
  "ingest_step True st (IngestTicker wall m) = Some (st', out) \<Longrightarrow>
     sent_events out @ ing_pending st' = ing_pending st \<and> ing_running st' = ing_running st
     \<and> ing_last_event_ms st' = ing_last_event_ms st \<and> ing_event_seq st' = ing_event_seq st
     \<and> DeriveShutdown \<notin> set out"
  by (auto simp: ingest_step_def send_tick_def Let_def split: if_splits)

lemma ingest_step_shutdown:
  "ingest_step True st (IngestEvent ShutdownEvent rs wall m) = Some (st', out) \<Longrightarrow>
     sent_events out = ing_pending st \<and> ing_pending st' = [] \<and> \<not> ing_running st'
     \<and> (\<exists>cs. out = cs @ [DeriveShutdown] \<and> DeriveShutdown \<notin> set cs)"
  by (auto simp: ingest_step_def Let_def split: if_splits)

lemma ingest_step_event:
  assumes "ev \<noteq> ShutdownEvent" and "ingest_step True st (IngestEvent ev rs wall m) = Some (st', out)"
  shows "\<exists>ms sq now i raw. next_event_id (ing_last_event_ms st) (ing_event_seq st) rs = Some ((ms, sq), now, i)
    \<and> converted ev raw \<and> raw_event_id raw = i \<and> raw_timestamp raw = now
    \<and> ing_last_event_ms st' = ms \<and> ing_event_seq st' = sq \<and> ing_running st' = ing_running st
    \<and> ing_pending st' = ing_pending st @ [raw] \<and> out = [DeriveTick wall]"
proof -
  from assms have e: "ingest_event True ev rs wall m st = Some (st', out)"
    by (cases ev) (simp_all add: ingest_step_def)
  then obtain ms sq now i where n: "next_event_id (ing_last_event_ms st) (ing_event_seq st) rs = Some ((ms, sq), now, i)"
    by (auto simp: ingest_event_def Let_def split: option.splits)
  obtain raw where raw: "convert_kronid_to_raw ev now i = Inr raw" "raw_timestamp raw = now" "raw_event_id raw = i"
    using convert_ok [OF assms(1)] by blast
  with e n show ?thesis
    by (auto simp: ingest_event_def converted_def send_tick_def Let_def)
qed

definition raw_rank :: "raw_event \<Rightarrow> int" where
  "raw_rank e = uint (raw_event_id e)"

lemma readings_ok_next:
  assumes clock: "good_clock (IngestEvent ev rs wall m # is)" and ok: "readings_ok ms (rs @ concat (map input_readings is))"
    and now: "now \<in> set rs" "uint ms' = epoch_millis now"
  shows "readings_ok ms' (concat (map input_readings is))"
proof -
  have "sorted (rs @ concat (map input_readings is))" using clock by (simp add: good_clock_def)
  then have "now \<le> t" if "t \<in> set (concat (map input_readings is))" for t
    using now(1) that by (simp only: sorted_append)
  then have "epoch_millis now \<le> epoch_millis t" if "t \<in> set (concat (map input_readings is))" for t
    unfolding epoch_millis_def using that by (intro zdiv_mono1) simp_all
  with ok now(2) show ?thesis by (auto simp: readings_ok_def simp del: set_concat)
qed

text \<open>A run: the events sent and kept extend the pending ones by the events read, with rising ids.\<close>

definition ids_ready :: "ingest_state \<Rightarrow> ingest_input list \<Rightarrow> bool" where
  "ids_ready st is \<longleftrightarrow> good_clock is \<and> id_state_ok (ing_last_event_ms st) (ing_event_seq st) \<and>
     readings_ok (ing_last_event_ms st) (concat (map input_readings is))"

definition rising_from :: "ingest_state \<Rightarrow> raw_event list \<Rightarrow> bool" where
  "rising_from st new \<longleftrightarrow> sorted_wrt (<) (id_rank (ing_last_event_ms st) (ing_event_seq st) # map raw_rank new)"

lemma good_clock_tl: "good_clock (i # is) \<Longrightarrow> good_clock is"
  by (auto simp: good_clock_def sorted_append)

lemma ids_ready_skip:
  "ids_ready st (i # is) \<Longrightarrow> ing_last_event_ms st' = ing_last_event_ms st \<Longrightarrow>
   ing_event_seq st' = ing_event_seq st \<Longrightarrow> ids_ready st' is"
  by (auto simp: ids_ready_def readings_ok_def dest: good_clock_tl)

lemma ids_ready_event:
  assumes ready: "ids_ready st (IngestEvent ev rs wall m # is)"
    and n: "next_event_id (ing_last_event_ms st) (ing_event_seq st) rs = Some ((ms, sq), now, i)"
    and st': "ing_last_event_ms st' = ms" "ing_event_seq st' = sq"
  shows "ids_ready st' is \<and> id_rank (ing_last_event_ms st) (ing_event_seq st) < uint i
    \<and> uint i = id_rank (ing_last_event_ms st') (ing_event_seq st')"
proof -
  have ok: "id_state_ok (ing_last_event_ms st) (ing_event_seq st)"
    and rd: "readings_ok (ing_last_event_ms st) (rs @ concat (map input_readings is))"
    and clock: "good_clock (IngestEvent ev rs wall m # is)"
    using ready by (auto simp: ids_ready_def)
  have "readings_ok (ing_last_event_ms st) rs" using rd by (simp add: readings_ok_def)
  note c = next_event_id_correct [OF ok this n]
  then have "readings_ok ms (concat (map input_readings is))" using readings_ok_next [OF clock rd] by blast
  with c clock st' show ?thesis by (auto simp: ids_ready_def dest: good_clock_tl)
qed

lemma ingest_run_events:
  "ingest_run st is = Some (st', out) \<Longrightarrow> ing_running st \<Longrightarrow>
     \<exists>new. sent_events out @ ing_pending st' = ing_pending st @ new \<and> list_all2 converted (read_events is) new
       \<and> (ids_ready st is \<longrightarrow> rising_from st new)"
proof (induction "is" arbitrary: st out)
  case Nil
  then show ?case by (simp add: rising_from_def)
next
  case (Cons i "is")
  from Cons.prems obtain st1 o1 o2 where s: "ingest_step True st i = Some (st1, o1)"
    and r: "ingest_run st1 is = Some (st', o2)" and out: "out = o1 @ o2"
    by (auto split: option.splits prod.splits)
  have stop: "o2 = [] \<and> st' = st1" if "\<not> ing_running st1" using r that by (cases "is") auto
  show ?case
  proof (cases i)
    case IngestDisconnected
    then have "\<not> ing_running st1" "ing_pending st1 = ing_pending st" "o1 = []"
      using s by (auto simp: ingest_step_def)
    with stop out IngestDisconnected show ?thesis by (auto simp: rising_from_def)
  next
    case (IngestTicker wall m)
    note t = ingest_step_ticker [OF s [unfolded IngestTicker]]
    with Cons.IH [OF r] Cons.prems(2) obtain new where
      n: "sent_events o2 @ ing_pending st' = ing_pending st1 @ new" "list_all2 converted (read_events is) new"
        "ids_ready st1 is \<longrightarrow> rising_from st1 new" by auto
    have "sent_events out @ ing_pending st' = ing_pending st @ new"
      using t n(1) out by (metis append_assoc sent_events_simps(2))
    moreover have "ids_ready st (i # is) \<longrightarrow> rising_from st new"
      using n(3) t ids_ready_skip [of st i "is" st1] by (simp add: rising_from_def)
    ultimately show ?thesis using n(2) IngestTicker by auto
  next
    case (IngestEvent ev rs wall m)
    show ?thesis
    proof (cases "ev = ShutdownEvent")
      case True
      with ingest_step_shutdown s stop out IngestEvent show ?thesis by (auto simp: rising_from_def)
    next
      case False
      from ingest_step_event [OF False s [unfolded IngestEvent]] obtain ms sq now raw where
        raw: "next_event_id (ing_last_event_ms st) (ing_event_seq st) rs = Some ((ms, sq), now, raw_event_id raw)"
        "converted ev raw" "ing_last_event_ms st1 = ms" "ing_event_seq st1 = sq" "ing_running st1 = ing_running st"
        "ing_pending st1 = ing_pending st @ [raw]" "o1 = [DeriveTick wall]" by auto
      with Cons.IH [OF r] Cons.prems(2) obtain new where
        n: "sent_events o2 @ ing_pending st' = ing_pending st1 @ new" "list_all2 converted (read_events is) new"
          "ids_ready st1 is \<longrightarrow> rising_from st1 new" by auto
      have "ids_ready st (i # is) \<longrightarrow> rising_from st (raw # new)"
        using ids_ready_event [of st ev rs wall m "is" ms sq now "raw_event_id raw" st1] raw n(3) IngestEvent
        by (auto simp: rising_from_def raw_rank_def)
      with raw n out IngestEvent False show ?thesis by (intro exI [of _ "raw # new"]) auto
    qed
  qed
qed

text \<open>The end of a run.\<close>

lemma ingest_run_end:
  "ingest_run st is = Some (st', out) \<Longrightarrow> ing_running st \<Longrightarrow>
     (if stops_by_shutdown is
      then ing_pending st' = [] \<and> \<not> ing_running st' \<and> (\<exists>cs. out = cs @ [DeriveShutdown] \<and> DeriveShutdown \<notin> set cs)
      else DeriveShutdown \<notin> set out)"
proof (induction "is" arbitrary: st out)
  case Nil
  then show ?case by simp
next
  case (Cons i "is")
  from Cons.prems obtain st1 o1 o2 where s: "ingest_step True st i = Some (st1, o1)"
    and r: "ingest_run st1 is = Some (st', o2)" and out: "out = o1 @ o2"
    by (auto split: option.splits prod.splits)
  have stop: "o2 = [] \<and> st' = st1" if "\<not> ing_running st1" using r that by (cases "is") auto
  show ?case
  proof (cases i)
    case IngestDisconnected
    with s stop out show ?thesis by (auto simp: ingest_step_def)
  next
    case (IngestTicker wall m)
    note t = ingest_step_ticker [OF s [unfolded IngestTicker]]
    with Cons.IH [OF r] Cons.prems(2) out IngestTicker show ?thesis by (auto split: if_splits)
  next
    case (IngestEvent ev rs wall m)
    show ?thesis
    proof (cases "ev = ShutdownEvent")
      case True
      with ingest_step_shutdown s stop out IngestEvent show ?thesis by auto
    next
      case False
      from ingest_step_event [OF False s [unfolded IngestEvent]]
      have "ing_running st1 = ing_running st" "o1 = [DeriveTick wall]" by auto
      with Cons.IH [OF r] Cons.prems(2) out IngestEvent False show ?thesis by (auto split: if_splits)
    qed
  qed
qed

section \<open>Properties\<close>

text \<open>
  Event ids are unique and rise with time.  In every run of the ingest loop whose clock does
  not run backwards and stays below \<open>2 ^ 52\<close> milliseconds, the ids of all raw events the stage sent
  or still holds are strictly increasing in the order in which the events were read, also when more
  than 4096 of them arrive in one millisecond.
\<close>
theorem event_ids_increase:
  assumes "ingest_run (ingest_init m) is = Some (st, out)" and "good_clock is"
  shows "sorted_wrt (<) (map raw_rank (sent_events out @ ing_pending st))"
proof -
  have init: "ing_running (ingest_init m)" "ing_pending (ingest_init m) = []" by (simp_all add: ingest_init_def)
  from ingest_run_events [OF assms(1) init(1)] obtain new where
    new: "sent_events out @ ing_pending st = new" "ids_ready (ingest_init m) is \<longrightarrow> rising_from (ingest_init m) new"
    by (auto simp: init)
  have "ids_ready (ingest_init m) is"
    using assms(2) unfolding ids_ready_def good_clock_def readings_ok_def
    by (auto simp: ingest_init_def id_state_ok_def less_imp_le)
  with new show ?thesis by (simp add: rising_from_def)
qed

text \<open>
  A run of five thousand events in one millisecond would be long; this one has three events, two of
  them in one millisecond, a tick and a shutdown.
\<close>

definition demo_inputs :: "ingest_input list" where
  "demo_inputs =
     [IngestEvent KeyboardInputEvent [millis 7] (millis 7) 0,
      IngestEvent (MouseInputEvent 3 4 None 0 Moved) [millis 7 + 5] (millis 7 + 6) 1,
      IngestTicker (millis 40) 2,
      IngestEvent KeyboardInputEvent [millis 41] (millis 41) 3,
      IngestEvent ShutdownEvent [] (millis 42) 4]"

lemma demo_inputs_run:
  "map_option (\<lambda>(st, out). (ing_pending st, map raw_event_id (sent_events out), last out))
     (ingest_run (ingest_init 0) demo_inputs) =
   Some ([], [28672, 28673, 167936], DeriveShutdown)"
  by code_simp

theorem event_ids_increase_witness:
  "sorted_wrt (<) (map raw_rank (sent_events (snd (the (ingest_run (ingest_init 0) demo_inputs)))
     @ ing_pending (fst (the (ingest_run (ingest_init 0) demo_inputs)))))"
proof (rule event_ids_increase)
  obtain st out where "ingest_run (ingest_init 0) demo_inputs = Some (st, out)"
    using demo_inputs_run by (cases "ingest_run (ingest_init 0) demo_inputs") auto
  then show "ingest_run (ingest_init 0) demo_inputs = Some
      (fst (the (ingest_run (ingest_init 0) demo_inputs)), snd (the (ingest_run (ingest_init 0) demo_inputs)))"
    by simp
  show "good_clock demo_inputs"
    by (simp add: good_clock_def demo_inputs_def millis_def epoch_millis_def)
qed

text \<open>
  C34: The ingest stage loses nothing on an orderly shutdown.  The raw events a run sent or still
  holds are the conversions of the events it read, in order.  When the run ends with a shutdown
  event, nothing is held back and the last command, and only the last, is the shutdown of the next
  stage; otherwise, also when the event channel disconnects, no shutdown is sent.
\<close>
theorem ingest_complete:
  assumes "ingest_run (ingest_init m) is = Some (st, out)"
  shows "list_all2 converted (read_events is) (sent_events out @ ing_pending st)
    \<and> (if stops_by_shutdown is
       then ing_pending st = [] \<and> (\<exists>cs. out = cs @ [DeriveShutdown] \<and> DeriveShutdown \<notin> set cs)
       else DeriveShutdown \<notin> set out)"
proof -
  have init: "ing_running (ingest_init m)" "ing_pending (ingest_init m) = []" by (simp_all add: ingest_init_def)
  from ingest_run_events [OF assms init(1)] have "list_all2 converted (read_events is) (sent_events out @ ing_pending st)"
    by (auto simp: init)
  with ingest_run_end [OF assms init(1)] show ?thesis by auto
qed

theorem ingest_complete_witness:
  "length (sent_events (snd (the (ingest_run (ingest_init 0) demo_inputs)))) = 3"
proof -
  obtain st out where r: "ingest_run (ingest_init 0) demo_inputs = Some (st, out)"
    using demo_inputs_run by (cases "ingest_run (ingest_init 0) demo_inputs") auto
  have "stops_by_shutdown demo_inputs" "length (read_events demo_inputs) = 3" by (simp_all add: demo_inputs_def)
  with ingest_complete [OF r] r show ?thesis by (auto dest: list_all2_lengthD)
qed

end
