(* ===== verification/Caches.thy ===== *)
theory Caches
  imports Kronical_Prelude
begin

text \<open>
  The caches of crates/common/src: the least-recently-used cache of lru.rs, with its optional time to
  live, and the weak string interner of interner.rs.  A cache entry carries the reading of the
  monotonic clock at its last use; every operation reads the clock once, and the reading is an
  argument.  Where an operation iterates over the hash map the order is an argument.
\<close>

section \<open>The LRU cache\<close>

record ('k, 'v) lru_cache =
  lru_map :: "('k \<times> 'v \<times> int) list"
  lru_capacity :: nat
  lru_ttl :: "int option"

definition with_capacity :: "nat \<Rightarrow> ('k, 'v) lru_cache" where
  "with_capacity capacity = \<lparr> lru_map = [], lru_capacity = max capacity 1, lru_ttl = None \<rparr>"

definition with_capacity_and_ttl :: "nat \<Rightarrow> int \<Rightarrow> ('k, 'v) lru_cache" where
  "with_capacity_and_ttl capacity ttl =
     \<lparr> lru_map = [], lru_capacity = max capacity 1, lru_ttl = Some ttl \<rparr>"

definition lru_len :: "('k, 'v) lru_cache \<Rightarrow> nat" where
  "lru_len c = length (lru_map c)"

text \<open>\<open>Instant::duration_since\<close> is zero when the other instant is later.\<close>

definition duration_since :: "int \<Rightarrow> int \<Rightarrow> int" where
  "duration_since now earlier = max 0 (now - earlier)"

definition lru_expired :: "('k, 'v) lru_cache \<Rightarrow> int \<Rightarrow> int \<Rightarrow> bool" where
  "lru_expired c now ts = (case lru_ttl c of Some ttl \<Rightarrow> ttl < duration_since now ts | None \<Rightarrow> False)"

definition get_cloned :: "int \<Rightarrow> 'k \<Rightarrow> ('k, 'v) lru_cache \<Rightarrow> 'v option \<times> ('k, 'v) lru_cache" where
  "get_cloned now key c = (case map_of (lru_map c) key of
      Some (v, ts) \<Rightarrow>
        if lru_expired c now ts then (None, c\<lparr> lru_map := hm_remove key (lru_map c) \<rparr>)
        else (Some v, c\<lparr> lru_map := hm_insert key (v, now) (lru_map c) \<rparr>)
    | None \<Rightarrow> (None, c))"

text \<open>\<open>min_by_key\<close> keeps the first of several least elements.\<close>

fun oldest_key :: "('k \<times> 'v \<times> int) list \<Rightarrow> 'k option" where
  "oldest_key [] = None"
| "oldest_key (x # xs) = Some (fst (foldl (\<lambda>a b. if snd (snd b) < snd (snd a) then b else a) x xs))"

text \<open>The order of an iteration; a function that is no reordering stands for the order of the list.\<close>

definition in_order :: "('a list \<Rightarrow> 'a list) \<Rightarrow> 'a list \<Rightarrow> 'a list" where
  "in_order it m = (if mset (it m) = mset m then it m else m)"

definition evict_if_needed ::
  "(('k \<times> 'v \<times> int) list \<Rightarrow> ('k \<times> 'v \<times> int) list) \<Rightarrow> ('k, 'v) lru_cache \<Rightarrow> ('k, 'v) lru_cache" where
  "evict_if_needed it c =
     (if length (lru_map c) \<le> lru_capacity c then c
      else (case oldest_key (in_order it (lru_map c)) of
              Some k \<Rightarrow> c\<lparr> lru_map := hm_remove k (lru_map c) \<rparr>
            | None \<Rightarrow> c))"

definition put ::
  "(('k \<times> 'v \<times> int) list \<Rightarrow> ('k \<times> 'v \<times> int) list) \<Rightarrow> int \<Rightarrow> 'k \<Rightarrow> 'v \<Rightarrow> ('k, 'v) lru_cache \<Rightarrow> ('k, 'v) lru_cache" where
  "put it now key v c = evict_if_needed it (c\<lparr> lru_map := hm_insert key (v, now) (lru_map c) \<rparr>)"

text \<open>The scan of \<open>any_entry_matches\<close>: whether an entry matches, and the expired keys met before.\<close>

fun any_scan :: "('k, 'v) lru_cache \<Rightarrow> int \<Rightarrow> ('k \<Rightarrow> 'v \<Rightarrow> bool) \<Rightarrow> ('k \<times> 'v \<times> int) list \<Rightarrow> bool \<times> 'k list" where
  "any_scan c now p [] = (False, [])"
| "any_scan c now p ((k, v, ts) # es) =
     (if lru_expired c now ts then (let (r, ks) = any_scan c now p es in (r, k # ks))
      else if p k v then (True, []) else any_scan c now p es)"

definition any_entry_matches ::
  "(('k \<times> 'v \<times> int) list \<Rightarrow> ('k \<times> 'v \<times> int) list) \<Rightarrow> int \<Rightarrow> ('k \<Rightarrow> 'v \<Rightarrow> bool) \<Rightarrow> ('k, 'v) lru_cache \<Rightarrow>
   bool \<times> ('k, 'v) lru_cache" where
  "any_entry_matches it now p c =
     (let (found, expired_keys) = any_scan c now p (in_order it (lru_map c))
      in if found then (True, c) else (False, c\<lparr> lru_map := fold hm_remove expired_keys (lru_map c) \<rparr>))"

section \<open>The weak string interner\<close>

text \<open>
  A string is allocated at an address; the map keeps the address of a string weakly.  Whether an
  address still has an owner is an input of every call, and so is the address of a new allocation.
\<close>

record weak_interner =
  wi_map :: "(string \<times> nat) list"
  wi_max_entries :: nat

definition weak_interner_new :: weak_interner where
  "weak_interner_new = \<lparr> wi_map = [], wi_max_entries = 4096 \<rparr>"

definition cleanup_dead_references :: "(nat \<Rightarrow> bool) \<Rightarrow> weak_interner \<Rightarrow> weak_interner" where
  "cleanup_dead_references alive w =
     (let m = filter (\<lambda>(_, a). alive a) (wi_map w)
      in w\<lparr> wi_map := (if wi_max_entries w \<le> length m then [] else m) \<rparr>)"

definition weak_allocate :: "(nat \<Rightarrow> bool) \<Rightarrow> nat \<Rightarrow> string \<Rightarrow> weak_interner \<Rightarrow> nat \<times> weak_interner" where
  "weak_allocate alive fresh s w =
     (let w2 = (if wi_max_entries w \<le> length (wi_map w) then cleanup_dead_references alive w else w)
      in (fresh, w2\<lparr> wi_map := hm_insert s fresh (wi_map w2) \<rparr>))"

definition weak_intern :: "(nat \<Rightarrow> bool) \<Rightarrow> nat \<Rightarrow> string \<Rightarrow> weak_interner \<Rightarrow> nat \<times> weak_interner" where
  "weak_intern alive fresh s w =
     (let w1 = cleanup_dead_references alive w
      in case map_of (wi_map w1) s of
           Some a \<Rightarrow> if alive a then (a, w1) else weak_allocate alive fresh s w1
         | None \<Rightarrow> weak_allocate alive fresh s w1)"

section \<open>Specification\<close>

text \<open>What a reader sees at an instant, and the interface the users of a cache rely on.\<close>

definition lru_peek :: "int \<Rightarrow> ('k, 'v) lru_cache \<Rightarrow> 'k \<Rightarrow> 'v option" where
  "lru_peek now c k = (case map_of (lru_map c) k of
      Some (v, ts) \<Rightarrow> if lru_expired c now ts then None else Some v | None \<Rightarrow> None)"

text \<open>The shape of a cache made with capacity \<open>n\<close> and that time to live.\<close>

definition lru_ok :: "nat \<Rightarrow> int option \<Rightarrow> ('k, 'v) lru_cache \<Rightarrow> bool" where
  "lru_ok n ttl c \<longleftrightarrow> distinct (map fst (lru_map c)) \<and> length (lru_map c) \<le> max n 1
     \<and> lru_capacity c = max n 1 \<and> lru_ttl c = ttl"

locale lookup_cache =
  fixes ok :: "'c \<Rightarrow> bool"
    and peek :: "int \<Rightarrow> 'c \<Rightarrow> 'k \<Rightarrow> 'v option"
    and get :: "int \<Rightarrow> 'k \<Rightarrow> 'c \<Rightarrow> 'v option \<times> 'c"
    and any :: "int \<Rightarrow> ('k \<Rightarrow> 'v \<Rightarrow> bool) \<Rightarrow> 'c \<Rightarrow> bool \<times> 'c"
    and ins :: "int \<Rightarrow> 'k \<Rightarrow> 'v \<Rightarrow> 'c \<Rightarrow> 'c"
  assumes get_value: "fst (get now k c) = peek now c k"
    and get_ok: "ok c \<Longrightarrow> ok (snd (get now k c))"
    and get_keeps: "ok c \<Longrightarrow> peek now (snd (get now k c)) = peek now c"
    and any_value: "ok c \<Longrightarrow> fst (any now p c) = (\<exists>k v. peek now c k = Some v \<and> p k v)"
    and any_ok: "ok c \<Longrightarrow> ok (snd (any now p c))"
    and ins_ok: "ok c \<Longrightarrow> ok (ins now k v c)"
    and ins_new: "ok c \<Longrightarrow> peek t (ins now k v c) k' = Some u \<Longrightarrow> k' = k \<and> u = v \<or> k' \<noteq> k \<and> peek t c k' = Some u"
begin

text \<open>A query for another key's value, as the focus worker makes it.\<close>

lemma any_other:
  "ok c \<Longrightarrow> fst (any now (\<lambda>k v. k \<noteq> k0 \<and> q v) c) = (\<exists>k v. k \<noteq> k0 \<and> peek now c k = Some v \<and> q v)"
  by (auto simp: any_value)

lemma get_after_ins: "ok c \<Longrightarrow> fst (get t k (ins now k v c)) = Some u \<Longrightarrow> u = v"
  using ins_new by (fastforce simp: get_value)

end

section \<open>Lemmas\<close>

lemma lru_expired_update [simp]: "lru_expired (c\<lparr> lru_map := m \<rparr>) = lru_expired c"
  by (simp add: lru_expired_def fun_eq_iff)

lemma length_hm_remove: "length (hm_remove k m) \<le> length m"
  by (simp add: hm_remove_def)

lemma length_hm_remove_key:
  assumes "k \<in> fst ` set m"
  shows "length (hm_remove k m) < length m"
proof -
  from assms obtain v where "(k, v) \<in> set m" by auto
  then show ?thesis unfolding hm_remove_def by (rule length_filter_less) simp
qed

lemma in_order_mset [simp]: "mset (in_order it m) = mset m"
  by (simp add: in_order_def)

lemma in_order_set [simp]: "set (in_order it m) = set m"
  by (rule mset_eq_setD) simp

lemma in_order_length [simp]: "length (in_order it m) = length m"
  by (rule mset_eq_length) simp

lemma oldest_fold:
  fixes x :: "'k \<times> 'v \<times> int"
  shows "let m = foldl (\<lambda>a b. if snd (snd b) < snd (snd a) then b else a) x xs
   in m \<in> set (x # xs) \<and> (\<forall>e \<in> set (x # xs). snd (snd m) \<le> snd (snd e))"
  unfolding Let_def
proof (induction xs arbitrary: x)
  case Nil
  then show ?case by simp
next
  case (Cons y ys)
  show ?case
  proof (cases "snd (snd y) < snd (snd x)")
    case True
    with Cons.IH [of y] show ?thesis by (auto intro: order_trans [OF _ less_imp_le])
  next
    case False
    with Cons.IH [of x] show ?thesis by (auto intro: order_trans)
  qed
qed

lemma oldest_key_Some:
  assumes "es \<noteq> []"
  obtains k v and ts :: int where "oldest_key es = Some k" "(k, v, ts) \<in> set es" "\<forall>e \<in> set es. ts \<le> snd (snd e)"
proof -
  from assms obtain x xs where es: "es = x # xs" by (cases es) auto
  obtain k v ts where m: "foldl (\<lambda>a b. if snd (snd b) < snd (snd a) then b else a) x xs = (k, v, ts)"
    using prod_cases3 by blast
  with oldest_fold [of x xs] have "(k, v, ts) \<in> set es" "\<forall>e \<in> set es. ts \<le> snd (snd e)"
    by (simp_all add: es Let_def)
  moreover have "oldest_key es = Some k" by (simp add: es m)
  ultimately show thesis using that by blast
qed

text \<open>An insertion beyond the capacity removes one entry, one of those used least recently.\<close>

lemma evict_cases:
  assumes "lru_capacity c < length (lru_map c)"
  obtains k v ts where "(k, v, ts) \<in> set (lru_map c)" "\<forall>e \<in> set (lru_map c). ts \<le> snd (snd e)"
    "evict_if_needed it c = c\<lparr> lru_map := hm_remove k (lru_map c) \<rparr>"
proof -
  have "in_order it (lru_map c) \<noteq> []"
    using assms by (metis in_order_length list.size(3) less_nat_zero_code)
  then obtain k v ts where k: "oldest_key (in_order it (lru_map c)) = Some k"
    "(k, v, ts) \<in> set (in_order it (lru_map c))"
    "\<forall>e \<in> set (in_order it (lru_map c)). ts \<le> snd (snd e)" by (rule oldest_key_Some)
  have "evict_if_needed it c = c\<lparr> lru_map := hm_remove k (lru_map c) \<rparr>"
    using k(1) assms by (simp add: evict_if_needed_def)
  moreover have "(k, v, ts) \<in> set (lru_map c)" using k(2) by simp
  moreover have "\<forall>e \<in> set (lru_map c). ts \<le> snd (snd e)" using k(3) by simp
  ultimately show thesis using that by blast
qed

lemma lru_ok_put:
  assumes "lru_ok n ttl c"
  shows "lru_ok n ttl (put it now k v c)"
proof (cases "length (hm_insert k (v, now) (lru_map c)) \<le> lru_capacity c")
  case True
  with assms show ?thesis by (simp add: lru_ok_def put_def evict_if_needed_def)
next
  case False
  let ?c = "c\<lparr> lru_map := hm_insert k (v, now) (lru_map c) \<rparr>"
  have "lru_capacity ?c < length (lru_map ?c)" using False by simp
  then obtain k' v' ts where k': "(k', v', ts) \<in> set (lru_map ?c)"
    "evict_if_needed it ?c = ?c\<lparr> lru_map := hm_remove k' (lru_map ?c) \<rparr>" by (rule evict_cases)
  have "length (hm_remove k' (lru_map ?c)) < length (lru_map ?c)"
    using k'(1) by (intro length_hm_remove_key) (rule image_eqI [where x = "(k', v', ts)"], simp)
  moreover have "length (lru_map ?c) \<le> Suc (length (lru_map c))" by (simp add: length_hm_insert)
  ultimately show ?thesis
    using assms k'(2) by (simp add: lru_ok_def put_def)
qed

lemma put_map:
  "map_of (lru_map (put it now k v c)) k' = None
    \<or> map_of (lru_map (put it now k v c)) k' = ((map_of (lru_map c))(k \<mapsto> (v, now))) k'"
proof (cases "length (hm_insert k (v, now) (lru_map c)) \<le> lru_capacity c")
  case True
  then show ?thesis by (simp add: put_def evict_if_needed_def)
next
  case False
  let ?c = "c\<lparr> lru_map := hm_insert k (v, now) (lru_map c) \<rparr>"
  have "lru_capacity ?c < length (lru_map ?c)" using False by simp
  then obtain k2 where "evict_if_needed it ?c = ?c\<lparr> lru_map := hm_remove k2 (lru_map ?c) \<rparr>"
    by (rule evict_cases)
  then show ?thesis by (simp add: put_def)
qed

lemma put_fields [simp]: "lru_capacity (put it now k v c) = lru_capacity c" "lru_ttl (put it now k v c) = lru_ttl c"
  by (simp_all add: put_def evict_if_needed_def split: option.split)

lemma lru_expired_put [simp]: "lru_expired (put it now k v c) = lru_expired c"
  by (simp add: lru_expired_def fun_eq_iff)

lemma lru_ok_get:
  assumes "lru_ok n ttl c"
  shows "lru_ok n ttl (snd (get_cloned now k c))"
proof (cases "map_of (lru_map c) k")
  case None
  with assms show ?thesis by (simp add: get_cloned_def)
next
  case (Some e)
  obtain v ts where e: "e = (v, ts)" by (cases e)
  have "k \<in> fst ` set (lru_map c)" using Some by (force dest: map_of_SomeD)
  with Some assms e show ?thesis
    by (auto simp: get_cloned_def lru_ok_def length_hm_insert intro: order_trans [OF length_hm_remove])
qed

lemma any_scan_found:
  "fst (any_scan c now p es) = (\<exists>k v ts. (k, v, ts) \<in> set es \<and> \<not> lru_expired c now ts \<and> p k v)"
proof (induction c now p es rule: any_scan.induct)
  case (2 c now p k v ts es)
  then show ?case by (cases "lru_expired c now ts"; cases "p k v") (auto simp: split_beta Let_def)
qed simp

lemma any_scan_expired:
  "k \<in> set (snd (any_scan c now p es)) \<Longrightarrow> \<exists>v ts. (k, v, ts) \<in> set es \<and> lru_expired c now ts"
  by (induction c now p es rule: any_scan.induct) (auto simp: split_beta Let_def split: if_splits)

lemma fold_hm_remove: "fold hm_remove ks m = filter (\<lambda>(k, _). k \<notin> set ks) m"
  by (induction ks arbitrary: m) (auto simp: hm_remove_def intro: filter_cong)

lemma any_map:
  "lru_map (snd (any_entry_matches it now p c)) = filter (\<lambda>(k, _). k \<notin> set
    (if fst (any_scan c now p (in_order it (lru_map c))) then [] else snd (any_scan c now p (in_order it (lru_map c))))) (lru_map c)"
  by (simp add: any_entry_matches_def split_beta Let_def fold_hm_remove)

lemma lru_ok_any: "lru_ok n ttl c \<Longrightarrow> lru_ok n ttl (snd (any_entry_matches it now p c))"
proof -
  assume "lru_ok n ttl c"
  moreover have "lru_capacity (snd (any_entry_matches it now p c)) = lru_capacity c"
    "lru_ttl (snd (any_entry_matches it now p c)) = lru_ttl c"
    by (simp_all add: any_entry_matches_def split_beta Let_def)
  ultimately show ?thesis
    by (auto simp: lru_ok_def any_map distinct_map_fst_filter intro: le_trans [OF length_filter_le])
qed

lemma any_value_peek:
  assumes "lru_ok n ttl c"
  shows "fst (any_entry_matches it now p c) = (\<exists>k v. lru_peek now c k = Some v \<and> p k v)"
proof -
  have m: "(k, v, ts) \<in> set (lru_map c) \<longleftrightarrow> map_of (lru_map c) k = Some (v, ts)" for k v ts
    using assms by (simp add: lru_ok_def)
  have "fst (any_entry_matches it now p c) =
      (\<exists>k v ts. map_of (lru_map c) k = Some (v, ts) \<and> \<not> lru_expired c now ts \<and> p k v)"
    by (simp add: any_entry_matches_def split_beta Let_def any_scan_found m)
  also have "\<dots> = (\<exists>k v. lru_peek now c k = Some v \<and> p k v)"
  proof -
    have "lru_peek now c k = Some v \<longleftrightarrow> (\<exists>ts. map_of (lru_map c) k = Some (v, ts) \<and> \<not> lru_expired c now ts)" for k v
      by (auto simp: lru_peek_def split: option.split)
    then show ?thesis by blast
  qed
  finally show ?thesis .
qed

lemma put_peek:
  assumes "lru_peek t (put it now k v c) k' = Some u"
  shows "k' = k \<and> u = v \<or> k' \<noteq> k \<and> lru_peek t c k' = Some u"
proof (cases "k' = k")
  case True
  with assms put_map [of it now k v c k'] show ?thesis by (auto simp: lru_peek_def split: if_splits)
next
  case False
  then consider "map_of (lru_map (put it now k v c)) k' = None"
    | "map_of (lru_map (put it now k v c)) k' = map_of (lru_map c) k'"
    using put_map [of it now k v c k'] by auto
  then show ?thesis
  proof cases
    case 1
    with assms show ?thesis by (simp add: lru_peek_def)
  next
    case 2
    with assms False show ?thesis unfolding lru_peek_def lru_expired_put by simp
  qed
qed

interpretation lru: lookup_cache "lru_ok n ttl" lru_peek get_cloned "any_entry_matches it" "put it"
  for n :: nat and ttl :: "int option" and it :: "('k \<times> 'v \<times> int) list \<Rightarrow> ('k \<times> 'v \<times> int) list"
proof
  fix now :: int and k :: 'k and c :: "('k, 'v) lru_cache"
  show "fst (get_cloned now k c) = lru_peek now c k"
    by (simp add: get_cloned_def lru_peek_def split: option.split)
  show "lru_peek now (snd (get_cloned now k c)) = lru_peek now c"
    by (rule ext) (auto simp: get_cloned_def lru_peek_def lru_expired_def duration_since_def split: option.split)
qed (auto simp: lru_ok_get any_value_peek lru_ok_any lru_ok_put dest: put_peek)


section \<open>Histories\<close>

datatype ('k, 'v) lru_op = LruGet 'k | LruPut 'k 'v | LruAny "'k \<Rightarrow> 'v \<Rightarrow> bool"

definition lru_apply ::
  "(('k \<times> 'v \<times> int) list \<Rightarrow> ('k \<times> 'v \<times> int) list) \<Rightarrow> ('k, 'v) lru_cache \<Rightarrow> int \<times> ('k, 'v) lru_op \<Rightarrow> ('k, 'v) lru_cache" where
  "lru_apply it c = (\<lambda>(now, op). case op of
      LruGet k \<Rightarrow> snd (get_cloned now k c)
    | LruPut k v \<Rightarrow> put it now k v c
    | LruAny p \<Rightarrow> snd (any_entry_matches it now p c))"

text \<open>The value written last for each key.\<close>

fun last_written :: "(int \<times> ('k, 'v) lru_op) list \<Rightarrow> 'k \<Rightarrow> 'v option" where
  "last_written [] = (\<lambda>_. None)"
| "last_written ((_, op) # ops) = (\<lambda>k. case last_written ops k of
      Some v \<Rightarrow> Some v
    | None \<Rightarrow> (case op of LruPut k' v \<Rightarrow> if k' = k then Some v else None | _ \<Rightarrow> None))"

lemma last_written_snoc:
  "last_written (ops @ [(now, op)]) k =
     (case op of LruPut k' v \<Rightarrow> if k' = k then Some v else last_written ops k | _ \<Rightarrow> last_written ops k)"
  by (induction ops) (auto split: lru_op.split option.split)

definition lru_values :: "('k, 'v) lru_cache \<Rightarrow> 'k \<Rightarrow> 'v option" where
  "lru_values c k = map_option fst (map_of (lru_map c) k)"

lemma map_of_filter_keys: "map_of (filter (\<lambda>(k, _). P k) m) k = (if P k then map_of m k else None)"
  by (induction m) auto

lemma lru_values_apply:
  "lru_values (lru_apply it c (now, op)) k = None
   \<or> lru_values (lru_apply it c (now, op)) k =
       (case op of LruPut k' v \<Rightarrow> if k' = k then Some v else lru_values c k | _ \<Rightarrow> lru_values c k)"
proof (cases op)
  case (LruGet k')
  then show ?thesis by (auto simp: lru_apply_def lru_values_def get_cloned_def split: option.split prod.split)
next
  case (LruPut k' v)
  then show ?thesis using put_map [of it now k' v c k] by (auto simp: lru_apply_def lru_values_def)
next
  case (LruAny p)
  then show ?thesis by (auto simp: lru_apply_def lru_values_def any_map map_of_filter_keys)
qed

lemma lru_ok_apply: "lru_ok n ttl c \<Longrightarrow> lru_ok n ttl (lru_apply it c (now, op))"
  by (cases op) (simp_all add: lru_apply_def lru.get_ok lru.ins_ok lru.any_ok)

lemma lru_history:
  "lru_ok n ttl (foldl (lru_apply it) \<lparr> lru_map = [], lru_capacity = max n 1, lru_ttl = ttl \<rparr> ops)
   \<and> lru_values (foldl (lru_apply it) \<lparr> lru_map = [], lru_capacity = max n 1, lru_ttl = ttl \<rparr> ops) \<subseteq>\<^sub>m last_written ops"
proof (induction ops rule: rev_induct)
  case Nil
  show ?case by (simp add: lru_ok_def lru_values_def map_le_def dom_def)
next
  case (snoc x ops)
  let ?c = "foldl (lru_apply it) \<lparr> lru_map = [], lru_capacity = max n 1, lru_ttl = ttl \<rparr> ops"
  obtain now op where x: "x = (now, op)" by (cases x)
  have "lru_ok n ttl (lru_apply it ?c (now, op))"
    using snoc.IH by (simp add: lru_ok_apply)
  moreover have "lru_values (lru_apply it ?c (now, op)) \<subseteq>\<^sub>m last_written (ops @ [(now, op)])"
    unfolding map_le_def
  proof
    fix k assume "k \<in> dom (lru_values (lru_apply it ?c (now, op)))"
    then have "lru_values (lru_apply it ?c (now, op)) k =
       (case op of LruPut k' v \<Rightarrow> if k' = k then Some v else lru_values ?c k | _ \<Rightarrow> lru_values ?c k)"
      using lru_values_apply [of it ?c now op k] by auto
    moreover have "lru_values ?c k = None \<or> lru_values ?c k = last_written ops k"
      using snoc.IH by (auto simp: map_le_def dom_def)
    ultimately show "lru_values (lru_apply it ?c (now, op)) k = last_written (ops @ [(now, op)]) k"
      using \<open>k \<in> _\<close> by (auto simp: last_written_snoc split: lru_op.splits if_splits)
  qed
  ultimately show ?case by (simp add: x)
qed

text \<open>
  The LRU cache refines a map that may forget.  After any history of operations, with any clock,
  any capacity and any time to live, a value found for a key is the one written last for it, there is
  one entry per key, and there are at most as many entries as the capacity, which is at least one.
\<close>
theorem lru_refines_map:
  "let c = foldl (lru_apply it) (case ttl of None \<Rightarrow> with_capacity n | Some t \<Rightarrow> with_capacity_and_ttl n t) ops
   in lru_values c \<subseteq>\<^sub>m last_written ops \<and> distinct (map fst (lru_map c)) \<and> lru_len c \<le> max n 1
      \<and> lru_peek now c \<subseteq>\<^sub>m lru_values c"
proof -
  have new: "(case ttl of None \<Rightarrow> with_capacity n | Some t \<Rightarrow> with_capacity_and_ttl n t) =
      \<lparr> lru_map = [], lru_capacity = max n 1, lru_ttl = ttl \<rparr>"
    by (cases ttl) (simp_all add: with_capacity_def with_capacity_and_ttl_def)
  have "lru_peek now c \<subseteq>\<^sub>m lru_values c" for c :: "('a, 'b) lru_cache"
    by (auto simp: map_le_def lru_peek_def lru_values_def dom_def split: option.splits if_splits)
  then show ?thesis
    unfolding new Let_def using lru_history [of n ttl it ops] by (simp add: lru_ok_def lru_len_def del: One_nat_def)
qed

text \<open>
  The weak interner stays within its bound and answers with the address it keeps for the string;
  a string that is kept at a live address keeps that address.
\<close>
theorem weak_intern_bounded:
  "let (a, w') = weak_intern alive fresh s w
   in length (wi_map w') \<le> max 1 (wi_max_entries w) \<and> map_of (wi_map w') s = Some a
      \<and> (a = fresh \<or> alive a \<and> (s, a) \<in> set (wi_map w))"
proof -
  define w1 where "w1 = cleanup_dead_references alive w"
  have w1: "length (wi_map w1) < wi_max_entries w \<or> wi_map w1 = []" "wi_max_entries w1 = wi_max_entries w"
    "set (wi_map w1) \<subseteq> {e \<in> set (wi_map w). alive (snd e)}"
    by (auto simp: w1_def cleanup_dead_references_def Let_def)
  have ins: "length (hm_insert s fresh m) \<le> max 1 (wi_max_entries w)"
    if "length m < wi_max_entries w \<or> m = []" for m :: "(string \<times> nat) list"
    using that by (auto simp: length_hm_insert)
  show ?thesis
  proof (cases "map_of (wi_map w1) s")
    case None
    then have "weak_intern alive fresh s w = weak_allocate alive fresh s w1"
      by (simp add: weak_intern_def w1_def)
    moreover have "let (a, w') = weak_allocate alive fresh s w1
        in length (wi_map w') \<le> max 1 (wi_max_entries w) \<and> map_of (wi_map w') s = Some a \<and> a = fresh"
      using w1 ins [of "wi_map w1"] ins [of "[]"]
      by (auto simp: weak_allocate_def cleanup_dead_references_def Let_def)
    ultimately show ?thesis by (auto simp: Let_def split_beta)
  next
    case (Some a)
    then have "(s, a) \<in> set (wi_map w1)" by (rule map_of_SomeD)
    then have "(s, a) \<in> set (wi_map w)" "alive a" "length (wi_map w1) < wi_max_entries w" using w1 by auto
    with Some show ?thesis by (simp add: weak_intern_def w1_def)
  qed
qed

end
