(* ===== verification/Focus_Worker.thy ===== *)
theory Focus_Worker
  imports Ingest Caches
begin

text \<open>
  The focus worker, src/daemon/tracker/focus.rs: one thread that merges the focus messages of the
  window hook with its own polls of the active window into a stream of complete focus changes, the
  focus events that the ingest stage reads.

  The state of the thread is one record.  An iteration of its loop reads one message, or times out
  and polls, and then runs the two timers at the end of the loop body.  Every reading of a clock in
  an iteration is its own argument: \<open>rd_mono R i\<close> and \<open>rd_utc R i\<close> are the readings number i of the
  monotonic and of the wall clock, and nothing relates them unless a lemma says so.  What sysinfo
  and winshift return are inputs as well.
\<close>

section \<open>Data\<close>

definition LOGINWINDOW_APP :: string where "LOGINWINDOW_APP = ''loginwindow''"
definition LOGINWINDOW_WINDOW_ID :: u32 where "LOGINWINDOW_WINDOW_ID = - 1"
definition POLL_SUSPENDED :: u64 where "POLL_SUSPENDED = 0"
definition UNKNOWN_WINDOW_TITLE :: string where "UNKNOWN_WINDOW_TITLE = ''-''"

record focus_caps =
  fc_pid_cache_capacity :: nat
  fc_title_cache_capacity :: nat
  fc_title_cache_ttl_secs :: u64
  fc_focus_window_coalesce_ms :: u64
  fc_focus_allow_zero_window_id :: bool

record focus_state =
  fo_app_name :: string
  fo_pid :: i32
  fo_window_title :: string
  fo_window_id :: u32
  fo_window_instance_start :: instant
  fo_process_start_time :: u64
  fo_last_app_update :: int
  fo_last_window_update :: int

record active_window_info =
  aw_title :: string
  aw_process_id :: i32
  aw_app_name :: string
  aw_window_id :: u32

datatype focus_msg =
    AppChange i32 string
  | WindowChange string
  | AppChangeInfo active_window_info
  | WindowChangeInfo active_window_info
  | FocusStop

datatype reconcile_source = FromPending | FromCached
datatype reconcile_decision = AcceptTitle string reconcile_source | HoldTitle string

text \<open>What one iteration reads from its surroundings.\<close>

record readings =
  rd_mono :: "nat \<Rightarrow> int"
  rd_utc :: "nat \<Rightarrow> instant"
  rd_process_start :: "i32 \<Rightarrow> u64 option"
  rd_pid_order :: "(i32 \<times> u64 \<times> int) list \<Rightarrow> (i32 \<times> u64 \<times> int) list"
  rd_title_order :: "(u32 \<times> string \<times> int) list \<Rightarrow> (u32 \<times> string \<times> int) list"
  rd_app_order :: "(string \<times> (string \<times> u32) \<times> int) list \<Rightarrow> (string \<times> (string \<times> u32) \<times> int) list"

record worker =
  fw_state :: focus_state
  fw_pid_cache :: "(i32, u64) lru_cache"
  fw_last_titles :: "(u32, string) lru_cache"
  fw_strong :: "(string, string \<times> u32) lru_cache"
  fw_weak :: "(string, string \<times> u32) lru_cache"
  fw_poll_lock_active :: bool
  fw_poll_lock_since :: "int option"
  fw_coalesce_until :: "int option"
  fw_pending_title :: "string option"
  fw_last_app_before_change :: "string option"
  fw_awaiting_poll_reconcile :: bool
  fw_reconcile_active :: bool
  fw_emit_seq :: u64
  fw_scheduled_emit_at :: "int option"

definition focus_state_new :: "instant \<Rightarrow> int \<Rightarrow> int \<Rightarrow> focus_state" where
  "focus_state_new utc mono1 mono2 =
     \<lparr> fo_app_name = [], fo_pid = 0, fo_window_title = [], fo_window_id = 0, fo_window_instance_start = utc,
       fo_process_start_time = 0, fo_last_app_update = mono1, fo_last_window_update = mono2 \<rparr>"

definition worker_new :: "focus_caps \<Rightarrow> instant \<Rightarrow> int \<Rightarrow> int \<Rightarrow> worker" where
  "worker_new caps utc mono1 mono2 =
     \<lparr> fw_state = focus_state_new utc mono1 mono2,
       fw_pid_cache = with_capacity (fc_pid_cache_capacity caps),
       fw_last_titles =
         (if 0 < fc_title_cache_ttl_secs caps
          then with_capacity_and_ttl (fc_title_cache_capacity caps) (secs (uint (fc_title_cache_ttl_secs caps)))
          else with_capacity (fc_title_cache_capacity caps)),
       fw_strong = with_capacity (fc_title_cache_capacity caps),
       fw_weak = with_capacity_and_ttl (fc_title_cache_capacity caps) (secs 2),
       fw_poll_lock_active = False, fw_poll_lock_since = None, fw_coalesce_until = None,
       fw_pending_title = None, fw_last_app_before_change = None, fw_awaiting_poll_reconcile = False,
       fw_reconcile_active = False, fw_emit_seq = 0, fw_scheduled_emit_at = None \<rparr>"

section \<open>Helpers\<close>

definition is_complete :: "focus_state \<Rightarrow> bool" where
  "is_complete s \<longleftrightarrow> fo_app_name s \<noteq> [] \<and> fo_window_title s \<noteq> [] \<and> 0 < sint (fo_pid s)
     \<and> 0 < fo_window_id s \<and> 0 < fo_process_start_time s"

definition can_emit :: "focus_caps \<Rightarrow> focus_state \<Rightarrow> bool" where
  "can_emit caps s \<longleftrightarrow> fo_app_name s \<noteq> [] \<and> fo_window_title s \<noteq> [] \<and> 0 < sint (fo_pid s)
     \<and> 0 < fo_process_start_time s \<and> (fc_focus_allow_zero_window_id caps \<or> 0 < fo_window_id s)"

text \<open>The interner returns the text it is given.\<close>

definition to_window_focus_info :: "focus_state \<Rightarrow> window_focus_info" where
  "to_window_focus_info s =
     \<lparr> fi_pid = fo_pid s, fi_process_start_time = fo_process_start_time s, fi_app_name = fo_app_name s,
       fi_window_title = fo_window_title s, fi_window_id = fo_window_id s,
       fi_window_instance_start = fo_window_instance_start s, fi_window_position = None, fi_window_size = None \<rparr>"

definition is_loginwindow :: "string \<Rightarrow> bool" where
  "is_loginwindow app = eq_ignore_ascii_case app LOGINWINDOW_APP"

definition loginwindow_focus :: "instant \<Rightarrow> window_focus_info" where
  "loginwindow_focus now =
     \<lparr> fi_pid = 0, fi_process_start_time = timestamp_millis_u64 now, fi_app_name = LOGINWINDOW_APP,
       fi_window_title = ''Login'', fi_window_id = LOGINWINDOW_WINDOW_ID,
       fi_window_instance_start = now, fi_window_position = None, fi_window_size = None \<rparr>"

text \<open>
  The helpers that use caches read the monotonic clock; \<open>c\<close> are the readings from here on.
\<close>

definition get_process_start_time :: "readings \<Rightarrow> (nat \<Rightarrow> int) \<Rightarrow> i32 \<Rightarrow> worker \<Rightarrow> u64 \<times> worker" where
  "get_process_start_time R c pid w = (case get_cloned (c 0) pid (fw_pid_cache w) of
      (Some start_time, cache) \<Rightarrow> (start_time, w\<lparr> fw_pid_cache := cache \<rparr>)
    | (None, cache) \<Rightarrow>
        (case rd_process_start R pid of
           Some start_time \<Rightarrow> (start_time, w\<lparr> fw_pid_cache := put (rd_pid_order R) (c 1) pid start_time cache \<rparr>)
         | None \<Rightarrow> (0, w\<lparr> fw_pid_cache := cache \<rparr>)))"

text \<open>\<open>process_start_time = get_process_start_time(pid)\<close>, replaced by the wall clock when it is zero.\<close>

definition set_process_start ::
  "readings \<Rightarrow> (nat \<Rightarrow> int) \<Rightarrow> instant \<Rightarrow> i32 \<Rightarrow> worker \<Rightarrow> worker" where
  "set_process_start R c utc pid w =
     (let (t, w1) = get_process_start_time R c pid w;
          t1 = (if t = 0 then timestamp_millis_u64 utc else t)
      in w1\<lparr> fw_state := (fw_state w1)\<lparr> fo_process_start_time := t1 \<rparr> \<rparr>)"

text \<open>\<open>schedule_emit\<close>: both arms of its match are the new time.\<close>

definition schedule_emit :: "int \<Rightarrow> int \<Rightarrow> worker \<Rightarrow> worker" where
  "schedule_emit now delay_ms w =
     (let due = now + millis delay_ms
      in w\<lparr> fw_scheduled_emit_at := Some (case fw_scheduled_emit_at w of
              Some existing \<Rightarrow> if existing < due then due else due | None \<Rightarrow> due) \<rparr>)"

definition record_last_app_window :: "readings \<Rightarrow> int \<Rightarrow> worker \<Rightarrow> worker" where
  "record_last_app_window R now w =
     (let s = fw_state w
      in if fo_app_name s \<noteq> [] \<and> fo_window_title s \<noteq> [] \<and> fo_window_title s \<noteq> UNKNOWN_WINDOW_TITLE
         then w\<lparr> fw_strong := put (rd_app_order R) now (fo_app_name s) (fo_window_title s, fo_window_id s) (fw_strong w) \<rparr>
         else w)"

definition record_weak_title :: "readings \<Rightarrow> int \<Rightarrow> string \<Rightarrow> string \<Rightarrow> u32 \<Rightarrow> worker \<Rightarrow> worker" where
  "record_weak_title R now app_name title window_id w =
     (if app_name \<noteq> [] \<and> title \<noteq> [] \<and> title \<noteq> UNKNOWN_WINDOW_TITLE
      then w\<lparr> fw_weak := put (rd_app_order R) now app_name (title, window_id) (fw_weak w) \<rparr> else w)"

definition title_matches_other_app ::
  "readings \<Rightarrow> int \<Rightarrow> string \<Rightarrow> string \<Rightarrow> (string, string \<times> u32) lru_cache \<Rightarrow>
   bool \<times> (string, string \<times> u32) lru_cache" where
  "title_matches_other_app R now app_name title cache =
     any_entry_matches (rd_app_order R) now (\<lambda>key (cached_title, _). key \<noteq> app_name \<and> cached_title = title) cache"

definition title_matches_app ::
  "int \<Rightarrow> string \<Rightarrow> string \<Rightarrow> (string, string \<times> u32) lru_cache \<Rightarrow>
   bool \<times> (string, string \<times> u32) lru_cache" where
  "title_matches_app now app_name title cache =
     (case get_cloned now app_name cache of
        (Some (cached_title, _), cache') \<Rightarrow> (cached_title = title, cache')
      | (None, cache') \<Rightarrow> (False, cache'))"

definition validate_title_with_weak :: "readings \<Rightarrow> (nat \<Rightarrow> int) \<Rightarrow> string \<Rightarrow> string \<Rightarrow> worker \<Rightarrow> string \<times> worker" where
  "validate_title_with_weak R c app_name title w =
     (if title = [] \<or> title = UNKNOWN_WINDOW_TITLE then (title, w)
      else
        (let (own, s1) = title_matches_app (c 0) app_name title (fw_strong w);
             w1 = w\<lparr> fw_strong := s1 \<rparr>
         in if own then (title, w1)
            else
              (let (other, s2) = title_matches_other_app R (c 1) app_name title (fw_strong w1);
                   w2 = w1\<lparr> fw_strong := s2 \<rparr>
               in if other then (UNKNOWN_WINDOW_TITLE, w2)
                  else
                    (let (other_weak, k1) = title_matches_other_app R (c 2) app_name title (fw_weak w2);
                         w3 = w2\<lparr> fw_weak := k1 \<rparr>
                     in if other_weak then (UNKNOWN_WINDOW_TITLE, w3)
                        else (title, w3\<lparr> fw_weak := snd (title_matches_app (c 3) app_name title (fw_weak w3)) \<rparr>)))))"

definition reconcile_window_title ::
  "readings \<Rightarrow> (nat \<Rightarrow> int) \<Rightarrow> string \<Rightarrow> string \<Rightarrow> string option \<Rightarrow> worker \<Rightarrow> reconcile_decision \<times> worker" where
  "reconcile_window_title R c app_name pending last_app w =
     (if is_loginwindow app_name \<and> pending = ''Login'' then (AcceptTitle pending FromPending, w)
      else
        (let (prev, w1) =
           (case last_app of
              None \<Rightarrow> (False, w)
            | Some prev_app \<Rightarrow>
                (let (m1, s) = title_matches_app (c 0) prev_app pending (fw_strong w);
                     wa = w\<lparr> fw_strong := s \<rparr>
                 in if m1 then (True, wa)
                    else (let (m2, k) = title_matches_app (c 1) prev_app pending (fw_weak wa)
                          in (m2, wa\<lparr> fw_weak := k \<rparr>))))
         in if prev then (AcceptTitle UNKNOWN_WINDOW_TITLE FromCached, w1)
            else
              (let (own, s1) = title_matches_app (c 2) app_name pending (fw_strong w1);
                   w2 = w1\<lparr> fw_strong := s1 \<rparr>
               in if own then (AcceptTitle pending FromPending, w2)
                  else
                    (let (other, s2) = title_matches_other_app R (c 3) app_name pending (fw_strong w2);
                         w3 = w2\<lparr> fw_strong := s2 \<rparr>
                     in if other then (AcceptTitle UNKNOWN_WINDOW_TITLE FromCached, w3)
                        else
                          (let (other_weak, k1) = title_matches_other_app R (c 4) app_name pending (fw_weak w3);
                               w4 = w3\<lparr> fw_weak := k1 \<rparr>
                           in if other_weak then (AcceptTitle UNKNOWN_WINDOW_TITLE FromCached, w4)
                              else
                                (let (own_weak, k2) = title_matches_app (c 5) app_name pending (fw_weak w4);
                                     w5 = w4\<lparr> fw_weak := k2 \<rparr>
                                 in (if own_weak then AcceptTitle pending FromPending else HoldTitle pending, w5)))))))"

text \<open>An emission of the current state; the consumer of the callback gets the list of emissions.\<close>

definition emit_focus :: "readings \<Rightarrow> int \<Rightarrow> worker \<Rightarrow> worker \<times> window_focus_info list" where
  "emit_focus R now w =
     (record_last_app_window R now (w\<lparr> fw_emit_seq := fw_emit_seq w + 1 \<rparr>), [to_window_focus_info (fw_state w)])"

text \<open>The login window gets its own window id when the system reports none.\<close>

definition fix_login_window_id :: "worker \<Rightarrow> worker" where
  "fix_login_window_id w =
     (if is_loginwindow (fo_app_name (fw_state w)) \<and> fo_window_id (fw_state w) = 0
      then w\<lparr> fw_state := (fw_state w)\<lparr> fo_window_id := LOGINWINDOW_WINDOW_ID \<rparr> \<rparr> else w)"

definition clear_poll_lock :: "string \<Rightarrow> worker \<Rightarrow> worker" where
  "clear_poll_lock app_name w =
     (if is_loginwindow app_name then w else w\<lparr> fw_poll_lock_active := False, fw_poll_lock_since := None \<rparr>)"

text \<open>
  \<open>record_weak_title\<close> followed by the assignment of the validated title, for the window the system
  reports.
\<close>

definition set_reported_title :: "readings \<Rightarrow> (nat \<Rightarrow> int) \<Rightarrow> active_window_info \<Rightarrow> worker \<Rightarrow> worker" where
  "set_reported_title R c info w =
     (let app = fo_app_name (fw_state w);
          w1 = record_weak_title R (c 0) app (aw_title info) (aw_window_id info) w;
          (t, w2) = validate_title_with_weak R (\<lambda>i. c (Suc i)) app (aw_title info) w1
      in w2\<lparr> fw_state := (fw_state w2)\<lparr> fo_window_title := t \<rparr> \<rparr>)"

definition reported_window_id :: "string \<Rightarrow> active_window_info \<Rightarrow> u32" where
  "reported_window_id app info =
     (if is_loginwindow app \<and> aw_window_id info = 0 then LOGINWINDOW_WINDOW_ID else aw_window_id info)"

text \<open>While the worker waits for the title of a new application it ignores reports about others.\<close>

definition ignores_report :: "worker \<Rightarrow> active_window_info \<Rightarrow> bool" where
  "ignores_report w info \<longleftrightarrow> fw_reconcile_active w
     \<and> \<not> eq_ignore_ascii_case (fo_app_name (fw_state w)) (aw_app_name info) \<and> fo_app_name (fw_state w) \<noteq> []"


section \<open>Messages\<close>

text \<open>The flush of a pending title when the application changes while titles are being coalesced.\<close>

definition app_change_flush :: "focus_caps \<Rightarrow> readings \<Rightarrow> worker \<Rightarrow> worker \<times> window_focus_info list" where
  "app_change_flush caps R w =
     (let pending_title = fw_pending_title w; w1 = w\<lparr> fw_pending_title := None \<rparr>
      in if pending_title = None \<and> fo_window_title (fw_state w1) = [] then (w1, [])
         else
           (let w2 = (case pending_title of
                  None \<Rightarrow> w1
                | Some title \<Rightarrow>
                    (let (d, wr) = reconcile_window_title R (rd_mono R) (fo_app_name (fw_state w1)) title
                                     (fw_last_app_before_change w1) w1
                     in wr\<lparr> fw_state := (fw_state wr)\<lparr> fo_window_title :=
                          (case d of AcceptTitle value _ \<Rightarrow> value | HoldTitle value \<Rightarrow> value) \<rparr> \<rparr>));
                w3 = fix_login_window_id w2;
                w4 = w3\<lparr> fw_state := (fw_state w3)\<lparr> fo_last_window_update := rd_mono R 6 \<rparr> \<rparr>
            in if can_emit caps (fw_state w4) then emit_focus R (rd_mono R 7) w4 else (w4, [])))"

definition on_app_change ::
  "focus_caps \<Rightarrow> readings \<Rightarrow> i32 \<Rightarrow> string \<Rightarrow> worker \<Rightarrow> worker \<times> window_focus_info list" where
  "on_app_change caps R pid app_name w =
     (if fo_app_name (fw_state w) = app_name \<and> fo_pid (fw_state w) = pid then (w, [])
      else
        (let w1 = w\<lparr> fw_last_app_before_change :=
               (if fo_app_name (fw_state w) \<noteq> [] then Some (fo_app_name (fw_state w)) else None) \<rparr>;
             (w2, out) = (if fw_coalesce_until w1 \<noteq> None then app_change_flush caps R w1 else (w1, []));
             is_login = is_loginwindow app_name;
             w3 = clear_poll_lock app_name w2;
             w4 = w3\<lparr> fw_coalesce_until :=
                 (if 0 < fc_focus_window_coalesce_ms caps
                  then Some (rd_mono R 8 + millis (uint (fc_focus_window_coalesce_ms caps))) else None),
               fw_pending_title := None, fw_reconcile_active := True,
               fw_state := (fw_state w3)\<lparr> fo_app_name := app_name, fo_pid := pid, fo_window_title := [],
                 fo_window_id := 0 \<rparr> \<rparr>;
             w5 = set_process_start R (\<lambda>i. rd_mono R (9 + i)) (rd_utc R 0) pid w4;
             w6 = w5\<lparr> fw_state := (fw_state w5)\<lparr>
                 fo_window_id := (if is_login \<and> fo_window_id (fw_state w5) = 0 then LOGINWINDOW_WINDOW_ID
                                  else fo_window_id (fw_state w5)),
                 fo_window_instance_start := rd_utc R 1, fo_last_app_update := rd_mono R 11 \<rparr>,
               fw_awaiting_poll_reconcile := True \<rparr>
         in (schedule_emit (rd_mono R 12) (if is_login then 50 else 150) w6, out)))"

text \<open>The common end of a window change; the flag is whether the loop body goes on.\<close>

definition window_changed :: "readings \<Rightarrow> worker \<Rightarrow> worker" where
  "window_changed R w =
     (let w1 = fix_login_window_id w;
          w2 = w1\<lparr> fw_state := (fw_state w1)\<lparr> fo_last_window_update := rd_mono R 20 \<rparr> \<rparr>
      in if is_complete (fw_state w2)
         then (schedule_emit (rd_mono R 21) 100 w2)\<lparr> fw_reconcile_active := False \<rparr> else w2)"

definition set_validated_title :: "readings \<Rightarrow> (nat \<Rightarrow> int) \<Rightarrow> string \<Rightarrow> worker \<Rightarrow> worker" where
  "set_validated_title R c title w =
     (let (t, w1) = validate_title_with_weak R c (fo_app_name (fw_state w)) title w
      in w1\<lparr> fw_state := (fw_state w1)\<lparr> fo_window_title := t \<rparr> \<rparr>)"

text \<open>\<open>record_weak_title\<close> for the current application and window.\<close>

definition weak_for_state :: "readings \<Rightarrow> int \<Rightarrow> string \<Rightarrow> worker \<Rightarrow> worker" where
  "weak_for_state R now title w =
     record_weak_title R now (fo_app_name (fw_state w)) title (fo_window_id (fw_state w)) w"

definition on_window_change :: "readings \<Rightarrow> string \<Rightarrow> worker \<Rightarrow> worker \<times> bool" where
  "on_window_change R window_title w =
     (if window_title = [] \<or> fo_window_title (fw_state w) = window_title then (w, True)
      else if fw_reconcile_active w then
        (if (case fw_coalesce_until w of Some until \<Rightarrow> rd_mono R 0 < until | None \<Rightarrow> False)
         then ((weak_for_state R (rd_mono R 1) window_title w)\<lparr> fw_pending_title := Some window_title \<rparr>, False)
         else
           (case reconcile_window_title R (\<lambda>i. rd_mono R (2 + i)) (fo_app_name (fw_state w)) window_title
                   (fw_last_app_before_change w) w of
              (AcceptTitle value _, w1) \<Rightarrow>
                (let w2 = weak_for_state R (rd_mono R 8) value w1
                 in (window_changed R (w2\<lparr> fw_state := (fw_state w2)\<lparr> fo_window_title := value \<rparr>,
                       fw_reconcile_active := False \<rparr>), True))
            | (HoldTitle value, w1) \<Rightarrow>
                (if fw_coalesce_until w1 = None
                 then (let w2 = weak_for_state R (rd_mono R 9) value w1;
                           w3 = set_validated_title R (\<lambda>i. rd_mono R (10 + i)) value w2
                       in (window_changed R (w3\<lparr> fw_reconcile_active := False \<rparr>), True))
                 else ((weak_for_state R (rd_mono R 9) value w1)\<lparr> fw_pending_title := Some value \<rparr>, False))))
      else
        (let w1 = weak_for_state R (rd_mono R 15) window_title w
         in (window_changed R (set_validated_title R (\<lambda>i. rd_mono R (16 + i)) window_title w1), True)))"

definition schedule_if_complete :: "int \<Rightarrow> worker \<Rightarrow> worker" where
  "schedule_if_complete now w = (if is_complete (fw_state w) then schedule_emit now 0 w else w)"

text \<open>A report ends the wait for a title.\<close>

definition end_reconcile :: "worker \<Rightarrow> worker" where
  "end_reconcile w = w\<lparr> fw_awaiting_poll_reconcile := False, fw_reconcile_active := False \<rparr>"

definition drop_coalesced :: "worker \<Rightarrow> worker" where
  "drop_coalesced w = w\<lparr> fw_coalesce_until := None, fw_pending_title := None \<rparr>"

definition on_app_change_info :: "readings \<Rightarrow> active_window_info \<Rightarrow> worker \<Rightarrow> worker \<times> bool" where
  "on_app_change_info R info w =
     (if ignores_report w info then (w, False)
      else
        (let w1 = drop_coalesced w;
             w2 = clear_poll_lock (aw_app_name info)
               (w1\<lparr> fw_state := (fw_state w1)\<lparr> fo_app_name := aw_app_name info \<rparr> \<rparr>);
             w3 = set_process_start R (rd_mono R) (rd_utc R 0) (aw_process_id info)
               (w2\<lparr> fw_state := (fw_state w2)\<lparr> fo_pid := aw_process_id info \<rparr> \<rparr>);
             w4 = set_reported_title R (\<lambda>i. rd_mono R (2 + i)) info w3;
             w5 = w4\<lparr> fw_state := (fw_state w4)\<lparr>
               fo_window_id := reported_window_id (fo_app_name (fw_state w4)) info,
               fo_window_instance_start := rd_utc R 1, fo_last_app_update := rd_mono R 7,
               fo_last_window_update := rd_mono R 7 \<rparr> \<rparr>
         in (schedule_if_complete (rd_mono R 8) (end_reconcile w5), True)))"

definition on_window_change_info :: "readings \<Rightarrow> active_window_info \<Rightarrow> worker \<Rightarrow> worker \<times> bool" where
  "on_window_change_info R info w =
     (if ignores_report w info then (w, False)
      else
        (let w1 = drop_coalesced w;
             w2 = (if fo_pid (fw_state w1) \<noteq> aw_process_id info
                   then set_process_start R (rd_mono R) (rd_utc R 0) (aw_process_id info)
                     (clear_poll_lock (aw_app_name info)
                       (w1\<lparr> fw_state := (fw_state w1)\<lparr> fo_pid := aw_process_id info,
                          fo_app_name := aw_app_name info \<rparr> \<rparr>))
                   else w1);
             w3 = set_reported_title R (\<lambda>i. rd_mono R (2 + i)) info w2;
             w4 = w3\<lparr> fw_state := (fw_state w3)\<lparr>
               fo_window_id := reported_window_id (fo_app_name (fw_state w3)) info,
               fo_last_window_update := rd_mono R 7 \<rparr> \<rparr>
         in (schedule_if_complete (rd_mono R 8) (end_reconcile w4), True)))"

section \<open>Polling\<close>

definition is_lock_error :: "string \<Rightarrow> bool" where
  "is_lock_error err_text = str_contains ''No qualifying window found'' err_text"

text \<open>The three blocks of a successful poll.\<close>

definition poll_recover :: "readings \<Rightarrow> active_window_info \<Rightarrow> worker \<Rightarrow> worker" where
  "poll_recover R info w =
     (if \<not> fw_poll_lock_active w then w
      else
        (let w1 = w\<lparr> fw_poll_lock_active := False, fw_poll_lock_since := None,
               fw_state := (fw_state w)\<lparr> fo_app_name := aw_app_name info, fo_pid := aw_process_id info \<rparr> \<rparr>;
             w2 = set_process_start R (rd_mono R) (rd_utc R 0) (aw_process_id info) w1;
             w3 = set_reported_title R (\<lambda>i. rd_mono R (2 + i)) info w2;
             w4 = w3\<lparr> fw_state := (fw_state w3)\<lparr> fo_window_id := aw_window_id info,
               fo_window_instance_start := rd_utc R 1, fo_last_app_update := rd_mono R 7,
               fo_last_window_update := rd_mono R 7 \<rparr> \<rparr>
         in schedule_emit (rd_mono R 8) 0 (drop_coalesced (end_reconcile w4))))"

definition poll_reconcile :: "readings \<Rightarrow> active_window_info \<Rightarrow> worker \<Rightarrow> worker" where
  "poll_reconcile R info w =
     (if \<not> (fw_awaiting_poll_reconcile w \<and> fo_app_name (fw_state w) = aw_app_name info) then w
      else
        (let w1 = set_process_start R (\<lambda>i. rd_mono R (10 + i)) (rd_utc R 2) (aw_process_id info)
               (w\<lparr> fw_state := (fw_state w)\<lparr> fo_pid := aw_process_id info \<rparr> \<rparr>);
             w2 = set_reported_title R (\<lambda>i. rd_mono R (12 + i)) info w1;
             w3 = w2\<lparr> fw_state := (fw_state w2)\<lparr>
               fo_window_id := reported_window_id (fo_app_name (fw_state w2)) info,
               fo_window_instance_start := rd_utc R 3, fo_last_window_update := rd_mono R 17 \<rparr> \<rparr>
         in schedule_emit (rd_mono R 18) 0 (drop_coalesced (end_reconcile w3))))"

definition poll_title :: "readings \<Rightarrow> active_window_info \<Rightarrow> worker \<Rightarrow> worker" where
  "poll_title R info w =
     (let (last_title, cache) = get_cloned (rd_mono R 20) (aw_window_id info) (fw_last_titles w);
          w1 = w\<lparr> fw_last_titles := cache \<rparr>;
          w2 = (if (case last_title of None \<Rightarrow> True | Some t \<Rightarrow> t = aw_title info) then w1
                else
                  (let wa = (if fo_pid (fw_state w1) \<noteq> aw_process_id info
                             then (let wp = w1\<lparr> fw_state := (fw_state w1)\<lparr> fo_pid := aw_process_id info,
                                              fo_app_name := aw_app_name info \<rparr> \<rparr>;
                                       (t, wq) = get_process_start_time R (\<lambda>i. rd_mono R (21 + i)) (aw_process_id info) wp
                                   in wq\<lparr> fw_state := (fw_state wq)\<lparr> fo_process_start_time := t \<rparr> \<rparr>)
                             else w1);
                       wb = set_reported_title R (\<lambda>i. rd_mono R (23 + i)) info wa;
                       wc = wb\<lparr> fw_state := (fw_state wb)\<lparr> fo_window_id := aw_window_id info,
                         fo_last_window_update := rd_mono R 28 \<rparr> \<rparr>
                   in schedule_if_complete (rd_mono R 29) wc))
      in w2\<lparr> fw_last_titles := put (rd_title_order R) (rd_mono R 30) (aw_window_id info) (aw_title info) (fw_last_titles w2) \<rparr>)"

definition on_poll_ok :: "readings \<Rightarrow> active_window_info \<Rightarrow> worker \<Rightarrow> worker \<times> bool" where
  "on_poll_ok R info w =
     (if ignores_report w info then (w, False)
      else (poll_title R info (poll_reconcile R info (poll_recover R info w)), True))"

definition on_poll_error :: "readings \<Rightarrow> string \<Rightarrow> worker \<Rightarrow> worker \<times> window_focus_info list" where
  "on_poll_error R err_text w =
     (if is_lock_error err_text \<and> \<not> fw_poll_lock_active w
      then (w\<lparr> fw_poll_lock_active := True, fw_poll_lock_since := Some (rd_mono R 0) \<rparr>,
            if is_loginwindow (fo_app_name (fw_state w)) then [loginwindow_focus (rd_utc R 0)] else [])
      else (w, []))"

section \<open>The timers and the loop\<close>

definition coalesce_timer :: "focus_caps \<Rightarrow> readings \<Rightarrow> worker \<Rightarrow> worker" where
  "coalesce_timer caps R w = (case fw_coalesce_until w of
      None \<Rightarrow> w
    | Some until \<Rightarrow>
        if rd_mono R 40 < until then w
        else
          (let w1 = (case fw_pending_title w of
                 None \<Rightarrow> w
               | Some title \<Rightarrow>
                   (let (d, wr) = reconcile_window_title R (\<lambda>i. rd_mono R (41 + i)) (fo_app_name (fw_state w)) title
                          (fw_last_app_before_change w) (w\<lparr> fw_pending_title := None \<rparr>);
                        wt = (case d of
                            AcceptTitle value _ \<Rightarrow>
                              (let wk = weak_for_state R (rd_mono R 47) value wr
                               in wk\<lparr> fw_state := (fw_state wk)\<lparr> fo_window_title := value \<rparr> \<rparr>)
                          | HoldTitle value \<Rightarrow>
                              set_validated_title R (\<lambda>i. rd_mono R (48 + i)) value
                                (weak_for_state R (rd_mono R 47) value wr));
                        wf = fix_login_window_id wt
                    in wf\<lparr> fw_state := (fw_state wf)\<lparr> fo_last_window_update := rd_mono R 52 \<rparr>,
                           fw_awaiting_poll_reconcile := True \<rparr>));
               w2 = w1\<lparr> fw_coalesce_until := None, fw_reconcile_active := False \<rparr>
           in if can_emit caps (fw_state w2) then schedule_emit (rd_mono R 53) 0 w2 else w2))"

definition emit_timer :: "focus_caps \<Rightarrow> readings \<Rightarrow> worker \<Rightarrow> worker \<times> window_focus_info list" where
  "emit_timer caps R w = (case fw_scheduled_emit_at w of
      None \<Rightarrow> (w, [])
    | Some due \<Rightarrow>
        if due \<le> rd_mono R 54 \<and> can_emit caps (fw_state w)
        then (let (w1, out) = emit_focus R (rd_mono R 55) w in (w1\<lparr> fw_scheduled_emit_at := None \<rparr>, out))
        else (w, []))"

datatype worker_input =
    WMessage focus_msg
  | WTimeout "string + active_window_info"
  | WDisconnected

text \<open>
  The message or poll of an iteration: the new state, what it emits, and whether the loop body goes
  on to its timers; \<open>None\<close> ends the loop.
\<close>

definition worker_input_step ::
  "focus_caps \<Rightarrow> readings \<Rightarrow> u64 \<Rightarrow> worker_input \<Rightarrow> worker \<Rightarrow> (worker \<times> window_focus_info list \<times> bool) option" where
  "worker_input_step caps R poll_value inp w = (case inp of
      WMessage (AppChange pid app_name) \<Rightarrow>
        (let (w', out) = on_app_change caps R pid app_name w in Some (w', out, True))
    | WMessage (WindowChange window_title) \<Rightarrow>
        (let (w', go) = on_window_change R window_title w in Some (w', [], go))
    | WMessage (AppChangeInfo info) \<Rightarrow> (let (w', go) = on_app_change_info R info w in Some (w', [], go))
    | WMessage (WindowChangeInfo info) \<Rightarrow> (let (w', go) = on_window_change_info R info w in Some (w', [], go))
    | WMessage FocusStop \<Rightarrow> None
    | WTimeout polled \<Rightarrow>
        (if poll_value = POLL_SUSPENDED then Some (w, [], False)
         else (case polled of
                 Inr info \<Rightarrow> (let (w', go) = on_poll_ok R info w in Some (w', [], go))
               | Inl err_text \<Rightarrow> (let (w', out) = on_poll_error R err_text w in Some (w', out, True))))
    | WDisconnected \<Rightarrow> None)"

definition worker_step ::
  "focus_caps \<Rightarrow> readings \<Rightarrow> bool \<Rightarrow> u64 \<Rightarrow> worker_input \<Rightarrow> worker \<Rightarrow> (worker \<times> window_focus_info list) option" where
  "worker_step caps R should_stop poll_value inp w =
     (if should_stop then None
      else (case worker_input_step caps R poll_value inp w of
              None \<Rightarrow> None
            | Some (w1, out, go) \<Rightarrow>
                (if \<not> go then Some (w1, out)
                 else (let (w2, out2) = emit_timer caps R (coalesce_timer caps R w1) in Some (w2, out @ out2)))))"

text \<open>How long an iteration waits for a message, in milliseconds.\<close>

definition poll_timeout_ms :: "u64 \<Rightarrow> u64" where
  "poll_timeout_ms poll_value = (if poll_value = POLL_SUSPENDED then 2000 else max poll_value 1)"

fun worker_run ::
  "focus_caps \<Rightarrow> (readings \<times> bool \<times> u64 \<times> worker_input) list \<Rightarrow> worker \<Rightarrow> worker \<times> window_focus_info list" where
  "worker_run caps [] w = (w, [])"
| "worker_run caps ((R, stop, poll, inp) # is) w = (case worker_step caps R stop poll inp w of
      None \<Rightarrow> (w, [])
    | Some (w1, out) \<Rightarrow> (let (w2, out2) = worker_run caps is w1 in (w2, out @ out2)))"


section \<open>Lemmas: emissions\<close>

definition well_formed_focus :: "focus_caps \<Rightarrow> window_focus_info \<Rightarrow> bool" where
  "well_formed_focus caps f \<longleftrightarrow> fi_app_name f \<noteq> [] \<and> fi_window_title f \<noteq> [] \<and> 0 < sint (fi_pid f)
     \<and> 0 < fi_process_start_time f \<and> (fc_focus_allow_zero_window_id caps \<or> 0 < fi_window_id f)"

lemma emit_focus_out [simp]: "snd (emit_focus R now w) = [to_window_focus_info (fw_state w)]"
  by (simp add: emit_focus_def)

lemma well_formed_emission: "can_emit caps s \<Longrightarrow> well_formed_focus caps (to_window_focus_info s)"
  by (simp add: can_emit_def well_formed_focus_def to_window_focus_info_def)

lemma app_change_flush_out: "f \<in> set (snd (app_change_flush caps R w)) \<Longrightarrow> well_formed_focus caps f"
  by (auto simp: app_change_flush_def Let_def well_formed_emission split: if_splits)

lemma on_app_change_out: "f \<in> set (snd (on_app_change caps R pid app w)) \<Longrightarrow> well_formed_focus caps f"
  by (auto simp: on_app_change_def Let_def split_beta split: if_splits dest: app_change_flush_out)

lemma emit_timer_out: "f \<in> set (snd (emit_timer caps R w)) \<Longrightarrow> well_formed_focus caps f"
  by (auto simp: emit_timer_def Let_def split_beta well_formed_emission split: option.splits if_splits)

section \<open>Lemmas: where emissions come from\<close>








text \<open>The state of the worker holds only what was said.\<close>

definition ok_app :: "(i32 \<times> string) set \<Rightarrow> i32 \<Rightarrow> string \<Rightarrow> bool" where
  "ok_app A pid app \<longleftrightarrow> (pid, app) \<in> A \<or> app = []"

definition ok_title :: "string set \<Rightarrow> string \<Rightarrow> bool" where
  "ok_title T title \<longleftrightarrow> title \<in> T \<or> title = [] \<or> title = UNKNOWN_WINDOW_TITLE"

definition ok_window :: "u32 set \<Rightarrow> string \<Rightarrow> u32 \<Rightarrow> bool" where
  "ok_window W app wid \<longleftrightarrow> wid \<in> W \<or> wid = 0 \<or> is_loginwindow app \<and> wid = LOGINWINDOW_WINDOW_ID"

definition sourced :: "(i32 \<times> string) set \<Rightarrow> string set \<Rightarrow> u32 set \<Rightarrow> worker \<Rightarrow> bool" where
  "sourced A T W w \<longleftrightarrow> ok_app A (fo_pid (fw_state w)) (fo_app_name (fw_state w)) \<and> ok_title T (fo_window_title (fw_state w))
     \<and> ok_window W (fo_app_name (fw_state w)) (fo_window_id (fw_state w)) \<and> pred_option (\<lambda>t. t \<in> T) (fw_pending_title w)"

named_theorems focus_fields

lemma get_process_start_fields [focus_fields]:
  "fw_state (snd (get_process_start_time R c pid w)) = fw_state w"
  "fw_pending_title (snd (get_process_start_time R c pid w)) = fw_pending_title w"
  by (simp_all add: get_process_start_time_def split: prod.split option.split)

lemma set_process_start_keeps [focus_fields]:
  "fo_app_name (fw_state (set_process_start R c u pid w)) = fo_app_name (fw_state w)"
  "fo_pid (fw_state (set_process_start R c u pid w)) = fo_pid (fw_state w)"
  "fo_window_title (fw_state (set_process_start R c u pid w)) = fo_window_title (fw_state w)"
  "fo_window_id (fw_state (set_process_start R c u pid w)) = fo_window_id (fw_state w)"
  "fw_pending_title (set_process_start R c u pid w) = fw_pending_title w"
  by (simp_all add: set_process_start_def Let_def split_beta focus_fields)

lemma small_steps_keep [focus_fields]:
  "fw_state (schedule_emit now d w) = fw_state w" "fw_pending_title (schedule_emit now d w) = fw_pending_title w"
  "fw_state (record_last_app_window R now w) = fw_state w" "fw_pending_title (record_last_app_window R now w) = fw_pending_title w"
  "fw_state (record_weak_title R now app t i w) = fw_state w" "fw_pending_title (record_weak_title R now app t i w) = fw_pending_title w"
  "fw_state (weak_for_state R now t w) = fw_state w" "fw_pending_title (weak_for_state R now t w) = fw_pending_title w"
  "fw_state (clear_poll_lock app w) = fw_state w" "fw_pending_title (clear_poll_lock app w) = fw_pending_title w"
  "fw_state (end_reconcile w) = fw_state w" "fw_pending_title (end_reconcile w) = fw_pending_title w"
  "fw_state (drop_coalesced w) = fw_state w" "fw_pending_title (drop_coalesced w) = None"
  "fw_state (schedule_if_complete now w) = fw_state w" "fw_pending_title (schedule_if_complete now w) = fw_pending_title w"
  "fw_state (fst (emit_focus R now w)) = fw_state w" "fw_pending_title (fst (emit_focus R now w)) = fw_pending_title w"
  by (simp_all add: schedule_emit_def record_last_app_window_def record_weak_title_def weak_for_state_def clear_poll_lock_def
      end_reconcile_def drop_coalesced_def schedule_if_complete_def emit_focus_def Let_def)

lemma fix_login_window_id_keeps [focus_fields]:
  "fo_app_name (fw_state (fix_login_window_id w)) = fo_app_name (fw_state w)"
  "fo_pid (fw_state (fix_login_window_id w)) = fo_pid (fw_state w)"
  "fo_window_title (fw_state (fix_login_window_id w)) = fo_window_title (fw_state w)"
  "fw_pending_title (fix_login_window_id w) = fw_pending_title w"
  "fo_window_id (fw_state (fix_login_window_id w)) =
     (if is_loginwindow (fo_app_name (fw_state w)) \<and> fo_window_id (fw_state w) = 0 then LOGINWINDOW_WINDOW_ID
      else fo_window_id (fw_state w))"
  by (simp_all add: fix_login_window_id_def)

lemma validate_keeps [focus_fields]:
  "fw_state (snd (validate_title_with_weak R c app t w)) = fw_state w"
  "fw_pending_title (snd (validate_title_with_weak R c app t w)) = fw_pending_title w"
  by (simp_all add: validate_title_with_weak_def Let_def split_beta)

lemma validate_choice:
  "fst (validate_title_with_weak R c app t w) = t \<or> fst (validate_title_with_weak R c app t w) = UNKNOWN_WINDOW_TITLE"
  by (simp add: validate_title_with_weak_def Let_def split_beta)


lemma reconcile_value:
  assumes "fst (reconcile_window_title R c app t prev w) = d"
  shows "d = AcceptTitle t FromPending \<or> d = HoldTitle t \<or> d = AcceptTitle UNKNOWN_WINDOW_TITLE FromCached"
  using assms by (auto simp: reconcile_window_title_def Let_def split_beta split: if_splits)

lemma titles_keep [focus_fields]:
  "fo_app_name (fw_state (set_validated_title R c t w)) = fo_app_name (fw_state w)"
  "fo_pid (fw_state (set_validated_title R c t w)) = fo_pid (fw_state w)"
  "fo_window_id (fw_state (set_validated_title R c t w)) = fo_window_id (fw_state w)"
  "fw_pending_title (set_validated_title R c t w) = fw_pending_title w"
  "fo_app_name (fw_state (set_reported_title R c info w)) = fo_app_name (fw_state w)"
  "fo_pid (fw_state (set_reported_title R c info w)) = fo_pid (fw_state w)"
  "fo_window_id (fw_state (set_reported_title R c info w)) = fo_window_id (fw_state w)"
  "fw_pending_title (set_reported_title R c info w) = fw_pending_title w"
  by (simp_all add: set_validated_title_def set_reported_title_def Let_def split_beta focus_fields)

lemma ok_simps [focus_fields]:
  "ok_app A 0 []" "(pid, app) \<in> A \<Longrightarrow> ok_app A pid app"
  "ok_title T []" "ok_title T UNKNOWN_WINDOW_TITLE" "t \<in> T \<Longrightarrow> ok_title T t"
  "ok_window W app 0" "wid \<in> W \<Longrightarrow> ok_window W app wid" "is_loginwindow app \<Longrightarrow> ok_window W app LOGINWINDOW_WINDOW_ID"
  by (simp_all add: ok_app_def ok_title_def ok_window_def)

lemma ok_titles [focus_fields]:
  "ok_title T t \<Longrightarrow> ok_title T (fo_window_title (fw_state (set_validated_title R c t w)))"
  "ok_title T (aw_title info) \<Longrightarrow> ok_title T (fo_window_title (fw_state (set_reported_title R c info w)))"
  using validate_choice ok_simps(4)
  by (simp_all add: set_validated_title_def set_reported_title_def Let_def split_beta) metis+

lemma ok_reported_window [focus_fields]: "aw_window_id info \<in> W \<Longrightarrow> ok_window W app (reported_window_id app info)"
  by (simp add: reported_window_id_def ok_window_def)

lemma sourced_update [simp]:
  "sourced A T W (w\<lparr> fw_poll_lock_active := b \<rparr>) = sourced A T W w" "sourced A T W (w\<lparr> fw_poll_lock_since := i \<rparr>) = sourced A T W w"
  "sourced A T W (w\<lparr> fw_coalesce_until := i \<rparr>) = sourced A T W w"
  "sourced A T W (w\<lparr> fw_last_app_before_change := s \<rparr>) = sourced A T W w"
  "sourced A T W (w\<lparr> fw_awaiting_poll_reconcile := b \<rparr>) = sourced A T W w"
  "sourced A T W (w\<lparr> fw_reconcile_active := b \<rparr>) = sourced A T W w" "sourced A T W (w\<lparr> fw_emit_seq := q \<rparr>) = sourced A T W w"
  "sourced A T W (w\<lparr> fw_scheduled_emit_at := i \<rparr>) = sourced A T W w" "sourced A T W (w\<lparr> fw_last_titles := c \<rparr>) = sourced A T W w"
  by (simp_all add: sourced_def)






















section \<open>Lemmas: the caches\<close>

text \<open>The caches stay within their capacity.\<close>

definition title_ttl :: "focus_caps \<Rightarrow> int option" where
  "title_ttl caps = (if 0 < fc_title_cache_ttl_secs caps then Some (secs (uint (fc_title_cache_ttl_secs caps))) else None)"

definition caches_ok :: "focus_caps \<Rightarrow> worker \<Rightarrow> bool" where
  "caches_ok caps w \<longleftrightarrow> lru_ok (fc_pid_cache_capacity caps) None (fw_pid_cache w)
     \<and> lru_ok (fc_title_cache_capacity caps) (title_ttl caps) (fw_last_titles w)
     \<and> lru_ok (fc_title_cache_capacity caps) None (fw_strong w)
     \<and> lru_ok (fc_title_cache_capacity caps) (Some (secs 2)) (fw_weak w)"

lemma caches_ok_update [simp]:
  "caches_ok caps (w\<lparr> fw_state := a \<rparr>) = caches_ok caps w" "caches_ok caps (w\<lparr> fw_poll_lock_active := b \<rparr>) = caches_ok caps w"
  "caches_ok caps (w\<lparr> fw_poll_lock_since := i \<rparr>) = caches_ok caps w" "caches_ok caps (w\<lparr> fw_coalesce_until := i \<rparr>) = caches_ok caps w"
  "caches_ok caps (w\<lparr> fw_pending_title := s \<rparr>) = caches_ok caps w"
  "caches_ok caps (w\<lparr> fw_last_app_before_change := s \<rparr>) = caches_ok caps w"
  "caches_ok caps (w\<lparr> fw_awaiting_poll_reconcile := b \<rparr>) = caches_ok caps w"
  "caches_ok caps (w\<lparr> fw_reconcile_active := b \<rparr>) = caches_ok caps w" "caches_ok caps (w\<lparr> fw_emit_seq := q \<rparr>) = caches_ok caps w"
  "caches_ok caps (w\<lparr> fw_scheduled_emit_at := i \<rparr>) = caches_ok caps w"
  by (simp_all add: caches_ok_def)

lemma with_capacity_ok [simp]: "lru_ok n None (with_capacity n)" "lru_ok n (Some t) (with_capacity_and_ttl n t)"
  by (simp_all add: with_capacity_def with_capacity_and_ttl_def lru_ok_def)

lemma worker_new_ok: "caches_ok caps (worker_new caps u m1 m2)"
  by (simp add: caches_ok_def worker_new_def title_ttl_def)

lemma matches_ok [simp]:
  "lru_ok n ttl c \<Longrightarrow> lru_ok n ttl (snd (title_matches_other_app R now app t c))"
  "lru_ok n ttl c \<Longrightarrow> lru_ok n ttl (snd (title_matches_app now app t c))"
  using lru.get_ok [of n ttl c now app]
  by (auto simp: title_matches_other_app_def title_matches_app_def lru.any_ok split: prod.split option.split)

lemma get_process_start_ok [kronical_inv]:
  "caches_ok caps w \<Longrightarrow> caches_ok caps (snd (get_process_start_time R c pid w))"
  using lru.get_ok [of "fc_pid_cache_capacity caps" None "fw_pid_cache w" "c 0" pid]
  by (auto simp: get_process_start_time_def caches_ok_def lru.ins_ok split: prod.splits option.splits)

lemma set_process_start_ok [kronical_inv]: "caches_ok caps w \<Longrightarrow> caches_ok caps (set_process_start R c u pid w)"
  by (simp add: set_process_start_def Let_def split_beta get_process_start_ok)

lemma small_steps_ok [kronical_inv]:
  "caches_ok caps w \<Longrightarrow> caches_ok caps (schedule_emit now d w)"
  "caches_ok caps w \<Longrightarrow> caches_ok caps (record_last_app_window R now w)"
  "caches_ok caps w \<Longrightarrow> caches_ok caps (record_weak_title R now app t wid w)"
  "caches_ok caps w \<Longrightarrow> caches_ok caps (fix_login_window_id w)"
  "caches_ok caps w \<Longrightarrow> caches_ok caps (clear_poll_lock app w)"
  "caches_ok caps w \<Longrightarrow> caches_ok caps (end_reconcile w)"
  "caches_ok caps w \<Longrightarrow> caches_ok caps (drop_coalesced w)"
  by (simp_all add: schedule_emit_def record_last_app_window_def record_weak_title_def fix_login_window_id_def
      clear_poll_lock_def end_reconcile_def drop_coalesced_def Let_def)
     (simp_all add: caches_ok_def lru.ins_ok)

lemma emit_focus_ok [kronical_inv]: "caches_ok caps w \<Longrightarrow> caches_ok caps (fst (emit_focus R now w))"
  by (simp add: emit_focus_def kronical_inv)

lemma validate_ok [kronical_inv]: "caches_ok caps w \<Longrightarrow> caches_ok caps (snd (validate_title_with_weak R c app t w))"
  by (auto simp: validate_title_with_weak_def Let_def split_beta caches_ok_def)

lemma reconcile_ok [kronical_inv]: "caches_ok caps w \<Longrightarrow> caches_ok caps (snd (reconcile_window_title R c app t prev w))"
  by (auto simp: reconcile_window_title_def Let_def split_beta caches_ok_def split: option.split)

lemma titles_ok [kronical_inv]:
  "caches_ok caps w \<Longrightarrow> caches_ok caps (set_reported_title R c info w)"
  "caches_ok caps w \<Longrightarrow> caches_ok caps (set_validated_title R c t w)"
  "caches_ok caps w \<Longrightarrow> caches_ok caps (weak_for_state R now t w)"
  by (simp_all add: set_reported_title_def set_validated_title_def weak_for_state_def Let_def split_beta kronical_inv)

lemma app_change_flush_ok [kronical_inv]: "caches_ok caps w \<Longrightarrow> caches_ok caps (fst (app_change_flush caps R w))"
  by (auto simp: app_change_flush_def Let_def split_beta kronical_inv split: option.split)

lemma on_app_change_ok [kronical_inv]: "caches_ok caps w \<Longrightarrow> caches_ok caps (fst (on_app_change caps R pid app w))"
  by (simp add: on_app_change_def Let_def split_beta kronical_inv)

lemma window_changed_ok [kronical_inv]: "caches_ok caps w \<Longrightarrow> caches_ok caps (window_changed R w)"
  by (simp add: window_changed_def Let_def kronical_inv)

lemma on_window_change_ok [kronical_inv]:
  assumes "caches_ok caps w"
  shows "caches_ok caps (fst (on_window_change R t w))"
proof -
  obtain d w1 where r: "reconcile_window_title R (\<lambda>i. rd_mono R (2 + i)) (fo_app_name (fw_state w)) t
      (fw_last_app_before_change w) w = (d, w1)" by force
  then have "caches_ok caps w1" using reconcile_ok [OF assms] by (metis snd_conv)
  with assms r show ?thesis
    by (cases d) (auto simp: on_window_change_def Let_def kronical_inv simp del: One_nat_def)
qed

lemma schedule_if_complete_ok [kronical_inv]: "caches_ok caps w \<Longrightarrow> caches_ok caps (schedule_if_complete now w)"
  by (simp add: schedule_if_complete_def kronical_inv)

lemma reports_ok [kronical_inv]:
  "caches_ok caps w \<Longrightarrow> caches_ok caps (fst (on_app_change_info R info w))"
  "caches_ok caps w \<Longrightarrow> caches_ok caps (fst (on_window_change_info R info w))"
  by (simp_all add: on_app_change_info_def on_window_change_info_def Let_def kronical_inv)

lemma poll_ok [kronical_inv]:
  "caches_ok caps w \<Longrightarrow> caches_ok caps (poll_recover R info w)"
  "caches_ok caps w \<Longrightarrow> caches_ok caps (poll_reconcile R info w)"
  by (simp_all add: poll_recover_def poll_reconcile_def Let_def kronical_inv)

lemma last_titles_ok:
  "caches_ok caps w \<Longrightarrow> lru_ok (fc_title_cache_capacity caps) (title_ttl caps) c \<Longrightarrow> caches_ok caps (w\<lparr> fw_last_titles := c \<rparr>)"
  "caches_ok caps w \<Longrightarrow> lru_ok (fc_title_cache_capacity caps) (title_ttl caps) (fw_last_titles w)"
  by (simp_all add: caches_ok_def)

lemma poll_title_ok [kronical_inv]:
  assumes "caches_ok caps w"
  shows "caches_ok caps (poll_title R info w)"
  using assms lru.get_ok [OF last_titles_ok(2) [OF assms], of "rd_mono R 20" "aw_window_id info"]
  by (simp add: poll_title_def Let_def split_beta last_titles_ok lru.ins_ok kronical_inv split: option.split)

lemma on_poll_ok_ok [kronical_inv]: "caches_ok caps w \<Longrightarrow> caches_ok caps (fst (on_poll_ok R info w))"
  by (simp add: on_poll_ok_def kronical_inv)

lemma on_poll_error_ok [kronical_inv]: "caches_ok caps w \<Longrightarrow> caches_ok caps (fst (on_poll_error R e w))"
  by (simp add: on_poll_error_def)

lemma coalesce_timer_ok [kronical_inv]: "caches_ok caps w \<Longrightarrow> caches_ok caps (coalesce_timer caps R w)"
  by (auto simp: coalesce_timer_def Let_def split_beta kronical_inv split: option.split reconcile_decision.split)

lemma emit_timer_ok [kronical_inv]: "caches_ok caps w \<Longrightarrow> caches_ok caps (fst (emit_timer caps R w))"
  by (simp add: emit_timer_def Let_def split_beta kronical_inv split: option.split)

lemma worker_step_ok:
  assumes "caches_ok caps w" and "worker_step caps R stop poll inp w = Some (w', out)"
  shows "caches_ok caps w'"
proof -
  obtain w1 o1 go where i: "worker_input_step caps R poll inp w = Some (w1, o1, go)"
    using assms(2) by (auto simp: worker_step_def split: if_splits option.splits)
  have "caches_ok caps w1"
    using i assms(1)
    by (auto simp: worker_input_step_def Let_def split_beta kronical_inv
        split: worker_input.splits focus_msg.splits sum.splits if_splits)
  then show ?thesis
    using assms(2) i by (auto simp: worker_step_def Let_def split_beta kronical_inv split: if_splits)
qed

lemma worker_run_ok: "caches_ok caps w \<Longrightarrow> caches_ok caps (fst (worker_run caps is w))"
proof (induction "is" arbitrary: w)
  case (Cons i rest)
  obtain R stop poll inp where "i = (R, stop, poll, inp)" by (cases i)
  with Cons show ?case by (auto simp: Let_def split_beta dest: worker_step_ok split: option.split)
qed simp


section \<open>Lemmas: titles\<close>

text \<open>Whether a cache holds the title for the application, and for another one.\<close>

definition holds :: "int \<Rightarrow> (string, string \<times> u32) lru_cache \<Rightarrow> string \<Rightarrow> string \<Rightarrow> bool" where
  "holds now c app t \<longleftrightarrow> (\<exists>wid. lru_peek now c app = Some (t, wid))"

definition held_elsewhere :: "int \<Rightarrow> (string, string \<times> u32) lru_cache \<Rightarrow> string \<Rightarrow> string \<Rightarrow> bool" where
  "held_elsewhere now c app t \<longleftrightarrow> (\<exists>a. a \<noteq> app \<and> holds now c a t)"

lemma title_matches_app_value: "fst (title_matches_app now app t c) = holds now c app t"
proof (cases "lru_peek now c app")
  case None
  with lru.get_value [of now app c] show ?thesis
    by (cases "get_cloned now app c") (simp add: title_matches_app_def holds_def)
next
  case (Some v)
  with lru.get_value [of now app c] show ?thesis
    by (cases v; cases "get_cloned now app c") (simp add: title_matches_app_def holds_def)
qed

lemma title_matches_other_app_value:
  "lru_ok n ttl c \<Longrightarrow> fst (title_matches_other_app R now app t c) = held_elsewhere now c app t"
  unfolding title_matches_other_app_def held_elsewhere_def holds_def
  by (subst lru.any_value) (auto simp: split_beta)

text \<open>Without a time to live an entry does not age, and a lookup changes nothing that is seen.\<close>

lemma peek_no_ttl: "lru_ttl c = None \<Longrightarrow> lru_peek t c = lru_peek t' c"
  by (auto simp: lru_peek_def lru_expired_def fun_eq_iff split: option.split)

lemma title_matches_app_keeps:
  assumes "lru_ok n ttl c"
  shows "lru_peek now (snd (title_matches_app now app t c)) = lru_peek now c"
proof -
  have "snd (title_matches_app now app t c) = snd (get_cloned now app c)"
    by (simp add: title_matches_app_def split: prod.split option.split)
  then show ?thesis using lru.get_keeps [OF assms] by simp
qed

lemma holds_no_ttl:
  assumes "lru_ok n None c"
  shows "held_elsewhere t' (snd (title_matches_app now app x c)) app x = held_elsewhere t c app x"
proof -
  have ok: "lru_ok n None (snd (title_matches_app now app x c))" using assms by simp
  have "lru_peek t' (snd (title_matches_app now app x c)) = lru_peek now (snd (title_matches_app now app x c))"
    by (rule peek_no_ttl) (use ok in \<open>simp add: lru_ok_def\<close>)
  also have "\<dots> = lru_peek now c" by (rule title_matches_app_keeps [OF assms])
  also have "\<dots> = lru_peek t c" by (rule peek_no_ttl) (use assms in \<open>simp add: lru_ok_def\<close>)
  finally show ?thesis by (simp add: held_elsewhere_def holds_def)
qed

lemma caches_okD:
  assumes "caches_ok caps w"
  shows "lru_ok (fc_title_cache_capacity caps) None (fw_strong w)"
    "lru_ok (fc_title_cache_capacity caps) (Some (secs 2)) (fw_weak w)"
  using assms by (simp_all add: caches_ok_def)

lemma validate_value:
  assumes "caches_ok caps w"
  shows "fst (validate_title_with_weak R c app t w) =
    (if t = [] \<or> t = UNKNOWN_WINDOW_TITLE \<or> holds (c 0) (fw_strong w) app t then t
     else if held_elsewhere (c 1) (fw_strong w) app t \<or> held_elsewhere (c 2) (fw_weak w) app t
     then UNKNOWN_WINDOW_TITLE else t)"
proof -
  note ok = caches_okD [OF assms]
  have ok1: "lru_ok (fc_title_cache_capacity caps) None (snd (title_matches_app (c 0) app t (fw_strong w)))"
    using ok(1) by simp
  show ?thesis
    by (simp add: validate_title_with_weak_def Let_def split_beta title_matches_app_value
        title_matches_other_app_value [OF ok1] title_matches_other_app_value [OF ok(2)]
        holds_no_ttl [OF ok(1), where t = "c 1"])
qed

lemma set_process_start_fields:
  assumes "0 < timestamp_millis_u64 utc"
  shows "0 < fo_process_start_time (fw_state (set_process_start R c utc pid w))"
    "fo_app_name (fw_state (set_process_start R c utc pid w)) = fo_app_name (fw_state w)"
    "fo_pid (fw_state (set_process_start R c utc pid w)) = fo_pid (fw_state w)"
    "fw_coalesce_until (set_process_start R c utc pid w) = fw_coalesce_until w"
proof -
  have f: "fw_state (snd (get_process_start_time R c pid w)) = fw_state w"
    "fw_coalesce_until (snd (get_process_start_time R c pid w)) = fw_coalesce_until w"
    by (simp_all add: get_process_start_time_def split: prod.split option.split)
  show "0 < fo_process_start_time (fw_state (set_process_start R c utc pid w))"
    using assms by (simp add: set_process_start_def Let_def split_beta word_neq_0_conv)
  show "fo_app_name (fw_state (set_process_start R c utc pid w)) = fo_app_name (fw_state w)"
    "fo_pid (fw_state (set_process_start R c utc pid w)) = fo_pid (fw_state w)"
    "fw_coalesce_until (set_process_start R c utc pid w) = fw_coalesce_until w"
    by (simp_all add: set_process_start_def Let_def split_beta f)
qed

lemma record_weak_title_fields [simp]:
  "fw_state (record_weak_title R now a t i w) = fw_state w"
  "fw_coalesce_until (record_weak_title R now a t i w) = fw_coalesce_until w"
  by (simp_all add: record_weak_title_def)

lemma validate_fields [simp]:
  "fw_state (snd (validate_title_with_weak R c app t w)) = fw_state w"
  "fw_coalesce_until (snd (validate_title_with_weak R c app t w)) = fw_coalesce_until w"
  by (simp_all add: validate_title_with_weak_def Let_def split_beta)

lemma set_reported_title_fields:
  assumes "caches_ok caps w"
  shows "\<exists>t. fw_state (set_reported_title R c info w) = (fw_state w)\<lparr> fo_window_title := t \<rparr>
      \<and> (t = aw_title info \<or> t = UNKNOWN_WINDOW_TITLE)"
    "fw_coalesce_until (set_reported_title R c info w) = fw_coalesce_until w"
proof -
  let ?w = "record_weak_title R (c 0) (fo_app_name (fw_state w)) (aw_title info) (aw_window_id info) w"
  have "caches_ok caps ?w" using assms by (simp add: kronical_inv)
  from validate_value [OF this, of R "\<lambda>i. c (Suc i)" "fo_app_name (fw_state w)" "aw_title info"]
  have "fst (validate_title_with_weak R (\<lambda>i. c (Suc i)) (fo_app_name (fw_state w)) (aw_title info) ?w)
      \<in> {aw_title info, UNKNOWN_WINDOW_TITLE}"
    by (simp split: if_splits)
  then show "\<exists>t. fw_state (set_reported_title R c info w) = (fw_state w)\<lparr> fo_window_title := t \<rparr>
      \<and> (t = aw_title info \<or> t = UNKNOWN_WINDOW_TITLE)"
    by (intro exI conjI) (auto simp: set_reported_title_def Let_def split_beta)
  show "fw_coalesce_until (set_reported_title R c info w) = fw_coalesce_until w"
    by (simp add: set_reported_title_def Let_def split_beta)
qed

section \<open>Properties\<close>

definition worker_after :: "focus_caps \<Rightarrow> (readings \<times> bool \<times> u64 \<times> worker_input) list \<Rightarrow> worker" where
  "worker_after caps is = fst (worker_run caps is (worker_new caps 0 0 0))"

lemma worker_after_ok: "caches_ok caps (worker_after caps is)"
  by (simp add: worker_after_def worker_run_ok worker_new_ok)

definition demo_readings :: readings where
  "demo_readings = \<lparr> rd_mono = int, rd_utc = (\<lambda>_. secs 5), rd_process_start = (\<lambda>_. Some 77),
     rd_pid_order = rev, rd_title_order = rev, rd_app_order = rev \<rparr>"

definition demo_caps :: focus_caps where
  "demo_caps = \<lparr> fc_pid_cache_capacity = 4, fc_title_cache_capacity = 4, fc_title_cache_ttl_secs = 0,
     fc_focus_window_coalesce_ms = 100, fc_focus_allow_zero_window_id = True \<rparr>"

definition demo_lock_error :: "readings \<times> bool \<times> u64 \<times> worker_input" where
  "demo_lock_error = (demo_readings, False, 2000, WTimeout (Inl ''No qualifying window found''))"




text \<open>
  The caches of the worker stay within their configured capacities, however long it runs, and
  hold one entry per key.
\<close>
theorem worker_caches_bounded:
  "let w = worker_after caps is
   in lru_len (fw_pid_cache w) \<le> max (fc_pid_cache_capacity caps) 1
      \<and> lru_len (fw_last_titles w) \<le> max (fc_title_cache_capacity caps) 1
      \<and> lru_len (fw_strong w) \<le> max (fc_title_cache_capacity caps) 1
      \<and> lru_len (fw_weak w) \<le> max (fc_title_cache_capacity caps) 1
      \<and> distinct (map fst (lru_map (fw_strong w))) \<and> distinct (map fst (lru_map (fw_weak w)))"
  using worker_after_ok [of caps "is"] by (simp add: caches_ok_def lru_ok_def lru_len_def Let_def)

text \<open>
  A title is not attributed to the wrong application.  In every reachable state the worker takes
  a reported title unless another application holds it, in the titles it has emitted or in those
  seen in the last two seconds, and this application is not known to have emitted it itself; then
  it takes the placeholder.  A pending title is taken, held, or replaced by the placeholder.
\<close>
theorem titles_not_borrowed:
  "let w = worker_after caps is; d = fst (reconcile_window_title R c app t prev w)
   in fst (validate_title_with_weak R c app t w) =
        (if t = [] \<or> t = UNKNOWN_WINDOW_TITLE \<or> holds (c 0) (fw_strong w) app t then t
         else if held_elsewhere (c 1) (fw_strong w) app t \<or> held_elsewhere (c 2) (fw_weak w) app t
         then UNKNOWN_WINDOW_TITLE else t)
      \<and> (d = AcceptTitle t FromPending \<or> d = HoldTitle t \<or> d = AcceptTitle UNKNOWN_WINDOW_TITLE FromCached)"
  unfolding Let_def using validate_value [OF worker_after_ok] reconcile_value by blast

text \<open>
  A complete report of a new application is emitted in the same iteration, once, with the
  process and window it names and its title or the placeholder, and nothing stays scheduled.
\<close>
theorem report_is_emitted:
  assumes "w = worker_after caps is" and "\<not> ignores_report w info"
    and "aw_app_name info \<noteq> []" and "aw_title info \<noteq> []" and "0 < sint (aw_process_id info)"
    and "0 < reported_window_id (aw_app_name info) info"
    and "0 < timestamp_millis_u64 (rd_utc R 0)" and "rd_mono R 8 \<le> rd_mono R 54"
  shows "\<exists>w' f. worker_step caps R False poll (WMessage (AppChangeInfo info)) w = Some (w', [f])
    \<and> fi_app_name f = aw_app_name info \<and> fi_pid f = aw_process_id info
    \<and> fi_window_id f = reported_window_id (aw_app_name info) info \<and> fi_window_instance_start f = rd_utc R 1
    \<and> (fi_window_title f = aw_title info \<or> fi_window_title f = UNKNOWN_WINDOW_TITLE)
    \<and> fw_scheduled_emit_at w' = None"
proof -
  define w2 where "w2 = clear_poll_lock (aw_app_name info)
    ((drop_coalesced w)\<lparr> fw_state := (fw_state (drop_coalesced w))\<lparr> fo_app_name := aw_app_name info \<rparr> \<rparr>)"
  define w2p where "w2p = w2\<lparr> fw_state := (fw_state w2)\<lparr> fo_pid := aw_process_id info \<rparr> \<rparr>"
  define w3 where "w3 = set_process_start R (rd_mono R) (rd_utc R 0) (aw_process_id info) w2p"
  define w4 where "w4 = set_reported_title R (\<lambda>i. rd_mono R (2 + i)) info w3"
  define w5 where "w5 = w4\<lparr> fw_state := (fw_state w4)\<lparr> fo_window_id := reported_window_id (fo_app_name (fw_state w4)) info,
    fo_window_instance_start := rd_utc R 1, fo_last_app_update := rd_mono R 7, fo_last_window_update := rd_mono R 7 \<rparr> \<rparr>"
  have w2: "fo_app_name (fw_state w2p) = aw_app_name info" "fo_pid (fw_state w2p) = aw_process_id info"
    "fw_coalesce_until w2p = None"
    by (simp_all add: w2p_def w2_def clear_poll_lock_def drop_coalesced_def)
  note p = set_process_start_fields [OF assms(7), of R "rd_mono R" "aw_process_id info" w2p, folded w3_def]
  have "caches_ok caps w3"
    using worker_after_ok [of caps "is"] assms(1) by (simp add: kronical_inv w3_def w2p_def w2_def)
  note t4 = set_reported_title_fields [OF this, of R "\<lambda>i. rd_mono R (2 + i)" info, folded w4_def]
  obtain t where t: "fw_state w4 = (fw_state w3)\<lparr> fo_window_title := t \<rparr>"
    "t = aw_title info \<or> t = UNKNOWN_WINDOW_TITLE" using t4(1) by blast
  have "t \<noteq> []" using t(2) assms(4) by (auto simp: UNKNOWN_WINDOW_TITLE_def)
  have s5: "is_complete (fw_state w5)" "can_emit caps (fw_state w5)"
    using p w2 \<open>t \<noteq> []\<close> assms(3,5,6) by (simp_all add: is_complete_def can_emit_def w5_def t(1))
  have c5: "fw_coalesce_until w5 = None" using t4(2) p(4) w2(3) by (simp add: w5_def)
  have e5: "to_window_focus_info (fw_state w5) = to_window_focus_info ((fw_state w3)\<lparr> fo_window_title := t,
      fo_window_id := reported_window_id (aw_app_name info) info, fo_window_instance_start := rd_utc R 1 \<rparr>)"
    using p(2) w2(1) by (simp add: to_window_focus_info_def w5_def t(1))
  have "on_app_change_info R info w = (schedule_emit (rd_mono R 8) 0 (end_reconcile w5), True)"
    using assms(2) s5(1)
    by (simp add: on_app_change_info_def Let_def schedule_if_complete_def end_reconcile_def w5_def w4_def w3_def
        w2p_def w2_def)
  then have "worker_step caps R False poll (WMessage (AppChangeInfo info)) w
      = Some (emit_timer caps R (schedule_emit (rd_mono R 8) 0 (end_reconcile w5)))"
    using c5 by (simp add: worker_step_def worker_input_step_def coalesce_timer_def schedule_emit_def
        end_reconcile_def Let_def split_beta)
  moreover have "emit_timer caps R (schedule_emit (rd_mono R 8) 0 (end_reconcile w5))
      = ((fst (emit_focus R (rd_mono R 55) (schedule_emit (rd_mono R 8) 0 (end_reconcile w5))))\<lparr> fw_scheduled_emit_at := None \<rparr>,
         [to_window_focus_info (fw_state w5)])"
    using s5(2) assms(8)
    by (simp add: emit_timer_def schedule_emit_def end_reconcile_def Let_def split_beta millis_def split: option.split)
  ultimately show ?thesis
    using p w2 t(2) unfolding e5 by (simp add: to_window_focus_info_def)
qed

definition demo_report :: active_window_info where
  "demo_report = \<lparr> aw_title = ''Inbox'', aw_process_id = 41, aw_app_name = ''Mail'', aw_window_id = 3 \<rparr>"

theorem report_is_emitted_witness:
  "\<exists>w' f. worker_step demo_caps demo_readings False 2000 (WMessage (AppChangeInfo demo_report)) (worker_after demo_caps [])
     = Some (w', [f]) \<and> fi_app_name f = ''Mail'' \<and> fi_window_id f = 3"
proof -
  have "\<not> ignores_report (worker_after demo_caps []) demo_report"
    by (simp add: worker_after_def worker_new_def ignores_report_def)
  moreover have "aw_app_name demo_report \<noteq> []" "aw_title demo_report \<noteq> []" "0 < sint (aw_process_id demo_report)"
    by (simp_all add: demo_report_def)
  moreover have "reported_window_id (aw_app_name demo_report) demo_report = 3" by (simp add: demo_report_def reported_window_id_def)
  moreover have "0 < timestamp_millis_u64 (rd_utc demo_readings 0)" by code_simp
  moreover have "rd_mono demo_readings 8 \<le> rd_mono demo_readings 54" by (simp add: demo_readings_def)
  ultimately show ?thesis
    using report_is_emitted [of "worker_after demo_caps []" demo_caps "[]" demo_report demo_readings 2000]
    by (auto simp: demo_report_def)
qed

text \<open>Nothing is emitted while only failed polls arrive and the new application has no title.\<close>

definition silent :: "worker \<Rightarrow> bool" where
  "silent w \<longleftrightarrow> fw_poll_lock_active w \<and> fw_pending_title w = None \<and> fo_window_title (fw_state w) = []"

lemma silent_timers:
  "silent w \<Longrightarrow> silent (coalesce_timer caps R w) \<and> emit_timer caps R (coalesce_timer caps R w) = (coalesce_timer caps R w, [])"
  by (auto simp: silent_def coalesce_timer_def emit_timer_def can_emit_def Let_def split: option.splits)

lemma silent_poll_error:
  assumes "silent w" and "worker_step caps R False p (WTimeout (Inl e)) w = Some (w', out)"
  shows "silent w' \<and> out = []"
proof -
  have "on_poll_error R e w = (w, [])" using assms(1) by (simp add: on_poll_error_def silent_def)
  with assms(2) silent_timers [OF assms(1), of caps R] assms(1) show ?thesis
    by (auto simp: worker_step_def worker_input_step_def Let_def split: if_splits)
qed

definition failed_poll :: "readings \<times> bool \<times> u64 \<times> worker_input \<Rightarrow> bool" where
  "failed_poll i = (case i of (R, stop, p, inp) \<Rightarrow> \<not> stop \<and> (case inp of WTimeout (Inl _) \<Rightarrow> True | _ \<Rightarrow> False))"

lemma silent_run: "list_all failed_poll polls \<Longrightarrow> silent w \<Longrightarrow> snd (worker_run caps polls w) = []"
proof (induction polls arbitrary: w)
  case (Cons i rest)
  then obtain R p e where i: "i = (R, False, p, WTimeout (Inl e))"
    by (auto simp: failed_poll_def split: worker_input.splits sum.splits)
  show ?case
  proof (cases "worker_step caps R False p (WTimeout (Inl e)) w")
    case (Some r)
    obtain w1 out where "r = (w1, out)" by (cases r)
    with Some silent_poll_error [of w caps R p e w1 out] Cons i show ?thesis by (simp add: split_beta Let_def)
  qed (simp add: i)
qed simp

lemma silent_after_app_change:
  assumes "fw_poll_lock_active w" and "\<not> is_loginwindow (fo_app_name (fw_state w))" and "is_loginwindow app"
  shows "silent (fst (on_app_change caps R pid app w))"
    "list_all (\<lambda>f. fi_app_name f = fo_app_name (fw_state w)) (snd (on_app_change caps R pid app w))"
proof -
  let ?w1 = "w\<lparr> fw_last_app_before_change :=
      (if fo_app_name (fw_state w) \<noteq> [] then Some (fo_app_name (fw_state w)) else None) \<rparr>"
  have ne: "fo_app_name (fw_state w) \<noteq> app" using assms(2,3) by auto
  have rec: "fw_state (snd (reconcile_window_title R c a t prev v)) = fw_state v"
    "fw_poll_lock_active (snd (reconcile_window_title R c a t prev v)) = fw_poll_lock_active v" for c a t prev v
    by (auto simp: reconcile_window_title_def Let_def split_beta split: option.split)
  have fl: "fw_poll_lock_active (fst (app_change_flush caps R ?w1)) = fw_poll_lock_active w"
    "list_all (\<lambda>f. fi_app_name f = fo_app_name (fw_state w)) (snd (app_change_flush caps R ?w1))"
    by (auto simp: app_change_flush_def Let_def split_beta rec emit_focus_def record_last_app_window_def
        fix_login_window_id_def to_window_focus_info_def split: option.split)
  have ps: "fw_poll_lock_active (set_process_start R c u pid v) = fw_poll_lock_active v"
    "fw_pending_title (set_process_start R c u pid v) = fw_pending_title v"
    "fo_window_title (fw_state (set_process_start R c u pid v)) = fo_window_title (fw_state v)" for c u v
    by (auto simp: set_process_start_def get_process_start_time_def Let_def split_beta split: prod.split option.split)
  show "silent (fst (on_app_change caps R pid app w))"
    using ne assms(1,3) fl(1)
    by (auto simp: on_app_change_def Let_def split_beta silent_def schedule_emit_def clear_poll_lock_def ps)
  show "list_all (\<lambda>f. fi_app_name f = fo_app_name (fw_state w)) (snd (on_app_change caps R pid app w))"
    using ne fl(2) by (simp add: on_app_change_def Let_def split_beta)
qed

text \<open>
  A lock can go unreported.  When the first lock-like poll error arrives while another
  application is still in front, and only then the change to the login window, no number of further
  failed polls makes the worker emit the login window: it has no title yet, and the error is not
  taken as a lock a second time.
\<close>
theorem lock_can_be_missed:
  assumes "fw_poll_lock_active w" and "\<not> is_loginwindow (fo_app_name (fw_state w))" and "list_all failed_poll polls"
  shows "list_all (\<lambda>f. \<not> is_loginwindow (fi_app_name f))
    (snd (worker_run caps ((R, False, p, WMessage (AppChange pid LOGINWINDOW_APP)) # polls) w))"
proof -
  have "is_loginwindow LOGINWINDOW_APP" by (simp add: is_loginwindow_def)
  note s = silent_after_app_change [OF assms(1,2) this, of caps R pid]
  obtain w1 out where a: "on_app_change caps R pid LOGINWINDOW_APP w = (w1, out)" by force
  have "worker_step caps R False p (WMessage (AppChange pid LOGINWINDOW_APP)) w = Some (coalesce_timer caps R w1, out)"
    using silent_timers [of w1 caps R] s(1) by (simp add: worker_step_def worker_input_step_def a)
  moreover have "snd (worker_run caps polls (coalesce_timer caps R w1)) = []"
    using silent_run [OF assms(3)] silent_timers [of w1 caps R] s(1) a by simp
  moreover have "list_all (\<lambda>f. \<not> is_loginwindow (fi_app_name f)) out"
    using s(2) assms(2) by (auto simp: a list_all_iff)
  ultimately show ?thesis by (simp add: split_beta Let_def)
qed

theorem lock_can_be_missed_witness:
  "list_all (\<lambda>f. \<not> is_loginwindow (fi_app_name f))
    (snd (worker_run demo_caps ((demo_readings, False, 2000, WMessage (AppChange 90 LOGINWINDOW_APP)) # replicate 5 demo_lock_error)
       (worker_after demo_caps [demo_lock_error])))"
proof (rule lock_can_be_missed)
  show "fw_poll_lock_active (worker_after demo_caps [demo_lock_error])"
    "\<not> is_loginwindow (fo_app_name (fw_state (worker_after demo_caps [demo_lock_error])))" by code_simp+
  show "list_all failed_poll (replicate 5 demo_lock_error)"
    by (simp add: list_all_iff failed_poll_def demo_lock_error_def)
qed

end
