(* ===== verification/Threading.thy ===== *)
theory Threading
  imports Kronical_Prelude
begin

text \<open>
  The thread registry, crates/common/src/threading.rs: named slots with a status and, while a thread
  is owned, its join handle.  A join handle is the number of its thread.  The registry is shared; an
  operation is one critical section of its mutex, except \<open>join\<close>, which is two with the wait between
  them, followed by the destructor of the handle.
\<close>

section \<open>Operations\<close>

datatype thread_status = Reserved | Running | Joining | Joined | Detached | Panicked

record thread_record =
  tr_id :: nat
  tr_name :: string
  tr_status :: thread_status
  tr_handle :: "nat option"

record thread_snapshot =
  ts_id :: nat
  ts_name :: string
  ts_status :: thread_status

record thread_registry =
  reg_next_id :: nat
  reg_records :: "thread_record list"

record thread_handle =
  th_id :: nat
  th_name :: string

definition thread_record_snapshot :: "thread_record \<Rightarrow> thread_snapshot" where
  "thread_record_snapshot r = \<lparr> ts_id = tr_id r, ts_name = tr_name r, ts_status = tr_status r \<rparr>"

definition is_active :: "thread_record \<Rightarrow> bool" where
  "is_active r \<longleftrightarrow> tr_status r = Running \<or> tr_status r = Joining"

definition registry_new :: thread_registry where
  "registry_new = \<lparr> reg_next_id = 0, reg_records = [] \<rparr>"

definition reserve_slot :: "thread_registry \<Rightarrow> string \<Rightarrow> thread_registry" where
  "reserve_slot reg name =
     (if list_ex (\<lambda>r. tr_name r = name) (reg_records reg) then reg
      else \<lparr> reg_next_id = reg_next_id reg + 1, reg_records = reg_records reg @
               [\<lparr> tr_id = reg_next_id reg, tr_name = name, tr_status = Reserved, tr_handle = None \<rparr>] \<rparr>)"

definition reserve_slots :: "thread_registry \<Rightarrow> string list \<Rightarrow> thread_registry" where
  "reserve_slots reg slots = foldl reserve_slot reg slots"

definition with_slots :: "string list \<Rightarrow> thread_registry" where
  "with_slots slots = reserve_slots registry_new slots"

text \<open>Updates of the first record that satisfies a predicate, as \<open>iter_mut().find(..)\<close> gives it.\<close>

fun update_first :: "('a \<Rightarrow> bool) \<Rightarrow> ('a \<Rightarrow> 'a) \<Rightarrow> 'a list \<Rightarrow> 'a list" where
  "update_first p f [] = []"
| "update_first p f (x # xs) = (if p x then f x # xs else x # update_first p f xs)"

text \<open>\<open>spawn\<close>; the first argument is the thread the system starts, or why it does not.\<close>

definition spawn :: "string + nat \<Rightarrow> string \<Rightarrow> thread_registry \<Rightarrow> thread_registry \<times> (string + thread_handle)" where
  "spawn started name reg = (case started of
      Inl e \<Rightarrow> (reg, Inl (''failed to spawn thread '' @ [CHR 0x27] @ name @ [CHR 0x27] @ '': '' @ e))
    | Inr tid \<Rightarrow>
        (case find (\<lambda>r. tr_name r = name \<and> tr_handle r = None) (reg_records reg) of
           Some r \<Rightarrow>
             (reg\<lparr> reg_records := update_first (\<lambda>r. tr_name r = name \<and> tr_handle r = None)
                (\<lambda>r. r\<lparr> tr_status := Running, tr_handle := Some tid \<rparr>) (reg_records reg) \<rparr>,
              Inr \<lparr> th_id = tr_id r, th_name = name \<rparr>)
         | None \<Rightarrow>
             (\<lparr> reg_next_id = reg_next_id reg + 1, reg_records = reg_records reg @
                [\<lparr> tr_id = reg_next_id reg, tr_name = name, tr_status = Running, tr_handle = Some tid \<rparr>] \<rparr>,
              Inr \<lparr> th_id = reg_next_id reg, th_name = name \<rparr>)))"

definition active_thread_names :: "thread_registry \<Rightarrow> string list" where
  "active_thread_names reg = map tr_name (filter is_active (reg_records reg))"

definition active_count :: "thread_registry \<Rightarrow> nat" where
  "active_count reg = length (filter is_active (reg_records reg))"

definition registry_snapshot :: "thread_registry \<Rightarrow> thread_snapshot list" where
  "registry_snapshot reg = map thread_record_snapshot (reg_records reg)"

definition update_id :: "nat \<Rightarrow> (thread_record \<Rightarrow> thread_record) \<Rightarrow> thread_registry \<Rightarrow> thread_registry" where
  "update_id i f reg = reg\<lparr> reg_records := update_first (\<lambda>r. tr_id r = i) f (reg_records reg) \<rparr>"

definition handle_of :: "nat \<Rightarrow> thread_registry \<Rightarrow> nat option" where
  "handle_of i reg = (case find (\<lambda>r. tr_id r = i) (reg_records reg) of Some r \<Rightarrow> tr_handle r | None \<Rightarrow> None)"

text \<open>The critical sections of \<open>join\<close> and of the destructor; they return the join handle they take.\<close>

definition join_begin :: "nat \<Rightarrow> thread_registry \<Rightarrow> thread_registry \<times> nat option" where
  "join_begin i reg =
     (update_id i (\<lambda>r. r\<lparr> tr_status := Joining, tr_handle := None \<rparr>) reg, handle_of i reg)"

definition join_end :: "nat \<Rightarrow> bool \<Rightarrow> thread_registry \<Rightarrow> thread_registry" where
  "join_end i ok reg = update_id i (\<lambda>r. r\<lparr> tr_status := (if ok then Joined else Panicked) \<rparr>) reg"

definition drop_handle :: "nat \<Rightarrow> thread_registry \<Rightarrow> thread_registry" where
  "drop_handle i reg = update_id i (\<lambda>r. r\<lparr> tr_status := (if tr_handle r \<noteq> None then Detached else tr_status r),
     tr_handle := None \<rparr>) reg"

text \<open>
  A whole \<open>join\<close> when nobody else uses the registry meanwhile: \<open>ok\<close> is how the thread ended, and a
  handle that has already been taken counts as a normal end.
\<close>

definition thread_join :: "bool \<Rightarrow> thread_handle \<Rightarrow> thread_registry \<Rightarrow> thread_registry \<times> bool" where
  "thread_join ok h reg =
     (let (reg1, taken) = join_begin (th_id h) reg;
          result = (case taken of Some _ \<Rightarrow> ok | None \<Rightarrow> True)
      in (drop_handle (th_id h) (join_end (th_id h) result reg1), result))"

section \<open>Specification\<close>

datatype registry_op =
    OpReserve "string list"
  | OpSpawn "string + nat" string
  | OpJoin bool thread_handle
  | OpDrop thread_handle

definition registry_apply :: "thread_registry \<Rightarrow> registry_op \<Rightarrow> thread_registry" where
  "registry_apply reg op = (case op of
      OpReserve slots \<Rightarrow> reserve_slots reg slots
    | OpSpawn started name \<Rightarrow> fst (spawn started name reg)
    | OpJoin ok h \<Rightarrow> fst (thread_join ok h reg)
    | OpDrop h \<Rightarrow> drop_handle (th_id h) reg)"

text \<open>Ids are unique, and a record counts as running exactly while its thread is owned.\<close>

definition registry_ok :: "thread_registry \<Rightarrow> bool" where
  "registry_ok reg \<longleftrightarrow> distinct (map tr_id (reg_records reg))
     \<and> list_all (\<lambda>r. tr_id r < reg_next_id reg \<and> tr_status r \<noteq> Joining
         \<and> (tr_status r = Running \<longleftrightarrow> tr_handle r \<noteq> None)) (reg_records reg)"

section \<open>Lemmas\<close>

lemma find_split:
  assumes "find p xs = Some y"
  obtains ys zs where "xs = ys @ y # zs" "p y" "\<And>f. update_first p f xs = ys @ f y # zs"
proof -
  have "\<exists>ys zs. xs = ys @ y # zs \<and> p y \<and> (\<forall>f. update_first p f xs = ys @ f y # zs)"
    using assms
  proof (induction xs)
    case (Cons a xs)
    show ?case
    proof (cases "p a")
      case True
      with Cons.prems show ?thesis by (intro exI [of _ "[]"] exI [of _ xs]) simp
    next
      case False
      with Cons obtain ys zs where "xs = ys @ y # zs" "p y" "\<forall>f. update_first p f xs = ys @ f y # zs" by auto
      with False show ?thesis by (intro exI [of _ "a # ys"] exI [of _ zs]) simp
    qed
  qed simp
  then show thesis using that by blast
qed

lemma update_first_none: "\<not> list_ex p xs \<Longrightarrow> update_first p f xs = xs"
  by (induction xs) auto

lemma find_none_iff: "find p xs = None \<longleftrightarrow> \<not> list_ex p xs"
  by (induction xs) auto

lemma update_first_map:
  "(\<And>x. g (f x) = g x) \<Longrightarrow> map g (update_first p f xs) = map g xs"
  by (induction xs) auto

lemma update_first_all:
  "list_all P xs \<Longrightarrow> (\<And>x. P x \<Longrightarrow> p x \<Longrightarrow> P (f x)) \<Longrightarrow> list_all P (update_first p f xs)"
  by (induction xs) auto

lemma update_first_fuse:
  "(\<And>x. p (f x) = p x) \<Longrightarrow> update_first p g (update_first p f xs) = update_first p (g \<circ> f) xs"
  by (induction xs) auto

text \<open>The effect of an undisturbed join on the records.\<close>

lemma thread_join_records:
  "fst (thread_join ok h reg) = update_id (th_id h) (\<lambda>r. r\<lparr>
      tr_status := (if (case handle_of (th_id h) reg of Some _ \<Rightarrow> ok | None \<Rightarrow> True) then Joined else Panicked),
      tr_handle := None \<rparr>) reg"
  by (simp add: thread_join_def join_begin_def join_end_def drop_handle_def update_id_def update_first_fuse
      comp_def Let_def)

lemma registry_new_ok: "registry_ok registry_new"
  by (simp add: registry_ok_def registry_new_def)

lemma reserve_slots_ok: "registry_ok reg \<Longrightarrow> registry_ok (reserve_slots reg slots)"
proof (induction slots arbitrary: reg)
  case (Cons s ss)
  have "registry_ok (reserve_slot reg s)"
    using Cons.prems by (auto simp: registry_ok_def reserve_slot_def list_all_iff)
  with Cons.IH show ?case by (simp add: reserve_slots_def)
qed (simp add: reserve_slots_def)

lemma update_id_ok:
  assumes "registry_ok reg" and "\<And>r. tr_id (f r) = tr_id r"
    and "\<And>r. tr_status r \<noteq> Joining \<and> (tr_status r = Running \<longleftrightarrow> tr_handle r \<noteq> None) \<Longrightarrow>
      tr_status (f r) \<noteq> Joining \<and> (tr_status (f r) = Running \<longleftrightarrow> tr_handle (f r) \<noteq> None)"
  shows "registry_ok (reg\<lparr> reg_records := update_first p f (reg_records reg) \<rparr>)"
  using assms unfolding registry_ok_def
  by (auto simp: update_first_map intro!: update_first_all)

lemma registry_apply_ok:
  assumes "registry_ok reg"
  shows "registry_ok (registry_apply reg op)"
proof (cases op)
  case (OpReserve slots)
  with assms show ?thesis by (simp add: registry_apply_def reserve_slots_ok)
next
  case (OpSpawn started name)
  have "registry_ok (reg\<lparr> reg_records := update_first (\<lambda>r. tr_name r = name \<and> tr_handle r = None)
      (\<lambda>r. r\<lparr> tr_status := Running, tr_handle := Some tid \<rparr>) (reg_records reg) \<rparr>)" for tid
    by (rule update_id_ok [OF assms]) auto
  with OpSpawn assms show ?thesis
    by (auto simp: registry_apply_def spawn_def registry_ok_def list_all_iff split: sum.split option.split)
next
  case (OpJoin ok h)
  then show ?thesis
    unfolding registry_apply_def by (simp add: thread_join_records update_id_def update_id_ok [OF assms])
next
  case (OpDrop h)
  then show ?thesis
    unfolding registry_apply_def by (simp add: drop_handle_def update_id_def update_id_ok [OF assms])
qed

lemma registry_reach_ok: "registry_ok (foldl registry_apply registry_new ops)"
  by (induction ops rule: rev_induct) (simp_all add: registry_new_ok registry_apply_ok)

definition active_names :: "thread_registry \<Rightarrow> string multiset" where
  "active_names reg = mset (active_thread_names reg)"

lemma active_names_records: "active_names reg = image_mset tr_name (filter_mset is_active (mset (reg_records reg)))"
  by (simp add: active_names_def active_thread_names_def)

text \<open>Starting a thread adds its name to the active ones.\<close>

lemma spawn_active:
  assumes "registry_ok reg"
  shows "active_names (fst (spawn (Inr tid) name reg)) = add_mset name (active_names reg)"
proof (cases "find (\<lambda>r. tr_name r = name \<and> tr_handle r = None) (reg_records reg)")
  case (Some y)
  then obtain ys zs where s: "reg_records reg = ys @ y # zs" "tr_name y = name \<and> tr_handle y = None"
    "\<And>f. update_first (\<lambda>r. tr_name r = name \<and> tr_handle r = None) f (reg_records reg) = ys @ f y # zs"
    by (rule find_split) blast
  have "\<not> is_active y" using assms s(1,2) by (auto simp: registry_ok_def is_active_def)
  with s Some show ?thesis by (simp add: spawn_def active_names_records is_active_def)
next
  case None
  then show ?thesis by (simp add: spawn_def active_names_records is_active_def)
qed

text \<open>Taking the handle of a running thread removes its name.\<close>

lemma update_id_active:
  assumes "registry_ok reg" and "find (\<lambda>r. tr_id r = i) (reg_records reg) = Some r" and "tr_handle r = Some tid"
    and "\<not> is_active (f r)"
  shows "r \<in> set (reg_records reg)" "active_names reg = add_mset (tr_name r) (active_names (update_id i f reg))"
    "f r \<in> set (reg_records (update_id i f reg))"
proof -
  obtain ys zs where s: "reg_records reg = ys @ r # zs"
    "\<And>f. update_first (\<lambda>r. tr_id r = i) f (reg_records reg) = ys @ f r # zs"
    using find_split [OF assms(2)] by metis
  have "is_active r" using assms(1,3) s(1) by (auto simp: registry_ok_def is_active_def)
  with s assms(4) show "r \<in> set (reg_records reg)"
    "active_names reg = add_mset (tr_name r) (active_names (update_id i f reg))"
    "f r \<in> set (reg_records (update_id i f reg))"
    by (simp_all add: active_names_records update_id_def)
qed

section \<open>Properties\<close>

text \<open>
  The registry keeps track of its threads.  After any history of operations that do not overlap:
  ids are unique, a record is Running exactly while the registry owns its thread, and the active
  names are those of the owned threads; starting a thread adds its name to the active ones, and a
  failed start changes nothing.
\<close>
theorem registry_tracks_threads:
  "let reg = foldl registry_apply registry_new ops
   in distinct (map tr_id (reg_records reg))
      \<and> active_thread_names reg = map tr_name (filter (\<lambda>r. tr_handle r \<noteq> None) (reg_records reg))
      \<and> active_names (fst (spawn (Inr tid) name reg)) = add_mset name (active_names reg)
      \<and> fst (spawn (Inl e) name reg) = reg"
proof -
  let ?reg = "foldl registry_apply registry_new ops"
  note ok = registry_reach_ok [of ops]
  have "is_active r = (tr_handle r \<noteq> None)" if "r \<in> set (reg_records ?reg)" for r
    using ok that by (auto simp: registry_ok_def list_all_iff is_active_def)
  then have "filter is_active (reg_records ?reg) = filter (\<lambda>r. tr_handle r \<noteq> None) (reg_records ?reg)"
    by (rule filter_cong [OF refl])
  with ok spawn_active [OF ok] show ?thesis
    by (simp add: registry_ok_def active_thread_names_def Let_def spawn_def)
qed

text \<open>
  Joining or dropping a handle whose thread is owned takes exactly that thread out of the active
  ones: it is left Joined or Panicked, as it ended, or Detached; the join returns how it ended.
\<close>
theorem join_and_drop_release:
  assumes "reg = foldl registry_apply registry_new ops" and "handle_of (th_id h) reg = Some tid"
  shows "snd (thread_join ok h reg) = ok
    \<and> (\<exists>r. r \<in> set (reg_records reg) \<and> tr_handle r = Some tid
        \<and> active_names reg = add_mset (tr_name r) (active_names (fst (thread_join ok h reg)))
        \<and> r\<lparr> tr_status := (if ok then Joined else Panicked), tr_handle := None \<rparr>
            \<in> set (reg_records (fst (thread_join ok h reg)))
        \<and> active_names reg = add_mset (tr_name r) (active_names (drop_handle (th_id h) reg)))"
proof -
  have ok: "registry_ok reg" by (simp add: assms(1) registry_reach_ok)
  obtain r where r: "find (\<lambda>r. tr_id r = th_id h) (reg_records reg) = Some r" "tr_handle r = Some tid"
    using assms(2) by (auto simp: handle_of_def split: option.splits)
  let ?j = "\<lambda>r. r\<lparr> tr_status := (if ok then Joined else Panicked), tr_handle := None \<rparr>"
  let ?d = "\<lambda>r. r\<lparr> tr_status := (if tr_handle r \<noteq> None then Detached else tr_status r), tr_handle := None \<rparr>"
  have j: "fst (thread_join ok h reg) = update_id (th_id h) ?j reg"
    and d: "drop_handle (th_id h) reg = update_id (th_id h) ?d reg"
    by (simp_all add: thread_join_records assms(2) drop_handle_def)
  have "\<not> is_active (?j r)" "\<not> is_active (?d r)" using r(2) by (simp_all add: is_active_def)
  note J = update_id_active [where f = ?j, OF ok r this(1)] and D = update_id_active [where f = ?d, OF ok r this(2)]
  have "snd (thread_join ok h reg) = ok" by (simp add: thread_join_def join_begin_def assms(2) Let_def)
  with r(2) J D(2) show ?thesis unfolding j d by blast
qed

definition demo_registry_ops :: "registry_op list" where
  "demo_registry_ops = [OpReserve [''focus-worker''], OpSpawn (Inr 7) ''focus-worker'', OpSpawn (Inr 8) ''sqlite-writer'']"

theorem join_and_drop_release_witness:
  "snd (thread_join False \<lparr> th_id = 1, th_name = ''sqlite-writer'' \<rparr> (foldl registry_apply registry_new demo_registry_ops)) = False"
proof -
  have "handle_of (th_id \<lparr> th_id = 1, th_name = ''sqlite-writer'' \<rparr>) (foldl registry_apply registry_new demo_registry_ops) = Some 8"
    by code_simp
  from join_and_drop_release [OF refl this, of False] show ?thesis by blast
qed

text \<open>
  A slot that is started again while its old thread is being joined is corrupted.  If the spawn
  falls between the two critical sections of the join, the new thread, which runs, is recorded as
  Joined when the join ends; the destructor of the old handle then detaches the new thread, so that
  a join of the new handle returns at once without waiting for it.
\<close>
theorem respawn_during_join:
  "let (reg1, h1) = spawn (Inr 1) ''worker'' registry_new;
       (reg2, taken) = join_begin 0 reg1;
       (reg3, h2) = spawn (Inr 2) ''worker'' reg2;
       reg4 = join_end 0 True reg3;
       reg5 = drop_handle 0 reg4
   in taken = Some 1 \<and> h2 = Inr \<lparr> th_id = 0, th_name = ''worker'' \<rparr>
      \<and> handle_of 0 reg3 = Some 2 \<and> map ts_status (registry_snapshot reg4) = [Joined]
      \<and> handle_of 0 reg5 = None \<and> map ts_status (registry_snapshot reg5) = [Detached]
      \<and> active_count reg5 = 0 \<and> snd (join_begin 0 reg5) = None"
  by code_simp

end
