(* ===== verification/Grouping.thy ===== *)
theory Grouping
  imports Kronical_Prelude
begin

text \<open>
  The compressors cut a list of events into runs of neighbours that belong together.  \<open>group_adj\<close>
  is the reference definition of such a cut, and the locale is the contract of a loop with an
  accumulator that computes a summary of every run.
\<close>

section \<open>Reference definition\<close>

fun group_adj :: "('a \<Rightarrow> 'a \<Rightarrow> bool) \<Rightarrow> 'a list \<Rightarrow> 'a list list" where
  "group_adj r [] = []"
| "group_adj r (x # xs) = (case group_adj r xs of
      [] \<Rightarrow> [[x]]
    | g # gs \<Rightarrow> if r x (hd g) then (x # g) # gs else [x] # g # gs)"

text \<open>A cut of a list into maximal runs: nothing is lost, runs are linked and cannot be merged.\<close>

definition maximal_runs :: "('a \<Rightarrow> 'a \<Rightarrow> bool) \<Rightarrow> 'a list \<Rightarrow> 'a list list \<Rightarrow> bool" where
  "maximal_runs r xs gs \<longleftrightarrow> concat gs = xs \<and> list_all (\<lambda>g. g \<noteq> [] \<and> chain r g) gs \<and>
     chain (\<lambda>g h. \<not> r (last g) (hd h)) gs"

lemma group_adj_runs: "maximal_runs r xs (group_adj r xs)"
proof (induction xs)
  case Nil
  then show ?case by (simp add: maximal_runs_def)
next
  case (Cons x xs)
  show ?case
  proof (cases "group_adj r xs")
    case Nil
    with Cons show ?thesis by (simp add: maximal_runs_def)
  next
    case (Cons g gs)
    with Cons.IH show ?thesis
      by (auto simp: maximal_runs_def chain_Cons)
  qed
qed

section \<open>Loops that group\<close>

locale grouping_loop =
  fixes rel :: "'e \<Rightarrow> 'e \<Rightarrow> bool"
    and start :: "'e \<Rightarrow> 'a" and joins :: "'a \<Rightarrow> 'e \<Rightarrow> bool" and extend :: "'a \<Rightarrow> 'e \<Rightarrow> 'a"
    and emit :: "'a \<Rightarrow> 'o list" and loop :: "'a option \<Rightarrow> 'e list \<Rightarrow> 'o list"
    and summary :: "'e list \<Rightarrow> 'a"
  assumes loop_end: "loop None [] = []" "loop (Some a) [] = emit a"
    and loop_first: "loop None (e # es) = loop (Some (start e)) es"
    and loop_next: "loop (Some a) (e # es) =
      (if joins a e then loop (Some (extend a e)) es else emit a @ loop (Some (start e)) es)"
    and start_summary: "start e = summary [e]"
    and extend_summary: "g \<noteq> [] \<Longrightarrow> chain rel g \<Longrightarrow> rel (last g) e \<Longrightarrow> extend (summary g) e = summary (g @ [e])"
    and joins_rel: "g \<noteq> [] \<Longrightarrow> chain rel g \<Longrightarrow> joins (summary g) e = rel (last g) e"
begin

definition glue :: "'e list \<Rightarrow> 'e list list \<Rightarrow> 'e list list" where
  "glue g gs = (case gs of [] \<Rightarrow> [g] | h # hs \<Rightarrow> if rel (last g) (hd h) then (g @ h) # hs else g # h # hs)"

lemma glue_group:
  assumes "g \<noteq> []"
  shows "glue g (group_adj rel (e # es)) =
    (if rel (last g) e then glue (g @ [e]) (group_adj rel es) else g # group_adj rel (e # es))"
proof (cases "group_adj rel es")
  case Nil
  with assms show ?thesis by (simp add: glue_def)
next
  case (Cons h hs)
  with assms show ?thesis by (simp add: glue_def)
qed

lemma glue_single: "glue [e] (group_adj rel es) = group_adj rel (e # es)"
  by (simp add: glue_def split: list.split)

lemma loop_open:
  "g \<noteq> [] \<Longrightarrow> chain rel g \<Longrightarrow>
     loop (Some (summary g)) es = concat (map (\<lambda>h. emit (summary h)) (glue g (group_adj rel es)))"
proof (induction es arbitrary: g)
  case Nil
  then show ?case by (simp add: loop_end glue_def)
next
  case (Cons e es)
  show ?case
  proof (cases "rel (last g) e")
    case True
    then have "chain rel (g @ [e])" using Cons.prems by (simp add: chain_append)
    with True Cons.prems Cons.IH [of "g @ [e]"] show ?thesis
      by (simp add: loop_next joins_rel extend_summary glue_group del: group_adj.simps)
  next
    case False
    with Cons.prems Cons.IH [of "[e]"] show ?thesis
      by (simp add: loop_next joins_rel start_summary glue_group glue_single del: group_adj.simps)
  qed
qed

lemma loop_groups: "loop None es = concat (map (\<lambda>g. emit (summary g)) (group_adj rel es))"
proof (cases es)
  case Nil
  then show ?thesis by (simp add: loop_end)
next
  case (Cons e es')
  then show ?thesis
    using loop_open [of "[e]" es'] by (simp add: loop_first start_summary glue_single del: group_adj.simps)
qed

end

end
