(* ===== verification/Compressor.thy ===== *)
theory Compressor
  imports Adapter Grouping "HOL-Library.Sublist"
begin

text \<open>
  The compression of raw events: src/daemon/compressor.rs and the data of
  crates/core/src/compression.rs.  Wheel, movement, keyboard and focus events of a batch become
  compact events that point back to the raw events they summarise.

  Floating-point arithmetic is a parameter (\<open>f32ops\<close>): nothing below depends on how \<open>f32\<close> rounds.
  The Douglas-Peucker recursion is a \<open>partial_function (option)\<close>, so that a recursion that does not
  return has the value \<open>None\<close>.
\<close>

section \<open>Data\<close>

type_synonym string_id = u16

record raw_event_pointer =
  ptr_table :: string
  ptr_ids :: "u64 list"

definition DEFAULT_RAW_EVENT_TABLE :: string where
  "DEFAULT_RAW_EVENT_TABLE = ''raw_events''"

definition raw_event_pointer_new :: "string \<Rightarrow> u64 list \<Rightarrow> raw_event_pointer option" where
  "raw_event_pointer_new table ids = (if ids = [] then None else Some \<lparr> ptr_table = table, ptr_ids = ids \<rparr>)"

datatype scroll_direction = VerticalUp | VerticalDown | HorizontalLeft | HorizontalRight

record compact_scroll_sequence =
  ss_start_time :: instant
  ss_end_time :: instant
  ss_direction :: scroll_direction
  ss_total_amount :: i32
  ss_total_rotation :: i32
  ss_scroll_count :: u32
  ss_position :: mouse_position
  ss_raw_event_ids :: "raw_event_pointer option"

datatype mouse_trajectory_type = Movement | Drag

record 'f compact_mouse_trajectory =
  mt_start_time :: instant
  mt_end_time :: instant
  mt_event_type :: mouse_trajectory_type
  mt_start_position :: mouse_position
  mt_end_position :: mouse_position
  mt_simplified_path :: "mouse_position list"
  mt_total_distance :: 'f
  mt_max_velocity :: 'f
  mt_raw_event_ids :: "raw_event_pointer option"

record 'f compact_keyboard_activity =
  ka_start_time :: instant
  ka_end_time :: instant
  ka_keystrokes :: u32
  ka_keys_per_minute :: 'f
  ka_density_per_sec :: 'f
  ka_raw_event_ids :: "raw_event_pointer option"

record compact_focus_event =
  cf_timestamp :: instant
  cf_app_name_id :: string_id
  cf_window_title_id :: string_id
  cf_pid :: i32
  cf_window_position :: "mouse_position option"
  cf_raw_event_ids :: "raw_event_pointer option"

datatype 'f compact_event =
    CScroll compact_scroll_sequence
  | CMouseTrajectory "'f compact_mouse_trajectory"
  | CKeyboard "'f compact_keyboard_activity"
  | CFocus compact_focus_event

text \<open>The sizes \<open>std::mem::size_of\<close> reports depend on the compiler's layout.\<close>

record layout =
  size_scroll :: u64
  size_trajectory :: u64
  size_position :: u64
  size_keyboard :: u64
  size_focus :: u64

fun memory_size :: "layout \<Rightarrow> 'f compact_event \<Rightarrow> u64" where
  "memory_size L (CScroll _) = size_scroll L"
| "memory_size L (CMouseTrajectory t) =
     size_trajectory L + of_nat (length (mt_simplified_path t)) * size_position L"
| "memory_size L (CKeyboard _) = size_keyboard L"
| "memory_size L (CFocus _) = size_focus L"

definition infer_scroll_direction :: "i32 \<Rightarrow> wheel_axis \<Rightarrow> scroll_direction" where
  "infer_scroll_direction amount axis = (case axis of
      Vertical \<Rightarrow> if 0 < sint amount then VerticalUp else VerticalDown
    | Horizontal \<Rightarrow> if 0 < sint amount then HorizontalRight else HorizontalLeft)"

text \<open>
  The operations on \<open>f32\<close> that the compressors use.  \<open>f_of_int\<close> converts an integer, \<open>f_sum_init\<close> is
  the value from which \<open>sum\<close> starts.
\<close>

record 'f f32ops =
  f_of_int :: "int \<Rightarrow> 'f"
  f_add :: "'f \<Rightarrow> 'f \<Rightarrow> 'f"
  f_mul :: "'f \<Rightarrow> 'f \<Rightarrow> 'f"
  f_div :: "'f \<Rightarrow> 'f \<Rightarrow> 'f"
  f_sqrt :: "'f \<Rightarrow> 'f"
  f_abs :: "'f \<Rightarrow> 'f"
  f_max :: "'f \<Rightarrow> 'f \<Rightarrow> 'f"
  f_lt :: "'f \<Rightarrow> 'f \<Rightarrow> bool"
  f_eq :: "'f \<Rightarrow> 'f \<Rightarrow> bool"
  f_sum_init :: 'f

section \<open>The string interner\<close>

record string_interner =
  si_strings :: "string list"
  si_lookup :: "(string \<times> string_id) list"
  si_max_strings :: nat

definition interner_with_cap :: "nat \<Rightarrow> string_interner" where
  "interner_with_cap max_strings =
     \<lparr> si_strings = [], si_lookup = [], si_max_strings = max max_strings 1 \<rparr>"

definition intern_string :: "string_interner \<Rightarrow> string \<Rightarrow> string_interner \<times> string_id" where
  "intern_string si s = (case map_of (si_lookup si) s of
      Some i \<Rightarrow> (si, i)
    | None \<Rightarrow>
        (let si1 = (if si_max_strings si \<le> length (si_strings si)
                    then si\<lparr> si_strings := [], si_lookup := [] \<rparr> else si);
             i = of_nat (length (si_strings si1))
         in (si1\<lparr> si_strings := si_strings si1 @ [s], si_lookup := hm_insert s i (si_lookup si1) \<rparr>, i)))"

section \<open>Scroll sequences\<close>

type_synonym scroll_event = "u64 \<times> instant \<times> mouse_position \<times> i32 \<times> i32 \<times> wheel_axis"

definition scroll_max_gap_ms :: int where "scroll_max_gap_ms = 500"

definition extract_scroll_event :: "raw_event \<Rightarrow> scroll_event option" where
  "extract_scroll_event ev = (case ev of
      RawMouseInput ts i data \<Rightarrow>
        (case (wheel_amount data, wheel_rotation data, mouse_wheel_axis data) of
           (Some amount, Some rotation, Some axis) \<Rightarrow>
             (let signed_amount = (if 0 \<le> sint rotation then amount else - amount)
              in Some (i, ts, mouse_pos data, signed_amount, rotation, axis))
         | _ \<Rightarrow> None)
    | _ \<Rightarrow> None)"

definition extract_scroll_events :: "raw_event list \<Rightarrow> scroll_event list" where
  "extract_scroll_events events = List.map_filter extract_scroll_event events"

definition scroll_can_compress :: "raw_event list \<Rightarrow> bool" where
  "scroll_can_compress events = (1 < length (extract_scroll_events events))"

definition scroll_joins :: "compact_scroll_sequence \<Rightarrow> scroll_event \<Rightarrow> bool" where
  "scroll_joins seq = (\<lambda>(event_id, timestamp, position, signed_amount, rotation, axis).
     ss_direction seq = infer_scroll_direction signed_amount axis \<and>
     num_milliseconds (timestamp - ss_end_time seq) < scroll_max_gap_ms)"

definition scroll_extend :: "compact_scroll_sequence \<Rightarrow> scroll_event \<Rightarrow> compact_scroll_sequence" where
  "scroll_extend seq = (\<lambda>(event_id, timestamp, position, signed_amount, rotation, axis).
     seq\<lparr> ss_end_time := timestamp,
          ss_total_amount := ss_total_amount seq + signed_amount,
          ss_total_rotation := ss_total_rotation seq + rotation,
          ss_scroll_count := ss_scroll_count seq + 1,
          ss_raw_event_ids := (case ss_raw_event_ids seq of
              Some link \<Rightarrow> Some (link\<lparr> ptr_ids := ptr_ids link @ [event_id] \<rparr>)
            | None \<Rightarrow> raw_event_pointer_new DEFAULT_RAW_EVENT_TABLE [event_id]) \<rparr>)"

definition scroll_start :: "scroll_event \<Rightarrow> compact_scroll_sequence" where
  "scroll_start = (\<lambda>(event_id, timestamp, position, signed_amount, rotation, axis).
     \<lparr> ss_start_time = timestamp, ss_end_time = timestamp,
       ss_direction = infer_scroll_direction signed_amount axis,
       ss_total_amount = signed_amount, ss_total_rotation = rotation, ss_scroll_count = 1,
       ss_position = position,
       ss_raw_event_ids = raw_event_pointer_new DEFAULT_RAW_EVENT_TABLE [event_id] \<rparr>)"

fun scroll_loop :: "compact_scroll_sequence option \<Rightarrow> scroll_event list \<Rightarrow> compact_scroll_sequence list" where
  "scroll_loop cur [] = (case cur of Some seq \<Rightarrow> [seq] | None \<Rightarrow> [])"
| "scroll_loop cur (e # es) = (case cur of
      Some seq \<Rightarrow> if scroll_joins seq e then scroll_loop (Some (scroll_extend seq e)) es
                  else seq # scroll_loop (Some (scroll_start e)) es
    | None \<Rightarrow> scroll_loop (Some (scroll_start e)) es)"

definition scroll_compress :: "raw_event list \<Rightarrow> compact_scroll_sequence list" where
  "scroll_compress events =
     (let scroll_events = extract_scroll_events events
      in if scroll_events = [] then [] else scroll_loop None scroll_events)"

section \<open>Mouse trajectories\<close>

type_synonym mouse_event = "u64 \<times> instant \<times> mouse_position \<times> mouse_trajectory_type"

definition mouse_max_gap_ms :: int where "mouse_max_gap_ms = 200"

definition extract_mouse_event :: "raw_event \<Rightarrow> mouse_event option" where
  "extract_mouse_event ev = (case ev of
      RawMouseInput ts i data \<Rightarrow>
        (case mouse_event_type data of
           Some Moved \<Rightarrow> Some (i, ts, mouse_pos data, Movement)
         | Some Dragged \<Rightarrow> Some (i, ts, mouse_pos data, Drag)
         | _ \<Rightarrow> None)
    | _ \<Rightarrow> None)"

definition extract_mouse_events :: "raw_event list \<Rightarrow> mouse_event list" where
  "extract_mouse_events events = List.map_filter extract_mouse_event events"

definition calculate_distance :: "'f f32ops \<Rightarrow> mouse_position \<Rightarrow> mouse_position \<Rightarrow> 'f" where
  "calculate_distance F p1 p2 =
     (let dx = f_of_int F (sint (pos_x p2 - pos_x p1)); dy = f_of_int F (sint (pos_y p2 - pos_y p1))
      in f_sqrt F (f_add F (f_mul F dx dx) (f_mul F dy dy)))"

definition perpendicular_distance ::
  "'f f32ops \<Rightarrow> mouse_position \<Rightarrow> mouse_position \<Rightarrow> mouse_position \<Rightarrow> 'f" where
  "perpendicular_distance F point line_start line_end =
     (let a = f_of_int F (sint (pos_y line_end - pos_y line_start));
          b = f_of_int F (sint (pos_x line_start - pos_x line_end));
          c = f_of_int F (sint (pos_x line_end * pos_y line_start - pos_x line_start * pos_y line_end));
          numerator = f_abs F (f_add F (f_add F (f_mul F a (f_of_int F (sint (pos_x point))))
                                          (f_mul F b (f_of_int F (sint (pos_y point))))) c);
          denominator = f_sqrt F (f_add F (f_mul F a a) (f_mul F b b))
      in if f_eq F denominator (f_of_int F 0) then f_of_int F 0 else f_div F numerator denominator)"

text \<open>The search loop of \<open>douglas_peucker\<close>: the distance and index of the farthest inner point.\<close>

definition farthest :: "'f f32ops \<Rightarrow> mouse_position list \<Rightarrow> 'f \<times> nat" where
  "farthest F points =
     foldl (\<lambda>(max_distance, max_index) i.
        let distance = perpendicular_distance F (points ! i) (points ! 0) (points ! (length points - 1))
        in if f_lt F max_distance distance then (distance, i) else (max_distance, max_index))
       (f_of_int F 0, 0) [1..<length points - 1]"

partial_function (option) douglas_peucker ::
  "'f f32ops \<Rightarrow> 'f \<Rightarrow> mouse_position list \<Rightarrow> mouse_position list option" where
  "douglas_peucker F epsilon points =
     (if length points \<le> 2 then Some points
      else let (max_distance, max_index) = farthest F points
           in if f_lt F epsilon max_distance
              then Option.bind (douglas_peucker F epsilon (take (max_index + 1) points))
                     (\<lambda>left. Option.bind (douglas_peucker F epsilon (drop max_index points))
                        (\<lambda>right. Some (butlast left @ right)))
              else Some [points ! 0, points ! (length points - 1)])"

declare douglas_peucker.simps [code]

fun pairs :: "'a list \<Rightarrow> ('a \<times> 'a) list" where
  "pairs (x # y # zs) = (x, y) # pairs (y # zs)"
| "pairs _ = []"

definition calculate_path_distance :: "'f f32ops \<Rightarrow> mouse_position list \<Rightarrow> 'f" where
  "calculate_path_distance F positions =
     foldl (f_add F) (f_sum_init F) (map (\<lambda>(p, q). calculate_distance F p q) (pairs positions))"

definition calculate_max_velocity :: "'f f32ops \<Rightarrow> (instant \<times> mouse_position) list \<Rightarrow> 'f" where
  "calculate_max_velocity F path =
     foldl (f_max F) (f_of_int F 0)
       (map (\<lambda>((t, p), (t', q)).
          let distance = calculate_distance F p q;
              time_ms = f_of_int F (max (num_milliseconds (t' - t)) 1)
          in f_mul F (f_div F distance time_ms) (f_of_int F 1000)) (pairs path))"

type_synonym path_point = "u64 \<times> instant \<times> mouse_position"

text \<open>\<open>build_trajectory\<close>; it is called on paths of at least three points only.\<close>

definition build_trajectory ::
  "'f f32ops \<Rightarrow> path_point list \<Rightarrow> mouse_trajectory_type \<Rightarrow> 'f compact_mouse_trajectory option" where
  "build_trajectory F path trajectory_type =
     (let positions = map (\<lambda>(_, _, p). p) path
      in Option.bind (douglas_peucker F (f_of_int F 2) positions) (\<lambda>simplified_path.
        Some \<lparr> mt_start_time = fst (snd (hd path)), mt_end_time = fst (snd (last path)),
               mt_event_type = trajectory_type,
               mt_start_position = snd (snd (hd path)), mt_end_position = snd (snd (last path)),
               mt_simplified_path = simplified_path,
               mt_total_distance = calculate_path_distance F positions,
               mt_max_velocity = calculate_max_velocity F (map snd path),
               mt_raw_event_ids = raw_event_pointer_new DEFAULT_RAW_EVENT_TABLE (map fst path) \<rparr>))"

text \<open>
  The loop of \<open>compress\<close>.  \<open>cur\<close> is \<open>None\<close> while \<open>current_path\<close> is empty; the type belongs to the
  point pushed last.  The loop lists the paths it finalizes.
\<close>

definition mouse_cut :: "'f f32ops \<Rightarrow> path_point list \<times> mouse_trajectory_type \<Rightarrow> mouse_event \<Rightarrow> bool" where
  "mouse_cut F = (\<lambda>(path, current_type) (event_id, timestamp, position, trajectory_type).
     let (_, last_time, last_pos) = last path
     in mouse_max_gap_ms < num_milliseconds (timestamp - last_time)
        \<or> f_lt F (calculate_distance F last_pos position) (f_of_int F 5)
        \<or> current_type \<noteq> trajectory_type)"

definition finished_path ::
  "path_point list \<times> mouse_trajectory_type \<Rightarrow> (path_point list \<times> mouse_trajectory_type) list" where
  "finished_path pt = (if 2 < length (fst pt) then [pt] else [])"

fun mouse_loop ::
  "'f f32ops \<Rightarrow> (path_point list \<times> mouse_trajectory_type) option \<Rightarrow> mouse_event list \<Rightarrow>
   (path_point list \<times> mouse_trajectory_type) list" where
  "mouse_loop F cur [] = (case cur of None \<Rightarrow> [] | Some pt \<Rightarrow> finished_path pt)"
| "mouse_loop F cur ((i, ts, p, ty) # es) = (case cur of
      None \<Rightarrow> mouse_loop F (Some ([(i, ts, p)], ty)) es
    | Some pt \<Rightarrow>
        if mouse_cut F pt (i, ts, p, ty)
        then finished_path pt @ mouse_loop F (Some ([(i, ts, p)], ty)) es
        else mouse_loop F (Some (fst pt @ [(i, ts, p)], ty)) es)"

fun collect_some :: "'a option list \<Rightarrow> 'a list option" where
  "collect_some [] = Some []"
| "collect_some (x # xs) = Option.bind x (\<lambda>y. Option.bind (collect_some xs) (\<lambda>ys. Some (y # ys)))"

definition mouse_can_compress :: "raw_event list \<Rightarrow> bool" where
  "mouse_can_compress events = (2 < length (extract_mouse_events events))"

definition mouse_compress :: "'f f32ops \<Rightarrow> raw_event list \<Rightarrow> 'f compact_mouse_trajectory list option" where
  "mouse_compress F events =
     (let mouse_events = extract_mouse_events events
      in if length mouse_events < 3 then Some []
         else collect_some (map (\<lambda>(path, ty). build_trajectory F path ty) (mouse_loop F None mouse_events)))"

section \<open>Keyboard activity\<close>

type_synonym key_event = "u64 \<times> instant"

definition keyboard_max_gap_ms :: int where "keyboard_max_gap_ms = 30000"

definition extract_keyboard_event :: "raw_event \<Rightarrow> key_event option" where
  "extract_keyboard_event ev = (case ev of RawKeyboardInput ts i _ \<Rightarrow> Some (i, ts) | _ \<Rightarrow> None)"

definition extract_keyboard_events :: "raw_event list \<Rightarrow> key_event list" where
  "extract_keyboard_events events = List.map_filter extract_keyboard_event events"

definition keyboard_can_compress :: "raw_event list \<Rightarrow> bool" where
  "keyboard_can_compress events =
     list_ex (\<lambda>e. case e of RawKeyboardInput _ _ _ \<Rightarrow> True | _ \<Rightarrow> False) events"

definition keyboard_flush ::
  "'f f32ops \<Rightarrow> instant \<times> instant \<times> u64 list \<Rightarrow> 'f compact_keyboard_activity" where
  "keyboard_flush F = (\<lambda>(group_start, group_end, group_ids).
     let duration_secs = f_of_int F (max (num_seconds (group_end - group_start)) 1);
         keystrokes = (of_nat (length group_ids) :: u32)
     in \<lparr> ka_start_time = group_start, ka_end_time = group_end, ka_keystrokes = keystrokes,
          ka_keys_per_minute = f_div F (f_of_int F (uint keystrokes)) (f_div F duration_secs (f_of_int F 60)),
          ka_density_per_sec = f_div F (f_of_int F (uint keystrokes)) duration_secs,
          ka_raw_event_ids = raw_event_pointer_new DEFAULT_RAW_EVENT_TABLE group_ids \<rparr>)"

fun keyboard_loop ::
  "'f f32ops \<Rightarrow> instant \<times> instant \<times> u64 list \<Rightarrow> key_event list \<Rightarrow> 'f compact_keyboard_activity list" where
  "keyboard_loop F g [] = [keyboard_flush F g]"
| "keyboard_loop F (group_start, group_end, group_ids) ((i, ts) # es) =
     (if num_milliseconds (ts - group_end) \<le> keyboard_max_gap_ms
      then keyboard_loop F (group_start, ts, group_ids @ [i]) es
      else keyboard_flush F (group_start, group_end, group_ids) # keyboard_loop F (ts, ts, [i]) es)"

definition keyboard_compress :: "'f f32ops \<Rightarrow> raw_event list \<Rightarrow> 'f compact_keyboard_activity list" where
  "keyboard_compress F events = (case sort_key snd (extract_keyboard_events events) of
      [] \<Rightarrow> []
    | (i, ts) # es \<Rightarrow> keyboard_loop F (ts, ts, [i]) es)"

section \<open>Focus events\<close>

definition focus_can_compress :: "raw_event list \<Rightarrow> bool" where
  "focus_can_compress events =
     list_ex (\<lambda>e. case e of RawWindowFocusChange _ _ _ \<Rightarrow> True | _ \<Rightarrow> False) events"

fun focus_compress :: "string_interner \<Rightarrow> raw_event list \<Rightarrow> string_interner \<times> compact_focus_event list" where
  "focus_compress si [] = (si, [])"
| "focus_compress si (RawWindowFocusChange ts i fi # es) =
     (let (si1, app_name_id) = intern_string si (fi_app_name fi);
          (si2, window_title_id) = intern_string si1 (fi_window_title fi);
          (si3, out) = focus_compress si2 es
      in (si3, \<lparr> cf_timestamp = ts, cf_app_name_id = app_name_id, cf_window_title_id = window_title_id,
                 cf_pid = fi_pid fi, cf_window_position = fi_window_position fi,
                 cf_raw_event_ids = raw_event_pointer_new DEFAULT_RAW_EVENT_TABLE [i] \<rparr> # out))"
| "focus_compress si (_ # es) = focus_compress si es"

section \<open>The engine\<close>

record compression_engine =
  ce_interner :: string_interner
  ce_total_compact_events :: u64
  ce_total_compact_events_bytes :: u64

definition engine_with_focus_cap :: "nat \<Rightarrow> compression_engine" where
  "engine_with_focus_cap max_strings =
     \<lparr> ce_interner = interner_with_cap max_strings, ce_total_compact_events = 0,
       ce_total_compact_events_bytes = 0 \<rparr>"

text \<open>\<open>compress_events\<close> always returns \<open>Ok\<close>; \<open>None\<close> is a run that does not return.\<close>

definition compress_events ::
  "'f f32ops \<Rightarrow> layout \<Rightarrow> compression_engine \<Rightarrow> raw_event list \<Rightarrow>
   (compression_engine \<times> raw_event list \<times> 'f compact_event list) option" where
  "compress_events F L eng raw_events =
     (if raw_events = [] then Some (eng, [], [])
      else Option.bind (if mouse_can_compress raw_events then mouse_compress F raw_events else Some [])
        (\<lambda>trajectories.
          let scrolls = (if scroll_can_compress raw_events then scroll_compress raw_events else []);
              keys = (if keyboard_can_compress raw_events then keyboard_compress F raw_events else []);
              (si, foci) = (if focus_can_compress raw_events then focus_compress (ce_interner eng) raw_events
                            else (ce_interner eng, []));
              compact = map CScroll scrolls @ map CMouseTrajectory trajectories @ map CKeyboard keys @ map CFocus foci
          in Some (eng\<lparr> ce_interner := si,
                        ce_total_compact_events_bytes :=
                          foldl (\<lambda>b e. b + memory_size L e) (ce_total_compact_events_bytes eng) compact,
                        ce_total_compact_events := ce_total_compact_events eng + of_nat (length compact) \<rparr>,
                   raw_events, compact)))"

section \<open>Specification\<close>

text \<open>When neighbours belong to one run, and what the summary of a run is.\<close>

fun scroll_rel :: "scroll_event \<Rightarrow> scroll_event \<Rightarrow> bool" where
  "scroll_rel (_, t, _, a, _, x) (_, t', _, a', _, x') \<longleftrightarrow>
     infer_scroll_direction a x = infer_scroll_direction a' x' \<and> num_milliseconds (t' - t) < 500"

definition scroll_summary :: "scroll_event list \<Rightarrow> compact_scroll_sequence" where
  "scroll_summary g =
     (case hd g of (_, t, p, a, _, x) \<Rightarrow> case last g of (_, t', _) \<Rightarrow>
       \<lparr> ss_start_time = t, ss_end_time = t', ss_direction = infer_scroll_direction a x,
         ss_total_amount = sum_list (map (\<lambda>(_, _, _, a, _). a) g),
         ss_total_rotation = sum_list (map (\<lambda>(_, _, _, _, r, _). r) g),
         ss_scroll_count = of_nat (length g), ss_position = p,
         ss_raw_event_ids = raw_event_pointer_new DEFAULT_RAW_EVENT_TABLE (map fst g) \<rparr>)"

fun keyboard_rel :: "key_event \<Rightarrow> key_event \<Rightarrow> bool" where
  "keyboard_rel (_, t) (_, t') \<longleftrightarrow> num_milliseconds (t' - t) \<le> 30000"

definition keyboard_group :: "key_event list \<Rightarrow> instant \<times> instant \<times> u64 list" where
  "keyboard_group g = (snd (hd g), snd (last g), map fst g)"

definition keyboard_scan ::
  "'f f32ops \<Rightarrow> (instant \<times> instant \<times> u64 list) option \<Rightarrow> key_event list \<Rightarrow> 'f compact_keyboard_activity list" where
  "keyboard_scan F cur es = (case cur of
      None \<Rightarrow> (case es of [] \<Rightarrow> [] | (i, ts) # es' \<Rightarrow> keyboard_loop F (ts, ts, [i]) es')
    | Some g \<Rightarrow> keyboard_loop F g es)"

fun mouse_rel :: "'f f32ops \<Rightarrow> mouse_event \<Rightarrow> mouse_event \<Rightarrow> bool" where
  "mouse_rel F (_, t, p, ty) (_, t', p', ty') \<longleftrightarrow>
     num_milliseconds (t' - t) \<le> 200 \<and> \<not> f_lt F (calculate_distance F p p') (f_of_int F 5) \<and> ty = ty'"

definition mouse_path :: "mouse_event list \<Rightarrow> path_point list \<times> mouse_trajectory_type" where
  "mouse_path g = (map (\<lambda>(i, t, p, _). (i, t, p)) g, snd (snd (snd (last g))))"

definition pointer_ids :: "raw_event_pointer option \<Rightarrow> u64 list" where
  "pointer_ids p = (case p of None \<Rightarrow> [] | Some l \<Rightarrow> ptr_ids l)"

fun compact_raw_ids :: "'f compact_event \<Rightarrow> u64 list" where
  "compact_raw_ids (CScroll s) = pointer_ids (ss_raw_event_ids s)"
| "compact_raw_ids (CMouseTrajectory t) = pointer_ids (mt_raw_event_ids t)"
| "compact_raw_ids (CKeyboard k) = pointer_ids (ka_raw_event_ids k)"
| "compact_raw_ids (CFocus f) = pointer_ids (cf_raw_event_ids f)"

section \<open>Lemmas: the loops group\<close>

lemma pointer_ids_new [simp]: "pointer_ids (raw_event_pointer_new t ids) = ids"
  by (simp add: pointer_ids_def raw_event_pointer_new_def)

lemma scroll_chain_direction:
  "chain scroll_rel g \<Longrightarrow> g \<noteq> [] \<Longrightarrow>
     (case hd g of (_, _, _, a, _, x) \<Rightarrow> infer_scroll_direction a x) =
     (case last g of (_, _, _, a, _, x) \<Rightarrow> infer_scroll_direction a x)"
proof (induction g)
  case (Cons e g)
  then show ?case
    by (cases "g = []") (auto simp: chain_Cons split: prod.splits)
qed simp

interpretation scroll: grouping_loop scroll_rel scroll_start scroll_joins scroll_extend
  "\<lambda>s. [s]" scroll_loop scroll_summary
proof unfold_locales
  show "scroll_start e = scroll_summary [e]" for e
    by (cases e) (simp add: scroll_start_def scroll_summary_def)
next
  fix g :: "scroll_event list" and e :: scroll_event
  assume g: "g \<noteq> []" "chain scroll_rel g"
  obtain i t p a r x where e: "e = (i, t, p, a, r, x)" by (cases e)
  show "scroll_joins (scroll_summary g) e = scroll_rel (last g) e"
    using scroll_chain_direction [OF g(2,1)]
    by (auto simp: e scroll_joins_def scroll_summary_def scroll_max_gap_ms_def split: prod.splits)
  show "scroll_extend (scroll_summary g) e = scroll_summary (g @ [e])"
    using g(1) by (auto simp: e scroll_extend_def scroll_summary_def raw_event_pointer_new_def hd_append
        split: prod.splits)
qed (simp_all split: option.split)

lemma keyboard_rel_snd: "keyboard_rel e e' \<longleftrightarrow> num_milliseconds (snd e' - snd e) \<le> 30000"
  by (cases e; cases e') simp

interpretation keyboard: grouping_loop keyboard_rel "\<lambda>(i, ts). (ts, ts, [i])"
  "\<lambda>(s, e, ids) (i, ts). num_milliseconds (ts - e) \<le> keyboard_max_gap_ms"
  "\<lambda>(s, e, ids) (i, ts). (s, ts, ids @ [i])" "\<lambda>g. [keyboard_flush F g]" "keyboard_scan F" keyboard_group
  for F :: "'f f32ops"
proof unfold_locales
  show "keyboard_scan F (Some a) (e # es) =
      (if (\<lambda>(s, e, ids) (i, ts). num_milliseconds (ts - e) \<le> keyboard_max_gap_ms) a e
       then keyboard_scan F (Some ((\<lambda>(s, e, ids) (i, ts). (s, ts, ids @ [i])) a e)) es
       else [keyboard_flush F a] @ keyboard_scan F (Some ((\<lambda>(i, ts). (ts, ts, [i])) e)) es)" for a e es
    by (cases a; cases e) (simp add: keyboard_scan_def)
qed (auto simp: keyboard_scan_def keyboard_group_def keyboard_max_gap_ms_def keyboard_rel_snd split: prod.splits)

lemma mouse_path_snoc:
  "g \<noteq> [] \<Longrightarrow> mouse_path (g @ [(i, t, p, ty)]) = (fst (mouse_path g) @ [(i, t, p)], ty)"
  by (simp add: mouse_path_def)

interpretation mouse: grouping_loop "mouse_rel F" "\<lambda>(i, ts, p, ty). ([(i, ts, p)], ty)"
  "\<lambda>a e. \<not> mouse_cut F a e" "\<lambda>(path, _) (i, ts, p, ty). (path @ [(i, ts, p)], ty)"
  finished_path "mouse_loop F" mouse_path
  for F :: "'f f32ops"
proof unfold_locales
  fix g :: "mouse_event list" and e :: mouse_event
  assume g: "g \<noteq> []" "chain (mouse_rel F) g"
  obtain i t p ty where e: "e = (i, t, p, ty)" by (cases e)
  obtain i' t' p' ty' where l: "last g = (i', t', p', ty')" by (cases "last g")
  show "(\<not> mouse_cut F (mouse_path g) e) = mouse_rel F (last g) e"
    using g(1) l by (auto simp: e mouse_cut_def mouse_path_def last_map mouse_max_gap_ms_def)
  show "(\<lambda>(path, _) (i, ts, p, ty). (path @ [(i, ts, p)], ty)) (mouse_path g) e = mouse_path (g @ [e])"
    using g(1) by (simp add: e mouse_path_snoc split: prod.split)
next
  show "mouse_loop F (Some a) (e # es) =
      (if \<not> mouse_cut F a e
       then mouse_loop F (Some ((\<lambda>(path, _) (i, ts, p, ty). (path @ [(i, ts, p)], ty)) a e)) es
       else finished_path a @ mouse_loop F (Some ((\<lambda>(i, ts, p, ty). ([(i, ts, p)], ty)) e)) es)" for a e es
    by (cases a; cases e) simp
qed (auto simp: mouse_path_def split: prod.splits)

section \<open>Lemmas: Douglas-Peucker\<close>

text \<open>The search loop ends in its start value or at an inner point.\<close>

lemma farthest_index:
  "farthest F points = (d, i) \<Longrightarrow> (d = f_of_int F 0 \<and> i = 0) \<or> (1 \<le> i \<and> i < length points - 1)"
proof -
  have "(case foldl (\<lambda>(m, k) i. let x = g i in if f_lt F m x then (x, i) else (m, k)) (z, 0) ks of
      (d, i) \<Rightarrow> (d = z \<and> i = 0) \<or> i \<in> set ks)" for g z and ks :: "nat list"
    by (induction ks rule: rev_induct) (auto simp: Let_def split: prod.splits)
  from this [where g = "\<lambda>i. perpendicular_distance F (points ! i) (points ! 0) (points ! (length points - 1))"
      and z = "f_of_int F 0" and ks = "[1..<length points - 1]"]
  show "farthest F points = (d, i) \<Longrightarrow> ?thesis" by (auto simp: farthest_def)
qed

definition simplifies :: "mouse_position list \<Rightarrow> mouse_position list \<Rightarrow> bool" where
  "simplifies r points \<longleftrightarrow> subseq r points \<and>
     (points \<noteq> [] \<longrightarrow> r \<noteq> [] \<and> hd r = hd points \<and> last r = last points) \<and>
     (2 \<le> length points \<longrightarrow> 2 \<le> length r)"

lemma simplifies_ends:
  "3 \<le> length points \<Longrightarrow> simplifies [points ! 0, points ! (length points - 1)] points"
proof -
  assume l: "3 \<le> length points"
  then obtain x xs y where p: "points = x # xs @ [y]"
    by (cases points; cases "tl points" rule: rev_cases) auto
  have "subseq [x, y] (x # xs @ [y])"
    by (simp add: list_emb_append2)
  with p show ?thesis by (simp add: simplifies_def)
qed

lemma simplifies_join:
  assumes k: "0 < k" "k + 1 < length points"
    and l: "simplifies left (take (k + 1) points)" and r: "simplifies right (drop k points)"
  shows "simplifies (butlast left @ right) points"
proof -
  have tk: "take (k + 1) points = take k points @ [points ! k]"
    using k by (simp add: take_Suc_conv_app_nth)
  have "last (take (k + 1) points) = points ! k" using tk by simp
  then have ne: "left \<noteq> []" "right \<noteq> []" and ends: "hd left = hd points" "last left = points ! k" "last right = last points"
    and len: "2 \<le> length left" "2 \<le> length right"
    using l r k by (auto simp: simplifies_def tk hd_append hd_take)
  have "left = butlast left @ [points ! k]" using ne(1) ends(2) by (metis append_butlast_last_id)
  then have "subseq (butlast left @ [points ! k]) (take k points @ [points ! k])"
    using l tk by (simp add: simplifies_def)
  then have "subseq (butlast left) (take k points)" by simp
  moreover have "subseq right (drop k points)" using r by (simp add: simplifies_def)
  ultimately have "subseq (butlast left @ right) (take k points @ drop k points)"
    by (rule list_emb_append_mono)
  then have "subseq (butlast left @ right) points" by simp
  moreover have "hd (butlast left @ right) = hd points"
    using len(1) ends(1) by (cases left; cases "tl left") (auto simp: hd_append)
  moreover have "last (butlast left @ right) = last points" using ne(2) ends(3) by simp
  ultimately show ?thesis using ne(2) len by (auto simp: simplifies_def)
qed

lemma douglas_peucker_returns:
  assumes eps: "\<not> f_lt F epsilon (f_of_int F 0)"
  shows "\<exists>r. douglas_peucker F epsilon points = Some r \<and> simplifies r points"
proof (induction points rule: length_induct)
  case (1 points)
  show ?case
  proof (cases "length points \<le> 2")
    case True
    then show ?thesis by (subst douglas_peucker.simps) (simp add: simplifies_def)
  next
    case False
    obtain d k where f: "farthest F points = (d, k)" by force
    show ?thesis
    proof (cases "f_lt F epsilon d")
      case True
      with eps farthest_index [OF f] have k: "0 < k" "k + 1 < length points" by auto
      obtain left where left: "douglas_peucker F epsilon (take (k + 1) points) = Some left"
        "simplifies left (take (k + 1) points)" using 1 k by force
      obtain right where right: "douglas_peucker F epsilon (drop k points) = Some right"
        "simplifies right (drop k points)" using 1 k by force
      have "douglas_peucker F epsilon points = Some (butlast left @ right)"
        using False f True left(1) right(1) by (subst douglas_peucker.simps) simp
      with simplifies_join [OF k left(2) right(2)] show ?thesis by blast
    next
      case no: False
      have "douglas_peucker F epsilon points = Some [points ! 0, points ! (length points - 1)]"
        using False f no by (subst douglas_peucker.simps) simp
      with simplifies_ends [of points] False show ?thesis by auto
    qed
  qed
qed

section \<open>Lemmas: the interner\<close>

definition interner_inv :: "string_interner \<Rightarrow> bool" where
  "interner_inv si \<longleftrightarrow> distinct (si_strings si) \<and> length (si_strings si) \<le> si_max_strings si \<and>
     0 < si_max_strings si \<and>
     (\<forall>s i. map_of (si_lookup si) s = Some i \<longleftrightarrow>
        (\<exists>n. n < length (si_strings si) \<and> si_strings si ! n = s \<and> i = of_nat n))"

lemma interner_with_cap_inv [kronical_inv]: "interner_inv (interner_with_cap n)"
  by (simp add: interner_inv_def interner_with_cap_def)

lemma intern_string_append:
  assumes inv: "interner_inv si" and new: "map_of (si_lookup si) s = None"
    and room: "length (si_strings si) < si_max_strings si"
  shows "interner_inv (si\<lparr> si_strings := si_strings si @ [s],
     si_lookup := hm_insert s (of_nat (length (si_strings si))) (si_lookup si) \<rparr>)"
proof -
  have fresh: "s \<notin> set (si_strings si)"
    using inv new unfolding interner_inv_def in_set_conv_nth by (metis option.distinct(1))
  have "(map_of (hm_insert s (of_nat (length (si_strings si))) (si_lookup si)) s' = Some i) \<longleftrightarrow>
      (\<exists>n. n < Suc (length (si_strings si)) \<and> (si_strings si @ [s]) ! n = s' \<and> i = of_nat n)" for s' i
  proof (cases "s' = s")
    case True
    have "(si_strings si @ [s]) ! n = s \<Longrightarrow> n < Suc (length (si_strings si)) \<Longrightarrow> n = length (si_strings si)" for n
      using fresh by (auto simp: nth_append less_Suc_eq split: if_splits)
    then show ?thesis using True by auto
  next
    case False
    then show ?thesis using inv by (auto simp: interner_inv_def nth_append less_Suc_eq)
  qed
  with inv fresh room show ?thesis by (simp add: interner_inv_def)
qed

lemma interner_reset_inv: "interner_inv si \<Longrightarrow> interner_inv (si\<lparr> si_strings := [], si_lookup := [] \<rparr>)"
  by (simp add: interner_inv_def)

lemma intern_string_fresh:
  assumes "map_of (si_lookup si) s = None"
  shows "\<exists>si1. (si1 = si \<or> si1 = si\<lparr> si_strings := [], si_lookup := [] \<rparr>)
    \<and> (length (si_strings si) \<le> si_max_strings si \<and> 0 < si_max_strings si \<longrightarrow> length (si_strings si1) < si_max_strings si1)
    \<and> intern_string si s = (si1\<lparr> si_strings := si_strings si1 @ [s],
         si_lookup := hm_insert s (of_nat (length (si_strings si1))) (si_lookup si1) \<rparr>, of_nat (length (si_strings si1)))"
  by (rule exI [of _ "if si_max_strings si \<le> length (si_strings si) then si\<lparr> si_strings := [], si_lookup := [] \<rparr> else si"])
     (use assms in \<open>simp add: intern_string_def Let_def\<close>)

lemma intern_string_correct:
  assumes inv: "interner_inv si" and r: "intern_string si s = (si', i)"
  shows "interner_inv si' \<and> (\<exists>n. n < length (si_strings si') \<and> si_strings si' ! n = s \<and> i = of_nat n)"
proof (cases "map_of (si_lookup si) s")
  case (Some j)
  then have si: "si' = si" "i = j" using r by (simp_all add: intern_string_def)
  moreover have "\<exists>n. n < length (si_strings si) \<and> si_strings si ! n = s \<and> j = of_nat n"
    using inv Some unfolding interner_inv_def by blast
  ultimately show ?thesis using inv by simp
next
  case None
  obtain si1 where si1: "si1 = si \<or> si1 = si\<lparr> si_strings := [], si_lookup := [] \<rparr>"
    "length (si_strings si1) < si_max_strings si1"
    "si' = si1\<lparr> si_strings := si_strings si1 @ [s],
         si_lookup := hm_insert s (of_nat (length (si_strings si1))) (si_lookup si1) \<rparr>"
    "i = of_nat (length (si_strings si1))"
    using intern_string_fresh [OF None] r inv by (auto simp: interner_inv_def)
  have "interner_inv si1" "map_of (si_lookup si1) s = None"
    using si1(1) inv None interner_reset_inv by auto
  then have "interner_inv si'" unfolding si1(3) by (rule intern_string_append [OF _ _ si1(2)])
  moreover have "length (si_strings si1) < length (si_strings si')"
    "si_strings si' ! length (si_strings si1) = s" by (simp_all add: si1(3))
  ultimately show ?thesis using si1(4) by blast
qed

section \<open>Lemmas: the engine\<close>

lemma collect_some_all: "list_all (\<lambda>x. x \<noteq> None) xs \<Longrightarrow> collect_some xs = Some (map the xs)"
  by (induction xs) auto

lemma mouse_loop_paths:
  "(path, ty) \<in> set (mouse_loop F None es) \<Longrightarrow>
     \<exists>g. g \<in> set (group_adj (mouse_rel F) es) \<and> (path, ty) = mouse_path g \<and> 2 < length g"
  by (auto simp: mouse.loop_groups finished_path_def mouse_path_def split: if_splits)

lemma build_trajectory_returns:
  assumes "\<not> f_lt F (f_of_int F 2) (f_of_int F 0)"
  shows "\<exists>t. build_trajectory F path ty = Some t \<and> pointer_ids (mt_raw_event_ids t) = map fst path
    \<and> simplifies (mt_simplified_path t) (map (\<lambda>(_, _, p). p) path)"
proof -
  obtain r where "douglas_peucker F (f_of_int F 2) (map (\<lambda>(_, _, p). p) path) = Some r"
    "simplifies r (map (\<lambda>(_, _, p). p) path)"
    using douglas_peucker_returns [OF assms] by blast
  then show ?thesis by (simp add: build_trajectory_def)
qed

lemma mouse_compress_returns:
  assumes "\<not> f_lt F (f_of_int F 2) (f_of_int F 0)"
  shows "mouse_compress F events = Some (if length (extract_mouse_events events) < 3 then []
    else map (\<lambda>(path, ty). the (build_trajectory F path ty)) (mouse_loop F None (extract_mouse_events events)))"
proof -
  have "list_all (\<lambda>x. x \<noteq> None) (map (\<lambda>(path, ty). build_trajectory F path ty) es)" for es
    using build_trajectory_returns [OF assms] by (fastforce simp: list_all_iff)
  then show ?thesis
    by (simp add: mouse_compress_def Let_def collect_some_all comp_def case_prod_unfold)
qed

text \<open>The raw events a compact event points to are events of the batch.\<close>

lemma set_map_filter_ids:
  assumes "\<And>e x. f e = Some x \<Longrightarrow> fst x = raw_event_id e"
  shows "fst ` set (List.map_filter f events) \<subseteq> raw_event_id ` set events"
  using assms by (fastforce simp: List.map_filter_def image_iff)

lemma extract_ids:
  "fst ` set (extract_scroll_events events) \<subseteq> raw_event_id ` set events"
  "fst ` set (extract_mouse_events events) \<subseteq> raw_event_id ` set events"
  "fst ` set (extract_keyboard_events events) \<subseteq> raw_event_id ` set events"
  unfolding extract_scroll_events_def extract_mouse_events_def extract_keyboard_events_def
  by (rule set_map_filter_ids; auto simp: extract_scroll_event_def extract_mouse_event_def
      extract_keyboard_event_def Let_def
      split: raw_event.splits option.splits mouse_event_kind.splits)+

lemma group_adj_subset: "g \<in> set (group_adj r es) \<Longrightarrow> set g \<subseteq> set es"
  using group_adj_runs [of r es] unfolding maximal_runs_def by (metis concat_eq_append_conv UN_upper set_concat)

lemma group_adj_nonempty: "g \<in> set (group_adj r es) \<Longrightarrow> g \<noteq> []"
  using group_adj_runs [of r es] by (auto simp: maximal_runs_def list_all_iff)

lemma scroll_compress_groups:
  "scroll_compress events = map scroll_summary (group_adj scroll_rel (extract_scroll_events events))"
  by (simp add: scroll_compress_def Let_def scroll.loop_groups concat_map_singleton)

lemma keyboard_compress_groups:
  "keyboard_compress F events =
     map (\<lambda>g. keyboard_flush F (keyboard_group g)) (group_adj keyboard_rel (sort_key snd (extract_keyboard_events events)))"
proof -
  have "keyboard_compress F events = keyboard_scan F None (sort_key snd (extract_keyboard_events events))"
    by (simp add: keyboard_compress_def keyboard_scan_def)
  then show ?thesis by (simp only: keyboard.loop_groups concat_map_singleton)
qed

lemma scroll_ids: "pointer_ids (ss_raw_event_ids (scroll_summary g)) = map fst g"
  by (simp add: scroll_summary_def split: prod.split)

lemma keyboard_ids: "pointer_ids (ka_raw_event_ids (keyboard_flush F (keyboard_group g))) = map fst g"
  by (simp add: keyboard_flush_def keyboard_group_def Let_def)

lemma focus_ids:
  "map (\<lambda>f. pointer_ids (cf_raw_event_ids f)) (snd (focus_compress si events)) =
     map (\<lambda>e. [raw_event_id e]) (filter (\<lambda>e. \<not> is_input e) events)"
proof (induction events arbitrary: si)
  case (Cons e es)
  then show ?case by (cases e) (simp_all add: Let_def split_beta)
qed simp

lemma scroll_compress_ids:
  "list_all (\<lambda>x. set (pointer_ids (ss_raw_event_ids x)) \<subseteq> raw_event_id ` set raw) (scroll_compress raw)"
  using extract_ids(1) [of raw] group_adj_subset
  by (fastforce simp: scroll_compress_groups list.pred_map comp_def scroll_ids list_all_iff)

lemma keyboard_compress_ids:
  "list_all (\<lambda>x. set (pointer_ids (ka_raw_event_ids x)) \<subseteq> raw_event_id ` set raw) (keyboard_compress F raw)"
proof -
  have "set g \<subseteq> set (extract_keyboard_events raw)"
    if "g \<in> set (group_adj keyboard_rel (sort_key snd (extract_keyboard_events raw)))" for g
    using group_adj_subset [OF that] by simp
  with extract_ids(3) [of raw] show ?thesis
    by (fastforce simp: keyboard_compress_groups list.pred_map comp_def keyboard_ids list_all_iff)
qed

lemma focus_compress_ids:
  "list_all (\<lambda>x. set (pointer_ids (cf_raw_event_ids x)) \<subseteq> raw_event_id ` set raw) (snd (focus_compress si raw))"
proof -
  have "list_all (\<lambda>l. set l \<subseteq> raw_event_id ` set raw)
      (map (\<lambda>f. pointer_ids (cf_raw_event_ids f)) (snd (focus_compress si raw)))"
    unfolding focus_ids by (simp add: list_all_iff)
  then show ?thesis by (simp add: list.pred_map comp_def)
qed

lemma intern_string_cap: "si_max_strings (fst (intern_string si s)) = si_max_strings si"
  by (simp add: intern_string_def Let_def split: option.split)

definition trajectory_of :: "mouse_event list \<Rightarrow> 'f compact_mouse_trajectory \<Rightarrow> bool" where
  "trajectory_of g t \<longleftrightarrow> pointer_ids (mt_raw_event_ids t) = map fst g
     \<and> simplifies (mt_simplified_path t) (map (\<lambda>(_, _, p, _). p) g)
     \<and> mt_start_time t = fst (snd (hd g)) \<and> mt_end_time t = fst (snd (last g))
     \<and> mt_event_type t = snd (snd (snd (last g)))"

lemma build_trajectory_of:
  assumes "\<not> f_lt F (f_of_int F 2) (f_of_int F 0)" and "g \<noteq> []"
  shows "trajectory_of g (the (build_trajectory F (fst (mouse_path g)) (snd (mouse_path g))))"
proof -
  have pos: "map (\<lambda>(_, _, p). p) (fst (mouse_path g)) = map (\<lambda>(_, _, p, _). p) g"
    "map fst (fst (mouse_path g)) = map fst g"
    by (auto simp: mouse_path_def)
  obtain t where t: "build_trajectory F (fst (mouse_path g)) (snd (mouse_path g)) = Some t"
    "pointer_ids (mt_raw_event_ids t) = map fst g"
    "simplifies (mt_simplified_path t) (map (\<lambda>(_, _, p, _). p) g)"
    using build_trajectory_returns [OF assms(1), of "fst (mouse_path g)" "snd (mouse_path g)"] pos by auto
  moreover have "mt_start_time t = fst (snd (hd g))" "mt_end_time t = fst (snd (last g))"
    "mt_event_type t = snd (snd (snd (last g)))"
    using t(1) assms(2) by (auto simp: build_trajectory_def Let_def mouse_path_def hd_map last_map
        split: Option.bind_splits prod.splits)
  ultimately show ?thesis by (simp add: trajectory_of_def)
qed

lemma mouse_loop_filter:
  "mouse_loop F None es = map mouse_path (filter (\<lambda>g. 2 < length g) (group_adj (mouse_rel F) es))"
proof -
  have "concat (map (\<lambda>g. finished_path (mouse_path g)) gs) = map mouse_path (filter (\<lambda>g. 2 < length g) gs)" for gs
    by (induction gs) (auto simp: finished_path_def mouse_path_def)
  then show ?thesis by (simp add: mouse.loop_groups)
qed

lemma short_no_groups:
  assumes "length es < 3"
  shows "filter (\<lambda>g. 2 < length g) (group_adj r es) = []"
proof -
  have "length g \<le> length es" if "g \<in> set (group_adj r es)" for g
  proof -
    from that obtain gs1 gs2 where "group_adj r es = gs1 @ g # gs2" by (meson split_list)
    then have "es = concat gs1 @ g @ concat gs2"
      using group_adj_runs [of r es] unfolding maximal_runs_def by (metis concat.simps(2) concat_append)
    then show ?thesis by simp
  qed
  with assms show ?thesis by (fastforce simp: filter_empty_conv)
qed

lemma mouse_compress_spec:
  assumes "\<not> f_lt F (f_of_int F 2) (f_of_int F 0)"
  shows "\<exists>ts. mouse_compress F events = Some ts \<and>
    list_all2 trajectory_of
      (filter (\<lambda>g. 2 < length g) (group_adj (mouse_rel F) (extract_mouse_events events))) ts"
proof -
  let ?es = "extract_mouse_events events"
  let ?gs = "filter (\<lambda>g. 2 < length g) (group_adj (mouse_rel F) ?es)"
  let ?ts = "map (\<lambda>g. the (build_trajectory F (fst (mouse_path g)) (snd (mouse_path g)))) ?gs"
  have "mouse_compress F events = Some ?ts"
    using short_no_groups [of ?es "mouse_rel F"]
    by (simp add: mouse_compress_returns [OF assms] mouse_loop_filter comp_def case_prod_unfold)
  moreover have "list_all2 trajectory_of ?gs ?ts"
    by (auto simp: list.rel_map intro!: list.rel_refl_strong build_trajectory_of [OF assms] dest: group_adj_nonempty)
  ultimately show ?thesis by blast
qed

lemma mouse_compress_ids:
  assumes "\<not> f_lt F (f_of_int F 2) (f_of_int F 0)"
  shows "\<exists>ts. mouse_compress F raw = Some ts \<and>
    list_all (\<lambda>t. set (pointer_ids (mt_raw_event_ids t)) \<subseteq> raw_event_id ` set raw) ts"
proof -
  obtain ts where ts: "mouse_compress F raw = Some ts" and t: "list_all2 trajectory_of
      (filter (\<lambda>g. 2 < length g) (group_adj (mouse_rel F) (extract_mouse_events raw))) ts"
    using mouse_compress_spec [OF assms] by blast
  have "set (pointer_ids (mt_raw_event_ids x)) \<subseteq> raw_event_id ` set raw" if x: "x \<in> set ts" for x
  proof -
    from list_all2_in2 [OF t x] obtain g where g: "g \<in> set (group_adj (mouse_rel F) (extract_mouse_events raw))" "trajectory_of g x"
      by auto
    have "set (pointer_ids (mt_raw_event_ids x)) = fst ` set g" using g(2) by (simp add: trajectory_of_def)
    also have "\<dots> \<subseteq> fst ` set (extract_mouse_events raw)" using group_adj_subset [OF g(1)] by (rule image_mono)
    also have "\<dots> \<subseteq> raw_event_id ` set raw" by (rule extract_ids(2))
    finally show ?thesis .
  qed
  with ts show ?thesis by (auto simp: list_all_iff)
qed

lemma compress_events_returns:
  assumes "\<not> f_lt F (f_of_int F 2) (f_of_int F 0)"
  shows "\<exists>eng' compact. compress_events F L eng raw = Some (eng', raw, compact)
    \<and> ce_total_compact_events eng' = ce_total_compact_events eng + of_nat (length compact)
    \<and> ce_total_compact_events_bytes eng' = ce_total_compact_events_bytes eng + sum_list (map (memory_size L) compact)
    \<and> list_all (\<lambda>c. set (compact_raw_ids c) \<subseteq> raw_event_id ` set raw) compact"
proof (cases "raw = []")
  case True
  then show ?thesis by (simp add: compress_events_def)
next
  case False
  obtain ts where ts: "mouse_compress F raw = Some ts"
    and ids: "list_all (\<lambda>t. set (pointer_ids (mt_raw_event_ids t)) \<subseteq> raw_event_id ` set raw) ts"
    using mouse_compress_ids [OF assms] by blast
  have "foldl (\<lambda>b e. b + memory_size L e) b cs = b + sum_list (map (memory_size L) cs)" for b cs
    by (induction cs arbitrary: b) (simp_all add: add.assoc)
  note total = this
  define tt where "tt = (if mouse_can_compress raw then ts else [])"
  define sc where "sc = (if scroll_can_compress raw then scroll_compress raw else [])"
  define ks where "ks = (if keyboard_can_compress raw then keyboard_compress F raw else [])"
  define fr where "fr = (if focus_can_compress raw then focus_compress (ce_interner eng) raw else (ce_interner eng, []))"
  define cs where "cs = map CScroll sc @ map CMouseTrajectory tt @ map CKeyboard ks @ map CFocus (snd fr)"
  have "list_all (\<lambda>c. set (compact_raw_ids c) \<subseteq> raw_event_id ` set raw) cs"
    using ids scroll_compress_ids [of raw] keyboard_compress_ids [of raw F] focus_compress_ids [of raw "ce_interner eng"]
    by (simp add: cs_def tt_def sc_def ks_def fr_def list.pred_map comp_def)
  moreover have "compress_events F L eng raw = Some (eng\<lparr> ce_interner := fst fr,
      ce_total_compact_events_bytes := foldl (\<lambda>b e. b + memory_size L e) (ce_total_compact_events_bytes eng) cs,
      ce_total_compact_events := ce_total_compact_events eng + of_nat (length cs) \<rparr>, raw, cs)"
  proof -
    have "(if mouse_can_compress raw then mouse_compress F raw else Some []) = Some tt"
      by (simp add: tt_def ts)
    then show ?thesis
      using False by (simp only: compress_events_def if_False Option.bind.bind_lunit Let_def split_beta
          sc_def [symmetric] ks_def [symmetric] fr_def [symmetric] cs_def [symmetric])
  qed
  ultimately show ?thesis by (simp add: total)
qed

section \<open>Properties\<close>

text \<open>
  Scroll compression is the summary of maximal runs.  For every batch the scroll compressor
  returns, for each maximal run of wheel events in one direction with less than 500 ms between
  neighbours, one sequence with the first and last time of the run, the sums of amounts and
  rotations (as 32-bit integers), the number of events and their ids.
\<close>
theorem scroll_compress_correct:
  "scroll_compress events = map scroll_summary (group_adj scroll_rel (extract_scroll_events events))
   \<and> maximal_runs scroll_rel (extract_scroll_events events)
       (group_adj scroll_rel (extract_scroll_events events))"
  by (simp add: scroll_compress_groups group_adj_runs)

text \<open>
  Keyboard compression counts every key press once.  The keyboard events of a batch, in order
  of time, are cut into maximal runs with at most 30 s between neighbours; every run is one activity,
  and the ids the activities point to are the ids of the keyboard events of the batch, each once.
\<close>
theorem keyboard_compress_correct:
  "keyboard_compress F events = map (\<lambda>g. keyboard_flush F (keyboard_group g))
      (group_adj keyboard_rel (sort_key snd (extract_keyboard_events events)))
   \<and> mset (concat (map (\<lambda>k. pointer_ids (ka_raw_event_ids k)) (keyboard_compress F events))) =
      mset (map fst (extract_keyboard_events events))"
proof -
  let ?ks = "sort_key snd (extract_keyboard_events events)"
  have "concat (map (\<lambda>g. map fst g) (group_adj keyboard_rel ?ks)) = map fst (concat (group_adj keyboard_rel ?ks))"
    by (simp add: map_concat)
  also have "concat (group_adj keyboard_rel ?ks) = ?ks"
    using group_adj_runs [of keyboard_rel ?ks] by (simp add: maximal_runs_def)
  finally show ?thesis by (simp add: keyboard_compress_groups comp_def keyboard_ids)
qed

text \<open>
  Path simplification returns and is sound.  Where zero does not exceed the tolerance, the
  Douglas-Peucker recursion returns on every path, with a subsequence of the path that keeps its
  first and last point.
\<close>
theorem douglas_peucker_total:
  assumes "\<not> f_lt F epsilon (f_of_int F 0)"
  shows "\<exists>r. douglas_peucker F epsilon points = Some r \<and> subseq r points
    \<and> (if points = [] then r = [] else r \<noteq> [] \<and> hd r = hd points \<and> last r = last points)"
  using douglas_peucker_returns [OF assms, of points] by (auto simp: simplifies_def)

text \<open>Integers as a stand-in for \<open>f32\<close>, with the floor of the square root.\<close>

definition int_ops :: "int f32ops" where
  "int_ops = \<lparr> f_of_int = (\<lambda>i. i), f_add = (+), f_mul = (*), f_div = (\<lambda>a b. if b = 0 then 0 else a div b),
     f_sqrt = (\<lambda>x. int (length (takeWhile (\<lambda>k. k * k \<le> x) [1..50]))), f_abs = abs, f_max = max,
     f_lt = (<), f_eq = (=), f_sum_init = 0 \<rparr>"

definition demo_path :: "mouse_position list" where
  "demo_path = map (\<lambda>(x, y). \<lparr>pos_x = x, pos_y = y\<rparr>) [(0, 0), (10, 1), (20, 0), (20, 20), (21, 30)]"

lemma demo_path_simplified:
  "douglas_peucker int_ops 2 demo_path = Some (map (\<lambda>(x, y). \<lparr>pos_x = x, pos_y = y\<rparr>) [(0, 0), (20, 0), (21, 30)])"
  by code_simp

theorem douglas_peucker_total_witness:
  "\<exists>r. douglas_peucker int_ops 2 demo_path = Some r \<and> subseq r demo_path
    \<and> (if demo_path = [] then r = [] else r \<noteq> [] \<and> hd r = hd demo_path \<and> last r = last demo_path)"
  by (rule douglas_peucker_total) (simp add: int_ops_def)

text \<open>
  C27: Trajectory compression is total and describes maximal strokes.  Where zero does not exceed
  the tolerance of two pixels, it returns on every batch, with one trajectory for every maximal run
  of movement events of one kind, with at most 200 ms and no less than five pixels between
  neighbours, that has more than two events; the trajectory names the events of the run and its
  simplified path is a subsequence of their positions with the same ends.
\<close>
theorem mouse_compress_correct:
  assumes "\<not> f_lt F (f_of_int F 2) (f_of_int F 0)"
  shows "\<exists>ts. mouse_compress F events = Some ts \<and>
    list_all2 trajectory_of
      (filter (\<lambda>g. 2 < length g) (group_adj (mouse_rel F) (extract_mouse_events events))) ts"
  using assms by (rule mouse_compress_spec)

definition demo_moves :: "raw_event list" where
  "demo_moves = map (\<lambda>(i, t, x). RawMouseInput (millis t) i
     \<lparr> mouse_pos = \<lparr>pos_x = x, pos_y = 0\<rparr>, mouse_btn = None, mouse_click_count = None,
       mouse_event_type = Some Moved, wheel_amount = None, wheel_rotation = None,
       mouse_wheel_axis = None, mouse_wheel_scroll_type = None \<rparr>)
     [(1, 0, 0), (2, 50, 10), (3, 100, 20), (4, 400, 30), (5, 450, 31)]"

theorem mouse_compress_correct_witness:
  "\<exists>ts. mouse_compress int_ops demo_moves = Some ts \<and>
    list_all2 trajectory_of
      (filter (\<lambda>g. 2 < length g) (group_adj (mouse_rel int_ops) (extract_mouse_events demo_moves))) ts"
  by (rule mouse_compress_correct) (simp add: int_ops_def)

lemma demo_moves_result:
  "map_option (map (\<lambda>t. pointer_ids (mt_raw_event_ids t))) (mouse_compress int_ops demo_moves) = Some [[1, 2, 3]]"
  by code_simp

text \<open>
  C28: The compression engine returns on every batch, hands the raw events back unchanged, counts
  what it produced, and every compact event points only to raw events of the batch.
\<close>
theorem compress_events_correct:
  assumes "\<not> f_lt F (f_of_int F 2) (f_of_int F 0)"
  shows "\<exists>eng' compact. compress_events F L eng raw = Some (eng', raw, compact)
    \<and> ce_total_compact_events eng' = ce_total_compact_events eng + of_nat (length compact)
    \<and> ce_total_compact_events_bytes eng' = ce_total_compact_events_bytes eng + sum_list (map (memory_size L) compact)
    \<and> list_all (\<lambda>c. set (compact_raw_ids c) \<subseteq> raw_event_id ` set raw) compact"
  using assms by (rule compress_events_returns)

definition demo_layout :: layout where
  "demo_layout = \<lparr> size_scroll = 96, size_trajectory = 120, size_position = 8, size_keyboard = 72, size_focus = 64 \<rparr>"

theorem compress_events_correct_witness:
  "\<exists>eng' compact. compress_events int_ops demo_layout (engine_with_focus_cap 8) demo_moves = Some (eng', demo_moves, compact)
    \<and> list_all (\<lambda>c. set (compact_raw_ids c) \<subseteq> raw_event_id ` set demo_moves) compact"
proof -
  have "\<not> f_lt int_ops (f_of_int int_ops 2) (f_of_int int_ops 0)" by (simp add: int_ops_def)
  from compress_events_correct [OF this, of demo_layout "engine_with_focus_cap 8" demo_moves] show ?thesis by blast
qed

text \<open>
  The string table of the focus compressor is consistent.  Starting from an empty table, after
  interning any sequence of strings the table has no duplicates and at most its capacity of
  entries, the id of the string interned last is its index in the table, and for a capacity of at
  most \<open>2 ^ 16\<close> no two strings of the table have the same id.
\<close>
theorem interner_consistent:
  assumes "si = foldl (\<lambda>si s. fst (intern_string si s)) (interner_with_cap cap) ss"
    and "intern_string si s = (si', i)" and "cap \<le> 2 ^ 16"
  shows "length (si_strings si') \<le> max cap 1 \<and> distinct (si_strings si')
    \<and> unat i < length (si_strings si') \<and> si_strings si' ! unat i = s"
proof -
  have "interner_inv si \<and> si_max_strings si = max cap 1"
    unfolding assms(1)
  proof (induction ss rule: rev_induct)
    case Nil
    then show ?case by (simp add: kronical_inv) (simp add: interner_with_cap_def)
  next
    case (snoc x xs)
    then show ?case using intern_string_correct [OF _ prod.collapse [symmetric]] by (simp add: intern_string_cap)
  qed
  then have inv: "interner_inv si" "si_max_strings si' = max cap 1"
    using intern_string_cap [of si s] assms(2) by simp_all
  from intern_string_correct [OF inv(1) assms(2)] obtain n
    where n: "interner_inv si'" "n < length (si_strings si')" "si_strings si' ! n = s" "i = of_nat n" by blast
  moreover have "length (si_strings si') \<le> 2 ^ 16"
    using n(1) inv(2) assms(3) by (auto simp: interner_inv_def)
  then have "unat i = n" using n(2,4) by (simp add: unsigned_of_nat take_bit_nat_eq_self)
  ultimately show ?thesis using inv(2) by (simp add: interner_inv_def)
qed

theorem interner_consistent_witness:
  "length (si_strings (fst (intern_string (foldl (\<lambda>si s. fst (intern_string si s)) (interner_with_cap 2) [''a'', ''b'']) ''c'')))
     \<le> max 2 1"
  using interner_consistent [OF refl prod.collapse [symmetric], of 2 "[''a'', ''b'']" "''c''"] by simp

end
