(* ===== verification/Envelope_Stage.thy ===== *)
theory Envelope_Stage
  imports Ingest Lock_Deriver State_Engine Snapshot_Bus Compressor
begin

text \<open>
  The second stage of the pipeline, src/daemon/pipeline/envelope.rs, with the message types of
  src/daemon/pipeline/types.rs and the storage commands of crates/storage/src/lib.rs.  The stage
  runs the adapter and the two derivers over every batch and distributes the results to the hints,
  compression, snapshot and storage stages.

  A handler returns the messages it sends, in order.  Whether a receiver still exists is an input
  of the handler (\<open>channels\<close>): a send to a closed channel has no effect and, for the compression and
  snapshot channels, ends the stage.
\<close>

section \<open>Messages\<close>

datatype 'f storage_command =
    StoreRawEvent raw_event
  | StoreRecord activity_record
  | StoreEnvelope event_envelope
  | StoreCompactEvents "'f compact_event list"
  | StoreTransition transition
  | StoreShutdown

datatype compression_command = CompressProcess raw_batch "event_envelope list" | CompressShutdown

record snapshot_update =
  up_hints_delta :: u64
  up_signals_delta :: u64
  up_focus :: "window_focus_info option"
  up_focus_title :: "(u32 \<times> string) option"
  up_transition :: "transition option"
  up_state :: "activity_state option"

definition update_default :: snapshot_update where
  "update_default = \<lparr> up_hints_delta = 0, up_signals_delta = 0, up_focus = None, up_focus_title = None,
     up_transition = None, up_state = None \<rparr>"

definition update_is_empty :: "snapshot_update \<Rightarrow> bool" where
  "update_is_empty u \<longleftrightarrow> up_hints_delta u = 0 \<and> up_signals_delta u = 0 \<and> up_focus u = None
     \<and> up_focus_title u = None \<and> up_transition u = None \<and> up_state u = None"

datatype snapshot_message =
    SnapUpdate snapshot_update
  | SnapRecord activity_record
  | SnapPublish
  | SnapHintsComplete
  | SnapShutdown

record channels =
  hints_open :: bool
  compression_open :: bool
  snapshot_open :: bool
  storage_open :: bool

definition all_open :: channels where
  "all_open = \<lparr> hints_open = True, compression_open = True, snapshot_open = True, storage_open = True \<rparr>"

datatype envelope_send =
    ToHints event_envelope
  | ToCompression compression_command
  | ToSnapshot snapshot_message
  | ToStorageEnvelope event_envelope

section \<open>Operations\<close>

definition apply_focus_update :: "event_envelope \<Rightarrow> snapshot_update \<Rightarrow> snapshot_update" where
  "apply_focus_update env u = (case env_payload env of
      PFocus focus \<Rightarrow> u\<lparr> up_focus := Some focus \<rparr>
    | PTitle window_id title \<Rightarrow> u\<lparr> up_focus_title := Some (window_id, title) \<rparr>
    | _ \<Rightarrow> u)"

text \<open>A signal kind as \<open>format!("{kind:?}")\<close> prints it.\<close>

fun signal_kind_debug :: "signal_kind \<Rightarrow> string" where
  "signal_kind_debug KeyboardInput = ''KeyboardInput''"
| "signal_kind_debug MouseInput = ''MouseInput''"
| "signal_kind_debug AppChanged = ''AppChanged''"
| "signal_kind_debug WindowChanged = ''WindowChanged''"
| "signal_kind_debug ActivityPulse = ''ActivityPulse''"
| "signal_kind_debug LockStart = ''LockStart''"
| "signal_kind_debug LockEnd = ''LockEnd''"

definition transition_reason :: "event_envelope \<Rightarrow> signal_kind option \<Rightarrow> string option" where
  "transition_reason env sk = (case sk of
      Some kind \<Rightarrow> Some (signal_kind_debug kind)
    | None \<Rightarrow> if env_kind env = Hint StateChanged \<and> env_source env = Derived
              then Some ''IdleTimeout'' else None)"

text \<open>
  \<open>apply_state_update_hint\<close>, and \<open>apply_state_update_signal\<close>, which is the same with the kind of the
  signal.
\<close>

definition apply_state_update_hint ::
  "event_envelope \<Rightarrow> signal_kind option \<Rightarrow> snapshot_update \<Rightarrow> snapshot_update" where
  "apply_state_update_hint env sk u = (case env_payload env of
      PState from to \<Rightarrow>
        u\<lparr> up_transition := Some \<lparr> trn_from = from, trn_to = to, trn_at = env_timestamp env,
             trn_by_signal = transition_reason env sk, trn_run_id = None \<rparr>,
           up_state := Some to \<rparr>
    | _ \<Rightarrow> u)"

definition apply_state_update_signal ::
  "event_envelope \<Rightarrow> signal_kind \<Rightarrow> snapshot_update \<Rightarrow> snapshot_update" where
  "apply_state_update_signal env k u = (case env_payload env of
      PState from to \<Rightarrow>
        u\<lparr> up_transition := Some \<lparr> trn_from = from, trn_to = to, trn_at = env_timestamp env,
             trn_by_signal = transition_reason env (Some k), trn_run_id = None \<rparr>,
           up_state := Some to \<rparr>
    | _ \<Rightarrow> u)"

definition send_snapshot :: "channels \<Rightarrow> snapshot_message \<Rightarrow> envelope_send list \<times> bool" where
  "send_snapshot C m = (if snapshot_open C then ([ToSnapshot m], True) else ([], False))"

definition flush_snapshot_update ::
  "channels \<Rightarrow> snapshot_update \<Rightarrow> snapshot_update \<times> envelope_send list \<times> bool" where
  "flush_snapshot_update C u =
     (if update_is_empty u then (u, [], True)
      else (let (out, ok) = send_snapshot C (SnapUpdate u) in (update_default, out, ok)))"

text \<open>The flush that every arm of the loop ends with: \<open>if update.transition.is_some() \<and> !flush\<close>.\<close>

definition flush_if_transition ::
  "channels \<Rightarrow> snapshot_update \<Rightarrow> snapshot_update \<times> envelope_send list \<times> bool" where
  "flush_if_transition C u = (if up_transition u \<noteq> None then flush_snapshot_update C u else (u, [], True))"

definition send_hint :: "channels \<Rightarrow> event_envelope \<Rightarrow> envelope_send list" where
  "send_hint C env = (if hints_open C then [ToHints env] else [])"

definition handle_hint ::
  "channels \<Rightarrow> event_envelope \<Rightarrow> signal_kind option \<Rightarrow> snapshot_update \<Rightarrow>
   snapshot_update \<times> envelope_send list \<times> bool" where
  "handle_hint C env sk u =
     (let u1 = u\<lparr> up_hints_delta := up_hints_delta u + 1 \<rparr>;
          u2 = apply_focus_update env u1;
          u3 = apply_state_update_hint env sk u2;
          (u4, out, ok) = flush_if_transition C u3
      in (u4, send_hint C env @ out, ok))"

definition handle_signal ::
  "channels \<Rightarrow> state_deriver \<Rightarrow> event_envelope \<Rightarrow> signal_kind \<Rightarrow> snapshot_update \<Rightarrow>
   state_deriver \<times> snapshot_update \<times> envelope_send list \<times> bool" where
  "handle_signal C d env k u =
     (let u1 = u\<lparr> up_signals_delta := up_signals_delta u + 1 \<rparr>;
          u2 = apply_focus_update env u1;
          u3 = apply_state_update_signal env k u2;
          stored = (if storage_open C then [ToStorageEnvelope env] else []);
          (u4, out, ok) = flush_if_transition C u3
      in if \<not> ok then (d, u4, stored @ out, False)
         else (case deriver_on_signal d env of
                 (d', None) \<Rightarrow> (d', u4, stored @ out, True)
               | (d', Some hint) \<Rightarrow>
                   (let (u5, out', ok') = handle_hint C hint (Some k) u4
                    in (d', u5, stored @ out @ out', ok'))))"

fun handle_envelopes ::
  "channels \<Rightarrow> state_deriver \<Rightarrow> snapshot_update \<Rightarrow> event_envelope list \<Rightarrow>
   state_deriver \<times> snapshot_update \<times> envelope_send list \<times> bool" where
  "handle_envelopes C d u [] = (d, u, [], True)"
| "handle_envelopes C d u (env # envs) =
     (let (d1, u1, out1, ok1) =
        (case env_kind env of
           Hint _ \<Rightarrow> (let (u1, out1, ok1) = handle_hint C env None u in (d, u1, out1, ok1))
         | Signal k \<Rightarrow> handle_signal C d env k u)
      in if \<not> ok1 then (d1, u1, out1, False)
         else (let (d2, u2, out2, ok2) = handle_envelopes C d1 u1 envs in (d2, u2, out1 @ out2, ok2)))"

record envelope_state =
  es_adapter :: event_adapter
  es_lock_deriver :: lock_deriver
  es_state_deriver :: state_deriver
  es_running :: bool

text \<open>\<open>active_grace_secs as i64\<close> reads the word as a signed number.\<close>

definition envelope_init :: "instant \<Rightarrow> u64 \<Rightarrow> u64 \<Rightarrow> envelope_state" where
  "envelope_init now active_grace_secs idle_threshold_secs =
     \<lparr> es_adapter = adapter_new, es_lock_deriver = lock_deriver_new,
       es_state_deriver = state_deriver_new now (sint active_grace_secs) (sint idle_threshold_secs),
       es_running = True \<rparr>"

text \<open>The end of an arm: the pending update, if there is one, and the request to publish.\<close>

definition send_update_and_publish :: "channels \<Rightarrow> snapshot_update \<Rightarrow> envelope_send list \<times> bool" where
  "send_update_and_publish C u =
     (let (out1, ok1) = (if \<not> update_is_empty u then send_snapshot C (SnapUpdate u) else ([], True))
      in if \<not> ok1 then (out1, False)
         else (let (out2, ok2) = send_snapshot C SnapPublish in (out1 @ out2, ok2)))"

definition envelope_batch ::
  "channels \<Rightarrow> envelope_state \<Rightarrow> raw_batch \<Rightarrow> envelope_state \<times> envelope_send list" where
  "envelope_batch C st batch =
     (if batch_is_empty batch then (st, [])
      else
        (let (ad, envelopes) = adapt_batch (es_adapter st) (batch_events batch);
             (ld, envelopes_with_lock) = lock_derive (es_lock_deriver st) envelopes;
             (d, u, out, ok) = handle_envelopes C (es_state_deriver st) update_default envelopes_with_lock;
             st1 = st\<lparr> es_adapter := ad, es_lock_deriver := ld, es_state_deriver := d \<rparr>
         in if \<not> ok then (st1\<lparr> es_running := False \<rparr>, out)
            else if \<not> compression_open C then (st1\<lparr> es_running := False \<rparr>, out)
            else (let (out', ok') = send_update_and_publish C u
                  in (st1\<lparr> es_running := ok' \<rparr>,
                      out @ [ToCompression (CompressProcess batch envelopes_with_lock)] @ out'))))"

definition envelope_tick ::
  "channels \<Rightarrow> envelope_state \<Rightarrow> instant \<Rightarrow> envelope_state \<times> envelope_send list" where
  "envelope_tick C st now = (case deriver_on_tick (es_state_deriver st) now of
      (d, None) \<Rightarrow> (st\<lparr> es_state_deriver := d \<rparr>, [])
    | (d, Some hint) \<Rightarrow>
        (let st1 = st\<lparr> es_state_deriver := d \<rparr>;
             (u, out, ok) = handle_hint C hint None update_default
         in if \<not> ok then (st1\<lparr> es_running := False \<rparr>, out)
            else (let (out', ok') = send_update_and_publish C u
                  in (st1\<lparr> es_running := ok' \<rparr>, out @ out'))))"

definition envelope_shutdown :: "channels \<Rightarrow> envelope_state \<Rightarrow> envelope_state \<times> envelope_send list" where
  "envelope_shutdown C st =
     (st\<lparr> es_running := False \<rparr>,
      (if snapshot_open C then [ToSnapshot SnapShutdown] else []) @
      (if compression_open C then [ToCompression CompressShutdown] else []))"

fun envelope_step ::
  "channels \<Rightarrow> envelope_state \<Rightarrow> derive_command \<Rightarrow> envelope_state \<times> envelope_send list" where
  "envelope_step C st (DeriveBatch batch) = envelope_batch C st batch"
| "envelope_step C st (DeriveTick now) = envelope_tick C st now"
| "envelope_step C st DeriveShutdown = envelope_shutdown C st"

fun envelope_run :: "envelope_state \<Rightarrow> derive_command list \<Rightarrow> envelope_state \<times> envelope_send list" where
  "envelope_run st [] = (st, [])"
| "envelope_run st (c # cs) =
     (if \<not> es_running st then (st, [])
      else (let (st', out) = envelope_step all_open st c; (st'', out') = envelope_run st' cs in (st'', out @ out')))"

section \<open>Specification\<close>

definition sent_hints :: "envelope_send list \<Rightarrow> event_envelope list" where
  "sent_hints out = List.map_filter (\<lambda>s. case s of ToHints e \<Rightarrow> Some e | _ \<Rightarrow> None) out"

definition stored_signals :: "envelope_send list \<Rightarrow> event_envelope list" where
  "stored_signals out = List.map_filter (\<lambda>s. case s of ToStorageEnvelope e \<Rightarrow> Some e | _ \<Rightarrow> None) out"

definition sent_updates :: "envelope_send list \<Rightarrow> snapshot_update list" where
  "sent_updates out = List.map_filter (\<lambda>s. case s of ToSnapshot (SnapUpdate u) \<Rightarrow> Some u | _ \<Rightarrow> None) out"

definition sent_transitions :: "envelope_send list \<Rightarrow> transition list" where
  "sent_transitions out = List.map_filter up_transition (sent_updates out)"

definition state_change :: "event_envelope \<Rightarrow> (activity_state \<times> activity_state \<times> instant) option" where
  "state_change e = (case env_payload e of PState a b \<Rightarrow> Some (a, b, env_timestamp e) | _ \<Rightarrow> None)"

definition transition_change :: "transition \<Rightarrow> activity_state \<times> activity_state \<times> instant" where
  "transition_change t = (trn_from t, trn_to t, trn_at t)"

text \<open>What the state deriver reads in a run: the signals that leave the lock deriver, and the ticks.\<close>

fun stage_inputs :: "event_adapter \<Rightarrow> lock_deriver \<Rightarrow> derive_command list \<Rightarrow> deriver_input list" where
  "stage_inputs ad ld [] = []"
| "stage_inputs ad ld (DeriveBatch b # cs) =
     (let (ad', envs) = adapt_batch ad (batch_events b); (ld', envs') = lock_derive ld envs
      in map Sig (filter is_signal envs') @ stage_inputs ad' ld' cs)"
| "stage_inputs ad ld (DeriveTick now # cs) = Tick now # stage_inputs ad ld cs"
| "stage_inputs ad ld (DeriveShutdown # cs) = []"

section \<open>Lemmas: sends\<close>

lemma sends_append [simp]:
  "sent_hints (xs @ ys) = sent_hints xs @ sent_hints ys"
  "stored_signals (xs @ ys) = stored_signals xs @ stored_signals ys"
  "sent_updates (xs @ ys) = sent_updates xs @ sent_updates ys"
  "sent_transitions (xs @ ys) = sent_transitions xs @ sent_transitions ys"
  by (simp_all add: sent_hints_def stored_signals_def sent_updates_def sent_transitions_def List.map_filter_def)

lemma sends_simps [simp]:
  "sent_hints [] = []" "sent_hints [ToHints e] = [e]" "sent_hints [ToCompression c] = []"
  "sent_hints [ToSnapshot m] = []" "sent_hints [ToStorageEnvelope e] = []"
  "stored_signals [] = []" "stored_signals [ToHints e] = []" "stored_signals [ToCompression c] = []"
  "stored_signals [ToSnapshot m] = []" "stored_signals [ToStorageEnvelope e] = [e]"
  "sent_transitions [] = []" "sent_transitions [ToHints e] = []" "sent_transitions [ToCompression c] = []"
  "sent_transitions [ToStorageEnvelope e] = []" "sent_transitions [ToSnapshot SnapPublish] = []"
  "sent_transitions [ToSnapshot SnapShutdown] = []"
  "sent_transitions [ToSnapshot (SnapUpdate u)] = (case up_transition u of None \<Rightarrow> [] | Some t \<Rightarrow> [t])"
  by (simp_all add: sent_hints_def stored_signals_def sent_updates_def sent_transitions_def List.map_filter_def
      split: option.split)

lemma all_open_simps [simp]:
  "hints_open all_open" "compression_open all_open" "snapshot_open all_open" "storage_open all_open"
  by (simp_all add: all_open_def)

lemma apply_focus_update_fields [simp]:
  "up_transition (apply_focus_update env u) = up_transition u" "up_state (apply_focus_update env u) = up_state u"
  "up_hints_delta (apply_focus_update env u) = up_hints_delta u"
  "up_signals_delta (apply_focus_update env u) = up_signals_delta u"
  by (simp_all add: apply_focus_update_def split: event_payload.split)

text \<open>No transition waits between two envelopes.\<close>

lemma handle_hint_open:
  assumes "up_transition u = None"
  shows "\<exists>u' out. handle_hint all_open env sk u = (u', out, True) \<and> up_transition u' = None
    \<and> sent_hints out = [env] \<and> stored_signals out = []
    \<and> map transition_change (sent_transitions out) = List.map_filter state_change [env]"
proof (cases "env_payload env")
  case (PState a b)
  then show ?thesis
    by (simp add: handle_hint_def apply_focus_update_def apply_state_update_hint_def flush_if_transition_def
        flush_snapshot_update_def update_is_empty_def send_snapshot_def send_hint_def update_default_def
        transition_change_def state_change_def Let_def
        sent_hints_def stored_signals_def sent_transitions_def sent_updates_def List.map_filter_def)
qed (use assms in \<open>simp_all add: handle_hint_def apply_state_update_hint_def flush_if_transition_def
       send_hint_def state_change_def List.map_filter_def Let_def\<close>)

lemma handle_signal_open:
  assumes "up_transition u = None" and "state_change env = None"
  shows "\<exists>u' out. handle_signal all_open d env k u = (fst (deriver_on_signal d env), u', out, True)
    \<and> up_transition u' = None \<and> stored_signals out = [env]
    \<and> sent_hints out = (case snd (deriver_on_signal d env) of None \<Rightarrow> [] | Some h \<Rightarrow> [h])
    \<and> map transition_change (sent_transitions out) =
        List.map_filter state_change (case snd (deriver_on_signal d env) of None \<Rightarrow> [] | Some h \<Rightarrow> [h])"
proof -
  let ?u = "apply_focus_update env (u\<lparr> up_signals_delta := up_signals_delta u + 1 \<rparr>)"
  have sig: "apply_state_update_signal env k ?u = ?u"
    using assms(2) by (simp add: apply_state_update_signal_def state_change_def split: event_payload.splits)
  have u: "up_transition ?u = None" using assms(1) by simp
  obtain d' h where d: "deriver_on_signal d env = (d', h)" by force
  show ?thesis
  proof (cases h)
    case None
    with d u show ?thesis
      by (simp add: handle_signal_def sig flush_if_transition_def Let_def List.map_filter_def)
  next
    case (Some hint)
    obtain u' out where "handle_hint all_open hint (Some k) ?u = (u', out, True)" "up_transition u' = None"
      "sent_hints out = [hint]" "stored_signals out = []"
      "map transition_change (sent_transitions out) = List.map_filter state_change [hint]"
      using handle_hint_open [OF u] by blast
    with Some d u show ?thesis
      using sends_append [of "[ToStorageEnvelope env]" out]
      by (simp add: handle_signal_def sig flush_if_transition_def Let_def)
  qed
qed

section \<open>Lemmas: batches and runs\<close>

definition reports_change :: "event_envelope \<Rightarrow> bool" where
  "reports_change e \<longleftrightarrow> state_change e \<noteq> None"

lemma deriver_on_signal_reports: "snd (deriver_on_signal d env) = Some h \<Longrightarrow> reports_change h"
  by (auto simp: deriver_on_signal_def state_hint_def reports_change_def state_change_def Let_def split_beta)

lemma deriver_on_tick_reports: "snd (deriver_on_tick d now) = Some h \<Longrightarrow> reports_change h"
  by (auto simp: deriver_on_tick_def state_hint_def reports_change_def state_change_def Let_def split_beta)

lemma deriver_run_Sig:
  "deriver_run d (Sig env # is) =
     (case deriver_on_signal d env of (d', h) \<Rightarrow> case deriver_run d' is of (d'', hs) \<Rightarrow>
        (d'', (case h of None \<Rightarrow> [] | Some x \<Rightarrow> [x]) @ hs))"
  by (simp add: Let_def split: prod.split)

lemma map_filter_append: "List.map_filter f (xs @ ys) = List.map_filter f xs @ List.map_filter f ys"
  by (simp add: List.map_filter_def)

text \<open>What the loop over the envelopes of a batch does while the receivers exist.\<close>

definition handled :: "state_deriver \<Rightarrow> event_envelope list \<Rightarrow> state_deriver \<Rightarrow> envelope_send list \<Rightarrow> bool" where
  "handled d envs d' out \<longleftrightarrow>
     (case deriver_run d (map Sig (filter is_signal envs)) of (d'', hs) \<Rightarrow>
        d' = d'' \<and> filter reports_change (sent_hints out) = hs) \<and>
     filter (\<lambda>e. \<not> reports_change e) (sent_hints out) = filter is_hint envs \<and>
     stored_signals out = filter is_signal envs \<and>
     map transition_change (sent_transitions out) = List.map_filter state_change (sent_hints out)"

lemma handled_Cons_hint:
  assumes "is_hint env" "\<not> reports_change env" "handled d envs d' out"
    and "sent_hints o1 = [env]" "stored_signals o1 = []"
    "map transition_change (sent_transitions o1) = List.map_filter state_change [env]"
  shows "handled d (env # envs) d' (o1 @ out)"
  using assms by (auto simp: handled_def is_hint_not_signal List.map_filter_def)

lemma handled_Cons_signal:
  assumes "is_signal env" "handled (fst (deriver_on_signal d env)) envs d' out"
    and "sent_hints o1 = (case snd (deriver_on_signal d env) of None \<Rightarrow> [] | Some h \<Rightarrow> [h])" "stored_signals o1 = [env]"
    "map transition_change (sent_transitions o1) = List.map_filter state_change (sent_hints o1)"
  shows "handled d (env # envs) d' (o1 @ out)"
  using assms deriver_on_signal_reports [of d env]
  by (auto simp: handled_def is_hint_not_signal map_filter_append deriver_run_Sig
      simp del: deriver_run.simps(2) split: prod.splits option.splits)

lemma handle_envelopes_open:
  "up_transition u = None \<Longrightarrow> list_all (\<lambda>e. \<not> reports_change e) envs \<Longrightarrow>
   \<exists>d' u' out. handle_envelopes all_open d u envs = (d', u', out, True)
     \<and> up_transition u' = None \<and> handled d envs d' out"
proof (induction envs arbitrary: d u)
  case Nil
  then show ?case by (simp add: handled_def List.map_filter_def)
next
  case (Cons env envs)
  show ?case
  proof (cases "env_kind env")
    case (Hint hk)
    then have h: "is_hint env" by (simp add: is_hint_def)
    obtain u1 o1 where 1: "handle_hint all_open env None u = (u1, o1, True)" "up_transition u1 = None"
      "sent_hints o1 = [env]" "stored_signals o1 = []"
      "map transition_change (sent_transitions o1) = List.map_filter state_change [env]"
      using handle_hint_open [OF Cons.prems(1)] by blast
    obtain d' u' out where "handle_envelopes all_open d u1 envs = (d', u', out, True)"
      "up_transition u' = None" "handled d envs d' out"
      using Cons.IH [OF 1(2), of d] Cons.prems(2) by auto
    with 1 Hint h Cons.prems(2) handled_Cons_hint [of env d envs d' out o1] show ?thesis by auto
  next
    case (Signal k)
    then have s: "is_signal env" by (simp add: is_signal_def)
    have "state_change env = None" using Cons.prems(2) unfolding reports_change_def list.pred_inject by blast
    from handle_signal_open [OF Cons.prems(1) this, of d k] obtain u1 o1 where
      1: "handle_signal all_open d env k u = (fst (deriver_on_signal d env), u1, o1, True)" "up_transition u1 = None"
      "stored_signals o1 = [env]" "sent_hints o1 = (case snd (deriver_on_signal d env) of None \<Rightarrow> [] | Some h \<Rightarrow> [h])"
      "map transition_change (sent_transitions o1) = List.map_filter state_change (sent_hints o1)"
      by auto
    obtain d' u' out where "handle_envelopes all_open (fst (deriver_on_signal d env)) u1 envs = (d', u', out, True)"
      "up_transition u' = None" "handled (fst (deriver_on_signal d env)) envs d' out"
      using Cons.IH [OF 1(2), of "fst (deriver_on_signal d env)"] Cons.prems(2) by auto
    with 1 Signal s handled_Cons_signal [of env d envs d' out o1] show ?thesis by auto
  qed
qed

text \<open>The adapter and the lock deriver never make an envelope that reports a change of state.\<close>

lemma adapt_batch_no_change: "list_all (\<lambda>e. \<not> reports_change e) (snd (adapt_batch a raw))"
proof (induction raw arbitrary: a)
  case (Cons e es)
  have "list_all (\<lambda>e. \<not> reports_change e) (snd (adapt_event a e))"
    by (cases e) (auto simp: adapt_defs reports_change_def state_change_def Let_def split: option.split)
  with Cons show ?case by (simp add: Let_def split_beta)
qed simp

lemma lock_derive_no_change:
  "list_all (\<lambda>e. \<not> reports_change e) es \<Longrightarrow> list_all (\<lambda>e. \<not> reports_change e) (snd (lock_derive d es))"
proof (induction es arbitrary: d)
  case (Cons e es)
  have "list_all (\<lambda>e. \<not> reports_change e) (snd (derive_event d e))"
    using Cons.prems by (auto simp: derive_event_def lock_envelope_def reports_change_def state_change_def Let_def
        split: event_kind.split if_split)
  with Cons show ?case by (simp add: Let_def split_beta)
qed simp

lemma send_update_and_publish_open:
  assumes "up_transition u = None"
  shows "\<exists>out. send_update_and_publish all_open u = (out, True) \<and> sent_hints out = [] \<and> stored_signals out = []
    \<and> sent_transitions out = []"
  using assms
  by (cases "update_is_empty u")
     (simp_all add: send_update_and_publish_def send_snapshot_def sent_hints_def stored_signals_def
        sent_transitions_def sent_updates_def List.map_filter_def)

definition front_end :: "event_adapter \<Rightarrow> lock_deriver \<Rightarrow> raw_event list \<Rightarrow> event_adapter \<times> lock_deriver \<times> event_envelope list" where
  "front_end ad ld raw = (let (ad', envs) = adapt_batch ad raw; (ld', envs') = lock_derive ld envs in (ad', ld', envs'))"

lemma envelope_batch_open:
  assumes "es_running st" and f: "front_end (es_adapter st) (es_lock_deriver st) (batch_events b) = (ad, ld, envs)"
  shows "\<exists>d out. envelope_batch all_open st b =
      (st\<lparr> es_adapter := ad, es_lock_deriver := ld, es_state_deriver := d \<rparr>, out)
    \<and> handled (es_state_deriver st) envs d out"
proof (cases "batch_is_empty b")
  case True
  then have "ad = es_adapter st" "ld = es_lock_deriver st" "envs = []"
    using f by (simp_all add: front_end_def batch_is_empty_def)
  with True show ?thesis
    by (intro exI [of _ "es_state_deriver st"] exI [of _ "[]"])
       (simp add: envelope_batch_def handled_def List.map_filter_def)
next
  case False
  obtain envs0 where a: "adapt_batch (es_adapter st) (batch_events b) = (ad, envs0)"
    and l: "lock_derive (es_lock_deriver st) envs0 = (ld, envs)"
    using f by (auto simp: front_end_def Let_def split: prod.splits)
  have "list_all (\<lambda>e. \<not> reports_change e) envs"
    using lock_derive_no_change [OF adapt_batch_no_change, of "es_lock_deriver st" "es_adapter st" "batch_events b"] a l by simp
  moreover have "up_transition update_default = None" by (simp add: update_default_def)
  ultimately obtain d u out where h: "handle_envelopes all_open (es_state_deriver st) update_default envs = (d, u, out, True)"
    "up_transition u = None" "handled (es_state_deriver st) envs d out"
    using handle_envelopes_open by blast
  obtain out' where p: "send_update_and_publish all_open u = (out', True)" "sent_hints out' = []" "stored_signals out' = []"
    "sent_transitions out' = []" using send_update_and_publish_open [OF h(2)] by blast
  let ?all = "out @ [ToCompression (CompressProcess b envs)] @ out'"
  have "envelope_batch all_open st b = (st\<lparr> es_adapter := ad, es_lock_deriver := ld, es_state_deriver := d \<rparr>, ?all)"
    using False a l h(1) p(1) assms(1) by (simp add: envelope_batch_def Let_def)
  moreover have "handled (es_state_deriver st) envs d ?all"
    using h(3) p by (simp add: handled_def del: append.simps)
  ultimately show ?thesis by blast
qed

lemma envelope_tick_open:
  assumes "es_running st"
  shows "\<exists>out. envelope_tick all_open st now = (st\<lparr> es_state_deriver := fst (deriver_on_tick (es_state_deriver st) now) \<rparr>, out)
    \<and> sent_hints out = (case snd (deriver_on_tick (es_state_deriver st) now) of None \<Rightarrow> [] | Some h \<Rightarrow> [h])
    \<and> stored_signals out = []
    \<and> map transition_change (sent_transitions out) = List.map_filter state_change (sent_hints out)"
proof (cases "deriver_on_tick (es_state_deriver st) now")
  case (Pair d h)
  show ?thesis
  proof (cases h)
    case None
    with Pair show ?thesis by (simp add: envelope_tick_def List.map_filter_def)
  next
    case (Some hint)
    have "up_transition update_default = None" by (simp add: update_default_def)
    from handle_hint_open [OF this, of hint None] obtain u out where
      1: "handle_hint all_open hint None update_default = (u, out, True)" "up_transition u = None"
      "sent_hints out = [hint]" "stored_signals out = []"
      "map transition_change (sent_transitions out) = List.map_filter state_change [hint]" by blast
    from send_update_and_publish_open [OF 1(2)] obtain out' where
      "send_update_and_publish all_open u = (out', True)" "sent_hints out' = []" "stored_signals out' = []"
      "sent_transitions out' = []" by blast
    with 1 Pair Some assms show ?thesis by (simp add: envelope_tick_def)
  qed
qed

text \<open>Two runs of the state deriver in a row.\<close>

lemma deriver_run_append:
  "deriver_run d (xs @ ys) = (case deriver_run d xs of (d', h1) \<Rightarrow> case deriver_run d' ys of (d'', h2) \<Rightarrow> (d'', h1 @ h2))"
  by (simp add: deriver.batch_append Let_def)

lemma envelope_run_correct:
  "es_running st \<Longrightarrow> envelope_run st cmds = (st', out) \<Longrightarrow>
   deriver_run (es_state_deriver st) (stage_inputs (es_adapter st) (es_lock_deriver st) cmds) =
     (es_state_deriver st', filter reports_change (sent_hints out))
   \<and> map transition_change (sent_transitions out) = List.map_filter state_change (sent_hints out)"
proof (induction cmds arbitrary: st st' out)
  case Nil
  then show ?case by (simp add: List.map_filter_def)
next
  case (Cons c cmds)
  obtain st1 o1 where s: "envelope_step all_open st c = (st1, o1)" by force
  obtain st2 o2 where r: "envelope_run st1 cmds = (st2, o2)" by force
  have eq: "st' = st2" "out = o1 @ o2" using Cons.prems s r by auto
  show ?case
  proof (cases c)
    case (DeriveBatch b)
    obtain ad ld envs where f: "front_end (es_adapter st) (es_lock_deriver st) (batch_events b) = (ad, ld, envs)"
      by (cases "front_end (es_adapter st) (es_lock_deriver st) (batch_events b)")
    from envelope_batch_open [OF Cons.prems(1) f] s DeriveBatch obtain d where
      st1: "st1 = st\<lparr> es_adapter := ad, es_lock_deriver := ld, es_state_deriver := d \<rparr>"
      and h: "handled (es_state_deriver st) envs d o1" by auto
    have "es_running st1" using st1 Cons.prems(1) by simp
    from Cons.IH [OF this r] have IH: "deriver_run d (stage_inputs ad ld cmds) = (es_state_deriver st2, filter reports_change (sent_hints o2))"
      "map transition_change (sent_transitions o2) = List.map_filter state_change (sent_hints o2)"
      by (simp_all add: st1)
    have "stage_inputs (es_adapter st) (es_lock_deriver st) (c # cmds) = map Sig (filter is_signal envs) @ stage_inputs ad ld cmds"
      using f DeriveBatch by (auto simp: front_end_def Let_def split: prod.splits)
    with h IH eq show ?thesis
      by (auto simp: handled_def deriver_run_append map_filter_append split: prod.splits)
  next
    case (DeriveTick now)
    from envelope_tick_open [OF Cons.prems(1), of now] s DeriveTick have
      st1: "st1 = st\<lparr> es_state_deriver := fst (deriver_on_tick (es_state_deriver st) now) \<rparr>"
      and o1: "sent_hints o1 = (case snd (deriver_on_tick (es_state_deriver st) now) of None \<Rightarrow> [] | Some h \<Rightarrow> [h])"
      "map transition_change (sent_transitions o1) = List.map_filter state_change (sent_hints o1)" by auto
    have "es_running st1" using st1 Cons.prems(1) by simp
    note IH = Cons.IH [OF this r]
    have "filter reports_change (sent_hints o1) = sent_hints o1"
      using o1(1) deriver_on_tick_reports [of "es_state_deriver st" now] by (auto split: option.splits)
    with IH st1 o1 eq DeriveTick show ?thesis
      by (simp add: Let_def split_beta map_filter_append)
  next
    case DeriveShutdown
    then have "\<not> es_running st1" "es_state_deriver st1 = es_state_deriver st"
      "sent_hints o1 = []" "sent_transitions o1 = []"
      using s by (auto simp: envelope_shutdown_def sent_hints_def sent_transitions_def sent_updates_def List.map_filter_def)
    moreover from this(1) r have "st2 = st1" "o2 = []" by (cases cmds; simp)+
    ultimately show ?thesis using eq DeriveShutdown by (simp add: List.map_filter_def)
  qed
qed

subsection \<open>The lock\<close>

lemma engine_on_signal_locked:
  "eng_locked (fst (engine_on_signal s ev now)) = (case env_kind ev of
     Signal LockStart \<Rightarrow> True | Signal LockEnd \<Rightarrow> False | _ \<Rightarrow> eng_locked s)"
  by (auto simp: engine_on_signal_def Let_def split: event_kind.split signal_kind.split)

lemma engine_on_tick_locked: "eng_locked (fst (engine_on_tick s now)) = eng_locked s"
  by (auto simp: engine_on_tick_def Let_def)

lemma deriver_lock_discipline:
  "lock_discipline (eng_locked (sd_engine d)) envs = Some b \<Longrightarrow>
     eng_locked (sd_engine (fst (deriver_run d (map Sig (filter is_signal envs))))) = b"
proof (induction envs arbitrary: d)
  case Nil
  then show ?case by simp
next
  case (Cons env envs)
  show ?case
  proof (cases "env_kind env")
    case (Hint h)
    with Cons show ?thesis by (simp add: is_signal_def split: if_splits)
  next
    case (Signal k)
    let ?d = "fst (deriver_step d (Sig env))"
    have "eng_locked (sd_engine ?d) = (case k of LockStart \<Rightarrow> True | LockEnd \<Rightarrow> False | _ \<Rightarrow> eng_locked (sd_engine d))"
      unfolding deriver_step_engine engine_on_signal_locked by (simp add: Signal)
    with Cons.prems Signal have "lock_discipline (eng_locked (sd_engine ?d)) envs = Some b"
      by (simp split: signal_kind.splits if_splits)
    from Cons.IH [OF this] Signal show ?thesis
      by (simp add: is_signal_def Let_def split_beta del: deriver_step.simps)
  qed
qed

definition lock_agrees :: "envelope_state \<Rightarrow> bool" where
  "lock_agrees st \<longleftrightarrow> eng_locked (sd_engine (es_state_deriver st)) = ld_locked (es_lock_deriver st)"

lemma envelope_step_lock:
  assumes "es_running st" "lock_agrees st"
  shows "lock_agrees (fst (envelope_step all_open st c))"
proof (cases c)
  case (DeriveBatch b)
  obtain ad ld envs where f: "front_end (es_adapter st) (es_lock_deriver st) (batch_events b) = (ad, ld, envs)"
    by (cases "front_end (es_adapter st) (es_lock_deriver st) (batch_events b)")
  then have "lock_discipline (ld_locked (es_lock_deriver st)) envs = Some (ld_locked ld)"
    using lock_derive_discipline [OF adapt_batch_no_lock, of "es_lock_deriver st" "es_adapter st" "batch_events b"]
    by (auto simp: front_end_def Let_def split: prod.splits)
  then have "eng_locked (sd_engine (fst (deriver_run (es_state_deriver st) (map Sig (filter is_signal envs))))) = ld_locked ld"
    using assms(2) deriver_lock_discipline by (simp add: lock_agrees_def)
  moreover obtain d out where "envelope_batch all_open st b =
      (st\<lparr> es_adapter := ad, es_lock_deriver := ld, es_state_deriver := d \<rparr>, out)"
    and "handled (es_state_deriver st) envs d out"
    using envelope_batch_open [OF assms(1) f] by blast
  ultimately show ?thesis by (simp add: DeriveBatch lock_agrees_def handled_def split_beta)
next
  case (DeriveTick now)
  with envelope_tick_open [OF assms(1), of now] assms(2) show ?thesis
    by (auto simp: lock_agrees_def deriver_on_tick_def engine_on_tick_locked Let_def split_beta)
next
  case DeriveShutdown
  with assms(2) show ?thesis by (simp add: lock_agrees_def envelope_shutdown_def)
qed

lemma envelope_run_lock: "lock_agrees st \<Longrightarrow> lock_agrees (fst (envelope_run st cmds))"
proof (induction cmds arbitrary: st)
  case (Cons c cmds)
  then show ?case using envelope_step_lock [of st c] by (simp add: Let_def split_beta)
qed simp

subsection \<open>The front end as one component\<close>

definition front_end_step ::
  "event_adapter \<times> lock_deriver \<Rightarrow> raw_event list \<Rightarrow> (event_adapter \<times> lock_deriver) \<times> event_envelope list" where
  "front_end_step = (\<lambda>(ad, ld) raw. case front_end ad ld raw of (ad', ld', envs) \<Rightarrow> ((ad', ld'), envs))"

lemma front_end_append:
  "front_end_step s (xs @ ys) =
     (let (s', o1) = front_end_step s xs; (s'', o2) = front_end_step s' ys in (s'', o1 @ o2))"
  by (simp add: front_end_step_def front_end_def adapter.batch_append locks.batch_append Let_def split_beta)

lemma front_end_concat: "front_end_step s (concat bs) = run_steps front_end_step s bs"
proof (induction bs arbitrary: s)
  case Nil
  then show ?case by (simp add: front_end_step_def front_end_def split_beta)
next
  case (Cons b bs)
  then show ?case by (simp add: front_end_append)
qed

section \<open>Properties\<close>

text \<open>
  C6: No change of state is lost on the way to the snapshot stage.  For every sequence of batches
  and ticks, the state hints the stage sends are exactly the hints of the state machine run on the
  signals that leave the lock deriver and the ticks, in order, and the transitions in the snapshot
  updates are exactly those changes, in order, one per update.
\<close>
theorem envelope_stage_transitions:
  "case envelope_run (envelope_init now grace idle) cmds of (st, out) \<Rightarrow>
     deriver_run (state_deriver_new now (sint grace) (sint idle)) (stage_inputs adapter_new lock_deriver_new cmds) =
       (es_state_deriver st, filter reports_change (sent_hints out))
     \<and> map transition_change (sent_transitions out) = List.map_filter state_change (sent_hints out)"
  using envelope_run_correct [of "envelope_init now grace idle" cmds]
  by (simp add: envelope_init_def split: prod.split)

text \<open>
  The lock deriver and the state machine agree at all times: after every sequence of commands
  the state machine is locked exactly when the deriver is.
\<close>
theorem envelope_stage_lock_agrees:
  "eng_locked (sd_engine (es_state_deriver (fst (envelope_run (envelope_init now grace idle) cmds)))) =
   ld_locked (es_lock_deriver (fst (envelope_run (envelope_init now grace idle) cmds)))"
  using envelope_run_lock [of "envelope_init now grace idle" cmds]
  by (simp add: lock_agrees_def envelope_init_def state_deriver_new_def engine_new_def lock_deriver_new_def)

text \<open>
  How the ingest stage cuts the stream of raw events into batches has no influence on the
  envelopes: the adapter followed by the lock deriver gives the same envelopes for the batches one
  after the other as for the whole stream.
\<close>
theorem front_end_batch_independent:
  "front_end_step s (concat batches) = run_steps front_end_step s batches"
  by (rule front_end_concat)

end
