(* ===== verification/Hints_Stage.thy ===== *)
theory Hints_Stage
  imports Envelope_Stage
begin

text \<open>
  The hints stage, src/daemon/pipeline/hints.rs: every hint is stored as an envelope and read by the
  record builder; completed records carry the id of the run and go to the storage and the snapshot
  stage.  When the envelope stage has gone and the channel is drained, the open record is finalized
  and the snapshot stage is told that the hints are complete.
\<close>

section \<open>Operations\<close>

datatype 'f stage_send = ToStorage "'f storage_command" | ToSnapshotStage snapshot_message

text \<open>A failed send is logged and has no effect; both receivers are inputs of the handlers.\<close>

definition store :: "channels \<Rightarrow> 'f storage_command \<Rightarrow> 'f stage_send list" where
  "store C cmd = (if storage_open C then [ToStorage cmd] else [])"

definition tell_snapshot :: "channels \<Rightarrow> snapshot_message \<Rightarrow> 'f stage_send list" where
  "tell_snapshot C m = (if snapshot_open C then [ToSnapshotStage m] else [])"

definition emit_record :: "channels \<Rightarrow> string option \<Rightarrow> activity_record \<Rightarrow> 'f stage_send list" where
  "emit_record C run_id r =
     (let r' = r\<lparr> rec_run_id := run_id \<rparr>
      in store C (StoreRecord r') @ tell_snapshot C (SnapRecord r'))"

definition hints_step ::
  "channels \<Rightarrow> string option \<Rightarrow> record_builder \<Rightarrow> timed_hint \<Rightarrow> record_builder \<times> 'f stage_send list" where
  "hints_step C run_id b = (\<lambda>(env, t_end, t_start).
     let (b', r) = on_hint t_end t_start b env
     in (b', store C (StoreEnvelope env) @
             (case r of Some record \<Rightarrow> emit_record C run_id record | None \<Rightarrow> [])))"

definition hints_end ::
  "channels \<Rightarrow> string option \<Rightarrow> record_builder \<Rightarrow> instant \<Rightarrow> record_builder \<times> 'f stage_send list" where
  "hints_end C run_id b t =
     (let (b', r) = finalize_all t b
      in (b', (case r of Some record \<Rightarrow> emit_record C run_id record | None \<Rightarrow> []) @
              tell_snapshot C SnapHintsComplete))"

text \<open>The whole life of the stage: the hints of the channel, each with its clock readings, and the end.\<close>

fun hints_loop ::
  "string option \<Rightarrow> record_builder \<Rightarrow> timed_hint list \<Rightarrow> instant \<Rightarrow> 'f stage_send list" where
  "hints_loop run_id b [] t = snd (hints_end all_open run_id b t)"
| "hints_loop run_id b (h # hs) t =
     (let (b', out) = hints_step all_open run_id b h in out @ hints_loop run_id b' hs t)"

definition hints_stage ::
  "string option \<Rightarrow> u64 \<Rightarrow> timed_hint list \<Rightarrow> instant \<Rightarrow> 'f stage_send list" where
  "hints_stage run_id next_record_id hs t =
     hints_loop run_id (with_next_record_id Inactive next_record_id) hs t"

section \<open>Specification\<close>

definition stored :: "'f stage_send list \<Rightarrow> 'f storage_command list" where
  "stored out = List.map_filter (\<lambda>s. case s of ToStorage c \<Rightarrow> Some c | _ \<Rightarrow> None) out"

definition told :: "'f stage_send list \<Rightarrow> snapshot_message list" where
  "told out = List.map_filter (\<lambda>s. case s of ToSnapshotStage m \<Rightarrow> Some m | _ \<Rightarrow> None) out"

definition stored_records :: "'f stage_send list \<Rightarrow> activity_record list" where
  "stored_records out = List.map_filter (\<lambda>c. case c of StoreRecord r \<Rightarrow> Some r | _ \<Rightarrow> None) (stored out)"

definition stored_envelopes :: "'f stage_send list \<Rightarrow> event_envelope list" where
  "stored_envelopes out = List.map_filter (\<lambda>c. case c of StoreEnvelope e \<Rightarrow> Some e | _ \<Rightarrow> None) (stored out)"

section \<open>Lemmas\<close>

lemma sends_split:
  "stored (xs @ ys) = stored xs @ stored ys" "told (xs @ ys) = told xs @ told ys"
  "stored_records (xs @ ys) = stored_records xs @ stored_records ys"
  "stored_envelopes (xs @ ys) = stored_envelopes xs @ stored_envelopes ys"
  by (simp_all add: stored_def told_def stored_records_def stored_envelopes_def List.map_filter_def)

lemma sends_Nil [simp]: "stored_records [] = []" "stored_envelopes [] = []" "told [] = []" "stored [] = []"
  by (simp_all add: stored_def told_def stored_records_def stored_envelopes_def List.map_filter_def)

lemma store_open [simp]:
  "stored (store all_open c) = [c]" "told (store all_open c) = []"
  "stored_records (store all_open c) = (case c of StoreRecord r \<Rightarrow> [r] | _ \<Rightarrow> [])"
  "stored_envelopes (store all_open c) = (case c of StoreEnvelope e \<Rightarrow> [e] | _ \<Rightarrow> [])"
  by (cases c; simp add: store_def stored_def told_def stored_records_def stored_envelopes_def List.map_filter_def)+

lemma tell_snapshot_open [simp]:
  "stored (tell_snapshot all_open m) = []" "told (tell_snapshot all_open m) = [m]"
  "stored_records (tell_snapshot all_open m) = []" "stored_envelopes (tell_snapshot all_open m) = []"
  by (simp_all add: tell_snapshot_def stored_def told_def stored_records_def stored_envelopes_def List.map_filter_def)

lemma emit_record_open [simp]:
  "stored_records (emit_record all_open run_id r) = [r\<lparr> rec_run_id := run_id \<rparr>]"
  "stored_envelopes (emit_record all_open run_id r) = []"
  "told (emit_record all_open run_id r) = [SnapRecord (r\<lparr> rec_run_id := run_id \<rparr>)]"
  by (simp_all add: emit_record_def sends_split Let_def)

lemma hints_step_open:
  assumes "builder_step b h = (b', rs)"
  shows "\<exists>out :: 'f stage_send list. hints_step all_open run_id b h = (b', out)
    \<and> stored_records out = map (\<lambda>r. r\<lparr> rec_run_id := run_id \<rparr>) rs
    \<and> stored_envelopes out = [fst h] \<and> told out = map (\<lambda>r. SnapRecord (r\<lparr> rec_run_id := run_id \<rparr>)) rs"
proof -
  obtain env te ts where h: "h = (env, te, ts)" by (cases h)
  obtain r where "on_hint te ts b env = (b', r)" "rs = (case r of None \<Rightarrow> [] | Some x \<Rightarrow> [x])"
    using assms by (auto simp: h split: prod.splits)
  then show ?thesis
    by (cases r) (simp_all add: h hints_step_def sends_split)
qed

definition run_records ::
  "string option \<Rightarrow> record_builder \<Rightarrow> timed_hint list \<Rightarrow> instant \<Rightarrow> activity_record list" where
  "run_records run_id b hs t = map (\<lambda>r. r\<lparr> rec_run_id := run_id \<rparr>) (all_records b hs t)"

lemma hints_loop_correct:
  "stored_records (hints_loop run_id b hs t :: 'f stage_send list) = run_records run_id b hs t
    \<and> stored_envelopes (hints_loop run_id b hs t :: 'f stage_send list) = map fst hs
    \<and> told (hints_loop run_id b hs t :: 'f stage_send list) =
        map SnapRecord (run_records run_id b hs t) @ [SnapHintsComplete]"
  unfolding run_records_def
proof (induction hs arbitrary: b)
  case Nil
  show ?case
    by (cases "rb_current_record b")
       (simp_all add: hints_end_def all_records_Nil open_list_def finalize_all_def finalize_current_def sends_split)
next
  case (Cons h hs)
  obtain b' rs where s: "builder_step b h = (b', rs)" by force
  have "all_records b (h # hs) t = rs @ all_records b' hs t"
    by (simp add: all_records_def s Let_def split_beta)
  moreover obtain out :: "'f stage_send list" where "hints_step all_open run_id b h = (b', out)"
    "stored_records out = map (\<lambda>r. r\<lparr> rec_run_id := run_id \<rparr>) rs"
    "stored_envelopes out = [fst h]" "told out = map (\<lambda>r. SnapRecord (r\<lparr> rec_run_id := run_id \<rparr>)) rs"
    using hints_step_open [OF s] by blast
  ultimately show ?case
    using Cons.IH [of b'] by (simp add: sends_split comp_def)
qed

section \<open>Properties\<close>

text \<open>
  The hints stage stores what the record builder computes and nothing else: the records it
  stores are the records of the builder for the hints it received, completed with the id of the
  run, in order; it stores every hint as an envelope, in order; and it tells the snapshot stage the
  same records in the same order, and then that the hints are complete.
\<close>
theorem hints_stage_complete:
  "let out = (hints_stage run_id n hs t :: 'f stage_send list);
       recs = map (\<lambda>r. r\<lparr> rec_run_id := run_id \<rparr>) (all_records (with_next_record_id Inactive n) hs t)
   in stored_records out = recs \<and> stored_envelopes out = map fst hs
      \<and> told out = map SnapRecord recs @ [SnapHintsComplete]"
  unfolding Let_def hints_stage_def
  using hints_loop_correct [of run_id "with_next_record_id Inactive n" hs t]
  by (simp add: run_records_def)

end
