(* ===== verification/Compression_Stage.thy ===== *)
theory Compression_Stage
  imports Hints_Stage
begin

text \<open>
  The compression stage, src/daemon/pipeline/compression.rs, and the storage stage,
  src/daemon/pipeline/storage.rs.  The compression stage summarises every batch, optionally stores
  the raw events, and keeps statistics that it logs once a minute; the storage stage hands the
  commands to a backend until it reads a shutdown.
\<close>

section \<open>Statistics\<close>

record raw_event_stats =
  rs_total :: u64
  rs_keyboard :: u64
  rs_mouse :: u64
  rs_focus :: u64

definition raw_stats_default :: raw_event_stats where
  "raw_stats_default = \<lparr> rs_total = 0, rs_keyboard = 0, rs_mouse = 0, rs_focus = 0 \<rparr>"

definition raw_stats_event :: "raw_event_stats \<Rightarrow> raw_event \<Rightarrow> raw_event_stats" where
  "raw_stats_event s ev =
     (let s1 = s\<lparr> rs_total := rs_total s + 1 \<rparr>
      in case ev of
           RawKeyboardInput _ _ _ \<Rightarrow> s1\<lparr> rs_keyboard := rs_keyboard s1 + 1 \<rparr>
         | RawMouseInput _ _ _ \<Rightarrow> s1\<lparr> rs_mouse := rs_mouse s1 + 1 \<rparr>
         | RawWindowFocusChange _ _ _ \<Rightarrow> s1\<lparr> rs_focus := rs_focus s1 + 1 \<rparr>)"

definition raw_stats_from_events :: "raw_event list \<Rightarrow> raw_event_stats" where
  "raw_stats_from_events events = foldl raw_stats_event raw_stats_default events"

record compact_event_stats =
  cs_total :: u64
  cs_scroll :: u64
  cs_mouse_traj :: u64
  cs_keyboard :: u64
  cs_focus :: u64

definition compact_stats_default :: compact_event_stats where
  "compact_stats_default = \<lparr> cs_total = 0, cs_scroll = 0, cs_mouse_traj = 0, cs_keyboard = 0, cs_focus = 0 \<rparr>"

definition compact_stats_event :: "compact_event_stats \<Rightarrow> 'f compact_event \<Rightarrow> compact_event_stats" where
  "compact_stats_event s ev =
     (let s1 = s\<lparr> cs_total := cs_total s + 1 \<rparr>
      in case ev of
           CScroll _ \<Rightarrow> s1\<lparr> cs_scroll := cs_scroll s1 + 1 \<rparr>
         | CMouseTrajectory _ \<Rightarrow> s1\<lparr> cs_mouse_traj := cs_mouse_traj s1 + 1 \<rparr>
         | CKeyboard _ \<Rightarrow> s1\<lparr> cs_keyboard := cs_keyboard s1 + 1 \<rparr>
         | CFocus _ \<Rightarrow> s1\<lparr> cs_focus := cs_focus s1 + 1 \<rparr>)"

definition compact_stats_from_events :: "'f compact_event list \<Rightarrow> compact_event_stats" where
  "compact_stats_from_events events = foldl compact_stats_event compact_stats_default events"

record rollup_stats =
  ru_interval :: int
  ru_next_flush :: int
  ru_batches :: u64
  ru_raw :: raw_event_stats
  ru_compact :: compact_event_stats
  ru_by_reason :: "(flush_reason \<times> u64) list"

definition rollup_new :: "int \<Rightarrow> int \<Rightarrow> rollup_stats" where
  "rollup_new mono_now interval =
     \<lparr> ru_interval = interval, ru_next_flush = mono_now + interval, ru_batches = 0,
       ru_raw = raw_stats_default, ru_compact = compact_stats_default, ru_by_reason = [] \<rparr>"

definition rollup_add_batch ::
  "flush_reason \<Rightarrow> raw_event_stats \<Rightarrow> compact_event_stats \<Rightarrow> rollup_stats \<Rightarrow> rollup_stats" where
  "rollup_add_batch reason raw compact r =
     r\<lparr> ru_batches := ru_batches r + 1,
        ru_raw := \<lparr> rs_total = rs_total (ru_raw r) + rs_total raw,
                    rs_keyboard = rs_keyboard (ru_raw r) + rs_keyboard raw,
                    rs_mouse = rs_mouse (ru_raw r) + rs_mouse raw,
                    rs_focus = rs_focus (ru_raw r) + rs_focus raw \<rparr>,
        ru_compact := \<lparr> cs_total = cs_total (ru_compact r) + cs_total compact,
                        cs_scroll = cs_scroll (ru_compact r) + cs_scroll compact,
                        cs_mouse_traj = cs_mouse_traj (ru_compact r) + cs_mouse_traj compact,
                        cs_keyboard = cs_keyboard (ru_compact r) + cs_keyboard compact,
                        cs_focus = cs_focus (ru_compact r) + cs_focus compact \<rparr>,
        ru_by_reason := upsert reason 0 (\<lambda>n. n + 1) (ru_by_reason r) \<rparr>"

definition rollup_flush :: "rollup_stats \<Rightarrow> rollup_stats" where
  "rollup_flush r =
     (if ru_batches r = 0 then r
      else r\<lparr> ru_batches := 0, ru_raw := raw_stats_default, ru_compact := compact_stats_default, ru_by_reason := [] \<rparr>)"

text \<open>The two readings of the monotonic clock are arguments.\<close>

definition rollup_maybe_flush :: "int \<Rightarrow> int \<Rightarrow> rollup_stats \<Rightarrow> rollup_stats" where
  "rollup_maybe_flush mono1 mono2 r =
     (if ru_next_flush r \<le> mono1 then (rollup_flush r)\<lparr> ru_next_flush := mono2 + ru_interval r \<rparr> else r)"

section \<open>The compression stage\<close>

text \<open>The ids to suppress: the fold over the envelopes carries \<open>locked\<close> and \<open>suppress\<close>.\<close>

definition suppress_step :: "bool \<times> u64 list \<Rightarrow> event_envelope \<Rightarrow> bool \<times> u64 list" where
  "suppress_step s env = (case s of (locked, suppress) \<Rightarrow> case env_kind env of
      Signal LockStart \<Rightarrow> (True, suppress)
    | Signal LockEnd \<Rightarrow> (False, suppress)
    | Signal KeyboardInput \<Rightarrow> (locked, if locked then List.insert (env_id env) suppress else suppress)
    | Signal MouseInput \<Rightarrow> (locked, if locked then List.insert (env_id env) suppress else suppress)
    | _ \<Rightarrow> (locked, suppress))"

definition suppressed_ids :: "event_envelope list \<Rightarrow> u64 list" where
  "suppressed_ids envelopes = snd (foldl suppress_step (False, []) envelopes)"

definition forward_raw_events ::
  "channels \<Rightarrow> event_envelope list \<Rightarrow> raw_event list \<Rightarrow> 'f storage_command list" where
  "forward_raw_events C envelopes processed_events =
     (if processed_events = [] then []
      else (let suppress = suppressed_ids envelopes;
                should_store = (\<lambda>ev. case ev of
                    RawKeyboardInput _ event_id _ \<Rightarrow> event_id \<notin> set suppress
                  | RawMouseInput _ event_id _ \<Rightarrow> event_id \<notin> set suppress
                  | RawWindowFocusChange _ _ _ \<Rightarrow> True)
            in if storage_open C then map StoreRawEvent (filter should_store processed_events) else []))"

definition forward_compact_events :: "channels \<Rightarrow> 'f compact_event list \<Rightarrow> 'f storage_command list" where
  "forward_compact_events C compact_events =
     (if compact_events = [] then []
      else if storage_open C then [StoreCompactEvents compact_events] else [])"

fun clear_raw_event_ref :: "'f compact_event \<Rightarrow> 'f compact_event" where
  "clear_raw_event_ref (CScroll s) = CScroll (s\<lparr> ss_raw_event_ids := None \<rparr>)"
| "clear_raw_event_ref (CMouseTrajectory t) = CMouseTrajectory (t\<lparr> mt_raw_event_ids := None \<rparr>)"
| "clear_raw_event_ref (CKeyboard k) = CKeyboard (k\<lparr> ka_raw_event_ids := None \<rparr>)"
| "clear_raw_event_ref (CFocus f) = CFocus (f\<lparr> cf_raw_event_ids := None \<rparr>)"

definition clear_raw_event_refs :: "'f compact_event list \<Rightarrow> 'f compact_event list" where
  "clear_raw_event_refs compact_events = map clear_raw_event_ref compact_events"

record compression_state =
  zs_engine :: compression_engine
  zs_rollup :: rollup_stats
  zs_running :: bool

definition compression_init :: "int \<Rightarrow> nat \<Rightarrow> compression_state" where
  "compression_init mono_now focus_interner_max_strings =
     \<lparr> zs_engine = engine_with_focus_cap focus_interner_max_strings,
       zs_rollup = rollup_new mono_now (secs 60), zs_running = True \<rparr>"

text \<open>One command; \<open>None\<close> is a compression that does not return.\<close>

definition compression_step ::
  "'f f32ops \<Rightarrow> layout \<Rightarrow> channels \<Rightarrow> bool \<Rightarrow> int \<Rightarrow> int \<Rightarrow> compression_state \<Rightarrow> compression_command \<Rightarrow>
   (compression_state \<times> 'f storage_command list) option" where
  "compression_step F L C persist_raw_events mono1 mono2 st cmd = (case cmd of
      CompressShutdown \<Rightarrow>
        Some (st\<lparr> zs_rollup := rollup_flush (zs_rollup st), zs_running := False \<rparr>, [])
    | CompressProcess batch envelopes \<Rightarrow>
        if batch_events batch = [] then Some (st, [])
        else (case compress_events F L (zs_engine st) (batch_events batch) of
                None \<Rightarrow> None
              | Some (eng, processed_events, compact_events) \<Rightarrow>
                  (let raw_stats = raw_stats_from_events (batch_events batch);
                       compact_stats = compact_stats_from_events compact_events;
                       rollup = rollup_maybe_flush mono1 mono2
                                  (rollup_add_batch (batch_reason batch) raw_stats compact_stats (zs_rollup st));
                       st1 = st\<lparr> zs_engine := eng, zs_rollup := rollup \<rparr>
                   in if persist_raw_events
                      then Some (st1, forward_raw_events C envelopes processed_events
                                   @ forward_compact_events C compact_events)
                      else Some (st1, forward_compact_events C (clear_raw_event_refs compact_events)))))"

section \<open>The storage stage\<close>

text \<open>The backend as the stage sees it; every operation returns whether it succeeded.\<close>

record ('b, 'f) backend =
  add_events :: "'b \<Rightarrow> raw_event list \<Rightarrow> 'b \<times> bool"
  add_compact_events :: "'b \<Rightarrow> 'f compact_event list \<Rightarrow> 'b \<times> bool"
  add_envelopes :: "'b \<Rightarrow> event_envelope list \<Rightarrow> 'b \<times> bool"
  add_records :: "'b \<Rightarrow> activity_record list \<Rightarrow> 'b \<times> bool"
  add_transitions :: "'b \<Rightarrow> transition list \<Rightarrow> 'b \<times> bool"

text \<open>The loop body: an error is logged; the flag tells whether the loop goes on.\<close>

definition storage_step :: "('b, 'f) backend \<Rightarrow> 'b \<Rightarrow> 'f storage_command \<Rightarrow> 'b \<times> bool" where
  "storage_step B s cmd = (case cmd of
      StoreRawEvent event \<Rightarrow> (fst (add_events B s [event]), True)
    | StoreRecord record \<Rightarrow> (fst (add_records B s [record]), True)
    | StoreEnvelope env \<Rightarrow> (fst (add_envelopes B s [env]), True)
    | StoreCompactEvents events \<Rightarrow> (fst (add_compact_events B s events), True)
    | StoreTransition t \<Rightarrow> (fst (add_transitions B s [t]), True)
    | StoreShutdown \<Rightarrow> (s, False))"

fun storage_run :: "('b, 'f) backend \<Rightarrow> 'b \<Rightarrow> 'f storage_command list \<Rightarrow> 'b" where
  "storage_run B s [] = s"
| "storage_run B s (c # cs) = (case storage_step B s c of (s', go) \<Rightarrow> if go then storage_run B s' cs else s')"

section \<open>Lemmas\<close>

text \<open>A disciplined stream of envelopes has no input between lock boundaries, so nothing is suppressed.\<close>

lemma suppress_disciplined:
  "lock_discipline b envs = Some b' \<Longrightarrow> (locked \<Longrightarrow> b) \<Longrightarrow>
     snd (foldl suppress_step (locked, ids) envs) = ids"
proof (induction envs arbitrary: b locked)
  case Nil
  then show ?case by simp
next
  case (Cons e es)
  then show ?case
    by (auto simp: suppress_step_def split: event_kind.splits signal_kind.splits if_splits)
qed

lemma front_end_discipline:
  "front_end ad ld raw = (ad', ld', envs) \<Longrightarrow> lock_discipline (ld_locked ld) envs = Some (ld_locked ld')"
  using lock_derive_discipline [OF adapt_batch_no_lock, of ld ad raw]
  by (auto simp: front_end_def Let_def split: prod.splits)

lemma front_end_suppresses_nothing:
  "front_end ad ld raw = (ad', ld', envs) \<Longrightarrow> suppressed_ids envs = []"
  unfolding suppressed_ids_def by (rule suppress_disciplined [OF front_end_discipline]) simp_all

lemma storage_run_until_shutdown:
  "storage_run B s cmds = foldl (\<lambda>s c. fst (storage_step B s c)) s (takeWhile (\<lambda>c. c \<noteq> StoreShutdown) cmds)"
proof (induction cmds arbitrary: s)
  case (Cons c cs)
  then show ?case by (cases c) (simp_all add: storage_step_def)
qed simp

text \<open>Statistics count.\<close>

lemma raw_stats_total:
  "rs_total (raw_stats_from_events es) = of_nat (length es)
   \<and> rs_keyboard (raw_stats_from_events es) + rs_mouse (raw_stats_from_events es) + rs_focus (raw_stats_from_events es)
     = of_nat (length es)"
proof -
  have "rs_total (foldl raw_stats_event s es) = rs_total s + of_nat (length es)
     \<and> rs_keyboard (foldl raw_stats_event s es) + rs_mouse (foldl raw_stats_event s es) + rs_focus (foldl raw_stats_event s es)
       = rs_keyboard s + rs_mouse s + rs_focus s + of_nat (length es)" for s
  proof (induction es arbitrary: s)
    case (Cons e es)
    then show ?case by (cases e) (simp_all add: raw_stats_event_def Let_def algebra_simps)
  qed simp
  from this [of raw_stats_default] show ?thesis by (simp add: raw_stats_from_events_def raw_stats_default_def)
qed

section \<open>Properties\<close>

text \<open>
  Where raw events are persisted, input of a locked session is persisted as well.  The stage
  looks for keyboard and mouse signals between lock boundaries in the envelopes of the batch, but
  those envelopes have passed the lock deriver, which has already dropped them: for every state of
  the front end and every batch, all raw events of the batch are forwarded to storage.
\<close>
theorem locked_input_is_persisted:
  assumes "front_end ad ld raw = (ad', ld', envs)"
  shows "forward_raw_events all_open envs raw = map StoreRawEvent raw"
proof -
  have "case_raw_event (\<lambda>_ _ _. True) (\<lambda>_ _ _. True) (\<lambda>_ _ _. True) = (\<lambda>_. True)"
    by (simp add: fun_eq_iff split: raw_event.split)
  then show ?thesis
    by (simp add: forward_raw_events_def front_end_suppresses_nothing [OF assms] Let_def)
qed

text \<open>A key press while the login window has the focus.\<close>

theorem locked_input_is_persisted_witness:
  "forward_raw_events all_open
     (snd (snd (front_end adapter_new lock_deriver_new demo_raw))) demo_raw = map StoreRawEvent demo_raw"
  by (rule locked_input_is_persisted [where ad = adapter_new and ld = lock_deriver_new
        and ad' = "fst (front_end adapter_new lock_deriver_new demo_raw)"
        and ld' = "fst (snd (front_end adapter_new lock_deriver_new demo_raw))"]) simp

text \<open>
  The storage stage processes, in order, exactly the commands before the first shutdown, whatever
  the backend does with them; a command behind the shutdown is not stored.
\<close>
theorem storage_stops_at_shutdown:
  "storage_run B s (cmds @ StoreShutdown # rest) =
     foldl (\<lambda>s c. fst (storage_step B s c)) s (takeWhile (\<lambda>c. c \<noteq> StoreShutdown) cmds)"
proof -
  have "takeWhile (\<lambda>c. c \<noteq> StoreShutdown) (cmds @ StoreShutdown # rest) = takeWhile (\<lambda>c. c \<noteq> StoreShutdown) cmds"
    by (induction cmds) auto
  then show ?thesis by (simp only: storage_run_until_shutdown)
qed

text \<open>
  The compression stage returns for every batch and forwards what it computed: with raw events
  kept, the raw events of the batch that are not suppressed and then the compact events; without,
  only compact events, which then point to no raw event.
\<close>
theorem compression_stage_forwards:
  assumes "\<not> f_lt F (f_of_int F 2) (f_of_int F 0)" and "batch_events b \<noteq> []"
  shows "\<exists>st' eng' compact. compress_events F L (zs_engine st) (batch_events b) = Some (eng', batch_events b, compact)
    \<and> zs_engine st' = eng' \<and> zs_running st' = zs_running st
    \<and> compression_step F L all_open persist m1 m2 st (CompressProcess b envs) =
        Some (st', (if persist then forward_raw_events all_open envs (batch_events b) else [])
          @ forward_compact_events all_open (if persist then compact else map clear_raw_event_ref compact))
    \<and> (if persist then True else list_all (\<lambda>c. compact_raw_ids c = []) (map clear_raw_event_ref compact))"
proof -
  obtain eng' compact where c: "compress_events F L (zs_engine st) (batch_events b) = Some (eng', batch_events b, compact)"
    using compress_events_returns [OF assms(1)] by blast
  have "compact_raw_ids (clear_raw_event_ref x) = []" for x :: "'a compact_event"
    by (cases x) (simp_all add: pointer_ids_def)
  with c assms(2) show ?thesis
    by (simp add: compression_step_def Let_def clear_raw_event_refs_def list.pred_map comp_def list_all_iff)
qed

theorem compression_stage_forwards_witness:
  "\<exists>st' eng' compact. compress_events int_ops demo_layout (engine_with_focus_cap 8) demo_moves = Some (eng', demo_moves, compact)
    \<and> compression_step int_ops demo_layout all_open False 0 0 (compression_init 0 8)
        (CompressProcess \<lparr> batch_events = demo_moves, batch_reason = FlushTimeout \<rparr> []) =
        Some (st', forward_compact_events all_open (map clear_raw_event_ref compact))"
proof -
  have a: "\<not> f_lt int_ops (f_of_int int_ops 2) (f_of_int int_ops 0)" by (simp add: int_ops_def)
  have b: "batch_events \<lparr> batch_events = demo_moves, batch_reason = FlushTimeout \<rparr> \<noteq> []" by (simp add: demo_moves_def)
  have e: "zs_engine (compression_init 0 8) = engine_with_focus_cap 8" by (simp add: compression_init_def)
  from compression_stage_forwards [OF a b, of demo_layout "compression_init 0 8" False 0 0 "[]"] show ?thesis
    unfolding e by auto
qed

end
