(* ===== verification/Snapshot_Stage.thy ===== *)
theory Snapshot_Stage
  imports Hints_Stage Aggregation
begin

text \<open>
  The snapshot stage, src/daemon/pipeline/snapshot_stage.rs: it keeps the state the daemon shows,
  publishes snapshots on the bus, stores transitions, sets the polling interval and, when both the
  shutdown and the end of the hints have arrived, shuts the storage stage down.

  Clock readings, the metrics of the storage and the iteration orders of hash maps are arguments.
\<close>

section \<open>Durations as text\<close>

definition u64_str :: "u64 \<Rightarrow> string" where
  "u64_str w = nat_str (unat w)"

definition pretty_format_duration :: "u64 \<Rightarrow> string" where
  "pretty_format_duration seconds =
     (if seconds = 0 then ''0s''
      else
        (let days = seconds div (24 * 3600);
             hours = (seconds mod (24 * 3600)) div 3600;
             minutes = (seconds mod 3600) div 60;
             sec = seconds mod 60;
             r0 = (if 0 < days then u64_str days @ ''d'' else []);
             r1 = r0 @ (if 0 < hours then u64_str hours @ ''h'' else []);
             r2 = r1 @ (if 0 < minutes then u64_str minutes @ ''m'' else [])
         in if 0 < sec \<or> r2 = [] then r2 @ u64_str sec @ ''s'' else r2))"

section \<open>The tree of applications\<close>

text \<open>The iteration orders of the hash maps of \<open>build_app_tree\<close>.\<close>

record tree_env =
  tr_windows :: "app_key \<Rightarrow> (u32 \<times> window_activity) list \<Rightarrow> (u32 \<times> window_activity) list"
  tr_groups :: "app_key \<Rightarrow> (string \<times> ephemeral_group) list \<Rightarrow> (string \<times> ephemeral_group) list"
  tr_names :: "(string \<times> aggregated_activity list) list \<Rightarrow> (string \<times> aggregated_activity list) list"

definition tree_env_ok :: "tree_env \<Rightarrow> bool" where
  "tree_env_ok T \<longleftrightarrow> (\<forall>k. iterates (tr_windows T k)) \<and> (\<forall>k. iterates (tr_groups T k)) \<and> iterates (tr_names T)"

text \<open>The multiplication sign is the bytes C3 97 in UTF-8.\<close>

definition times_sign :: string where
  "times_sign = [CHR 0xC3, CHR 0x97]"

definition average :: "u64 \<Rightarrow> u32 \<Rightarrow> u64" where
  "average tot n = (if 0 < n then tot div ucast n else 0)"

fun split_short ::
  "u64 \<Rightarrow> aggregated_activity list \<Rightarrow> (string \<times> aggregated_activity list) list \<Rightarrow>
   (string \<times> aggregated_activity list) list \<times> aggregated_activity list" where
  "split_short max_secs [] short = (short, [])"
| "split_short max_secs (a # as) short =
     (if aa_total_duration_seconds a \<le> max_secs
      then split_short max_secs as (upsert (aa_app_name a) [] (\<lambda>l. l @ [a]) short)
      else (let (short', normal) = split_short max_secs as short in (short', a # normal)))"

definition window_node :: "window_activity \<Rightarrow> snapshot_window" where
  "window_node w =
     \<lparr> sw_window_id = nat_str (unat (wa_window_id w)), sw_window_title = wa_window_title w,
       sw_first_seen = wa_first_seen w, sw_last_seen = wa_last_seen w,
       sw_duration_seconds = wa_duration_seconds w, sw_is_group = False \<rparr>"

definition group_node :: "ephemeral_group \<Rightarrow> snapshot_window" where
  "group_node g =
     (let avg = average (eg_total_duration_seconds g) (eg_occurrence_count g)
      in \<lparr> sw_window_id = ''group:'' @ eg_title_key g,
           sw_window_title = ''(short-lived) '' @ times_sign @ nat_str (card (eg_distinct_ids g))
             @ '' avg '' @ pretty_format_duration avg,
           sw_first_seen = eg_first_seen g, sw_last_seen = eg_last_seen g,
           sw_duration_seconds = eg_total_duration_seconds g, sw_is_group = True \<rparr>)"

definition temporal_node :: "nat \<Rightarrow> temporal_group \<Rightarrow> snapshot_window" where
  "temporal_node idx g =
     (let avg = average (tg_total_duration_seconds g) (tg_occurrence_count g)
      in \<lparr> sw_window_id = ''group-temporal:'' @ tg_title_key g @ '':''
             @ int_str (epoch_secs (tg_anchor_last_seen g)) @ '':'' @ nat_str idx,
           sw_window_title = ''(temporal locality) '' @ times_sign @ nat_str (unat (tg_occurrence_count g))
             @ '' avg '' @ pretty_format_duration avg @ '' max ''
             @ pretty_format_duration (tg_max_duration_seconds g),
           sw_first_seen = tg_first_seen g, sw_last_seen = tg_last_seen g,
           sw_duration_seconds = tg_total_duration_seconds g, sw_is_group = True \<rparr>)"

fun temporal_nodes :: "nat \<Rightarrow> temporal_group list \<Rightarrow> snapshot_window list" where
  "temporal_nodes idx [] = []"
| "temporal_nodes idx (g # gs) = temporal_node idx g # temporal_nodes (Suc idx) gs"

definition newest_windows_first :: "snapshot_window list \<Rightarrow> snapshot_window list" where
  "newest_windows_first = sort_key (\<lambda>w. - sw_last_seen w)"

definition normal_app :: "tree_env \<Rightarrow> aggregated_activity \<Rightarrow> snapshot_app" where
  "normal_app T a =
     (let k = (aa_pid a, aa_process_start_time a);
          windows = map (\<lambda>(_, w). window_node w) (tr_windows T k (aa_windows a));
          groups = map (\<lambda>(_, g). group_node g) (tr_groups T k (aa_ephemeral_groups a));
          temporal = temporal_nodes 0 (aa_temporal_groups a)
      in \<lparr> sa_app_name = aa_app_name a, sa_pid = aa_pid a,
           sa_process_start_time = aa_process_start_time a,
           sa_windows = newest_windows_first (windows @ groups @ temporal),
           sa_total_duration_secs = aa_total_duration_seconds a,
           sa_total_duration_pretty = pretty_format_duration (aa_total_duration_seconds a) \<rparr>)"

text \<open>
  The loop over the processes of one short-lived name: total, first and last time, longest duration
  and its process.  The two readings of the clock per name are the start values of the times.
\<close>

definition short_fold ::
  "u64 \<times> instant \<times> instant \<times> i32 \<times> u64 \<times> u64 \<Rightarrow> aggregated_activity \<Rightarrow> u64 \<times> instant \<times> instant \<times> i32 \<times> u64 \<times> u64" where
  "short_fold = (\<lambda>(tot, first_seen, last_seen, rep_pid, rep_start, max_dur) a.
     let longer = max_dur < aa_total_duration_seconds a
     in (sat_add tot (aa_total_duration_seconds a),
         if aa_first_seen a < first_seen then aa_first_seen a else first_seen,
         if last_seen < aa_last_seen a then aa_last_seen a else last_seen,
         if longer then aa_pid a else rep_pid,
         if longer then aa_process_start_time a else rep_start,
         if longer then aa_total_duration_seconds a else max_dur))"

definition short_app :: "(string \<Rightarrow> instant) \<Rightarrow> (string \<Rightarrow> instant) \<Rightarrow> string \<times> aggregated_activity list \<Rightarrow> snapshot_app" where
  "short_app now1 now2 = (\<lambda>(name, v).
     case foldl short_fold (0, now1 name, now2 name, 0, 0, 0) v of
       (tot, first_seen, last_seen, rep_pid, rep_start, max_dur) \<Rightarrow>
         (let count = length v;
              avg = (if 0 < count then tot div of_nat count else 0)
          in \<lparr> sa_app_name = name, sa_pid = rep_pid, sa_process_start_time = rep_start,
               sa_windows = [\<lparr> sw_window_id = ''app-group:'' @ name,
                              sw_window_title = times_sign @ nat_str count @ '' avg '' @ pretty_format_duration avg,
                              sw_first_seen = first_seen, sw_last_seen = last_seen,
                              sw_duration_seconds = tot, sw_is_group = True \<rparr>],
               sa_total_duration_secs = tot,
               sa_total_duration_pretty = pretty_format_duration tot \<rparr>))"

definition app_last_seen :: "snapshot_app \<Rightarrow> instant" where
  "app_last_seen a = (case sa_windows a of w # _ \<Rightarrow> sw_last_seen w | [] \<Rightarrow> 0)"

definition build_app_tree ::
  "tree_env \<Rightarrow> (string \<Rightarrow> instant) \<Rightarrow> (string \<Rightarrow> instant) \<Rightarrow> aggregated_activity list \<Rightarrow> u64 \<Rightarrow> nat \<Rightarrow> snapshot_app list" where
  "build_app_tree T now1 now2 aggregated app_short_max_duration_secs app_short_min_distinct =
     (let (short_per_name, normal) = split_short app_short_max_duration_secs aggregated [];
          items = map (normal_app T) normal
            @ map (short_app now1 now2)
                (filter (\<lambda>(_, v). app_short_min_distinct \<le> length v) (tr_names T short_per_name))
      in sort_key (\<lambda>a. - app_last_seen a) items)"

section \<open>The stage\<close>

record snapshot_cfg =
  sc_cfg_summary :: config_summary
  sc_retention_minutes :: u64
  sc_eph_max :: u64
  sc_eph_min :: nat
  sc_max_windows :: nat
  sc_app_eph_max :: u64
  sc_app_eph_min :: nat

text \<open>What one publication reads from its surroundings.\<close>

record publish_env =
  pe_now :: instant
  pe_now_timeout :: instant
  pe_now_first :: "string \<Rightarrow> instant"
  pe_now_last :: "string \<Rightarrow> instant"
  pe_mono_ns :: u64
  pe_metrics :: storage_info
  pe_agg :: agg_env
  pe_tree :: tree_env

record snapshot_state =
  st_counts :: counts
  st_recent_records :: "activity_record list"
  st_current_state :: activity_state
  st_current_focus :: "window_focus_info option"
  st_last_transition :: "transition option"
  st_state_hist :: "char list"
  st_shutdown_requested :: bool
  st_hints_complete :: bool
  st_storage_shutdown_sent :: bool
  st_bus :: snapshot_bus
  st_poll_handle :: u64
  st_running :: bool

definition POLL_SUSPEND_MS :: u64 where "POLL_SUSPEND_MS = 0"

definition poll_interval :: "activity_state \<Rightarrow> u64" where
  "poll_interval s = (case s of Active \<Rightarrow> 2000 | Passive \<Rightarrow> 10000 | Inactive \<Rightarrow> 20000 | Locked \<Rightarrow> POLL_SUSPEND_MS)"

text \<open>Records that ended before the retention window leave the queue at the front.\<close>

fun drop_expired :: "instant \<Rightarrow> instant \<Rightarrow> activity_record list \<Rightarrow> activity_record list" where
  "drop_expired now since [] = []"
| "drop_expired now since (r # rs) =
     (if (case rec_end_time r of Some t \<Rightarrow> t | None \<Rightarrow> now) < since then drop_expired now since rs else r # rs)"

text \<open>\<open>chrono::Duration::minutes(retention_minutes as i64)\<close>.\<close>

definition retention_of :: "u64 \<Rightarrow> duration" where
  "retention_of retention_minutes = mins (sint retention_minutes)"

definition publish_snapshot :: "snapshot_cfg \<Rightarrow> publish_env \<Rightarrow> snapshot_state \<Rightarrow> snapshot_state" where
  "publish_snapshot cfg P st =
     (let now = pe_now P;
          since = now - retention_of (sc_retention_minutes cfg);
          recent = drop_expired now since (st_recent_records st);
          aggregated = aggregate_activities_since (pe_agg P) recent since now
            (sc_eph_max cfg) (sc_eph_min cfg) (sc_max_windows cfg);
          ms = poll_interval (st_current_state st);
          apps = build_app_tree (pe_tree P) (pe_now_first P) (pe_now_last P) aggregated
            (sc_app_eph_max cfg) (sc_app_eph_min cfg);
          reason = activity_state_debug (st_current_state st);
          next_timeout = Some (pe_now_timeout P + millis (sint ms))
      in st\<lparr> st_recent_records := recent, st_poll_handle := ms,
             st_bus := publish_basic (pe_mono_ns P) (st_current_state st) (st_current_focus st)
               (st_last_transition st) recent (st_counts st) (ucast ms) reason next_timeout (pe_metrics P)
               (sc_cfg_summary cfg) (current_health (st_bus st)) apps (st_bus st) \<rparr>)"

definition attach_run_id :: "snapshot_bus \<Rightarrow> transition \<Rightarrow> transition" where
  "attach_run_id bus t = (if trn_run_id t = None then t\<lparr> trn_run_id := bus_run_id bus \<rparr> else t)"

definition apply_update :: "snapshot_update \<Rightarrow> snapshot_state \<Rightarrow> snapshot_state \<times> transition list" where
  "apply_update u st =
     (let st1 = st\<lparr> st_counts := (st_counts st)\<lparr>
            hints_seen := sat_add (hints_seen (st_counts st)) (up_hints_delta u),
            signals_seen := sat_add (signals_seen (st_counts st)) (up_signals_delta u) \<rparr> \<rparr>;
          st2 = (case up_focus u of Some f \<Rightarrow> st1\<lparr> st_current_focus := Some f \<rparr> | None \<Rightarrow> st1);
          st3 = (case up_state u of Some s \<Rightarrow> st2\<lparr> st_current_state := s \<rparr> | None \<Rightarrow> st2);
          st4 = (case up_focus_title u of
                   Some (window_id, title) \<Rightarrow>
                     (case st_current_focus st3 of
                        Some f \<Rightarrow> if fi_window_id f = window_id
                                  then st3\<lparr> st_current_focus := Some (f\<lparr> fi_window_title := title \<rparr>) \<rparr> else st3
                      | None \<Rightarrow> st3)
                 | None \<Rightarrow> st3)
      in case up_transition u of
           Some t \<Rightarrow>
             (let t' = attach_run_id (st_bus st4) t
              in (st4\<lparr> st_bus := push_transition (st_bus st4) t', st_last_transition := Some t' \<rparr>, [t']))
         | None \<Rightarrow> (st4, []))"

definition state_char :: "activity_state \<Rightarrow> char" where
  "state_char s = (case s of Active \<Rightarrow> CHR ''A'' | Passive \<Rightarrow> CHR ''P'' | Inactive \<Rightarrow> CHR ''I'' | Locked \<Rightarrow> CHR ''L'')"

definition update_records :: "activity_record \<Rightarrow> snapshot_state \<Rightarrow> snapshot_state" where
  "update_records r st =
     (let ch = state_char (rec_state r);
          hist = st_state_hist st;
          hist' = (if hist = [] \<or> last hist \<noteq> ch
                   then (let h = hist @ [ch] in if 10 < length h then tl h else h)
                   else hist)
      in st\<lparr> st_state_hist := hist', st_recent_records := st_recent_records st @ [r],
             st_counts := (st_counts st)\<lparr> records_emitted := sat_add (records_emitted (st_counts st)) 1 \<rparr> \<rparr>)"

text \<open>\<open>maybe_finalize\<close>; the flag is its result, and the list what it sends to storage.\<close>

definition maybe_finalize ::
  "snapshot_cfg \<Rightarrow> channels \<Rightarrow> publish_env \<Rightarrow> bool \<Rightarrow> bool \<Rightarrow> snapshot_state \<Rightarrow>
   snapshot_state \<times> 'f storage_command list \<times> bool" where
  "maybe_finalize cfg C P shutdown_requested hints_complete st =
     (if \<not> shutdown_requested \<or> \<not> hints_complete \<or> st_storage_shutdown_sent st then (st, [], False)
      else ((publish_snapshot cfg P st)\<lparr> st_storage_shutdown_sent := True \<rparr>,
            if storage_open C then [StoreShutdown] else [], True))"

definition snapshot_step ::
  "snapshot_cfg \<Rightarrow> channels \<Rightarrow> publish_env \<Rightarrow> snapshot_state \<Rightarrow> snapshot_message \<Rightarrow>
   snapshot_state \<times> 'f storage_command list" where
  "snapshot_step cfg C P st msg = (case msg of
      SnapUpdate u \<Rightarrow>
        (let (st', ts) = apply_update u st in (st', if storage_open C then map StoreTransition ts else []))
    | SnapRecord r \<Rightarrow> (update_records r st, [])
    | SnapPublish \<Rightarrow> (publish_snapshot cfg P st, [])
    | SnapHintsComplete \<Rightarrow>
        (let st1 = st\<lparr> st_hints_complete := True \<rparr>;
             (st2, out, fin) = maybe_finalize cfg C P (st_shutdown_requested st1) True st1
         in (st2\<lparr> st_running := \<not> fin \<rparr>, out))
    | SnapShutdown \<Rightarrow>
        (let st1 = st\<lparr> st_shutdown_requested := True \<rparr>;
             (st2, out, fin) = maybe_finalize cfg C P True (st_hints_complete st1) st1
         in (st2\<lparr> st_running := \<not> fin \<rparr>, out)))"

text \<open>The start of the stage: the hydrated transitions are replayed and a first snapshot is published.\<close>

definition replay_transition :: "snapshot_state \<Rightarrow> transition \<Rightarrow> snapshot_state" where
  "replay_transition st t =
     (let t' = attach_run_id (st_bus st) t
      in st\<lparr> st_current_state := trn_to t', st_last_transition := Some t',
             st_bus := push_transition (st_bus st) t' \<rparr>)"

definition snapshot_empty_state :: "snapshot_bus \<Rightarrow> u64 \<Rightarrow> activity_record list \<Rightarrow> snapshot_state" where
  "snapshot_empty_state bus poll initial_records =
     \<lparr> st_counts = counts_default, st_recent_records = initial_records, st_current_state = Inactive,
       st_current_focus = None, st_last_transition = None, st_state_hist = [],
       st_shutdown_requested = False, st_hints_complete = False, st_storage_shutdown_sent = False,
       st_bus = bus, st_poll_handle = poll, st_running = True \<rparr>"

definition snapshot_start ::
  "snapshot_cfg \<Rightarrow> publish_env \<Rightarrow> snapshot_bus \<Rightarrow> u64 \<Rightarrow> activity_record list \<Rightarrow> transition list \<Rightarrow> snapshot_state" where
  "snapshot_start cfg P bus poll initial_records initial_transitions =
     publish_snapshot cfg P
       (foldl replay_transition (snapshot_empty_state bus poll initial_records) initial_transitions)"

text \<open>
  The loop: every message comes with what a publication then reads; the list ends when all senders
  have gone.
\<close>

fun snapshot_loop ::
  "snapshot_cfg \<Rightarrow> publish_env \<Rightarrow> snapshot_state \<Rightarrow> (publish_env \<times> snapshot_message) list \<Rightarrow>
   snapshot_state \<times> 'f storage_command list" where
  "snapshot_loop cfg Pend st [] =
     (if \<not> st_storage_shutdown_sent st
      then (case maybe_finalize cfg all_open Pend True True st of (st', out, _) \<Rightarrow> (st', out))
      else (st, []))"
| "snapshot_loop cfg Pend st ((P, m) # ms) =
     (let (st', out) = snapshot_step cfg all_open P st m
      in if st_running st' then (let (st'', out') = snapshot_loop cfg Pend st' ms in (st'', out @ out'))
         else (st', out))"

section \<open>Lemmas: finalization\<close>

lemma publish_snapshot_fields [simp]:
  "st_storage_shutdown_sent (publish_snapshot cfg P st) = st_storage_shutdown_sent st"
  "st_running (publish_snapshot cfg P st) = st_running st"
  "st_shutdown_requested (publish_snapshot cfg P st) = st_shutdown_requested st"
  "st_hints_complete (publish_snapshot cfg P st) = st_hints_complete st"
  "st_current_state (publish_snapshot cfg P st) = st_current_state st"
  "st_current_focus (publish_snapshot cfg P st) = st_current_focus st"
  "st_last_transition (publish_snapshot cfg P st) = st_last_transition st"
  "st_counts (publish_snapshot cfg P st) = st_counts st"
  "bus_transitions (st_bus (publish_snapshot cfg P st)) = bus_transitions (st_bus st)"
  "bus_run_id (st_bus (publish_snapshot cfg P st)) = bus_run_id (st_bus st)"
  by (simp_all add: publish_snapshot_def publish_basic_def Let_def)

lemma apply_update_fields:
  assumes "apply_update u st = (st', ts)"
  shows "st_storage_shutdown_sent st' = st_storage_shutdown_sent st" "st_running st' = st_running st"
    "st_shutdown_requested st' = st_shutdown_requested st" "st_hints_complete st' = st_hints_complete st"
    "bus_run_id (st_bus st') = bus_run_id (st_bus st)"
    "ts = (case up_transition u of None \<Rightarrow> [] | Some t \<Rightarrow> [attach_run_id (st_bus st) t])"
    "st_bus st' = foldl push_transition (st_bus st) ts"
    "st_current_state st' = (case up_state u of None \<Rightarrow> st_current_state st | Some s \<Rightarrow> s)"
  using assms
  by (auto simp: apply_update_def Let_def push_transition_def split: option.splits if_splits)

definition only_transitions :: "'f storage_command list \<Rightarrow> bool" where
  "only_transitions cs = list_all (\<lambda>c. case c of StoreTransition _ \<Rightarrow> True | _ \<Rightarrow> False) cs"

lemma only_transitions_map [simp]: "only_transitions (map StoreTransition ts)"
  by (simp add: only_transitions_def list_all_iff)

lemma snapshot_step_out:
  assumes "\<not> st_storage_shutdown_sent st" "st_running st"
    and "snapshot_step cfg all_open P st m = (st', out :: 'f storage_command list)"
  shows "if st_running st' then \<not> st_storage_shutdown_sent st' \<and> only_transitions out
    else st_storage_shutdown_sent st' \<and> out = [StoreShutdown]
      \<and> st_shutdown_requested st' \<and> st_hints_complete st'"
proof (cases m)
  case (SnapUpdate u)
  obtain st1 ts where a: "apply_update u st = (st1, ts)" by force
  with assms SnapUpdate have "st' = st1" "out = map StoreTransition ts" by (auto simp: snapshot_step_def)
  with apply_update_fields [OF a] assms(1,2) show ?thesis by simp
next
  case (SnapRecord r)
  with assms show ?thesis by (auto simp: snapshot_step_def update_records_def only_transitions_def Let_def)
next
  case SnapPublish
  with assms show ?thesis by (auto simp: snapshot_step_def only_transitions_def)
next
  case SnapHintsComplete
  with assms show ?thesis
    by (auto simp: snapshot_step_def maybe_finalize_def only_transitions_def Let_def split: if_splits)
next
  case SnapShutdown
  with assms show ?thesis
    by (auto simp: snapshot_step_def maybe_finalize_def only_transitions_def Let_def split: if_splits)
qed

lemma snapshot_loop_out:
  "\<not> st_storage_shutdown_sent st \<Longrightarrow> st_running st \<Longrightarrow>
   snapshot_loop cfg Pend st ms = (st', out :: 'f storage_command list) \<Longrightarrow>
     \<exists>ts. out = ts @ [StoreShutdown] \<and> only_transitions ts"
proof (induction ms arbitrary: st st' out)
  case Nil
  then show ?case by (auto simp: maybe_finalize_def only_transitions_def)
next
  case (Cons pm ms)
  obtain P m where pm: "pm = (P, m)" by (cases pm)
  obtain st1 o1 where s: "snapshot_step cfg all_open P st m = (st1, o1 :: 'f storage_command list)" by force
  note o = snapshot_step_out [OF Cons.prems(1,2) s]
  show ?case
  proof (cases "st_running st1")
    case True
    obtain st2 o2 where r: "snapshot_loop cfg Pend st1 ms = (st2, o2 :: 'f storage_command list)" by force
    from Cons.IH [OF _ True r] o True obtain ts where "o2 = ts @ [StoreShutdown]" "only_transitions ts" by auto
    with o True s r pm Cons.prems(3) show ?thesis
      by (intro exI [of _ "o1 @ ts"]) (auto simp: only_transitions_def)
  next
    case False
    with o s pm Cons.prems(3) show ?thesis by (auto simp: only_transitions_def)
  qed
qed

section \<open>Lemmas: hydration and replay\<close>

lemma attach_run_id_bus [simp]: "attach_run_id (push_transition bus t) = attach_run_id bus"
  by (simp add: attach_run_id_def push_transition_def fun_eq_iff)

lemma attach_run_id_state [simp]:
  "trn_to (attach_run_id bus t) = trn_to t" "trn_at (attach_run_id bus t) = trn_at t"
  "trn_from (attach_run_id bus t) = trn_from t"
  by (simp_all add: attach_run_id_def)

lemma replay_transitions:
  "foldl replay_transition st ts =
     (if ts = [] then st
      else st\<lparr> st_current_state := trn_to (last ts),
               st_last_transition := Some (attach_run_id (st_bus st) (last ts)),
               st_bus := foldl push_transition (st_bus st) (map (attach_run_id (st_bus st)) ts) \<rparr>)"
proof (induction ts arbitrary: st)
  case (Cons t ts)
  have "replay_transition st t = st\<lparr> st_current_state := trn_to t,
      st_last_transition := Some (attach_run_id (st_bus st) t),
      st_bus := push_transition (st_bus st) (attach_run_id (st_bus st) t) \<rparr>"
    by (simp add: replay_transition_def Let_def)
  then show ?case by (simp add: Cons.IH)
qed simp

lemma pushes_bus_transitions:
  "bus_transitions bus = [] \<Longrightarrow> bus_transitions (foldl push_transition bus ts) = last_n 64 ts"
  by (rule transitions.pushes_from_empty)

section \<open>Lemmas: records\<close>

lemma drop_expired_suffix: "\<exists>xs. rs = xs @ drop_expired now since rs \<and>
    list_all (\<lambda>r. (case rec_end_time r of Some t \<Rightarrow> t | None \<Rightarrow> now) < since) xs"
proof (induction rs)
  case (Cons r rs)
  then obtain xs where "rs = xs @ drop_expired now since rs"
    "list_all (\<lambda>r. (case rec_end_time r of Some t \<Rightarrow> t | None \<Rightarrow> now) < since) xs" by blast
  then show ?case
    by (cases "(case rec_end_time r of Some t \<Rightarrow> t | None \<Rightarrow> now) < since")
       (auto intro: exI [of _ "r # xs"] exI [of _ "[]"])
qed simp

lemma state_hist_bounded:
  "length (st_state_hist st) \<le> 10 \<Longrightarrow> length (st_state_hist (update_records r st)) \<le> 10"
  by (auto simp: update_records_def Let_def)

section \<open>Properties\<close>

text \<open>
  The storage stage is shut down exactly once and after everything else.  Whatever messages the
  snapshot stage reads and in whatever order, and also when all senders disappear, the commands it
  sends to storage are transitions followed by a single shutdown.
\<close>
theorem snapshot_shuts_storage_down_once:
  "\<exists>ts. snd (snapshot_loop cfg Pend (snapshot_start cfg P bus poll records transitions) ms :: snapshot_state \<times> 'f storage_command list)
     = ts @ [StoreShutdown] \<and> only_transitions ts"
proof -
  let ?st = "snapshot_start cfg P bus poll records transitions"
  have "\<not> st_storage_shutdown_sent ?st" "st_running ?st"
    by (simp_all add: snapshot_start_def replay_transitions snapshot_empty_state_def)
  from snapshot_loop_out [OF this, of cfg Pend ms] show ?thesis by (metis prod.collapse)
qed

text \<open>
  After a restart the daemon shows its oldest transition as its last one.  The storage returns
  the transitions newest first and the stage replays them in that order, so that for every such
  list the state shown is the one the oldest transition led to, the last transition is the oldest,
  and the newest of the recent transitions is the oldest.
\<close>
theorem hydration_is_reversed:
  assumes "ts \<noteq> []" and "length ts \<le> 64" and "sorted_wrt (\<lambda>t t'. trn_at t' \<le> trn_at t) ts"
    and "bus_transitions bus = []"
    and "st = snapshot_start cfg P bus poll records ts"
  shows "\<exists>oldest. oldest \<in> set ts \<and> list_all (\<lambda>t. trn_at oldest \<le> trn_at t) ts
    \<and> st_current_state st = trn_to oldest
    \<and> st_last_transition st = Some (attach_run_id bus oldest)
    \<and> recent_transitions (st_bus st) 1 = [attach_run_id bus oldest]"
proof (intro exI conjI)
  show "last ts \<in> set ts" using assms(1) by simp
  show "list_all (\<lambda>t. trn_at (last ts) \<le> trn_at t) ts"
    using assms(1,3) by (induction ts) (auto simp: list_all_iff)
  show "st_current_state st = trn_to (last ts)" "st_last_transition st = Some (attach_run_id bus (last ts))"
    using assms(1,5) by (simp_all add: snapshot_start_def replay_transitions snapshot_empty_state_def)
  have "bus_transitions (st_bus st) = last_n 64 (map (attach_run_id bus) ts)"
    using assms(1,4,5) pushes_bus_transitions [of bus]
    by (simp add: snapshot_start_def replay_transitions snapshot_empty_state_def)
  then show "recent_transitions (st_bus st) 1 = [attach_run_id bus (last ts)]"
    using assms(1,2) by (cases ts rule: rev_cases) (simp_all add: recent_transitions_take last_n_def)
qed

definition demo_tree_env :: tree_env where
  "demo_tree_env = \<lparr> tr_windows = (\<lambda>_ m. m), tr_groups = (\<lambda>_ m. m), tr_names = (\<lambda>m. m) \<rparr>"

definition demo_publish_env :: publish_env where
  "demo_publish_env = \<lparr> pe_now = secs 1000, pe_now_timeout = secs 1000, pe_now_first = (\<lambda>_. secs 1000),
     pe_now_last = (\<lambda>_. secs 1000), pe_mono_ns = 5, pe_metrics = \<lparr> backlog_count = 0, last_flush_at = None \<rparr>,
     pe_agg = ascii_env, pe_tree = demo_tree_env \<rparr>"

definition demo_cfg :: snapshot_cfg where
  "demo_cfg = \<lparr> sc_cfg_summary = config_summary_default, sc_retention_minutes = 30, sc_eph_max = 60,
     sc_eph_min = 3, sc_max_windows = 30, sc_app_eph_max = 60, sc_app_eph_min = 3 \<rparr>"

definition demo_stored_transitions :: "transition list" where
  "demo_stored_transitions = [demo_transition Passive Inactive 30, demo_transition Active Passive 20,
     demo_transition Inactive Active 10]"

theorem hydration_is_reversed_witness:
  "st_current_state (snapshot_start demo_cfg demo_publish_env (bus_new 0) 0 [] demo_stored_transitions) = Active
   \<and> (\<exists>oldest. oldest \<in> set demo_stored_transitions
      \<and> st_last_transition (snapshot_start demo_cfg demo_publish_env (bus_new 0) 0 [] demo_stored_transitions)
        = Some (attach_run_id (bus_new 0) oldest))"
proof -
  have "demo_stored_transitions \<noteq> []" "length demo_stored_transitions \<le> 64"
    "sorted_wrt (\<lambda>t t'. trn_at t' \<le> trn_at t) demo_stored_transitions" "bus_transitions (bus_new 0) = []"
    by (simp_all add: demo_stored_transitions_def demo_transition_def bus_new_def)
  from hydration_is_reversed [OF this refl, of demo_cfg demo_publish_env 0 "[]"]
  have "\<exists>oldest. oldest \<in> set demo_stored_transitions
      \<and> st_last_transition (snapshot_start demo_cfg demo_publish_env (bus_new 0) 0 [] demo_stored_transitions)
        = Some (attach_run_id (bus_new 0) oldest)" by blast
  moreover have "st_current_state (snapshot_start demo_cfg demo_publish_env (bus_new 0) 0 [] demo_stored_transitions) = Active"
    by (simp add: snapshot_start_def snapshot_empty_state_def demo_stored_transitions_def demo_transition_def
        replay_transition_def Let_def)
  ultimately show ?thesis by blast
qed

definition stale_title_batch :: raw_batch where
  "stale_title_batch = \<lparr> batch_events =
     [RawWindowFocusChange (secs 1) 1 (demo_focus ''Safari'' 3 ''A''),
      RawWindowFocusChange (secs 2) 2 (demo_focus ''Safari'' 3 ''B''),
      RawWindowFocusChange (secs 3) 3 (demo_focus ''Safari'' 4 ''X''),
      RawWindowFocusChange (secs 4) 4 (demo_focus ''Safari'' 3 ''C'')], batch_reason = FlushTimeout \<rparr>"

definition apply_updates :: "snapshot_state \<Rightarrow> snapshot_update list \<Rightarrow> snapshot_state" where
  "apply_updates st us = foldl (\<lambda>st u. fst (apply_update u st)) st us"

definition builder_of_hints :: "event_envelope list \<Rightarrow> record_builder" where
  "builder_of_hints hs = fst (builder_run (with_next_record_id Inactive 0) (map (\<lambda>h. (h, 0, 0)) hs))"

text \<open>
  The snapshot can show a stale title.  An update carries the last focus and the last title of
  a batch, not their order: after one batch in which a window is focused, gets a new title, loses
  the focus and gets it back with a third title, the snapshot stage shows the second title, while
  the record builder, which reads the same hints, has the third.
\<close>
theorem snapshot_shows_stale_title:
  "let out = snd (envelope_batch all_open (envelope_init 0 30 120) stale_title_batch)
   in map_option fi_window_title (st_current_focus
        (apply_updates (snapshot_empty_state (bus_new 0) 0 []) (sent_updates out))) = Some ''B''
      \<and> map_option fi_window_title (rb_current_focus (builder_of_hints (sent_hints out))) = Some ''C''"
  by code_simp

end
