(* ===== verification/Pipeline.thy ===== *)
theory Pipeline
  imports Ingest Envelope_Stage Hints_Stage Compression_Stage Snapshot_Stage
begin

text \<open>
  The pipeline of src/daemon/pipeline.rs: six threads and five unbounded FIFO channels.  A state
  holds the state of every stage and the content of every channel; an action lets one stage handle
  the head of its channel, or see that the channel is drained and all its senders have gone.  The
  readings of clocks and the like are part of the action.  A channel is open while its receiving
  stage runs: what is sent to a stage that has ended is lost.

  \<open>p_store_log\<close> records every command ever sent to the storage stage; nothing depends on it.
\<close>

section \<open>States and actions\<close>

text \<open>\<open>PipelineConfig\<close>, and the whole surroundings of the stages: float arithmetic and type sizes, the
  storage backend with its two hydration queries, and the id of the run.\<close>

record pipeline_config =
  retention_minutes :: u64
  active_grace_secs :: u64
  idle_threshold_secs :: u64
  ephemeral_max_duration_secs :: u64
  ephemeral_min_distinct_ids :: u64
  max_windows_per_app :: u64
  ephemeral_app_max_duration_secs :: u64
  ephemeral_app_min_distinct_procs :: u64
  focus_interner_max_strings :: u64
  persist_raw_events :: bool

record ('b, 'f) pipe_cfg =
  pc_config :: pipeline_config
  pc_run_id :: "string option"
  pc_f32 :: "'f f32ops"
  pc_layout :: layout
  pc_backend :: "('b, 'f) backend"
  pc_fetch_records_since :: "'b \<Rightarrow> instant \<Rightarrow> string option \<Rightarrow> 'b \<times> (string + activity_record list)"
  pc_fetch_recent_transitions :: "'b \<Rightarrow> instant \<Rightarrow> string option \<Rightarrow> nat \<Rightarrow> 'b \<times> (string + transition list)"

definition cfg_summary_of :: "pipeline_config \<Rightarrow> config_summary" where
  "cfg_summary_of c =
     \<lparr> cfg_active_grace_secs = active_grace_secs c, cfg_idle_threshold_secs = idle_threshold_secs c,
       cfg_retention_minutes = retention_minutes c,
       cfg_ephemeral_max_duration_secs = ephemeral_max_duration_secs c,
       cfg_ephemeral_min_distinct_ids = ephemeral_min_distinct_ids c,
       cfg_ephemeral_app_max_duration_secs = ephemeral_app_max_duration_secs c,
       cfg_ephemeral_app_min_distinct_procs = ephemeral_app_min_distinct_procs c \<rparr>"

definition snapshot_cfg_of :: "pipeline_config \<Rightarrow> snapshot_cfg" where
  "snapshot_cfg_of c =
     \<lparr> sc_cfg_summary = cfg_summary_of c, sc_retention_minutes = retention_minutes c,
       sc_eph_max = ephemeral_max_duration_secs c, sc_eph_min = unat (ephemeral_min_distinct_ids c),
       sc_max_windows = unat (max_windows_per_app c), sc_app_eph_max = ephemeral_app_max_duration_secs c,
       sc_app_eph_min = unat (ephemeral_app_min_distinct_procs c) \<rparr>"

record ('b, 'f) pipe =
  p_ingest :: ingest_state
  p_envelope :: envelope_state
  p_builder :: record_builder
  p_hints_running :: bool
  p_compression :: compression_state
  p_snapshot :: snapshot_state
  p_backend :: 'b
  p_storage_running :: bool
  p_derive_q :: "derive_command list"
  p_hints_q :: "event_envelope list"
  p_compression_q :: "compression_command list"
  p_snapshot_q :: "snapshot_message list"
  p_storage_q :: "'f storage_command list"
  p_store_log :: "'f storage_command list"

datatype action =
    DoIngest ingest_input
  | DoEnvelope
  | DoEnvelopeEnd
  | DoHints instant instant
  | DoHintsEnd instant
  | DoCompression int int
  | DoCompressionEnd
  | DoSnapshot publish_env
  | DoSnapshotEnd publish_env
  | DoStorage
  | DoStorageEnd

definition open_channels :: "('b, 'f) pipe \<Rightarrow> channels" where
  "open_channels s = \<lparr> hints_open = p_hints_running s, compression_open = zs_running (p_compression s),
     snapshot_open = st_running (p_snapshot s), storage_open = p_storage_running s \<rparr>"

section \<open>Sending\<close>

definition put_storage :: "'f storage_command list \<Rightarrow> ('b, 'f) pipe \<Rightarrow> ('b, 'f) pipe" where
  "put_storage cmds s = s\<lparr> p_storage_q := p_storage_q s @ cmds, p_store_log := p_store_log s @ cmds \<rparr>"

fun put_send :: "envelope_send \<Rightarrow> ('b, 'f) pipe \<Rightarrow> ('b, 'f) pipe" where
  "put_send (ToHints e) s = s\<lparr> p_hints_q := p_hints_q s @ [e] \<rparr>"
| "put_send (ToCompression c) s = s\<lparr> p_compression_q := p_compression_q s @ [c] \<rparr>"
| "put_send (ToSnapshot m) s = s\<lparr> p_snapshot_q := p_snapshot_q s @ [m] \<rparr>"
| "put_send (ToStorageEnvelope e) s = put_storage [StoreEnvelope e] s"

fun put_stage_send :: "'f stage_send \<Rightarrow> ('b, 'f) pipe \<Rightarrow> ('b, 'f) pipe" where
  "put_stage_send (ToStorage c) s = put_storage [c] s"
| "put_stage_send (ToSnapshotStage m) s = s\<lparr> p_snapshot_q := p_snapshot_q s @ [m] \<rparr>"

section \<open>Steps\<close>

definition do_ingest :: "ingest_input \<Rightarrow> ('b, 'f) pipe \<Rightarrow> ('b, 'f) pipe option" where
  "do_ingest inp s =
     (if \<not> ing_running (p_ingest s) then None
      else case ingest_step (es_running (p_envelope s)) (p_ingest s) inp of
             None \<Rightarrow> None
           | Some (st, out) \<Rightarrow> Some (s\<lparr> p_ingest := st, p_derive_q := p_derive_q s @ out \<rparr>))"

definition do_envelope :: "('b, 'f) pipe \<Rightarrow> ('b, 'f) pipe option" where
  "do_envelope s = (case p_derive_q s of
      [] \<Rightarrow> None
    | c # cs \<Rightarrow>
        if \<not> es_running (p_envelope s) then None
        else (case envelope_step (open_channels s) (p_envelope s) c of
                (st, out) \<Rightarrow> Some (fold put_send out (s\<lparr> p_envelope := st, p_derive_q := cs \<rparr>))))"

definition do_envelope_end :: "('b, 'f) pipe \<Rightarrow> ('b, 'f) pipe option" where
  "do_envelope_end s =
     (if es_running (p_envelope s) \<and> p_derive_q s = [] \<and> \<not> ing_running (p_ingest s)
      then Some (s\<lparr> p_envelope := (p_envelope s)\<lparr> es_running := False \<rparr> \<rparr>) else None)"

definition do_hints :: "('b, 'f) pipe_cfg \<Rightarrow> instant \<Rightarrow> instant \<Rightarrow> ('b, 'f) pipe \<Rightarrow> ('b, 'f) pipe option" where
  "do_hints cfg t_end t_start s = (case p_hints_q s of
      [] \<Rightarrow> None
    | h # hs \<Rightarrow>
        if \<not> p_hints_running s then None
        else (case hints_step (open_channels s) (pc_run_id cfg) (p_builder s) (h, t_end, t_start) of
                (b, out) \<Rightarrow> Some (fold put_stage_send out (s\<lparr> p_builder := b, p_hints_q := hs \<rparr>))))"

definition do_hints_end :: "('b, 'f) pipe_cfg \<Rightarrow> instant \<Rightarrow> ('b, 'f) pipe \<Rightarrow> ('b, 'f) pipe option" where
  "do_hints_end cfg t s =
     (if p_hints_running s \<and> p_hints_q s = [] \<and> \<not> es_running (p_envelope s)
      then (case hints_end (open_channels s) (pc_run_id cfg) (p_builder s) t of
              (b, out) \<Rightarrow> Some (fold put_stage_send out (s\<lparr> p_builder := b, p_hints_running := False \<rparr>)))
      else None)"

definition do_compression :: "('b, 'f) pipe_cfg \<Rightarrow> int \<Rightarrow> int \<Rightarrow> ('b, 'f) pipe \<Rightarrow> ('b, 'f) pipe option" where
  "do_compression cfg m1 m2 s = (case p_compression_q s of
      [] \<Rightarrow> None
    | c # cs \<Rightarrow>
        if \<not> zs_running (p_compression s) then None
        else (case compression_step (pc_f32 cfg) (pc_layout cfg) (open_channels s) (persist_raw_events (pc_config cfg)) m1 m2
                     (p_compression s) c of
                None \<Rightarrow> None
              | Some (st, out) \<Rightarrow> Some (put_storage out (s\<lparr> p_compression := st, p_compression_q := cs \<rparr>))))"

definition do_compression_end :: "('b, 'f) pipe \<Rightarrow> ('b, 'f) pipe option" where
  "do_compression_end s =
     (if zs_running (p_compression s) \<and> p_compression_q s = [] \<and> \<not> es_running (p_envelope s)
      then Some (s\<lparr> p_compression := (p_compression s)\<lparr> zs_running := False \<rparr> \<rparr>) else None)"

definition do_snapshot :: "('b, 'f) pipe_cfg \<Rightarrow> publish_env \<Rightarrow> ('b, 'f) pipe \<Rightarrow> ('b, 'f) pipe option" where
  "do_snapshot cfg P s = (case p_snapshot_q s of
      [] \<Rightarrow> None
    | m # ms \<Rightarrow>
        if \<not> st_running (p_snapshot s) then None
        else (case snapshot_step (snapshot_cfg_of (pc_config cfg)) (open_channels s) P (p_snapshot s) m of
                (st, out) \<Rightarrow> Some (put_storage out (s\<lparr> p_snapshot := st, p_snapshot_q := ms \<rparr>))))"

definition do_snapshot_end :: "('b, 'f) pipe_cfg \<Rightarrow> publish_env \<Rightarrow> ('b, 'f) pipe \<Rightarrow> ('b, 'f) pipe option" where
  "do_snapshot_end cfg P s =
     (if st_running (p_snapshot s) \<and> p_snapshot_q s = [] \<and> \<not> es_running (p_envelope s) \<and> \<not> p_hints_running s
      then (case maybe_finalize (snapshot_cfg_of (pc_config cfg)) (open_channels s) P True True (p_snapshot s) of
              (st, out, _) \<Rightarrow> Some (put_storage out (s\<lparr> p_snapshot := st\<lparr> st_running := False \<rparr> \<rparr>)))
      else None)"

definition do_storage :: "('b, 'f) pipe_cfg \<Rightarrow> ('b, 'f) pipe \<Rightarrow> ('b, 'f) pipe option" where
  "do_storage cfg s = (case p_storage_q s of
      [] \<Rightarrow> None
    | c # cs \<Rightarrow>
        if \<not> p_storage_running s then None
        else (case storage_step (pc_backend cfg) (p_backend s) c of
                (b, go) \<Rightarrow> Some (s\<lparr> p_backend := b, p_storage_running := go, p_storage_q := cs \<rparr>)))"

definition do_storage_end :: "('b, 'f) pipe \<Rightarrow> ('b, 'f) pipe option" where
  "do_storage_end s =
     (if p_storage_running s \<and> p_storage_q s = [] \<and> \<not> es_running (p_envelope s) \<and> \<not> p_hints_running s
         \<and> \<not> zs_running (p_compression s) \<and> \<not> st_running (p_snapshot s)
      then Some (s\<lparr> p_storage_running := False \<rparr>) else None)"

fun pipe_do :: "('b, 'f) pipe_cfg \<Rightarrow> action \<Rightarrow> ('b, 'f) pipe \<Rightarrow> ('b, 'f) pipe option" where
  "pipe_do cfg (DoIngest inp) s = do_ingest inp s"
| "pipe_do cfg DoEnvelope s = do_envelope s"
| "pipe_do cfg DoEnvelopeEnd s = do_envelope_end s"
| "pipe_do cfg (DoHints t t') s = do_hints cfg t t' s"
| "pipe_do cfg (DoHintsEnd t) s = do_hints_end cfg t s"
| "pipe_do cfg (DoCompression m1 m2) s = do_compression cfg m1 m2 s"
| "pipe_do cfg DoCompressionEnd s = do_compression_end s"
| "pipe_do cfg (DoSnapshot P) s = do_snapshot cfg P s"
| "pipe_do cfg (DoSnapshotEnd P) s = do_snapshot_end cfg P s"
| "pipe_do cfg DoStorage s = do_storage cfg s"
| "pipe_do cfg DoStorageEnd s = do_storage_end s"

section \<open>Starting and joining\<close>

text \<open>A failed query is logged and hydrates nothing.\<close>

definition hydrate_recent_records ::
  "('b, 'f) pipe_cfg \<Rightarrow> 'b \<Rightarrow> instant \<Rightarrow> 'b \<times> activity_record list" where
  "hydrate_recent_records cfg b now =
     (let since = now - retention_of (retention_minutes (pc_config cfg))
      in case pc_fetch_records_since cfg b since (pc_run_id cfg) of
           (b', Inr records) \<Rightarrow> (b', records)
         | (b', Inl err) \<Rightarrow> (b', []))"

definition hydrate_recent_transitions ::
  "('b, 'f) pipe_cfg \<Rightarrow> 'b \<Rightarrow> instant \<Rightarrow> nat \<Rightarrow> 'b \<times> transition list" where
  "hydrate_recent_transitions cfg b now limit =
     (let since = now - retention_of (retention_minutes (pc_config cfg))
      in case pc_fetch_recent_transitions cfg b since (pc_run_id cfg) limit of
           (b', Inr transitions) \<Rightarrow> (b', transitions)
         | (b', Inl err) \<Rightarrow> (b', []))"

text \<open>The first record id of the hints stage continues the hydrated records of the run.\<close>

definition first_record_id :: "string option \<Rightarrow> activity_record list \<Rightarrow> u64" where
  "first_record_id run_id initial_records =
     (case run_id of None \<Rightarrow> 0
      | Some _ \<Rightarrow> (case map rec_id initial_records of
                     [] \<Rightarrow> 0 | i # is \<Rightarrow> sat_add (foldl max i is) 1))"

text \<open>The clock readings of the start, in the order they are taken.\<close>

record spawn_env =
  sp_now_records :: instant
  sp_now_transitions :: instant
  sp_mono_compression :: int
  sp_publish :: publish_env
  sp_now_envelope :: instant
  sp_mono_ingest :: int

definition spawn_pipeline ::
  "('b, 'f) pipe_cfg \<Rightarrow> spawn_env \<Rightarrow> snapshot_bus \<Rightarrow> u64 \<Rightarrow> 'b \<Rightarrow> ('b, 'f) pipe" where
  "spawn_pipeline cfg E bus poll backend =
     (let c = pc_config cfg;
          (b1, initial_records) = hydrate_recent_records cfg backend (sp_now_records E);
          (b2, initial_transitions) = hydrate_recent_transitions cfg b1 (sp_now_transitions E) 32
      in \<lparr> p_ingest = ingest_init (sp_mono_ingest E),
           p_envelope = envelope_init (sp_now_envelope E) (active_grace_secs c) (idle_threshold_secs c),
           p_builder = with_next_record_id Inactive (first_record_id (pc_run_id cfg) initial_records),
           p_hints_running = True,
           p_compression = compression_init (sp_mono_compression E) (unat (focus_interner_max_strings c)),
           p_snapshot = snapshot_start (snapshot_cfg_of c) (sp_publish E) bus poll initial_records initial_transitions,
           p_backend = b2, p_storage_running = True,
           p_derive_q = [], p_hints_q = [], p_compression_q = [], p_snapshot_q = [], p_storage_q = [],
           p_store_log = [] \<rparr>)"

text \<open>\<open>PipelineHandles::join\<close>: all threads are joined, last spawned first; the first error is returned.\<close>

fun join_loop :: "('e + unit) list \<Rightarrow> 'e option \<Rightarrow> 'e option" where
  "join_loop [] first_err = first_err"
| "join_loop (Inl e # rs) first_err = join_loop rs (if first_err = None then Some e else first_err)"
| "join_loop (Inr _ # rs) first_err = join_loop rs first_err"

definition pipeline_join :: "('e + unit) list \<Rightarrow> 'e + unit" where
  "pipeline_join handles = (case join_loop (rev handles) None of Some e \<Rightarrow> Inl e | None \<Rightarrow> Inr ())"

section \<open>Reachable states\<close>

text \<open>Any interleaving of the stages, from the start on the storage \<open>b0\<close>.\<close>

inductive pipe_step :: "('b, 'f) pipe_cfg \<Rightarrow> ('b, 'f) pipe \<Rightarrow> ('b, 'f) pipe \<Rightarrow> bool"
  for cfg where
  stepI: "pipe_do cfg a s = Some s' \<Longrightarrow> pipe_step cfg s s'"

inductive pipe_reach :: "('b, 'f) pipe_cfg \<Rightarrow> ('b, 'f) pipe \<Rightarrow> ('b, 'f) pipe \<Rightarrow> bool" for cfg s0 where
  start: "pipe_reach cfg s0 s0"
| onward: "pipe_reach cfg s0 s \<Longrightarrow> pipe_step cfg s s' \<Longrightarrow> pipe_reach cfg s0 s'"

inductive_cases pipe_stepE: "pipe_step cfg s s'"

fun pipe_schedule :: "('b, 'f) pipe_cfg \<Rightarrow> action list \<Rightarrow> ('b, 'f) pipe \<Rightarrow> ('b, 'f) pipe option" where
  "pipe_schedule cfg [] s = Some s"
| "pipe_schedule cfg (a # as) s = (case pipe_do cfg a s of None \<Rightarrow> None | Some s' \<Rightarrow> pipe_schedule cfg as s')"

definition all_stopped :: "('b, 'f) pipe \<Rightarrow> bool" where
  "all_stopped s \<longleftrightarrow> \<not> es_running (p_envelope s) \<and> \<not> p_hints_running s \<and> \<not> zs_running (p_compression s)
     \<and> \<not> st_running (p_snapshot s) \<and> \<not> p_storage_running s"


section \<open>Specification\<close>

definition sent_snapshots :: "envelope_send list \<Rightarrow> snapshot_message list" where
  "sent_snapshots out = List.map_filter (\<lambda>s. case s of ToSnapshot m \<Rightarrow> Some m | _ \<Rightarrow> None) out"

text \<open>The commands that only the compression stage sends.\<close>

fun from_compression :: "'f storage_command \<Rightarrow> bool" where
  "from_compression (StoreRawEvent _) = True"
| "from_compression (StoreCompactEvents _) = True"
| "from_compression _ = False"

definition late_ok :: "'f storage_command list \<Rightarrow> bool" where
  "late_ok cs = list_all from_compression (tl (dropWhile (\<lambda>c. c \<noteq> StoreShutdown) cs))"

text \<open>What the backend makes of a list of commands.\<close>

definition persist :: "('b, 'f) backend \<Rightarrow> 'b \<Rightarrow> 'f storage_command list \<Rightarrow> 'b" where
  "persist B b cs = foldl (\<lambda>b c. fst (storage_step B b c)) b cs"

section \<open>Lemmas: what the stages send\<close>

lemma sent_snapshots_simps [simp]:
  "sent_snapshots [] = []" "sent_snapshots (xs @ ys) = sent_snapshots xs @ sent_snapshots ys"
  "sent_snapshots (ToHints e # xs) = sent_snapshots xs" "sent_snapshots (ToCompression c # xs) = sent_snapshots xs"
  "sent_snapshots (ToStorageEnvelope e # xs) = sent_snapshots xs"
  "sent_snapshots (ToSnapshot m # xs) = m # sent_snapshots xs"
  by (simp_all add: sent_snapshots_def List.map_filter_def)

lemma stored_signals_Cons [simp]:
  "stored_signals (ToHints e # xs) = stored_signals xs" "stored_signals (ToCompression c # xs) = stored_signals xs"
  "stored_signals (ToSnapshot m # xs) = stored_signals xs"
  by (simp_all add: stored_signals_def List.map_filter_def)

lemma put_send_all:
  "fold put_send out s =
     s\<lparr> p_hints_q := p_hints_q s @ sent_hints out,
        p_compression_q := p_compression_q s @ List.map_filter (\<lambda>s. case s of ToCompression c \<Rightarrow> Some c | _ \<Rightarrow> None) out,
        p_snapshot_q := p_snapshot_q s @ sent_snapshots out,
        p_storage_q := p_storage_q s @ map StoreEnvelope (stored_signals out),
        p_store_log := p_store_log s @ map StoreEnvelope (stored_signals out) \<rparr>"
proof (induction out arbitrary: s)
  case (Cons x out)
  then show ?case
    by (cases x) (simp_all add: put_storage_def sent_hints_def stored_signals_def List.map_filter_def)
qed (simp add: List.map_filter_def)

lemma put_stage_send_all:
  "fold put_stage_send out s =
     s\<lparr> p_snapshot_q := p_snapshot_q s @ told out, p_storage_q := p_storage_q s @ stored out,
        p_store_log := p_store_log s @ stored out \<rparr>"
proof (induction out arbitrary: s)
  case (Cons x out)
  then show ?case
    by (cases x) (simp_all add: put_storage_def told_def stored_def List.map_filter_def)
qed simp

text \<open>While it does not shut down, the envelope stage sends the snapshot stage updates and requests to publish.\<close>

definition quiet :: "envelope_send list \<Rightarrow> bool" where
  "quiet out \<longleftrightarrow> SnapShutdown \<notin> set (sent_snapshots out) \<and> SnapHintsComplete \<notin> set (sent_snapshots out)"

definition no_store :: "channels \<Rightarrow> envelope_send list \<Rightarrow> bool" where
  "no_store C out \<longleftrightarrow> (storage_open C \<or> stored_signals out = [])"

lemma quiet_simps [simp]: "quiet []" "quiet (xs @ ys) \<longleftrightarrow> quiet xs \<and> quiet ys"
  "quiet (ToHints e # xs) = quiet xs" "quiet (ToCompression c # xs) = quiet xs"
  "quiet (ToStorageEnvelope e # xs) = quiet xs"
  by (auto simp: quiet_def)

lemma flush_quiet: "flush_if_transition C u = (u', out, ok) \<Longrightarrow> quiet out \<and> stored_signals out = []"
  by (auto simp: flush_if_transition_def flush_snapshot_update_def send_snapshot_def quiet_def stored_signals_def
      List.map_filter_def split: if_splits prod.splits)

lemma handle_hint_quiet: "handle_hint C e sk u = (u', out, ok) \<Longrightarrow> quiet out \<and> stored_signals out = []"
  by (auto simp: handle_hint_def send_hint_def Let_def dest!: flush_quiet split: prod.splits if_splits)

lemma handle_signal_quiet: "handle_signal C d e k u = (d', u', out, ok) \<Longrightarrow> quiet out \<and> no_store C out"
  by (auto simp: handle_signal_def no_store_def Let_def dest!: flush_quiet handle_hint_quiet
      split: prod.splits if_splits option.splits)

lemma handle_envelopes_quiet:
  "handle_envelopes C d u es = (d', u', out, ok) \<Longrightarrow> quiet out \<and> no_store C out"
proof (induction es arbitrary: d u d' u' out ok)
  case Nil
  then show ?case by (simp add: no_store_def)
next
  case (Cons e es)
  obtain d1 u1 o1 ok1 where 1: "(case env_kind e of
           Hint _ \<Rightarrow> (let (u1, out1, ok1) = handle_hint C e None u in (d, u1, out1, ok1))
         | Signal k \<Rightarrow> handle_signal C d e k u) = (d1, u1, o1, ok1)" by (metis prod_cases4)
  then have "quiet o1 \<and> no_store C o1"
    by (auto simp: no_store_def dest: handle_hint_quiet handle_signal_quiet split: event_kind.splits prod.splits)
  moreover obtain d2 u2 o2 ok2 where 2: "handle_envelopes C d1 u1 es = (d2, u2, o2, ok2)" by (metis prod_cases4)
  then have "quiet o2 \<and> no_store C o2" by (rule Cons.IH)
  moreover have "out = o1 \<or> out = o1 @ o2"
    using Cons.prems 1 2 by (auto split: if_splits)
  ultimately show ?case by (auto simp: no_store_def)
qed

lemma send_update_quiet: "send_update_and_publish C u = (out, ok) \<Longrightarrow> quiet out \<and> stored_signals out = []"
  by (auto simp: send_update_and_publish_def send_snapshot_def quiet_def stored_signals_def List.map_filter_def Let_def
      split: if_splits prod.splits)

lemma envelope_step_sends:
  assumes "envelope_step C st c = (st', out)" and "es_running st"
  shows "no_store C out \<and> (if c = DeriveShutdown then \<not> es_running st' \<and> SnapHintsComplete \<notin> set (sent_snapshots out)
     else quiet out)"
proof (cases c)
  case (DeriveBatch b)
  with assms show ?thesis
    by (auto simp: envelope_batch_def Let_def no_store_def dest!: handle_envelopes_quiet send_update_quiet
        split: if_splits prod.splits)
next
  case (DeriveTick now)
  with assms show ?thesis
    by (auto simp: envelope_tick_def Let_def no_store_def dest!: handle_hint_quiet send_update_quiet
        split: if_splits prod.splits option.splits)
next
  case DeriveShutdown
  with assms show ?thesis
    by (auto simp: envelope_shutdown_def no_store_def stored_signals_def List.map_filter_def split: if_splits)
qed


lemma hints_step_sends:
  assumes "hints_step C run_id b h = (b', out :: 'f stage_send list)"
  shows "SnapShutdown \<notin> set (told out)" "SnapHintsComplete \<notin> set (told out)" "StoreShutdown \<notin> set (stored out)"
    "\<not> storage_open C \<longrightarrow> stored out = []"
  using assms
  by (auto simp: hints_step_def emit_record_def store_def tell_snapshot_def told_def stored_def List.map_filter_def Let_def
      split: prod.splits option.splits if_splits)

lemma hints_end_sends:
  assumes "hints_end C run_id b t = (b', out :: 'f stage_send list)"
  shows "SnapShutdown \<notin> set (told out)" "StoreShutdown \<notin> set (stored out)" "\<not> storage_open C \<longrightarrow> stored out = []"
  using assms
  by (auto simp: hints_end_def emit_record_def store_def tell_snapshot_def told_def stored_def List.map_filter_def Let_def
      split: prod.splits option.splits if_splits)

lemma compression_step_sends:
  assumes "compression_step F L C persist_raw m1 m2 st c = Some (st', out)"
  shows "list_all from_compression out" "\<not> storage_open C \<longrightarrow> out = []"
  using assms
  by (auto simp: compression_step_def forward_raw_events_def forward_compact_events_def Let_def list_all_iff
      split: compression_command.splits if_splits option.splits prod.splits)

lemma snapshot_step_sends:
  assumes "snapshot_step cfg C P st m = (st', out :: 'f storage_command list)"
    and "st_running st" "\<not> st_storage_shutdown_sent st"
  shows "st_shutdown_requested st' \<longleftrightarrow> st_shutdown_requested st \<or> m = SnapShutdown"
    "st_hints_complete st' \<longleftrightarrow> st_hints_complete st \<or> m = SnapHintsComplete"
    "st_storage_shutdown_sent st' \<longleftrightarrow> \<not> st_running st'"
    "\<not> storage_open C \<longrightarrow> out = []"
    "if st_running st' then StoreShutdown \<notin> set out
     else st_shutdown_requested st' \<and> st_hints_complete st' \<and> (out = [] \<or> out = [StoreShutdown])"
  using assms
  by (auto simp: snapshot_step_def maybe_finalize_def update_records_def Let_def apply_update_fields
      split: snapshot_message.splits prod.splits if_splits)

section \<open>Elimination rules of the steps\<close>

lemma do_envelopeE:
  assumes "do_envelope s = Some s'"
  obtains c cs st out where "p_derive_q s = c # cs" "es_running (p_envelope s)"
    "envelope_step (open_channels s) (p_envelope s) c = (st, out)"
    "s' = fold put_send out (s\<lparr> p_envelope := st, p_derive_q := cs \<rparr>)"
  using assms by (auto simp: do_envelope_def split: list.splits if_splits prod.splits)

lemma do_hintsE:
  assumes "do_hints cfg t t' s = Some s'"
  obtains h hs b out where "p_hints_q s = h # hs" "p_hints_running s"
    "hints_step (open_channels s) (pc_run_id cfg) (p_builder s) (h, t, t') = (b, out)"
    "s' = fold put_stage_send out (s\<lparr> p_builder := b, p_hints_q := hs \<rparr>)"
  using assms by (auto simp: do_hints_def split: list.splits if_splits prod.splits)

lemma do_hints_endE:
  assumes "do_hints_end cfg t s = Some s'"
  obtains b out where "p_hints_running s" "p_hints_q s = []" "\<not> es_running (p_envelope s)"
    "hints_end (open_channels s) (pc_run_id cfg) (p_builder s) t = (b, out)"
    "s' = fold put_stage_send out (s\<lparr> p_builder := b, p_hints_running := False \<rparr>)"
  using assms by (auto simp: do_hints_end_def split: if_splits prod.splits)

lemma do_compressionE:
  assumes "do_compression cfg m1 m2 s = Some s'"
  obtains c cs st out where "p_compression_q s = c # cs" "zs_running (p_compression s)"
    "compression_step (pc_f32 cfg) (pc_layout cfg) (open_channels s)
      (persist_raw_events (pc_config cfg)) m1 m2 (p_compression s) c = Some (st, out)"
    "s' = put_storage out (s\<lparr> p_compression := st, p_compression_q := cs \<rparr>)"
  using assms by (auto simp: do_compression_def split: list.splits if_splits option.splits)

lemma do_snapshotE:
  assumes "do_snapshot cfg P s = Some s'"
  obtains m ms st out where "p_snapshot_q s = m # ms" "st_running (p_snapshot s)"
    "snapshot_step (snapshot_cfg_of (pc_config cfg)) (open_channels s) P (p_snapshot s) m = (st, out)"
    "s' = put_storage out (s\<lparr> p_snapshot := st, p_snapshot_q := ms \<rparr>)"
  using assms by (auto simp: do_snapshot_def split: list.splits if_splits prod.splits)

lemma do_snapshot_endE:
  assumes "do_snapshot_end cfg P s = Some s'"
  obtains st out f where "st_running (p_snapshot s)" "p_snapshot_q s = []" "\<not> es_running (p_envelope s)"
    "\<not> p_hints_running s"
    "maybe_finalize (snapshot_cfg_of (pc_config cfg)) (open_channels s) P True True (p_snapshot s) = (st, out, f)"
    "s' = put_storage out (s\<lparr> p_snapshot := st\<lparr> st_running := False \<rparr> \<rparr>)"
  using assms by (auto simp: do_snapshot_end_def split: if_splits prod.splits)

lemma do_storageE:
  assumes "do_storage cfg s = Some s'"
  obtains c cs b go where "p_storage_q s = c # cs" "p_storage_running s"
    "storage_step (pc_backend cfg) (p_backend s) c = (b, go)"
    "s' = s\<lparr> p_backend := b, p_storage_running := go, p_storage_q := cs \<rparr>"
  using assms by (auto simp: do_storage_def split: list.splits if_splits prod.splits)

section \<open>Invariants\<close>

text \<open>How the ends of the stages depend on each other.\<close>

definition stop_order :: "('b, 'f) pipe \<Rightarrow> bool" where
  "stop_order s \<longleftrightarrow>
     (SnapShutdown \<in> set (p_snapshot_q s) \<or> st_shutdown_requested (p_snapshot s) \<longrightarrow> \<not> es_running (p_envelope s)) \<and>
     (SnapHintsComplete \<in> set (p_snapshot_q s) \<or> st_hints_complete (p_snapshot s) \<longrightarrow> \<not> p_hints_running s) \<and>
     (p_hints_running s \<or> \<not> es_running (p_envelope s)) \<and>
     (st_storage_shutdown_sent (p_snapshot s) \<longleftrightarrow> \<not> st_running (p_snapshot s)) \<and>
     (st_running (p_snapshot s) \<or> \<not> es_running (p_envelope s) \<and> \<not> p_hints_running s)"

text \<open>What the storage stage has read, what waits for it, and what was ever sent to it.\<close>

definition store_read :: "('b, 'f) pipe_cfg \<Rightarrow> 'b \<Rightarrow> ('b, 'f) pipe \<Rightarrow> bool" where
  "store_read cfg b0 s \<longleftrightarrow>
     (\<exists>read. p_store_log s = read @ p_storage_q s \<and> p_backend s = persist (pc_backend cfg) b0 read \<and>
        (p_storage_running s \<longrightarrow> StoreShutdown \<notin> set read) \<and>
        (\<not> p_storage_running s \<longrightarrow> \<not> st_running (p_snapshot s) \<and> list_all from_compression (p_storage_q s)))"

definition store_order :: "('b, 'f) pipe_cfg \<Rightarrow> 'b \<Rightarrow> ('b, 'f) pipe \<Rightarrow> bool" where
  "store_order cfg b0 s \<longleftrightarrow> store_read cfg b0 s \<and> late_ok (p_store_log s) \<and>
     (StoreShutdown \<in> set (p_store_log s) \<longrightarrow> \<not> st_running (p_snapshot s))"

lemma store_order_same:
  "store_order cfg b0 s \<Longrightarrow> p_store_log s' = p_store_log s \<Longrightarrow> p_storage_q s' = p_storage_q s \<Longrightarrow>
   p_backend s' = p_backend s \<Longrightarrow> p_storage_running s' = p_storage_running s \<Longrightarrow>
   st_running (p_snapshot s') = st_running (p_snapshot s) \<Longrightarrow> store_order cfg b0 s'"
  by (simp add: store_order_def store_read_def)

lemma late_ok_append:
  "late_ok (xs @ ys) \<longleftrightarrow>
     (if StoreShutdown \<in> set xs then late_ok xs \<and> list_all from_compression ys else late_ok ys)"
proof (cases "StoreShutdown \<in> set xs")
  case True
  then have "dropWhile (\<lambda>c. c \<noteq> StoreShutdown) xs \<noteq> []" by (auto simp: dropWhile_eq_Nil_conv)
  with True show ?thesis by (auto simp: late_ok_def dropWhile_append)
qed (auto simp: late_ok_def dropWhile_append)

lemma late_ok_no_shutdown: "StoreShutdown \<notin> set xs \<Longrightarrow> late_ok xs"
  unfolding late_ok_def by (subst dropWhile_eq_Nil_conv [THEN iffD2]) auto

lemma late_ok_shutdown [simp]: "late_ok [StoreShutdown]" "late_ok []"
  by (simp_all add: late_ok_def)

lemma from_compression_not_shutdown: "list_all from_compression cs \<Longrightarrow> StoreShutdown \<notin> set cs"
  by (auto simp: list_all_iff)

text \<open>Commands sent while the snapshot stage runs or, once it has ended, by the compression stage.\<close>

lemma store_order_put:
  assumes "store_order cfg b0 s" and "p_storage_running s \<or> cs = []"
    and "list_all from_compression cs \<or> st_running (p_snapshot s) \<and> (cs = [StoreShutdown] \<or> StoreShutdown \<notin> set cs)"
    and "StoreShutdown \<in> set cs \<or> StoreShutdown \<in> set (p_store_log s) \<Longrightarrow> \<not> st_running (p_snapshot s')"
    and "p_store_log s' = p_store_log s @ cs" "p_storage_q s' = p_storage_q s @ cs"
    and "p_backend s' = p_backend s" "p_storage_running s' = p_storage_running s"
    and "st_running (p_snapshot s') \<longrightarrow> st_running (p_snapshot s)"
  shows "store_order cfg b0 s'"
proof -
  obtain read where r: "p_store_log s = read @ p_storage_q s" "p_backend s = persist (pc_backend cfg) b0 read"
    "p_storage_running s \<longrightarrow> StoreShutdown \<notin> set read"
    "\<not> p_storage_running s \<longrightarrow> \<not> st_running (p_snapshot s) \<and> list_all from_compression (p_storage_q s)"
    using assms(1) by (auto simp: store_order_def store_read_def)
  have late: "late_ok (p_store_log s)" "StoreShutdown \<in> set (p_store_log s) \<longrightarrow> \<not> st_running (p_snapshot s)"
    using assms(1) by (auto simp: store_order_def)
  have "late_ok (p_store_log s @ cs)"
    using assms(3) late by (auto simp: late_ok_append late_ok_no_shutdown dest: from_compression_not_shutdown)
  moreover have "store_read cfg b0 s'"
    unfolding store_read_def using r assms(2,5-9) by (intro exI [of _ read]) (auto split: if_splits)
  ultimately show ?thesis
    unfolding store_order_def using assms(4,5) by auto
qed


definition pipe_inv :: "('b, 'f) pipe_cfg \<Rightarrow> 'b \<Rightarrow> ('b, 'f) pipe \<Rightarrow> bool" where
  "pipe_inv cfg b0 s \<longleftrightarrow> stop_order s \<and> store_order cfg b0 s"

text \<open>While a stage other than the compression stage runs, so do the snapshot and the storage stage.\<close>

lemma storage_outlives:
  assumes "pipe_inv cfg b0 s" and "es_running (p_envelope s) \<or> p_hints_running s \<or> st_running (p_snapshot s)"
  shows "st_running (p_snapshot s) \<and> p_storage_running s \<and> StoreShutdown \<notin> set (p_store_log s)"
proof -
  have r: "st_running (p_snapshot s)" using assms unfolding pipe_inv_def stop_order_def by blast
  moreover have "\<not> st_running (p_snapshot s)" if "\<not> p_storage_running s"
    using assms(1) that by (auto simp: pipe_inv_def store_order_def store_read_def)
  moreover have "StoreShutdown \<in> set (p_store_log s) \<longrightarrow> \<not> st_running (p_snapshot s)"
    using assms(1) by (simp add: pipe_inv_def store_order_def)
  ultimately show ?thesis by blast
qed

lemma inv_same:
  assumes "pipe_inv cfg b0 s"
    and "p_snapshot s' = p_snapshot s" "p_snapshot_q s' = p_snapshot_q s" "p_hints_running s' = p_hints_running s"
    and "es_running (p_envelope s') \<longrightarrow> es_running (p_envelope s)"
    and "p_store_log s' = p_store_log s" "p_storage_q s' = p_storage_q s" "p_backend s' = p_backend s"
    and "p_storage_running s' = p_storage_running s"
  shows "pipe_inv cfg b0 s'"
proof -
  have "stop_order s'" using assms(1) unfolding pipe_inv_def stop_order_def assms(2-4) using assms(5) by argo
  moreover have "store_order cfg b0 s'"
    by (rule store_order_same [of cfg b0 s]) (use assms in \<open>simp_all add: pipe_inv_def\<close>)
  ultimately show ?thesis by (simp add: pipe_inv_def)
qed

lemma inv_ingest: "pipe_inv cfg b0 s \<Longrightarrow> do_ingest inp s = Some s' \<Longrightarrow> pipe_inv cfg b0 s'"
  by (erule inv_same) (auto simp: do_ingest_def split: if_splits option.splits)

lemma inv_envelope:
  assumes "pipe_inv cfg b0 s" and "do_envelope s = Some s'"
  shows "pipe_inv cfg b0 s'"
proof -
  obtain c cs st out where e: "p_derive_q s = c # cs" "es_running (p_envelope s)"
    "envelope_step (open_channels s) (p_envelope s) c = (st, out)"
    "s' = fold put_send out (s\<lparr> p_envelope := st, p_derive_q := cs \<rparr>)"
    using assms(2) by (rule do_envelopeE)
  note live = storage_outlives [OF assms(1)]
  have out: "SnapHintsComplete \<notin> set (sent_snapshots out)" "SnapShutdown \<in> set (sent_snapshots out) \<Longrightarrow> \<not> es_running st"
    using envelope_step_sends [OF e(3,2)] by (auto simp: quiet_def split: if_splits)
  have "stop_order s'"
    using assms(1) out live e(2) by (auto simp: pipe_inv_def stop_order_def e(4) put_send_all)
  moreover have "store_order cfg b0 s'"
    by (rule store_order_put [where s = s and cs = "map StoreEnvelope (stored_signals out)"])
       (use assms(1) live e(2) in \<open>auto simp: pipe_inv_def e(4) put_send_all\<close>)
  ultimately show ?thesis by (simp add: pipe_inv_def)
qed

lemma inv_envelope_end: "pipe_inv cfg b0 s \<Longrightarrow> do_envelope_end s = Some s' \<Longrightarrow> pipe_inv cfg b0 s'"
  by (erule inv_same) (auto simp: do_envelope_end_def split: if_splits)

lemma inv_hints:
  assumes "pipe_inv cfg b0 s" and "do_hints cfg t t' s = Some s'"
  shows "pipe_inv cfg b0 s'"
proof -
  obtain h hs b out where e: "p_hints_q s = h # hs" "p_hints_running s"
    "hints_step (open_channels s) (pc_run_id cfg) (p_builder s) (h, t, t') = (b, out)"
    "s' = fold put_stage_send out (s\<lparr> p_builder := b, p_hints_q := hs \<rparr>)"
    using assms(2) by (rule do_hintsE)
  note live = storage_outlives [OF assms(1)] and out = hints_step_sends [OF e(3)]
  have "stop_order s'"
    using assms(1) out live e(2) by (auto simp: pipe_inv_def stop_order_def e(4) put_stage_send_all)
  moreover have "store_order cfg b0 s'"
    by (rule store_order_put [where s = s and cs = "stored out"])
       (use assms(1) live out e(2) in \<open>auto simp: pipe_inv_def e(4) put_stage_send_all\<close>)
  ultimately show ?thesis by (simp add: pipe_inv_def)
qed

lemma inv_hints_end:
  assumes "pipe_inv cfg b0 s" and "do_hints_end cfg t s = Some s'"
  shows "pipe_inv cfg b0 s'"
proof -
  obtain b out where e: "p_hints_running s" "p_hints_q s = []" "\<not> es_running (p_envelope s)"
    "hints_end (open_channels s) (pc_run_id cfg) (p_builder s) t = (b, out)"
    "s' = fold put_stage_send out (s\<lparr> p_builder := b, p_hints_running := False \<rparr>)"
    using assms(2) by (rule do_hints_endE)
  note live = storage_outlives [OF assms(1)] and out = hints_end_sends [OF e(4)]
  have "stop_order s'"
    using assms(1) out live e(1,3) by (auto simp: pipe_inv_def stop_order_def e(5) put_stage_send_all)
  moreover have "store_order cfg b0 s'"
    by (rule store_order_put [where s = s and cs = "stored out"])
       (use assms(1) live out e(1) in \<open>auto simp: pipe_inv_def e(5) put_stage_send_all\<close>)
  ultimately show ?thesis by (simp add: pipe_inv_def)
qed

lemma inv_compression:
  assumes "pipe_inv cfg b0 s" and "do_compression cfg m1 m2 s = Some s'"
  shows "pipe_inv cfg b0 s'"
proof -
  obtain c cs st out where e: "p_compression_q s = c # cs" "zs_running (p_compression s)"
    "compression_step (pc_f32 cfg) (pc_layout cfg) (open_channels s)
      (persist_raw_events (pc_config cfg)) m1 m2 (p_compression s) c = Some (st, out)"
    "s' = put_storage out (s\<lparr> p_compression := st, p_compression_q := cs \<rparr>)"
    using assms(2) by (rule do_compressionE)
  note out = compression_step_sends [OF e(3)]
  have "stop_order s'" using assms(1) by (auto simp: pipe_inv_def stop_order_def e(4) put_storage_def)
  moreover have "store_order cfg b0 s'"
    by (rule store_order_put [where s = s and cs = out])
       (use assms(1) out in \<open>auto simp: pipe_inv_def e(4) put_storage_def open_channels_def store_order_def
          dest: from_compression_not_shutdown\<close>)
  ultimately show ?thesis by (simp add: pipe_inv_def)
qed

lemma inv_compression_end: "pipe_inv cfg b0 s \<Longrightarrow> do_compression_end s = Some s' \<Longrightarrow> pipe_inv cfg b0 s'"
  by (erule inv_same) (auto simp: do_compression_end_def split: if_splits)

lemma inv_snapshot:
  assumes "pipe_inv cfg b0 s" and "do_snapshot cfg P s = Some s'"
  shows "pipe_inv cfg b0 s'"
proof -
  obtain m ms st out where e: "p_snapshot_q s = m # ms" "st_running (p_snapshot s)"
    "snapshot_step (snapshot_cfg_of (pc_config cfg)) (open_channels s) P (p_snapshot s) m = (st, out)"
    "s' = put_storage out (s\<lparr> p_snapshot := st, p_snapshot_q := ms \<rparr>)"
    using assms(2) by (rule do_snapshotE)
  note live = storage_outlives [OF assms(1)]
  have "\<not> st_storage_shutdown_sent (p_snapshot s)" using assms(1) e(2) by (simp add: pipe_inv_def stop_order_def)
  note out = snapshot_step_sends [OF e(3,2) this]
  have "stop_order s'"
    using assms(1) out e(1) by (auto simp: pipe_inv_def stop_order_def e(4) put_storage_def)
  moreover have "store_order cfg b0 s'"
    by (rule store_order_put [where s = s and cs = out])
       (use assms(1) live out e(2) in \<open>auto simp: pipe_inv_def e(4) put_storage_def split: if_splits\<close>)
  ultimately show ?thesis by (simp add: pipe_inv_def)
qed

lemma inv_snapshot_end:
  assumes "pipe_inv cfg b0 s" and "do_snapshot_end cfg P s = Some s'"
  shows "pipe_inv cfg b0 s'"
proof -
  obtain st out f where e: "st_running (p_snapshot s)" "p_snapshot_q s = []" "\<not> es_running (p_envelope s)"
    "\<not> p_hints_running s"
    "maybe_finalize (snapshot_cfg_of (pc_config cfg)) (open_channels s) P True True (p_snapshot s) = (st, out, f)"
    "s' = put_storage out (s\<lparr> p_snapshot := st\<lparr> st_running := False \<rparr> \<rparr>)"
    using assms(2) by (rule do_snapshot_endE)
  note live = storage_outlives [OF assms(1)]
  have "\<not> st_storage_shutdown_sent (p_snapshot s)" using assms(1) e(1) by (simp add: pipe_inv_def stop_order_def)
  with e(5) have out: "st_storage_shutdown_sent st" "out = [] \<or> out = [StoreShutdown]"
    by (auto simp: maybe_finalize_def split: if_splits)
  have "stop_order s'" using e(2-4) out(1) by (simp add: stop_order_def e(6) put_storage_def)
  moreover have "store_order cfg b0 s'"
    by (rule store_order_put [where s = s and cs = out])
       (use assms(1) live out e(1) in \<open>auto simp: pipe_inv_def e(6) put_storage_def\<close>)
  ultimately show ?thesis by (simp add: pipe_inv_def)
qed

lemma inv_storage:
  assumes "pipe_inv cfg b0 s" and "do_storage cfg s = Some s'"
  shows "pipe_inv cfg b0 s'"
proof -
  obtain c cs b go where e: "p_storage_q s = c # cs" "p_storage_running s"
    "storage_step (pc_backend cfg) (p_backend s) c = (b, go)"
    "s' = s\<lparr> p_backend := b, p_storage_running := go, p_storage_q := cs \<rparr>"
    using assms(2) by (rule do_storageE)
  obtain read where r: "p_store_log s = read @ c # cs" "p_backend s = persist (pc_backend cfg) b0 read"
    "StoreShutdown \<notin> set read" "late_ok (p_store_log s)"
    "StoreShutdown \<in> set (p_store_log s) \<longrightarrow> \<not> st_running (p_snapshot s)"
    using assms(1) e(1,2) by (auto simp: pipe_inv_def store_order_def store_read_def)
  have go: "go \<longleftrightarrow> c \<noteq> StoreShutdown" using e(3) by (auto simp: storage_step_def split: storage_command.splits)
  have "late_ok (c # cs)" using r(1,3,4) by (simp add: late_ok_append)
  then have "c = StoreShutdown \<Longrightarrow> list_all from_compression cs" by (simp add: late_ok_def)
  moreover have "b = persist (pc_backend cfg) b0 (read @ [c])" using r(2) e(3) by (simp add: persist_def)
  ultimately have "store_order cfg b0 s'"
    unfolding store_order_def store_read_def e(4) using r go by (auto intro!: exI [of _ "read @ [c]"])
  moreover have "stop_order s'" using assms(1) by (simp add: pipe_inv_def stop_order_def e(4))
  ultimately show ?thesis by (simp add: pipe_inv_def)
qed

lemma inv_storage_end:
  assumes "pipe_inv cfg b0 s" and "do_storage_end s = Some s'"
  shows "pipe_inv cfg b0 s'"
proof -
  have e: "p_storage_q s = []" "\<not> st_running (p_snapshot s)" "s' = s\<lparr> p_storage_running := False \<rparr>"
    using assms(2) by (auto simp: do_storage_end_def split: if_splits)
  have "store_order cfg b0 s'"
    using assms(1) e(1,2) by (auto simp: pipe_inv_def store_order_def store_read_def e(3))
  moreover have "stop_order s'" using assms(1) by (simp add: pipe_inv_def stop_order_def e(3))
  ultimately show ?thesis by (simp add: pipe_inv_def)
qed

lemmas inv_steps = inv_ingest inv_envelope inv_envelope_end inv_hints inv_hints_end inv_compression
  inv_compression_end inv_snapshot inv_snapshot_end inv_storage inv_storage_end

lemma inv_do: "pipe_inv cfg b0 s \<Longrightarrow> pipe_do cfg a s = Some s' \<Longrightarrow> pipe_inv cfg b0 s'"
  by (cases a) (auto intro: inv_steps)

lemma inv_reach: "pipe_reach cfg s0 s \<Longrightarrow> pipe_inv cfg b0 s0 \<Longrightarrow> pipe_inv cfg b0 s"
  by (induction rule: pipe_reach.induct) (auto elim!: pipe_stepE intro: inv_do)

lemma inv_spawn: "pipe_inv cfg (p_backend (spawn_pipeline cfg E bus poll b)) (spawn_pipeline cfg E bus poll b)"
  by (simp add: pipe_inv_def stop_order_def store_order_def store_read_def spawn_pipeline_def snapshot_start_def persist_def
      snapshot_empty_state_def replay_transitions Let_def split_beta)


section \<open>Termination and progress\<close>

text \<open>What is left to do, stage by stage.\<close>

definition to_do :: "bool \<Rightarrow> 'a list \<Rightarrow> nat" where
  "to_do running q = length q + (if running then 1 else 0)"

definition pipe_measures :: "(('b, 'f) pipe \<Rightarrow> nat) list" where
  "pipe_measures = [\<lambda>s. to_do (es_running (p_envelope s)) (p_derive_q s), \<lambda>s. to_do (p_hints_running s) (p_hints_q s),
     \<lambda>s. to_do (zs_running (p_compression s)) (p_compression_q s), \<lambda>s. to_do (st_running (p_snapshot s)) (p_snapshot_q s),
     \<lambda>s. to_do (p_storage_running s) (p_storage_q s)]"

text \<open>A step lowers the work of its stage and raises at most that of later ones.\<close>

lemma in_pipe_measures:
  "(s', s) \<in> measures pipe_measures \<longleftrightarrow>
     (let d = (\<lambda>s. to_do (es_running (p_envelope s)) (p_derive_q s)); h = (\<lambda>s. to_do (p_hints_running s) (p_hints_q s));
          z = (\<lambda>s. to_do (zs_running (p_compression s)) (p_compression_q s));
          p = (\<lambda>s. to_do (st_running (p_snapshot s)) (p_snapshot_q s)); b = (\<lambda>s. to_do (p_storage_running s) (p_storage_q s))
      in d s' < d s \<or> d s' = d s \<and> (h s' < h s \<or> h s' = h s \<and> (z s' < z s \<or> z s' = z s \<and>
           (p s' < p s \<or> p s' = p s \<and> b s' < b s))))"
  by (simp add: pipe_measures_def Let_def)

lemma to_do_less [simp]: "to_do r xs < to_do True (x # xs)" "to_do False xs < to_do True xs"
  by (simp_all add: to_do_def)

lemma step_decreases:
  assumes "pipe_do cfg a s = Some s'" and "\<not> ing_running (p_ingest s)"
  shows "(s', s) \<in> measures pipe_measures \<and> \<not> ing_running (p_ingest s')"
  using assms
  by (cases a)
     (auto simp: in_pipe_measures do_ingest_def do_envelope_end_def do_compression_end_def do_storage_end_def
       put_send_all put_stage_send_all put_storage_def
       elim!: do_envelopeE do_hintsE do_hints_endE do_compressionE do_snapshotE do_snapshot_endE do_storageE
       split: if_splits)

lemma pipe_steps_wf: "wf {(s', s). pipe_step cfg s s' \<and> \<not> ing_running (p_ingest s)}"
  by (rule wf_subset [OF wf_measures [of pipe_measures]]) (auto elim!: pipe_stepE dest: step_decreases)

lemma compression_returns:
  assumes "\<not> f_lt F (f_of_int F 2) (f_of_int F 0)"
  shows "(compression_step F L C p m1 m2 st c = None) = False"
proof (cases c)
  case (CompressProcess b es)
  with compress_events_returns [OF assms, of L "zs_engine st" "batch_events b"] show ?thesis
    by (auto simp: compression_step_def Let_def)
qed (simp add: compression_step_def)

lemma stuck_is_stopped:
  assumes F: "\<not> f_lt (pc_f32 cfg) (f_of_int (pc_f32 cfg) 2) (f_of_int (pc_f32 cfg) 0)"
    and i: "\<not> ing_running (p_ingest s)" and stuck: "\<And>a. pipe_do cfg a s = None"
  shows "all_stopped s"
proof -
  have e: "\<not> es_running (p_envelope s)"
    using stuck [of DoEnvelope] stuck [of DoEnvelopeEnd] i
    by (auto simp: do_envelope_def do_envelope_end_def split: list.splits prod.splits)
  have h: "\<not> p_hints_running s"
    using stuck [of "DoHints 0 0"] stuck [of "DoHintsEnd 0"] e
    by (auto simp: do_hints_def do_hints_end_def split: list.splits prod.splits if_splits)
  have c: "\<not> zs_running (p_compression s)"
    using stuck [of "DoCompression 0 0"] stuck [of DoCompressionEnd] e
    by (auto simp: do_compression_def do_compression_end_def compression_returns [OF F]
        split: list.splits option.splits if_splits)
  have p: "\<not> st_running (p_snapshot s)"
    using stuck [of "DoSnapshot undefined"] stuck [of "DoSnapshotEnd undefined"] e h
    by (auto simp: do_snapshot_def do_snapshot_end_def split: list.splits prod.splits if_splits)
  have "\<not> p_storage_running s"
    using stuck [of DoStorage] stuck [of DoStorageEnd] e h c p
    by (auto simp: do_storage_def do_storage_end_def split: list.splits prod.splits if_splits)
  with e h c p show ?thesis by (simp add: all_stopped_def)
qed

lemma pipe_reach_trans: "pipe_reach cfg s1 s2 \<Longrightarrow> pipe_reach cfg s0 s1 \<Longrightarrow> pipe_reach cfg s0 s2"
  by (induction rule: pipe_reach.induct) (auto intro: pipe_reach.onward)

lemma schedule_reach: "pipe_schedule cfg as s = Some s' \<Longrightarrow> pipe_reach cfg s s'"
proof (induction as arbitrary: s)
  case Nil
  then show ?case by (simp add: pipe_reach.start)
next
  case (Cons a as)
  then obtain s1 where "pipe_do cfg a s = Some s1" "pipe_schedule cfg as s1 = Some s'"
    by (auto split: option.splits)
  with Cons.IH show ?case
    by (meson pipe_reach.onward pipe_reach.start pipe_reach_trans pipe_step.stepI)
qed


section \<open>Properties\<close>

definition demo_config :: pipeline_config where
  "demo_config = \<lparr> retention_minutes = 30, active_grace_secs = 30, idle_threshold_secs = 120,
     ephemeral_max_duration_secs = 60, ephemeral_min_distinct_ids = 3, max_windows_per_app = 30,
     ephemeral_app_max_duration_secs = 60, ephemeral_app_min_distinct_procs = 3,
     focus_interner_max_strings = 8, persist_raw_events = False \<rparr>"

text \<open>A backend that keeps the compact events.\<close>

definition compact_backend :: "('f compact_event list, 'f) backend" where
  "compact_backend = \<lparr> add_events = (\<lambda>b _. (b, True)), add_compact_events = (\<lambda>b es. (b @ es, True)),
     add_envelopes = (\<lambda>b _. (b, True)), add_records = (\<lambda>b _. (b, True)), add_transitions = (\<lambda>b _. (b, True)) \<rparr>"

definition demo_pipe_cfg :: "(int compact_event list, int) pipe_cfg" where
  "demo_pipe_cfg = \<lparr> pc_config = demo_config, pc_run_id = Some ''run'', pc_f32 = int_ops, pc_layout = demo_layout,
     pc_backend = compact_backend, pc_fetch_records_since = (\<lambda>b _ _. (b, Inr [])),
     pc_fetch_recent_transitions = (\<lambda>b _ _ _. (b, Inr [])) \<rparr>"

definition demo_spawn_env :: spawn_env where
  "demo_spawn_env = \<lparr> sp_now_records = 0, sp_now_transitions = 0, sp_mono_compression = 0,
     sp_publish = demo_publish_env, sp_now_envelope = 0, sp_mono_ingest = 0 \<rparr>"

definition demo_spawned :: "(int compact_event list, int) pipe" where
  "demo_spawned = spawn_pipeline demo_pipe_cfg demo_spawn_env (bus_new 0) 0 []"

text \<open>A key press and a shutdown, read by the first two stages.\<close>

definition demo_front :: "action list" where
  "demo_front = [DoIngest (IngestEvent KeyboardInputEvent [millis 7] (millis 8) 0),
     DoIngest (IngestEvent ShutdownEvent [] 0 0), DoEnvelope, DoEnvelope, DoEnvelope]"

definition demo_finish :: "nat \<Rightarrow> action list" where
  "demo_finish n = [DoHints 0 0, DoHintsEnd 0] @ replicate 7 (DoSnapshot demo_publish_env) @ replicate n DoStorage"

definition demo_compress :: "action list" where
  "demo_compress = [DoCompression 0 0, DoCompression 0 0]"

definition demo_late :: "(int compact_event list, int) pipe" where
  "demo_late = the (pipe_schedule demo_pipe_cfg (demo_front @ demo_finish 5) demo_spawned)"

text \<open>
  Compact events can be lost at a shutdown.  The snapshot stage shuts the storage down when the
  hints are complete and does not wait for the compression stage.  The same key press and shutdown
  lead, through two schedules in which every stage comes to its end, to a storage with the compact
  event of the key press, and to one without.
\<close>
theorem shutdown_loses_compact_events:
  "map_option (\<lambda>s. (all_stopped s, length (p_backend s)))
     (pipe_schedule demo_pipe_cfg (demo_front @ demo_compress @ demo_finish 6) demo_spawned) = Some (True, 1)
   \<and> map_option (\<lambda>s. (all_stopped s, length (p_backend s)))
     (pipe_schedule demo_pipe_cfg (demo_front @ demo_finish 5 @ demo_compress) demo_spawned) = Some (True, 0)"
  by (intro conjI) code_simp+

lemma demo_late_schedule:
  "pipe_schedule demo_pipe_cfg (demo_front @ demo_finish 5) demo_spawned = Some demo_late"
  "\<not> p_storage_running demo_late"
proof -
  have "map_option (\<lambda>s. p_storage_running s)
      (pipe_schedule demo_pipe_cfg (demo_front @ demo_finish 5) demo_spawned) = Some False" by code_simp
  then show "pipe_schedule demo_pipe_cfg (demo_front @ demo_finish 5) demo_spawned = Some demo_late"
    "\<not> p_storage_running demo_late"
    by (auto simp: demo_late_def)
qed

text \<open>
  C3: Nothing but output of the compression stage is lost at a shutdown, in any interleaving of the
  stages.  In every reachable state the backend holds what it makes of a prefix of all commands ever
  sent, in their order, and the rest waits in the channel.  As long as the envelope, hints or
  snapshot stage runs the storage stage runs; once the storage stage has ended, all three have ended
  and what is left unread are raw and compact events.
\<close>
theorem shutdown_stores_records:
  assumes "s0 = spawn_pipeline cfg E bus poll b" and "pipe_reach cfg s0 s"
  shows "(p_storage_running s \<or> \<not> (es_running (p_envelope s) \<or> p_hints_running s \<or> st_running (p_snapshot s)))
    \<and> (\<exists>read. p_store_log s = read @ p_storage_q s \<and> p_backend s = persist (pc_backend cfg) (p_backend s0) read
        \<and> (p_storage_running s \<or> list_all from_compression (p_storage_q s)))"
proof -
  have inv: "pipe_inv cfg (p_backend s0) s" by (rule inv_reach [OF assms(2)]) (simp add: assms(1) inv_spawn)
  with storage_outlives [OF inv] show ?thesis by (auto simp: pipe_inv_def store_order_def store_read_def)
qed

theorem shutdown_stores_records_witness:
  "\<exists>read. p_store_log demo_late = read @ p_storage_q demo_late
     \<and> p_backend demo_late = persist compact_backend (p_backend demo_spawned) read
     \<and> list_all from_compression (p_storage_q demo_late)"
  using shutdown_stores_records [OF demo_spawned_def schedule_reach [OF demo_late_schedule(1)]]
  by (auto simp: demo_late_schedule(2) demo_pipe_cfg_def)

text \<open>
  C9: The shutdown ends.  Once the ingest stage has stopped, no infinite sequence of steps of the
  other stages exists, and a state in which no stage can move is one in which all have ended; so
  every run that goes on while it can stops all stages, whatever the interleaving.
\<close>
theorem shutdown_terminates:
  assumes "\<not> f_lt (pc_f32 cfg) (f_of_int (pc_f32 cfg) 2) (f_of_int (pc_f32 cfg) 0)"
  shows "wf {(s', s). pipe_step cfg s s' \<and> \<not> ing_running (p_ingest s)}
    \<and> (\<forall>s. ing_running (p_ingest s) \<or> all_stopped s \<or> (\<exists>a s'. pipe_do cfg a s = Some s' \<and> \<not> ing_running (p_ingest s')))"
proof (intro conjI allI)
  fix s
  show "ing_running (p_ingest s) \<or> all_stopped s \<or> (\<exists>a s'. pipe_do cfg a s = Some s' \<and> \<not> ing_running (p_ingest s'))"
    using stuck_is_stopped [OF assms, of s] step_decreases by (metis option.exhaust)
qed (rule pipe_steps_wf)

theorem shutdown_terminates_witness:
  "wf {(s', s). pipe_step demo_pipe_cfg s s' \<and> \<not> ing_running (p_ingest s)}"
  using shutdown_terminates [of demo_pipe_cfg] by (simp add: demo_pipe_cfg_def int_ops_def)

end
