(* ===== verification/Storage_Rows.thy ===== *)
theory Storage_Rows
  imports Envelope_Stage Caches "HOL-Library.List_Lexorder" "HOL-Library.Char_ord"
begin

text \<open>
  What the two database back ends share, crates/storage/src/sqlite3.rs and duckdb.rs: the tables, the
  texts that stand for states, sources, kinds and payloads, and how they are read back.  SQLite keeps
  instants as RFC 3339 texts and booleans as integers, DuckDB has types for both, so the rows take the
  type of an instant and of a flag as parameters.  The texts that serde_json and chrono produce are a
  parameter, the codec: one pair of functions per type that is written and read.  \<open>co_stamp\<close> is what a
  \<open>TIMESTAMPTZ\<close> of DuckDB keeps of an instant.
\<close>

section \<open>Texts\<close>

record 'f codec =
  co_time :: "instant \<Rightarrow> string"
  co_time_of :: "string \<Rightarrow> string + instant"
  co_stamp :: "instant \<Rightarrow> instant"
  js_raw :: "raw_event \<Rightarrow> string"
  js_keyboard :: "keyboard_event_data \<Rightarrow> string"
  js_keyboard_of :: "string \<Rightarrow> keyboard_event_data option"
  js_mouse :: "mouse_event_data \<Rightarrow> string"
  js_mouse_of :: "string \<Rightarrow> mouse_event_data option"
  js_focus :: "window_focus_info \<Rightarrow> string"
  js_focus_of :: "string \<Rightarrow> window_focus_info option"
  js_reason :: "string \<Rightarrow> string"
  js_title :: "u32 \<times> string \<Rightarrow> string"
  js_title_of :: "string \<Rightarrow> (u32 \<times> string) option"
  js_states :: "string \<times> string \<Rightarrow> string"
  js_states_of :: "string \<Rightarrow> (string \<times> string) option"
  js_scroll :: "compact_scroll_sequence \<Rightarrow> string"
  js_trajectory :: "'f compact_mouse_trajectory \<Rightarrow> string"
  js_activity :: "'f compact_keyboard_activity \<Rightarrow> string"
  js_compact_focus :: "compact_focus_event \<Rightarrow> string"
  js_pointer :: "raw_event_pointer \<Rightarrow> string"

definition parse_state_label :: "string \<Rightarrow> activity_state" where
  "parse_state_label label =
     (if label = ''Active'' then Active else if label = ''Passive'' then Passive
      else if label = ''Inactive'' then Inactive else if label = ''Locked'' then Locked
      else Inactive)"

fun source_label :: "event_source \<Rightarrow> string" where
  "source_label Hook = ''hook''"
| "source_label Derived = ''derived''"
| "source_label Polling = ''polling''"

fun kind_label :: "event_kind \<Rightarrow> string" where
  "kind_label (Signal KeyboardInput) = ''signal:keyboard''"
| "kind_label (Signal MouseInput) = ''signal:mouse''"
| "kind_label (Signal AppChanged) = ''signal:app_changed''"
| "kind_label (Signal WindowChanged) = ''signal:window_changed''"
| "kind_label (Signal ActivityPulse) = ''signal:activity_pulse''"
| "kind_label (Signal LockStart) = ''signal:lock_start''"
| "kind_label (Signal LockEnd) = ''signal:lock_end''"
| "kind_label (Hint FocusChanged) = ''hint:focus_changed''"
| "kind_label (Hint StateChanged) = ''hint:state_changed''"
| "kind_label (Hint TitleChanged) = ''hint:title_changed''"
| "kind_label (Hint PositionChanged) = ''hint:position''"
| "kind_label (Hint SizeChanged) = ''hint:size''"

fun payload_json :: "'f codec \<Rightarrow> event_payload \<Rightarrow> string option" where
  "payload_json C (PKeyboard k) = Some (js_keyboard C k)"
| "payload_json C (PMouse m) = Some (js_mouse C m)"
| "payload_json C (PFocus f) = Some (js_focus C f)"
| "payload_json C (PLock reason) = Some (js_reason C reason)"
| "payload_json C (PTitle window_id title) = Some (js_title C (window_id, title))"
| "payload_json C (PState from to) = Some (js_states C (activity_state_debug from, activity_state_debug to))"
| "payload_json C PNone = None"

definition parse_source :: "string \<Rightarrow> event_source" where
  "parse_source s = (if s = ''hook'' then Hook else if s = ''derived'' then Derived
     else if s = ''polling'' then Polling else Hook)"

definition parse_kind :: "string \<Rightarrow> event_kind" where
  "parse_kind s =
     (if starts_with s ''signal:'' then
        (let k = drop 7 s in Signal
          (if k = ''keyboard'' then KeyboardInput else if k = ''mouse'' then MouseInput
           else if k = ''app_changed'' then AppChanged else if k = ''window_changed'' then WindowChanged
           else if k = ''activity_pulse'' then ActivityPulse else if k = ''lock_start'' then LockStart
           else if k = ''lock_end'' then LockEnd else AppChanged))
      else if starts_with s ''hint:'' then
        (let k = drop 5 s in Hint
          (if k = ''focus_changed'' then FocusChanged else if k = ''state_changed'' then StateChanged
           else if k = ''title_changed'' then TitleChanged else if k = ''position'' then PositionChanged
           else if k = ''size'' then SizeChanged else TitleChanged))
      else Signal AppChanged)"

text \<open>The payload, from the parsed kind, the text of the kind and the text of the payload.\<close>

definition parse_payload :: "'f codec \<Rightarrow> event_kind \<Rightarrow> string \<Rightarrow> string option \<Rightarrow> event_payload" where
  "parse_payload C kind kind_s payload_s = (case payload_s of
      None \<Rightarrow> PNone
    | Some js \<Rightarrow>
        if kind = Signal KeyboardInput then (case js_keyboard_of C js of Some k \<Rightarrow> PKeyboard k | None \<Rightarrow> PNone)
        else if kind = Signal MouseInput then (case js_mouse_of C js of Some m \<Rightarrow> PMouse m | None \<Rightarrow> PNone)
        else if str_contains ''lock'' kind_s then PLock js
        else if str_contains ''title'' kind_s then
          (case js_title_of C js of Some (wid, title) \<Rightarrow> PTitle wid title | None \<Rightarrow> PNone)
        else if str_contains ''state_changed'' kind_s then
          (case js_states_of C js of
             Some (from_s, to_s) \<Rightarrow> PState (parse_state_label from_s) (parse_state_label to_s)
           | None \<Rightarrow> PNone)
        else (case js_focus_of C js of Some f \<Rightarrow> PFocus f | None \<Rightarrow> PNone))"

section \<open>Rows\<close>

record 't raw_row =
  rw_timestamp :: 't
  rw_event_type :: string
  rw_data :: string

record ('t, 'b) envelope_row =
  ew_event_id :: "int option"
  ew_timestamp :: 't
  ew_source :: string
  ew_kind :: string
  ew_payload :: "string option"
  ew_derived :: 'b
  ew_polling :: 'b
  ew_sensitive :: 'b

record 't activity_row =
  ay_id :: "int option"
  ay_record_id :: "int option"
  ay_start_time :: 't
  ay_end_time :: "'t option"
  ay_state :: string
  ay_focus_info :: "string option"
  ay_run_id :: "string option"

record 't compact_row =
  cw_start_time :: 't
  cw_end_time :: 't
  cw_kind :: string
  cw_payload :: "string option"
  cw_raw_event_ref :: "string option"

record 't transition_row =
  tw_at :: 't
  tw_from_state :: string
  tw_to_state :: string
  tw_by_signal :: "string option"
  tw_run_id :: "string option"

record ('t, 'b) database =
  db_raw_events :: "'t raw_row list"
  db_envelopes :: "('t, 'b) envelope_row list"
  db_records :: "'t activity_row list"
  db_compact :: "'t compact_row list"
  db_transitions :: "'t transition_row list"

definition db_empty :: "('t, 'b) database" where
  "db_empty = \<lparr> db_raw_events = [], db_envelopes = [], db_records = [], db_compact = [], db_transitions = [] \<rparr>"

text \<open>The columns of a compact event.\<close>

fun compact_columns :: "'f codec \<Rightarrow> 'f compact_event \<Rightarrow> instant \<times> instant \<times> string \<times> string option \<times> string option" where
  "compact_columns C (CScroll s) = (ss_start_time s, ss_end_time s, ''compact:scroll'',
     Some (js_scroll C s), map_option (js_pointer C) (ss_raw_event_ids s))"
| "compact_columns C (CMouseTrajectory t) = (mt_start_time t, mt_end_time t, ''compact:mouse_traj'',
     Some (js_trajectory C t), map_option (js_pointer C) (mt_raw_event_ids t))"
| "compact_columns C (CKeyboard k) = (ka_start_time k, ka_end_time k, ''compact:keyboard'',
     Some (js_activity C k), map_option (js_pointer C) (ka_raw_event_ids k))"
| "compact_columns C (CFocus f) = (cf_timestamp f, cf_timestamp f, ''compact:focus'',
     Some (js_compact_focus C f), map_option (js_pointer C) (cf_raw_event_ids f))"

text \<open>
  Results of reading rows: the first row that cannot be read ends the query with its error.
\<close>

fun collect_rows :: "('a \<Rightarrow> string + 'b) \<Rightarrow> 'a list \<Rightarrow> string + 'b list" where
  "collect_rows f [] = Inr []"
| "collect_rows f (x # xs) = (case f x of
      Inl e \<Rightarrow> Inl e
    | Inr y \<Rightarrow> (case collect_rows f xs of Inl e \<Rightarrow> Inl e | Inr ys \<Rightarrow> Inr (y # ys)))"

text \<open>SQLite's \<open>LIMIT\<close>: a negative limit is none.\<close>

definition sql_limit :: "int \<Rightarrow> 'a list \<Rightarrow> 'a list" where
  "sql_limit n xs = (if n < 0 then xs else take (nat n) xs)"

text \<open>\<open>ORDER BY\<close>; rows with the same key come in an order of the engine's choice.\<close>

definition order_by :: "('a list \<Rightarrow> 'a list) \<Rightarrow> ('a \<Rightarrow> 'k::linorder) \<Rightarrow> 'a list \<Rightarrow> 'a list" where
  "order_by it key rows = sort_key key (in_order it rows)"

definition order_by_desc :: "('a list \<Rightarrow> 'a list) \<Rightarrow> ('a \<Rightarrow> 'k::linorder) \<Rightarrow> 'a list \<Rightarrow> 'a list" where
  "order_by_desc it key rows = rev (sort_key key (in_order it rows))"

section \<open>Specification: payloads that can be read back\<close>

text \<open>The pairs of kind and payload the readers tell apart.\<close>

fun payload_fits :: "event_kind \<Rightarrow> event_payload \<Rightarrow> bool" where
  "payload_fits k PNone = True"
| "payload_fits k (PKeyboard _) = (k = Signal KeyboardInput)"
| "payload_fits k (PMouse _) = (k = Signal MouseInput)"
| "payload_fits k (PLock _) = (k = Signal LockStart \<or> k = Signal LockEnd)"
| "payload_fits k (PTitle _ _) = (k = Hint TitleChanged)"
| "payload_fits k (PState _ _) = (k = Hint StateChanged)"
| "payload_fits k (PFocus _) = (k \<in> {Signal AppChanged, Signal WindowChanged, Signal ActivityPulse,
     Hint FocusChanged, Hint PositionChanged, Hint SizeChanged})"

text \<open>The codec reads back what it writes for this payload.\<close>

fun payload_codec :: "'f codec \<Rightarrow> event_payload \<Rightarrow> bool" where
  "payload_codec C (PKeyboard k) = (js_keyboard_of C (js_keyboard C k) = Some k)"
| "payload_codec C (PMouse m) = (js_mouse_of C (js_mouse C m) = Some m)"
| "payload_codec C (PFocus f) = (js_focus_of C (js_focus C f) = Some f)"
| "payload_codec C (PTitle w t) = (js_title_of C (js_title C (w, t)) = Some (w, t))"
| "payload_codec C (PState a b) = (js_states_of C (js_states C (activity_state_debug a, activity_state_debug b))
     = Some (activity_state_debug a, activity_state_debug b))"
| "payload_codec C _ = True"

text \<open>What comes back of a payload: the reason of a lock stays the JSON text it was stored as.\<close>

fun reread_payload :: "'f codec \<Rightarrow> event_payload \<Rightarrow> event_payload" where
  "reread_payload C (PLock reason) = PLock (js_reason C reason)"
| "reread_payload C p = p"

text \<open>The texts of instants of this set are read back, and compare as the instants do.\<close>

definition time_codec :: "'f codec \<Rightarrow> instant set \<Rightarrow> bool" where
  "time_codec C T \<longleftrightarrow> (\<forall>t \<in> T. co_time_of C (co_time C t) = Inr t)
     \<and> (\<forall>s \<in> T. \<forall>t \<in> T. co_time C s \<le> co_time C t \<longleftrightarrow> s \<le> t)"

section \<open>Lemmas\<close>

lemma parse_state_debug [simp]: "parse_state_label (activity_state_debug s) = s"
  by (cases s) (simp_all add: parse_state_label_def)

lemma parse_source_label [simp]: "parse_source (source_label s) = s"
  by (cases s) (simp_all add: parse_source_def)

lemma parse_kind_label [simp]: "parse_kind (kind_label k) = k"
  by (cases k rule: kind_label.cases) (simp_all add: parse_kind_def starts_with_def)

lemma kind_label_inj: "kind_label a = kind_label b \<longleftrightarrow> a = b"
  by (metis parse_kind_label)

lemma parse_payload_json:
  assumes "payload_fits k p" and "payload_codec C p"
  shows "parse_payload C k (kind_label k) (payload_json C p) = reread_payload C p"
  using assms by (cases p) (auto simp: parse_payload_def)

lemma collect_rows_map:
  "(\<And>x. x \<in> set xs \<Longrightarrow> f x = Inr (g x)) \<Longrightarrow> collect_rows f xs = Inr (map g xs)"
  by (induction xs) auto

lemma mset_order_by [simp]: "mset (order_by it key rows) = mset rows" "mset (order_by_desc it key rows) = mset rows"
  by (simp_all add: order_by_def order_by_desc_def)

lemma sorted_order_by: "sorted (map key (order_by it key rows))"
  by (simp add: order_by_def)

lemma sorted_order_by_desc: "sorted (map key (rev (order_by_desc it key rows)))"
  by (simp add: order_by_desc_def)

lemma set_order_by [simp]: "set (order_by it key rows) = set rows" "set (order_by_desc it key rows) = set rows"
  by (rule mset_eq_setD, simp)+

end
