(* ===== verification/Storage_Client.thy ===== *)
theory Storage_Client
  imports Storage_Rows
begin

text \<open>
  The side of the storage that its callers see, crates/storage/src/lib.rs and the \<open>add_\<close> operations
  of sqlite3.rs and duckdb.rs, which are the same: a command is sent to the writer thread and then
  counted in the process-wide backlog; the writer takes a command, stores it and then uncounts it.
  A handle of the writer that has gone makes every further send fail.
\<close>

section \<open>Metrics\<close>

record storage_metrics =
  sm_backlog_count :: u64
  sm_last_flush_at :: "instant option"

text \<open>The two atomics and the watch channel, which is made at its first use.\<close>

record metrics_state =
  ms_backlog :: u64
  ms_last_flush_epoch :: int
  ms_channel :: "storage_metrics option"

definition metrics_init :: metrics_state where
  "metrics_init = \<lparr> ms_backlog = 0, ms_last_flush_epoch = 0, ms_channel = None \<rparr>"

definition storage_metrics_snapshot :: "metrics_state \<Rightarrow> storage_metrics" where
  "storage_metrics_snapshot m =
     \<lparr> sm_backlog_count = ms_backlog m,
       sm_last_flush_at = (if 0 < ms_last_flush_epoch m then Some (secs (ms_last_flush_epoch m)) else None) \<rparr>"

definition init_metrics_channel :: "metrics_state \<Rightarrow> metrics_state" where
  "init_metrics_channel m = (case ms_channel m of
      Some _ \<Rightarrow> m | None \<Rightarrow> m\<lparr> ms_channel := Some (storage_metrics_snapshot m) \<rparr>)"

definition publish_metrics :: "metrics_state \<Rightarrow> metrics_state" where
  "publish_metrics m = (init_metrics_channel m)\<lparr> ms_channel := Some (storage_metrics_snapshot m) \<rparr>"

definition inc_backlog :: "metrics_state \<Rightarrow> metrics_state" where
  "inc_backlog m = publish_metrics (m\<lparr> ms_backlog := ms_backlog m + 1 \<rparr>)"

definition dec_backlog :: "metrics_state \<Rightarrow> metrics_state" where
  "dec_backlog m = publish_metrics (m\<lparr> ms_backlog := ms_backlog m - 1 \<rparr>)"

definition set_last_flush :: "instant \<Rightarrow> metrics_state \<Rightarrow> metrics_state" where
  "set_last_flush t m = publish_metrics (m\<lparr> ms_last_flush_epoch := epoch_secs t \<rparr>)"

definition storage_metrics_watch :: "metrics_state \<Rightarrow> storage_metrics option \<times> metrics_state" where
  "storage_metrics_watch m = (let m' = init_metrics_channel m in (ms_channel m', m'))"

section \<open>The storage handle\<close>

text \<open>
  \<open>cl_sent\<close> is everything ever sent to the writer; \<open>cl_sends_left\<close> tells after how many further
  sends the writer goes, if it does.
\<close>

record 'f storage_client =
  cl_sent :: "'f storage_command list"
  cl_metrics :: metrics_state
  cl_sends_left :: "nat option"

definition client_new :: "metrics_state \<Rightarrow> nat option \<Rightarrow> 'f storage_client" where
  "client_new m left = \<lparr> cl_sent = [], cl_metrics = m, cl_sends_left = left \<rparr>"

definition try_send :: "'f storage_command \<Rightarrow> 'f storage_client \<Rightarrow> 'f storage_client option" where
  "try_send c cl = (case cl_sends_left cl of
      None \<Rightarrow> Some (cl\<lparr> cl_sent := cl_sent cl @ [c] \<rparr>)
    | Some 0 \<Rightarrow> None
    | Some (Suc n) \<Rightarrow> Some (cl\<lparr> cl_sent := cl_sent cl @ [c], cl_sends_left := Some n \<rparr>))"

text \<open>The loop the operations share: send, count, and stop at the first send that fails.\<close>

fun send_counted :: "'f storage_client \<Rightarrow> 'f storage_command list \<Rightarrow> 'f storage_client \<times> bool" where
  "send_counted cl [] = (cl, True)"
| "send_counted cl (c # cs) = (case try_send c cl of
      None \<Rightarrow> (cl, False)
    | Some cl' \<Rightarrow> send_counted (cl'\<lparr> cl_metrics := inc_backlog (cl_metrics cl') \<rparr>) cs)"

definition client_add_events :: "'f storage_client \<Rightarrow> raw_event list \<Rightarrow> 'f storage_client \<times> bool" where
  "client_add_events cl events = send_counted cl (map StoreRawEvent events)"

definition client_add_records :: "'f storage_client \<Rightarrow> activity_record list \<Rightarrow> 'f storage_client \<times> bool" where
  "client_add_records cl new_records = send_counted cl (map StoreRecord new_records)"

definition client_add_compact_events :: "'f storage_client \<Rightarrow> 'f compact_event list \<Rightarrow> 'f storage_client \<times> bool" where
  "client_add_compact_events cl events = (if events = [] then (cl, True) else send_counted cl [StoreCompactEvents events])"

definition client_add_envelopes :: "'f storage_client \<Rightarrow> event_envelope list \<Rightarrow> 'f storage_client \<times> bool" where
  "client_add_envelopes cl events = send_counted cl (map StoreEnvelope events)"

definition client_add_transitions :: "'f storage_client \<Rightarrow> transition list \<Rightarrow> 'f storage_client \<times> bool" where
  "client_add_transitions cl transitions = send_counted cl (map StoreTransition transitions)"

text \<open>The destructor sends a shutdown, which is not counted; that it then joins the writer is the caller's wait.\<close>

definition client_drop :: "'f storage_client \<Rightarrow> 'f storage_client" where
  "client_drop cl = (case try_send StoreShutdown cl of Some cl' \<Rightarrow> cl' | None \<Rightarrow> cl)"

section \<open>The backlog between the threads\<close>

text \<open>
  One caller and the writer, with every step that another thread can see: a send and its count are
  two steps, and so are taking a command and uncounting it.
\<close>

record 'f backlog_state =
  bk_queue :: "'f storage_command list"
  bk_uncounted :: bool
  bk_busy :: bool
  bk_metrics :: metrics_state

definition backlog_init :: "'f backlog_state" where
  "backlog_init = \<lparr> bk_queue = [], bk_uncounted = False, bk_busy = False, bk_metrics = metrics_init \<rparr>"

inductive backlog_step :: "'f backlog_state \<Rightarrow> 'f backlog_state \<Rightarrow> bool" where
  send: "\<not> bk_uncounted s \<Longrightarrow> c \<noteq> StoreShutdown \<Longrightarrow>
     backlog_step s (s\<lparr> bk_queue := bk_queue s @ [c], bk_uncounted := True \<rparr>)"
| count: "bk_uncounted s \<Longrightarrow> backlog_step s (s\<lparr> bk_uncounted := False, bk_metrics := inc_backlog (bk_metrics s) \<rparr>)"
| shutdown: "\<not> bk_uncounted s \<Longrightarrow> backlog_step s (s\<lparr> bk_queue := bk_queue s @ [StoreShutdown] \<rparr>)"
| take_command: "\<not> bk_busy s \<Longrightarrow> bk_queue s = c # cs \<Longrightarrow> c \<noteq> StoreShutdown \<Longrightarrow>
     backlog_step s (s\<lparr> bk_queue := cs, bk_busy := True \<rparr>)"
| flushed: "bk_busy s \<Longrightarrow> backlog_step s (s\<lparr> bk_metrics := set_last_flush t (bk_metrics s) \<rparr>)"
| done_command: "bk_busy s \<Longrightarrow> backlog_step s (s\<lparr> bk_busy := False, bk_metrics := dec_backlog (bk_metrics s) \<rparr>)"

inductive backlog_reach :: "'f backlog_state \<Rightarrow> bool" where
  start: "backlog_reach backlog_init"
| onward: "backlog_reach s \<Longrightarrow> backlog_step s s' \<Longrightarrow> backlog_reach s'"

inductive_cases backlog_stepE: "backlog_step s s'"

text \<open>The commands sent and not yet stored.\<close>

definition outstanding :: "'f backlog_state \<Rightarrow> nat" where
  "outstanding s = length (filter (\<lambda>c. c \<noteq> StoreShutdown) (bk_queue s)) + of_bool (bk_busy s)"

section \<open>Lemmas\<close>

lemma metrics_fields [simp]:
  "ms_backlog (publish_metrics m) = ms_backlog m"
  "ms_last_flush_epoch (publish_metrics m) = ms_last_flush_epoch m"
  "ms_channel (publish_metrics m) = Some (storage_metrics_snapshot m)"
  "ms_backlog (inc_backlog m) = ms_backlog m + 1"
  "ms_backlog (dec_backlog m) = ms_backlog m - 1"
  "ms_backlog (set_last_flush t m) = ms_backlog m"
  by (simp_all add: publish_metrics_def init_metrics_channel_def inc_backlog_def dec_backlog_def set_last_flush_def
      split: option.split)

lemma backlog_reach_eq:
  "backlog_reach s \<Longrightarrow> ms_backlog (bk_metrics s) + of_bool (bk_uncounted s) = of_nat (outstanding s)"
proof (induction rule: backlog_reach.induct)
  case start
  show ?case by (simp add: backlog_init_def metrics_init_def outstanding_def)
next
  case (onward s s')
  then show ?case
    by (elim backlog_stepE) (auto simp: outstanding_def algebra_simps)
qed

lemma send_counted_all:
  assumes "cl_sends_left cl = None"
  shows "snd (send_counted cl cs) \<and> cl_sent (fst (send_counted cl cs)) = cl_sent cl @ cs
    \<and> cl_sends_left (fst (send_counted cl cs)) = None
    \<and> ms_backlog (cl_metrics (fst (send_counted cl cs))) = ms_backlog (cl_metrics cl) + of_nat (length cs)"
  using assms
proof (induction cs arbitrary: cl)
  case (Cons c cs)
  then show ?case
    using Cons.IH [of "cl\<lparr> cl_sent := cl_sent cl @ [c], cl_metrics := inc_backlog (cl_metrics cl) \<rparr>"]
    by (simp add: try_send_def algebra_simps)
qed simp

lemma send_counted_some:
  assumes "cl_sends_left cl = Some n"
  shows "snd (send_counted cl cs) = (length cs \<le> n)
    \<and> cl_sent (fst (send_counted cl cs)) = cl_sent cl @ take n cs
    \<and> ms_backlog (cl_metrics (fst (send_counted cl cs))) = ms_backlog (cl_metrics cl) + of_nat (min n (length cs))"
  using assms
proof (induction cs arbitrary: cl n)
  case (Cons c cs)
  show ?case
  proof (cases n)
    case (Suc m)
    then show ?thesis
      using Cons.IH [of "cl\<lparr> cl_sent := cl_sent cl @ [c], cl_sends_left := Some m,
          cl_metrics := inc_backlog (cl_metrics cl) \<rparr>" m] Cons.prems
      by (simp add: try_send_def algebra_simps)
  qed (use Cons.prems in \<open>simp add: try_send_def\<close>)
qed simp

section \<open>Properties\<close>

text \<open>
  An operation of the storage handle that fails has sent and counted exactly the commands before
  the one that failed, in order; one that succeeds has sent and counted all.
\<close>
theorem send_all_or_prefix:
  "let (cl', ok) = send_counted cl cs; n = (case cl_sends_left cl of None \<Rightarrow> length cs | Some n \<Rightarrow> min n (length cs))
   in ok = (n = length cs) \<and> cl_sent cl' = cl_sent cl @ take n cs
      \<and> ms_backlog (cl_metrics cl') = ms_backlog (cl_metrics cl) + of_nat n"
proof (cases "cl_sends_left cl")
  case None
  from send_counted_all [OF this, of cs] None show ?thesis by (simp add: split_beta Let_def)
next
  case (Some n)
  from send_counted_some [OF this, of cs] Some show ?thesis
    by (auto simp: split_beta Let_def min_def)
qed

text \<open>
  The backlog is exact between the operations.  Whatever the caller and the writer do, and in
  whatever order their steps fall, the backlog is the number of commands sent and not yet stored,
  less one while a command has been sent and not yet counted, modulo \<open>2 ^ 64\<close>.
\<close>
theorem backlog_is_exact:
  assumes "backlog_reach s" and "outstanding s < 2 ^ 64"
  shows "unat (ms_backlog (bk_metrics s)) =
    (if bk_uncounted s then (if outstanding s = 0 then 2 ^ 64 - 1 else outstanding s - 1) else outstanding s)"
proof -
  let ?n = "outstanding s"
  have e: "ms_backlog (bk_metrics s) = of_nat ?n - of_bool (bk_uncounted s)"
    using backlog_reach_eq [OF assms(1)] by (simp add: eq_diff_eq)
  have n: "unat (of_nat ?n :: u64) = ?n" using assms(2) by (simp add: unat_of_nat)
  show ?thesis
  proof (cases "bk_uncounted s")
    case True
    then have "ms_backlog (bk_metrics s) = of_nat ?n - 1" using e by simp
    moreover have "unat ((of_nat ?n :: u64) - 1) = (if ?n = 0 then 2 ^ 64 - 1 else ?n - 1)"
    proof (cases "?n = 0")
      case False
      then have "(of_nat ?n :: u64) \<noteq> 0" using n by (metis unat_0)
      then show ?thesis using False by (simp add: unat_minus_one n)
    next
      case z: True
      have "unat (- 1 :: u64) = 2 ^ 64 - 1" by (simp add: unsigned_minus_1_eq_mask mask_eq_exp_minus_1)
      with z show ?thesis by simp
    qed
    ultimately show ?thesis using True by simp
  qed (simp add: e n)
qed

text \<open>The writer stores a command before its sender has counted it; the channel then tells of \<open>2 ^ 64 - 1\<close>.\<close>

theorem backlog_is_exact_witness:
  "\<exists>s :: int backlog_state. backlog_reach s \<and> bk_queue s = [] \<and> unat (ms_backlog (bk_metrics s)) = 2 ^ 64 - 1
     \<and> ms_channel (bk_metrics s) = Some \<lparr> sm_backlog_count = - 1, sm_last_flush_at = None \<rparr>"
proof -
  define s1 :: "int backlog_state" where
    "s1 = backlog_init\<lparr> bk_queue := bk_queue backlog_init @ [StoreCompactEvents []], bk_uncounted := True \<rparr>"
  define s2 where "s2 = s1\<lparr> bk_queue := [], bk_busy := True \<rparr>"
  define s3 where "s3 = s2\<lparr> bk_busy := False, bk_metrics := dec_backlog (bk_metrics s2) \<rparr>"
  have "backlog_reach s1" unfolding s1_def
    by (rule backlog_reach.onward [OF backlog_reach.start backlog_step.send]) (simp_all add: backlog_init_def)
  then have "backlog_reach s2" unfolding s2_def
    by (rule backlog_reach.onward [OF _ backlog_step.take_command [where c = "StoreCompactEvents []"]])
      (simp_all add: s1_def backlog_init_def)
  then have r: "backlog_reach s3" unfolding s3_def
    by (rule backlog_reach.onward [OF _ backlog_step.done_command]) (simp add: s2_def)
  have "outstanding s3 = 0" "bk_uncounted s3" "bk_queue s3 = []"
    by (simp_all add: outstanding_def s3_def s2_def s1_def)
  moreover have "ms_channel (bk_metrics s3) = Some \<lparr> sm_backlog_count = - 1, sm_last_flush_at = None \<rparr>"
    by (simp add: s3_def s2_def s1_def backlog_init_def metrics_init_def dec_backlog_def storage_metrics_snapshot_def)
  ultimately show ?thesis using backlog_is_exact [OF r] r by auto
qed

end
