(* ===== verification/Sqlite_Storage.thy ===== *)
theory Sqlite_Storage
  imports Storage_Client
begin

text \<open>
  The SQLite back end, crates/storage/src/sqlite3.rs: the rows it inserts, the writer thread with its
  transactions of a hundred commands, and the three queries.  Tables are lists of rows in the order
  of their rowids.

  What SQLite and its Rust binding answer is an input of each operation: whether an \<open>INSERT\<close>, a
  \<open>COMMIT\<close> or a \<open>BEGIN\<close> fails and with which message, and in what order rows with equal keys come.  A
  failed \<open>INSERT\<close> undoes that statement only; a transaction whose commit fails is rolled back when it
  is dropped; a query opens its own connection and sees what is committed.
\<close>

section \<open>Inserting rows\<close>

type_synonym sqlite_db = "(string, int) database"

definition raw_row_of :: "'f codec \<Rightarrow> raw_event \<Rightarrow> string raw_row" where
  "raw_row_of C event =
     \<lparr> rw_timestamp = co_time C (raw_timestamp event), rw_event_type = raw_event_type event,
       rw_data = js_raw C event \<rparr>"

text \<open>An \<open>INTEGER PRIMARY KEY\<close> that is not given is one more than the largest in use.\<close>

definition next_rowid :: "'t activity_row list \<Rightarrow> int" where
  "next_rowid rows = 1 + foldl (\<lambda>m r. case ay_id r of Some i \<Rightarrow> max m i | None \<Rightarrow> m) 0 rows"

definition record_row_of :: "'f codec \<Rightarrow> int \<Rightarrow> activity_record \<Rightarrow> string activity_row" where
  "record_row_of C rowid r =
     \<lparr> ay_id = Some rowid, ay_record_id = Some (sint (rec_id r)), ay_start_time = co_time C (rec_start_time r),
       ay_end_time = map_option (co_time C) (rec_end_time r), ay_state = activity_state_debug (rec_state r),
       ay_focus_info = map_option (js_focus C) (rec_focus_info r), ay_run_id = rec_run_id r \<rparr>"

definition envelope_row_of :: "'f codec \<Rightarrow> event_envelope \<Rightarrow> (string, int) envelope_row" where
  "envelope_row_of C e =
     \<lparr> ew_event_id = Some (sint (env_id e)), ew_timestamp = co_time C (env_timestamp e),
       ew_source = source_label (env_source e), ew_kind = kind_label (env_kind e),
       ew_payload = payload_json C (env_payload e),
       ew_derived = (if env_derived e then 1 else 0), ew_polling = (if env_polling e then 1 else 0),
       ew_sensitive = (if env_sensitive e then 1 else 0) \<rparr>"

definition compact_row_of :: "'f codec \<Rightarrow> 'f compact_event \<Rightarrow> string compact_row" where
  "compact_row_of C ce = (case compact_columns C ce of (start_time, end_time, kind_s, payload_js, raw_ref_js) \<Rightarrow>
     \<lparr> cw_start_time = co_time C start_time, cw_end_time = co_time C end_time, cw_kind = kind_s,
       cw_payload = payload_js, cw_raw_event_ref = raw_ref_js \<rparr>)"

definition transition_row_of :: "'f codec \<Rightarrow> transition \<Rightarrow> string transition_row" where
  "transition_row_of C t =
     \<lparr> tw_at = co_time C (trn_at t), tw_from_state = activity_state_debug (trn_from t),
       tw_to_state = activity_state_debug (trn_to t), tw_by_signal = trn_by_signal t, tw_run_id = trn_run_id t \<rparr>"

text \<open>\<open>fail i\<close> is the error of the \<open>i\<close>th statement of a command.\<close>

fun insert_compact ::
  "'f codec \<Rightarrow> (nat \<Rightarrow> string option) \<Rightarrow> nat \<Rightarrow> 'f compact_event list \<Rightarrow> sqlite_db \<Rightarrow> sqlite_db \<times> string option" where
  "insert_compact C fail i [] db = (db, None)"
| "insert_compact C fail i (ce # ces) db = (case fail i of
      Some e \<Rightarrow> (db, Some e)
    | None \<Rightarrow> insert_compact C fail (Suc i) ces (db\<lparr> db_compact := db_compact db @ [compact_row_of C ce] \<rparr>))"

definition insert_or_fail :: "string option \<Rightarrow> sqlite_db \<Rightarrow> sqlite_db \<Rightarrow> sqlite_db \<times> string option" where
  "insert_or_fail err db db' = (case err of None \<Rightarrow> (db', None) | Some e \<Rightarrow> (db, Some e))"

fun execute_command ::
  "'f codec \<Rightarrow> (nat \<Rightarrow> string option) \<Rightarrow> 'f storage_command \<Rightarrow> sqlite_db \<Rightarrow> sqlite_db \<times> string option" where
  "execute_command C fail (StoreRawEvent event) db =
     insert_or_fail (fail 0) db (db\<lparr> db_raw_events := db_raw_events db @ [raw_row_of C event] \<rparr>)"
| "execute_command C fail (StoreRecord record) db =
     insert_or_fail (fail 0) db
       (db\<lparr> db_records := db_records db @ [record_row_of C (next_rowid (db_records db)) record] \<rparr>)"
| "execute_command C fail (StoreEnvelope env) db =
     insert_or_fail (fail 0) db (db\<lparr> db_envelopes := db_envelopes db @ [envelope_row_of C env] \<rparr>)"
| "execute_command C fail (StoreCompactEvents events) db = insert_compact C fail 0 events db"
| "execute_command C fail (StoreTransition transition) db =
     insert_or_fail (fail 0) db (db\<lparr> db_transitions := db_transitions db @ [transition_row_of C transition] \<rparr>)"
| "execute_command C fail StoreShutdown db = (db, None)"

section \<open>The writer thread\<close>

text \<open>The errors of the statements of an iteration, and the clock where it flushes.\<close>

record writer_env =
  we_fail :: "nat \<Rightarrow> string option"
  we_commit_fail :: "string option"
  we_begin_fail :: "string option"
  we_now :: instant

record sqlite_writer =
  sq_committed :: sqlite_db
  sq_tx :: sqlite_db
  sq_count :: i32
  sq_bus :: snapshot_bus
  sq_metrics :: metrics_state

datatype writer_next = WriterGoesOn | WriterStops | WriterPanics

definition sqlite_start :: "sqlite_db \<Rightarrow> snapshot_bus \<Rightarrow> metrics_state \<Rightarrow> sqlite_writer" where
  "sqlite_start db bus m = \<lparr> sq_committed = db, sq_tx = db, sq_count = 0, sq_bus = bus, sq_metrics = m \<rparr>"

definition sqlite_commit :: "string \<Rightarrow> writer_env \<Rightarrow> sqlite_writer \<Rightarrow> sqlite_writer" where
  "sqlite_commit message E w = (case we_commit_fail E of
      None \<Rightarrow> w\<lparr> sq_committed := sq_tx w \<rparr>
    | Some e \<Rightarrow> w\<lparr> sq_tx := sq_committed w, sq_bus := push_health (sq_bus w) (message @ e) \<rparr>)"

definition sqlite_flushed :: "writer_env \<Rightarrow> sqlite_writer \<Rightarrow> sqlite_writer" where
  "sqlite_flushed E w = w\<lparr> sq_metrics := set_last_flush (we_now E) (sq_metrics w) \<rparr>"

definition sqlite_counted :: "sqlite_writer \<Rightarrow> sqlite_writer" where
  "sqlite_counted w = w\<lparr> sq_metrics := dec_backlog (sq_metrics w) \<rparr>"

definition sqlite_execute :: "'f codec \<Rightarrow> writer_env \<Rightarrow> 'f storage_command \<Rightarrow> sqlite_writer \<Rightarrow> sqlite_writer" where
  "sqlite_execute C E cmd w = (case execute_command C (we_fail E) cmd (sq_tx w) of
      (tx, None) \<Rightarrow> w\<lparr> sq_tx := tx \<rparr>
    | (tx, Some e) \<Rightarrow> w\<lparr> sq_tx := tx, sq_bus := push_health (sq_bus w) (''db write error: '' @ e) \<rparr>)"

definition sqlite_step :: "'f codec \<Rightarrow> writer_env \<Rightarrow> sqlite_writer \<Rightarrow> 'f storage_command \<Rightarrow> sqlite_writer \<times> writer_next" where
  "sqlite_step C E w cmd = (case cmd of
      StoreShutdown \<Rightarrow> (w, WriterStops)
    | _ \<Rightarrow>
        (let w1 = sqlite_execute C E cmd w; w2 = w1\<lparr> sq_count := sq_count w1 + 1 \<rparr>
         in if sint (sq_count w2) mod 100 = 0
            then (let w3 = sqlite_flushed E (sqlite_commit ''db commit error: '' E w2)
                  in case we_begin_fail E of
                       Some _ \<Rightarrow> (w3, WriterPanics)
                     | None \<Rightarrow> (sqlite_counted w3, WriterGoesOn))
            else (sqlite_counted w2, WriterGoesOn)))"

definition sqlite_finish :: "writer_env \<Rightarrow> sqlite_writer \<Rightarrow> sqlite_writer" where
  "sqlite_finish E w = sqlite_flushed E (sqlite_commit ''db final commit error: '' E w)"

text \<open>The whole thread; the list ends when all senders have gone.\<close>

fun sqlite_run :: "'f codec \<Rightarrow> (writer_env \<times> 'f storage_command) list \<Rightarrow> writer_env \<Rightarrow> sqlite_writer \<Rightarrow> sqlite_writer" where
  "sqlite_run C [] E w = sqlite_finish E w"
| "sqlite_run C ((e, c) # rest) E w = (case sqlite_step C e w c of
      (w', WriterGoesOn) \<Rightarrow> sqlite_run C rest E w'
    | (w', WriterStops) \<Rightarrow> sqlite_finish E w'
    | (w', WriterPanics) \<Rightarrow> w')"

section \<open>Queries\<close>

text \<open>\<open>COALESCE(record_id, id)\<close>; a row of this schema has a rowid.\<close>

definition coalesce_id :: "'t activity_row \<Rightarrow> int option" where
  "coalesce_id row = (case ay_record_id row of Some i \<Rightarrow> Some i | None \<Rightarrow> ay_id row)"

definition record_of_row :: "'f codec \<Rightarrow> string activity_row \<Rightarrow> string + activity_record" where
  "record_of_row C row = (case coalesce_id row of
      None \<Rightarrow> Inl ''Invalid column type Null at index: 0''
    | Some i \<Rightarrow> (case co_time_of C (ay_start_time row) of
        Inl _ \<Rightarrow> Inl ''Invalid start_time in DB''
      | Inr start_time \<Rightarrow>
          (let finished = (\<lambda>end_time. Inr
             \<lparr> rec_id = word_of_int i, rec_run_id = ay_run_id row, rec_start_time = start_time, rec_end_time = end_time,
               rec_state = parse_state_label (ay_state row),
               rec_focus_info = Option.bind (ay_focus_info row) (js_focus_of C),
               rec_event_count = 0, rec_triggering_events = [] \<rparr>)
           in case ay_end_time row of
                None \<Rightarrow> finished None
              | Some s \<Rightarrow> (case co_time_of C s of
                  Inl _ \<Rightarrow> Inl ''Invalid end_time in DB''
                | Inr end_time \<Rightarrow> finished (Some end_time)))))"

text \<open>\<open>fault\<close> is an error of opening, preparing or stepping a query; \<open>it\<close> settles ties of the order.\<close>

definition sqlite_fetch_records_since ::
  "'f codec \<Rightarrow> (string activity_row list \<Rightarrow> string activity_row list) \<Rightarrow> string option \<Rightarrow> sqlite_db \<Rightarrow>
   instant \<Rightarrow> string option \<Rightarrow> string + activity_record list" where
  "sqlite_fetch_records_since C it fault db since run_id = (case fault of
      Some e \<Rightarrow> Inl e
    | None \<Rightarrow> collect_rows (record_of_row C)
        (order_by it ay_start_time
          (filter (\<lambda>r. (case ay_end_time r of None \<Rightarrow> True | Some e \<Rightarrow> co_time C since \<le> e)
             \<and> (case run_id of None \<Rightarrow> True | Some i \<Rightarrow> ay_run_id r = Some i)) (db_records db))))"

definition envelope_of_row :: "'f codec \<Rightarrow> (string, int) envelope_row \<Rightarrow> string + event_envelope" where
  "envelope_of_row C row = (case co_time_of C (ew_timestamp row) of
      Inl e \<Rightarrow> Inl e
    | Inr timestamp \<Rightarrow>
        (let kind = parse_kind (ew_kind row) in Inr
          \<lparr> env_id = (case ew_event_id row of Some i \<Rightarrow> word_of_int i | None \<Rightarrow> 0), env_timestamp = timestamp,
            env_source = parse_source (ew_source row), env_kind = kind,
            env_payload = parse_payload C kind (ew_kind row) (ew_payload row),
            env_derived = (ew_derived row \<noteq> 0), env_polling = (ew_polling row \<noteq> 0),
            env_sensitive = (ew_sensitive row \<noteq> 0) \<rparr>))"

definition sqlite_fetch_envelopes_between ::
  "'f codec \<Rightarrow> ((string, int) envelope_row list \<Rightarrow> (string, int) envelope_row list) \<Rightarrow> string option \<Rightarrow> sqlite_db \<Rightarrow>
   instant \<Rightarrow> instant \<Rightarrow> string + event_envelope list" where
  "sqlite_fetch_envelopes_between C it fault db since until = (case fault of
      Some e \<Rightarrow> Inl e
    | None \<Rightarrow> collect_rows (envelope_of_row C)
        (order_by it ew_timestamp
          (filter (\<lambda>r. co_time C since \<le> ew_timestamp r \<and> ew_timestamp r \<le> co_time C until) (db_envelopes db))))"

definition transition_of_row :: "'f codec \<Rightarrow> string transition_row \<Rightarrow> string + transition" where
  "transition_of_row C row = (case co_time_of C (tw_at row) of
      Inl e \<Rightarrow> Inl e
    | Inr at \<Rightarrow> Inr \<lparr> trn_from = parse_state_label (tw_from_state row), trn_to = parse_state_label (tw_to_state row),
        trn_at = at, trn_by_signal = tw_by_signal row, trn_run_id = tw_run_id row \<rparr>)"

definition sqlite_fetch_recent_transitions ::
  "'f codec \<Rightarrow> (string transition_row list \<Rightarrow> string transition_row list) \<Rightarrow> string option \<Rightarrow> sqlite_db \<Rightarrow>
   instant \<Rightarrow> string option \<Rightarrow> u64 \<Rightarrow> string + transition list" where
  "sqlite_fetch_recent_transitions C it fault db since run_id limit = (case fault of
      Some e \<Rightarrow> Inl e
    | None \<Rightarrow> collect_rows (transition_of_row C)
        (sql_limit (sint limit) (order_by_desc it tw_at
          (filter (\<lambda>r. co_time C since \<le> tw_at r
             \<and> (case run_id of None \<Rightarrow> True | Some i \<Rightarrow> tw_run_id r = Some i)) (db_transitions db)))))"

section \<open>Specification of the writer\<close>

text \<open>What the statements that succeed make of a database.\<close>

definition apply_inputs :: "'f codec \<Rightarrow> (writer_env \<times> 'f storage_command) list \<Rightarrow> sqlite_db \<Rightarrow> sqlite_db" where
  "apply_inputs C ins db = foldl (\<lambda>db (E, c). fst (execute_command C (we_fail E) c db)) db ins"

text \<open>Inputs of an undisturbed run: no shutdown among them, and every transaction can be begun.\<close>

definition plain_inputs :: "(writer_env \<times> 'f storage_command) list \<Rightarrow> bool" where
  "plain_inputs ins = list_all (\<lambda>(E, c). c \<noteq> StoreShutdown \<and> we_begin_fail E = None) ins"

text \<open>
  The commands whose transaction is committed: a hundred at a time, with the commit after the last of them, and the rest
  with the commit at the end, \<open>E\<close>.  A commit that fails costs its hundred; after a \<open>BEGIN\<close> that fails the writer is gone.
\<close>

function kept_commands :: "writer_env \<Rightarrow> (writer_env \<times> 'f storage_command) list \<Rightarrow> (writer_env \<times> 'f storage_command) list" where
  "kept_commands E ins =
     (if length ins < 100 then (if we_commit_fail E = None then ins else [])
      else (let batch = take 100 ins; e = fst (ins ! 99)
            in (if we_commit_fail e = None then batch else [])
               @ (if we_begin_fail e = None then kept_commands E (drop 100 ins) else [])))"
  by pat_completeness auto
termination by (relation "measure (\<lambda>(E, ins). length ins)") auto

declare kept_commands.simps [simp del]

text \<open>What a command leaves in each table: what its statements insert up to the first that fails.\<close>

fun raws_kept :: "writer_env \<times> 'f storage_command \<Rightarrow> raw_event list" where
  "raws_kept (E, StoreRawEvent event) = (if we_fail E 0 = None then [event] else [])"
| "raws_kept _ = []"

fun records_kept :: "writer_env \<times> 'f storage_command \<Rightarrow> activity_record list" where
  "records_kept (E, StoreRecord record) = (if we_fail E 0 = None then [record] else [])"
| "records_kept _ = []"

fun envelopes_kept :: "writer_env \<times> 'f storage_command \<Rightarrow> event_envelope list" where
  "envelopes_kept (E, StoreEnvelope env) = (if we_fail E 0 = None then [env] else [])"
| "envelopes_kept _ = []"

fun transitions_kept :: "writer_env \<times> 'f storage_command \<Rightarrow> transition list" where
  "transitions_kept (E, StoreTransition transition) = (if we_fail E 0 = None then [transition] else [])"
| "transitions_kept _ = []"

fun compacts_kept :: "writer_env \<times> 'f storage_command \<Rightarrow> 'f compact_event list" where
  "compacts_kept (E, StoreCompactEvents events) =
     map fst (takeWhile (\<lambda>(ce, i). we_fail E i = None) (zip events [0 ..< length events]))"
| "compacts_kept _ = []"

definition kept :: "('i \<Rightarrow> 'a list) \<Rightarrow> 'i list \<Rightarrow> 'a list" where
  "kept part ins = concat (map part ins)"

text \<open>New rowids: ascending, and beyond all in use.\<close>

definition new_rowids :: "'t activity_row list \<Rightarrow> int list \<Rightarrow> bool" where
  "new_rowids rows ids \<longleftrightarrow> sorted_wrt (<) ids \<and> list_all (\<lambda>i. list_all (\<lambda>r. pred_option (\<lambda>j. j < i) (ay_id r)) rows) ids"

text \<open>A database with these rows behind those of another.\<close>

definition has_appended :: "'f codec \<Rightarrow> sqlite_db \<Rightarrow> (writer_env \<times> 'f storage_command) list \<Rightarrow> sqlite_db \<Rightarrow> bool" where
  "has_appended C db ins db' \<longleftrightarrow>
     db_raw_events db' = db_raw_events db @ map (raw_row_of C) (kept raws_kept ins)
     \<and> db_envelopes db' = db_envelopes db @ map (envelope_row_of C) (kept envelopes_kept ins)
     \<and> db_compact db' = db_compact db @ map (compact_row_of C) (kept compacts_kept ins)
     \<and> db_transitions db' = db_transitions db @ map (transition_row_of C) (kept transitions_kept ins)
     \<and> (\<exists>ids. length ids = length (kept records_kept ins) \<and> new_rowids (db_records db) ids
          \<and> db_records db' = db_records db @ map (\<lambda>(i, r). record_row_of C i r) (zip ids (kept records_kept ins)))"

section \<open>Lemmas: the writer\<close>

lemma sint_count: "n < 2 ^ 31 \<Longrightarrow> sint (of_nat n :: i32) = int n"
  by (simp add: signed_of_nat signed_take_bit_int_eq_self)

lemma count_mod: "n < 2 ^ 31 \<Longrightarrow> (sint (of_nat n :: i32) mod 100 = 0) = (n mod 100 = 0)"
  by (simp only: sint_count) (metis int_ops(3) of_nat_eq_0_iff of_nat_numeral zmod_int)

lemma apply_inputs_simps [simp]:
  "apply_inputs C [] db = db"
  "apply_inputs C ((E, c) # ins) db = apply_inputs C ins (fst (execute_command C (we_fail E) c db))"
  by (simp_all add: apply_inputs_def)

lemma apply_inputs_append: "apply_inputs C (xs @ ys) db = apply_inputs C ys (apply_inputs C xs db)"
  by (simp add: apply_inputs_def)

lemma sqlite_execute_fields:
  "sq_tx (sqlite_execute C E c w) = fst (execute_command C (we_fail E) c (sq_tx w))"
  "sq_committed (sqlite_execute C E c w) = sq_committed w" "sq_count (sqlite_execute C E c w) = sq_count w"
  by (auto simp: sqlite_execute_def split: prod.split option.split)

lemma sqlite_commit_fields:
  "sq_committed (sqlite_commit m E w) = (case we_commit_fail E of None \<Rightarrow> sq_tx w | Some _ \<Rightarrow> sq_committed w)"
  "sq_tx (sqlite_commit m E w) = sq_committed (sqlite_commit m E w)" "sq_count (sqlite_commit m E w) = sq_count w"
  by (auto simp: sqlite_commit_def split: option.split)

lemma sqlite_marks [simp]:
  "sq_committed (sqlite_flushed E w) = sq_committed w" "sq_tx (sqlite_flushed E w) = sq_tx w"
  "sq_count (sqlite_flushed E w) = sq_count w"
  "sq_committed (sqlite_counted w) = sq_committed w" "sq_tx (sqlite_counted w) = sq_tx w"
  "sq_count (sqlite_counted w) = sq_count w"
  by (simp_all add: sqlite_flushed_def sqlite_counted_def)

text \<open>Commands within a batch.\<close>

lemma sqlite_run_within:
  assumes "StoreShutdown \<notin> snd ` set ins" and "sq_count w = of_nat n" and "n mod 100 + length ins < 100" and "n + length ins < 2 ^ 31"
  shows "\<exists>w'. (\<forall>rest. sqlite_run C (ins @ rest) E w = sqlite_run C rest E w') \<and> sq_count w' = of_nat (n + length ins)
    \<and> sq_committed w' = sq_committed w \<and> sq_tx w' = apply_inputs C ins (sq_tx w)"
  using assms
proof (induction ins arbitrary: w n)
  case (Cons i ins)
  obtain e c where i: "i = (e, c)" by (cases i)
  define w1 where "w1 = sqlite_counted ((sqlite_execute C e c w)\<lparr> sq_count := sq_count w + 1 \<rparr>)"
  have m: "Suc n mod 100 = Suc (n mod 100)" using Cons.prems(3) by (simp add: mod_Suc)
  have c: "sq_count w + 1 = of_nat (Suc n)" using Cons.prems(2) by simp
  have "\<not> sint (sq_count w + 1) mod 100 = 0" unfolding c using count_mod [of "Suc n"] m Cons.prems(4) by simp
  then have "sqlite_step C e w c = (w1, WriterGoesOn)"
    using Cons.prems(1) i by (cases c) (simp_all add: sqlite_step_def Let_def w1_def sqlite_execute_fields)
  then have r: "sqlite_run C ((i # ins) @ rest) E w = sqlite_run C (ins @ rest) E w1" for rest by (simp add: i)
  have "StoreShutdown \<notin> snd ` set ins" "sq_count w1 = of_nat (Suc n)" "Suc n mod 100 + length ins < 100" "Suc n + length ins < 2 ^ 31"
    using Cons.prems c m by (simp_all add: w1_def)
  from Cons.IH [OF this] obtain w' where "\<forall>rest. sqlite_run C (ins @ rest) E w1 = sqlite_run C rest E w'"
    "sq_count w' = of_nat (Suc n + length ins)" "sq_committed w' = sq_committed w1" "sq_tx w' = apply_inputs C ins (sq_tx w1)" by blast
  then show ?case unfolding r by (intro exI [of _ w']) (simp add: i w1_def sqlite_execute_fields)
qed auto

text \<open>The writer from the start of a batch to its end.\<close>

lemma sqlite_run_kept:
  assumes "StoreShutdown \<notin> snd ` set ins" and "rest = [] \<or> (\<exists>E' more. rest = (E', StoreShutdown) # more)"
    and "sq_tx w = sq_committed w" and "sq_count w = of_nat n" and "n mod 100 = 0" and "n + length ins < 2 ^ 31"
  shows "sq_committed (sqlite_run C (ins @ rest) E w) = apply_inputs C (kept_commands E ins) (sq_committed w)"
  using assms
proof (induction E ins arbitrary: w n rule: kept_commands.induct)
  case (1 E ins)
  show ?case
  proof (cases "length ins < 100")
    case True
    with sqlite_run_within [OF "1.prems"(1,4) _ "1.prems"(6), of C E] "1.prems"(5) obtain w' where
      w': "sqlite_run C (ins @ rest) E w = sqlite_run C rest E w'" "sq_committed w' = sq_committed w"
      "sq_tx w' = apply_inputs C ins (sq_tx w)" by auto
    have "sqlite_run C rest E w' = sqlite_finish E w'" using "1.prems"(2) by (auto simp: sqlite_step_def)
    with w' "1.prems"(3) True show ?thesis
      by (subst kept_commands.simps) (simp add: sqlite_finish_def sqlite_commit_fields split: option.split)
  next
    case False
    define front and e and c and behind where "front = take 99 ins" and "e = fst (ins ! 99)" and "c = snd (ins ! 99)" and "behind = drop 100 ins"
    have batch: "take 100 ins = front @ [(e, c)]"
      using False take_Suc_conv_app_nth [of 99 ins] by (simp add: front_def e_def c_def)
    have ins: "ins = front @ (e, c) # behind"
      using append_take_drop_id [of 100 ins] by (simp add: batch behind_def)
    have len: "length front = 99" using False by (simp add: front_def)
    have no: "StoreShutdown \<notin> snd ` set front" "c \<noteq> StoreShutdown" "StoreShutdown \<notin> snd ` set behind"
      using "1.prems"(1) unfolding ins by auto
    from sqlite_run_within [OF no(1) "1.prems"(4), of C E] len "1.prems"(5,6) obtain w1 where
      w1: "sqlite_run C (front @ (e, c) # behind @ rest) E w = sqlite_run C ((e, c) # behind @ rest) E w1" "sq_count w1 = of_nat (n + 99)"
      "sq_committed w1 = sq_committed w" "sq_tx w1 = apply_inputs C front (sq_tx w)" unfolding ins by auto
    define w2 where "w2 = sqlite_flushed e (sqlite_commit ''db commit error: '' e ((sqlite_execute C e c w1)\<lparr> sq_count := sq_count w1 + 1 \<rparr>))"
    have c: "sq_count w1 + 1 = of_nat (n + 100)" using w1(2) by simp
    have "n + 100 < 2 ^ 31" using "1.prems"(6) False by simp
    then have "sint (sq_count w1 + 1) mod 100 = 0" unfolding c using count_mod [of "n + 100"] "1.prems"(5) by simp
    then have step: "sqlite_step C e w1 c = (case we_begin_fail e of Some _ \<Rightarrow> (w2, WriterPanics) | None \<Rightarrow> (sqlite_counted w2, WriterGoesOn))"
      using no(2) by (cases c; cases "we_begin_fail e") (simp_all add: sqlite_step_def Let_def w2_def sqlite_execute_fields)
    have w2: "sq_tx w2 = sq_committed w2" "sq_count w2 = of_nat (n + 100)"
      "sq_committed w2 = apply_inputs C (if we_commit_fail e = None then take 100 ins else []) (sq_committed w)"
      using w1 "1.prems"(3) c
      by (auto simp: w2_def sqlite_commit_fields sqlite_execute_fields batch apply_inputs_append split: option.split)
    show ?thesis
    proof (cases "we_begin_fail e")
      case (Some m)
      then show ?thesis
        using w1(1) step w2(3) False by (subst kept_commands.simps) (simp add: Let_def flip: e_def, simp add: ins)
    next
      case None
      have "sq_committed (sqlite_run C (behind @ rest) E (sqlite_counted w2)) = apply_inputs C (kept_commands E behind) (sq_committed (sqlite_counted w2))"
        unfolding behind_def
        by (rule "1.IH" [OF False refl refl, where n = "n + 100"])
          (use None no(3) "1.prems"(2,5,6) w2 False in \<open>simp_all add: behind_def e_def\<close>)
      then have "sq_committed (sqlite_run C (ins @ rest) E w) = apply_inputs C (kept_commands E behind) (sq_committed w2)"
        using w1(1) step None by (simp add: ins)
      then show ?thesis
        using w2(3) None False by (subst kept_commands.simps) (simp add: Let_def apply_inputs_append flip: e_def behind_def)
    qed
  qed
qed

text \<open>A run without errors keeps all.\<close>

lemma kept_commands_all:
  "list_all (\<lambda>(E, c). we_commit_fail E = None \<and> we_begin_fail E = None) ins \<Longrightarrow> we_commit_fail E = None \<Longrightarrow> kept_commands E ins = ins"
proof (induction E ins rule: kept_commands.induct)
  case (1 E ins)
  show ?case
  proof (cases "length ins < 100")
    case False
    then have "ins ! 99 \<in> set ins" by simp
    then have "we_commit_fail (fst (ins ! 99)) = None" "we_begin_fail (fst (ins ! 99)) = None"
      using 1(2) by (auto simp: list_all_iff)
    moreover have "list_all (\<lambda>(E, c). we_commit_fail E = None \<and> we_begin_fail E = None) (drop 100 ins)"
      using 1(2) by (auto simp: list_all_iff dest: in_set_dropD)
    ultimately show ?thesis using 1(1) [OF False refl refl] 1(3) False by (subst kept_commands.simps) simp
  qed (use 1(3) in \<open>simp add: kept_commands.simps\<close>)
qed

lemma sqlite_run_all:
  assumes "plain_inputs ins" and "list_all (\<lambda>(E, c). we_commit_fail E = None) ins" and "we_commit_fail E = None"
    and "length ins < 2 ^ 31" and "rest = [] \<or> (\<exists>E' more. rest = (E', StoreShutdown) # more)"
  shows "sq_committed (sqlite_run C (ins @ rest) E (sqlite_start db bus m)) = apply_inputs C ins db"
proof -
  have "kept_commands E ins = ins"
    using assms(1-3) by (intro kept_commands_all) (auto simp: plain_inputs_def list_all_iff)
  moreover have "StoreShutdown \<notin> snd ` set ins" using assms(1) by (auto simp: plain_inputs_def list_all_iff)
  ultimately show ?thesis
    using sqlite_run_kept [OF _ assms(5), of ins "sqlite_start db bus m" 0 C E] assms(4) by (simp add: sqlite_start_def)
qed

text \<open>What the statements leave.\<close>

lemma insert_compact_kept:
  "fst (insert_compact C fail i ces db) = db\<lparr> db_compact := db_compact db @ map (compact_row_of C)
     (map fst (takeWhile (\<lambda>(ce, j). fail j = None) (zip ces [i ..< i + length ces]))) \<rparr>"
proof (induction ces arbitrary: i db)
  case (Cons ce ces)
  have "[i ..< i + length (ce # ces)] = i # [Suc i ..< Suc i + length ces]" by (simp add: upt_conv_Cons del: upt_Suc)
  then show ?case by (simp add: Cons del: upt_Suc split: option.split)
qed simp

lemma next_rowid_new: "list_all (\<lambda>r. pred_option (\<lambda>j. j < next_rowid rows) (ay_id r)) rows"
proof -
  define top where "top = (\<lambda>m (r :: 'a activity_row). case ay_id r of Some i \<Rightarrow> max m i | None \<Rightarrow> m)"
  have up: "m \<le> foldl top m rows" for m :: int and rows :: "'a activity_row list"
    by (induction rows arbitrary: m) (auto simp: top_def split: option.split intro: order_trans [OF max.cobounded1])
  have "list_all (\<lambda>r. pred_option (\<lambda>j. j \<le> foldl top m rows) (ay_id r)) rows" for m :: int and rows :: "'a activity_row list"
  proof (induction rows arbitrary: m)
    case (Cons r rows)
    have "pred_option (\<lambda>j. j \<le> top m r) (ay_id r)" by (cases "ay_id r") (simp_all add: top_def)
    with up [of "top m r" rows] Cons show ?case by (cases "ay_id r") auto
  qed simp
  from this [of 0 rows] show ?thesis
    by (fastforce simp: next_rowid_def top_def list_all_iff option.pred_set)
qed

lemma kept_Cons: "kept part (i # ins) = part i @ kept part ins"
  by (simp add: kept_def)

lemma has_appended_inputs: "has_appended C db ins (apply_inputs C ins db)"
proof (induction ins arbitrary: db)
  case Nil
  then show ?case by (auto simp: has_appended_def kept_def new_rowids_def)
next
  case (Cons i ins)
  obtain E c where i: "i = (E, c)" by (cases i)
  let ?db = "fst (execute_command C (we_fail E) c db)"
  have IH: "has_appended C ?db ins (apply_inputs C (i # ins) db)" using Cons by (simp add: i)
  have tables: "db_raw_events ?db = db_raw_events db @ map (raw_row_of C) (raws_kept i)"
    "db_envelopes ?db = db_envelopes db @ map (envelope_row_of C) (envelopes_kept i)"
    "db_compact ?db = db_compact db @ map (compact_row_of C) (compacts_kept i)"
    "db_transitions ?db = db_transitions db @ map (transition_row_of C) (transitions_kept i)"
    "db_records ?db = db_records db @ map (record_row_of C (next_rowid (db_records db))) (records_kept i)"
    by (cases c; auto simp: i insert_or_fail_def insert_compact_kept split: option.split)+
  from IH obtain ids where ids: "length ids = length (kept records_kept ins)" "new_rowids (db_records ?db) ids"
    "db_records (apply_inputs C (i # ins) db) = db_records ?db @ map (\<lambda>(i, r). record_row_of C i r) (zip ids (kept records_kept ins))"
    by (auto simp: has_appended_def)
  let ?ids = "map (\<lambda>_. next_rowid (db_records db)) (records_kept i) @ ids"
  have "records_kept i = [] \<or> (\<exists>r. records_kept i = [r])" by (cases c) (simp_all add: i)
  then have "new_rowids (db_records db) ?ids \<and> length ?ids = length (kept records_kept (i # ins))
      \<and> db_records (apply_inputs C (i # ins) db) = db_records db @ map (\<lambda>(i, r). record_row_of C i r) (zip ?ids (kept records_kept (i # ins)))"
    using ids next_rowid_new [of "db_records db"] unfolding tables(5)
    by (auto simp: new_rowids_def kept_Cons list_all_iff record_row_of_def)
  then have "\<exists>ids. length ids = length (kept records_kept (i # ins)) \<and> new_rowids (db_records db) ids
      \<and> db_records (apply_inputs C (i # ins) db) = db_records db @ map (\<lambda>(i, r). record_row_of C i r) (zip ids (kept records_kept (i # ins)))"
    by blast
  then show ?case using IH tables(1-4) unfolding has_appended_def by (simp add: kept_Cons)
qed

lemma writer_appends:
  assumes "StoreShutdown \<notin> snd ` set ins" and "length ins < 2 ^ 31" and "rest = [] \<or> (\<exists>E' more. rest = (E', StoreShutdown) # more)"
  shows "has_appended C db (kept_commands E ins) (sq_committed (sqlite_run C (ins @ rest) E (sqlite_start db bus m)))"
  using sqlite_run_kept [OF assms(1,3), of "sqlite_start db bus m" 0 C E] assms(2) has_appended_inputs [of C db]
  by (simp add: sqlite_start_def)

section \<open>Lemmas: the queries\<close>

definition reread_envelope :: "'f codec \<Rightarrow> event_envelope \<Rightarrow> event_envelope" where
  "reread_envelope C e = e\<lparr> env_payload := reread_payload C (env_payload e) \<rparr>"

definition envelope_readable :: "'f codec \<Rightarrow> event_envelope \<Rightarrow> bool" where
  "envelope_readable C e \<longleftrightarrow> payload_fits (env_kind e) (env_payload e) \<and> payload_codec C (env_payload e)"

lemma envelope_of_row_of:
  assumes "envelope_readable C e" and "co_time_of C (co_time C (env_timestamp e)) = Inr (env_timestamp e)"
  shows "envelope_of_row C (envelope_row_of C e) = Inr (reread_envelope C e)"
  using assms parse_payload_json [of "env_kind e" "env_payload e" C]
  by (simp add: envelope_readable_def envelope_of_row_def envelope_row_of_def reread_envelope_def Let_def)

text \<open>What a query keeps of a stored record.\<close>

definition reread_record :: "activity_record \<Rightarrow> activity_record" where
  "reread_record r = r\<lparr> rec_event_count := 0, rec_triggering_events := [] \<rparr>"

definition record_times :: "activity_record \<Rightarrow> instant set" where
  "record_times r = insert (rec_start_time r) (set_option (rec_end_time r))"

lemma record_of_row_of:
  assumes "\<And>t. t \<in> record_times r \<Longrightarrow> co_time_of C (co_time C t) = Inr t"
    and "\<And>f. rec_focus_info r = Some f \<Longrightarrow> js_focus_of C (js_focus C f) = Some f"
  shows "record_of_row C (record_row_of C i r) = Inr (reread_record r)"
proof -
  have "Option.bind (map_option (js_focus C) (rec_focus_info r)) (js_focus_of C) = rec_focus_info r"
    using assms(2) by (cases "rec_focus_info r") simp_all
  then show ?thesis
    using assms(1) by (cases "rec_end_time r")
      (simp_all add: record_of_row_def record_row_of_def coalesce_id_def reread_record_def record_times_def Let_def)
qed

lemma transition_of_row_of:
  "co_time_of C (co_time C (trn_at t)) = Inr (trn_at t) \<Longrightarrow> transition_of_row C (transition_row_of C t) = Inr t"
  by (simp add: transition_of_row_def transition_row_of_def)

lemma image_mset_set: "mset rows = image_mset f (mset vs) \<Longrightarrow> set rows = f ` set vs"
  by (drule arg_cong [where f = set_mset]) simp

text \<open>Reading sorted rows that come from values with these keys.\<close>

lemma collect_ordered:
  assumes rows: "mset rows = image_mset f (mset vs)" and read: "\<And>v. v \<in> set vs \<Longrightarrow> rd (f v) = Inr (g v)"
  shows "\<exists>out. collect_rows rd rows = Inr out \<and> mset out = image_mset g (mset vs)
    \<and> (\<exists>h. out = map h rows \<and> (\<forall>v \<in> set vs. h (f v) = g v))"
proof -
  define h where "h = (\<lambda>row. projr (rd row))"
  have set_rows: "set rows = f ` set vs" by (rule image_mset_set [OF rows])
  then have "collect_rows rd rows = Inr (map h rows)"
    by (intro collect_rows_map) (auto simp: h_def read)
  moreover have h: "h (f v) = g v" if "v \<in> set vs" for v using that by (simp add: h_def read)
  moreover have "mset (map h rows) = image_mset g (mset vs)"
    using rows h by (auto simp: image_mset.compositionality comp_def intro!: image_mset_cong)
  ultimately show ?thesis by blast
qed

lemma sorted_map_key:
  assumes "sorted (map key rows)" and "\<And>a b. a \<in> set rows \<Longrightarrow> b \<in> set rows \<Longrightarrow> key a \<le> key b \<Longrightarrow> t (h a) \<le> t (h b)"
  shows "sorted (map t (map h rows))"
  using assms by (induction rows) auto

lemma time_codec_le: "time_codec C T \<Longrightarrow> s \<in> T \<Longrightarrow> t \<in> T \<Longrightarrow> co_time C s \<le> co_time C t \<longleftrightarrow> s \<le> t"
  by (simp add: time_codec_def)

lemma time_codec_of: "time_codec C T \<Longrightarrow> t \<in> T \<Longrightarrow> co_time_of C (co_time C t) = Inr t"
  by (simp add: time_codec_def)

lemma row_keys [simp]:
  "ew_timestamp (envelope_row_of C e) = co_time C (env_timestamp e)"
  "env_timestamp (reread_envelope C e) = env_timestamp e"
  "ay_start_time (record_row_of C i r) = co_time C (rec_start_time r)"
  "rec_start_time (reread_record r) = rec_start_time r"
  "tw_at (transition_row_of C t) = co_time C (trn_at t)"
  by (simp_all add: envelope_row_of_def reread_envelope_def record_row_of_def reread_record_def transition_row_of_def)

lemma sorted_reread:
  assumes "sorted (map key rows)" and "set rows = f ` set vs" and "\<forall>v \<in> set vs. h (f v) = g v"
    and "time_codec C T" and "\<And>v. v \<in> set vs \<Longrightarrow> key (f v) = co_time C (t (g v)) \<and> t (g v) \<in> T"
  shows "sorted (map t (map h rows))"
proof (rule sorted_map_key [OF assms(1)])
  fix a b assume "a \<in> set rows" "b \<in> set rows" "key a \<le> key b"
  then have "a \<in> f ` set vs" "b \<in> f ` set vs" "key a \<le> key b" by (simp_all only: assms(2))
  then obtain u v where uv: "u \<in> set vs" "v \<in> set vs" "a = f u" "b = f v" "key (f u) \<le> key (f v)"
    by (elim imageE) simp
  note k = assms(5) [OF uv(1)] assms(5) [OF uv(2)]
  have "co_time C (t (g u)) \<le> co_time C (t (g v))" using uv(5) by (simp only: k)
  then have "t (g u) \<le> t (g v)" using k time_codec_le [OF assms(4)] by blast
  moreover have "h a = g u" "h b = g v" using assms(3) uv(1-4) by blast+
  ultimately show "t (h a) \<le> t (h b)" by simp
qed

lemma collect_rows_take: "collect_rows f xs = Inr ys \<Longrightarrow> collect_rows f (take n xs) = Inr (take n ys)"
proof (induction xs arbitrary: n ys)
  case (Cons x xs)
  then show ?case by (cases n) (auto split: sum.splits)
qed simp

text \<open>The records and transitions a query is about.\<close>

definition record_matches :: "instant \<Rightarrow> string option \<Rightarrow> activity_record \<Rightarrow> bool" where
  "record_matches since run_id r \<longleftrightarrow> (case rec_end_time r of None \<Rightarrow> True | Some e \<Rightarrow> since \<le> e)
     \<and> (case run_id of None \<Rightarrow> True | Some i \<Rightarrow> rec_run_id r = Some i)"

definition transition_matches :: "instant \<Rightarrow> string option \<Rightarrow> transition \<Rightarrow> bool" where
  "transition_matches since run_id t \<longleftrightarrow> since \<le> trn_at t \<and> (case run_id of None \<Rightarrow> True | Some i \<Rightarrow> trn_run_id t = Some i)"

lemma filter_map_cong: "(\<And>x. x \<in> set xs \<Longrightarrow> P (f x) = Q x) \<Longrightarrow> filter P (map f xs) = map f (filter Q xs)"
  by (induction xs) auto

section \<open>Properties\<close>

text \<open>
  C8: What the writer leaves in the database, whatever fails.  With fewer than \<open>2 ^ 31\<close> commands, the range of its
  counter, up to a shutdown or the loss of all senders, the tables are those of before with exactly these rows behind them, in the
  order of the commands: of each command in a transaction that was committed, the rows of its statements up to the first
  that failed, so that a failed statement costs its own row and, in a list of compact events, the rows behind it.  The
  transactions are of a hundred commands each and one of the rest; a commit that fails costs its transaction, and a
  \<open>BEGIN\<close> that fails ends the writer, so that nothing behind it is stored.  Records get new rowids, ascending.
\<close>
theorem writer_commits_batches:
  assumes "StoreShutdown \<notin> snd ` set ins" and "length ins < 2 ^ 31" and "rest = [] \<or> (\<exists>E' more. rest = (E', StoreShutdown) # more)"
  shows "let db' = sq_committed (sqlite_run C (ins @ rest) E (sqlite_start db bus m)); done = kept_commands E ins
    in db_raw_events db' = db_raw_events db @ map (raw_row_of C) (kept raws_kept done)
       \<and> db_envelopes db' = db_envelopes db @ map (envelope_row_of C) (kept envelopes_kept done)
       \<and> db_compact db' = db_compact db @ map (compact_row_of C) (kept compacts_kept done)
       \<and> db_transitions db' = db_transitions db @ map (transition_row_of C) (kept transitions_kept done)
       \<and> (\<exists>ids. length ids = length (kept records_kept done) \<and> new_rowids (db_records db) ids
            \<and> db_records db' = db_records db @ map (\<lambda>(i, r). record_row_of C i r) (zip ids (kept records_kept done)))"
  using writer_appends [OF assms, of C db E bus m] unfolding has_appended_def Let_def .

text \<open>
  C11: Envelopes make the round trip through the database.  Of the envelopes stored, the query gives
  exactly those with a time in the interval, ordered by time, with every field as it was stored,
  except that the reason of a lock has become the JSON text of the reason.
\<close>
theorem envelopes_reread:
  assumes "db_envelopes db = map (envelope_row_of C) envs" and "\<forall>e \<in> set envs. envelope_readable C e"
    and "time_codec C ({since, until} \<union> env_timestamp ` set envs)"
  shows "\<exists>out. sqlite_fetch_envelopes_between C it None db since until = Inr out
    \<and> mset out = mset (map (reread_envelope C) (filter (\<lambda>e. since \<le> env_timestamp e \<and> env_timestamp e \<le> until) envs))
    \<and> sorted (map env_timestamp out)"
proof -
  let ?in = "\<lambda>e. since \<le> env_timestamp e \<and> env_timestamp e \<le> until"
  let ?vs = "filter ?in envs"
  define rows where "rows = order_by it ew_timestamp
    (filter (\<lambda>r. co_time C since \<le> ew_timestamp r \<and> ew_timestamp r \<le> co_time C until) (db_envelopes db))"
  have "filter (\<lambda>r. co_time C since \<le> ew_timestamp r \<and> ew_timestamp r \<le> co_time C until) (db_envelopes db)
      = map (envelope_row_of C) ?vs"
    unfolding assms(1) filter_map comp_def
    by (rule arg_cong [where f = "map _"], rule filter_cong)
      (use assms(3) in \<open>auto simp: envelope_row_of_def time_codec_le\<close>)
  then have rows: "mset rows = image_mset (envelope_row_of C) (mset ?vs)" by (simp add: rows_def)
  have rd: "envelope_of_row C (envelope_row_of C v) = Inr (reread_envelope C v)" if "v \<in> set ?vs" for v
    using that assms(2) time_codec_of [OF assms(3)] by (auto intro: envelope_of_row_of)
  obtain out h where out: "collect_rows (envelope_of_row C) rows = Inr out" "mset out = image_mset (reread_envelope C) (mset ?vs)"
    "out = map h rows" "\<forall>v \<in> set ?vs. h (envelope_row_of C v) = reread_envelope C v"
    using collect_ordered [where f = "envelope_row_of C" and rd = "envelope_of_row C", OF rows rd] by blast
  have set_rows: "set rows = envelope_row_of C ` set ?vs" by (rule image_mset_set [OF rows])
  have "sorted (map ew_timestamp rows)" by (simp add: rows_def sorted_order_by)
  from sorted_reread [where f = "envelope_row_of C" and h = h and t = env_timestamp, OF this set_rows out(4) assms(3)]
  have "sorted (map env_timestamp out)" by (simp add: out(3))
  moreover have "sqlite_fetch_envelopes_between C it None db since until = Inr out"
    using out(1) by (simp add: sqlite_fetch_envelopes_between_def rows_def)
  moreover have "mset out = mset (map (reread_envelope C) ?vs)" by (simp only: out(2) mset_map)
  ultimately show ?thesis by blast
qed

text \<open>
  C12: Records make the round trip through the database.  The query gives exactly the records of the
  run, or of all runs, that have not ended or ended since, ordered by their start, with every field
  as it was stored except the count and the ids of the events, which are not stored.
\<close>
theorem records_reread:
  assumes "db_records db = map (\<lambda>(i, r). record_row_of C i r) irs"
    and "\<forall>(i, r) \<in> set irs. \<forall>f. rec_focus_info r = Some f \<longrightarrow> js_focus_of C (js_focus C f) = Some f"
    and "time_codec C (insert since (\<Union>(i, r) \<in> set irs. record_times r))"
  shows "\<exists>out. sqlite_fetch_records_since C it None db since run_id = Inr out
    \<and> mset out = mset (map reread_record (filter (record_matches since run_id) (map snd irs)))
    \<and> sorted (map rec_start_time out)"
proof -
  let ?T = "insert since (\<Union>(i, r) \<in> set irs. record_times r)"
  let ?row = "\<lambda>(i, r). record_row_of C i r"
  let ?vs = "filter (record_matches since run_id \<circ> snd) irs"
  let ?P = "\<lambda>r. (case ay_end_time r of None \<Rightarrow> True | Some e \<Rightarrow> co_time C since \<le> e)
      \<and> (case run_id of None \<Rightarrow> True | Some i \<Rightarrow> ay_run_id r = Some i)"
  define rows where "rows = order_by it ay_start_time (filter ?P (db_records db))"
  have T: "since \<in> ?T" "\<And>v t. v \<in> set irs \<Longrightarrow> t \<in> record_times (snd v) \<Longrightarrow> t \<in> ?T" by force+
  have "?P (?row v) = (record_matches since run_id \<circ> snd) v" if "v \<in> set irs" for v
  proof (cases "rec_end_time (snd v)")
    case (Some t)
    then have "t \<in> ?T" using T(2) [OF that, of t] by (simp add: record_times_def)
    with Some T(1) show ?thesis
      by (simp add: record_row_of_def record_matches_def split_beta time_codec_le [OF assms(3)] split: option.split)
  qed (simp add: record_row_of_def record_matches_def split_beta split: option.split)
  then have "filter ?P (db_records db) = map ?row ?vs" unfolding assms(1) by (rule filter_map_cong)
  then have rows: "mset rows = image_mset ?row (mset ?vs)" by (simp add: rows_def)
  have rd: "record_of_row C (?row v) = Inr (reread_record (snd v))" if "v \<in> set ?vs" for v
    unfolding split_beta
  proof (rule record_of_row_of)
    have v: "v \<in> set irs" using that by simp
    show "co_time_of C (co_time C t) = Inr t" if "t \<in> record_times (snd v)" for t
      by (rule time_codec_of [OF assms(3) T(2) [OF v that]])
    show "js_focus_of C (js_focus C f) = Some f" if "rec_focus_info (snd v) = Some f" for f
      using v that assms(2) by auto
  qed
  obtain out h where out: "collect_rows (record_of_row C) rows = Inr out"
    "mset out = image_mset (\<lambda>v. reread_record (snd v)) (mset ?vs)"
    "out = map h rows" "\<forall>v \<in> set ?vs. h (?row v) = reread_record (snd v)"
    using collect_ordered [where f = ?row and rd = "record_of_row C", OF rows rd] by blast
  have set_rows: "set rows = ?row ` set ?vs" by (rule image_mset_set [OF rows])
  have "sorted (map ay_start_time rows)" by (simp add: rows_def sorted_order_by)
  moreover have "rec_start_time (snd v) \<in> ?T" if "v \<in> set irs" for v
    by (rule T(2) [OF that]) (simp add: record_times_def)
  ultimately have "sorted (map rec_start_time out)"
    unfolding out(3)
    by - (rule sorted_reread [where f = ?row and h = h and key = ay_start_time, OF _ set_rows out(4) assms(3)], simp_all add: split_beta)
  moreover have "mset out = mset (map reread_record (filter (record_matches since run_id) (map snd irs)))"
    by (simp add: out(2) filter_map comp_def)
  ultimately show ?thesis
    using out(1) by (simp add: sqlite_fetch_records_since_def rows_def)
qed

text \<open>
  Recent transitions come newest first and are the newest: what the limit leaves out is not later
  than anything that is returned, and nothing is left out while the limit is not reached.
\<close>
theorem recent_transitions_are_newest:
  assumes "db_transitions db = map (transition_row_of C) ts" and "time_codec C (insert since (trn_at ` set ts))"
    and "0 \<le> sint limit"
  shows "\<exists>out rest. sqlite_fetch_recent_transitions C it None db since run_id limit = Inr out
    \<and> mset (out @ rest) = mset (filter (transition_matches since run_id) ts)
    \<and> sorted (rev (map trn_at out)) \<and> list_all (\<lambda>x. list_all (\<lambda>y. trn_at y \<le> trn_at x) rest) out
    \<and> length out = min (nat (sint limit)) (length (filter (transition_matches since run_id) ts))"
proof -
  let ?vs = "filter (transition_matches since run_id) ts" and ?n = "nat (sint limit)"
  let ?P = "\<lambda>r. co_time C since \<le> tw_at r \<and> (case run_id of None \<Rightarrow> True | Some i \<Rightarrow> tw_run_id r = Some i)"
  define rows where "rows = order_by_desc it tw_at (filter ?P (db_transitions db))"
  have "filter ?P (db_transitions db) = map (transition_row_of C) ?vs"
    unfolding assms(1) by (rule filter_map_cong)
      (use assms(2) in \<open>auto simp: transition_row_of_def transition_matches_def time_codec_le split: option.splits\<close>)
  then have rows: "mset rows = image_mset (transition_row_of C) (mset ?vs)" by (simp add: rows_def)
  have rd: "transition_of_row C (transition_row_of C v) = Inr v" if "v \<in> set ?vs" for v
    using that time_codec_of [OF assms(2)] by (auto intro: transition_of_row_of)
  obtain all h where all: "collect_rows (transition_of_row C) rows = Inr all" "mset all = image_mset (\<lambda>v. v) (mset ?vs)"
    "all = map h rows" "\<forall>v \<in> set ?vs. h (transition_row_of C v) = v"
    using collect_ordered [where f = "transition_row_of C" and rd = "transition_of_row C", OF rows rd] by blast
  have "set rows = transition_row_of C ` set ?vs" by (rule image_mset_set [OF rows])
  then have set_rows: "set (rev rows) = transition_row_of C ` set ?vs" by simp
  have "sorted (map tw_at (rev rows))" unfolding rows_def by (rule sorted_order_by_desc)
  then have "sorted (map trn_at (map h (rev rows)))"
    by (rule sorted_reread [where f = "transition_row_of C" and h = h, OF _ set_rows all(4) assms(2)]) simp
  then have "sorted (rev (map trn_at (take ?n all @ drop ?n all)))" by (simp add: all(3) rev_map)
  then have "sorted (rev (map trn_at (take ?n all)))"
    "list_all (\<lambda>x. list_all (\<lambda>y. trn_at y \<le> trn_at x) (drop ?n all)) (take ?n all)"
    by (auto simp del: append_take_drop_id simp: sorted_append list_all_iff)
  moreover have "collect_rows (transition_of_row C) (take ?n rows) = Inr (take ?n all)" by (rule collect_rows_take [OF all(1)])
  moreover have "length all = length ?vs" using all(2) by (metis mset_eq_length image_mset.id id_def multiset.map_ident)
  ultimately show ?thesis
    using all(2) assms(3)
    by (intro exI [of _ "take ?n all"] exI [of _ "drop ?n all"])
      (simp add: sqlite_fetch_recent_transitions_def rows_def sql_limit_def)
qed

section \<open>Witnesses\<close>

text \<open>A codec for the values below; its times are strokes.\<close>

definition demo_key :: keyboard_event_data where
  "demo_key = \<lparr> key_code = Some 30, key_char = None, key_modifiers = [] \<rparr>"

definition demo_mail :: window_focus_info where
  "demo_mail = \<lparr> fi_pid = 41, fi_process_start_time = 5, fi_app_name = ''Mail'', fi_window_title = ''Inbox'',
     fi_window_id = 3, fi_window_instance_start = 0, fi_window_position = None, fi_window_size = None \<rparr>"

definition demo_codec :: "int codec" where
  "demo_codec = \<lparr> co_time = (\<lambda>t. replicate (nat t) CHR 0x7C), co_time_of = (\<lambda>s. Inr (int (length s))), co_stamp = (\<lambda>t. t),
     js_raw = (\<lambda>_. ''{}''), js_keyboard = (\<lambda>_. ''key''), js_keyboard_of = (\<lambda>_. Some demo_key),
     js_mouse = (\<lambda>_. ''{}''), js_mouse_of = (\<lambda>_. None), js_focus = (\<lambda>_. ''mail''), js_focus_of = (\<lambda>_. Some demo_mail),
     js_reason = (\<lambda>r. CHR 0x22 # r @ [CHR 0x22]), js_title = (\<lambda>(w, t). t), js_title_of = (\<lambda>t. Some (3, t)),
     js_states = (\<lambda>_. ''{}''), js_states_of = (\<lambda>_. None), js_scroll = (\<lambda>_. ''{}''), js_trajectory = (\<lambda>_. ''{}''),
     js_activity = (\<lambda>_. ''{}''), js_compact_focus = (\<lambda>_. ''{}''), js_pointer = (\<lambda>_. ''{}'') \<rparr>"

lemma replicate_le: "replicate m c \<le> replicate n c \<longleftrightarrow> m \<le> (n::nat)" for c :: char
proof (induction m arbitrary: n)
  case (Suc m)
  then show ?case by (cases n) simp_all
qed simp

lemma demo_time_codec: "(\<And>t. t \<in> T \<Longrightarrow> 0 \<le> t) \<Longrightarrow> time_codec demo_codec T"
  by (auto simp: time_codec_def demo_codec_def replicate_le nat_le_iff)

definition demo_stored :: "event_envelope list" where
  "demo_stored =
     [\<lparr> env_id = 7, env_timestamp = 1, env_source = Hook, env_kind = Signal KeyboardInput, env_payload = PKeyboard demo_key,
        env_derived = False, env_polling = False, env_sensitive = False \<rparr>,
      \<lparr> env_id = - 1, env_timestamp = 4, env_source = Derived, env_kind = Signal LockStart, env_payload = PLock ''loginwindow'',
        env_derived = True, env_polling = False, env_sensitive = False \<rparr>]"

theorem envelopes_reread_witness:
  "\<exists>out. sqlite_fetch_envelopes_between demo_codec rev None
       (db_empty\<lparr> db_envelopes := map (envelope_row_of demo_codec) demo_stored \<rparr>) 2 9 = Inr out
     \<and> map env_id out = [- 1] \<and> map env_payload out = [PLock (CHR 0x22 # ''loginwindow'' @ [CHR 0x22])]"
proof -
  have "\<forall>e \<in> set demo_stored. envelope_readable demo_codec e"
    by (simp add: demo_stored_def envelope_readable_def demo_codec_def)
  moreover have "time_codec demo_codec ({2, 9} \<union> env_timestamp ` set demo_stored)"
    by (rule demo_time_codec) (auto simp: demo_stored_def)
  ultimately obtain out where out: "sqlite_fetch_envelopes_between demo_codec rev None
      (db_empty\<lparr> db_envelopes := map (envelope_row_of demo_codec) demo_stored \<rparr>) 2 9 = Inr out"
    "mset out = mset (map (reread_envelope demo_codec)
       (filter (\<lambda>e. 2 \<le> env_timestamp e \<and> env_timestamp e \<le> 9) demo_stored))"
    using envelopes_reread [of "db_empty\<lparr> db_envelopes := map (envelope_row_of demo_codec) demo_stored \<rparr>"
        demo_codec demo_stored 2 9 rev] by auto
  from out(2) have "out = [reread_envelope demo_codec (last demo_stored)]"
    by (simp add: demo_stored_def)
  with out(1) show ?thesis by (simp add: demo_stored_def reread_envelope_def demo_codec_def)
qed

definition demo_record :: "u64 \<Rightarrow> instant \<Rightarrow> instant option \<Rightarrow> activity_record" where
  "demo_record i t e = \<lparr> rec_id = i, rec_run_id = Some ''run'', rec_start_time = t, rec_end_time = e, rec_state = Active,
     rec_focus_info = Some demo_mail, rec_event_count = 9, rec_triggering_events = [1, 2] \<rparr>"

theorem records_reread_witness:
  "\<exists>out. sqlite_fetch_records_since demo_codec rev None
       (db_empty\<lparr> db_records := [record_row_of demo_codec 1 (demo_record 4 1 (Some 2)), record_row_of demo_codec 2 (demo_record 5 2 None)] \<rparr>)
       3 (Some ''run'') = Inr out
     \<and> map rec_id out = [5] \<and> map rec_event_count out = [0] \<and> map rec_focus_info out = [Some demo_mail]"
proof -
  let ?irs = "[(1, demo_record 4 1 (Some 2)), (2, demo_record 5 2 None)]"
  let ?db = "db_empty\<lparr> db_records := [record_row_of demo_codec 1 (demo_record 4 1 (Some 2)), record_row_of demo_codec 2 (demo_record 5 2 None)] \<rparr>"
  have "db_records ?db = map (\<lambda>(i, r). record_row_of demo_codec i r) ?irs" by simp
  moreover have "\<forall>(i, r) \<in> set ?irs. \<forall>f. rec_focus_info r = Some f \<longrightarrow> js_focus_of demo_codec (js_focus demo_codec f) = Some f"
    by (simp add: demo_record_def demo_codec_def)
  moreover have "time_codec demo_codec (insert 3 (\<Union>(i, r) \<in> set ?irs. record_times r))"
    by (rule demo_time_codec) (auto simp: demo_record_def record_times_def)
  ultimately obtain out where out: "sqlite_fetch_records_since demo_codec rev None ?db 3 (Some ''run'') = Inr out"
    "mset out = mset (map reread_record (filter (record_matches 3 (Some ''run'')) (map snd ?irs)))"
    using records_reread [of ?db demo_codec ?irs 3 rev "Some ''run''"] by auto
  from out(2) have "out = [reread_record (demo_record 5 2 None)]"
    by (simp add: demo_record_def record_matches_def)
  with out(1) show ?thesis by (auto simp: demo_record_def reread_record_def)
qed

definition demo_trn :: "instant \<Rightarrow> transition" where
  "demo_trn t = \<lparr> trn_from = Inactive, trn_to = Active, trn_at = t, trn_by_signal = None, trn_run_id = Some ''run'' \<rparr>"

theorem recent_transitions_are_newest_witness:
  "\<exists>out. sqlite_fetch_recent_transitions demo_codec rev None
       (db_empty\<lparr> db_transitions := map (transition_row_of demo_codec) [demo_trn 1, demo_trn 5, demo_trn 3] \<rparr>) 0 None 2 = Inr out
     \<and> length out = 2 \<and> sorted (rev (map trn_at out))"
proof -
  have "time_codec demo_codec (insert 0 (trn_at ` set [demo_trn 1, demo_trn 5, demo_trn 3]))"
    by (rule demo_time_codec) (auto simp: demo_trn_def)
  from recent_transitions_are_newest [OF _ this, of
      "db_empty\<lparr> db_transitions := map (transition_row_of demo_codec) [demo_trn 1, demo_trn 5, demo_trn 3] \<rparr>" 2 rev None]
  obtain out where "sqlite_fetch_recent_transitions demo_codec rev None
       (db_empty\<lparr> db_transitions := map (transition_row_of demo_codec) [demo_trn 1, demo_trn 5, demo_trn 3] \<rparr>) 0 None 2 = Inr out"
    "sorted (rev (map trn_at out))" "length out = 2"
    by (auto simp: transition_matches_def demo_trn_def)
  then show ?thesis by blast
qed

text \<open>A statement that fails and a shutdown.\<close>

definition env_ok :: writer_env where
  "env_ok = \<lparr> we_fail = (\<lambda>_. None), we_commit_fail = None, we_begin_fail = None, we_now = 0 \<rparr>"

definition demo_writes :: "(writer_env \<times> int storage_command) list" where
  "demo_writes = [(env_ok, StoreTransition (demo_trn 1)), (env_ok\<lparr> we_fail := (\<lambda>_. Some ''disk I/O error'') \<rparr>, StoreTransition (demo_trn 2)),
     (env_ok, StoreTransition (demo_trn 3))]"

theorem writer_commits_batches_witness:
  "db_transitions (sq_committed (sqlite_run demo_codec (demo_writes @ [(env_ok, StoreShutdown)]) env_ok
       (sqlite_start db_empty (bus_new 0) metrics_init))) = map (transition_row_of demo_codec) [demo_trn 1, demo_trn 3]"
proof -
  have "StoreShutdown \<notin> snd ` set demo_writes" "length demo_writes < 2 ^ 31" by (simp_all add: demo_writes_def)
  from writer_commits_batches [OF this, of "[(env_ok, StoreShutdown)]" demo_codec env_ok db_empty "bus_new 0" metrics_init]
  show ?thesis
    by (simp add: Let_def demo_writes_def env_ok_def db_empty_def kept_commands.simps kept_def)
qed

end
