(* ===== verification/Storage_Pipeline.thy ===== *)
theory Storage_Pipeline
  imports Pipeline Sqlite_Storage
begin

text \<open>
  The pipeline on the SQLite back end: what the stages send to the storage can be read back, and
  what a whole run has sent is in the database when its writer has ended.
\<close>

section \<open>The storage handle as a backend\<close>

definition client_backend :: "('f storage_client, 'f) backend" where
  "client_backend =
     \<lparr> add_events = client_add_events, add_compact_events = client_add_compact_events,
       add_envelopes = client_add_envelopes, add_records = client_add_records,
       add_transitions = client_add_transitions \<rparr>"

text \<open>What a command read by the storage stage becomes in the channel of the writer.\<close>

definition passed_on :: "'f storage_command \<Rightarrow> 'f storage_command list" where
  "passed_on c = (if c = StoreShutdown \<or> c = StoreCompactEvents [] then [] else [c])"

definition envelopes_of :: "'f storage_command list \<Rightarrow> event_envelope list" where
  "envelopes_of cs = List.map_filter (\<lambda>c. case c of StoreEnvelope e \<Rightarrow> Some e | _ \<Rightarrow> None) cs"

definition records_of :: "'f storage_command list \<Rightarrow> activity_record list" where
  "records_of cs = List.map_filter (\<lambda>c. case c of StoreRecord r \<Rightarrow> Some r | _ \<Rightarrow> None) cs"

definition transitions_of :: "'f storage_command list \<Rightarrow> transition list" where
  "transitions_of cs = List.map_filter (\<lambda>c. case c of StoreTransition t \<Rightarrow> Some t | _ \<Rightarrow> None) cs"

section \<open>Lemmas: what is sent to the writer\<close>

lemma command_parts [simp]:
  "envelopes_of [] = []" "records_of [] = []" "transitions_of [] = []"
  "envelopes_of (c # cs) = (case c of StoreEnvelope e \<Rightarrow> [e] | _ \<Rightarrow> []) @ envelopes_of cs"
  "records_of (c # cs) = (case c of StoreRecord r \<Rightarrow> [r] | _ \<Rightarrow> []) @ records_of cs"
  "transitions_of (c # cs) = (case c of StoreTransition t \<Rightarrow> [t] | _ \<Rightarrow> []) @ transitions_of cs"
  by (simp_all add: envelopes_of_def records_of_def transitions_of_def List.map_filter_def split: storage_command.split)

lemma command_parts_append [simp]:
  "envelopes_of (xs @ ys) = envelopes_of xs @ envelopes_of ys"
  "records_of (xs @ ys) = records_of xs @ records_of ys"
  "transitions_of (xs @ ys) = transitions_of xs @ transitions_of ys"
  by (induction xs) simp_all

lemma from_compression_parts:
  assumes "list_all from_compression cs"
  shows "envelopes_of cs = []" "records_of cs = []" "transitions_of cs = []"
proof -
  have "envelopes_of cs = [] \<and> records_of cs = [] \<and> transitions_of cs = []"
    using assms
  proof (induction cs)
    case (Cons c cs)
    then show ?case by (cases c) auto
  qed simp
  then show "envelopes_of cs = []" "records_of cs = []" "transitions_of cs = []" by simp_all
qed

lemma passed_on_parts:
  "envelopes_of (concat (map passed_on cs)) = envelopes_of cs"
  "records_of (concat (map passed_on cs)) = records_of cs"
  "transitions_of (concat (map passed_on cs)) = transitions_of cs"
  by (induction cs) (auto simp: passed_on_def split: storage_command.split)

lemma client_step:
  assumes "cl_sends_left cl = None"
  shows "cl_sent (fst (storage_step client_backend cl c)) = cl_sent cl @ passed_on c
    \<and> cl_sends_left (fst (storage_step client_backend cl c)) = None"
  using send_counted_all [OF assms]
  by (cases c)
    (simp_all add: storage_step_def client_backend_def passed_on_def client_add_events_def client_add_records_def
      client_add_envelopes_def client_add_compact_events_def client_add_transitions_def assms del: send_counted.simps)

lemma client_persist:
  "cl_sends_left cl = None \<Longrightarrow>
     cl_sent (persist client_backend cl cs) = cl_sent cl @ concat (map passed_on cs)
     \<and> cl_sends_left (persist client_backend cl cs) = None"
proof (induction cs arbitrary: cl)
  case (Cons c cs)
  with client_step [OF Cons.prems, of c] Cons.IH [of "fst (storage_step client_backend cl c)"]
  show ?case by (simp add: persist_def)
qed (simp add: persist_def)

lemma passed_on_no_shutdown: "StoreShutdown \<notin> set (concat (map passed_on cs))"
  by (auto simp: passed_on_def)

section \<open>Lemmas: what is sent fits\<close>

definition fits :: "event_envelope \<Rightarrow> bool" where
  "fits e \<longleftrightarrow> payload_fits (env_kind e) (env_payload e)"

lemma adapt_event_fits: "list_all fits (snd (adapt_event a e))"
  by (cases e) (auto simp: fits_def adapt_defs Let_def split: option.splits)

lemma adapt_batch_fits: "list_all fits (snd (adapt_batch a es))"
proof (induction es arbitrary: a)
  case (Cons e es)
  with adapt_event_fits [of a e] show ?case by (simp add: Let_def split_beta)
qed simp

lemma derive_event_fits: "fits e \<Longrightarrow> list_all fits (snd (derive_event d e))"
  by (auto simp: derive_event_def lock_envelope_def fits_def Let_def split: event_kind.splits)

lemma lock_derive_fits: "list_all fits es \<Longrightarrow> list_all fits (snd (lock_derive d es))"
proof (induction es arbitrary: d)
  case (Cons e es)
  with derive_event_fits [of e d] show ?case by (simp add: Let_def split_beta)
qed simp

lemma state_hint_fits: "fits (state_hint i now tr)"
  by (simp add: state_hint_def fits_def)

lemma deriver_hints_fit:
  "deriver_on_signal d e = (d', Some h) \<Longrightarrow> fits h" "deriver_on_tick d now = (d', Some h) \<Longrightarrow> fits h"
  by (auto simp: deriver_on_signal_def deriver_on_tick_def Let_def state_hint_fits split: prod.splits)

fun send_fits :: "envelope_send \<Rightarrow> bool" where
  "send_fits (ToHints e) = fits e"
| "send_fits (ToStorageEnvelope e) = fits e"
| "send_fits _ = True"

lemma flush_fits: "flush_if_transition C u = (u', out, ok) \<Longrightarrow> list_all send_fits out"
  by (auto simp: flush_if_transition_def flush_snapshot_update_def send_snapshot_def split: if_splits prod.splits)

lemma handle_hint_fits: "handle_hint C e sk u = (u', out, ok) \<Longrightarrow> fits e \<Longrightarrow> list_all send_fits out"
  by (auto simp: handle_hint_def send_hint_def Let_def dest!: flush_fits split: prod.splits if_splits)

lemma handle_signal_fits: "handle_signal C d e k u = (d', u', out, ok) \<Longrightarrow> fits e \<Longrightarrow> list_all send_fits out"
  by (auto simp: handle_signal_def Let_def dest!: flush_fits handle_hint_fits dest: deriver_hints_fit
      split: prod.splits if_splits option.splits)

lemma handle_envelopes_fit:
  "handle_envelopes C d u es = (d', u', out, ok) \<Longrightarrow> list_all fits es \<Longrightarrow> list_all send_fits out"
proof (induction es arbitrary: d u d' u' out ok)
  case (Cons e es)
  obtain d1 u1 o1 ok1 where 1: "(case env_kind e of
           Hint _ \<Rightarrow> (let (u1, out1, ok1) = handle_hint C e None u in (d, u1, out1, ok1))
         | Signal k \<Rightarrow> handle_signal C d e k u) = (d1, u1, o1, ok1)" by (metis prod_cases4)
  then have "list_all send_fits o1"
    using Cons.prems(2) by (auto dest: handle_hint_fits handle_signal_fits split: event_kind.splits prod.splits)
  moreover obtain d2 u2 o2 ok2 where 2: "handle_envelopes C d1 u1 es = (d2, u2, o2, ok2)" by (metis prod_cases4)
  then have "list_all send_fits o2" using Cons by simp
  ultimately show ?case using Cons.prems(1) 1 2 by (auto split: if_splits)
qed simp

lemma send_update_fits: "send_update_and_publish C u = (out, ok) \<Longrightarrow> list_all send_fits out"
  by (auto simp: send_update_and_publish_def send_snapshot_def Let_def split: if_splits prod.splits)

lemma envelope_step_fits:
  assumes "envelope_step C st c = (st', out)"
  shows "list_all send_fits out"
proof (cases c)
  case (DeriveBatch b)
  obtain ad envs where a: "adapt_batch (es_adapter st) (batch_events b) = (ad, envs)" by force
  obtain ld envs' where l: "lock_derive (es_lock_deriver st) envs = (ld, envs')" by force
  obtain d u o1 ok where h: "handle_envelopes C (es_state_deriver st) update_default envs' = (d, u, o1, ok)"
    by (metis prod_cases4)
  have "list_all fits envs'"
    using lock_derive_fits [OF adapt_batch_fits, of "es_lock_deriver st" "es_adapter st" "batch_events b"] by (simp add: a l)
  with h have "list_all send_fits o1" by (rule handle_envelopes_fit)
  with DeriveBatch assms show ?thesis
    by (auto simp: envelope_batch_def a l h Let_def dest!: send_update_fits split: if_splits prod.splits)
next
  case (DeriveTick now)
  with assms show ?thesis
    by (auto simp: envelope_tick_def Let_def dest!: handle_hint_fits send_update_fits dest: deriver_hints_fit
        split: if_splits prod.splits option.splits)
next
  case DeriveShutdown
  with assms show ?thesis by (auto simp: envelope_shutdown_def)
qed

lemma sent_fits:
  "list_all send_fits out \<Longrightarrow> list_all fits (sent_hints out) \<and> list_all fits (stored_signals out)"
proof (induction out)
  case (Cons x out)
  then show ?case by (cases x) (simp_all add: sent_hints_def stored_signals_def List.map_filter_def)
qed (simp add: sent_hints_def stored_signals_def List.map_filter_def)

fun command_fits :: "'f storage_command \<Rightarrow> bool" where
  "command_fits (StoreEnvelope e) = fits e"
| "command_fits _ = True"

lemma commands_fit: "list_all command_fits cs = list_all fits (envelopes_of cs)"
proof (induction cs)
  case (Cons c cs)
  then show ?case by (cases c) simp_all
qed simp

lemma store_fits: "list_all command_fits (map StoreEnvelope es) = list_all fits es"
  by (simp add: list_all_iff)

lemma hints_step_fits:
  "hints_step C run_id b (h, t, t') = (b', out) \<Longrightarrow> fits h \<Longrightarrow> list_all command_fits (stored out)"
  "hints_end C run_id b t = (b', out) \<Longrightarrow> list_all command_fits (stored out)"
  by (auto simp: hints_step_def hints_end_def emit_record_def store_def tell_snapshot_def stored_def List.map_filter_def
      Let_def split: prod.splits option.splits if_splits)

lemma from_compression_fits: "list_all from_compression cs \<Longrightarrow> list_all command_fits cs"
  by (simp add: commands_fit from_compression_parts)

lemma update_fits:
  "snapshot_step cfg C P st m = (st', out) \<Longrightarrow> list_all command_fits out"
  "maybe_finalize cfg C P a b st = (st', out, f) \<Longrightarrow> list_all command_fits out"
  by (auto simp: snapshot_step_def maybe_finalize_def update_records_def Let_def list_all_iff
      split: snapshot_message.splits prod.splits if_splits)

definition pipe_fits :: "('b, 'f) pipe \<Rightarrow> bool" where
  "pipe_fits s \<longleftrightarrow> list_all fits (p_hints_q s) \<and> list_all command_fits (p_store_log s)"

lemma pipe_fits_step:
  assumes "pipe_do cfg a s = Some s'" and "pipe_fits s"
  shows "pipe_fits s'"
proof (cases a)
  case DoEnvelope
  then have "do_envelope s = Some s'" using assms(1) by simp
  then show ?thesis
    using assms(2) by (elim do_envelopeE) (auto simp: pipe_fits_def put_send_all store_fits dest!: envelope_step_fits sent_fits)
next
  case (DoHints t t')
  then have "do_hints cfg t t' s = Some s'" using assms(1) by simp
  then show ?thesis
    using assms(2) by (elim do_hintsE) (auto simp: pipe_fits_def put_stage_send_all dest: hints_step_fits)
next
  case (DoHintsEnd t)
  then have "do_hints_end cfg t s = Some s'" using assms(1) by simp
  then show ?thesis
    using assms(2) by (elim do_hints_endE) (auto simp: pipe_fits_def put_stage_send_all dest: hints_step_fits)
next
  case (DoCompression m1 m2)
  then have "do_compression cfg m1 m2 s = Some s'" using assms(1) by simp
  then show ?thesis
    using assms(2) by (elim do_compressionE)
      (auto simp: pipe_fits_def put_storage_def dest!: compression_step_sends(1) from_compression_fits)
next
  case (DoSnapshot P)
  then have "do_snapshot cfg P s = Some s'" using assms(1) by simp
  then show ?thesis
    using assms(2) by (elim do_snapshotE) (auto simp: pipe_fits_def put_storage_def dest!: update_fits)
next
  case (DoSnapshotEnd P)
  then have "do_snapshot_end cfg P s = Some s'" using assms(1) by simp
  then show ?thesis
    using assms(2) by (elim do_snapshot_endE) (auto simp: pipe_fits_def put_storage_def dest!: update_fits)
next
  case DoStorage
  then have "do_storage cfg s = Some s'" using assms(1) by simp
  then show ?thesis using assms(2) by (elim do_storageE) (simp add: pipe_fits_def)
qed (use assms in \<open>auto simp: pipe_fits_def do_ingest_def do_envelope_end_def do_compression_end_def do_storage_end_def
    split: if_splits prod.splits option.splits\<close>)

lemma pipe_fits_reach: "pipe_reach cfg s0 s \<Longrightarrow> pipe_fits s0 \<Longrightarrow> pipe_fits s"
  by (induction rule: pipe_reach.induct) (auto elim!: pipe_stepE dest: pipe_fits_step)

lemma pipe_fits_spawn: "pipe_fits (spawn_pipeline cfg E bus poll b)"
  by (simp add: spawn_pipeline_def pipe_fits_def Let_def split_beta)

section \<open>Lemmas: what is in the database\<close>

definition faultless :: "writer_env \<Rightarrow> bool" where
  "faultless E \<longleftrightarrow> we_fail E = (\<lambda>_. None) \<and> we_commit_fail E = None \<and> we_begin_fail E = None"

text \<open>What is kept of some commands is a part of what they hold, in order, and all of it when nothing fails.\<close>

lemma subseq_concat_map:
  "subseq xs ys \<Longrightarrow> (\<And>x. subseq (f x) (g x)) \<Longrightarrow> subseq (concat (map f xs)) (concat (map g ys))"
proof (induction rule: list_emb.induct)
  case (list_emb_Cons xs ys y)
  then show ?case by (simp add: list_emb_append2)
next
  case (list_emb_Cons2 x y xs ys)
  then show ?case by (simp add: list_emb_append_mono)
qed simp

lemma kept_commands_subseq: "subseq (kept_commands E ins) ins"
proof (induction E ins rule: kept_commands.induct)
  case (1 E ins)
  show ?case
  proof (cases "length ins < 100")
    case False
    have "subseq (if we_begin_fail (fst (ins ! 99)) = None then kept_commands E (drop 100 ins) else []) (drop 100 ins)"
      using 1 [OF False refl refl] by simp
    then have "subseq ((if we_commit_fail (fst (ins ! 99)) = None then take 100 ins else [])
        @ (if we_begin_fail (fst (ins ! 99)) = None then kept_commands E (drop 100 ins) else [])) (take 100 ins @ drop 100 ins)"
      by (intro list_emb_append_mono) simp_all
    then show ?thesis using False by (subst kept_commands.simps) (simp add: Let_def)
  qed (simp add: kept_commands.simps)
qed

lemma parts_of_commands:
  "envelopes_of (map snd ins) = concat (map (\<lambda>(E, c). envelopes_of [c]) ins)"
  "records_of (map snd ins) = concat (map (\<lambda>(E, c). records_of [c]) ins)"
  "transitions_of (map snd ins) = concat (map (\<lambda>(E, c). transitions_of [c]) ins)"
  by (induction ins) auto

lemma kept_is_subseq:
  "subseq (kept envelopes_kept (kept_commands E ins)) (envelopes_of (map snd ins))"
  "subseq (kept records_kept (kept_commands E ins)) (records_of (map snd ins))"
  "subseq (kept transitions_kept (kept_commands E ins)) (transitions_of (map snd ins))"
proof -
  have "subseq (envelopes_kept i) (case i of (E, c) \<Rightarrow> envelopes_of [c])" "subseq (records_kept i) (case i of (E, c) \<Rightarrow> records_of [c])"
    "subseq (transitions_kept i) (case i of (E, c) \<Rightarrow> transitions_of [c])" for i :: "writer_env \<times> 'a storage_command"
    by (cases i rule: envelopes_kept.cases; simp)+
  then show "subseq (kept envelopes_kept (kept_commands E ins)) (envelopes_of (map snd ins))"
    "subseq (kept records_kept (kept_commands E ins)) (records_of (map snd ins))"
    "subseq (kept transitions_kept (kept_commands E ins)) (transitions_of (map snd ins))"
    unfolding kept_def parts_of_commands by (intro subseq_concat_map [OF kept_commands_subseq]; simp)+
qed

lemma kept_is_all:
  assumes "list_all (\<lambda>(E, c). faultless E) ins" and "faultless E"
  shows "kept envelopes_kept (kept_commands E ins) = envelopes_of (map snd ins)"
    "kept records_kept (kept_commands E ins) = records_of (map snd ins)"
    "kept transitions_kept (kept_commands E ins) = transitions_of (map snd ins)"
proof -
  have k: "kept_commands E ins = ins"
    using assms by (intro kept_commands_all) (auto simp: faultless_def list_all_iff)
  have "kept envelopes_kept ins = envelopes_of (map snd ins) \<and> kept records_kept ins = records_of (map snd ins)
      \<and> kept transitions_kept ins = transitions_of (map snd ins)"
    using assms(1)
  proof (induction ins)
    case (Cons i ins)
    then show ?case by (cases i; cases "snd i") (simp_all add: kept_Cons faultless_def)
  qed (simp add: kept_def)
  then show "kept envelopes_kept (kept_commands E ins) = envelopes_of (map snd ins)"
    "kept records_kept (kept_commands E ins) = records_of (map snd ins)"
    "kept transitions_kept (kept_commands E ins) = transitions_of (map snd ins)"
    by (simp_all add: k)
qed

text \<open>The whole way: what the log of a finished storage stage has become in the writer's channel.\<close>

lemma finished_storage_sent:
  assumes "s0 = spawn_pipeline cfg E bus poll (client_new m None)" and "pipe_reach cfg s0 s"
    and "\<not> p_storage_running s" and "pc_backend cfg = client_backend"
    and "\<And>cl since r. fst (pc_fetch_records_since cfg cl since r) = cl"
    and "\<And>cl since r n. fst (pc_fetch_recent_transitions cfg cl since r n) = cl"
  shows "\<exists>cs. cl_sent (client_drop (p_backend s)) = cs @ [StoreShutdown] \<and> StoreShutdown \<notin> set cs
    \<and> envelopes_of cs = envelopes_of (p_store_log s) \<and> records_of cs = records_of (p_store_log s)
    \<and> transitions_of cs = transitions_of (p_store_log s)"
proof -
  have b0: "p_backend s0 = client_new m None"
    unfolding assms(1) spawn_pipeline_def hydrate_recent_records_def hydrate_recent_transitions_def Let_def
    using assms(5,6) by (auto split: prod.split sum.split) (metis fst_conv)+
  have "pipe_inv cfg (p_backend s0) s" by (rule inv_reach [OF assms(2)]) (simp add: assms(1) inv_spawn)
  then obtain read where r: "p_store_log s = read @ p_storage_q s" "p_backend s = persist client_backend (client_new m None) read"
    "list_all from_compression (p_storage_q s)"
    using assms(3,4) b0 by (auto simp: pipe_inv_def store_order_def store_read_def)
  have cl: "cl_sent (p_backend s) = concat (map passed_on read) \<and> cl_sends_left (p_backend s) = None"
    using client_persist [of "client_new m None" read] by (simp add: r(2) client_new_def)
  then have "cl_sent (client_drop (p_backend s)) = concat (map passed_on read) @ [StoreShutdown]"
    by (simp add: client_drop_def try_send_def)
  then show ?thesis
    using passed_on_no_shutdown [of read] passed_on_parts [of read] from_compression_parts [OF r(3)]
    by (intro exI [of _ "concat (map passed_on read)"]) (simp add: r(1))
qed

section \<open>Properties\<close>

text \<open>
  C10: What the pipeline stores can be read back.  In every reachable state of any interleaving, the
  kind and the payload of every envelope ever sent to the storage fit: the payload is the one the
  readers of the database expect behind the text of the kind.
\<close>
theorem stored_envelopes_fit:
  assumes "s0 = spawn_pipeline cfg E bus poll b" and "pipe_reach cfg s0 s"
  shows "list_all (\<lambda>e. payload_fits (env_kind e) (env_payload e)) (envelopes_of (p_store_log s))"
proof -
  have "pipe_fits s" by (rule pipe_fits_reach [OF assms(2)]) (simp add: assms(1) pipe_fits_spawn)
  then show ?thesis by (simp add: pipe_fits_def commands_fit fits_def [abs_def])
qed

theorem stored_envelopes_fit_witness:
  "list_all (\<lambda>e. payload_fits (env_kind e) (env_payload e)) (envelopes_of (p_store_log demo_late))"
  by (rule stored_envelopes_fit [OF demo_spawned_def schedule_reach [OF demo_late_schedule(1)]])

text \<open>
  C1: What a run has left in the database when it has ended.  The pipeline runs on the SQLite back end, in any
  interleaving; once its storage stage has ended, the handle is dropped and its writer has ended as well.  Then behind
  what was there, in the order of sending, stand the rows of the envelopes, transitions and records that any stage ever
  sent to the storage, without those that were lost to a statement, a commit or a \<open>BEGIN\<close> that failed, and without
  anything else; if none failed, every one of them is there.  The writer was sent at most \<open>2 ^ 31\<close> commands, and the
  queries of the start-up do not send.
\<close>
theorem run_is_in_database:
  assumes "s0 = spawn_pipeline cfg E bus poll (client_new m None)" and "pipe_reach cfg s0 s"
    and "\<not> p_storage_running s" and "pc_backend cfg = client_backend"
    and "\<forall>cl since r. fst (pc_fetch_records_since cfg cl since r) = cl"
    and "\<forall>cl since r n. fst (pc_fetch_recent_transitions cfg cl since r n) = cl"
    and "map snd ins = cl_sent (client_drop (p_backend s))" and "length ins \<le> 2 ^ 31"
  shows "let db' = sq_committed (sqlite_run C ins e (sqlite_start db bus' m')); log = p_store_log s;
             done = kept_commands e (butlast ins);
             es = kept envelopes_kept done; ts = kept transitions_kept done; rs = kept records_kept done
         in db_envelopes db' = db_envelopes db @ map (envelope_row_of C) es \<and> subseq es (envelopes_of log)
            \<and> db_transitions db' = db_transitions db @ map (transition_row_of C) ts \<and> subseq ts (transitions_of log)
            \<and> (\<exists>ids. length ids = length rs \<and> new_rowids (db_records db) ids
                 \<and> db_records db' = db_records db @ map (\<lambda>(i, r). record_row_of C i r) (zip ids rs)) \<and> subseq rs (records_of log)
            \<and> (list_all (\<lambda>(e, c). faultless e) (butlast ins) \<and> faultless e \<longrightarrow>
                 es = envelopes_of log \<and> ts = transitions_of log \<and> rs = records_of log)"
proof -
  obtain cs where cs: "cl_sent (client_drop (p_backend s)) = cs @ [StoreShutdown]" "StoreShutdown \<notin> set cs"
    "envelopes_of cs = envelopes_of (p_store_log s)" "records_of cs = records_of (p_store_log s)"
    "transitions_of cs = transitions_of (p_store_log s)"
    using finished_storage_sent [OF assms(1-4)] assms(5,6) by blast
  from assms(7) cs(1) obtain ins' e' where ins: "ins = ins' @ [(e', StoreShutdown)]" "map snd ins' = cs"
    by (cases ins rule: rev_cases) auto
  have "has_appended C db (kept_commands e ins') (sq_committed (sqlite_run C ins e (sqlite_start db bus' m')))"
    unfolding ins(1) by (rule writer_appends) (use assms(8) ins cs(2) in auto)
  with kept_is_subseq [of e ins', unfolded ins(2) cs(3-5)] kept_is_all [of ins' e, unfolded ins(2) cs(3-5)]
  show ?thesis by (simp add: has_appended_def ins(1) Let_def)
qed

definition demo_sqlite_cfg :: "(int storage_client, int) pipe_cfg" where
  "demo_sqlite_cfg = \<lparr> pc_config = demo_config, pc_run_id = Some ''run'', pc_f32 = int_ops, pc_layout = demo_layout,
     pc_backend = client_backend, pc_fetch_records_since = (\<lambda>b _ _. (b, Inr [])),
     pc_fetch_recent_transitions = (\<lambda>b _ _ _. (b, Inr [])) \<rparr>"

definition demo_sqlite_start :: "(int storage_client, int) pipe" where
  "demo_sqlite_start = spawn_pipeline demo_sqlite_cfg demo_spawn_env (bus_new 0) 0 (client_new metrics_init None)"

definition demo_sqlite_end :: "(int storage_client, int) pipe" where
  "demo_sqlite_end = the (pipe_schedule demo_sqlite_cfg (demo_front @ demo_compress @ demo_finish 6) demo_sqlite_start)"

definition demo_sqlite_inputs :: "(writer_env \<times> int storage_command) list" where
  "demo_sqlite_inputs = map (Pair env_ok) (cl_sent (client_drop (p_backend demo_sqlite_end)))"

lemma demo_sqlite_run:
  "pipe_schedule demo_sqlite_cfg (demo_front @ demo_compress @ demo_finish 6) demo_sqlite_start = Some demo_sqlite_end"
  "\<not> p_storage_running demo_sqlite_end" "length demo_sqlite_inputs \<le> 2 ^ 31"
  "length (envelopes_of (p_store_log demo_sqlite_end)) = 2" "length (records_of (p_store_log demo_sqlite_end)) = 1"
proof -
  have e: "map_option (\<lambda>s. (p_storage_running s, length (cl_sent (client_drop (p_backend s))),
      length (envelopes_of (p_store_log s)), length (records_of (p_store_log s))))
      (pipe_schedule demo_sqlite_cfg (demo_front @ demo_compress @ demo_finish 6) demo_sqlite_start) = Some (False, 6, 2, 1)"
    by code_simp
  then show "pipe_schedule demo_sqlite_cfg (demo_front @ demo_compress @ demo_finish 6) demo_sqlite_start = Some demo_sqlite_end"
    "\<not> p_storage_running demo_sqlite_end" "length demo_sqlite_inputs \<le> 2 ^ 31"
    "length (envelopes_of (p_store_log demo_sqlite_end)) = 2" "length (records_of (p_store_log demo_sqlite_end)) = 1"
    by (auto simp: demo_sqlite_end_def demo_sqlite_inputs_def)
qed

theorem run_is_in_database_witness:
  "let db' = sq_committed (sqlite_run demo_codec demo_sqlite_inputs env_ok (sqlite_start (db_empty :: sqlite_db) (bus_new 0) metrics_init))
   in length (db_envelopes db') = 2 \<and> length (db_records db') = 1"
proof -
  have ok: "faultless env_ok" by (simp add: faultless_def env_ok_def)
  have all: "list_all (\<lambda>(e, c). faultless e) (butlast demo_sqlite_inputs)"
    using ok by (auto simp: demo_sqlite_inputs_def list_all_iff dest!: in_set_butlastD)
  have "map snd demo_sqlite_inputs = cl_sent (client_drop (p_backend demo_sqlite_end))"
    by (simp add: demo_sqlite_inputs_def comp_def)
  from run_is_in_database [where cfg = demo_sqlite_cfg and e = env_ok and C = demo_codec and db = db_empty and bus' = "bus_new 0" and m' = metrics_init,
      OF demo_sqlite_start_def schedule_reach [OF demo_sqlite_run(1)] demo_sqlite_run(2) _ _ _ this demo_sqlite_run(3)]
  show ?thesis
    using demo_sqlite_run(4,5) all ok by (auto simp: Let_def db_empty_def demo_sqlite_cfg_def)
qed

end
