(* ===== verification/Duckdb_Storage.thy ===== *)
theory Duckdb_Storage
  imports Sqlite_Storage
begin

text \<open>
  The DuckDB back end, crates/storage/src/duckdb.rs: the same commands and queries on tables with
  native instants and booleans, and a writer that opens and closes its transactions itself.

  What DuckDB answers is an input of each operation, as for SQLite.  A statement that fails inside a
  transaction aborts it: every later statement fails until the transaction is rolled back.  Without a
  transaction every statement commits on its own.  What a failed commit leaves behind, an aborted
  transaction or none, is an input.
\<close>

section \<open>Rows\<close>

type_synonym duck_db = "(instant, bool) database"

definition duck_raw_row :: "'f codec \<Rightarrow> raw_event \<Rightarrow> instant raw_row" where
  "duck_raw_row C event =
     \<lparr> rw_timestamp = co_stamp C (raw_timestamp event), rw_event_type = raw_event_type event, rw_data = js_raw C event \<rparr>"

definition duck_record_row :: "'f codec \<Rightarrow> activity_record \<Rightarrow> instant activity_row" where
  "duck_record_row C r =
     \<lparr> ay_id = None, ay_record_id = Some (sint (rec_id r)), ay_start_time = co_stamp C (rec_start_time r),
       ay_end_time = map_option (co_stamp C) (rec_end_time r), ay_state = activity_state_debug (rec_state r),
       ay_focus_info = map_option (js_focus C) (rec_focus_info r), ay_run_id = rec_run_id r \<rparr>"

definition duck_envelope_row :: "'f codec \<Rightarrow> event_envelope \<Rightarrow> (instant, bool) envelope_row" where
  "duck_envelope_row C e =
     \<lparr> ew_event_id = Some (sint (env_id e)), ew_timestamp = co_stamp C (env_timestamp e),
       ew_source = source_label (env_source e), ew_kind = kind_label (env_kind e),
       ew_payload = payload_json C (env_payload e),
       ew_derived = env_derived e, ew_polling = env_polling e, ew_sensitive = env_sensitive e \<rparr>"

definition duck_compact_row :: "'f codec \<Rightarrow> 'f compact_event \<Rightarrow> instant compact_row" where
  "duck_compact_row C ce = (case compact_columns C ce of (start_time, end_time, kind_s, payload_js, raw_ref_js) \<Rightarrow>
     \<lparr> cw_start_time = co_stamp C start_time, cw_end_time = co_stamp C end_time, cw_kind = kind_s,
       cw_payload = payload_js, cw_raw_event_ref = raw_ref_js \<rparr>)"

definition duck_transition_row :: "'f codec \<Rightarrow> transition \<Rightarrow> instant transition_row" where
  "duck_transition_row C t =
     \<lparr> tw_at = co_stamp C (trn_at t), tw_from_state = activity_state_debug (trn_from t),
       tw_to_state = activity_state_debug (trn_to t), tw_by_signal = trn_by_signal t, tw_run_id = trn_run_id t \<rparr>"

section \<open>The connection\<close>

datatype duck_tx = InTx duck_db | AbortedTx | NoTx

text \<open>What the engine answers in an iteration; \<open>de_fail i\<close> is the error of the \<open>i\<close>th \<open>INSERT\<close>.\<close>

record duck_env =
  de_prepare_fail :: "string option"
  de_fail :: "nat \<Rightarrow> string option"
  de_commit_fail :: "string option"
  de_commit_leaves_tx :: bool
  de_message :: string
  de_now :: instant

record duck_conn =
  dc_committed :: duck_db
  dc_tx :: duck_tx

definition duck_insert :: "duck_env \<Rightarrow> nat \<Rightarrow> (duck_db \<Rightarrow> duck_db) \<Rightarrow> duck_conn \<Rightarrow> duck_conn \<times> string option" where
  "duck_insert E i ins c = (case dc_tx c of
      InTx db \<Rightarrow> (case de_fail E i of
          None \<Rightarrow> (c\<lparr> dc_tx := InTx (ins db) \<rparr>, None) | Some e \<Rightarrow> (c\<lparr> dc_tx := AbortedTx \<rparr>, Some e))
    | AbortedTx \<Rightarrow> (c, Some (de_message E))
    | NoTx \<Rightarrow> (case de_fail E i of
          None \<Rightarrow> (c\<lparr> dc_committed := ins (dc_committed c) \<rparr>, None) | Some e \<Rightarrow> (c, Some e)))"

text \<open>\<open>ROLLBACK; BEGIN TRANSACTION;\<close> stops at its first statement when there is no transaction.\<close>

definition duck_restart :: "duck_conn \<Rightarrow> duck_conn" where
  "duck_restart c = (case dc_tx c of NoTx \<Rightarrow> c | _ \<Rightarrow> c\<lparr> dc_tx := InTx (dc_committed c) \<rparr>)"

definition duck_commit :: "duck_env \<Rightarrow> duck_conn \<Rightarrow> duck_conn \<times> string option" where
  "duck_commit E c =
     (let left = (if de_commit_leaves_tx E then AbortedTx else NoTx) in
      case dc_tx c of
        InTx db \<Rightarrow> (case de_commit_fail E of
            None \<Rightarrow> (\<lparr> dc_committed = db, dc_tx = NoTx \<rparr>, None) | Some e \<Rightarrow> (c\<lparr> dc_tx := left \<rparr>, Some e))
      | AbortedTx \<Rightarrow> (c\<lparr> dc_tx := left \<rparr>, Some (de_message E))
      | NoTx \<Rightarrow> (c, Some (de_message E)))"

definition duck_begin :: "duck_conn \<Rightarrow> duck_conn" where
  "duck_begin c = c\<lparr> dc_tx := InTx (dc_committed c) \<rparr>"

section \<open>The writer thread\<close>

text \<open>The errors of the compact events of a command are dropped and the loop goes on.\<close>

fun duck_insert_compact :: "'f codec \<Rightarrow> duck_env \<Rightarrow> nat \<Rightarrow> 'f compact_event list \<Rightarrow> duck_conn \<Rightarrow> duck_conn" where
  "duck_insert_compact C E i [] c = c"
| "duck_insert_compact C E i (ce # ces) c = duck_insert_compact C E (Suc i) ces
     (fst (duck_insert E i (\<lambda>db. db\<lparr> db_compact := db_compact db @ [duck_compact_row C ce] \<rparr>) c))"

text \<open>A command; \<open>None\<close> is the panic of a statement that cannot be prepared.\<close>

definition duck_prepared :: "duck_env \<Rightarrow> (duck_db \<Rightarrow> duck_db) \<Rightarrow> duck_conn \<Rightarrow> (duck_conn \<times> string option) option" where
  "duck_prepared E ins c = (case de_prepare_fail E of Some _ \<Rightarrow> None | None \<Rightarrow> Some (duck_insert E 0 ins c))"

fun duck_execute :: "'f codec \<Rightarrow> duck_env \<Rightarrow> 'f storage_command \<Rightarrow> duck_conn \<Rightarrow> (duck_conn \<times> string option) option" where
  "duck_execute C E (StoreRawEvent event) c =
     duck_prepared E (\<lambda>db. db\<lparr> db_raw_events := db_raw_events db @ [duck_raw_row C event] \<rparr>) c"
| "duck_execute C E (StoreRecord record) c =
     duck_prepared E (\<lambda>db. db\<lparr> db_records := db_records db @ [duck_record_row C record] \<rparr>) c"
| "duck_execute C E (StoreEnvelope env) c =
     duck_prepared E (\<lambda>db. db\<lparr> db_envelopes := db_envelopes db @ [duck_envelope_row C env] \<rparr>) c"
| "duck_execute C E (StoreCompactEvents events) c = Some (duck_insert_compact C E 0 events c, None)"
| "duck_execute C E (StoreTransition transition) c =
     Some (duck_insert E 0 (\<lambda>db. db\<lparr> db_transitions := db_transitions db @ [duck_transition_row C transition] \<rparr>) c)"
| "duck_execute C E StoreShutdown c = Some (c, None)"

record duck_writer =
  dk_conn :: duck_conn
  dk_count :: u64
  dk_bus :: snapshot_bus
  dk_metrics :: metrics_state

definition duck_start :: "duck_db \<Rightarrow> snapshot_bus \<Rightarrow> metrics_state \<Rightarrow> duck_writer" where
  "duck_start db bus m =
     \<lparr> dk_conn = duck_begin \<lparr> dc_committed = db, dc_tx = NoTx \<rparr>, dk_count = 0, dk_bus = bus, dk_metrics = m \<rparr>"

text \<open>\<open>COMMIT; BEGIN TRANSACTION;\<close> begins only when the commit has succeeded.\<close>

definition duck_flush :: "duck_env \<Rightarrow> duck_writer \<Rightarrow> duck_writer" where
  "duck_flush E w =
     (let w1 = (case duck_commit E (dk_conn w) of
          (c, None) \<Rightarrow> w\<lparr> dk_conn := duck_begin c \<rparr>
        | (c, Some e) \<Rightarrow> w\<lparr> dk_conn := c, dk_bus := push_health (dk_bus w) (''duckdb commit error: '' @ e) \<rparr>)
      in w1\<lparr> dk_metrics := set_last_flush (de_now E) (dk_metrics w1) \<rparr>)"

definition duck_step :: "'f codec \<Rightarrow> duck_env \<Rightarrow> duck_writer \<Rightarrow> 'f storage_command \<Rightarrow> duck_writer \<times> writer_next" where
  "duck_step C E w cmd = (case cmd of
      StoreShutdown \<Rightarrow> (w, WriterStops)
    | _ \<Rightarrow> (case duck_execute C E cmd (dk_conn w) of
        None \<Rightarrow> (w, WriterPanics)
      | Some (c, result) \<Rightarrow>
          (let w1 = (case result of
                 None \<Rightarrow> w\<lparr> dk_conn := c \<rparr>
               | Some e \<Rightarrow> w\<lparr> dk_conn := duck_restart c, dk_bus := push_health (dk_bus w) (''duckdb write error: '' @ e) \<rparr>);
               w2 = w1\<lparr> dk_count := dk_count w1 + 1 \<rparr>;
               w3 = (if unat (dk_count w2) mod 100 = 0 then duck_flush E w2 else w2)
           in (w3\<lparr> dk_metrics := dec_backlog (dk_metrics w3) \<rparr>, WriterGoesOn))))"

definition duck_finish :: "duck_env \<Rightarrow> duck_writer \<Rightarrow> duck_writer" where
  "duck_finish E w =
     (let w1 = (case duck_commit E (dk_conn w) of
          (c, None) \<Rightarrow> w\<lparr> dk_conn := c \<rparr>
        | (c, Some e) \<Rightarrow> w\<lparr> dk_conn := c, dk_bus := push_health (dk_bus w) (''duckdb final commit error: '' @ e) \<rparr>)
      in w1\<lparr> dk_metrics := set_last_flush (de_now E) (dk_metrics w1) \<rparr>)"

fun duck_run :: "'f codec \<Rightarrow> (duck_env \<times> 'f storage_command) list \<Rightarrow> duck_env \<Rightarrow> duck_writer \<Rightarrow> duck_writer" where
  "duck_run C [] E w = duck_finish E w"
| "duck_run C ((e, c) # rest) E w = (case duck_step C e w c of
      (w', WriterGoesOn) \<Rightarrow> duck_run C rest E w'
    | (w', WriterStops) \<Rightarrow> duck_finish E w'
    | (w', WriterPanics) \<Rightarrow> w')"

abbreviation duck_committed :: "duck_writer \<Rightarrow> duck_db" where
  "duck_committed w \<equiv> dc_committed (dk_conn w)"

section \<open>Queries\<close>

definition duck_record_of_row :: "'f codec \<Rightarrow> instant activity_row \<Rightarrow> activity_record" where
  "duck_record_of_row C row =
     \<lparr> rec_id = (case coalesce_id row of Some i \<Rightarrow> word_of_int i | None \<Rightarrow> 0), rec_run_id = ay_run_id row,
       rec_start_time = ay_start_time row, rec_end_time = ay_end_time row,
       rec_state = parse_state_label (ay_state row), rec_focus_info = Option.bind (ay_focus_info row) (js_focus_of C),
       rec_event_count = 0, rec_triggering_events = [] \<rparr>"

definition duck_fetch_records_since ::
  "'f codec \<Rightarrow> (instant activity_row list \<Rightarrow> instant activity_row list) \<Rightarrow> string option \<Rightarrow> duck_db \<Rightarrow>
   instant \<Rightarrow> string option \<Rightarrow> string + activity_record list" where
  "duck_fetch_records_since C it fault db since run_id = (case fault of
      Some e \<Rightarrow> Inl e
    | None \<Rightarrow> Inr (map (duck_record_of_row C)
        (order_by it ay_start_time
          (filter (\<lambda>r. (case ay_end_time r of None \<Rightarrow> True | Some e \<Rightarrow> co_stamp C since \<le> e)
             \<and> (case run_id of None \<Rightarrow> True | Some i \<Rightarrow> ay_run_id r = Some i)) (db_records db)))))"

definition duck_envelope_of_row :: "'f codec \<Rightarrow> (instant, bool) envelope_row \<Rightarrow> event_envelope" where
  "duck_envelope_of_row C row =
     (let kind = parse_kind (ew_kind row) in
      \<lparr> env_id = (case ew_event_id row of Some i \<Rightarrow> word_of_int i | None \<Rightarrow> 0), env_timestamp = ew_timestamp row,
        env_source = parse_source (ew_source row), env_kind = kind,
        env_payload = parse_payload C kind (ew_kind row) (ew_payload row),
        env_derived = ew_derived row, env_polling = ew_polling row, env_sensitive = ew_sensitive row \<rparr>)"

definition duck_fetch_envelopes_between ::
  "'f codec \<Rightarrow> ((instant, bool) envelope_row list \<Rightarrow> (instant, bool) envelope_row list) \<Rightarrow> string option \<Rightarrow> duck_db \<Rightarrow>
   instant \<Rightarrow> instant \<Rightarrow> string + event_envelope list" where
  "duck_fetch_envelopes_between C it fault db since until = (case fault of
      Some e \<Rightarrow> Inl e
    | None \<Rightarrow> Inr (map (duck_envelope_of_row C)
        (order_by it ew_timestamp
          (filter (\<lambda>r. co_stamp C since \<le> ew_timestamp r \<and> ew_timestamp r \<le> co_stamp C until) (db_envelopes db)))))"

definition duck_transition_of_row :: "instant transition_row \<Rightarrow> transition" where
  "duck_transition_of_row row =
     \<lparr> trn_from = parse_state_label (tw_from_state row), trn_to = parse_state_label (tw_to_state row),
       trn_at = tw_at row, trn_by_signal = tw_by_signal row, trn_run_id = tw_run_id row \<rparr>"

text \<open>A negative limit, which no caller passes, would be a fault of the query.\<close>

definition duck_fetch_recent_transitions ::
  "'f codec \<Rightarrow> (instant transition_row list \<Rightarrow> instant transition_row list) \<Rightarrow> string option \<Rightarrow> duck_db \<Rightarrow>
   instant \<Rightarrow> string option \<Rightarrow> u64 \<Rightarrow> string + transition list" where
  "duck_fetch_recent_transitions C it fault db since run_id limit = (case fault of
      Some e \<Rightarrow> Inl e
    | None \<Rightarrow> Inr (map duck_transition_of_row
        (take (nat (sint limit)) (order_by_desc it tw_at
          (filter (\<lambda>r. co_stamp C since \<le> tw_at r
             \<and> (case run_id of None \<Rightarrow> True | Some i \<Rightarrow> tw_run_id r = Some i)) (db_transitions db))))))"

section \<open>Specification\<close>

text \<open>The rows a command adds when nothing fails.\<close>

fun duck_rows_added :: "'f codec \<Rightarrow> 'f storage_command \<Rightarrow> duck_db \<Rightarrow> duck_db" where
  "duck_rows_added C (StoreRawEvent event) db = db\<lparr> db_raw_events := db_raw_events db @ [duck_raw_row C event] \<rparr>"
| "duck_rows_added C (StoreRecord record) db = db\<lparr> db_records := db_records db @ [duck_record_row C record] \<rparr>"
| "duck_rows_added C (StoreEnvelope env) db = db\<lparr> db_envelopes := db_envelopes db @ [duck_envelope_row C env] \<rparr>"
| "duck_rows_added C (StoreCompactEvents events) db = db\<lparr> db_compact := db_compact db @ map (duck_compact_row C) events \<rparr>"
| "duck_rows_added C (StoreTransition transition) db = db\<lparr> db_transitions := db_transitions db @ [duck_transition_row C transition] \<rparr>"
| "duck_rows_added C StoreShutdown db = db"

definition duck_apply :: "'f codec \<Rightarrow> 'f storage_command list \<Rightarrow> duck_db \<Rightarrow> duck_db" where
  "duck_apply C cs db = foldl (\<lambda>db c. duck_rows_added C c db) db cs"

definition duck_faultless :: "duck_env \<Rightarrow> bool" where
  "duck_faultless E \<longleftrightarrow> de_prepare_fail E = None \<and> de_fail E = (\<lambda>_. None) \<and> de_commit_fail E = None"

definition duck_inputs_ok :: "(duck_env \<times> 'f storage_command) list \<Rightarrow> bool" where
  "duck_inputs_ok ins = list_all (\<lambda>(E, c). duck_faultless E \<and> c \<noteq> StoreShutdown) ins"

text \<open>The same data in both databases: SQLite has texts for instants, numbers for flags, and its own rowids.\<close>

definition textual_raw :: "'f codec \<Rightarrow> instant raw_row \<Rightarrow> string raw_row" where
  "textual_raw C r = \<lparr> rw_timestamp = co_time C (rw_timestamp r), rw_event_type = rw_event_type r, rw_data = rw_data r \<rparr>"

definition textual_envelope :: "'f codec \<Rightarrow> (instant, bool) envelope_row \<Rightarrow> (string, int) envelope_row" where
  "textual_envelope C r = \<lparr> ew_event_id = ew_event_id r, ew_timestamp = co_time C (ew_timestamp r), ew_source = ew_source r,
     ew_kind = ew_kind r, ew_payload = ew_payload r, ew_derived = of_bool (ew_derived r),
     ew_polling = of_bool (ew_polling r), ew_sensitive = of_bool (ew_sensitive r) \<rparr>"

definition textual_record :: "'f codec \<Rightarrow> instant activity_row \<Rightarrow> string activity_row" where
  "textual_record C r = \<lparr> ay_id = None, ay_record_id = ay_record_id r, ay_start_time = co_time C (ay_start_time r),
     ay_end_time = map_option (co_time C) (ay_end_time r), ay_state = ay_state r, ay_focus_info = ay_focus_info r,
     ay_run_id = ay_run_id r \<rparr>"

definition textual_compact :: "'f codec \<Rightarrow> instant compact_row \<Rightarrow> string compact_row" where
  "textual_compact C r = \<lparr> cw_start_time = co_time C (cw_start_time r), cw_end_time = co_time C (cw_end_time r),
     cw_kind = cw_kind r, cw_payload = cw_payload r, cw_raw_event_ref = cw_raw_event_ref r \<rparr>"

definition textual_transition :: "'f codec \<Rightarrow> instant transition_row \<Rightarrow> string transition_row" where
  "textual_transition C r = \<lparr> tw_at = co_time C (tw_at r), tw_from_state = tw_from_state r, tw_to_state = tw_to_state r,
     tw_by_signal = tw_by_signal r, tw_run_id = tw_run_id r \<rparr>"

definition without_rowid :: "string activity_row \<Rightarrow> string activity_row" where
  "without_rowid r = r\<lparr> ay_id := None \<rparr>"

definition same_data :: "'f codec \<Rightarrow> sqlite_db \<Rightarrow> duck_db \<Rightarrow> bool" where
  "same_data C s d \<longleftrightarrow> db_raw_events s = map (textual_raw C) (db_raw_events d)
     \<and> db_envelopes s = map (textual_envelope C) (db_envelopes d)
     \<and> map without_rowid (db_records s) = map (textual_record C) (db_records d)
     \<and> db_compact s = map (textual_compact C) (db_compact d)
     \<and> db_transitions s = map (textual_transition C) (db_transitions d)"

text \<open>The instants of a command, and that DuckDB keeps them whole.\<close>

fun compact_times :: "'f compact_event \<Rightarrow> instant list" where
  "compact_times (CScroll s) = [ss_start_time s, ss_end_time s]"
| "compact_times (CMouseTrajectory t) = [mt_start_time t, mt_end_time t]"
| "compact_times (CKeyboard k) = [ka_start_time k, ka_end_time k]"
| "compact_times (CFocus f) = [cf_timestamp f]"

fun command_times :: "'f storage_command \<Rightarrow> instant list" where
  "command_times (StoreRawEvent e) = [raw_timestamp e]"
| "command_times (StoreRecord r) = rec_start_time r # (case rec_end_time r of None \<Rightarrow> [] | Some t \<Rightarrow> [t])"
| "command_times (StoreEnvelope e) = [env_timestamp e]"
| "command_times (StoreCompactEvents ces) = concat (map compact_times ces)"
| "command_times (StoreTransition t) = [trn_at t]"
| "command_times StoreShutdown = []"

definition keeps_times :: "'f codec \<Rightarrow> 'f storage_command \<Rightarrow> bool" where
  "keeps_times C c \<longleftrightarrow> list_all (\<lambda>t. co_stamp C t = t) (command_times c)"

section \<open>Lemmas: the writer\<close>

lemma duck_insert_compact_ok:
  "duck_faultless E \<Longrightarrow> dc_tx c = InTx db \<Longrightarrow> duck_insert_compact C E i ces c =
     c\<lparr> dc_tx := InTx (db\<lparr> db_compact := db_compact db @ map (duck_compact_row C) ces \<rparr>) \<rparr>"
proof (induction ces arbitrary: i c db)
  case (Cons ce ces)
  let ?db = "db\<lparr> db_compact := db_compact db @ [duck_compact_row C ce] \<rparr>"
  have "duck_insert E i (\<lambda>db. db\<lparr> db_compact := db_compact db @ [duck_compact_row C ce] \<rparr>) c = (c\<lparr> dc_tx := InTx ?db \<rparr>, None)"
    using Cons.prems by (simp add: duck_insert_def duck_faultless_def)
  with Cons.IH [of "c\<lparr> dc_tx := InTx ?db \<rparr>" ?db "Suc i"] Cons.prems show ?case by simp
qed simp

lemma duck_execute_ok:
  assumes "duck_faultless E" and "dc_tx c = InTx db"
  shows "duck_execute C E cmd c = Some (c\<lparr> dc_tx := InTx (duck_rows_added C cmd db) \<rparr>, None)"
  using assms
  by (cases cmd)
    (simp_all add: duck_prepared_def duck_insert_def duck_insert_compact_ok duck_faultless_def)

text \<open>A command that meets no error.\<close>

lemma duck_step_ok:
  assumes "duck_faultless E" and "cmd \<noteq> StoreShutdown" and "dc_tx (dk_conn w) = InTx db"
  shows "\<exists>w'. duck_step C E w cmd = (w', WriterGoesOn) \<and> dk_count w' = dk_count w + 1
    \<and> dc_tx (dk_conn w') = InTx (duck_rows_added C cmd db)
    \<and> duck_committed w' = (if unat (dk_count w + 1) mod 100 = 0 then duck_rows_added C cmd db else duck_committed w)"
  using assms duck_execute_ok [OF assms(1,3), of C cmd]
  by (cases cmd)
    (simp_all add: duck_step_def duck_flush_def duck_commit_def duck_begin_def duck_faultless_def Let_def)

lemma duck_finish_ok:
  "duck_faultless E \<Longrightarrow> dc_tx (dk_conn w) = InTx db \<Longrightarrow> duck_committed (duck_finish E w) = db"
  by (simp add: duck_finish_def duck_commit_def duck_faultless_def Let_def)

lemma duck_run_ok:
  "duck_inputs_ok ins \<Longrightarrow> duck_faultless E \<Longrightarrow> dc_tx (dk_conn w) = InTx db \<Longrightarrow>
     duck_committed (duck_run C (ins @ [(E', StoreShutdown)]) E w) = duck_apply C (map snd ins) db"
proof (induction ins arbitrary: w db)
  case Nil
  then show ?case by (simp add: duck_step_def duck_apply_def duck_finish_ok)
next
  case (Cons i ins)
  obtain e c where i: "i = (e, c)" by (cases i)
  have ok: "duck_faultless e" "c \<noteq> StoreShutdown" "duck_inputs_ok ins"
    using Cons.prems(1) by (simp_all add: duck_inputs_ok_def i)
  from duck_step_ok [OF ok(1,2) Cons.prems(3), of C] obtain w' where w': "duck_step C e w c = (w', WriterGoesOn)"
    "dc_tx (dk_conn w') = InTx (duck_rows_added C c db)" by auto
  with Cons.IH [OF ok(3) Cons.prems(2) w'(2)] show ?case by (simp add: i duck_apply_def)
qed

definition duck_after :: "'f codec \<Rightarrow> (duck_env \<times> 'f storage_command) list \<Rightarrow> duck_writer \<Rightarrow> duck_writer" where
  "duck_after C ins w = foldl (\<lambda>w (E, c). fst (duck_step C E w c)) w ins"

lemma duck_run_after:
  "duck_inputs_ok ins \<Longrightarrow> dc_tx (dk_conn w) = InTx db \<Longrightarrow> duck_run C (ins @ rest) E w = duck_run C rest E (duck_after C ins w)"
proof (induction ins arbitrary: w db)
  case (Cons i ins)
  obtain e c where i: "i = (e, c)" by (cases i)
  have ok: "duck_faultless e" "c \<noteq> StoreShutdown" "duck_inputs_ok ins"
    using Cons.prems(1) by (simp_all add: duck_inputs_ok_def i)
  from duck_step_ok [OF ok(1,2) Cons.prems(2), of C] obtain w' where w': "duck_step C e w c = (w', WriterGoesOn)"
    "dc_tx (dk_conn w') = InTx (duck_rows_added C c db)" by auto
  with Cons.IH [OF ok(3) w'(2)] show ?case by (simp add: i duck_after_def)
qed (simp add: duck_after_def)

text \<open>The number of commands in full batches.\<close>

definition in_batches :: "nat \<Rightarrow> nat" where
  "in_batches n = 100 * (n div 100)"

lemma in_batches_le: "in_batches n \<le> n"
  by (simp add: in_batches_def)

lemma in_batches_Suc: "in_batches (Suc n) = (if Suc n mod 100 = 0 then Suc n else in_batches n)"
proof (cases "Suc n mod 100 = 0")
  case True
  then have "100 * (Suc n div 100) = Suc n" by (metis dvd_imp_mod_0 dvd_mult_div_cancel mod_0_imp_dvd)
  with True show ?thesis by (simp add: in_batches_def)
next
  case False
  then have "Suc n div 100 = n div 100" by (simp add: div_Suc)
  with False show ?thesis by (simp add: in_batches_def)
qed

lemma duck_after_state:
  assumes "duck_inputs_ok ins" and "length ins < 2 ^ 64"
  shows "let w = duck_after C ins (duck_start db bus m); cs = map snd ins
    in dk_count w = of_nat (length ins) \<and> dc_tx (dk_conn w) = InTx (duck_apply C cs db)
       \<and> duck_committed w = duck_apply C (take (in_batches (length ins)) cs) db"
  using assms
proof (induction ins rule: rev_induct)
  case Nil
  show ?case by (simp add: duck_after_def duck_start_def duck_begin_def duck_apply_def)
next
  case (snoc i ins)
  obtain e c where i: "i = (e, c)" by (cases i)
  let ?w = "duck_after C ins (duck_start db bus m)" and ?n = "length ins"
  have ok: "duck_faultless e" "c \<noteq> StoreShutdown" "duck_inputs_ok ins"
    using snoc.prems(1) by (simp_all add: duck_inputs_ok_def i)
  have IH: "dk_count ?w = of_nat ?n" "dc_tx (dk_conn ?w) = InTx (duck_apply C (map snd ins) db)"
    "duck_committed ?w = duck_apply C (take (in_batches ?n) (map snd ins)) db"
    using snoc.IH [OF ok(3)] snoc.prems(2) by (simp_all add: Let_def)
  from duck_step_ok [OF ok(1,2) IH(2), of C] obtain w' where w': "duck_step C e ?w c = (w', WriterGoesOn)"
    "dk_count w' = of_nat (Suc ?n)" "dc_tx (dk_conn w') = InTx (duck_apply C (map snd ins @ [c]) db)"
    "duck_committed w' = (if unat (of_nat (Suc ?n) :: u64) mod 100 = 0 then duck_apply C (map snd ins @ [c]) db else duck_committed ?w)"
    by (auto simp: IH(1) duck_apply_def add.commute)
  have "unat (of_nat (Suc ?n) :: u64) = Suc ?n"
    using snoc.prems(2) by (simp add: unat_of_nat del: of_nat_Suc)
  with w' IH(3) in_batches_le [of ?n] show ?case
    by (auto simp: duck_after_def i in_batches_Suc simp del: of_nat_Suc)
qed

section \<open>Lemmas: the same data\<close>

lemmas textual_defs = textual_raw_def textual_envelope_def textual_record_def textual_compact_def textual_transition_def

lemma textual_rows:
  "keeps_times C (StoreRawEvent e) \<Longrightarrow> textual_raw C (duck_raw_row C e) = raw_row_of C e"
  "keeps_times C (StoreEnvelope env) \<Longrightarrow> textual_envelope C (duck_envelope_row C env) = envelope_row_of C env"
  "keeps_times C (StoreRecord r) \<Longrightarrow> textual_record C (duck_record_row C r) = without_rowid (record_row_of C i r)"
  "keeps_times C (StoreTransition t) \<Longrightarrow> textual_transition C (duck_transition_row C t) = transition_row_of C t"
  by (auto simp: textual_defs duck_raw_row_def duck_envelope_row_def duck_record_row_def keeps_times_def
      duck_transition_row_def raw_row_of_def envelope_row_of_def record_row_of_def
      transition_row_of_def without_rowid_def split: option.splits)

lemma textual_compact_rows:
  "keeps_times C (StoreCompactEvents ces) \<Longrightarrow> map (textual_compact C \<circ> duck_compact_row C) ces = map (compact_row_of C) ces"
proof (induction ces)
  case (Cons ce ces)
  then show ?case
    by (cases ce) (auto simp: keeps_times_def textual_defs duck_compact_row_def compact_row_of_def)
qed simp

lemma insert_compact_all:
  "insert_compact C (\<lambda>_. None) i ces db = (db\<lparr> db_compact := db_compact db @ map (compact_row_of C) ces \<rparr>, None)"
  by (induction ces arbitrary: i db) simp_all

lemma same_data_step:
  assumes "same_data C s d" and "keeps_times C c"
  shows "same_data C (fst (execute_command C (\<lambda>_. None) c s)) (duck_rows_added C c d)"
proof (cases c)
  case (StoreRecord r)
  with assms textual_rows(3) [of C r "next_rowid (db_records s)"] show ?thesis
    by (simp add: same_data_def insert_or_fail_def)
next
  case (StoreCompactEvents ces)
  with assms textual_compact_rows [of C ces] show ?thesis
    by (simp add: same_data_def insert_compact_all)
qed (use assms in \<open>simp_all add: same_data_def insert_or_fail_def textual_rows\<close>)

lemma same_data_apply:
  "list_all (\<lambda>(E, c). we_fail E = (\<lambda>_. None)) ins \<Longrightarrow> list_all (keeps_times C) (map snd ins) \<Longrightarrow> same_data C s d \<Longrightarrow>
     same_data C (apply_inputs C ins s) (duck_apply C (map snd ins) d)"
proof (induction ins arbitrary: s d)
  case (Cons i ins)
  obtain E c where i: "i = (E, c)" by (cases i)
  with Cons.prems have ok: "list_all (\<lambda>(E, c). we_fail E = (\<lambda>_. None)) ins" "we_fail E = (\<lambda>_. None)"
    "list_all (keeps_times C) (map snd ins)" "keeps_times C c" by simp_all
  from Cons.IH [OF ok(1,3) same_data_step [OF Cons.prems(3) ok(4)]] show ?case
    by (simp add: i ok(2) apply_inputs_def duck_apply_def)
qed (simp add: apply_inputs_def duck_apply_def)

section \<open>Lemmas: the queries\<close>

text \<open>Two queries on tables that correspond row by row.\<close>

lemma queries_correspond:
  assumes rows: "map f S = map g D" and read: "\<And>r. r \<in> set S \<Longrightarrow> rd r = Inr (f r)"
    and S: "mset rowsS = mset S" "sorted (map keyS rowsS)" "\<And>r. r \<in> set S \<Longrightarrow> keyS r = co_time C (t (f r))"
    and D: "mset rowsD = mset D" "sorted (map keyD rowsD)" "\<And>r. r \<in> set D \<Longrightarrow> keyD r = t (g r)"
    and T: "time_codec C T" "\<And>r. r \<in> set D \<Longrightarrow> keyD r \<in> T"
  shows "collect_rows rd rowsS = Inr (map f rowsS)" "mset (map f rowsS) = mset (map g rowsD)"
    "map t (map f rowsS) = map t (map g rowsD)"
proof -
  have set: "set rowsS = set S" "set rowsD = set D" using S(1) D(1) by (auto dest: mset_eq_setD)
  show "collect_rows rd rowsS = Inr (map f rowsS)" by (rule collect_rows_map) (simp add: set read)
  have "image_mset f (mset S) = image_mset g (mset D)" using rows by (metis mset_map)
  then show m: "mset (map f rowsS) = mset (map g rowsD)" by (simp add: S(1) D(1))
  have "f ` set S = g ` set D" using rows by (metis set_map)
  then have tT: "t (f r) \<in> T" if "r \<in> set S" for r
    using that T(2) D(3) by (metis imageE imageI)
  have "sorted (map t (map f rowsS))"
    by (rule sorted_reread [where vs = S and f = "\<lambda>r. r" and g = f, OF S(2) _ _ T(1)])
      (use S(3) tT set in simp_all)
  moreover have k: "map t (map g rowsD) = map keyD rowsD" using D(3) set(2) by simp
  have "sorted (map t (map g rowsD))" unfolding k by (rule D(2))
  moreover have "mset (map t (map f rowsS)) = mset (map t (map g rowsD))"
    using arg_cong [OF m, of "image_mset t"] by (simp add: image_mset.compositionality)
  ultimately show "map t (map f rowsS) = map t (map g rowsD)" by (metis properties_for_sort)
qed

lemma filter_correspond:
  assumes "map f S = map g D" and "\<And>r. r \<in> set S \<Longrightarrow> P r = Q (f r)" and "\<And>r. r \<in> set D \<Longrightarrow> P' r = Q (g r)"
  shows "map f (filter P S) = map g (filter P' D)"
proof -
  have "filter P S = filter (Q \<circ> f) S" "filter P' D = filter (Q \<circ> g) D"
    using assms(2,3) by (auto intro!: filter_cong)
  then show ?thesis using assms(1) by (simp flip: filter_map)
qed

definition db_times :: "duck_db \<Rightarrow> instant set" where
  "db_times d = ew_timestamp ` set (db_envelopes d) \<union> ay_start_time ` set (db_records d)
     \<union> (\<Union>r \<in> set (db_records d). set_option (ay_end_time r))"

lemma db_times_cases:
  "r \<in> set (db_envelopes d) \<Longrightarrow> ew_timestamp r \<in> db_times d"
  "a \<in> set (db_records d) \<Longrightarrow> ay_start_time a \<in> db_times d"
  "a \<in> set (db_records d) \<Longrightarrow> ay_end_time a = Some e \<Longrightarrow> e \<in> db_times d"
  by (auto simp: db_times_def intro!: bexI)

lemma envelope_rows_correspond:
  assumes "time_codec C T" and "ew_timestamp r \<in> T"
  shows "envelope_of_row C (textual_envelope C r) = Inr (duck_envelope_of_row C r)"
  using time_codec_of [OF assms]
  by (simp add: envelope_of_row_def textual_envelope_def duck_envelope_of_row_def Let_def)

lemma record_rows_correspond:
  assumes "time_codec C T" and "ay_start_time r \<in> T" and "\<And>e. ay_end_time r = Some e \<Longrightarrow> e \<in> T" and "ay_record_id r \<noteq> None"
    and "without_rowid q = textual_record C r"
  shows "record_of_row C q = Inr (duck_record_of_row C r)"
proof -
  from assms(5) have q: "ay_record_id q = ay_record_id r" "ay_start_time q = co_time C (ay_start_time r)"
    "ay_end_time q = map_option (co_time C) (ay_end_time r)" "ay_state q = ay_state r"
    "ay_focus_info q = ay_focus_info r" "ay_run_id q = ay_run_id r"
    by (cases q; simp add: without_rowid_def textual_record_def)+
  obtain i where "ay_record_id r = Some i" using assms(4) by blast
  with q assms(3) time_codec_of [OF assms(1)] assms(2) show ?thesis
    by (cases "ay_end_time r") (simp_all add: record_of_row_def duck_record_of_row_def coalesce_id_def Let_def)
qed

lemma envelope_queries_correspond:
  assumes "same_data C s d" and "time_codec C T" and "insert since (insert until (db_times d)) \<subseteq> T"
    and whole: "co_stamp C since = since" "co_stamp C until = until"
  shows "\<exists>a b. sqlite_fetch_envelopes_between C it1 None s since until = Inr a
      \<and> duck_fetch_envelopes_between C it2 None d since until = Inr b
      \<and> mset a = mset b \<and> map env_timestamp a = map env_timestamp b"
proof -
  have T: "since \<in> T" "until \<in> T" "\<And>t. t \<in> db_times d \<Longrightarrow> t \<in> T" using assms(3) by auto
  let ?f = "\<lambda>r. projr (envelope_of_row C r)" and ?g = "duck_envelope_of_row C"
  let ?S = "filter (\<lambda>r. co_time C since \<le> ew_timestamp r \<and> ew_timestamp r \<le> co_time C until) (db_envelopes s)"
  let ?D = "filter (\<lambda>r. since \<le> ew_timestamp r \<and> ew_timestamp r \<le> until) (db_envelopes d)"
  have S: "db_envelopes s = map (textual_envelope C) (db_envelopes d)" using assms(1) by (simp add: same_data_def)
  have in_T: "ew_timestamp r \<in> T" if "r \<in> set (db_envelopes d)" for r using that T(3) db_times_cases(1) by blast
  note rd = envelope_rows_correspond [OF assms(2) in_T]
  have key [simp]: "ew_timestamp (textual_envelope C r) = co_time C (ew_timestamp r)" "env_timestamp (?g r) = ew_timestamp r" for r
    by (simp_all add: textual_envelope_def duck_envelope_of_row_def Let_def)
  have rows: "map ?f ?S = map ?g ?D"
    by (rule filter_correspond [where Q = "\<lambda>e. since \<le> env_timestamp e \<and> env_timestamp e \<le> until"])
      (use rd T(1,2) in_T in \<open>auto simp: S time_codec_le [OF assms(2)]\<close>)
  have f: "envelope_of_row C r = Inr (?f r) \<and> ew_timestamp r = co_time C (env_timestamp (?f r))" if "r \<in> set ?S" for r
    using that rd by (auto simp: S)
  have "\<And>r. r \<in> set ?D \<Longrightarrow> ew_timestamp r \<in> T" using in_T by simp
  note q = queries_correspond [where rowsS = "order_by it1 ew_timestamp ?S" and rowsD = "order_by it2 ew_timestamp ?D"
      and t = env_timestamp, OF rows conjunct1 [OF f] mset_order_by(1) sorted_order_by
      conjunct2 [OF f] mset_order_by(1) sorted_order_by key(2) [symmetric] assms(2) this]
  show ?thesis unfolding sqlite_fetch_envelopes_between_def duck_fetch_envelopes_between_def option.case whole
    using q by blast
qed

lemma record_queries_correspond:
  assumes "same_data C s d" and "time_codec C T" and "insert since (db_times d) \<subseteq> T"
    and whole: "co_stamp C since = since"
    and "list_all (\<lambda>r. ay_record_id r \<noteq> None) (db_records d)"
  shows "\<exists>a b. sqlite_fetch_records_since C it1 None s since run_id = Inr a
      \<and> duck_fetch_records_since C it2 None d since run_id = Inr b
      \<and> mset a = mset b \<and> map rec_start_time a = map rec_start_time b"
proof -
  have T: "since \<in> T" "\<And>t. t \<in> db_times d \<Longrightarrow> t \<in> T" using assms(3) by auto
  let ?f = "\<lambda>r. projr (record_of_row C r)" and ?g = "duck_record_of_row C"
  let ?P = "\<lambda>r. (case ay_end_time r of None \<Rightarrow> True | Some e \<Rightarrow> co_time C since \<le> e)
      \<and> (case run_id of None \<Rightarrow> True | Some i \<Rightarrow> ay_run_id r = Some i)"
  let ?P' = "\<lambda>r. (case ay_end_time r of None \<Rightarrow> True | Some e \<Rightarrow> since \<le> e)
      \<and> (case run_id of None \<Rightarrow> True | Some i \<Rightarrow> ay_run_id r = Some i)"
  let ?S = "filter ?P (db_records s)" and ?D = "filter ?P' (db_records d)"
  have S: "map without_rowid (db_records s) = map (textual_record C) (db_records d)" using assms(1) by (simp add: same_data_def)
  have in_T: "ay_start_time r \<in> T" "\<And>e. ay_end_time r = Some e \<Longrightarrow> e \<in> T" "ay_record_id r \<noteq> None"
    if "r \<in> set (db_records d)" for r
    using that T(2) db_times_cases(2,3) assms(5) by (blast, blast, simp add: list_all_iff)
  have rd: "record_of_row C q = Inr (?g r)" if "r \<in> set (db_records d)" "without_rowid q = textual_record C r" for q r
    by (rule record_rows_correspond [OF assms(2) in_T(1) [OF that(1)] in_T(2) [OF that(1)] in_T(3) [OF that(1)] that(2)])
  have ex: "\<exists>r \<in> set (db_records d). without_rowid q = textual_record C r" if "q \<in> set (db_records s)" for q
  proof -
    have "without_rowid ` set (db_records s) = textual_record C ` set (db_records d)" using S by (metis set_map)
    with that show ?thesis by blast
  qed
  have f: "record_of_row C q = Inr (?f q) \<and> ay_start_time q = co_time C (rec_start_time (?f q)) \<and> ?P q = record_matches since run_id (?f q)"
    if "q \<in> set (db_records s)" for q
  proof -
    from ex [OF that] obtain r where r: "r \<in> set (db_records d)" "without_rowid q = textual_record C r" by blast
    from r(2) have q: "ay_start_time q = co_time C (ay_start_time r)" "ay_end_time q = map_option (co_time C) (ay_end_time r)"
      "ay_run_id q = ay_run_id r"
      by (cases q; simp add: without_rowid_def textual_record_def)+
    have "?P q = record_matches since run_id (?g r)"
      using in_T(2) [OF r(1)] T(1) time_codec_le [OF assms(2)]
      by (auto simp: q record_matches_def duck_record_of_row_def split: option.splits)
    with rd [OF r] q(1) show ?thesis by (simp add: duck_record_of_row_def)
  qed
  have "map ?f (db_records s) = map ?g (db_records d)"
  proof (rule nth_equalityI)
    show l: "length (map ?f (db_records s)) = length (map ?g (db_records d))" using S by (metis length_map)
    fix i assume "i < length (map ?f (db_records s))"
    then have i: "i < length (db_records s)" "i < length (db_records d)" using l by simp_all
    then have "without_rowid (db_records s ! i) = textual_record C (db_records d ! i)" using S by (metis nth_map)
    with rd [of "db_records d ! i" "db_records s ! i"] i show "map ?f (db_records s) ! i = map ?g (db_records d) ! i" by simp
  qed
  then have rows: "map ?f ?S = map ?g ?D"
    by (rule filter_correspond [where Q = "record_matches since run_id"])
      (use f in \<open>auto simp: record_matches_def duck_record_of_row_def split: option.split\<close>)
  have f': "record_of_row C q = Inr (?f q) \<and> ay_start_time q = co_time C (rec_start_time (?f q))" if "q \<in> set ?S" for q
    using that f [of q] by simp
  have key: "ay_start_time r = rec_start_time (?g r)" for r by (simp add: duck_record_of_row_def)
  have "\<And>r. r \<in> set ?D \<Longrightarrow> ay_start_time r \<in> T" using in_T(1) by simp
  note q = queries_correspond [where rowsS = "order_by it1 ay_start_time ?S" and rowsD = "order_by it2 ay_start_time ?D"
      and t = rec_start_time, OF rows conjunct1 [OF f'] mset_order_by(1) sorted_order_by
      conjunct2 [OF f'] mset_order_by(1) sorted_order_by key assms(2) this]
  show ?thesis unfolding sqlite_fetch_records_since_def duck_fetch_records_since_def option.case whole
    using q by blast
qed

section \<open>Properties\<close>

text \<open>
  C35: The two back ends store the same.  From databases with the same data, the same commands and a
  shutdown, with no error on either side and with instants that DuckDB keeps whole, lead to databases
  with the same data, however the commands fall into transactions.
\<close>
theorem back_ends_agree:
  assumes "same_data C s d" and "map snd ins1 = map snd ins2" and "plain_inputs ins1" and "duck_inputs_ok ins2"
    and "list_all (\<lambda>(E, c). we_fail E = (\<lambda>_. None) \<and> we_commit_fail E = None) ins1" and "we_commit_fail e1 = None"
    and "duck_faultless e2" and "length ins1 < 2 ^ 31" and "list_all (keeps_times C) (map snd ins1)"
  shows "same_data C
    (sq_committed (sqlite_run C (ins1 @ [(e1', StoreShutdown)]) e1 (sqlite_start s bus m)))
    (duck_committed (duck_run C (ins2 @ [(e2', StoreShutdown)]) e2 (duck_start d bus m)))"
proof -
  have ok: "list_all (\<lambda>(E, c). we_fail E = (\<lambda>_. None)) ins1" "list_all (\<lambda>(E, c). we_commit_fail E = None) ins1"
    using assms(5) by (auto simp: list_all_iff)
  have "sq_committed (sqlite_run C (ins1 @ [(e1', StoreShutdown)]) e1 (sqlite_start s bus m)) = apply_inputs C ins1 s"
    by (rule sqlite_run_all [OF assms(3) ok(2) assms(6,8)]) simp
  moreover have "duck_committed (duck_run C (ins2 @ [(e2', StoreShutdown)]) e2 (duck_start d bus m)) = duck_apply C (map snd ins1) d"
    unfolding assms(2) by (rule duck_run_ok [OF assms(4,7)]) (simp add: duck_start_def duck_begin_def)
  ultimately show ?thesis using same_data_apply [OF ok(1) assms(9,1)] by simp
qed

text \<open>
  In DuckDB one failing row costs the commands of its batch before it.  After commands without an
  error, an \<open>INSERT\<close> that fails makes the writer roll back: what is stored in the end are the full
  batches before it and the commands after it; the up to 99 commands of the open batch, which had
  succeeded, are lost, and the only report is that of the failing row.
\<close>
theorem duck_error_discards_batch:
  assumes "duck_inputs_ok ins" and "length ins < 2 ^ 64" and "c \<noteq> StoreShutdown" and "\<forall>es. c \<noteq> StoreCompactEvents es"
    and "de_prepare_fail e = None" and "de_fail e 0 = Some msg" and "de_commit_fail e = None"
    and "duck_inputs_ok later" and "duck_faultless e'"
  shows "let w = duck_after C ins (duck_start db bus m); w' = fst (duck_step C e w c)
    in duck_committed (duck_run C (ins @ (e, c) # later @ [(e'', StoreShutdown)]) e' (duck_start db bus m)) =
         duck_apply C (take (in_batches (length ins)) (map snd ins) @ map snd later) db
       \<and> dk_bus w' = push_health (dk_bus w) (''duckdb write error: '' @ msg)"
proof -
  let ?w = "duck_after C ins (duck_start db bus m)"
  have w: "dc_tx (dk_conn ?w) = InTx (duck_apply C (map snd ins) db)"
    "duck_committed ?w = duck_apply C (take (in_batches (length ins)) (map snd ins)) db"
    using duck_after_state [OF assms(1,2), of C db bus m] by (simp_all add: Let_def)
  have ex: "duck_execute C e c (dk_conn ?w) = Some ((dk_conn ?w)\<lparr> dc_tx := AbortedTx \<rparr>, Some msg)"
    using assms(3-6) w(1) by (cases c) (simp_all add: duck_prepared_def duck_insert_def)
  obtain w' where s: "duck_step C e ?w c = (w', WriterGoesOn)" "dc_tx (dk_conn w') = InTx (duck_committed ?w)"
    "dk_bus w' = push_health (dk_bus ?w) (''duckdb write error: '' @ msg)"
    using assms(3,7) ex by (cases c)
      (simp_all add: duck_step_def duck_restart_def duck_flush_def duck_commit_def duck_begin_def Let_def)
  have t: "dc_tx (dk_conn (duck_start db bus m)) = InTx db" by (simp add: duck_start_def duck_begin_def)
  have "duck_run C (ins @ (e, c) # later @ [(e'', StoreShutdown)]) e' (duck_start db bus m) =
      duck_run C (later @ [(e'', StoreShutdown)]) e' w'"
    by (simp add: duck_run_after [OF assms(1) t] s(1))
  then show ?thesis
    using duck_run_ok [OF assms(8,9) s(2), of C e''] s w(2) by (simp add: duck_apply_def Let_def)
qed

text \<open>
  The two back ends answer queries alike.  On databases with the same data, whose records carry
  ids, the envelopes of an interval and the records since an instant are the same on both, up to the
  order of entries with equal times; so every envelope and record reads the same from either.
\<close>
theorem queries_agree:
  assumes "same_data C s d" and "time_codec C T" and "insert since (insert until (db_times d)) \<subseteq> T"
    and "list_all (\<lambda>r. ay_record_id r \<noteq> None) (db_records d)"
    and "co_stamp C since = since" and "co_stamp C until = until"
  shows "(\<exists>a b. sqlite_fetch_envelopes_between C it1 None s since until = Inr a
        \<and> duck_fetch_envelopes_between C it2 None d since until = Inr b
        \<and> mset a = mset b \<and> map env_timestamp a = map env_timestamp b)
    \<and> (\<exists>a b. sqlite_fetch_records_since C it3 None s since run_id = Inr a
        \<and> duck_fetch_records_since C it4 None d since run_id = Inr b
        \<and> mset a = mset b \<and> map rec_start_time a = map rec_start_time b)"
  using envelope_queries_correspond [OF assms(1,2)] record_queries_correspond [OF assms(1,2)] assms(3-6) by simp

section \<open>Witnesses\<close>

definition duck_ok :: duck_env where
  "duck_ok = \<lparr> de_prepare_fail = None, de_fail = (\<lambda>_. None), de_commit_fail = None, de_commit_leaves_tx = False,
     de_message = [], de_now = 0 \<rparr>"

lemma duck_ok_faultless: "duck_faultless duck_ok"
  by (simp add: duck_faultless_def duck_ok_def)

lemma demo_keeps_times: "keeps_times demo_codec c"
  by (simp add: keeps_times_def demo_codec_def list_all_iff)

definition demo_stores :: "int storage_command list" where
  "demo_stores = [StoreRecord (demo_record 4 1 (Some 2)), StoreEnvelope (hd demo_stored)]"

theorem back_ends_agree_witness:
  "same_data demo_codec
    (sq_committed (sqlite_run demo_codec (map (Pair env_ok) demo_stores @ [(env_ok, StoreShutdown)]) env_ok
       (sqlite_start db_empty (bus_new 0) metrics_init)))
    (duck_committed (duck_run demo_codec (map (Pair duck_ok) demo_stores @ [(duck_ok, StoreShutdown)]) duck_ok
       (duck_start db_empty (bus_new 0) metrics_init)))"
  by (rule back_ends_agree)
    (simp_all add: same_data_def db_empty_def plain_inputs_def duck_inputs_ok_def demo_stores_def env_ok_def duck_ok_faultless
      demo_keeps_times)

theorem duck_error_discards_batch_witness:
  "db_transitions (duck_committed (duck_run demo_codec
     ([(duck_ok, StoreTransition (demo_trn 1))] @
       (duck_ok\<lparr> de_fail := (\<lambda>_. Some ''constraint'') \<rparr>, StoreTransition (demo_trn 2)) #
       [(duck_ok, StoreTransition (demo_trn 3))] @ [(duck_ok, StoreShutdown)]) duck_ok
     (duck_start db_empty (bus_new 0) metrics_init))) = [duck_transition_row demo_codec (demo_trn 3)]"
proof -
  let ?e = "duck_ok\<lparr> de_fail := (\<lambda>_. Some ''constraint'') \<rparr>"
  have "duck_committed (duck_run demo_codec ([(duck_ok, StoreTransition (demo_trn 1))] @
       (?e, StoreTransition (demo_trn 2)) # [(duck_ok, StoreTransition (demo_trn 3))] @ [(duck_ok, StoreShutdown)]) duck_ok
     (duck_start db_empty (bus_new 0) metrics_init)) =
     duck_apply demo_codec (take (in_batches 1) [StoreTransition (demo_trn 1)] @ [StoreTransition (demo_trn 3)]) db_empty"
    using duck_error_discards_batch [where ins = "[(duck_ok, StoreTransition (demo_trn 1))]" and e = ?e
        and c = "StoreTransition (demo_trn 2)" and later = "[(duck_ok, StoreTransition (demo_trn 3))]" and e' = duck_ok
        and e'' = duck_ok and C = demo_codec and db = db_empty and bus = "bus_new 0" and m = metrics_init and msg = "''constraint''"]
    by (simp add: duck_inputs_ok_def duck_ok_faultless Let_def) (simp add: duck_ok_def)
  then show ?thesis by (simp add: in_batches_def duck_apply_def db_empty_def)
qed

definition demo_duck_db :: duck_db where
  "demo_duck_db = db_empty\<lparr> db_records := [duck_record_row demo_codec (demo_record 4 1 (Some 2))],
     db_envelopes := [duck_envelope_row demo_codec (hd demo_stored)] \<rparr>"

definition demo_sqlite_db :: sqlite_db where
  "demo_sqlite_db = db_empty\<lparr> db_records := [record_row_of demo_codec 1 (demo_record 4 1 (Some 2))],
     db_envelopes := [envelope_row_of demo_codec (hd demo_stored)] \<rparr>"

theorem queries_agree_witness:
  "\<exists>a b. sqlite_fetch_records_since demo_codec rev None demo_sqlite_db 1 None = Inr a
     \<and> duck_fetch_records_since demo_codec rev None demo_duck_db 1 None = Inr b \<and> mset a = mset b"
proof -
  have a: "same_data demo_codec demo_sqlite_db demo_duck_db"
    by (simp add: same_data_def demo_sqlite_db_def demo_duck_db_def db_empty_def textual_rows(2) [OF demo_keeps_times])
      (rule textual_rows(3) [OF demo_keeps_times, symmetric])
  have b: "time_codec demo_codec {0..9}" by (rule demo_time_codec) simp
  have c: "insert 1 (insert 9 (db_times demo_duck_db)) \<subseteq> {0..9}"
    by (auto simp: db_times_def demo_duck_db_def db_empty_def duck_record_row_def duck_envelope_row_def demo_record_def demo_stored_def
        demo_codec_def)
  have d: "list_all (\<lambda>r. ay_record_id r \<noteq> None) (db_records demo_duck_db)"
    by (simp add: demo_duck_db_def duck_record_row_def)
  have e: "co_stamp demo_codec t = t" for t by (simp add: demo_codec_def)
  from conjunct2 [OF queries_agree [OF a b c d e e, where run_id = None]] show ?thesis by blast
qed

end
