(* ===== verification/Std_Text.thy ===== *)
theory Std_Text
  imports Kronical_Prelude
begin

text \<open>
  Text as the Rust standard library reads it: \<open>trim\<close>, \<open>split\<close>, \<open>lines\<close>, \<open>join\<close> and the parsing of
  decimal integers.  A string is its bytes; white space is Unicode's, byte sequence by byte sequence,
  so \<open>trim\<close> is exact on every valid string.
\<close>

section \<open>Trimming\<close>

definition white_spaces :: "string list" where
  "white_spaces = '' '' # map (map (char_of :: nat \<Rightarrow> char))
     ([[9], [10], [11], [12], [13], [194, 133], [194, 160], [225, 154, 128],
       [226, 128, 168], [226, 128, 169], [226, 128, 175], [226, 129, 159], [227, 128, 128]]
      @ map (\<lambda>b. [226, 128, b]) [128 ..< 139])"

function drop_spaces :: "string list \<Rightarrow> string \<Rightarrow> string" where
  "drop_spaces ws s = (case find (\<lambda>w. w \<noteq> [] \<and> starts_with s w) ws of
      None \<Rightarrow> s
    | Some w \<Rightarrow> drop_spaces ws (drop (length w) s))"
  by pat_completeness auto
termination
proof (relation "measure (\<lambda>(ws, s). length s)")
  fix ws s w
  assume "find (\<lambda>w. w \<noteq> [] \<and> starts_with s w) ws = Some w"
  then have "w \<noteq> []" and "take (length w) s = w" by (auto simp: find_Some_iff starts_with_def)
  then show "((ws, drop (length w) s), (ws, s)) \<in> measure (\<lambda>(ws, s). length s)" by (cases s) auto
qed simp

declare drop_spaces.simps [simp del]

definition trim_start :: "string \<Rightarrow> string" where
  "trim_start s = drop_spaces white_spaces s"

definition trim_end :: "string \<Rightarrow> string" where
  "trim_end s = rev (drop_spaces (map rev white_spaces) (rev s))"

definition trim :: "string \<Rightarrow> string" where
  "trim s = trim_end (trim_start s)"

section \<open>Splitting and joining\<close>

fun split_on :: "char \<Rightarrow> string \<Rightarrow> string list" where
  "split_on c [] = [[]]"
| "split_on c (x # xs) =
     (if x = c then [] # split_on c xs
      else (x # hd (split_on c xs)) # tl (split_on c xs))"

fun join :: "string \<Rightarrow> string list \<Rightarrow> string" where
  "join sep [] = []"
| "join sep [x] = x"
| "join sep (x # y # zs) = x @ sep @ join sep (y # zs)"

text \<open>Formatting with a width, the padding spaces to the right; in bytes, the texts padded are ASCII.\<close>

definition pad_right :: "nat \<Rightarrow> string \<Rightarrow> string" where
  "pad_right n s = s @ replicate (n - length s) (CHR '' '')"

text \<open>\<open>lines\<close>: without the line ends, LF or CR LF; nothing after the last of them is no line.\<close>

definition strip_cr :: "string \<Rightarrow> string" where
  "strip_cr l = (if l \<noteq> [] \<and> last l = char_of (13::nat) then butlast l else l)"

definition newline :: char where
  "newline = char_of (10::nat)"

definition text_lines :: "string \<Rightarrow> string list" where
  "text_lines s = (let ps = split_on newline s in
     map strip_cr (butlast ps) @ (if last ps = [] then [] else [last ps]))"

section \<open>Parsing integers\<close>

definition is_digit :: "char \<Rightarrow> bool" where
  "is_digit c \<longleftrightarrow> 48 \<le> (of_char c :: nat) \<and> (of_char c :: nat) \<le> 57"

definition digits_value :: "string \<Rightarrow> nat" where
  "digits_value s = foldl (\<lambda>v c. v * 10 + (of_char c - 48)) 0 s"

text \<open>
  \<open>parse\<close> at a type of the range from \<open>lo\<close> to \<open>hi\<close>: an optional sign, the minus only at a signed type,
  then at least one digit and nothing else, and a value of the range.
\<close>

definition parse_int :: "int \<Rightarrow> int \<Rightarrow> string \<Rightarrow> int option" where
  "parse_int lo hi s =
     (let neg = (s \<noteq> [] \<and> hd s = CHR ''-'' \<and> lo < 0);
          ds = (if neg \<or> (s \<noteq> [] \<and> hd s = CHR ''+'') then tl s else s);
          v = (if neg then - int (digits_value ds) else int (digits_value ds))
      in if ds \<noteq> [] \<and> list_all is_digit ds \<and> lo \<le> v \<and> v \<le> hi then Some v else None)"

definition parse_isize :: "string \<Rightarrow> int option" where
  "parse_isize s = parse_int (- (2 ^ 63)) (2 ^ 63 - 1) s"

definition parse_u32 :: "string \<Rightarrow> u32 option" where
  "parse_u32 s = map_option word_of_int (parse_int 0 (2 ^ 32 - 1) s)"

definition parse_i32 :: "string \<Rightarrow> int option" where
  "parse_i32 s = parse_int (- (2 ^ 31)) (2 ^ 31 - 1) s"

section \<open>Lemmas\<close>

subsection \<open>Trimming\<close>

text \<open>A printable byte of ASCII neither begins nor ends a white space.\<close>

definition plain :: "char \<Rightarrow> bool" where
  "plain c \<longleftrightarrow> 32 < (of_char c :: nat) \<and> (of_char c :: nat) < 127"

lemma white_spaces_plain:
  "list_all (\<lambda>w. w \<noteq> [] \<and> \<not> plain (hd w) \<and> \<not> plain (last w)) white_spaces"
  by code_simp

lemma drop_spaces_plain:
  assumes "list_all (\<lambda>w. \<not> plain (hd w)) ws" and "s = [] \<or> plain (hd s)"
  shows "drop_spaces ws s = s"
proof -
  have "\<not> (w \<noteq> [] \<and> starts_with s w)" if w: "w \<in> set ws" for w
  proof
    assume a: "w \<noteq> [] \<and> starts_with s w"
    then have "s \<noteq> []" and "hd w = hd s" by (cases s; cases w; force simp: starts_with_def)+
    with assms w show False by (auto simp: list_all_iff)
  qed
  then have "find (\<lambda>w. w \<noteq> [] \<and> starts_with s w) ws = None" by (auto simp: find_None_iff)
  then show ?thesis by (subst drop_spaces.simps) simp
qed

lemma trim_plain:
  assumes "s = [] \<or> plain (hd s) \<and> plain (last s)"
  shows "trim s = s"
proof -
  have "list_all (\<lambda>w. \<not> plain (hd w)) white_spaces"
    and "list_all (\<lambda>w. \<not> plain (hd w)) (map rev white_spaces)"
    using white_spaces_plain by (auto simp: list_all_iff hd_rev)
  with assms show ?thesis
    by (auto simp: trim_def trim_start_def trim_end_def drop_spaces_plain hd_rev)
qed

lemma trim_Nil [simp]: "trim [] = []"
  by (rule trim_plain) simp

lemma length_drop_spaces: "length (drop_spaces ws s) \<le> length s"
proof (induction ws s rule: drop_spaces.induct)
  case (1 ws s)
  show ?case by (subst drop_spaces.simps) (auto split: option.split dest: "1.IH")
qed

lemma length_trim: "length (trim s) \<le> length s"
  unfolding trim_def trim_start_def trim_end_def
  by (metis length_drop_spaces length_rev order_trans)

lemma drop_spaces_space:
  "drop_spaces white_spaces (CHR '' '' # s) = drop_spaces white_spaces s"
proof -
  have "find (\<lambda>w. w \<noteq> [] \<and> starts_with (CHR '' '' # s) w) white_spaces = Some '' ''"
    by (simp add: white_spaces_def starts_with_def)
  then show ?thesis by (subst drop_spaces.simps) simp
qed

lemma trim_space [simp]: "trim (CHR '' '' # s) = trim s"
  by (simp add: trim_def trim_start_def drop_spaces_space)

subsection \<open>Splitting and joining\<close>

lemma split_on_ne [simp]: "split_on c s \<noteq> []"
  by (cases s) simp_all

lemma split_on_none: "c \<notin> set s \<Longrightarrow> split_on c s = [s]"
  by (induction s) auto

lemma split_on_append: "c \<notin> set s \<Longrightarrow> split_on c (s @ c # t) = s # split_on c t"
  by (induction s) auto

lemma split_on_join:
  "xs \<noteq> [] \<Longrightarrow> (\<And>x. x \<in> set xs \<Longrightarrow> c \<notin> set x) \<Longrightarrow> split_on c (join [c] xs) = xs"
proof (induction "[c]" xs rule: join.induct)
  case (3 x y zs)
  then show ?case by (simp add: split_on_append)
qed (simp_all add: split_on_none)

lemma join_split_on: "join [c] (split_on c s) = s"
proof (induction s)
  case (Cons x xs)
  show ?case
  proof (cases "split_on c xs")
    case (Cons p ps)
    with Cons.IH show ?thesis by (cases ps) auto
  qed simp
qed simp

subsection \<open>Integers\<close>

lemma digit_chars:
  "char_of (48::nat) = CHR ''0''" "char_of (49::nat) = CHR ''1''" "char_of (50::nat) = CHR ''2''"
  "char_of (51::nat) = CHR ''3''" "char_of (52::nat) = CHR ''4''" "char_of (53::nat) = CHR ''5''"
  "char_of (54::nat) = CHR ''6''" "char_of (55::nat) = CHR ''7''" "char_of (56::nat) = CHR ''8''"
  "char_of (57::nat) = CHR ''9''"
  by code_simp+

lemma digit_char: "n < 10 \<Longrightarrow> is_digit (char_of (48 + n))" for n :: nat
  by (simp add: is_digit_def)

lemma digits_nat_str: "digits_value (nat_str n) = n"
proof (induction n rule: nat_str.induct)
  case (1 n)
  have "(of_char (char_of (48 + m)) :: nat) - 48 = m" if "m < 10" for m :: nat
    using that by simp
  with 1 show ?case by (cases "n < 10") (simp_all add: nat_str.simps [of n] digits_value_def)
qed

lemma nat_str_inj: "nat_str m = nat_str n \<longleftrightarrow> m = n"
  by (metis digits_nat_str)

lemma nat_str_digits: "nat_str n \<noteq> [] \<and> list_all is_digit (nat_str n)"
proof (induction n rule: nat_str.induct)
  case (1 n)
  then show ?case by (subst (1 2) nat_str.simps) (simp add: digit_char)
qed

lemma digit_plain: "is_digit c \<Longrightarrow> plain c" "is_digit c \<Longrightarrow> c \<noteq> CHR ''-''" "is_digit c \<Longrightarrow> c \<noteq> CHR ''+''"
  by (auto simp: is_digit_def plain_def)

lemma nat_str_ends: "is_digit (hd (nat_str n))" "is_digit (last (nat_str n))"
  using nat_str_digits [of n] by (auto simp: list_all_iff)

lemma int_str_ne [simp]: "int_str v \<noteq> []"
  using nat_str_digits by (simp add: int_str_def)

lemma int_str_plain: "plain (hd (int_str v))" "is_digit (last (int_str v))"
  using nat_str_ends nat_str_digits by (auto simp: int_str_def digit_plain) (simp add: plain_def)

lemma trim_int_str [simp]: "trim (int_str v) = int_str v"
  by (rule trim_plain) (simp add: int_str_plain digit_plain)

lemma parse_int_str:
  assumes "lo \<le> 0"
  shows "parse_int lo hi (int_str v) = (if lo \<le> v \<and> v \<le> hi then Some v else None)"
proof (cases "v < 0")
  case True
  show ?thesis
  proof (cases "lo < 0")
    case True
    with \<open>v < 0\<close> show ?thesis
      using nat_str_digits [of "nat (- v)"] by (simp add: parse_int_def int_str_def digits_nat_str)
  next
    case False
    have "\<not> is_digit (CHR ''-'')" by (simp add: is_digit_def)
    with False \<open>v < 0\<close> assms show ?thesis by (simp add: parse_int_def int_str_def)
  qed
next
  case False
  have "hd (nat_str (nat v)) \<noteq> CHR ''-''" and "hd (nat_str (nat v)) \<noteq> CHR ''+''"
    using nat_str_ends digit_plain by blast+
  with False show ?thesis
    using nat_str_digits [of "nat v"] by (simp add: parse_int_def int_str_def digits_nat_str)
qed

lemma parse_u32_nat_str: "parse_u32 (nat_str (unat w)) = Some w"
proof -
  have "uint w < 2 ^ 32" using uint_lt2p [of w] by simp
  moreover have "nat_str (unat w) = int_str (uint w)" by (simp add: int_str_def)
  ultimately show ?thesis by (simp add: parse_u32_def parse_int_str)
qed

end
