(* ===== verification/Sleep_Period.thy ===== *)
theory Sleep_Period
  imports Records Std_Text
begin

text \<open>
  The period that kronictl's monitor shows, src/bin/kronictl.rs: the last night's sleep is looked for
  among the records of the login window, and the applications are counted from its start, or from
  the local midnight.

  A \<open>DateTime<Local>\<close> is its instant; the local calendar of the time zone and the arithmetic of
  \<open>f64\<close> are parameters, \<open>time_zone\<close> and \<open>score_ops\<close>.
\<close>

section \<open>Parameters\<close>

text \<open>
  Day number and second of the day of an instant, and the instants a day and second stand for, none in
  a gap of the local time, two, the earlier first, where it is turned back.
\<close>

record time_zone =
  tz_day :: "instant \<Rightarrow> int"
  tz_secs :: "instant \<Rightarrow> int"
  tz_at :: "int \<Rightarrow> int \<Rightarrow> instant list"

text \<open>\<open>so_tenths n\<close> is the literal \<open>n / 10\<close>, \<open>so_int\<close> the cast of an \<open>i64\<close>.\<close>

record 'd score_ops =
  so_tenths :: "int \<Rightarrow> 'd"
  so_int :: "int \<Rightarrow> 'd"
  so_add :: "'d \<Rightarrow> 'd \<Rightarrow> 'd"
  so_sub :: "'d \<Rightarrow> 'd \<Rightarrow> 'd"
  so_mul :: "'d \<Rightarrow> 'd \<Rightarrow> 'd"
  so_div :: "'d \<Rightarrow> 'd \<Rightarrow> 'd"
  so_min :: "'d \<Rightarrow> 'd \<Rightarrow> 'd"
  so_gt :: "'d \<Rightarrow> 'd \<Rightarrow> bool"

section \<open>Days and windows\<close>

definition hours :: "int \<Rightarrow> duration" where
  "hours n = n * 3600000000000"

definition earliest :: "instant list \<Rightarrow> instant \<Rightarrow> instant" where
  "earliest ts d = (if ts = [] then d else hd ts)"

definition local_midnight :: "time_zone \<Rightarrow> instant \<Rightarrow> instant" where
  "local_midnight Z now_local =
     (let ts = tz_at Z (tz_day Z now_local) 0 in
      if ts \<noteq> [] then hd ts else if ts \<noteq> [] then last ts else now_local)"

definition sleep_window_bounds :: "time_zone \<Rightarrow> instant \<Rightarrow> instant \<times> instant" where
  "sleep_window_bounds Z now_local =
     (let start_today = earliest (tz_at Z (tz_day Z now_local) (21 * 3600)) now_local in
      if 21 \<le> tz_secs Z now_local div 3600 then (start_today, start_today + hours 24)
      else (start_today - hours 24, start_today))"

section \<open>Scores\<close>

definition midpoint_score :: "time_zone \<Rightarrow> 'd score_ops \<Rightarrow> instant \<Rightarrow> 'd" where
  "midpoint_score Z D midpoint =
     (let diff = \<bar>tz_secs Z midpoint - 4 * 3600\<bar>; diff' = min diff (6 * 60 * 60) in
      so_sub D (so_tenths D 10) (so_div D (so_int D diff') (so_int D (6 * 60 * 60))))"

definition overlap_seconds :: "instant \<Rightarrow> instant \<Rightarrow> instant \<Rightarrow> instant \<Rightarrow> int" where
  "overlap_seconds start fin window_start window_end =
     (let s = max start window_start; e = min fin window_end in max (num_seconds (e - s)) 0)"

definition night_band_overlap_seconds :: "time_zone \<Rightarrow> instant \<Rightarrow> instant \<Rightarrow> int" where
  "night_band_overlap_seconds Z start fin =
     (let midpoint = start + trunc_div (fin - start) 2;
          band_start = earliest (tz_at Z (tz_day Z midpoint) (22 * 3600)) midpoint;
          band_end = band_start + hours (24 - 22 + 10)
      in overlap_seconds start fin band_start band_end)"

definition sleep_score :: "time_zone \<Rightarrow> 'd score_ops \<Rightarrow> instant \<Rightarrow> instant \<Rightarrow> 'd" where
  "sleep_score Z D clipped_start clipped_end =
     (let duration_secs = num_seconds (clipped_end - clipped_start);
          midpoint = clipped_start + trunc_div (clipped_end - clipped_start) 2;
          duration_hours = so_div D (so_int D duration_secs) (so_tenths D 36000);
          duration_score = so_div D (so_min D duration_hours (so_tenths D 120)) (so_tenths D 120);
          night_overlap = night_band_overlap_seconds Z clipped_start clipped_end;
          night_score = (if 0 < duration_secs then so_div D (so_int D night_overlap) (so_int D duration_secs) else so_tenths D 0)
      in so_add D (so_add D (so_mul D (so_tenths D 5) duration_score) (so_mul D (so_tenths D 3) (midpoint_score Z D midpoint)))
           (so_mul D (so_tenths D 2) night_score))"

section \<open>The search\<close>

definition login_record :: "activity_record \<Rightarrow> bool" where
  "login_record r = (case rec_focus_info r of None \<Rightarrow> False
     | Some f \<Rightarrow> eq_ignore_ascii_case (fi_app_name f) ''loginwindow'')"

definition record_end :: "instant \<Rightarrow> activity_record \<Rightarrow> instant" where
  "record_end now r = (case rec_end_time r of None \<Rightarrow> now | Some e \<Rightarrow> e)"

text \<open>
  The scan for runs of login records: the finished segments and the open one.  \<open>current_start\<close> and
  \<open>current_end\<close> are set and taken together.
\<close>

definition scan_record ::
  "instant \<Rightarrow> (instant \<times> instant) list \<times> (instant \<times> instant) option \<Rightarrow> activity_record \<Rightarrow>
   (instant \<times> instant) list \<times> (instant \<times> instant) option" where
  "scan_record now = (\<lambda>(segments, current) r.
     if login_record r
     then (segments, Some (case current of
         None \<Rightarrow> (rec_start_time r, record_end now r)
       | Some (s, e) \<Rightarrow> (s, if e < record_end now r then record_end now r else e)))
     else (case current of None \<Rightarrow> (segments, None) | Some seg \<Rightarrow> (segments @ [seg], None)))"

definition login_segments :: "instant \<Rightarrow> activity_record list \<Rightarrow> (instant \<times> instant) list" where
  "login_segments now records =
     (case foldl (scan_record now) ([], None) records of
        (segments, None) \<Rightarrow> segments
      | (segments, Some seg) \<Rightarrow> segments @ [seg])"

definition merge_segment :: "(instant \<times> instant) list \<Rightarrow> instant \<times> instant \<Rightarrow> (instant \<times> instant) list" where
  "merge_segment merged = (\<lambda>(start, fin).
     if merged \<noteq> []
       \<and> 0 \<le> num_seconds (start - snd (last merged)) \<and> num_seconds (start - snd (last merged)) \<le> 60 * 60
     then butlast merged @ [(fst (last merged), if snd (last merged) < fin then fin else snd (last merged))]
     else merged @ [(start, fin)])"

definition merged_segments :: "(instant \<times> instant) list \<Rightarrow> (instant \<times> instant) list" where
  "merged_segments segments = foldl merge_segment [] (sort_key fst segments)"

definition best_step ::
  "time_zone \<Rightarrow> 'd score_ops \<Rightarrow> instant \<Rightarrow> instant \<Rightarrow> int \<Rightarrow> ('d \<times> instant \<times> instant) option \<Rightarrow> instant \<times> instant \<Rightarrow>
   ('d \<times> instant \<times> instant) option" where
  "best_step Z D ws we min_duration_secs best = (\<lambda>(start, fin).
     if overlap_seconds start fin ws we \<le> 0 then best
     else (let clipped_start = max start ws; clipped_end = min fin we in
       if num_seconds (clipped_end - clipped_start) < min_duration_secs then best
       else (let score = sleep_score Z D clipped_start clipped_end in
         if (case best of None \<Rightarrow> True | Some (best_score, _) \<Rightarrow> so_gt D score best_score)
         then Some (score, clipped_start, clipped_end) else best)))"

definition find_sleep_period_with_window ::
  "time_zone \<Rightarrow> 'd score_ops \<Rightarrow> activity_record list \<Rightarrow> instant \<Rightarrow> instant \<Rightarrow> instant \<Rightarrow> int \<Rightarrow> (instant \<times> instant) option" where
  "find_sleep_period_with_window Z D records now ws we min_duration_secs =
     (let segments = login_segments now records in
      if segments = [] then None
      else map_option snd (foldl (best_step Z D ws we min_duration_secs) None (merged_segments segments)))"

definition find_sleep_period ::
  "time_zone \<Rightarrow> 'd score_ops \<Rightarrow> activity_record list \<Rightarrow> instant \<Rightarrow> instant \<Rightarrow> int \<Rightarrow> (instant \<times> instant) option" where
  "find_sleep_period Z D records now now_local min_duration_secs =
     (let (ws, we) = sleep_window_bounds Z now_local in
      find_sleep_period_with_window Z D records now ws we min_duration_secs)"

section \<open>Specification\<close>

text \<open>Records in chronological order, as the record builder makes them.\<close>

definition chronological :: "instant \<Rightarrow> activity_record list \<Rightarrow> bool" where
  "chronological now records \<longleftrightarrow> sorted_wrt (\<lambda>r r'. record_end now r \<le> rec_start_time r') records
     \<and> list_all (\<lambda>r. rec_start_time r \<le> record_end now r) records"

text \<open>An interval lies beside a segment.\<close>

definition beside :: "instant \<times> instant \<Rightarrow> instant \<times> instant \<Rightarrow> bool" where
  "beside i seg \<longleftrightarrow> snd i \<le> fst seg \<or> snd seg \<le> fst i"

text \<open>The clipped segments among which the period is chosen.\<close>

definition sleep_candidates :: "instant \<Rightarrow> instant \<Rightarrow> int \<Rightarrow> (instant \<times> instant) list \<Rightarrow> (instant \<times> instant) list" where
  "sleep_candidates ws we min_duration_secs merged =
     filter (\<lambda>(s, e). 0 < num_seconds (e - s) \<and> min_duration_secs \<le> num_seconds (e - s))
       (map (\<lambda>(s, e). (max s ws, min e we)) merged)"

text \<open>Of any doubles, NaN included, none is above itself, and above is transitive.\<close>

definition strict_scores :: "'d score_ops \<Rightarrow> bool" where
  "strict_scores D \<longleftrightarrow> (\<forall>x. \<not> so_gt D x x) \<and> (\<forall>x y z. so_gt D x y \<longrightarrow> so_gt D y z \<longrightarrow> so_gt D x z)"

section \<open>Lemmas\<close>

subsection \<open>The choice\<close>

lemma best_step_candidate:
  "best_step Z D ws we m best (s, e) =
     (case sleep_candidates ws we m [(s, e)] of
        [] \<Rightarrow> best
      | (c, c') # _ \<Rightarrow> (if (case best of None \<Rightarrow> True | Some (b, _) \<Rightarrow> so_gt D (sleep_score Z D c c') b)
          then Some (sleep_score Z D c c', c, c') else best))"
  by (auto simp: best_step_def sleep_candidates_def overlap_seconds_def Let_def)

lemma sleep_candidates_append: "sleep_candidates ws we m (xs @ ys) = sleep_candidates ws we m xs @ sleep_candidates ws we m ys"
  by (simp add: sleep_candidates_def)

text \<open>The best so far: none if there was no candidate, otherwise one that none is above.\<close>

definition best_of :: "time_zone \<Rightarrow> 'd score_ops \<Rightarrow> (instant \<times> instant) list \<Rightarrow> ('d \<times> instant \<times> instant) option \<Rightarrow> bool" where
  "best_of Z D cs best = (case best of
      None \<Rightarrow> cs = []
    | Some (b, c) \<Rightarrow> c \<in> set cs \<and> b = sleep_score Z D (fst c) (snd c)
        \<and> list_all (\<lambda>q. \<not> so_gt D (sleep_score Z D (fst q) (snd q)) b) cs)"

lemma best_of_step:
  assumes "strict_scores D" and "best_of Z D cs best"
  shows "best_of Z D (cs @ sleep_candidates ws we m [x]) (best_step Z D ws we m best x)"
proof -
  obtain s e where x: "x = (s, e)" by (cases x)
  show ?thesis
  proof (cases "sleep_candidates ws we m [x]")
    case Nil
    with assms(2) show ?thesis unfolding x by (simp add: best_step_candidate)
  next
    case (Cons c rest)
    then have c: "sleep_candidates ws we m [(s, e)] = [c]" by (auto simp: x sleep_candidates_def split: if_splits)
    obtain a b where ab: "c = (a, b)" by (cases c)
    from assms show ?thesis
      unfolding x c best_step_candidate ab
      by (auto simp: best_of_def strict_scores_def list_all_iff split: option.splits)
  qed
qed

lemma best_of_fold:
  assumes "strict_scores D" and "best_of Z D cs best"
  shows "best_of Z D (cs @ sleep_candidates ws we m xs) (foldl (best_step Z D ws we m) best xs)"
  using assms(2)
proof (induction xs arbitrary: cs best)
  case Nil
  then show ?case by (simp add: sleep_candidates_def)
next
  case (Cons x xs)
  from Cons.IH [OF best_of_step [OF assms(1) Cons.prems]] show ?case
    using sleep_candidates_append [of ws we m "[x]" xs] by simp
qed

lemma merged_Nil [simp]: "merged_segments [] = []"
  by (simp add: merged_segments_def)

lemma find_best:
  assumes "strict_scores D"
  shows "\<exists>best. best_of Z D (sleep_candidates ws we m (merged_segments (login_segments now records))) best
    \<and> find_sleep_period_with_window Z D records now ws we m = map_option snd best"
proof -
  let ?segs = "login_segments now records"
  have "best_of Z D [] None" by (simp add: best_of_def)
  from best_of_fold [OF assms this, of ws we m "merged_segments ?segs"] show ?thesis
    by (auto simp: find_sleep_period_with_window_def Let_def)
qed

subsection \<open>Merging\<close>

text \<open>
  A merged segment begins and ends with one of the segments, and what lies beside all of them and
  inside it lies in a gap.
\<close>

definition spans :: "(instant \<times> instant) set \<Rightarrow> instant \<times> instant \<Rightarrow> bool" where
  "spans segs seg \<longleftrightarrow> fst seg \<in> fst ` segs \<and> (\<exists>a \<le> snd seg. (a, snd seg) \<in> segs)
     \<and> (\<forall>x y. fst seg \<le> x \<and> x \<le> y \<and> y \<le> snd seg \<and> (\<forall>s \<in> segs. beside (x, y) s) \<longrightarrow> y - x < secs 3601)"

lemma spans_mono: "spans segs seg \<Longrightarrow> segs \<subseteq> segs' \<Longrightarrow> spans segs' seg"
  unfolding spans_def by blast

lemma spans_single: "fst seg \<le> snd seg \<Longrightarrow> spans {seg} seg"
  by (cases seg) (auto simp: spans_def beside_def secs_def)

lemma gap_bound: "num_seconds d \<le> 60 * 60 \<Longrightarrow> d < secs 3601"
  by (auto simp: time_simps split: if_splits)

lemma spans_extend:
  assumes seg: "spans segs (a, b)" and new: "c \<le> d" and gap: "num_seconds (c - b) \<le> 60 * 60"
  shows "spans (insert (c, d) segs) (a, if b < d then d else b)"
  unfolding spans_def
proof (intro conjI allI impI)
  show "fst (a, if b < d then d else b) \<in> fst ` insert (c, d) segs"
    using seg by (auto simp: spans_def)
  show "\<exists>x \<le> snd (a, if b < d then d else b). (x, snd (a, if b < d then d else b)) \<in> insert (c, d) segs"
    using seg new by (auto simp: spans_def)
next
  fix x y
  assume "fst (a, if b < d then d else b) \<le> x \<and> x \<le> y \<and> y \<le> snd (a, if b < d then d else b)
    \<and> (\<forall>s \<in> insert (c, d) segs. beside (x, y) s)"
  then have xy: "a \<le> x" "x \<le> y" "y \<le> max b d" and side: "y \<le> c \<or> d \<le> x" and old: "\<forall>s \<in> segs. beside (x, y) s"
    by (auto simp: beside_def split: if_splits)
  from seg obtain a' where a': "a' \<le> b" "(a', b) \<in> segs" by (auto simp: spans_def)
  show "y - x < secs 3601"
  proof (cases "y \<le> b")
    case True
    with seg xy old show ?thesis by (auto simp: spans_def)
  next
    case False
    then have "b \<le> x" using old a' by (auto simp: beside_def)
    moreover have "y \<le> c \<or> y \<le> x" using False xy side by auto
    ultimately show ?thesis using gap_bound [OF gap] by (auto simp: secs_def)
  qed
qed

lemma merge_spans:
  assumes "\<forall>seg \<in> set merged. spans segs seg" and "fst x \<le> snd x"
  shows "\<forall>seg \<in> set (merge_segment merged x). spans (insert x segs) seg"
proof -
  have keep: "spans (insert x segs) seg" if "seg \<in> set merged" for seg
    using assms(1) that by (blast intro: spans_mono)
  have own: "spans (insert x segs) x"
    by (rule spans_mono [OF spans_single [OF assms(2)]]) simp
  have ext: "spans (insert x segs) (fst (last merged), if snd (last merged) < snd x then snd x else snd (last merged))"
    if "merged \<noteq> []" and "num_seconds (fst x - snd (last merged)) \<le> 60 * 60"
    using spans_extend [of segs "fst (last merged)" "snd (last merged)" "fst x" "snd x"] assms that by simp
  show ?thesis
    using keep own ext by (cases x) (auto simp: merge_segment_def dest: in_set_butlastD)
qed

lemma merged_spans:
  assumes "\<forall>seg \<in> set segs. fst seg \<le> snd seg"
  shows "\<forall>seg \<in> set (merged_segments segs). spans (set segs) seg"
proof -
  have "\<forall>seg \<in> set (foldl merge_segment [] xs). spans (set xs) seg" if "\<forall>seg \<in> set xs. fst seg \<le> snd seg" for xs
    using that
  proof (induction xs rule: rev_induct)
    case (snoc x xs)
    then show ?case using merge_spans [of "foldl merge_segment [] xs" "set xs" x] by simp
  qed simp
  from this [of "sort_key fst segs"] assms show ?thesis by (simp add: merged_segments_def)
qed

subsection \<open>The scan\<close>

text \<open>
  The state of the scan: every segment goes from the start of a login record to the end of one, the
  other records lie beside the finished segments and before the open one.
\<close>

definition login_segment :: "instant \<Rightarrow> activity_record list \<Rightarrow> instant \<times> instant \<Rightarrow> bool" where
  "login_segment now rs seg \<longleftrightarrow> fst seg \<le> snd seg
     \<and> (\<exists>r \<in> set rs. login_record r \<and> fst seg = rec_start_time r)
     \<and> (\<exists>r \<in> set rs. login_record r \<and> snd seg = record_end now r)"

definition record_beside :: "instant \<Rightarrow> activity_record \<Rightarrow> instant \<times> instant \<Rightarrow> bool" where
  "record_beside now r seg = beside (rec_start_time r, record_end now r) seg"

fun scan_ok :: "instant \<Rightarrow> activity_record list \<Rightarrow> (instant \<times> instant) list \<times> (instant \<times> instant) option \<Rightarrow> bool" where
  "scan_ok now rs (segments, current) \<longleftrightarrow>
     (\<forall>seg \<in> set segments. login_segment now rs seg \<and> (\<forall>r \<in> set rs. \<not> login_record r \<longrightarrow> record_beside now r seg))
     \<and> (\<forall>seg. current = Some seg \<longrightarrow> login_segment now rs seg
          \<and> (\<forall>r \<in> set rs. \<not> login_record r \<longrightarrow> record_end now r \<le> fst seg))"

lemma login_segment_more: "login_segment now rs seg \<Longrightarrow> login_segment now (rs @ [r]) seg"
  by (auto simp: login_segment_def)

lemma login_segment_before:
  assumes "login_segment now rs seg" and "chronological now (rs @ [r])"
  shows "record_beside now r seg"
  using assms by (auto simp: login_segment_def record_beside_def beside_def chronological_def sorted_wrt_append)

lemma scan_step_ok:
  assumes ok: "scan_ok now rs (segments, current)" and chr: "chronological now (rs @ [r])"
  shows "scan_ok now (rs @ [r]) (scan_record now (segments, current) r)"
proof -
  from chr have before: "\<forall>q \<in> set rs. record_end now q \<le> rec_start_time r" and own: "rec_start_time r \<le> record_end now r"
    by (auto simp: chronological_def sorted_wrt_append)
  have segs: "login_segment now (rs @ [r]) seg" "\<forall>q \<in> set (rs @ [r]). \<not> login_record q \<longrightarrow> record_beside now q seg"
    if "seg \<in> set segments" for seg
    using ok that login_segment_more login_segment_before [OF _ chr] by auto
  show ?thesis
  proof (cases "login_record r")
    case True
    show ?thesis
    proof (cases current)
      case None
      have "login_segment now (rs @ [r]) (rec_start_time r, record_end now r)"
        using True own by (auto simp: login_segment_def)
      with None True segs before show ?thesis by (auto simp: scan_record_def)
    next
      case (Some seg)
      with ok have seg: "login_segment now rs seg" "\<forall>q \<in> set rs. \<not> login_record q \<longrightarrow> record_end now q \<le> fst seg" by auto
      have "login_segment now (rs @ [r]) (fst seg, if snd seg < record_end now r then record_end now r else snd seg)"
        using seg(1) True by (auto simp: login_segment_def)
      with Some True segs seg(2) show ?thesis by (cases seg) (auto simp: scan_record_def)
    qed
  next
    case False
    show ?thesis
    proof (cases current)
      case None
      with False segs show ?thesis by (auto simp: scan_record_def)
    next
      case (Some seg)
      with ok have seg: "login_segment now rs seg" "\<forall>q \<in> set rs. \<not> login_record q \<longrightarrow> record_end now q \<le> fst seg" by auto
      then have "\<forall>q \<in> set (rs @ [r]). \<not> login_record q \<longrightarrow> record_beside now q seg"
        using login_segment_before [OF seg(1) chr] by (auto simp: record_beside_def beside_def)
      with Some False segs login_segment_more [OF seg(1)] show ?thesis by (auto simp: scan_record_def)
    qed
  qed
qed

lemma chronological_snoc: "chronological now (rs @ [r]) \<Longrightarrow> chronological now rs"
  by (simp add: chronological_def sorted_wrt_append)

lemma scan_all_ok: "chronological now rs \<Longrightarrow> scan_ok now rs (foldl (scan_record now) ([], None) rs)"
proof (induction rs rule: rev_induct)
  case (snoc r rs)
  obtain segs cur where "foldl (scan_record now) ([], None) rs = (segs, cur)" by fastforce
  with snoc.IH [OF chronological_snoc [OF snoc.prems]] scan_step_ok [OF _ snoc.prems] show ?case by simp
qed simp

lemma login_segments_ok:
  assumes "chronological now rs" and "seg \<in> set (login_segments now rs)"
  shows "login_segment now rs seg" and "\<forall>r \<in> set rs. \<not> login_record r \<longrightarrow> record_beside now r seg"
proof -
  obtain segs cur where f: "foldl (scan_record now) ([], None) rs = (segs, cur)" by fastforce
  with scan_all_ok [OF assms(1)] have ok: "scan_ok now rs (segs, cur)" by simp
  have "seg \<in> set segs \<or> cur = Some seg"
    using assms(2) f by (auto simp: login_segments_def split: option.splits)
  then show "login_segment now rs seg" and "\<forall>r \<in> set rs. \<not> login_record r \<longrightarrow> record_beside now r seg"
    using ok by (auto simp: record_beside_def beside_def simp del: split_paired_All)
qed

section \<open>Properties\<close>

text \<open>
  C24: The sleep that the monitor shows is one: of chronological records, the period found lies in the
  window, is at least as long as asked, begins where a login record begins and ends where one ends,
  save for the bounds of the window, and no record of another application inside it lasts longer than
  an hour (an hour and less than a second, as the gaps are counted in whole seconds).
\<close>
theorem sleep_is_undisturbed:
  assumes "chronological now records" and "strict_scores D"
    and "find_sleep_period_with_window Z D records now ws we min_secs = Some (s, e)"
  shows "ws \<le> s \<and> s < e \<and> e \<le> we \<and> min_secs \<le> num_seconds (e - s)
    \<and> (\<exists>r \<in> set records. login_record r \<and> s = max (rec_start_time r) ws)
    \<and> (\<exists>r \<in> set records. login_record r \<and> e = min (record_end now r) we)
    \<and> (\<forall>r \<in> set records. \<not> login_record r \<and> s \<le> rec_start_time r \<and> record_end now r \<le> e
         \<longrightarrow> record_end now r - rec_start_time r < secs 3601)"
proof -
  let ?segs = "login_segments now records"
  obtain best where "best_of Z D (sleep_candidates ws we min_secs (merged_segments ?segs)) best"
    and "Some (s, e) = map_option snd best"
    using find_best [OF assms(2), of Z ws we min_secs now records] assms(3) by auto
  then have "(s, e) \<in> set (sleep_candidates ws we min_secs (merged_segments ?segs))"
    by (cases best) (auto simp: best_of_def)
  then obtain a b where ab: "(a, b) \<in> set (merged_segments ?segs)" "s = max a ws" "e = min b we"
    and long: "0 < num_seconds (e - s)" "min_secs \<le> num_seconds (e - s)"
    by (auto simp: sleep_candidates_def)
  have seg: "login_segment now records seg" "\<forall>r \<in> set records. \<not> login_record r \<longrightarrow> record_beside now r seg"
    if "seg \<in> set ?segs" for seg
    using login_segments_ok [OF assms(1) that] by simp_all
  have sp: "spans (set ?segs) (a, b)"
    using merged_spans [of ?segs] ab(1) seg(1) by (auto simp: login_segment_def)
  obtain a' where "(a, a') \<in> set ?segs" using sp by (auto simp: spans_def)
  with seg(1) have first: "\<exists>r \<in> set records. login_record r \<and> a = rec_start_time r"
    by (fastforce simp: login_segment_def)
  obtain b' where "(b', b) \<in> set ?segs" using sp by (auto simp: spans_def)
  with seg(1) have last: "\<exists>r \<in> set records. login_record r \<and> b = record_end now r"
    by (fastforce simp: login_segment_def)
  have "record_end now r - rec_start_time r < secs 3601"
    if "r \<in> set records" "\<not> login_record r" "s \<le> rec_start_time r" "record_end now r \<le> e" for r
  proof -
    have "rec_start_time r \<le> record_end now r" using assms(1) that(1) by (auto simp: chronological_def list_all_iff)
    moreover have "\<forall>seg \<in> set ?segs. beside (rec_start_time r, record_end now r) seg"
      using seg(2) that(1,2) by (auto simp: record_beside_def)
    ultimately show ?thesis using sp that(3,4) ab(2,3) by (auto simp: spans_def)
  qed
  moreover have "s < e" using long(1) by (simp add: num_seconds_pos)
  ultimately show ?thesis using ab(2,3) long(2) first last by auto
qed

text \<open>
  Nothing better is missed: the period is one of the clipped segments that are long enough, none of
  which scores above it, and none is found exactly if there is none.
\<close>
theorem sleep_is_best:
  assumes "strict_scores D"
  shows "case find_sleep_period_with_window Z D records now ws we min_secs of
      None \<Rightarrow> sleep_candidates ws we min_secs (merged_segments (login_segments now records)) = []
    | Some p \<Rightarrow> p \<in> set (sleep_candidates ws we min_secs (merged_segments (login_segments now records)))
        \<and> (\<forall>q \<in> set (sleep_candidates ws we min_secs (merged_segments (login_segments now records))).
             \<not> so_gt D (sleep_score Z D (fst q) (snd q)) (sleep_score Z D (fst p) (snd p)))"
proof -
  obtain best where "best_of Z D (sleep_candidates ws we min_secs (merged_segments (login_segments now records))) best"
    and "find_sleep_period_with_window Z D records now ws we min_secs = map_option snd best"
    using find_best [OF assms, of Z ws we min_secs now records] by auto
  then show ?thesis by (cases best) (auto simp: best_of_def list_all_iff)
qed

section \<open>Witnesses\<close>

text \<open>A zone without an offset, and integers for scores.\<close>

definition demo_zone :: time_zone where
  "demo_zone = \<lparr> tz_day = (\<lambda>t. epoch_secs t div 86400), tz_secs = (\<lambda>t. epoch_secs t mod 86400),
     tz_at = (\<lambda>d s. [secs (d * 86400 + s)]) \<rparr>"

definition demo_scores :: "int score_ops" where
  "demo_scores = \<lparr> so_tenths = (\<lambda>n. n * 100), so_int = (\<lambda>n. n * 1000), so_add = (+), so_sub = (-),
     so_mul = (\<lambda>a b. a * b div 1000), so_div = (\<lambda>a b. a * 1000 div b), so_min = min, so_gt = (>) \<rparr>"

definition demo_night_record :: "string \<Rightarrow> int \<Rightarrow> int \<Rightarrow> activity_record" where
  "demo_night_record app from_min to_min = \<lparr> rec_id = 0, rec_run_id = None, rec_start_time = mins from_min, rec_end_time = Some (mins to_min),
     rec_state = Active, rec_focus_info = Some \<lparr> fi_pid = 1, fi_process_start_time = 0, fi_app_name = app, fi_window_title = ''title'',
       fi_window_id = 1, fi_window_instance_start = 0, fi_window_position = None, fi_window_size = None \<rparr>,
     rec_event_count = 0, rec_triggering_events = [] \<rparr>"

definition demo_night :: "activity_record list" where
  "demo_night = [demo_night_record ''loginwindow'' 1320 1560, demo_night_record ''Terminal'' 1560 1590,
     demo_night_record ''LoginWindow'' 1590 1860, demo_night_record ''Browser'' 1860 1950]"

lemma strict_demo_scores: "strict_scores demo_scores"
  by (auto simp: strict_scores_def demo_scores_def)

lemma demo_night_found:
  "find_sleep_period_with_window demo_zone demo_scores demo_night 0 (mins 1260) (mins 2700) 14400 = Some (mins 1320, mins 1860)"
  by code_simp

theorem sleep_is_undisturbed_witness:
  "\<exists>r \<in> set demo_night. login_record r \<and> mins 1860 = min (record_end 0 r) (mins 2700)"
proof -
  have "chronological 0 demo_night" by code_simp
  from sleep_is_undisturbed [OF this strict_demo_scores demo_night_found] show ?thesis by blast
qed

theorem sleep_is_best_witness:
  "(mins 1320, mins 1860) \<in> set (sleep_candidates (mins 1260) (mins 2700) 14400 (merged_segments (login_segments 0 demo_night)))"
  using sleep_is_best [OF strict_demo_scores, where Z = demo_zone and records = demo_night and now = 0 and ws = "mins 1260" and we = "mins 2700" and min_secs = 14400]
  unfolding demo_night_found by simp

end
