(* ===== verification/Metrics_Store.thy ===== *)
theory Metrics_Store
  imports Storage_Rows
begin

text \<open>
  The two stores of system metrics, crates/storage/src/system_metrics.rs: samples of one process, one
  table with the primary key \<open>(timestamp, pid)\<close>, an insert of a batch in one transaction, and two
  queries.  The trait \<open>SystemMetricsStore\<close> is a record of operations, the contract both stores keep a
  locale.

  What an engine answers is an input of each call.  A percentage is an \<open>f64\<close> that is only stored and
  read, a type parameter here.  SQLite rolls back a transaction that is dropped uncommitted; DuckDB
  rejects a key in use and a number outside its column, aborts a transaction in which a statement fails,
  and refuses \<open>BEGIN\<close> while a transaction, aborted or not, is open.
\<close>

section \<open>Samples and rows\<close>

record 'd system_metrics =
  sm_timestamp :: instant
  sm_cpu_percent :: 'd
  sm_memory_bytes :: u64
  sm_disk_io_bytes :: u64

record ('t, 'd) metrics_row =
  mw_timestamp :: 't
  mw_pid :: int
  mw_cpu_percent :: 'd
  mw_memory_bytes :: int
  mw_disk_io_bytes :: int

definition row_key :: "('t, 'd) metrics_row \<Rightarrow> 't \<times> int" where
  "row_key r = (mw_timestamp r, mw_pid r)"

text \<open>The errors of the statements of an insert; \<open>ma_row_fail i\<close> is that of the \<open>i\<close>th row.\<close>

record store_answers =
  ma_begin_fail :: "string option"
  ma_prepare_fail :: "string option"
  ma_prepare_aborts :: bool
  ma_row_fail :: "nat \<Rightarrow> string option"
  ma_commit_fail :: "string option"
  ma_commit_leaves_tx :: bool
  ma_message :: string

text \<open>\<open>trait SystemMetricsStore\<close>.\<close>

record ('s, 'd) metrics_store_ops =
  ms_insert :: "store_answers \<Rightarrow> 's \<Rightarrow> 'd system_metrics list \<Rightarrow> u32 \<Rightarrow> 's \<times> string option"
  ms_for_pid :: "string option \<Rightarrow> 's \<Rightarrow> u32 \<Rightarrow> u64 option \<Rightarrow> string + 'd system_metrics list"
  ms_in_range :: "string option \<Rightarrow> 's \<Rightarrow> u32 \<Rightarrow> instant \<Rightarrow> instant \<Rightarrow> string + 'd system_metrics list"

definition limit_rows :: "u64 option \<Rightarrow> 'a list \<Rightarrow> 'a list" where
  "limit_rows limit xs = (case limit of None \<Rightarrow> xs | Some n \<Rightarrow> take (unat n) xs)"

section \<open>SQLite\<close>

type_synonym 'd sqlite_metrics = "(string, 'd) metrics_row list"

definition sqlite_metric_row :: "'f codec \<Rightarrow> u32 \<Rightarrow> 'd system_metrics \<Rightarrow> (string, 'd) metrics_row" where
  "sqlite_metric_row C pid m =
     \<lparr> mw_timestamp = co_time C (sm_timestamp m), mw_pid = uint pid, mw_cpu_percent = sm_cpu_percent m,
       mw_memory_bytes = sint (sm_memory_bytes m), mw_disk_io_bytes = sint (sm_disk_io_bytes m) \<rparr>"

text \<open>\<open>INSERT OR REPLACE\<close> deletes the row with the same key first.\<close>

definition replace_row :: "('t, 'd) metrics_row \<Rightarrow> ('t, 'd) metrics_row list \<Rightarrow> ('t, 'd) metrics_row list" where
  "replace_row r rows = filter (\<lambda>r'. row_key r' \<noteq> row_key r) rows @ [r]"

fun sqlite_put_rows ::
  "'f codec \<Rightarrow> store_answers \<Rightarrow> u32 \<Rightarrow> nat \<Rightarrow> 'd system_metrics list \<Rightarrow> 'd sqlite_metrics \<Rightarrow> string + 'd sqlite_metrics" where
  "sqlite_put_rows C E pid i [] rows = Inr rows"
| "sqlite_put_rows C E pid i (m # ms) rows = (case ma_row_fail E i of
      Some e \<Rightarrow> Inl e
    | None \<Rightarrow> sqlite_put_rows C E pid (Suc i) ms (replace_row (sqlite_metric_row C pid m) rows))"

definition sqlite_insert_metrics ::
  "'f codec \<Rightarrow> store_answers \<Rightarrow> 'd sqlite_metrics \<Rightarrow> 'd system_metrics list \<Rightarrow> u32 \<Rightarrow> 'd sqlite_metrics \<times> string option" where
  "sqlite_insert_metrics C E rows ms pid =
     (if ms = [] then (rows, None)
      else case ma_begin_fail E of
        Some e \<Rightarrow> (rows, Some e)
      | None \<Rightarrow> (case ma_prepare_fail E of
          Some e \<Rightarrow> (rows, Some e)
        | None \<Rightarrow> (case sqlite_put_rows C E pid 0 ms rows of
            Inl e \<Rightarrow> (rows, Some e)
          | Inr rows' \<Rightarrow> (case ma_commit_fail E of
              Some e \<Rightarrow> (rows, Some e)
            | None \<Rightarrow> (rows', None)))))"

definition sqlite_metric_of_row :: "'f codec \<Rightarrow> (string, 'd) metrics_row \<Rightarrow> string + 'd system_metrics" where
  "sqlite_metric_of_row C r = (case co_time_of C (mw_timestamp r) of
      Inl e \<Rightarrow> Inl e
    | Inr ts \<Rightarrow> Inr \<lparr> sm_timestamp = ts, sm_cpu_percent = mw_cpu_percent r,
        sm_memory_bytes = word_of_int (mw_memory_bytes r), sm_disk_io_bytes = word_of_int (mw_disk_io_bytes r) \<rparr>)"

text \<open>
  \<open>ORDER BY timestamp\<close>: the rows of one process have distinct instants, so the order is determined.
  \<open>fault\<close> is an error of preparing or running the query.
\<close>

definition sqlite_metrics_for_pid ::
  "'f codec \<Rightarrow> string option \<Rightarrow> 'd sqlite_metrics \<Rightarrow> u32 \<Rightarrow> u64 option \<Rightarrow> string + 'd system_metrics list" where
  "sqlite_metrics_for_pid C fault rows pid limit = (case fault of
      Some e \<Rightarrow> Inl e
    | None \<Rightarrow> collect_rows (sqlite_metric_of_row C)
        (limit_rows limit (rev (sort_key mw_timestamp (filter (\<lambda>r. mw_pid r = uint pid) rows)))))"

definition sqlite_metrics_in_range ::
  "'f codec \<Rightarrow> string option \<Rightarrow> 'd sqlite_metrics \<Rightarrow> u32 \<Rightarrow> instant \<Rightarrow> instant \<Rightarrow> string + 'd system_metrics list" where
  "sqlite_metrics_in_range C fault rows pid start_time end_time = (case fault of
      Some e \<Rightarrow> Inl e
    | None \<Rightarrow> collect_rows (sqlite_metric_of_row C)
        (sort_key mw_timestamp (filter (\<lambda>r. mw_pid r = uint pid
           \<and> co_time C start_time \<le> mw_timestamp r \<and> mw_timestamp r \<le> co_time C end_time) rows)))"

definition sqlite_metrics_store :: "'f codec \<Rightarrow> ('d sqlite_metrics, 'd) metrics_store_ops" where
  "sqlite_metrics_store C = \<lparr> ms_insert = sqlite_insert_metrics C, ms_for_pid = sqlite_metrics_for_pid C,
     ms_in_range = sqlite_metrics_in_range C \<rparr>"

section \<open>DuckDB\<close>

type_synonym 'd duck_table = "(instant, 'd) metrics_row list"

datatype 'd metrics_tx = MetricsTx "'d duck_table" | MetricsAborted | MetricsNoTx

record 'd duck_metrics =
  dm_rows :: "'d duck_table"
  dm_tx :: "'d metrics_tx"

definition duck_metric_row :: "'f codec \<Rightarrow> u32 \<Rightarrow> 'd system_metrics \<Rightarrow> (instant, 'd) metrics_row" where
  "duck_metric_row C pid m =
     \<lparr> mw_timestamp = co_stamp C (sm_timestamp m), mw_pid = uint pid, mw_cpu_percent = sm_cpu_percent m,
       mw_memory_bytes = uint (sm_memory_bytes m), mw_disk_io_bytes = uint (sm_disk_io_bytes m) \<rparr>"

text \<open>The columns are \<open>INTEGER\<close> and \<open>BIGINT\<close>, and the key is unique.\<close>

definition duck_accepts :: "(instant, 'd) metrics_row \<Rightarrow> 'd duck_table \<Rightarrow> bool" where
  "duck_accepts r rows \<longleftrightarrow> mw_pid r < 2 ^ 31 \<and> mw_memory_bytes r < 2 ^ 63 \<and> mw_disk_io_bytes r < 2 ^ 63
     \<and> row_key r \<notin> row_key ` set rows"

fun duck_put_rows ::
  "'f codec \<Rightarrow> store_answers \<Rightarrow> u32 \<Rightarrow> nat \<Rightarrow> 'd system_metrics list \<Rightarrow> 'd duck_table \<Rightarrow> string + 'd duck_table" where
  "duck_put_rows C E pid i [] rows = Inr rows"
| "duck_put_rows C E pid i (m # ms) rows =
     (let r = duck_metric_row C pid m in case ma_row_fail E i of
        Some e \<Rightarrow> Inl e
      | None \<Rightarrow> if duck_accepts r rows then duck_put_rows C E pid (Suc i) ms (rows @ [r]) else Inl (ma_message E))"

text \<open>The early returns leave the transaction open.\<close>

definition duck_insert_metrics ::
  "'f codec \<Rightarrow> store_answers \<Rightarrow> 'd duck_metrics \<Rightarrow> 'd system_metrics list \<Rightarrow> u32 \<Rightarrow> 'd duck_metrics \<times> string option" where
  "duck_insert_metrics C E s ms pid =
     (if ms = [] then (s, None)
      else if dm_tx s \<noteq> MetricsNoTx then (s, Some (ma_message E))
      else case ma_begin_fail E of
        Some e \<Rightarrow> (s, Some e)
      | None \<Rightarrow> (case ma_prepare_fail E of
          Some e \<Rightarrow> (s\<lparr> dm_tx := if ma_prepare_aborts E then MetricsAborted else MetricsTx (dm_rows s) \<rparr>, Some e)
        | None \<Rightarrow> (case duck_put_rows C E pid 0 ms (dm_rows s) of
            Inl e \<Rightarrow> (s\<lparr> dm_tx := MetricsAborted \<rparr>, Some e)
          | Inr rows \<Rightarrow> (case ma_commit_fail E of
              Some e \<Rightarrow> (s\<lparr> dm_tx := if ma_commit_leaves_tx E then MetricsAborted else MetricsNoTx \<rparr>, Some e)
            | None \<Rightarrow> (\<lparr> dm_rows = rows, dm_tx = MetricsNoTx \<rparr>, None)))))"

text \<open>The rows a statement sees, on the one connection of the store.\<close>

definition duck_visible :: "string option \<Rightarrow> 'd duck_metrics \<Rightarrow> string + 'd duck_table" where
  "duck_visible fault s = (case fault of
      Some e \<Rightarrow> Inl e
    | None \<Rightarrow> (case dm_tx s of
        MetricsTx rows \<Rightarrow> Inr rows
      | MetricsAborted \<Rightarrow> Inl ''Current transaction is aborted (please ROLLBACK)''
      | MetricsNoTx \<Rightarrow> Inr (dm_rows s)))"

definition duck_metric_of_row :: "(instant, 'd) metrics_row \<Rightarrow> 'd system_metrics" where
  "duck_metric_of_row r = \<lparr> sm_timestamp = mw_timestamp r, sm_cpu_percent = mw_cpu_percent r,
     sm_memory_bytes = word_of_int (mw_memory_bytes r), sm_disk_io_bytes = word_of_int (mw_disk_io_bytes r) \<rparr>"

definition duck_metrics_for_pid ::
  "string option \<Rightarrow> 'd duck_metrics \<Rightarrow> u32 \<Rightarrow> u64 option \<Rightarrow> string + 'd system_metrics list" where
  "duck_metrics_for_pid fault s pid limit = (case duck_visible fault s of
      Inl e \<Rightarrow> Inl e
    | Inr rows \<Rightarrow> Inr (map duck_metric_of_row
        (limit_rows limit (rev (sort_key mw_timestamp (filter (\<lambda>r. mw_pid r = uint pid) rows))))))"

definition duck_metrics_in_range ::
  "'f codec \<Rightarrow> string option \<Rightarrow> 'd duck_metrics \<Rightarrow> u32 \<Rightarrow> instant \<Rightarrow> instant \<Rightarrow> string + 'd system_metrics list" where
  "duck_metrics_in_range C fault s pid start_time end_time = (case duck_visible fault s of
      Inl e \<Rightarrow> Inl e
    | Inr rows \<Rightarrow> Inr (map duck_metric_of_row
        (sort_key mw_timestamp (filter (\<lambda>r. mw_pid r = uint pid
           \<and> co_stamp C start_time \<le> mw_timestamp r \<and> mw_timestamp r \<le> co_stamp C end_time) rows))))"

definition duck_metrics_store :: "'f codec \<Rightarrow> ('d duck_metrics, 'd) metrics_store_ops" where
  "duck_metrics_store C = \<lparr> ms_insert = duck_insert_metrics C, ms_for_pid = duck_metrics_for_pid,
     ms_in_range = duck_metrics_in_range C \<rparr>"

text \<open>
  Maintenance.  \<open>avg_f\<close> and \<open>avg_i\<close> are the engine's averages; over no rows an average is \<open>NULL\<close>, which
  is not an \<open>f64\<close>.
\<close>

definition get_aggregated_metrics ::
  "'f codec \<Rightarrow> ('d list \<Rightarrow> 'd) \<Rightarrow> (int list \<Rightarrow> int) \<Rightarrow> string option \<Rightarrow> 'd duck_metrics \<Rightarrow> u32 \<Rightarrow> instant \<Rightarrow> string + 'd \<times> u64 \<times> u64" where
  "get_aggregated_metrics C avg_f avg_i fault s pid since = (case duck_visible fault s of
      Inl e \<Rightarrow> Inl e
    | Inr rows \<Rightarrow>
        (let sel = filter (\<lambda>r. mw_pid r = uint pid \<and> co_stamp C since \<le> mw_timestamp r) rows in
         if sel = [] then Inl ''Invalid column type Null''
         else Inr (avg_f (map mw_cpu_percent sel), word_of_int (avg_i (map mw_memory_bytes sel)),
                   word_of_int (avg_i (map mw_disk_io_bytes sel)))))"

definition cleanup_old_metrics :: "'f codec \<Rightarrow> string option \<Rightarrow> 'd duck_metrics \<Rightarrow> instant \<Rightarrow> 'd duck_metrics \<times> (string + nat)" where
  "cleanup_old_metrics C fault s cutoff = (case duck_visible fault s of
      Inl e \<Rightarrow> (s\<lparr> dm_tx := (case dm_tx s of MetricsTx _ \<Rightarrow> MetricsAborted | tx \<Rightarrow> tx) \<rparr>, Inl e)
    | Inr rows \<Rightarrow>
        (let kept = filter (\<lambda>r. \<not> mw_timestamp r < co_stamp C cutoff) rows;
             s' = (case dm_tx s of MetricsTx _ \<Rightarrow> s\<lparr> dm_tx := MetricsTx kept \<rparr> | _ \<Rightarrow> s\<lparr> dm_rows := kept \<rparr>)
         in (s', Inr (length rows - length kept))))"

definition get_total_metrics_count :: "string option \<Rightarrow> 'd duck_metrics \<Rightarrow> string + int" where
  "get_total_metrics_count fault s = (case duck_visible fault s of Inl e \<Rightarrow> Inl e | Inr rows \<Rightarrow> Inr (int (length rows)))"

section \<open>The contract of a store\<close>

text \<open>
  \<open>table\<close> is what is committed, \<open>put\<close> what one sample makes of it.  An insert stores the whole batch or
  nothing of it.
\<close>

locale metrics_store =
  fixes ops :: "('s, 'd) metrics_store_ops"
    and table :: "'s \<Rightarrow> 'r list"
    and put :: "u32 \<Rightarrow> 'd system_metrics \<Rightarrow> 'r list \<Rightarrow> 'r list"
  assumes insert_stores: "ms_insert ops E s ms pid = (s', None) \<Longrightarrow> table s' = fold (put pid) ms (table s)"
    and insert_fails: "ms_insert ops E s ms pid = (s', Some e) \<Longrightarrow> table s' = table s"
begin

lemma insert_all_or_nothing:
  "table (fst (ms_insert ops E s ms pid)) =
     (case snd (ms_insert ops E s ms pid) of None \<Rightarrow> fold (put pid) ms (table s) | Some _ \<Rightarrow> table s)"
  using insert_stores insert_fails by (cases "ms_insert ops E s ms pid") (auto split: option.split)

end

lemma sqlite_put_rows_fold:
  "sqlite_put_rows C E pid i ms rows = Inr rows' \<Longrightarrow>
     rows' = fold (\<lambda>m. replace_row (sqlite_metric_row C pid m)) ms rows"
  by (induction ms arbitrary: i rows) (auto split: option.splits)

lemma duck_put_rows_append:
  "duck_put_rows C E pid i ms rows = Inr rows' \<Longrightarrow> rows' = fold (\<lambda>m rows. rows @ [duck_metric_row C pid m]) ms rows"
  by (induction ms arbitrary: i rows) (auto simp: Let_def split: option.splits if_splits)

lemma sqlite_insert_metrics_cases:
  assumes "sqlite_insert_metrics C E rows ms pid = (rows', err)"
  shows "rows' = (case err of None \<Rightarrow> fold (\<lambda>m. replace_row (sqlite_metric_row C pid m)) ms rows | Some _ \<Rightarrow> rows)"
  using assms sqlite_put_rows_fold [of C E pid 0 ms rows]
  by (auto simp: sqlite_insert_metrics_def split: if_splits option.splits sum.splits)

lemma duck_insert_metrics_cases:
  assumes "duck_insert_metrics C E s ms pid = (s', err)"
  shows "dm_rows s' = (case err of None \<Rightarrow> fold (\<lambda>m rows. rows @ [duck_metric_row C pid m]) ms (dm_rows s)
    | Some _ \<Rightarrow> dm_rows s)"
  using assms duck_put_rows_append [of C E pid 0 ms "dm_rows s"]
  by (auto simp: duck_insert_metrics_def split: if_splits option.splits sum.splits)

interpretation sqlite_ms: metrics_store "sqlite_metrics_store C" "\<lambda>rows. rows"
    "\<lambda>pid m. replace_row (sqlite_metric_row C pid m)" for C
  by unfold_locales (auto simp: sqlite_metrics_store_def dest: sqlite_insert_metrics_cases)

interpretation duck_ms: metrics_store "duck_metrics_store C" dm_rows
    "\<lambda>pid m rows. rows @ [duck_metric_row C pid m]" for C
  by unfold_locales (auto simp: duck_metrics_store_def dest: duck_insert_metrics_cases)

section \<open>Lemmas: queries\<close>

lemma insort_key_map: "insort_key f (g x) (map g xs) = map g (insort_key (\<lambda>x. f (g x)) x xs)"
  by (induction xs) auto

lemma sort_key_map: "sort_key f (map g xs) = map g (sort_key (\<lambda>x. f (g x)) xs)"
  by (induction xs) (simp_all add: insort_key_map)

lemma sort_key_cong_le:
  assumes "\<And>x y. x \<in> set xs \<Longrightarrow> y \<in> set xs \<Longrightarrow> (f x \<le> f y) = (g x \<le> g y)"
  shows "sort_key f xs = sort_key g xs"
  using assms
proof (induction xs)
  case (Cons x xs)
  have "insort_key f x ys = insort_key g x ys" if "\<And>y. y \<in> set ys \<Longrightarrow> (f x \<le> f y) = (g x \<le> g y)" for ys
    using that by (induction ys) auto
  from this [of "sort_key g xs"] Cons show ?case by simp
qed simp

text \<open>Rows with new keys are added at the end.\<close>

lemma fold_replace_row:
  assumes "distinct (map row_key rows @ map (\<lambda>m. row_key (f m)) ms)"
  shows "fold (\<lambda>m. replace_row (f m)) ms rows = rows @ map f ms"
  using assms
proof (induction ms arbitrary: rows)
  case (Cons m ms)
  then have "filter (\<lambda>r'. row_key r' \<noteq> row_key (f m)) rows = rows"
    by (auto simp: filter_id_conv rev_image_eqI)
  with Cons.IH [of "rows @ [f m]"] Cons.prems show ?case by (simp add: replace_row_def)
qed simp

lemma sqlite_metric_reread:
  "co_time_of C (co_time C (sm_timestamp m)) = Inr (sm_timestamp m) \<Longrightarrow>
     sqlite_metric_of_row C (sqlite_metric_row C pid m) = Inr m"
  by (simp add: sqlite_metric_of_row_def sqlite_metric_row_def)

lemma sqlite_metric_row_fields [simp]:
  "mw_pid (sqlite_metric_row C pid m) = uint pid" "mw_timestamp (sqlite_metric_row C pid m) = co_time C (sm_timestamp m)"
  "row_key (sqlite_metric_row C pid m) = (co_time C (sm_timestamp m), uint pid)"
  by (simp_all add: sqlite_metric_row_def row_key_def)

lemma sorted_rows:
  assumes "time_codec C T" and "sm_timestamp ` set ms \<subseteq> T"
  shows "sort_key mw_timestamp (map (sqlite_metric_row C pid) ms) = map (sqlite_metric_row C pid) (sort_key sm_timestamp ms)"
proof -
  have "(co_time C (sm_timestamp x) \<le> co_time C (sm_timestamp y)) = (sm_timestamp x \<le> sm_timestamp y)"
    if "x \<in> set ms" "y \<in> set ms" for x y
    using assms that unfolding time_codec_def by blast
  then have "sort_key (\<lambda>m. co_time C (sm_timestamp m)) ms = sort_key sm_timestamp ms"
    by (rule sort_key_cong_le)
  then show ?thesis by (simp add: sort_key_map)
qed

lemma collect_metrics:
  assumes "time_codec C T" and "sm_timestamp ` set ms \<subseteq> T"
  shows "collect_rows (sqlite_metric_of_row C) (map (sqlite_metric_row C pid) ms) = Inr ms"
  using assms by (induction ms) (auto simp: time_codec_def sqlite_metric_reread)

text \<open>
  A table with samples of any processes, and those of one of them.  To a query the rows of other processes are not
  there.
\<close>

definition sqlite_table :: "'f codec \<Rightarrow> (u32 \<times> 'd system_metrics) list \<Rightarrow> 'd sqlite_metrics" where
  "sqlite_table C pms = map (\<lambda>(p, m). sqlite_metric_row C p m) pms"

definition samples_of_pid :: "u32 \<Rightarrow> (u32 \<times> 'd system_metrics) list \<Rightarrow> 'd system_metrics list" where
  "samples_of_pid pid pms = map snd (filter (\<lambda>pm. fst pm = pid) pms)"

lemma filter_sqlite_table:
  "filter (\<lambda>r. mw_pid r = uint pid \<and> P r) (sqlite_table C pms) =
     filter P (map (sqlite_metric_row C pid) (samples_of_pid pid pms))"
  by (induction pms) (auto simp: sqlite_table_def samples_of_pid_def dest: word_uint_eqI)

lemma sqlite_range_own_rows:
  "sqlite_metrics_in_range C fault (sqlite_table C pms) pid start_time end_time =
     sqlite_metrics_in_range C fault (map (sqlite_metric_row C pid) (samples_of_pid pid pms)) pid start_time end_time"
  unfolding sqlite_metrics_in_range_def filter_sqlite_table by (cases fault) (simp_all add: filter_map comp_def)

lemma sqlite_limit_own_rows:
  "sqlite_metrics_for_pid C fault (sqlite_table C pms) pid limit =
     sqlite_metrics_for_pid C fault (map (sqlite_metric_row C pid) (samples_of_pid pid pms)) pid limit"
  using filter_sqlite_table [of pid "\<lambda>_. True" C pms]
  by (cases fault) (simp_all add: sqlite_metrics_for_pid_def filter_map comp_def)

text \<open>Both queries on a table that holds the samples of one process.\<close>

lemma sqlite_range_reread:
  assumes "time_codec C T" and "sm_timestamp ` set ms \<subseteq> T" and "start_time \<in> T" and "end_time \<in> T"
  shows "sqlite_metrics_in_range C None (map (sqlite_metric_row C pid) ms) pid start_time end_time =
    Inr (sort_key sm_timestamp (filter (\<lambda>m. start_time \<le> sm_timestamp m \<and> sm_timestamp m \<le> end_time) ms))"
proof -
  have "filter (\<lambda>m. co_time C start_time \<le> co_time C (sm_timestamp m) \<and> co_time C (sm_timestamp m) \<le> co_time C end_time) ms =
      filter (\<lambda>m. start_time \<le> sm_timestamp m \<and> sm_timestamp m \<le> end_time) ms"
    using assms unfolding time_codec_def by (intro filter_cong) (auto dest!: subsetD [of "sm_timestamp ` set ms"])
  moreover have "sm_timestamp ` set (filter P ms) \<subseteq> T" for P
    using assms(2) by auto
  ultimately show ?thesis
    using assms(1) by (simp add: sqlite_metrics_in_range_def filter_map comp_def sorted_rows collect_metrics)
qed

lemma sqlite_limit_reread:
  assumes "time_codec C T" and "sm_timestamp ` set ms \<subseteq> T"
  shows "sqlite_metrics_for_pid C None (map (sqlite_metric_row C pid) ms) pid (Some limit) =
    Inr (take (unat limit) (rev (sort_key sm_timestamp ms)))"
proof -
  have sub: "set (take (unat limit) (rev (sort_key sm_timestamp ms))) \<subseteq> set ms"
    using set_take_subset by fastforce
  have "sm_timestamp ` set (take (unat limit) (rev (sort_key sm_timestamp ms))) \<subseteq> T"
    using image_mono [OF sub] assms(2) by (rule order_trans)
  with assms(1) have "collect_rows (sqlite_metric_of_row C)
      (map (sqlite_metric_row C pid) (take (unat limit) (rev (sort_key sm_timestamp ms)))) =
    Inr (take (unat limit) (rev (sort_key sm_timestamp ms)))"
    by (rule collect_metrics)
  then show ?thesis
    using sorted_rows [OF assms, of pid]
    by (simp add: sqlite_metrics_for_pid_def filter_map comp_def limit_rows_def take_map rev_map)
qed

end
