(* ===== verification/System_Tracker.thy ===== *)
theory System_Tracker
  imports Metrics_Store Sqlite_Storage
begin

text \<open>
  The system tracker, src/daemon/tracker/system.rs: a thread that samples the daemon's own CPU, memory
  and disk use, buffers the samples, stores them in batches, and answers flush requests and queries
  between two samples.  The store is a value of the trait of \<open>Metrics_Store\<close>.

  One round of the thread's loop is a step; the messages it finds, the readings of \<open>ps\<close> and
  \<open>proc_pid_rusage\<close>, the clock and the answers of the store are its input.  The channel of a flush
  acknowledgement is a number.  The second half is the life of the tracker: its threads, the senders
  the API keeps, and \<open>start\<close> and \<open>stop\<close>.
\<close>

section \<open>Sampling\<close>

text \<open>
  What \<open>ps\<close> prints for CPU and resident memory, parsed or an error, the bytes read and written if
  \<open>proc_pid_rusage\<close> succeeds, and the clock.
\<close>

record 'd proc_reading =
  pr_cpu :: "string + 'd"
  pr_rss_kb :: "string + u64"
  pr_rusage :: "(u64 \<times> u64) option"
  pr_now :: instant

definition get_memory_usage :: "'d proc_reading \<Rightarrow> string + u64" where
  "get_memory_usage R = (case pr_rss_kb R of Inl e \<Rightarrow> Inl e | Inr rss_kb \<Rightarrow> Inr (rss_kb * 1024))"

definition get_disk_io :: "'d proc_reading \<Rightarrow> u64" where
  "get_disk_io R = (case pr_rusage R of Some (bytes_read, bytes_written) \<Rightarrow> bytes_read + bytes_written | None \<Rightarrow> 0)"

definition collect_system_metrics :: "'d proc_reading \<Rightarrow> u64 \<Rightarrow> string + 'd \<times> u64 \<times> u64 \<times> u64" where
  "collect_system_metrics R last_disk_io = (case pr_cpu R of
      Inl e \<Rightarrow> Inl e
    | Inr cpu_percent \<Rightarrow> (case get_memory_usage R of
        Inl e \<Rightarrow> Inl e
      | Inr memory_bytes \<Rightarrow>
          (let current_disk_io = get_disk_io R;
               disk_io_delta = (if last_disk_io \<le> current_disk_io then current_disk_io - last_disk_io else current_disk_io)
           in Inr (cpu_percent, memory_bytes, disk_io_delta, current_disk_io))))"

section \<open>The thread\<close>

datatype metrics_query = ByLimit u32 u64 | ByRange u32 instant instant

datatype control_msg = CtlStop | CtlFlush nat

record ('s, 'd) tracker =
  tk_store :: 's
  tk_buffer :: "'d system_metrics list"
  tk_last_disk_io :: u64
  tk_batch_count :: u64
  tk_running :: bool
  tk_pending :: "nat list"

text \<open>The input of a round: messages, whether the control channel is found disconnected, a reading, answers.\<close>

record 'd tracker_round =
  ti_control :: "control_msg list"
  ti_disconnected :: bool
  ti_reading :: "'d proc_reading"
  ti_batch :: store_answers
  ti_flush :: store_answers
  ti_queries :: "(metrics_query \<times> store_answers \<times> string option) list"

text \<open>What a round sends: acknowledgements, then replies.\<close>

record 'd tracker_sends =
  to_acks :: "nat list"
  to_replies :: "(string + 'd system_metrics list) list"

definition tracker_push :: "'d proc_reading \<Rightarrow> 'd \<times> u64 \<times> u64 \<times> u64 \<Rightarrow> ('s, 'd) tracker \<Rightarrow> ('s, 'd) tracker" where
  "tracker_push R sample t = (case sample of (cpu_percent, memory_bytes, disk_io_delta, current_total_disk_io) \<Rightarrow>
     t\<lparr> tk_last_disk_io := current_total_disk_io,
        tk_buffer := tk_buffer t @ [\<lparr> sm_timestamp = pr_now R, sm_cpu_percent = cpu_percent,
          sm_memory_bytes = memory_bytes, sm_disk_io_bytes = disk_io_delta \<rparr>],
        tk_batch_count := tk_batch_count t + 1 \<rparr>)"

definition tracker_new_thread :: "'s \<Rightarrow> 'd proc_reading \<Rightarrow> ('s, 'd) tracker" where
  "tracker_new_thread store R =
     (let t = \<lparr> tk_store = store, tk_buffer = [], tk_last_disk_io = 0, tk_batch_count = 0, tk_running = True, tk_pending = [] \<rparr>
      in case collect_system_metrics R 0 of Inl _ \<Rightarrow> t | Inr sample \<Rightarrow> tracker_push R sample t)"

fun tracker_control :: "control_msg list \<Rightarrow> ('s, 'd) tracker \<Rightarrow> ('s, 'd) tracker" where
  "tracker_control [] t = t"
| "tracker_control (CtlStop # ms) t = tracker_control ms (t\<lparr> tk_running := False \<rparr>)"
| "tracker_control (CtlFlush ack # ms) t = tracker_control ms (t\<lparr> tk_pending := tk_pending t @ [ack] \<rparr>)"

definition store_buffer :: "('s, 'd) metrics_store_ops \<Rightarrow> u32 \<Rightarrow> store_answers \<Rightarrow> ('s, 'd) tracker \<Rightarrow> ('s, 'd) tracker" where
  "store_buffer ops pid E t = (case ms_insert ops E (tk_store t) (tk_buffer t) pid of
      (s, Some _) \<Rightarrow> t\<lparr> tk_store := s \<rparr>
    | (s, None) \<Rightarrow> t\<lparr> tk_store := s, tk_buffer := [] \<rparr>)"

definition flush_buffer :: "('s, 'd) metrics_store_ops \<Rightarrow> u32 \<Rightarrow> store_answers \<Rightarrow> ('s, 'd) tracker \<Rightarrow> ('s, 'd) tracker" where
  "flush_buffer ops pid E t = (if tk_buffer t = [] then t else store_buffer ops pid E t)"

text \<open>The sample of a round; \<open>None\<close> is the panic of the remainder by zero.\<close>

definition tracker_sample ::
  "('s, 'd) metrics_store_ops \<Rightarrow> u32 \<Rightarrow> u64 \<Rightarrow> 'd tracker_round \<Rightarrow> ('s, 'd) tracker \<Rightarrow> ('s, 'd) tracker option" where
  "tracker_sample ops pid batch_size I t = (case collect_system_metrics (ti_reading I) (tk_last_disk_io t) of
      Inl _ \<Rightarrow> Some t
    | Inr sample \<Rightarrow>
        (let t1 = tracker_push (ti_reading I) sample t in
         if batch_size = 0 then None
         else if tk_batch_count t1 mod batch_size = 0 then Some (store_buffer ops pid (ti_batch I) t1) else Some t1))"

definition tracker_acknowledge ::
  "('s, 'd) metrics_store_ops \<Rightarrow> u32 \<Rightarrow> store_answers \<Rightarrow> ('s, 'd) tracker \<Rightarrow> ('s, 'd) tracker \<times> nat list" where
  "tracker_acknowledge ops pid E t =
     (if tk_pending t = [] then (t, []) else ((flush_buffer ops pid E t)\<lparr> tk_pending := [] \<rparr>, tk_pending t))"

definition tracker_query ::
  "('s, 'd) metrics_store_ops \<Rightarrow> metrics_query \<Rightarrow> string option \<Rightarrow> 's \<Rightarrow> string + 'd system_metrics list" where
  "tracker_query ops q fault s = (case q of
      ByLimit pid limit \<Rightarrow> (case ms_for_pid ops fault s pid (Some limit) of Inl e \<Rightarrow> Inl e | Inr rows \<Rightarrow> Inr (rev rows))
    | ByRange pid start_time end_time \<Rightarrow> ms_in_range ops fault s pid start_time end_time)"

fun tracker_queries ::
  "('s, 'd) metrics_store_ops \<Rightarrow> u32 \<Rightarrow> (metrics_query \<times> store_answers \<times> string option) list \<Rightarrow> ('s, 'd) tracker \<Rightarrow>
   ('s, 'd) tracker \<times> (string + 'd system_metrics list) list" where
  "tracker_queries ops pid [] t = (t, [])"
| "tracker_queries ops pid ((q, E, fault) # qs) t =
     (let t1 = flush_buffer ops pid E t; (t2, replies) = tracker_queries ops pid qs t1
      in (t2, tracker_query ops q fault (tk_store t1) # replies))"

definition tracker_step ::
  "('s, 'd) metrics_store_ops \<Rightarrow> u32 \<Rightarrow> u64 \<Rightarrow> 'd tracker_round \<Rightarrow> ('s, 'd) tracker \<Rightarrow>
   (('s, 'd) tracker \<times> 'd tracker_sends) option" where
  "tracker_step ops pid batch_size I t =
     (let t1 = tracker_control (ti_control I) t;
          t2 = (if ti_disconnected I then t1\<lparr> tk_running := False \<rparr> else t1)
      in case tracker_sample ops pid batch_size I t2 of
           None \<Rightarrow> None
         | Some t3 \<Rightarrow>
             (let (t4, acks) = tracker_acknowledge ops pid (ti_flush I) t3;
                  (t5, replies) = tracker_queries ops pid (ti_queries I) t4
              in Some (t5, \<lparr> to_acks = acks, to_replies = replies \<rparr>)))"

text \<open>The rounds of the loop, as many as there is input for; the last element is the state after them.\<close>

fun tracker_run ::
  "('s, 'd) metrics_store_ops \<Rightarrow> u32 \<Rightarrow> u64 \<Rightarrow> 'd tracker_round list \<Rightarrow> ('s, 'd) tracker \<Rightarrow>
   (('s, 'd) tracker \<times> 'd tracker_sends list) option" where
  "tracker_run ops pid batch_size [] t = Some (t, [])"
| "tracker_run ops pid batch_size (I # Is) t =
     (if \<not> tk_running t then Some (t, [])
      else case tracker_step ops pid batch_size I t of
        None \<Rightarrow> None
      | Some (t', sends) \<Rightarrow> (case tracker_run ops pid batch_size Is t' of
          None \<Rightarrow> None
        | Some (t'', rest) \<Rightarrow> Some (t'', sends # rest)))"

text \<open>The end of the thread: what is left in the buffer is stored or dropped with it.\<close>

definition tracker_finish :: "('s, 'd) metrics_store_ops \<Rightarrow> u32 \<Rightarrow> store_answers \<Rightarrow> ('s, 'd) tracker \<Rightarrow> 's" where
  "tracker_finish ops pid E t =
     (if tk_buffer t = [] then tk_store t else fst (ms_insert ops E (tk_store t) (tk_buffer t) pid))"

section \<open>Specification\<close>

text \<open>The samples of a sequence of readings.\<close>

fun samples_of :: "u64 \<Rightarrow> 'd proc_reading list \<Rightarrow> 'd system_metrics list" where
  "samples_of last_disk_io [] = []"
| "samples_of last_disk_io (R # Rs) = (case collect_system_metrics R last_disk_io of
      Inl _ \<Rightarrow> samples_of last_disk_io Rs
    | Inr (cpu_percent, memory_bytes, disk_io_delta, current) \<Rightarrow>
        \<lparr> sm_timestamp = pr_now R, sm_cpu_percent = cpu_percent, sm_memory_bytes = memory_bytes,
          sm_disk_io_bytes = disk_io_delta \<rparr> # samples_of current Rs)"

definition reading_ok :: "'d proc_reading \<Rightarrow> bool" where
  "reading_ok R = (case (pr_cpu R, pr_rss_kb R) of (Inr _, Inr _) \<Rightarrow> True | _ \<Rightarrow> False)"

definition flush_requests :: "control_msg list \<Rightarrow> nat list" where
  "flush_requests ms = List.map_filter (\<lambda>m. case m of CtlFlush ack \<Rightarrow> Some ack | CtlStop \<Rightarrow> None) ms"

text \<open>The sum of the counter before each of its falls.\<close>

fun lost_counts :: "u64 \<Rightarrow> u64 list \<Rightarrow> int" where
  "lost_counts last_total [] = 0"
| "lost_counts last_total (c # cs) = (if last_total \<le> c then 0 else uint last_total) + lost_counts c cs"

section \<open>Lemmas: one round\<close>

definition disk_total :: "u64 \<Rightarrow> 'd proc_reading \<Rightarrow> u64" where
  "disk_total last_disk_io R = (if reading_ok R then get_disk_io R else last_disk_io)"

lemma collect_ok:
  "collect_system_metrics R l = (if reading_ok R then Inr (projr (pr_cpu R), projr (get_memory_usage R),
       if l \<le> get_disk_io R then get_disk_io R - l else get_disk_io R, get_disk_io R)
     else Inl (case pr_cpu R of Inl e \<Rightarrow> e | Inr _ \<Rightarrow> projl (pr_rss_kb R)))"
  by (auto simp: collect_system_metrics_def reading_ok_def get_memory_usage_def Let_def split: sum.splits)

lemma samples_of_Cons: "samples_of l (R # Rs) = samples_of l [R] @ samples_of (disk_total l R) Rs"
  by (simp add: collect_ok disk_total_def)

lemma store_buffer_fields [simp]:
  "tk_last_disk_io (store_buffer ops pid E t) = tk_last_disk_io t" "tk_pending (store_buffer ops pid E t) = tk_pending t"
  "tk_running (store_buffer ops pid E t) = tk_running t" "tk_batch_count (store_buffer ops pid E t) = tk_batch_count t"
  by (simp_all add: store_buffer_def split: prod.split option.split)

lemma flush_buffer_fields [simp]:
  "tk_last_disk_io (flush_buffer ops pid E t) = tk_last_disk_io t" "tk_pending (flush_buffer ops pid E t) = tk_pending t"
  "tk_running (flush_buffer ops pid E t) = tk_running t" "tk_batch_count (flush_buffer ops pid E t) = tk_batch_count t"
  by (simp_all add: flush_buffer_def)

lemma tracker_control_fields [simp]:
  "tk_store (tracker_control ms t) = tk_store t" "tk_buffer (tracker_control ms t) = tk_buffer t"
  "tk_last_disk_io (tracker_control ms t) = tk_last_disk_io t" "tk_batch_count (tracker_control ms t) = tk_batch_count t"
  "tk_pending (tracker_control ms t) = tk_pending t @ flush_requests ms"
  "tk_running (tracker_control ms t) = (tk_running t \<and> CtlStop \<notin> set ms)"
  by (induction ms t rule: tracker_control.induct) (auto simp: flush_requests_def map_filter_simps)

lemma tracker_acknowledge_fields [simp]:
  "tk_last_disk_io (fst (tracker_acknowledge ops pid E t)) = tk_last_disk_io t"
  "tk_pending (fst (tracker_acknowledge ops pid E t)) = []"
  "tk_running (fst (tracker_acknowledge ops pid E t)) = tk_running t"
  "snd (tracker_acknowledge ops pid E t) = tk_pending t"
  by (simp_all add: tracker_acknowledge_def)

lemma tracker_queries_fields [simp]:
  "tk_last_disk_io (fst (tracker_queries ops pid qs t)) = tk_last_disk_io t"
  "tk_pending (fst (tracker_queries ops pid qs t)) = tk_pending t"
  "tk_running (fst (tracker_queries ops pid qs t)) = tk_running t"
  "length (snd (tracker_queries ops pid qs t)) = length qs"
  by (induction ops pid qs t rule: tracker_queries.induct) (simp_all add: Let_def split_beta)

lemma tracker_sample_fields:
  assumes "tracker_sample ops pid bs I t = Some t'"
  shows "tk_last_disk_io t' = disk_total (tk_last_disk_io t) (ti_reading I)" "tk_pending t' = tk_pending t"
    "tk_running t' = tk_running t"
  using assms
  by (auto simp: tracker_sample_def collect_ok tracker_push_def disk_total_def Let_def split: if_splits)

text \<open>A round in its parts.\<close>

definition round_start :: "'d tracker_round \<Rightarrow> ('s, 'd) tracker \<Rightarrow> ('s, 'd) tracker" where
  "round_start I t = (let t1 = tracker_control (ti_control I) t in if ti_disconnected I then t1\<lparr> tk_running := False \<rparr> else t1)"

lemma round_start_fields [simp]:
  "tk_store (round_start I t) = tk_store t" "tk_buffer (round_start I t) = tk_buffer t"
  "tk_last_disk_io (round_start I t) = tk_last_disk_io t"
  "tk_pending (round_start I t) = tk_pending t @ flush_requests (ti_control I)"
  by (simp_all add: round_start_def Let_def)

lemma tracker_stepE:
  assumes "tracker_step ops pid bs I t = Some (t', sends)"
  obtains t3 where "tracker_sample ops pid bs I (round_start I t) = Some t3"
    and "t' = fst (tracker_queries ops pid (ti_queries I) (fst (tracker_acknowledge ops pid (ti_flush I) t3)))"
    and "to_acks sends = tk_pending t @ flush_requests (ti_control I)"
    and "to_replies sends = snd (tracker_queries ops pid (ti_queries I) (fst (tracker_acknowledge ops pid (ti_flush I) t3)))"
    and "tk_last_disk_io t' = disk_total (tk_last_disk_io t) (ti_reading I)" and "tk_pending t' = []"
proof -
  obtain t3 where 3: "tracker_sample ops pid bs I (round_start I t) = Some t3"
    using assms by (auto simp: tracker_step_def round_start_def Let_def split: option.splits)
  note f = tracker_sample_fields [OF 3]
  from 3 assms f that show thesis
    by (auto simp: tracker_step_def round_start_def Let_def split_beta split: option.splits)
qed

section \<open>Lemmas: nothing is lost or stored twice\<close>

text \<open>The samples so far are the buffer behind what the table has got.\<close>

definition holds_samples ::
  "('s \<Rightarrow> 'r list) \<Rightarrow> (u32 \<Rightarrow> 'd system_metrics \<Rightarrow> 'r list \<Rightarrow> 'r list) \<Rightarrow> 'r list \<Rightarrow> u32 \<Rightarrow> 'd system_metrics list \<Rightarrow> ('s, 'd) tracker \<Rightarrow> bool" where
  "holds_samples table ins tbl pid S t \<longleftrightarrow> (\<exists>stored. S = stored @ tk_buffer t \<and> table (tk_store t) = fold (ins pid) stored tbl)"

context metrics_store begin

lemma store_buffer_holds: "holds_samples table put tbl pid S t \<Longrightarrow> holds_samples table put tbl pid S (store_buffer ops pid E t)"
  using insert_all_or_nothing [of E "tk_store t" "tk_buffer t" pid]
  by (auto simp: holds_samples_def store_buffer_def split_beta split: option.split)

lemma flush_buffer_holds: "holds_samples table put tbl pid S t \<Longrightarrow> holds_samples table put tbl pid S (flush_buffer ops pid E t)"
  by (simp add: flush_buffer_def store_buffer_holds)

lemma holds_samples_cong:
  "tk_store t' = tk_store t \<Longrightarrow> tk_buffer t' = tk_buffer t \<Longrightarrow> holds_samples table put tbl pid S t' = holds_samples table put tbl pid S t"
  by (simp add: holds_samples_def)

lemma tracker_acknowledge_holds:
  "holds_samples table put tbl pid S t \<Longrightarrow> holds_samples table put tbl pid S (fst (tracker_acknowledge ops pid E t))"
  using flush_buffer_holds [of tbl pid S t E] by (simp add: tracker_acknowledge_def holds_samples_def)

lemma tracker_queries_holds:
  "holds_samples table put tbl pid S t \<Longrightarrow> holds_samples table put tbl pid S (fst (tracker_queries ops pid qs t))"
  by (induction qs arbitrary: t) (auto simp: Let_def split_beta flush_buffer_holds)

lemma tracker_sample_holds:
  assumes "holds_samples table put tbl pid S t" and "tracker_sample ops pid bs I t = Some t'"
  shows "holds_samples table put tbl pid (S @ samples_of (tk_last_disk_io t) [ti_reading I]) t'"
proof (cases "reading_ok (ti_reading I)")
  case True
  let ?R = "ti_reading I"
  let ?t = "tracker_push ?R (projr (collect_system_metrics ?R (tk_last_disk_io t))) t"
  have "holds_samples table put tbl pid (S @ samples_of (tk_last_disk_io t) [?R]) ?t"
    using assms(1) True by (auto simp: holds_samples_def tracker_push_def collect_ok)
  then show ?thesis
    using assms(2) True store_buffer_holds by (auto simp: tracker_sample_def collect_ok Let_def split: if_splits)
next
  case False
  with assms show ?thesis by (simp add: tracker_sample_def collect_ok)
qed

lemma tracker_step_holds:
  assumes "holds_samples table put tbl pid S t" and "tracker_step ops pid bs I t = Some (t', sends)"
  shows "holds_samples table put tbl pid (S @ samples_of (tk_last_disk_io t) [ti_reading I]) t'"
  using assms(2)
proof (rule tracker_stepE)
  fix t3
  assume 3: "tracker_sample ops pid bs I (round_start I t) = Some t3"
    and t': "t' = fst (tracker_queries ops pid (ti_queries I) (fst (tracker_acknowledge ops pid (ti_flush I) t3)))"
  have "holds_samples table put tbl pid S (round_start I t)"
    using assms(1) by (subst holds_samples_cong [of _ t]) simp_all
  from tracker_sample_holds [OF this 3] show ?thesis
    unfolding t' by (intro tracker_queries_holds tracker_acknowledge_holds) simp
qed

lemma tracker_run_holds:
  assumes "holds_samples table put tbl pid S t" and "tracker_run ops pid bs Is t = Some (t', sends)"
  shows "holds_samples table put tbl pid (S @ samples_of (tk_last_disk_io t) (map ti_reading (take (length sends) Is))) t'"
  using assms
proof (induction Is arbitrary: S t sends)
  case (Cons I Is)
  show ?case
  proof (cases "tk_running t")
    case True
    with Cons.prems(2) obtain t1 s1 rest where
      1: "tracker_step ops pid bs I t = Some (t1, s1)" and r: "tracker_run ops pid bs Is t1 = Some (t', rest)"
      and s: "sends = s1 # rest"
      by (auto split: option.splits)
    from 1 have l: "tk_last_disk_io t1 = disk_total (tk_last_disk_io t) (ti_reading I)" by (rule tracker_stepE)
    from Cons.IH [OF tracker_step_holds [OF Cons.prems(1) 1] r] show ?thesis
      unfolding l s length_Cons take_Suc_Cons list.map samples_of_Cons [of "tk_last_disk_io t" "ti_reading I" "map ti_reading (take (length rest) Is)"]
      by (simp only: append_assoc)
  next
    case False
    with Cons.prems show ?thesis by simp
  qed
qed simp

lemma tracker_new_thread_holds:
  "holds_samples table put (table store) pid (samples_of 0 [R]) (tracker_new_thread store R)"
  "tk_last_disk_io (tracker_new_thread store R) = disk_total 0 R" "tk_pending (tracker_new_thread store R) = []"
  "tk_running (tracker_new_thread store R)"
  by (auto simp: holds_samples_def tracker_new_thread_def collect_ok tracker_push_def disk_total_def Let_def)

lemma tracker_thread_holds:
  assumes "tracker_run ops pid bs Is (tracker_new_thread store R) = Some (t', sends)"
  shows "holds_samples table put (table store) pid (samples_of 0 (R # map ti_reading (take (length sends) Is))) t'"
  using tracker_run_holds [OF tracker_new_thread_holds(1) assms]
  by (subst samples_of_Cons) (simp only: tracker_new_thread_holds(2))

end

section \<open>Lemmas: acknowledgements, queries and the disk counter\<close>

lemma tracker_run_acks:
  "tracker_run ops pid bs Is t = Some (t', sends) \<Longrightarrow> tk_pending t = [] \<Longrightarrow>
     map to_acks sends = map (\<lambda>I. flush_requests (ti_control I)) (take (length sends) Is)
     \<and> map (length \<circ> to_replies) sends = map (length \<circ> ti_queries) (take (length sends) Is)"
proof (induction Is arbitrary: t sends)
  case (Cons I Is)
  show ?case
  proof (cases "tk_running t")
    case True
    with Cons.prems(1) obtain t1 s1 rest where
      1: "tracker_step ops pid bs I t = Some (t1, s1)" and r: "tracker_run ops pid bs Is t1 = Some (t', rest)"
      and s: "sends = s1 # rest"
      by (auto split: option.splits)
    from 1 have "tk_pending t1 = []" "to_acks s1 = flush_requests (ti_control I)"
      "length (to_replies s1) = length (ti_queries I)"
      using Cons.prems(2) by (auto elim!: tracker_stepE)
    with Cons.IH [OF r] show ?thesis by (simp add: s)
  qed (use Cons.prems in simp)
qed simp

text \<open>A round keeps what every insert keeps of the store.\<close>

lemma tracker_step_keeps:
  assumes keep: "\<And>E ms s. P s \<Longrightarrow> P (fst (ms_insert ops E s ms pid))"
    and "P (tk_store t)" and step: "tracker_step ops pid bs I t = Some (t', sends)"
  shows "P (tk_store t')"
  using step
proof (rule tracker_stepE)
  have st: "P (tk_store (store_buffer ops pid E t))" if "P (tk_store t)" for E t
    using keep [OF that, of E "tk_buffer t"] by (auto simp: store_buffer_def split: prod.splits option.splits)
  then have fl: "P (tk_store (flush_buffer ops pid E t))" if "P (tk_store t)" for E t
    using that by (simp add: flush_buffer_def)
  then have ack: "P (tk_store (fst (tracker_acknowledge ops pid E t)))" if "P (tk_store t)" for E t
    using that by (simp add: tracker_acknowledge_def)
  have qs: "P (tk_store (fst (tracker_queries ops pid qs t)))" if "P (tk_store t)" for qs t
    using that fl by (induction qs arbitrary: t) (auto simp: Let_def split_beta)
  fix t3
  assume 3: "tracker_sample ops pid bs I (round_start I t) = Some t3"
    and t': "t' = fst (tracker_queries ops pid (ti_queries I) (fst (tracker_acknowledge ops pid (ti_flush I) t3)))"
  have "P (tk_store t3)"
    using 3 assms(2) st by (auto simp: tracker_sample_def tracker_push_def Let_def split: sum.splits if_splits prod.splits)
  then show ?thesis unfolding t' by (intro qs ack)
qed

lemma tracker_run_keeps:
  assumes keep: "\<And>E ms s. P s \<Longrightarrow> P (fst (ms_insert ops E s ms pid))"
  shows "P (tk_store t) \<Longrightarrow> tracker_run ops pid bs Is t = Some (t', sends) \<Longrightarrow> P (tk_store t')"
proof (induction Is arbitrary: t sends)
  case (Cons I Is)
  show ?case
  proof (cases "tk_running t")
    case True
    with Cons.prems(2) obtain t1 s1 rest where
      1: "tracker_step ops pid bs I t = Some (t1, s1)" and r: "tracker_run ops pid bs Is t1 = Some (t', rest)"
      by (auto split: option.splits)
    from tracker_step_keeps [where P = P, OF keep Cons.prems(1) 1] r show ?thesis by (rule Cons.IH)
  qed (use Cons.prems in simp)
qed simp

text \<open>A transaction that is left open is never closed.\<close>

lemma duck_wedged:
  "dm_tx s \<noteq> MetricsNoTx \<Longrightarrow> fst (duck_insert_metrics C E s ms pid) = s"
  by (simp add: duck_insert_metrics_def)

lemma duck_insert_leaves_tx:
  assumes "duck_insert_metrics C E s ms pid = (s', Some e)"
    and "dm_tx s = MetricsNoTx" and "ma_begin_fail E = None" and "ma_commit_fail E = None"
  shows "dm_tx s' \<noteq> MetricsNoTx" and "dm_rows s' = dm_rows s"
  using assms by (auto simp: duck_insert_metrics_def split: if_splits option.splits sum.splits)

lemma uint_minus: "a \<le> b \<Longrightarrow> uint (b - a) = uint b - uint a" for a b :: u64
  by (simp add: uint_minus_simple_alt word_le_def)

section \<open>Properties of the thread\<close>

text \<open>
  C37: With the SQLite store a sample is kept exactly once: at any moment the samples taken are those
  that were put into the table, in order, followed by those in the buffer, whatever inserts failed on
  the way; when the thread ends the rest of the buffer is in the table as well or, if the last insert
  fails, lost.
\<close>
theorem tracker_keeps_samples:
  assumes "tracker_run (sqlite_metrics_store C) pid bs Is (tracker_new_thread rows R) = Some (t, sends)"
  shows "\<exists>stored. samples_of 0 (R # map ti_reading (take (length sends) Is)) = stored @ tk_buffer t
    \<and> tk_store t = fold (\<lambda>m. replace_row (sqlite_metric_row C pid m)) stored rows
    \<and> tracker_finish (sqlite_metrics_store C) pid E t =
        (case snd (sqlite_insert_metrics C E (tk_store t) (tk_buffer t) pid) of
           None \<Rightarrow> fold (\<lambda>m. replace_row (sqlite_metric_row C pid m)) (stored @ tk_buffer t) rows
         | Some _ \<Rightarrow> tk_store t)"
proof -
  from sqlite_ms.tracker_thread_holds [OF assms] obtain stored where
    s: "samples_of 0 (R # map ti_reading (take (length sends) Is)) = stored @ tk_buffer t"
    "tk_store t = fold (\<lambda>m. replace_row (sqlite_metric_row C pid m)) stored rows"
    unfolding holds_samples_def by blast
  moreover have "tracker_finish (sqlite_metrics_store C) pid E t = fst (sqlite_insert_metrics C E (tk_store t) (tk_buffer t) pid)"
    by (simp add: tracker_finish_def sqlite_metrics_store_def sqlite_insert_metrics_def)
  moreover note sqlite_insert_metrics_cases [of C E "tk_store t" "tk_buffer t" pid, OF surjective_pairing]
  ultimately show ?thesis by (intro exI [of _ stored]) (simp split: option.split)
qed

text \<open>
  Every flush request a round reads is acknowledged in that round and every query is answered,
  whatever the store does; in particular the acknowledgement is sent when the flush has failed and
  nothing is stored.
\<close>
theorem flush_is_acknowledged:
  assumes "tracker_run ops pid bs Is t = Some (t', sends)" and "tk_pending t = []"
  shows "map to_acks sends = map (\<lambda>I. flush_requests (ti_control I)) (take (length sends) Is)
    \<and> map (length \<circ> to_replies) sends = map (length \<circ> ti_queries) (take (length sends) Is)
    \<and> ((\<forall>E s ms. fst (ms_insert ops E s ms pid) = s) \<longrightarrow> tk_store t' = tk_store t)"
  using tracker_run_acks [OF assms] tracker_run_keeps [where P = "\<lambda>s. s = tk_store t", OF _ refl assms(1)] by simp

text \<open>
  C38: A DuckDB store that has failed once to store a batch it had begun never stores anything again: the
  transaction stays open, so every later batch fails at its \<open>BEGIN\<close>; whatever the tracker goes on
  to sample stays in its buffer and is lost when the thread ends, while every flush request a round reads is
  acknowledged in that round and no other is.  The store is one whose insert failed at a row (not at \<open>BEGIN\<close> or
  \<open>COMMIT\<close>), and no request is waiting when the rounds begin.
\<close>
theorem duck_tracker_wedges:
  assumes failed: "duck_insert_metrics C E s ms pid = (tk_store t, Some e)"
    and "dm_tx s = MetricsNoTx" and "ma_begin_fail E = None" and "ma_commit_fail E = None"
    and run: "tracker_run (duck_metrics_store C) pid bs Is t = Some (t', sends)" and "tk_pending t = []"
  shows "tk_store t' = tk_store t \<and> dm_rows (tk_store t) = dm_rows s
    \<and> tk_buffer t' = tk_buffer t @ samples_of (tk_last_disk_io t) (map ti_reading (take (length sends) Is))
    \<and> map to_acks sends = map (\<lambda>I. flush_requests (ti_control I)) (take (length sends) Is)
    \<and> tracker_finish (duck_metrics_store C) pid E' t' = tk_store t"
proof -
  let ?tbl = "dm_rows s"
  have tx: "dm_tx (tk_store t) \<noteq> MetricsNoTx" and rows: "dm_rows (tk_store t) = ?tbl"
    using duck_insert_leaves_tx [OF assms(1-4)] by simp_all
  have st: "tk_store t' = tk_store t"
    using tx duck_wedged by (intro tracker_run_keeps [where P = "\<lambda>s. s = tk_store t", OF _ refl run])
      (simp add: duck_metrics_store_def)
  have "holds_samples dm_rows (\<lambda>pid m rows. rows @ [duck_metric_row C pid m]) ?tbl pid (tk_buffer t) t"
    using rows by (simp add: holds_samples_def)
  from duck_ms.tracker_run_holds [OF this run] obtain stored where
    h: "tk_buffer t @ samples_of (tk_last_disk_io t) (map ti_reading (take (length sends) Is)) = stored @ tk_buffer t'"
    "dm_rows (tk_store t') = fold (\<lambda>m rows. rows @ [duck_metric_row C pid m]) stored ?tbl"
    unfolding holds_samples_def by blast
  have "length (fold (\<lambda>m rows. rows @ [duck_metric_row C pid m]) stored ?tbl) = length ?tbl + length stored"
    by (induction stored arbitrary: s rule: rev_induct) simp_all
  with h st rows have "stored = []" by simp
  with h st rows tx tracker_run_acks [OF run assms(6)] show ?thesis
    by (simp add: tracker_finish_def duck_metrics_store_def duck_wedged)
qed

text \<open>
  On an empty SQLite database, with clock readings that differ and texts that compare as instants, a
  range query whose flush succeeds is answered with every sample of the interval, ordered by time, and
  a limit query with the newest samples, oldest first.
\<close>
theorem tracker_queries_see_samples:
  assumes run: "tracker_run (sqlite_metrics_store C) pid bs Is (tracker_new_thread [] R) = Some (t, sends)"
    and S: "S = samples_of 0 (R # map ti_reading (take (length sends) Is))"
    and "distinct (map sm_timestamp S)" and codec: "time_codec C T" "sm_timestamp ` set S \<subseteq> T" "start_time \<in> T" "end_time \<in> T"
    and ok: "snd (sqlite_insert_metrics C E (tk_store t) (tk_buffer t) pid) = None"
  shows "snd (tracker_queries (sqlite_metrics_store C) pid [(ByRange pid start_time end_time, E, None), (ByLimit pid limit, E', None)] t) =
    [Inr (sort_key sm_timestamp (filter (\<lambda>m. start_time \<le> sm_timestamp m \<and> sm_timestamp m \<le> end_time) S)),
     Inr (rev (take (unat limit) (rev (sort_key sm_timestamp S))))]"
proof -
  let ?ops = "sqlite_metrics_store C"
  from sqlite_ms.tracker_thread_holds [OF run] obtain stored where
    s: "S = stored @ tk_buffer t" "tk_store t = fold (\<lambda>m. replace_row (sqlite_metric_row C pid m)) stored []"
    unfolding holds_samples_def S by blast
  have "inj_on (co_time C) T" using codec(1) by (auto simp: inj_on_def time_codec_def) (metis sum.inject(2))
  then have "inj_on (\<lambda>t. (co_time C t, uint pid)) (sm_timestamp ` set S)"
    using codec(2) by (auto intro!: inj_onI dest: inj_onD)
  with assms(3) have "distinct (map (\<lambda>m. (co_time C (sm_timestamp m), uint pid)) S)"
    by (simp add: distinct_map comp_inj_on_iff [symmetric] comp_def)
      (metis (mono_tags, lifting) comp_inj_on comp_def inj_on_cong)
  then have "fold (\<lambda>m. replace_row (sqlite_metric_row C pid m)) S [] = map (sqlite_metric_row C pid) S"
    using fold_replace_row [of "[]" "sqlite_metric_row C pid" S] by simp
  moreover have "tk_store (flush_buffer ?ops pid E t) = fold (\<lambda>m. replace_row (sqlite_metric_row C pid m)) S []"
    and "tk_buffer (flush_buffer ?ops pid E t) = []"
    using ok s sqlite_insert_metrics_cases [of C E "tk_store t" "tk_buffer t" pid, OF surjective_pairing]
    by (auto simp: flush_buffer_def store_buffer_def sqlite_metrics_store_def split: prod.split)
  ultimately have st: "tk_store (flush_buffer ?ops pid E t) = map (sqlite_metric_row C pid) S"
    and again: "flush_buffer ?ops pid E' (flush_buffer ?ops pid E t) = flush_buffer ?ops pid E t"
    by (simp_all add: flush_buffer_def)
  show ?thesis
    unfolding tracker_queries.simps Let_def again split_beta snd_conv fst_conv st
    using sqlite_range_reread [OF codec, of pid] sqlite_limit_reread [OF codec(1,2), of pid limit]
    by (simp add: tracker_query_def sqlite_metrics_store_def)
qed

text \<open>
  The disk deltas of a sequence of samples add up to the last total less the first, plus the total
  before each fall of the counter: a reading of \<open>proc_pid_rusage\<close> that fails counts as a total of zero, so
  after it everything read and written before is counted a second time.
\<close>
theorem disk_deltas_add_up:
  "sum_list (map (\<lambda>m. uint (sm_disk_io_bytes m)) (samples_of l Rs)) =
     uint (last (l # map get_disk_io (filter reading_ok Rs))) - uint l + lost_counts l (map get_disk_io (filter reading_ok Rs))"
proof (induction Rs arbitrary: l)
  case (Cons R Rs)
  show ?case
  proof (cases "reading_ok R")
    case True
    then show ?thesis
      using Cons.IH [of "get_disk_io R"] by (auto simp: collect_ok uint_minus)
  qed (use Cons.IH [of l] in \<open>simp add: collect_ok\<close>)
qed simp

section \<open>Witnesses\<close>

definition answers_ok :: store_answers where
  "answers_ok = \<lparr> ma_begin_fail = None, ma_prepare_fail = None, ma_prepare_aborts = False, ma_row_fail = (\<lambda>_. None),
     ma_commit_fail = None, ma_commit_leaves_tx = False, ma_message = ''Constraint Error'' \<rparr>"

definition demo_reading :: "instant \<Rightarrow> int proc_reading" where
  "demo_reading now = \<lparr> pr_cpu = Inr 3, pr_rss_kb = Inr 10, pr_rusage = Some (word_of_int (100 * now), 5), pr_now = now \<rparr>"

text \<open>Rounds in which flushes fail.\<close>

definition demo_round :: "instant \<Rightarrow> control_msg list \<Rightarrow> int tracker_round" where
  "demo_round now ctl = \<lparr> ti_control = ctl, ti_disconnected = False, ti_reading = demo_reading now,
     ti_batch = answers_ok, ti_flush = answers_ok\<lparr> ma_begin_fail := Some ''database is locked'' \<rparr>, ti_queries = [] \<rparr>"

definition demo_rounds :: "int tracker_round list" where
  "demo_rounds = [demo_round 2 [], demo_round 4 [CtlFlush 9, CtlStop]]"

lemmas demo_tracker_defs = demo_rounds_def demo_round_def demo_reading_def answers_ok_def tracker_new_thread_def
  collect_system_metrics_def get_memory_usage_def get_disk_io_def tracker_push_def tracker_step_def
  tracker_sample_def store_buffer_def tracker_acknowledge_def flush_buffer_def Let_def

lemma replicate_few: "replicate 2 c = [c, c]" "replicate 4 c = [c, c, c, c]"
  by (simp_all add: numeral_eq_Suc)

lemma demo_sqlite_tracker:
  "\<exists>t sends. tracker_run (sqlite_metrics_store demo_codec) 7 2 demo_rounds (tracker_new_thread [] (demo_reading 1)) = Some (t, sends)
   \<and> length sends = 2 \<and> length (tk_store t) = 2 \<and> length (tk_buffer t) = 1
   \<and> snd (sqlite_insert_metrics demo_codec answers_ok (tk_store t) (tk_buffer t) 7) = None"
  by (simp add: demo_tracker_defs sqlite_metrics_store_def sqlite_insert_metrics_def replace_row_def
      sqlite_metric_row_def demo_codec_def row_key_def replicate_few)

lemma demo_samples: "map sm_timestamp (samples_of 0 (demo_reading 1 # map ti_reading demo_rounds)) = [1, 2, 4]"
  by (simp add: demo_tracker_defs)

theorem tracker_keeps_samples_witness:
  "\<exists>t sends stored. tracker_run (sqlite_metrics_store demo_codec) 7 2 demo_rounds (tracker_new_thread [] (demo_reading 1)) = Some (t, sends)
     \<and> samples_of 0 (demo_reading 1 # map ti_reading demo_rounds) = stored @ tk_buffer t \<and> length stored = 2"
proof -
  obtain t sends where r: "tracker_run (sqlite_metrics_store demo_codec) 7 2 demo_rounds (tracker_new_thread [] (demo_reading 1)) = Some (t, sends)"
    "length sends = 2" "length (tk_buffer t) = 1" using demo_sqlite_tracker by blast
  have "take 2 demo_rounds = demo_rounds" by (simp add: demo_rounds_def)
  with tracker_keeps_samples [OF r(1), of answers_ok] r(2) obtain stored where
    st: "samples_of 0 (demo_reading 1 # map ti_reading demo_rounds) = stored @ tk_buffer t" by auto
  have "length stored = 2"
    using r(3) arg_cong [OF st, of length] arg_cong [OF demo_samples, of length] by simp
  with r(1) st show ?thesis by blast
qed

theorem flush_is_acknowledged_witness:
  "\<exists>t sends. tracker_run (sqlite_metrics_store demo_codec) 7 2 demo_rounds (tracker_new_thread [] (demo_reading 1)) = Some (t, sends)
     \<and> map to_acks sends = [[], [9]] \<and> length (tk_buffer t) = 1"
proof -
  obtain t sends where r: "tracker_run (sqlite_metrics_store demo_codec) 7 2 demo_rounds (tracker_new_thread [] (demo_reading 1)) = Some (t, sends)"
    "length sends = 2" "length (tk_buffer t) = 1" using demo_sqlite_tracker by blast
  with flush_is_acknowledged [OF r(1) sqlite_ms.tracker_new_thread_holds(3)] show ?thesis
    by (simp add: demo_rounds_def demo_round_def flush_requests_def map_filter_simps)
qed

theorem tracker_queries_see_samples_witness:
  "\<exists>t sends r1 r2. tracker_run (sqlite_metrics_store demo_codec) 7 2 demo_rounds (tracker_new_thread [] (demo_reading 1)) = Some (t, sends)
     \<and> snd (tracker_queries (sqlite_metrics_store demo_codec) 7 [(ByRange 7 2 9, answers_ok, None), (ByLimit 7 1, answers_ok, None)] t)
     = [Inr r1, Inr r2] \<and> map sm_timestamp r1 = [2, 4] \<and> map sm_timestamp r2 = [4]"
proof -
  let ?S = "samples_of 0 (demo_reading 1 # map ti_reading demo_rounds)"
  obtain t sends where r: "tracker_run (sqlite_metrics_store demo_codec) 7 2 demo_rounds (tracker_new_thread [] (demo_reading 1)) = Some (t, sends)"
    "length sends = 2" "snd (sqlite_insert_metrics demo_codec answers_ok (tk_store t) (tk_buffer t) 7) = None"
    using demo_sqlite_tracker by blast
  have S: "?S = samples_of 0 (demo_reading 1 # map ti_reading (take (length sends) demo_rounds))"
    by (simp add: r(2) demo_rounds_def)
  have d: "distinct (map sm_timestamp ?S)" unfolding demo_samples by simp
  have "sm_timestamp ` set ?S = {1, 2, 4}" using arg_cong [OF demo_samples, of set] by simp
  then have c: "time_codec demo_codec {1, 2, 4, 9}" "sm_timestamp ` set ?S \<subseteq> {1, 2, 4, 9}" "2 \<in> {1, 2, 4, 9::int}" "9 \<in> {1, 2, 4, 9::int}"
    by (auto intro: demo_time_codec)
  have "map sm_timestamp (sort_key sm_timestamp (filter (\<lambda>m. 2 \<le> sm_timestamp m \<and> sm_timestamp m \<le> 9) ?S)) = [2, 4]"
    "map sm_timestamp (rev (take (unat (1::u64)) (rev (sort_key sm_timestamp ?S)))) = [4]"
    by (simp_all add: demo_tracker_defs)
  with r(1) tracker_queries_see_samples [OF r(1) S d c r(3), of 1 answers_ok] show ?thesis by (intro exI conjI)
qed

text \<open>Two samples at one instant.\<close>

definition demo_failed :: "(int duck_metrics, int) tracker" where
  "demo_failed = (let ms = samples_of 0 [demo_reading 1, demo_reading 1] in
     \<lparr> tk_store = fst (duck_insert_metrics demo_codec answers_ok \<lparr> dm_rows = [], dm_tx = MetricsNoTx \<rparr> ms 7), tk_buffer = ms,
       tk_last_disk_io = 105, tk_batch_count = 2, tk_running = True, tk_pending = [] \<rparr>)"

theorem duck_tracker_wedges_witness:
  "\<exists>t sends. tracker_run (duck_metrics_store demo_codec) 7 2 [demo_round 4 [CtlFlush 9]] demo_failed = Some (t, sends)
     \<and> map to_acks sends = [[9]] \<and> dm_rows (tracker_finish (duck_metrics_store demo_codec) 7 answers_ok t) = [] \<and> length (tk_buffer t) = 3"
proof -
  have ins: "duck_insert_metrics demo_codec answers_ok \<lparr> dm_rows = [], dm_tx = MetricsNoTx \<rparr>
      (samples_of 0 [demo_reading 1, demo_reading 1]) 7 = (tk_store demo_failed, Some ''Constraint Error'')"
    by (simp add: demo_failed_def demo_tracker_defs duck_insert_metrics_def duck_accepts_def duck_metric_row_def demo_codec_def row_key_def)
  obtain t sends where r: "tracker_run (duck_metrics_store demo_codec) 7 2 [demo_round 4 [CtlFlush 9]] demo_failed = Some (t, sends)"
    "length sends = 1"
    by (simp add: demo_failed_def demo_tracker_defs duck_metrics_store_def duck_insert_metrics_def duck_accepts_def duck_metric_row_def
        demo_codec_def row_key_def)
  have p: "tk_pending demo_failed = []" by (simp add: demo_failed_def Let_def)
  from duck_tracker_wedges [OF ins _ _ _ r(1) p, of answers_ok] r show ?thesis
    by (simp add: answers_ok_def demo_round_def flush_requests_def map_filter_simps)
      (simp add: demo_failed_def demo_tracker_defs)
qed

end
