(* ===== verification/Tracker_Life.thy ===== *)
theory Tracker_Life
  imports System_Tracker
begin

text \<open>
  The life of the system tracker, src/daemon/tracker/system.rs: \<open>start\<close> spawns the tracker thread and two
  bridges that carry the requests of the asynchronous API into its channels, and hands the senders of
  the bridges to src/daemon/server/grpc.rs, which keeps the first it is given for the life of the
  process (\<open>OnceCell\<close>); \<open>stop\<close> sends a stop message and joins the three threads in turn.

  Trackers are numbered; whether a thread can be spawned is an input.  The settings of the thread are
  arguments of its model in \<open>System_Tracker\<close>.
\<close>

section \<open>Starting\<close>

record system_tracker =
  sy_started :: bool
  sy_control_tx :: bool
  sy_query_tx :: bool
  sy_control_bridge :: bool
  sy_query_bridge :: bool
  sy_thread :: bool

definition system_tracker_new :: system_tracker where
  "system_tracker_new = \<lparr> sy_started = False, sy_control_tx = False, sy_query_tx = False, sy_control_bridge = False,
     sy_query_bridge = False, sy_thread = False \<rparr>"

text \<open>The senders of the API.\<close>

record api_cells =
  ac_control :: "nat option"
  ac_query :: "nat option"

definition once_set :: "'a option \<Rightarrow> 'a \<Rightarrow> 'a option" where
  "once_set cell x = (case cell of None \<Rightarrow> Some x | Some y \<Rightarrow> Some y)"

definition set_system_tracker_control_tx :: "nat \<Rightarrow> api_cells \<Rightarrow> api_cells" where
  "set_system_tracker_control_tx tx cells = cells\<lparr> ac_control := once_set (ac_control cells) tx \<rparr>"

definition set_system_tracker_query_tx :: "nat \<Rightarrow> api_cells \<Rightarrow> api_cells" where
  "set_system_tracker_query_tx tx cells = cells\<lparr> ac_query := once_set (ac_query cells) tx \<rparr>"

text \<open>The arguments are the errors of the three spawns.\<close>

definition start_with_registry ::
  "string option \<Rightarrow> string option \<Rightarrow> string option \<Rightarrow> nat \<Rightarrow> system_tracker \<Rightarrow> api_cells \<Rightarrow>
   system_tracker \<times> api_cells \<times> string option" where
  "start_with_registry control_fail query_fail thread_fail n s cells =
     (if sy_started s then (s, cells, Some ''System tracker is already running'')
      else
        (let s1 = s\<lparr> sy_started := True, sy_control_tx := True, sy_query_tx := True \<rparr>;
             cells1 = set_system_tracker_control_tx n cells
         in case control_fail of
              Some e \<Rightarrow> (s1, cells1, Some e)
            | None \<Rightarrow>
                (let s2 = s1\<lparr> sy_control_bridge := True \<rparr>; cells2 = set_system_tracker_query_tx n cells1
                 in case query_fail of
                      Some e \<Rightarrow> (s2, cells2, Some e)
                    | None \<Rightarrow>
                        (let s3 = s2\<lparr> sy_query_bridge := True \<rparr>
                         in case thread_fail of
                              Some _ \<Rightarrow> (s3, cells2, Some ''spawn system tracker thread'')
                            | None \<Rightarrow> (s3\<lparr> sy_thread := True \<rparr>, cells2, None)))))"

definition is_running :: "system_tracker \<Rightarrow> bool" where
  "is_running s = sy_started s"

text \<open>\<open>flush\<close>: whether the tracker thread still has its receiver, and acknowledges within two seconds.\<close>

definition tracker_flush :: "bool \<Rightarrow> bool \<Rightarrow> system_tracker \<Rightarrow> string option" where
  "tracker_flush receiver acknowledged s =
     (if \<not> sy_control_tx s then Some ''Tracker control channel not available''
      else if \<not> receiver then Some ''Failed to send flush control message''
      else if \<not> acknowledged then Some ''Timed out waiting for tracker flush ack''
      else None)"

section \<open>Bridges and stopping\<close>

datatype control_request = ReqStop | ReqFlush nat

datatype stop_phase = NotStopping | JoinTracker | JoinControl | JoinQuery | StopDone

text \<open>The threads, the queues of the bridges, whether the API holds their senders, and the caller of \<open>stop\<close>.\<close>

record tracker_life =
  tl_thread :: bool
  tl_stop_sent :: bool
  tl_control_bridge :: bool
  tl_query_bridge :: bool
  tl_control_queue :: "control_request list"
  tl_query_queue :: "nat list"
  tl_control_held :: bool
  tl_query_held :: bool
  tl_stop :: stop_phase
  tl_acked :: "nat list"
  tl_offline :: "nat list"

text \<open>
  \<open>ForwardControl answered\<close> is an iteration of the control bridge; it waits for the answer to a flush,
  which is dropped when the thread ends first.  The thread ends after a stop message, or early when its
  store cannot be opened or a round panics.  \<open>JoinReturns\<close> is the return of the join \<open>stop\<close> waits in.
\<close>

datatype life_action =
    AskControl control_request
  | AskQuery nat
  | CallStop
  | ThreadEnds bool
  | ForwardControl bool
  | ForwardQuery
  | ControlDrained
  | QueryDrained
  | JoinReturns

fun control_bridge_step :: "bool \<Rightarrow> control_request \<Rightarrow> tracker_life \<Rightarrow> tracker_life" where
  "control_bridge_step answered ReqStop l =
     (if tl_thread l then l\<lparr> tl_stop_sent := True \<rparr> else l\<lparr> tl_control_bridge := False \<rparr>)"
| "control_bridge_step answered (ReqFlush ack) l =
     (if tl_thread l \<and> answered then l\<lparr> tl_acked := tl_acked l @ [ack] \<rparr>
      else l\<lparr> tl_thread := False, tl_acked := tl_acked l @ [ack], tl_control_bridge := False \<rparr>)"

definition query_bridge_step :: "nat \<Rightarrow> tracker_life \<Rightarrow> tracker_life" where
  "query_bridge_step q l =
     (if tl_thread l then l else l\<lparr> tl_offline := tl_offline l @ [q], tl_query_bridge := False \<rparr>)"

fun stop_joins :: "tracker_life \<Rightarrow> stop_phase option" where
  "stop_joins l = (case tl_stop l of
      JoinTracker \<Rightarrow> if tl_thread l then None else Some JoinControl
    | JoinControl \<Rightarrow> if tl_control_bridge l then None else Some JoinQuery
    | JoinQuery \<Rightarrow> if tl_query_bridge l then None else Some StopDone
    | _ \<Rightarrow> None)"

fun life_do :: "life_action \<Rightarrow> tracker_life \<Rightarrow> tracker_life option" where
  "life_do (AskControl r) l = (if tl_control_held l \<and> tl_control_bridge l
     then Some (l\<lparr> tl_control_queue := tl_control_queue l @ [r] \<rparr>) else None)"
| "life_do (AskQuery q) l = (if tl_query_held l \<and> tl_query_bridge l
     then Some (l\<lparr> tl_query_queue := tl_query_queue l @ [q] \<rparr>) else None)"
| "life_do CallStop l = (if tl_stop l = NotStopping then Some (l\<lparr> tl_stop_sent := True, tl_stop := JoinTracker \<rparr>) else None)"
| "life_do (ThreadEnds early) l = (if tl_thread l \<and> (early \<or> tl_stop_sent l) then Some (l\<lparr> tl_thread := False \<rparr>) else None)"
| "life_do (ForwardControl answered) l = (case tl_control_queue l of
      r # rest \<Rightarrow> if tl_control_bridge l
         then Some (control_bridge_step answered r (l\<lparr> tl_control_queue := rest \<rparr>)) else None
    | [] \<Rightarrow> None)"
| "life_do ForwardQuery l = (case tl_query_queue l of
      q # rest \<Rightarrow> if tl_query_bridge l then Some (query_bridge_step q (l\<lparr> tl_query_queue := rest \<rparr>)) else None
    | [] \<Rightarrow> None)"
| "life_do ControlDrained l = (if tl_control_bridge l \<and> tl_control_queue l = [] \<and> \<not> tl_control_held l
     then Some (l\<lparr> tl_control_bridge := False \<rparr>) else None)"
| "life_do QueryDrained l = (if tl_query_bridge l \<and> tl_query_queue l = [] \<and> \<not> tl_query_held l
     then Some (l\<lparr> tl_query_bridge := False \<rparr>) else None)"
| "life_do JoinReturns l = map_option (\<lambda>p. l\<lparr> tl_stop := p \<rparr>) (stop_joins l)"

inductive life_reach :: "(life_action \<Rightarrow> bool) \<Rightarrow> tracker_life \<Rightarrow> tracker_life \<Rightarrow> bool" for may where
  life_refl: "life_reach may l l"
| life_step: "life_reach may l l' \<Longrightarrow> may a \<Longrightarrow> life_do a l' = Some l'' \<Longrightarrow> life_reach may l l''"

text \<open>The threads after a successful start of tracker number \<open>n\<close>.\<close>

definition life_started :: "nat \<Rightarrow> api_cells \<Rightarrow> tracker_life" where
  "life_started n cells = \<lparr> tl_thread = True, tl_stop_sent = False, tl_control_bridge = True, tl_query_bridge = True,
     tl_control_queue = [], tl_query_queue = [], tl_control_held = (ac_control cells = Some n),
     tl_query_held = (ac_query cells = Some n), tl_stop = NotStopping, tl_acked = [], tl_offline = [] \<rparr>"

text \<open>\<open>stop\<close> as its caller sees it, once the joins have returned.\<close>

definition tracker_stopped :: "system_tracker \<Rightarrow> system_tracker \<times> string option" where
  "tracker_stopped s =
     (if \<not> sy_started s then (s, Some ''System tracker is not running'')
      else (s\<lparr> sy_started := False, sy_thread := False, sy_control_bridge := False, sy_query_bridge := False,
               sy_control_tx := False, sy_query_tx := False \<rparr>, None))"

section \<open>Lemmas\<close>

definition asks_control :: "life_action \<Rightarrow> bool" where
  "asks_control a \<longleftrightarrow> (\<exists>r. a = AskControl r)"

text \<open>Without a request the control bridge waits for a sender that never goes.\<close>

definition bridge_waits :: "tracker_life \<Rightarrow> bool" where
  "bridge_waits l \<longleftrightarrow> tl_control_bridge l \<and> tl_control_queue l = [] \<and> tl_control_held l
     \<and> tl_stop l \<in> {NotStopping, JoinTracker, JoinControl}"

lemma bridge_waits_step:
  assumes "bridge_waits l" and "life_do a l = Some l'" and "\<not> asks_control a"
  shows "bridge_waits l'"
  using assms
proof (cases a)
  case JoinReturns
  with assms show ?thesis by (cases "tl_stop l") (auto simp: bridge_waits_def split: if_splits)
qed (use assms in \<open>auto simp: bridge_waits_def asks_control_def query_bridge_step_def split: if_splits list.splits\<close>)

lemma bridge_waits_reach:
  "life_reach (\<lambda>a. \<not> asks_control a) l l' \<Longrightarrow> bridge_waits l \<Longrightarrow> bridge_waits l'"
  by (induction rule: life_reach.induct) (auto intro: bridge_waits_step)

text \<open>What is still to be done until \<open>stop\<close> returns.\<close>

fun phase_work :: "stop_phase \<Rightarrow> nat" where
  "phase_work NotStopping = 4"
| "phase_work JoinTracker = 3"
| "phase_work JoinControl = 2"
| "phase_work JoinQuery = 1"
| "phase_work StopDone = 0"

fun alive :: "bool \<Rightarrow> nat" where
  "alive True = 1"
| "alive False = 0"

definition life_work :: "tracker_life \<Rightarrow> nat" where
  "life_work l = phase_work (tl_stop l) + alive (tl_thread l) + alive (tl_control_bridge l) + alive (tl_query_bridge l)
     + length (tl_control_queue l) + length (tl_query_queue l)"

definition unheld :: "tracker_life \<Rightarrow> bool" where
  "unheld l \<longleftrightarrow> \<not> tl_control_held l \<and> \<not> tl_query_held l \<and> (tl_stop l \<noteq> NotStopping \<longrightarrow> tl_stop_sent l)"

lemma unheld_step:
  assumes "unheld l" and "life_do a l = Some l'"
  shows "unheld l' \<and> life_work l' < life_work l"
proof (cases a)
  case (ForwardControl answered)
  with assms obtain r rest where "tl_control_queue l = r # rest" by (cases "tl_control_queue l") auto
  with ForwardControl assms show ?thesis
    by (cases r) (auto simp: unheld_def life_work_def split: if_splits)
next
  case ForwardQuery
  with assms obtain q rest where "tl_query_queue l = q # rest" by (cases "tl_query_queue l") auto
  with ForwardQuery assms show ?thesis
    by (auto simp: unheld_def life_work_def query_bridge_step_def split: if_splits)
next
  case JoinReturns
  with assms show ?thesis
    by (cases "tl_stop l") (auto simp: unheld_def life_work_def split: if_splits)
qed (use assms in \<open>auto simp: unheld_def life_work_def split: if_splits\<close>)

lemma unheld_reach: "life_reach may l l' \<Longrightarrow> unheld l \<Longrightarrow> unheld l'"
  by (induction rule: life_reach.induct) (auto dest: unheld_step)

lemma unheld_stuck:
  assumes "unheld l" and stuck: "\<And>a. life_do a l = None"
  shows "tl_stop l = StopDone"
proof -
  have c: "\<not> tl_control_bridge l" if "\<not> tl_thread l"
    using stuck [of "ForwardControl True"] stuck [of ControlDrained] assms(1) that
    by (auto simp: unheld_def split: if_splits list.splits)
  have q: "\<not> tl_query_bridge l" if "\<not> tl_thread l"
    using stuck [of ForwardQuery] stuck [of QueryDrained] assms(1) that
    by (auto simp: unheld_def split: if_splits list.splits)
  show ?thesis
    using stuck [of CallStop] stuck [of "ThreadEnds False"] stuck [of JoinReturns] assms(1) c q
    by (cases "tl_stop l") (auto simp: unheld_def split: if_splits)
qed

section \<open>Property\<close>

text \<open>
  C39: The first tracker a process starts cannot be stopped while the API is idle: the API keeps a
  sender of the control bridge for ever, so the bridge waits for a request and \<open>stop\<close> waits for the
  bridge.  A tracker started while the cells hold another one's senders is out of reach of the API, but
  its \<open>stop\<close> comes to an end: there is no infinite run, and where no step is possible it has returned.  (The unit test
  \<open>test_tracker_lifecycle\<close> of tracker/system.rs is the first case, start, flush, stop, and expects \<open>stop\<close> to return:
  by the code it does not, for the cell of grpc.rs holds the sender that \<open>start\<close> has cloned into it.)
\<close>
theorem first_tracker_cannot_stop:
  assumes "start_with_registry None None None n system_tracker_new cells = (s, cells', None)"
  shows "(cells = \<lparr> ac_control = None, ac_query = None \<rparr> \<longrightarrow>
      (\<forall>l. life_reach (\<lambda>a. \<not> asks_control a) (life_started n cells') l \<longrightarrow> tl_control_bridge l \<and> tl_stop l \<noteq> StopDone))
    \<and> (\<forall>m k. cells = \<lparr> ac_control = Some m, ac_query = Some k \<rparr> \<and> m \<noteq> n \<and> k \<noteq> n \<longrightarrow>
      cells' = cells
      \<and> wf {(l', l). life_reach (\<lambda>_. True) (life_started n cells') l \<and> (\<exists>a. life_do a l = Some l')}
      \<and> (\<forall>l. life_reach (\<lambda>_. True) (life_started n cells') l \<longrightarrow> (\<forall>a. life_do a l = None) \<longrightarrow> tl_stop l = StopDone))"
proof (intro conjI impI allI; (elim conjE)?)
  have cells': "cells' = set_system_tracker_query_tx n (set_system_tracker_control_tx n cells)"
    using assms by (simp add: start_with_registry_def system_tracker_new_def Let_def)
  {
    fix l
    assume c: "cells = \<lparr> ac_control = None, ac_query = None \<rparr>" and r: "life_reach (\<lambda>a. \<not> asks_control a) (life_started n cells') l"
    have "bridge_waits (life_started n cells')"
      by (simp add: cells' c bridge_waits_def life_started_def set_system_tracker_control_tx_def set_system_tracker_query_tx_def once_set_def)
    from bridge_waits_reach [OF r this] show "tl_control_bridge l" "tl_stop l \<noteq> StopDone"
      by (auto simp: bridge_waits_def)
  }
  fix m k
  assume c: "cells = \<lparr> ac_control = Some m, ac_query = Some k \<rparr>" and mk: "m \<noteq> n" "k \<noteq> n"
  show kept: "cells' = cells"
    by (simp add: cells' c set_system_tracker_control_tx_def set_system_tracker_query_tx_def once_set_def)
  have "unheld (life_started n cells')"
    using mk by (simp add: kept) (simp add: c life_started_def unheld_def)
  then have u: "unheld l" if "life_reach (\<lambda>_. True) (life_started n cells') l" for l
    using unheld_reach [OF that] by simp
  have "life_work l' < life_work l" if "life_reach (\<lambda>_. True) (life_started n cells') l" "life_do a l = Some l'" for l l' a
    using unheld_step [OF u [OF that(1)] that(2)] by simp
  then show "wf {(l', l). life_reach (\<lambda>_. True) (life_started n cells') l \<and> (\<exists>a. life_do a l = Some l')}"
    by (intro wf_subset [OF wf_measure [of life_work]]) (auto simp del: life_do.simps)
  show "tl_stop l = StopDone" if "life_reach (\<lambda>_. True) (life_started n cells') l" "\<forall>a. life_do a l = None" for l
    using u [OF that(1)] that(2) by (intro unheld_stuck) auto
qed

text \<open>A start without errors, then the first tracker's state.\<close>

theorem first_tracker_cannot_stop_witness:
  "\<exists>l. life_reach (\<lambda>a. \<not> asks_control a) (life_started 1 \<lparr> ac_control = Some 1, ac_query = Some 1 \<rparr>) l
     \<and> tl_stop l = JoinControl \<and> \<not> tl_thread l \<and> tl_control_bridge l"
proof -
  let ?c = "\<lparr> ac_control = None, ac_query = None \<rparr>" and ?c' = "\<lparr> ac_control = Some 1, ac_query = Some 1 \<rparr>"
  have s: "start_with_registry None None None 1 system_tracker_new ?c =
      (fst (start_with_registry None None None 1 system_tracker_new ?c), ?c', None)"
    by (simp add: start_with_registry_def system_tracker_new_def set_system_tracker_control_tx_def
        set_system_tracker_query_tx_def once_set_def)
  let ?l = "(life_started 1 ?c')\<lparr> tl_thread := False, tl_stop_sent := True, tl_stop := JoinControl \<rparr>"
  have r: "life_reach (\<lambda>a. \<not> asks_control a) (life_started 1 ?c') ?l"
  proof (rule life_step [where a = JoinReturns])
    show "life_reach (\<lambda>a. \<not> asks_control a) (life_started 1 ?c') ((life_started 1 ?c')\<lparr> tl_thread := False, tl_stop_sent := True, tl_stop := JoinTracker \<rparr>)"
    proof (rule life_step [where a = "ThreadEnds False"])
      show "life_reach (\<lambda>a. \<not> asks_control a) (life_started 1 ?c') ((life_started 1 ?c')\<lparr> tl_stop_sent := True, tl_stop := JoinTracker \<rparr>)"
        by (rule life_step [OF life_refl, where a = CallStop]) (simp_all add: asks_control_def life_started_def)
    qed (simp_all add: asks_control_def life_started_def)
  qed (simp_all add: asks_control_def life_started_def)
  with first_tracker_cannot_stop [OF s] have "tl_control_bridge ?l" by blast
  with r show ?thesis by (intro exI [of _ ?l]) simp
qed

end
