(* ===== verification/Grpc_Server.thy ===== *)
theory Grpc_Server
  imports Snapshot_Bus Tracker_Life Std_Text
begin

text \<open>
  The gRPC server, src/daemon/server/grpc.rs, with the messages of proto/kroni.proto: the snapshot as
  the protocol sends it, timestamps, and the request for system metrics, which makes the tracker flush
  and then queries it.  Transport, sockets and the stream adapter are tonic's.

  What an await ends with is an input of the handler: the flush, and the answer to each query.  A
  message of the protocol is a record with a field for each field of the message; the instants chrono
  can hold are a parameter of the conversion from a timestamp.
\<close>

section \<open>Timestamps\<close>

record pb_timestamp =
  ts_seconds :: u64
  ts_nanos :: i32

text \<open>\<open>from_timestamp\<close> gives \<open>None\<close> for seconds out of the range of chrono, \<open>holds\<close>.\<close>

definition ts_to_utc :: "(int \<Rightarrow> bool) \<Rightarrow> pb_timestamp \<Rightarrow> string + instant" where
  "ts_to_utc holds ts =
     (let s = sint (ts_seconds ts); n = sint (ts_nanos ts) in
      if n < 0 \<or> 1000000000 \<le> n then Inl ''nanos out of range''
      else if holds s then Inr (secs s + n) else Inl ''invalid timestamp range'')"

definition utc_to_ts :: "instant \<Rightarrow> pb_timestamp" where
  "utc_to_ts t = \<lparr> ts_seconds = word_of_int (epoch_secs t), ts_nanos = word_of_int (subsec_nanos t) \<rparr>"

section \<open>Messages\<close>

datatype pb_state = PbUnknown | PbActive | PbPassive | PbInactive | PbLocked

record pb_position =
  pp_x :: i32
  pp_y :: i32

record pb_size =
  ps_width :: u32
  ps_height :: u32

record pb_focus =
  pf_app_name :: string
  pf_pid :: i32
  pf_window_id :: string
  pf_window_title :: string
  pf_window_instance_start :: "pb_timestamp option"
  pf_process_start_time :: u64
  pf_window_position :: "pb_position option"
  pf_window_size :: "pb_size option"

record pb_transition =
  pt_from :: i32
  pt_to :: i32
  pt_at :: "pb_timestamp option"
  pt_run_id :: string

record pb_counts =
  pn_signals_seen :: u64
  pn_hints_seen :: u64
  pn_records_emitted :: u64

record pb_cadence =
  pe_current_ms :: u32
  pe_reason :: string

record pb_storage =
  po_backlog_count :: u64
  po_last_flush :: "pb_timestamp option"

record pb_config =
  pc_active_grace_secs :: u64
  pc_idle_threshold_secs :: u64
  pc_retention_minutes :: u64
  pc_ephemeral_max_duration_secs :: u64
  pc_ephemeral_min_distinct_ids :: u32
  pc_ephemeral_app_max_duration_secs :: u64
  pc_ephemeral_app_min_distinct_procs :: u32

record pb_window =
  pw_window_id :: string
  pw_window_title :: string
  pw_first_seen :: "pb_timestamp option"
  pw_last_seen :: "pb_timestamp option"
  pw_duration_seconds :: u64
  pw_is_group :: bool

record pb_app =
  pa_app_name :: string
  pa_pid :: i32
  pa_process_start_time :: u64
  pa_windows :: "pb_window list"
  pa_total_duration_secs :: u64
  pa_total_duration_pretty :: string

record pb_record =
  pd_record_id :: u64
  pd_run_id :: string
  pd_start_time :: "pb_timestamp option"
  pd_end_time :: "pb_timestamp option"
  pd_state :: i32
  pd_focus :: "pb_focus option"
  pd_event_count :: u32
  pd_triggering_events :: "u64 list"

record snapshot_reply =
  re_seq :: u64
  re_mono_ns :: u64
  re_run_id :: string
  re_activity_state :: i32
  re_focus :: "pb_focus option"
  re_last_transition :: "pb_transition option"
  re_counts :: "pb_counts option"
  re_cadence :: "pb_cadence option"
  re_next_timeout :: "pb_timestamp option"
  re_storage :: "pb_storage option"
  re_config :: "pb_config option"
  re_health :: "string list"
  re_aggregated_apps :: "pb_app list"
  re_records :: "pb_record list"

section \<open>The snapshot as a message\<close>

fun pb_state_number :: "pb_state \<Rightarrow> i32" where
  "pb_state_number PbUnknown = 0"
| "pb_state_number PbActive = 1"
| "pb_state_number PbPassive = 2"
| "pb_state_number PbInactive = 3"
| "pb_state_number PbLocked = 4"

fun map_state :: "activity_state \<Rightarrow> i32" where
  "map_state Active = pb_state_number PbActive"
| "map_state Passive = pb_state_number PbPassive"
| "map_state Inactive = pb_state_number PbInactive"
| "map_state Locked = pb_state_number PbLocked"

definition map_focus :: "window_focus_info \<Rightarrow> pb_focus" where
  "map_focus f = \<lparr> pf_app_name = fi_app_name f, pf_pid = fi_pid f, pf_window_id = nat_str (unat (fi_window_id f)),
     pf_window_title = fi_window_title f, pf_window_instance_start = Some (utc_to_ts (fi_window_instance_start f)),
     pf_process_start_time = fi_process_start_time f,
     pf_window_position = map_option (\<lambda>pos. \<lparr> pp_x = pos_x pos, pp_y = pos_y pos \<rparr>) (fi_window_position f),
     pf_window_size = map_option (\<lambda>(width, height). \<lparr> ps_width = width, ps_height = height \<rparr>) (fi_window_size f) \<rparr>"

definition unwrap_or_default :: "string option \<Rightarrow> string" where
  "unwrap_or_default x = (case x of None \<Rightarrow> [] | Some s \<Rightarrow> s)"

definition pb_of_transition :: "transition \<Rightarrow> pb_transition" where
  "pb_of_transition t = \<lparr> pt_from = map_state (trn_from t), pt_to = map_state (trn_to t), pt_at = Some (utc_to_ts (trn_at t)),
     pt_run_id = unwrap_or_default (trn_run_id t) \<rparr>"

definition pb_of_config :: "config_summary \<Rightarrow> pb_config" where
  "pb_of_config c = \<lparr> pc_active_grace_secs = cfg_active_grace_secs c, pc_idle_threshold_secs = cfg_idle_threshold_secs c,
     pc_retention_minutes = cfg_retention_minutes c, pc_ephemeral_max_duration_secs = cfg_ephemeral_max_duration_secs c,
     pc_ephemeral_min_distinct_ids = ucast (cfg_ephemeral_min_distinct_ids c),
     pc_ephemeral_app_max_duration_secs = cfg_ephemeral_app_max_duration_secs c,
     pc_ephemeral_app_min_distinct_procs = ucast (cfg_ephemeral_app_min_distinct_procs c) \<rparr>"

definition pb_of_window :: "snapshot_window \<Rightarrow> pb_window" where
  "pb_of_window w = \<lparr> pw_window_id = sw_window_id w, pw_window_title = sw_window_title w,
     pw_first_seen = Some (utc_to_ts (sw_first_seen w)), pw_last_seen = Some (utc_to_ts (sw_last_seen w)),
     pw_duration_seconds = sw_duration_seconds w, pw_is_group = sw_is_group w \<rparr>"

definition pb_of_app :: "snapshot_app \<Rightarrow> pb_app" where
  "pb_of_app a = \<lparr> pa_app_name = sa_app_name a, pa_pid = sa_pid a, pa_process_start_time = sa_process_start_time a,
     pa_windows = map pb_of_window (sa_windows a), pa_total_duration_secs = sa_total_duration_secs a,
     pa_total_duration_pretty = sa_total_duration_pretty a \<rparr>"

definition pb_of_record :: "activity_record \<Rightarrow> pb_record" where
  "pb_of_record r = \<lparr> pd_record_id = rec_id r, pd_run_id = unwrap_or_default (rec_run_id r),
     pd_start_time = Some (utc_to_ts (rec_start_time r)), pd_end_time = map_option utc_to_ts (rec_end_time r),
     pd_state = map_state (rec_state r), pd_focus = map_option map_focus (rec_focus_info r),
     pd_event_count = rec_event_count r, pd_triggering_events = rec_triggering_events r \<rparr>"

definition to_pb :: "snapshot \<Rightarrow> snapshot_reply" where
  "to_pb s = \<lparr> re_seq = sn_seq s, re_mono_ns = sn_mono_ns s, re_run_id = unwrap_or_default (sn_run_id s),
     re_activity_state = map_state (sn_activity_state s), re_focus = map_option map_focus (sn_focus s),
     re_last_transition = map_option pb_of_transition (sn_last_transition s),
     re_counts = Some \<lparr> pn_signals_seen = signals_seen (sn_counts s), pn_hints_seen = hints_seen (sn_counts s),
       pn_records_emitted = records_emitted (sn_counts s) \<rparr>,
     re_cadence = Some \<lparr> pe_current_ms = sn_cadence_ms s, pe_reason = sn_cadence_reason s \<rparr>,
     re_next_timeout = map_option utc_to_ts (sn_next_timeout s),
     re_storage = Some \<lparr> po_backlog_count = backlog_count (sn_storage s),
       po_last_flush = map_option utc_to_ts (last_flush_at (sn_storage s)) \<rparr>,
     re_config = Some (pb_of_config (sn_config s)), re_health = sn_health s,
     re_aggregated_apps = map pb_of_app (sn_aggregated_apps s), re_records = map pb_of_record (sn_records s) \<rparr>"

text \<open>The \<open>Snapshot\<close> call, and what a \<open>Watch\<close> stream yields for the values its receiver sees.\<close>

definition grpc_snapshot :: "snapshot_bus \<Rightarrow> snapshot_reply" where
  "grpc_snapshot bus = to_pb (bus_snapshot bus)"

definition grpc_watch :: "snapshot list \<Rightarrow> snapshot_reply list" where
  "grpc_watch seen = map to_pb seen"

section \<open>The request for system metrics\<close>

datatype grpc_status =
    Unavailable string
  | Internal string
  | DeadlineExceeded string
  | InvalidArgument string

record metrics_request =
  rq_pid :: u32
  rq_start_time :: "pb_timestamp option"
  rq_end_time :: "pb_timestamp option"
  rq_limit :: u32

record 'd pb_metric =
  pm_timestamp :: "pb_timestamp option"
  pm_cpu_percent :: 'd
  pm_memory_bytes :: u64
  pm_disk_io_bytes :: u64

record 'd metrics_reply =
  mr_metrics :: "'d pb_metric list"
  mr_total_count :: u32

text \<open>How an await ends: the message cannot be sent, no answer in time, the answer dropped, or the answer.\<close>

datatype 'a awaited = SendFailed | TimedOut | Dropped | Answered 'a

text \<open>What the process has configured.\<close>

record api_config =
  ap_db_path :: bool
  ap_cells :: api_cells

definition await_flush :: "unit awaited \<Rightarrow> grpc_status option" where
  "await_flush a = (case a of
      SendFailed \<Rightarrow> Some (Internal ''Failed to request tracker flush'')
    | TimedOut \<Rightarrow> Some (DeadlineExceeded ''Timed out waiting for tracker flush'')
    | Dropped \<Rightarrow> Some (Internal ''Tracker flush acknowledgement dropped'')
    | Answered _ \<Rightarrow> None)"

definition await_metrics :: "string \<Rightarrow> (string + 'm list) awaited \<Rightarrow> grpc_status + 'm list" where
  "await_metrics tag a = (case a of
      SendFailed \<Rightarrow> Inl (Internal (''Failed to send query to tracker thread'' @ tag))
    | TimedOut \<Rightarrow> Inl (DeadlineExceeded (''Timed out waiting for tracker reply'' @ tag))
    | Dropped \<Rightarrow> Inl (Internal (''Tracker query channel closed'' @ tag))
    | Answered (Inl e) \<Rightarrow> Inl (Internal (''Tracker query error'' @ tag @ '': '' @ e))
    | Answered (Inr metrics) \<Rightarrow> Inr metrics)"

definition request_time :: "(int \<Rightarrow> bool) \<Rightarrow> string \<Rightarrow> instant \<Rightarrow> pb_timestamp option \<Rightarrow> grpc_status + instant" where
  "request_time holds field dflt ts = (case ts of
      Some ts \<Rightarrow> (case ts_to_utc holds ts of
          Inl e \<Rightarrow> Inl (InvalidArgument (''Invalid '' @ field @ '': '' @ e))
        | Inr t \<Rightarrow> Inr t)
    | None \<Rightarrow> Inr dflt)"

text \<open>The query of a request; \<open>now1\<close> and \<open>now2\<close> are the clock readings that stand in for missing bounds.\<close>

definition request_query :: "(int \<Rightarrow> bool) \<Rightarrow> instant \<Rightarrow> instant \<Rightarrow> metrics_request \<Rightarrow> grpc_status + metrics_query" where
  "request_query holds now1 now2 rq =
     (if 0 < rq_limit rq then Inr (ByLimit (rq_pid rq) (ucast (rq_limit rq)))
      else case request_time holds ''start_time'' (now1 - mins 5) (rq_start_time rq) of
          Inl e \<Rightarrow> Inl e
        | Inr start_time \<Rightarrow> (case request_time holds ''end_time'' now2 (rq_end_time rq) of
            Inl e \<Rightarrow> Inl e
          | Inr end_time \<Rightarrow> Inr (ByRange (rq_pid rq) start_time end_time)))"

definition pb_of_metric :: "'d system_metrics \<Rightarrow> 'd pb_metric" where
  "pb_of_metric m = \<lparr> pm_timestamp = Some (utc_to_ts (sm_timestamp m)), pm_cpu_percent = sm_cpu_percent m,
     pm_memory_bytes = sm_memory_bytes m, pm_disk_io_bytes = sm_disk_io_bytes m \<rparr>"

text \<open>
  \<open>clock i\<close> is the \<open>i\<close>th reading of the clock, \<open>ask 0\<close> and \<open>ask 1\<close> how the awaits of the first query and
  of its repetition end.
\<close>

definition get_system_metrics ::
  "(int \<Rightarrow> bool) \<Rightarrow> api_config \<Rightarrow> unit awaited \<Rightarrow> (nat \<Rightarrow> instant) \<Rightarrow>
   (nat \<Rightarrow> metrics_query \<Rightarrow> (string + 'd system_metrics list) awaited) \<Rightarrow> metrics_request \<Rightarrow> grpc_status + 'd metrics_reply" where
  "get_system_metrics holds cfg flush clock ask rq =
     (if \<not> ap_db_path cfg then Inl (Unavailable ''System tracker not configured'')
      else if ac_control (ap_cells cfg) = None then Inl (Unavailable ''System tracker control channel not configured'')
      else case await_flush flush of
        Some e \<Rightarrow> Inl e
      | None \<Rightarrow>
          if ac_query (ap_cells cfg) = None then Inl (Unavailable ''System tracker not configured (query tx)'')
          else
            (let reply = (\<lambda>metrics. Inr \<lparr> mr_metrics = map pb_of_metric metrics, mr_total_count = of_nat (length metrics) \<rparr>) in
             case request_query holds (clock 0) (clock 1) rq of
               Inl e \<Rightarrow> Inl e
             | Inr q \<Rightarrow> (case await_metrics [] (ask 0 q) of
                 Inl e \<Rightarrow> Inl e
               | Inr metrics \<Rightarrow>
                   if metrics \<noteq> [] then reply metrics
                   else (case request_query holds (clock 2) (clock 3) rq of
                       Inl e \<Rightarrow> Inl e
                     | Inr q' \<Rightarrow> (case await_metrics '' (retry)'' (ask 1 q') of
                         Inl e \<Rightarrow> Inl e
                       | Inr metrics' \<Rightarrow> reply metrics')))))"

section \<open>Specification\<close>

text \<open>The seconds of an instant fit an \<open>i64\<close>, as they do for every instant of chrono.\<close>

definition in_i64 :: "instant \<Rightarrow> bool" where
  "in_i64 t \<longleftrightarrow> - (2 ^ 63) \<le> epoch_secs t \<and> epoch_secs t < 2 ^ 63"

text \<open>
  What a reply shows of a snapshot: no recent transitions, no signal of the last one, 32 bits of the two
  counts of the configuration, and an empty run id is the same as none.
\<close>

definition shown_run_id :: "string option \<Rightarrow> string option" where
  "shown_run_id x = (if x = Some [] then None else x)"

definition shown_transition :: "transition \<Rightarrow> transition" where
  "shown_transition t = t\<lparr> trn_by_signal := None, trn_run_id := shown_run_id (trn_run_id t) \<rparr>"

definition shown_config :: "config_summary \<Rightarrow> config_summary" where
  "shown_config c = c\<lparr> cfg_ephemeral_min_distinct_ids := take_bit 32 (cfg_ephemeral_min_distinct_ids c),
     cfg_ephemeral_app_min_distinct_procs := take_bit 32 (cfg_ephemeral_app_min_distinct_procs c) \<rparr>"

definition shown_record :: "activity_record \<Rightarrow> activity_record" where
  "shown_record r = r\<lparr> rec_run_id := shown_run_id (rec_run_id r) \<rparr>"

definition shown_snapshot :: "snapshot \<Rightarrow> snapshot" where
  "shown_snapshot s = s\<lparr> sn_run_id := shown_run_id (sn_run_id s),
     sn_last_transition := map_option shown_transition (sn_last_transition s), sn_transitions_recent := [],
     sn_config := shown_config (sn_config s), sn_records := map shown_record (sn_records s) \<rparr>"

definition focus_in_i64 :: "window_focus_info \<Rightarrow> bool" where
  "focus_in_i64 f = in_i64 (fi_window_instance_start f)"

definition record_in_i64 :: "activity_record \<Rightarrow> bool" where
  "record_in_i64 r \<longleftrightarrow> in_i64 (rec_start_time r) \<and> pred_option in_i64 (rec_end_time r) \<and> pred_option focus_in_i64 (rec_focus_info r)"

definition app_in_i64 :: "snapshot_app \<Rightarrow> bool" where
  "app_in_i64 a = list_all (\<lambda>w. in_i64 (sw_first_seen w) \<and> in_i64 (sw_last_seen w)) (sa_windows a)"

definition snapshot_in_i64 :: "snapshot \<Rightarrow> bool" where
  "snapshot_in_i64 s \<longleftrightarrow> pred_option focus_in_i64 (sn_focus s) \<and> pred_option (\<lambda>t. in_i64 (trn_at t)) (sn_last_transition s)
     \<and> pred_option in_i64 (sn_next_timeout s) \<and> pred_option in_i64 (last_flush_at (sn_storage s))
     \<and> list_all app_in_i64 (sn_aggregated_apps s) \<and> list_all record_in_i64 (sn_records s)"

section \<open>Lemmas\<close>

lemma subsec_bounds: "0 \<le> subsec_nanos t" "subsec_nanos t < 1000000000"
  by (simp_all add: subsec_nanos_def)

lemma ts_fields:
  "in_i64 t \<Longrightarrow> sint (ts_seconds (utc_to_ts t)) = epoch_secs t" "sint (ts_nanos (utc_to_ts t)) = subsec_nanos t"
  using subsec_bounds [of t]
  by (simp_all add: utc_to_ts_def in_i64_def signed_of_int signed_take_bit_int_eq_self)

lemma ts_to_utc_to_ts:
  assumes "in_i64 t"
  shows "ts_to_utc holds (utc_to_ts t) = (if holds (epoch_secs t) then Inr t else Inl ''invalid timestamp range'')"
proof -
  have "secs (epoch_secs t) + subsec_nanos t = t"
    by (simp add: secs_def epoch_secs_def subsec_nanos_def)
  then show ?thesis
    using subsec_bounds [of t] ts_fields [of t] assms by (simp add: ts_to_utc_def Let_def)
qed

lemma utc_to_ts_inj:
  assumes "in_i64 t" and "in_i64 u"
  shows "utc_to_ts t = utc_to_ts u \<longleftrightarrow> t = u"
proof
  assume "utc_to_ts t = utc_to_ts u"
  then have "ts_to_utc (\<lambda>_. True) (utc_to_ts t) = ts_to_utc (\<lambda>_. True) (utc_to_ts u)" by (rule arg_cong)
  then show "t = u" unfolding ts_to_utc_to_ts [OF assms(1)] ts_to_utc_to_ts [OF assms(2)] by simp
qed simp

lemma map_state_inj: "map_state a = map_state b \<longleftrightarrow> a = b"
  by (cases a; cases b) simp_all

lemma run_id_inj: "unwrap_or_default a = unwrap_or_default b \<longleftrightarrow> shown_run_id a = shown_run_id b"
  by (cases a; cases b) (auto simp: unwrap_or_default_def shown_run_id_def)

lemma ucast_low: "(ucast a :: u32) = ucast b \<longleftrightarrow> take_bit 32 a = take_bit 32 b" for a b :: u64
proof -
  have "(ucast a :: u32) = ucast b \<longleftrightarrow> uint (ucast a :: u32) = uint (ucast b :: u32)" by (rule word_uint_eq_iff)
  also have "\<dots> \<longleftrightarrow> uint (take_bit 32 a) = uint (take_bit 32 b)"
    by (simp add: unsigned_ucast_eq unsigned_take_bit_eq)
  also have "\<dots> \<longleftrightarrow> take_bit 32 a = take_bit 32 b" by (rule word_uint_eq_iff [symmetric])
  finally show ?thesis .
qed

lemma map_option_inj:
  "pred_option P x \<Longrightarrow> pred_option P y \<Longrightarrow> (\<And>a b. P a \<Longrightarrow> P b \<Longrightarrow> f a = f b \<longleftrightarrow> g a = g b) \<Longrightarrow>
     map_option f x = map_option f y \<longleftrightarrow> map_option g x = map_option g y"
  by (cases x; cases y) auto

lemma map_inj:
  "list_all P xs \<Longrightarrow> list_all P ys \<Longrightarrow> (\<And>a b. P a \<Longrightarrow> P b \<Longrightarrow> f a = f b \<longleftrightarrow> g a = g b) \<Longrightarrow>
     map f xs = map f ys \<longleftrightarrow> map g xs = map g ys"
proof (induction xs arbitrary: ys)
  case (Cons x xs)
  then show ?case by (cases ys) auto
qed simp

lemma map_focus_inj: "focus_in_i64 f \<Longrightarrow> focus_in_i64 g \<Longrightarrow> map_focus f = map_focus g \<longleftrightarrow> f = g"
proof -
  have pos: "map_option (\<lambda>pos. \<lparr> pp_x = pos_x pos, pp_y = pos_y pos \<rparr>) a =
      map_option (\<lambda>pos. \<lparr> pp_x = pos_x pos, pp_y = pos_y pos \<rparr>) b \<longleftrightarrow> a = b" for a b :: "mouse_position option"
    by (cases a; cases b) (auto intro: mouse_position.equality)
  have size: "map_option (\<lambda>(width, height). \<lparr> ps_width = width, ps_height = height \<rparr>) a =
      map_option (\<lambda>(width, height). \<lparr> ps_width = width, ps_height = height \<rparr>) b \<longleftrightarrow> a = b" for a b :: "(u32 \<times> u32) option"
    by (cases a; cases b) (auto split: prod.splits)
  assume "focus_in_i64 f" "focus_in_i64 g"
  then show ?thesis
    by (cases f; cases g) (auto simp: map_focus_def focus_in_i64_def utc_to_ts_inj nat_str_inj word_unat_eq_iff pos size)
qed

lemma transition_inj:
  "in_i64 (trn_at t) \<Longrightarrow> in_i64 (trn_at u) \<Longrightarrow> pb_of_transition t = pb_of_transition u \<longleftrightarrow> shown_transition t = shown_transition u"
  by (cases t; cases u) (simp add: pb_of_transition_def shown_transition_def utc_to_ts_inj map_state_inj run_id_inj)

lemma config_inj: "pb_of_config c = pb_of_config d \<longleftrightarrow> shown_config c = shown_config d"
  by (cases c; cases d) (simp add: pb_of_config_def shown_config_def ucast_low)

lemma app_inj: "app_in_i64 a \<Longrightarrow> app_in_i64 b \<Longrightarrow> pb_of_app a = pb_of_app b \<longleftrightarrow> a = b"
proof -
  let ?P = "\<lambda>w. in_i64 (sw_first_seen w) \<and> in_i64 (sw_last_seen w)"
  have "pb_of_window v = pb_of_window w \<longleftrightarrow> v = w" if "?P v" "?P w" for v w
    using that by (cases v; cases w) (auto simp: pb_of_window_def utc_to_ts_inj)
  then have "map pb_of_window vs = map pb_of_window ws \<longleftrightarrow> map (\<lambda>w. w) vs = map (\<lambda>w. w) ws"
    if "list_all ?P vs" "list_all ?P ws" for vs ws
    using that by (intro map_inj)
  moreover assume "app_in_i64 a" "app_in_i64 b"
  ultimately show ?thesis by (cases a; cases b) (auto simp: pb_of_app_def app_in_i64_def)
qed

lemma record_inj: "record_in_i64 q \<Longrightarrow> record_in_i64 r \<Longrightarrow> pb_of_record q = pb_of_record r \<longleftrightarrow> shown_record q = shown_record r"
  using map_option_inj [of in_i64 "rec_end_time q" "rec_end_time r" utc_to_ts "\<lambda>t. t"]
    map_option_inj [of focus_in_i64 "rec_focus_info q" "rec_focus_info r" map_focus "\<lambda>f. f"]
  by (cases q; cases r) (auto simp: pb_of_record_def shown_record_def record_in_i64_def utc_to_ts_inj map_state_inj run_id_inj map_focus_inj option.map_ident)

text \<open>Whether the bounds of a request are bad does not depend on the clock.\<close>

definition bad_bounds :: "(int \<Rightarrow> bool) \<Rightarrow> metrics_request \<Rightarrow> bool" where
  "bad_bounds holds rq \<longleftrightarrow> rq_limit rq = 0 \<and>
     \<not> (pred_option (\<lambda>ts. \<not> isl (ts_to_utc holds ts)) (rq_start_time rq) \<and> pred_option (\<lambda>ts. \<not> isl (ts_to_utc holds ts)) (rq_end_time rq))"

definition is_invalid_argument :: "grpc_status \<Rightarrow> bool" where
  "is_invalid_argument e = (case e of InvalidArgument _ \<Rightarrow> True | _ \<Rightarrow> False)"

definition is_unavailable :: "grpc_status \<Rightarrow> bool" where
  "is_unavailable e = (case e of Unavailable _ \<Rightarrow> True | _ \<Rightarrow> False)"

lemma request_time_cases:
  "request_time holds f d ts = (case ts of None \<Rightarrow> Inr d | Some ts \<Rightarrow>
     if \<not> isl (ts_to_utc holds ts) then Inr (projr (ts_to_utc holds ts)) else Inl (InvalidArgument (''Invalid '' @ f @ '': '' @ projl (ts_to_utc holds ts))))"
  by (auto simp: request_time_def split: option.split sum.split)

lemma request_query_cases:
  "(\<exists>q. request_query holds n1 n2 rq = Inr q \<and> \<not> bad_bounds holds rq)
     \<or> (\<exists>e. request_query holds n1 n2 rq = Inl e \<and> is_invalid_argument e \<and> bad_bounds holds rq)"
proof (cases "0 < rq_limit rq")
  case False
  then have "rq_limit rq = 0" by (simp add: word_gt_0)
  then show ?thesis
    by (auto simp: request_query_def request_time_cases bad_bounds_def is_invalid_argument_def split: option.split)
qed (auto simp: request_query_def bad_bounds_def)

lemma await_metrics_status: "await_metrics tag a = Inl e \<Longrightarrow> \<not> is_invalid_argument e \<and> \<not> is_unavailable e"
  by (auto simp: await_metrics_def is_invalid_argument_def is_unavailable_def split: awaited.splits sum.splits)

lemma await_flush_status: "await_flush a = Some e \<Longrightarrow> \<not> is_invalid_argument e \<and> \<not> is_unavailable e"
  by (auto simp: await_flush_def is_invalid_argument_def is_unavailable_def split: awaited.splits)

lemma invalid_not_unavailable: "is_invalid_argument e \<Longrightarrow> \<not> is_unavailable e"
  by (cases e) (simp_all add: is_invalid_argument_def is_unavailable_def)

lemma pb_of_metric_reread:
  "in_i64 (sm_timestamp m) \<Longrightarrow> pb_of_metric m = pb_of_metric n \<Longrightarrow> in_i64 (sm_timestamp n) \<Longrightarrow> m = n"
  by (cases m; cases n) (simp add: pb_of_metric_def utc_to_ts_inj)

section \<open>Properties\<close>

text \<open>
  Timestamps round-trip: an instant whose seconds fit an \<open>i64\<close> and that chrono holds is read back from
  the timestamp it is sent as, and a timestamp that is accepted is sent back unchanged; it is accepted
  exactly when its nanoseconds are in range and chrono holds its seconds.
\<close>
theorem timestamps_roundtrip:
  "(in_i64 t \<and> holds (epoch_secs t) \<longrightarrow> ts_to_utc holds (utc_to_ts t) = Inr t)
   \<and> (ts_to_utc holds ts = Inr u \<longrightarrow> utc_to_ts u = ts)
   \<and> (\<not> isl (ts_to_utc holds ts) \<longleftrightarrow> 0 \<le> sint (ts_nanos ts) \<and> sint (ts_nanos ts) < 1000000000 \<and> holds (sint (ts_seconds ts)))"
proof -
  have "utc_to_ts u = ts" if "ts_to_utc holds ts = Inr u"
  proof -
    from that have n: "0 \<le> sint (ts_nanos ts)" "sint (ts_nanos ts) < 1000000000"
      and u: "u = secs (sint (ts_seconds ts)) + sint (ts_nanos ts)"
      by (auto simp: ts_to_utc_def Let_def split: if_splits)
    from n have "epoch_secs u = sint (ts_seconds ts)" "subsec_nanos u = sint (ts_nanos ts)"
      by (simp_all add: u epoch_secs_def subsec_nanos_def secs_def)
    then show ?thesis by (simp add: utc_to_ts_def)
  qed
  moreover have "\<not> isl (ts_to_utc holds ts) \<longleftrightarrow>
      0 \<le> sint (ts_nanos ts) \<and> sint (ts_nanos ts) < 1000000000 \<and> holds (sint (ts_seconds ts))"
    by (auto simp: ts_to_utc_def Let_def)
  ultimately show ?thesis by (simp add: ts_to_utc_to_ts)
qed

text \<open>
  A reply determines the snapshot it was made of, up to the recent transitions, the signal of the last
  transition, the upper half of the two counts of the configuration, and the difference between no run
  id and an empty one; nothing else is lost or mixed up.
\<close>
theorem reply_determines_snapshot:
  assumes "snapshot_in_i64 s" and "snapshot_in_i64 s'"
  shows "to_pb s = to_pb s' \<longleftrightarrow> shown_snapshot s = shown_snapshot s'"
proof -
  have focus: "map_option map_focus (sn_focus s) = map_option map_focus (sn_focus s') \<longleftrightarrow> sn_focus s = sn_focus s'"
    using map_option_inj [of focus_in_i64 "sn_focus s" "sn_focus s'" map_focus "\<lambda>f. f"] assms
    by (simp add: snapshot_in_i64_def map_focus_inj option.map_ident)
  have trn: "map_option pb_of_transition (sn_last_transition s) = map_option pb_of_transition (sn_last_transition s')
      \<longleftrightarrow> map_option shown_transition (sn_last_transition s) = map_option shown_transition (sn_last_transition s')"
    using assms by (intro map_option_inj [of "\<lambda>t. in_i64 (trn_at t)"]) (auto simp: snapshot_in_i64_def transition_inj)
  have time: "map_option utc_to_ts x = map_option utc_to_ts y \<longleftrightarrow> x = y" if "pred_option in_i64 x" "pred_option in_i64 y" for x y
    using map_option_inj [OF that, of utc_to_ts "\<lambda>t. t"] by (simp add: utc_to_ts_inj option.map_ident)
  have storage: "\<lparr> po_backlog_count = backlog_count (sn_storage s), po_last_flush = map_option utc_to_ts (last_flush_at (sn_storage s)) \<rparr>
      = \<lparr> po_backlog_count = backlog_count (sn_storage s'), po_last_flush = map_option utc_to_ts (last_flush_at (sn_storage s')) \<rparr>
      \<longleftrightarrow> sn_storage s = sn_storage s'"
    using assms by (auto simp: snapshot_in_i64_def time intro: storage_info.equality)
  have apps: "map pb_of_app (sn_aggregated_apps s) = map pb_of_app (sn_aggregated_apps s') \<longleftrightarrow> sn_aggregated_apps s = sn_aggregated_apps s'"
    using map_inj [of app_in_i64 "sn_aggregated_apps s" "sn_aggregated_apps s'" pb_of_app "\<lambda>a. a"] assms
    by (simp add: snapshot_in_i64_def app_inj)
  have recs: "map pb_of_record (sn_records s) = map pb_of_record (sn_records s') \<longleftrightarrow> map shown_record (sn_records s) = map shown_record (sn_records s')"
    using assms by (intro map_inj [of record_in_i64]) (auto simp: snapshot_in_i64_def record_inj)
  have counts: "\<lparr> pn_signals_seen = signals_seen a, pn_hints_seen = hints_seen a, pn_records_emitted = records_emitted a \<rparr>
      = \<lparr> pn_signals_seen = signals_seen b, pn_hints_seen = hints_seen b, pn_records_emitted = records_emitted b \<rparr> \<longleftrightarrow> a = b" for a b :: counts
    by (auto intro: counts.equality)
  have "sn_next_timeout s = sn_next_timeout s' \<longleftrightarrow> map_option utc_to_ts (sn_next_timeout s) = map_option utc_to_ts (sn_next_timeout s')"
    using assms by (simp add: snapshot_in_i64_def time)
  with focus trn storage apps recs show ?thesis
    by (cases s; cases s') (auto simp: to_pb_def shown_snapshot_def map_state_inj run_id_inj config_inj counts)
qed

text \<open>The handler of the server on an SQLite table, for an interval and for a limit.\<close>

definition reply_with :: "'d system_metrics list \<Rightarrow> grpc_status + 'd metrics_reply" where
  "reply_with ms = Inr \<lparr> mr_metrics = map pb_of_metric ms, mr_total_count = of_nat (length ms) \<rparr>"

lemma range_reply:
  assumes "ap_db_path cfg" and "ac_control (ap_cells cfg) \<noteq> None" and "ac_query (ap_cells cfg) \<noteq> None"
    and "rq_limit rq = 0" and "rq_start_time rq = Some (utc_to_ts a)" and "rq_end_time rq = Some (utc_to_ts b)"
    and "in_i64 a" and "in_i64 b" and "holds (epoch_secs a)" and "holds (epoch_secs b)"
    and "time_codec C T" and "sm_timestamp ` set (samples_of_pid (rq_pid rq) pms) \<subseteq> T" and "a \<in> T" and "b \<in> T"
    and "\<And>i q. ask i q = Answered (tracker_query (sqlite_metrics_store C) q None (sqlite_table C pms))"
  shows "get_system_metrics holds cfg (Answered ()) clock ask rq =
    reply_with (sort_key sm_timestamp (filter (\<lambda>m. a \<le> sm_timestamp m \<and> sm_timestamp m \<le> b) (samples_of_pid (rq_pid rq) pms)))"
proof -
  have q: "request_query holds now1 now2 rq = Inr (ByRange (rq_pid rq) a b)" for now1 now2
    using assms(4-10) by (simp add: request_query_def request_time_def ts_to_utc_to_ts)
  have r: "ask i (ByRange (rq_pid rq) a b) = Answered (Inr (sort_key sm_timestamp
      (filter (\<lambda>m. a \<le> sm_timestamp m \<and> sm_timestamp m \<le> b) (samples_of_pid (rq_pid rq) pms))))" for i
    using sqlite_range_reread [OF assms(11-14), of "rq_pid rq"]
    by (simp add: assms(15) tracker_query_def sqlite_metrics_store_def sqlite_range_own_rows)
  show ?thesis
    using assms(1-3) by (simp add: get_system_metrics_def await_flush_def q r await_metrics_def reply_with_def Let_def del: length_sort)
qed

lemma limit_reply:
  assumes "ap_db_path cfg" and "ac_control (ap_cells cfg) \<noteq> None" and "ac_query (ap_cells cfg) \<noteq> None" and "0 < rq_limit rq"
    and "time_codec C T" and "sm_timestamp ` set (samples_of_pid (rq_pid rq) pms) \<subseteq> T"
    and "\<And>i q. ask i q = Answered (tracker_query (sqlite_metrics_store C) q None (sqlite_table C pms))"
  shows "get_system_metrics holds cfg (Answered ()) clock ask rq =
    reply_with (rev (take (unat (rq_limit rq)) (rev (sort_key sm_timestamp (samples_of_pid (rq_pid rq) pms)))))"
proof -
  have "unat (ucast (l :: u32) :: u64) = unat l" for l
    using unsigned_less [of l, where 'a = nat] by (simp add: unsigned_ucast_eq take_bit_nat_eq_self)
  then have r: "ask i (ByLimit (rq_pid rq) (ucast (rq_limit rq))) =
      Answered (Inr (rev (take (unat (rq_limit rq)) (rev (sort_key sm_timestamp (samples_of_pid (rq_pid rq) pms))))))" for i
    using sqlite_limit_reread [OF assms(5,6), of "rq_pid rq"]
    by (simp add: assms(7) tracker_query_def sqlite_metrics_store_def sqlite_limit_own_rows)
  have q: "request_query holds now1 now2 rq = Inr (ByLimit (rq_pid rq) (ucast (rq_limit rq)))" for now1 now2
    using assms(4) by (simp add: request_query_def)
  show ?thesis
    using assms(1-3) by (simp add: get_system_metrics_def await_flush_def q r await_metrics_def reply_with_def Let_def del: length_sort)
qed

text \<open>
  A request for metrics fails as unavailable exactly when something it needs is not configured, and as
  an invalid argument exactly when the tracker has acknowledged the flush and a bound of a range cannot
  be read; every answer is given after an acknowledged flush.
\<close>
theorem metrics_request_status:
  "((\<exists>e. get_system_metrics holds cfg flush clock ask rq = Inl e \<and> is_unavailable e) \<longleftrightarrow>
      \<not> ap_db_path cfg \<or> ac_control (ap_cells cfg) = None \<or> (flush = Answered () \<and> ac_query (ap_cells cfg) = None))
   \<and> ((\<exists>e. get_system_metrics holds cfg flush clock ask rq = Inl e \<and> is_invalid_argument e) \<longleftrightarrow>
      ap_db_path cfg \<and> ac_control (ap_cells cfg) \<noteq> None \<and> ac_query (ap_cells cfg) \<noteq> None \<and> flush = Answered () \<and> bad_bounds holds rq)
   \<and> (\<forall>reply. get_system_metrics holds cfg flush clock ask rq = Inr reply \<longrightarrow> flush = Answered ())"
proof (cases "ap_db_path cfg \<and> ac_control (ap_cells cfg) \<noteq> None \<and> await_flush flush = None \<and> ac_query (ap_cells cfg) \<noteq> None")
  case False
  have "flush = Answered () \<longleftrightarrow> await_flush flush = None" by (cases flush) (simp_all add: await_flush_def)
  with False show ?thesis
    by (auto simp: get_system_metrics_def is_unavailable_def is_invalid_argument_def dest: await_flush_status split: option.split)
next
  case True
  then have f: "flush = Answered ()" by (cases flush) (simp_all add: await_flush_def)
  from request_query_cases [of holds "clock 0" "clock 1" rq] request_query_cases [of holds "clock 2" "clock 3" rq]
  show ?thesis
    using True f
    by (auto simp: get_system_metrics_def Let_def dest: await_metrics_status invalid_not_unavailable split: sum.split)
qed

text \<open>
  C40: A client that asks for an interval or for the newest samples gets what the tracker holds of that process, and
  nothing of another: with everything configured, the flush acknowledged and the query run without a fault on an SQLite
  table with samples of any processes, the reply to a request for an interval whose bounds are both given has exactly
  the samples of the requested process in the interval, ordered by time, and to a request with a limit the newest of
  that process, at most so many and oldest first; each with the timestamp of its instant, and with their number.
\<close>
theorem metrics_reply_exact:
  assumes "ap_db_path cfg" and "ac_control (ap_cells cfg) \<noteq> None" and "ac_query (ap_cells cfg) \<noteq> None"
    and "S = samples_of_pid (rq_pid rq) pms" and "time_codec C T" and "sm_timestamp ` set S \<subseteq> T"
    and "\<And>i q. ask i q = Answered (tracker_query (sqlite_metrics_store C) q None (sqlite_table C pms))"
  shows "(rq_limit rq = 0 \<and> rq_start_time rq = Some (utc_to_ts a) \<and> rq_end_time rq = Some (utc_to_ts b) \<and> a \<in> T \<and> b \<in> T
       \<and> in_i64 a \<and> in_i64 b \<and> holds (epoch_secs a) \<and> holds (epoch_secs b) \<longrightarrow>
      get_system_metrics holds cfg (Answered ()) clock ask rq =
        reply_with (sort_key sm_timestamp (filter (\<lambda>m. a \<le> sm_timestamp m \<and> sm_timestamp m \<le> b) S)))
    \<and> (0 < rq_limit rq \<longrightarrow>
      get_system_metrics holds cfg (Answered ()) clock ask rq =
        reply_with (rev (take (unat (rq_limit rq)) (rev (sort_key sm_timestamp S)))))"
proof (intro conjI impI)
  note T = assms(5) assms(6) [unfolded assms(4)]
  show "get_system_metrics holds cfg (Answered ()) clock ask rq =
      reply_with (sort_key sm_timestamp (filter (\<lambda>m. a \<le> sm_timestamp m \<and> sm_timestamp m \<le> b) S))"
    if "rq_limit rq = 0 \<and> rq_start_time rq = Some (utc_to_ts a) \<and> rq_end_time rq = Some (utc_to_ts b) \<and> a \<in> T \<and> b \<in> T
       \<and> in_i64 a \<and> in_i64 b \<and> holds (epoch_secs a) \<and> holds (epoch_secs b)"
    unfolding assms(4) using that by (intro range_reply [OF assms(1-3) _ _ _ _ _ _ _ T _ _ assms(7)]) simp_all
  show "get_system_metrics holds cfg (Answered ()) clock ask rq =
      reply_with (rev (take (unat (rq_limit rq)) (rev (sort_key sm_timestamp S))))" if "0 < rq_limit rq"
    unfolding assms(4) using limit_reply [OF assms(1-3) that T assms(7)] .
qed

section \<open>Witnesses\<close>

theorem timestamps_roundtrip_witness:
  "ts_to_utc (\<lambda>s. \<bar>s\<bar> < 8000000000000) (utc_to_ts (- 1)) = Inr (- 1)
   \<and> utc_to_ts (- 1) = \<lparr> ts_seconds = - 1, ts_nanos = 999999999 \<rparr>
   \<and> isl (ts_to_utc (\<lambda>s. \<bar>s\<bar> < 8000000000000) \<lparr> ts_seconds = 1, ts_nanos = 1500000000 \<rparr>)"
proof -
  let ?holds = "\<lambda>s. \<bar>s\<bar> < 8000000000000"
  have "in_i64 (- 1) \<and> ?holds (epoch_secs (- 1))" by (simp add: in_i64_def epoch_secs_def)
  with timestamps_roundtrip [of "- 1" ?holds \<open>\<lparr> ts_seconds = 1, ts_nanos = 1500000000 \<rparr>\<close> 0] show ?thesis
    by (auto simp: utc_to_ts_def epoch_secs_def subsec_nanos_def)
qed

definition demo_snapshot :: "u64 \<Rightarrow> string option \<Rightarrow> snapshot" where
  "demo_snapshot ids by_signal = (snapshot_empty 1)
     \<lparr> sn_focus := Some demo_mail,
       sn_last_transition := Some \<lparr> trn_from = Inactive, trn_to = Active, trn_at = 5, trn_by_signal = by_signal, trn_run_id = None \<rparr>,
       sn_config := config_summary_default\<lparr> cfg_ephemeral_min_distinct_ids := ids \<rparr> \<rparr>"

theorem reply_determines_snapshot_witness:
  "to_pb (demo_snapshot 3 None) = to_pb (demo_snapshot (3 + 2 ^ 32) (Some ''keyboard''))
   \<and> to_pb (demo_snapshot 3 None) \<noteq> to_pb (demo_snapshot 4 None)"
proof -
  have "snapshot_in_i64 (demo_snapshot i b)" for i b
    by (simp add: snapshot_in_i64_def demo_snapshot_def snapshot_empty_def focus_in_i64_def demo_mail_def in_i64_def epoch_secs_def)
  note r = reply_determines_snapshot [OF this this]
  show ?thesis
    unfolding r
    by (simp add: shown_snapshot_def demo_snapshot_def snapshot_empty_def shown_transition_def shown_config_def config_summary_default_def)
qed

definition demo_api :: api_config where
  "demo_api = \<lparr> ap_db_path = True, ap_cells = \<lparr> ac_control = Some 1, ac_query = Some 1 \<rparr> \<rparr>"

definition demo_request :: "pb_timestamp option \<Rightarrow> metrics_request" where
  "demo_request start_time = \<lparr> rq_pid = 7, rq_start_time = start_time, rq_end_time = Some (utc_to_ts 9), rq_limit = 0 \<rparr>"

theorem metrics_request_status_witness:
  "\<exists>e. get_system_metrics (\<lambda>_. True) demo_api (Answered ()) (\<lambda>_. 0) (\<lambda>_ _. TimedOut :: (string + int system_metrics list) awaited)
       (demo_request (Some \<lparr> ts_seconds = 1, ts_nanos = - 1 \<rparr>)) = Inl e \<and> is_invalid_argument e"
proof -
  have "bad_bounds (\<lambda>_. True) (demo_request (Some \<lparr> ts_seconds = 1, ts_nanos = - 1 \<rparr>))"
    by (simp add: bad_bounds_def demo_request_def ts_to_utc_def Let_def)
  then show ?thesis
    using metrics_request_status [of "\<lambda>_. True" demo_api "Answered ()" "\<lambda>_. 0" "\<lambda>_ _. TimedOut :: (string + int system_metrics list) awaited"
        "demo_request (Some \<lparr> ts_seconds = 1, ts_nanos = - 1 \<rparr>)"]
    by (simp add: demo_api_def)
qed

theorem metrics_reply_exact_witness:
  "\<exists>reply. get_system_metrics (\<lambda>_. True) demo_api (Answered ()) (\<lambda>_. 0)
       (\<lambda>i q. Answered (tracker_query (sqlite_metrics_store demo_codec) q None
          (sqlite_table demo_codec (zip [7, 8, 7, 7] (samples_of 0 [demo_reading 4, demo_reading 3, demo_reading 2, demo_reading 1])))))
       (demo_request (Some (utc_to_ts 2))) = Inr reply
     \<and> map pm_timestamp (mr_metrics reply) = [Some (utc_to_ts 2), Some (utc_to_ts 4)] \<and> mr_total_count reply = 2"
proof -
  let ?pms = "zip [7, 8, 7, 7] (samples_of 0 [demo_reading 4, demo_reading 3, demo_reading 2, demo_reading 1])"
    and ?rq = "demo_request (Some (utc_to_ts 2))"
  have "sm_timestamp ` set (samples_of_pid (rq_pid ?rq) ?pms) = {4, 2, 1}"
    by (auto simp: demo_tracker_defs samples_of_pid_def demo_request_def)
  then have c: "time_codec demo_codec {4, 2, 1, 9}" "sm_timestamp ` set (samples_of_pid (rq_pid ?rq) ?pms) \<subseteq> {4, 2, 1, 9}"
    by (auto intro: demo_time_codec)
  have "in_i64 2" "in_i64 9" by (simp_all add: in_i64_def epoch_secs_def)
  with metrics_reply_exact [of demo_api _ ?rq, OF _ _ _ refl c refl, of 2 9 "\<lambda>_. True" "\<lambda>_. 0"]
  have "get_system_metrics (\<lambda>_. True) demo_api (Answered ()) (\<lambda>_. 0)
       (\<lambda>i q. Answered (tracker_query (sqlite_metrics_store demo_codec) q None (sqlite_table demo_codec ?pms))) ?rq =
     reply_with (sort_key sm_timestamp (filter (\<lambda>m. 2 \<le> sm_timestamp m \<and> sm_timestamp m \<le> 9) (samples_of_pid 7 ?pms)))"
    by (simp add: demo_api_def demo_request_def)
  then show ?thesis
    by (simp add: demo_tracker_defs pb_of_metric_def reply_with_def samples_of_pid_def)
qed

end
