(* ===== verification/Snapshot_Client.thy ===== *)
theory Snapshot_Client
  imports Grpc_Server Snapshot_Stage Std_Text
begin

text \<open>
  The clients of kronictl, src/bin/kronictl.rs: the snapshot read back from a gRPC reply, and the HTTP
  side of src/daemon/server/http.rs and kronictl, a snapshot or a stream of server-sent events read
  off a raw socket.

  A conversion reads the clock at every timestamp that is missing or out of range; the readings are a
  parameter, \<open>clk\<close>, by the place of the timestamp in the reply.
  The JSON of serde is a parameter, a pair of functions; so is the framing that axum and hyper put
  around the events, of which the properties use what the protocol says.
\<close>

section \<open>The snapshot of a reply\<close>

text \<open>
  \<open>from_timestamp\<close> of chrono: seconds in range, fewer than a billion nanoseconds, or up to twice as
  many in the last second of a minute, a leap second, which counts as the instants after it.  The
  nanoseconds of the message are cast to a \<open>u32\<close>.
\<close>

definition from_timestamp :: "(int \<Rightarrow> bool) \<Rightarrow> pb_timestamp \<Rightarrow> instant option" where
  "from_timestamp holds ts =
     (let s = sint (ts_seconds ts); n = uint (ts_nanos ts) in
      if holds s \<and> (n < 1000000000 \<or> n < 2000000000 \<and> s mod 60 = 59) then Some (secs s + n) else None)"

definition time_or_now :: "(int \<Rightarrow> bool) \<Rightarrow> instant \<Rightarrow> pb_timestamp option \<Rightarrow> instant" where
  "time_or_now holds now ts = (case Option.bind ts (from_timestamp holds) of None \<Rightarrow> now | Some t \<Rightarrow> t)"

definition state_of_pb :: "i32 \<Rightarrow> activity_state" where
  "state_of_pb n = (if n = 1 then Active else if n = 2 then Passive else if n = 3 then Inactive
     else if n = 4 then Locked else Inactive)"

definition run_id_of_pb :: "string \<Rightarrow> string option" where
  "run_id_of_pb s = (if s = [] then None else Some s)"

definition focus_of_pb :: "(int \<Rightarrow> bool) \<Rightarrow> instant \<Rightarrow> pb_focus \<Rightarrow> window_focus_info" where
  "focus_of_pb holds now f = \<lparr> fi_pid = pf_pid f, fi_process_start_time = pf_process_start_time f,
     fi_app_name = pf_app_name f, fi_window_title = pf_window_title f,
     fi_window_id = (case parse_u32 (pf_window_id f) of None \<Rightarrow> 0 | Some n \<Rightarrow> n),
     fi_window_instance_start = time_or_now holds now (pf_window_instance_start f),
     fi_window_position = map_option (\<lambda>p. \<lparr> pos_x = pp_x p, pos_y = pp_y p \<rparr>) (pf_window_position f),
     fi_window_size = map_option (\<lambda>s. (ps_width s, ps_height s)) (pf_window_size f) \<rparr>"

definition at_places :: "(nat list \<Rightarrow> instant) \<Rightarrow> nat list \<Rightarrow> nat list \<Rightarrow> instant" where
  "at_places clk place p = clk (place @ p)"

definition map_placed :: "((nat list \<Rightarrow> instant) \<Rightarrow> 'a \<Rightarrow> 'b) \<Rightarrow> (nat list \<Rightarrow> instant) \<Rightarrow> 'a list \<Rightarrow> 'b list" where
  "map_placed f clk xs = map (\<lambda>(i, x). f (at_places clk [i]) x) (enumerate 0 xs)"

definition transition_of_pb :: "(int \<Rightarrow> bool) \<Rightarrow> instant \<Rightarrow> pb_transition \<Rightarrow> transition" where
  "transition_of_pb holds now t = \<lparr> trn_from = state_of_pb (pt_from t), trn_to = state_of_pb (pt_to t),
     trn_at = time_or_now holds now (pt_at t), trn_by_signal = None, trn_run_id = run_id_of_pb (pt_run_id t) \<rparr>"

definition config_of_pb :: "pb_config \<Rightarrow> config_summary" where
  "config_of_pb c = \<lparr> cfg_active_grace_secs = pc_active_grace_secs c, cfg_idle_threshold_secs = pc_idle_threshold_secs c,
     cfg_retention_minutes = pc_retention_minutes c, cfg_ephemeral_max_duration_secs = pc_ephemeral_max_duration_secs c,
     cfg_ephemeral_min_distinct_ids = ucast (pc_ephemeral_min_distinct_ids c),
     cfg_ephemeral_app_max_duration_secs = pc_ephemeral_app_max_duration_secs c,
     cfg_ephemeral_app_min_distinct_procs = ucast (pc_ephemeral_app_min_distinct_procs c) \<rparr>"

definition window_of_pb :: "(int \<Rightarrow> bool) \<Rightarrow> (nat list \<Rightarrow> instant) \<Rightarrow> pb_window \<Rightarrow> snapshot_window" where
  "window_of_pb holds clk w = \<lparr> sw_window_id = pw_window_id w, sw_window_title = pw_window_title w,
     sw_first_seen = time_or_now holds (clk [0]) (pw_first_seen w), sw_last_seen = time_or_now holds (clk [1]) (pw_last_seen w),
     sw_duration_seconds = pw_duration_seconds w, sw_is_group = pw_is_group w \<rparr>"

text \<open>The body of \<open>pretty_dur\<close>, as that of kronictl's \<open>pretty_duration\<close>, is the one of the snapshot stage.\<close>

definition pretty_dur :: "u64 \<Rightarrow> string" where
  "pretty_dur seconds =
     (if seconds = 0 then ''0s''
      else
        (let days = seconds div (24 * 3600);
             hours = (seconds mod (24 * 3600)) div 3600;
             minutes = (seconds mod 3600) div 60;
             sec = seconds mod 60;
             r0 = (if 0 < days then u64_str days @ ''d'' else []);
             r1 = r0 @ (if 0 < hours then u64_str hours @ ''h'' else []);
             r2 = r1 @ (if 0 < minutes then u64_str minutes @ ''m'' else [])
         in if 0 < sec \<or> r2 = [] then r2 @ u64_str sec @ ''s'' else r2))"

definition app_of_pb :: "(int \<Rightarrow> bool) \<Rightarrow> (nat list \<Rightarrow> instant) \<Rightarrow> pb_app \<Rightarrow> snapshot_app" where
  "app_of_pb holds clk a = \<lparr> sa_app_name = pa_app_name a, sa_pid = pa_pid a, sa_process_start_time = pa_process_start_time a,
     sa_windows = map_placed (window_of_pb holds) clk (pa_windows a), sa_total_duration_secs = pa_total_duration_secs a,
     sa_total_duration_pretty = (if pa_total_duration_pretty a = [] then pretty_dur (pa_total_duration_secs a)
       else pa_total_duration_pretty a) \<rparr>"

definition record_of_pb :: "(int \<Rightarrow> bool) \<Rightarrow> (nat list \<Rightarrow> instant) \<Rightarrow> pb_record \<Rightarrow> activity_record" where
  "record_of_pb holds clk r = \<lparr> rec_id = pd_record_id r, rec_run_id = run_id_of_pb (pd_run_id r),
     rec_start_time = time_or_now holds (clk [0]) (pd_start_time r), rec_end_time = Option.bind (pd_end_time r) (from_timestamp holds),
     rec_state = state_of_pb (pd_state r), rec_focus_info = map_option (focus_of_pb holds (clk [1])) (pd_focus r),
     rec_event_count = pd_event_count r, rec_triggering_events = pd_triggering_events r \<rparr>"

definition map_pb_snapshot :: "(int \<Rightarrow> bool) \<Rightarrow> (nat list \<Rightarrow> instant) \<Rightarrow> snapshot_reply \<Rightarrow> snapshot" where
  "map_pb_snapshot holds clk re = \<lparr> sn_seq = re_seq re, sn_mono_ns = re_mono_ns re, sn_run_id = run_id_of_pb (re_run_id re),
     sn_activity_state = state_of_pb (re_activity_state re), sn_focus = map_option (focus_of_pb holds (clk [0])) (re_focus re),
     sn_last_transition = map_option (transition_of_pb holds (clk [1])) (re_last_transition re), sn_transitions_recent = [],
     sn_counts = (case re_counts re of None \<Rightarrow> \<lparr> signals_seen = 0, hints_seen = 0, records_emitted = 0 \<rparr>
       | Some c \<Rightarrow> \<lparr> signals_seen = pn_signals_seen c, hints_seen = pn_hints_seen c, records_emitted = pn_records_emitted c \<rparr>),
     sn_cadence_ms = (case re_cadence re of None \<Rightarrow> 0 | Some c \<Rightarrow> pe_current_ms c),
     sn_cadence_reason = (case re_cadence re of None \<Rightarrow> [] | Some c \<Rightarrow> pe_reason c),
     sn_next_timeout = Option.bind (re_next_timeout re) (from_timestamp holds),
     sn_storage = (case re_storage re of None \<Rightarrow> \<lparr> backlog_count = 0, last_flush_at = None \<rparr>
       | Some st \<Rightarrow> \<lparr> backlog_count = po_backlog_count st, last_flush_at = Option.bind (po_last_flush st) (from_timestamp holds) \<rparr>),
     sn_config = (case re_config re of None \<Rightarrow> config_summary_default | Some c \<Rightarrow> config_of_pb c),
     sn_health = re_health re, sn_aggregated_apps = map_placed (app_of_pb holds) (at_places clk [2]) (re_aggregated_apps re),
     sn_records = map_placed (record_of_pb holds) (at_places clk [3]) (re_records re) \<rparr>"

section \<open>The snapshot and its stream over HTTP\<close>

text \<open>serde's JSON: \<open>to_string\<close> and \<open>from_str\<close> at the type of a snapshot.\<close>

record json =
  js_write :: "snapshot \<Rightarrow> string option"
  js_read :: "string \<Rightarrow> snapshot option"

text \<open>The server: the body of \<open>/v1/snapshot\<close>, and the data of the events of \<open>/v1/stream\<close> for the values its receiver sees.\<close>

definition snapshot_handler :: "snapshot_bus \<Rightarrow> snapshot" where
  "snapshot_handler bus = bus_snapshot bus"

definition stream_handler :: "json \<Rightarrow> snapshot list \<Rightarrow> string list" where
  "stream_handler js seen = map (\<lambda>s. case js_write js s of None \<Rightarrow> ''{}'' | Some d \<Rightarrow> d) seen"

definition crlf :: string where
  "crlf = [char_of (13::nat), newline]"

fun http_body :: "string \<Rightarrow> string option" where
  "http_body [] = None"
| "http_body (c # cs) = (if starts_with (c # cs) (crlf @ crlf) then Some (drop 4 (c # cs)) else http_body cs)"

text \<open>The response, already decoded, of which everything behind the first blank line is the body.\<close>

definition http_get_snapshot :: "json \<Rightarrow> string \<Rightarrow> string + snapshot" where
  "http_get_snapshot js resp = (case http_body resp of
      None \<Rightarrow> Inl ''invalid HTTP response from admin UDS''
    | Some body \<Rightarrow> (case js_read js body of None \<Rightarrow> Inl ''parse snapshot JSON'' | Some s \<Rightarrow> Inr s))"

text \<open>\<open>kronictl snapshot\<close>: gRPC, and HTTP when that fails.\<close>

definition snapshot_autoselect :: "(int \<Rightarrow> bool) \<Rightarrow> (nat list \<Rightarrow> instant) \<Rightarrow> json \<Rightarrow> snapshot_reply option \<Rightarrow> (string + string) \<Rightarrow> string + snapshot" where
  "snapshot_autoselect holds clk js grpc http = (case grpc of
      Some reply \<Rightarrow> Inr (map_pb_snapshot holds clk reply)
    | None \<Rightarrow> (case http of Inl e \<Rightarrow> Inl e | Inr resp \<Rightarrow> http_get_snapshot js resp))"

text \<open>
  The stream comes as the lines \<open>read_line\<close> delivers, each with its line end, up to the end of the
  connection, clean (\<open>None\<close>) or with an error.
\<close>

fun skip_headers :: "string list \<Rightarrow> string list option" where
  "skip_headers [] = None"
| "skip_headers (l # ls) = (if l = crlf then Some ls else skip_headers ls)"

text \<open>\<open>trimmer\<close> is the trimming of the payload, \<open>trim\<close> in \<open>watch\<close> and \<open>trim_end\<close> in \<open>monitor\<close>.\<close>

fun sse_events :: "(string \<Rightarrow> string) \<Rightarrow> json \<Rightarrow> string \<Rightarrow> string list \<Rightarrow> (string \<times> snapshot) list" where
  "sse_events trimmer js data_buf [] = []"
| "sse_events trimmer js data_buf (l # ls) =
     (if starts_with l ''data:'' then sse_events trimmer js (data_buf @ trimmer (drop 5 l) @ [newline]) ls
      else if l = crlf \<or> l = [newline] then
        (if data_buf \<noteq> [] then
           (case js_read js (trim_end data_buf) of None \<Rightarrow> [] | Some s \<Rightarrow> [(trim_end data_buf, s)])
           @ sse_events trimmer js [] ls
         else sse_events trimmer js data_buf ls)
      else sse_events trimmer js data_buf ls)"

definition sse_watch_via_http :: "json \<Rightarrow> string list \<Rightarrow> string option \<Rightarrow> (string \<times> snapshot) list \<times> string option" where
  "sse_watch_via_http js ls closed = (case skip_headers ls of
      None \<Rightarrow> ([], Some (case closed of None \<Rightarrow> ''closed before headers'' | Some e \<Rightarrow> e))
    | Some rest \<Rightarrow> (sse_events trim js [] rest, closed))"

definition monitor_stream :: "json \<Rightarrow> string list \<Rightarrow> snapshot list" where
  "monitor_stream js ls = (case skip_headers ls of None \<Rightarrow> [] | Some rest \<Rightarrow> map snd (sse_events trim_end js [] rest))"

text \<open>\<open>kronictl watch\<close>: the replies of a gRPC stream until it fails, and then HTTP from the start.\<close>

definition sse_watch ::
  "(int \<Rightarrow> bool) \<Rightarrow> (nat list \<Rightarrow> instant) \<Rightarrow> json \<Rightarrow> snapshot_reply list \<times> bool \<Rightarrow> string list \<times> string option \<Rightarrow> snapshot list \<times> string option" where
  "sse_watch holds clk js grpc http =
     (let shown = map (map_pb_snapshot holds clk) (fst grpc) in
      if snd grpc then (let (evs, r) = sse_watch_via_http js (fst http) (snd http) in (shown @ map snd evs, r))
      else (shown, None))"

section \<open>Specification\<close>

text \<open>The instants of a snapshot, and what a client shows of an application: a total is never blank.\<close>

definition option_list :: "'a option \<Rightarrow> 'a list" where
  "option_list x = (case x of None \<Rightarrow> [] | Some y \<Rightarrow> [y])"

definition record_times :: "activity_record \<Rightarrow> instant list" where
  "record_times r = rec_start_time r # option_list (rec_end_time r)
     @ map fi_window_instance_start (option_list (rec_focus_info r))"

definition app_times :: "snapshot_app \<Rightarrow> instant list" where
  "app_times a = concat (map (\<lambda>w. [sw_first_seen w, sw_last_seen w]) (sa_windows a))"

definition snapshot_times :: "snapshot \<Rightarrow> instant list" where
  "snapshot_times s = map fi_window_instance_start (option_list (sn_focus s)) @ map trn_at (option_list (sn_last_transition s))
     @ option_list (sn_next_timeout s) @ option_list (last_flush_at (sn_storage s))
     @ concat (map app_times (sn_aggregated_apps s)) @ concat (map record_times (sn_records s))"

definition sendable :: "(int \<Rightarrow> bool) \<Rightarrow> instant \<Rightarrow> bool" where
  "sendable holds t \<longleftrightarrow> in_i64 t \<and> holds (epoch_secs t)"

definition client_app :: "snapshot_app \<Rightarrow> snapshot_app" where
  "client_app a = (if sa_total_duration_pretty a = []
     then a\<lparr> sa_total_duration_pretty := pretty_format_duration (sa_total_duration_secs a) \<rparr> else a)"

definition client_snapshot :: "snapshot \<Rightarrow> snapshot" where
  "client_snapshot s = (shown_snapshot s)\<lparr> sn_aggregated_apps := map client_app (sn_aggregated_apps s) \<rparr>"

text \<open>
  What the protocol says of the lines of a stream of events with one line of data each: every event is
  its data line and a blank line, and between events there may be other lines, comments to keep the
  connection alive, or the sizes and ends of the chunks of the transfer.
\<close>

inductive sse_framed :: "string list \<Rightarrow> string list \<Rightarrow> bool" where
  framed_Nil: "sse_framed [] []"
| framed_noise: "sse_framed ls ds \<Longrightarrow> \<not> starts_with l ''data:'' \<Longrightarrow> sse_framed (l # ls) ds"
| framed_event: "sse_framed ls ds \<Longrightarrow> sse_framed ((''data: '' @ d @ [newline]) # [newline] # ls) (d # ds)"

text \<open>What the JSON of a snapshot is like: one line that begins and ends in a printable byte and is read back.\<close>

definition json_ok :: "json \<Rightarrow> snapshot \<Rightarrow> bool" where
  "json_ok js s = (case js_write js s of None \<Rightarrow> False
     | Some d \<Rightarrow> d \<noteq> [] \<and> plain (hd d) \<and> plain (last d) \<and> js_read js d = Some s \<and> js_read js (CHR '' '' # d) = Some s)"

section \<open>Lemmas\<close>

lemma map_placed_map:
  assumes "\<And>clk x. x \<in> set xs \<Longrightarrow> f clk (g x) = h x"
  shows "map_placed f clk (map g xs) = map h xs"
  by (rule nth_equalityI) (simp_all add: map_placed_def nth_enumerate_eq assms)

lemma from_timestamp_sent: "sendable holds t \<Longrightarrow> from_timestamp holds (utc_to_ts t) = Some t"
proof -
  assume s: "sendable holds t"
  have "secs (epoch_secs t) + subsec_nanos t = t"
    by (simp add: secs_def epoch_secs_def subsec_nanos_def)
  moreover have "uint (ts_nanos (utc_to_ts t)) = subsec_nanos t"
    using subsec_bounds [of t] by (simp add: utc_to_ts_def unsigned_of_int take_bit_int_eq_self)
  ultimately show ?thesis
    using s ts_fields(1) [of t] subsec_bounds [of t] by (simp add: from_timestamp_def sendable_def)
qed

lemma time_sent [simp]: "sendable holds t \<Longrightarrow> time_or_now holds now (Some (utc_to_ts t)) = t"
  by (simp add: time_or_now_def from_timestamp_sent)

lemma optional_time_sent:
  "\<forall>t \<in> set (option_list x). sendable holds t \<Longrightarrow> Option.bind (map_option utc_to_ts x) (from_timestamp holds) = x"
  by (cases x) (simp_all add: option_list_def from_timestamp_sent)

lemma state_sent [simp]: "state_of_pb (map_state a) = a"
  by (cases a) (simp_all add: state_of_pb_def)

lemma run_id_sent [simp]: "run_id_of_pb (unwrap_or_default x) = shown_run_id x"
  by (cases x) (simp_all add: run_id_of_pb_def unwrap_or_default_def shown_run_id_def)

lemma focus_sent: "sendable holds (fi_window_instance_start f) \<Longrightarrow> focus_of_pb holds now (map_focus f) = f"
proof -
  have "(\<lambda>p. \<lparr> pos_x = pos_x p, pos_y = pos_y p \<rparr>) = (\<lambda>p :: mouse_position. p)" by (simp add: fun_eq_iff)
  then show "sendable holds (fi_window_instance_start f) \<Longrightarrow> ?thesis"
  by (cases f) (auto simp: focus_of_pb_def map_focus_def parse_u32_nat_str option.map_comp o_def option.map_ident split_beta)
qed

lemma optional_focus_sent:
  "\<forall>f \<in> set (option_list x). sendable holds (fi_window_instance_start f) \<Longrightarrow>
     map_option (focus_of_pb holds now) (map_option map_focus x) = x"
  by (cases x) (simp_all add: option_list_def focus_sent)

lemma transition_sent: "sendable holds (trn_at t) \<Longrightarrow> transition_of_pb holds now (pb_of_transition t) = shown_transition t"
  by (cases t) (simp add: transition_of_pb_def pb_of_transition_def shown_transition_def)

lemma count_sent: "ucast (ucast (n :: u64) :: u32) = take_bit 32 n"
  by (rule bit_word_eqI) (auto simp: bit_simps)

lemma config_sent: "config_of_pb (pb_of_config c) = shown_config c"
  by (cases c) (simp add: config_of_pb_def pb_of_config_def shown_config_def count_sent)

lemma pretty_dur_eq: "pretty_dur = pretty_format_duration"
  by (simp add: pretty_dur_def pretty_format_duration_def fun_eq_iff)

lemma app_sent:
  assumes "\<forall>t \<in> set (app_times a). sendable holds t"
  shows "app_of_pb holds clk (pb_of_app a) = client_app a"
proof -
  have "map_placed (window_of_pb holds) clk (map pb_of_window (sa_windows a)) = map (\<lambda>w. w) (sa_windows a)"
  proof (rule map_placed_map)
    fix clk w
    assume "w \<in> set (sa_windows a)"
    with assms have "sendable holds (sw_first_seen w)" "sendable holds (sw_last_seen w)"
      by (auto simp: app_times_def)
    then show "window_of_pb holds clk (pb_of_window w) = w" by (simp add: window_of_pb_def pb_of_window_def)
  qed
  then show ?thesis by (simp add: app_of_pb_def pb_of_app_def client_app_def pretty_dur_eq)
qed

lemma record_sent:
  assumes "\<forall>t \<in> set (record_times r). sendable holds t"
  shows "record_of_pb holds clk (pb_of_record r) = shown_record r"
proof -
  from assms have "sendable holds (rec_start_time r)" "\<forall>t \<in> set (option_list (rec_end_time r)). sendable holds t"
    "\<forall>f \<in> set (option_list (rec_focus_info r)). sendable holds (fi_window_instance_start f)"
    by (auto simp: record_times_def)
  then show ?thesis
    by (cases r) (simp add: record_of_pb_def pb_of_record_def shown_record_def optional_time_sent optional_focus_sent)
qed

lemma trim_end_newline:
  assumes "s \<noteq> []" and "plain (last s)"
  shows "trim_end (s @ [newline]) = s"
proof -
  have n: "list_all (\<lambda>w. \<not> plain (hd w)) (map rev white_spaces)"
    using white_spaces_plain by (auto simp: list_all_iff hd_rev)
  have "find (\<lambda>w. w \<noteq> [] \<and> starts_with (newline # rev s) w) (map rev white_spaces) = Some [newline]"
    by (simp add: white_spaces_def starts_with_def newline_def)
  then have "drop_spaces (map rev white_spaces) (newline # rev s) = drop_spaces (map rev white_spaces) (rev s)"
    by (subst drop_spaces.simps) simp
  also have "\<dots> = rev s" using assms by (intro drop_spaces_plain [OF n]) (simp add: hd_rev)
  finally show ?thesis by (simp add: trim_end_def)
qed

lemma trim_end_ends: "s \<noteq> [] \<Longrightarrow> plain (last s) \<Longrightarrow> trim_end s = s"
  using white_spaces_plain by (auto simp: trim_end_def drop_spaces_plain list_all_iff hd_rev)

lemma trim_data:
  assumes "d \<noteq> []" and "plain (hd d)" and "plain (last d)"
  shows "trim (d @ [newline]) = d" and "trim_end (CHR '' '' # d @ [newline]) = CHR '' '' # d"
proof -
  have "trim_start (d @ [newline]) = d @ [newline]"
    using assms white_spaces_plain unfolding trim_start_def by (intro drop_spaces_plain) (auto simp: list_all_iff)
  then show "trim (d @ [newline]) = d"
    using trim_end_newline assms by (simp add: trim_def)
  show "trim_end (CHR '' '' # d @ [newline]) = CHR '' '' # d"
    using trim_end_newline [of "CHR '' '' # d"] assms by simp
qed

lemma framed_events:
  assumes "sse_framed ls ds" and "ds = stream_handler js seen" and "list_all (json_ok js) seen"
  shows "sse_events trim js [] ls = map (\<lambda>s. (the (js_write js s), s)) seen"
    and "map snd (sse_events trim_end js [] ls) = seen"
  using assms
proof (induction arbitrary: seen rule: sse_framed.induct)
  case framed_Nil
  {
    case 1
    then show ?case by (simp add: stream_handler_def)
  next
    case 2
    then show ?case by (simp add: stream_handler_def)
  }
next
  case (framed_noise ls ds l)
  {
    case 1
    then show ?case using framed_noise by simp
  next
    case 2
    then show ?case using framed_noise by simp
  }
next
  case (framed_event ls ds d)
  have data: "\<exists>s rest. seen = s # rest \<and> ds = stream_handler js rest \<and> list_all (json_ok js) rest \<and> js_write js s = Some d
      \<and> d \<noteq> [] \<and> plain (hd d) \<and> plain (last d) \<and> js_read js d = Some s \<and> js_read js (CHR '' '' # d) = Some s"
    if "d # ds = stream_handler js seen" and "list_all (json_ok js) seen" for seen
    using that by (cases seen) (auto simp: stream_handler_def json_ok_def split: option.splits)
  have lines: "starts_with (''data: '' @ d @ [newline]) ''data:''" "\<not> starts_with [newline] ''data:''"
    by (simp_all add: starts_with_def)
  {
    case 1
    from data [OF 1] obtain s rest where "seen = s # rest" "ds = stream_handler js rest" "list_all (json_ok js) rest"
      "js_write js s = Some d" "d \<noteq> []" "plain (hd d)" "plain (last d)" "js_read js d = Some s" by blast
    with framed_event.IH(1) [of rest] lines show ?case by (simp add: trim_data trim_end_newline)
  next
    case 2
    from data [OF 2] obtain s rest where "seen = s # rest" "ds = stream_handler js rest" "list_all (json_ok js) rest"
      "d \<noteq> []" "plain (hd d)" "plain (last d)" "js_read js (CHR '' '' # d) = Some s" by blast
    with framed_event.IH(2) [of rest] lines trim_end_newline [of "CHR '' '' # d"] show ?case by (simp add: trim_data)
  }
qed

lemma skip_headers_found: "crlf \<notin> set hs \<Longrightarrow> skip_headers (hs @ crlf # ls) = Some ls"
  by (induction hs) auto

lemma snapshot_sent:
  assumes "\<forall>t \<in> set (snapshot_times s). sendable holds t"
  shows "map_pb_snapshot holds clk (to_pb s) = client_snapshot s"
proof -
  have apps: "map_placed (app_of_pb holds) c (map pb_of_app (sn_aggregated_apps s)) = map client_app (sn_aggregated_apps s)" for c
    using assms by (intro map_placed_map app_sent) (auto simp: snapshot_times_def)
  have recs: "map_placed (record_of_pb holds) c (map pb_of_record (sn_records s)) = map shown_record (sn_records s)" for c
    using assms by (intro map_placed_map record_sent) (auto simp: snapshot_times_def)
  have trn: "map_option (transition_of_pb holds now) (map_option pb_of_transition (sn_last_transition s))
      = map_option shown_transition (sn_last_transition s)" for now
    using assms by (cases "sn_last_transition s") (simp_all add: snapshot_times_def option_list_def transition_sent)
  have "map_option (focus_of_pb holds now) (map_option map_focus (sn_focus s)) = sn_focus s" for now
    using assms by (intro optional_focus_sent) (auto simp: snapshot_times_def)
  moreover have "Option.bind (map_option utc_to_ts (sn_next_timeout s)) (from_timestamp holds) = sn_next_timeout s"
    and "Option.bind (map_option utc_to_ts (last_flush_at (sn_storage s))) (from_timestamp holds) = last_flush_at (sn_storage s)"
    using assms by (auto intro!: optional_time_sent simp: snapshot_times_def)
  ultimately show ?thesis
    by (simp add: map_pb_snapshot_def to_pb_def client_snapshot_def shown_snapshot_def apps recs trn config_sent)
qed

section \<open>Properties\<close>

text \<open>
  C13: What kronictl shows is the daemon's snapshot: reading back the reply that the gRPC server makes of
  a snapshot gives the snapshot, without the recent transitions and the signal of the last one, with 32
  bits of the two counts of the configuration, an empty run id as none, and a missing total filled in;
  every other field, every time to the nanosecond, is the daemon's, and the client's clock has no part.
\<close>
theorem client_reads_snapshot:
  assumes "\<forall>t \<in> set (snapshot_times s). sendable holds t"
  shows "map_pb_snapshot holds clk (to_pb s) = client_snapshot s"
  using assms by (rule snapshot_sent)

text \<open>
  C14: The stream over HTTP delivers what the daemon publishes.  Whatever the head of the response, and
  whatever keep-alive comments and chunk boundaries lie between the events, \<open>watch\<close> prints the JSON of
  exactly the snapshots the stream handler saw, in their order, and \<open>monitor\<close> draws them.
\<close>
theorem stream_is_reread:
  assumes "crlf \<notin> set hs" and "sse_framed ls (stream_handler js seen)" and "list_all (json_ok js) seen"
  shows "sse_watch_via_http js (hs @ crlf # ls) closed = (map (\<lambda>s. (the (js_write js s), s)) seen, closed)
    \<and> monitor_stream js (hs @ crlf # ls) = seen"
  using framed_events [OF assms(2) refl assms(3)]
  by (simp add: sse_watch_via_http_def monitor_stream_def skip_headers_found [OF assms(1)])

section \<open>Witnesses\<close>

theorem client_reads_snapshot_witness:
  "map_pb_snapshot (\<lambda>_. True) (\<lambda>_. 77) (to_pb (demo_snapshot 3 (Some ''keyboard''))) = client_snapshot (demo_snapshot 3 (Some ''keyboard''))
   \<and> sn_focus (client_snapshot (demo_snapshot 3 (Some ''keyboard''))) = Some demo_mail"
proof
  show "map_pb_snapshot (\<lambda>_. True) (\<lambda>_. 77) (to_pb (demo_snapshot 3 (Some ''keyboard''))) = client_snapshot (demo_snapshot 3 (Some ''keyboard''))"
    by (rule client_reads_snapshot)
      (simp add: snapshot_times_def demo_snapshot_def snapshot_empty_def option_list_def demo_mail_def sendable_def in_i64_def epoch_secs_def)
qed (simp add: client_snapshot_def shown_snapshot_def demo_snapshot_def)

definition demo_json :: json where
  "demo_json = \<lparr> js_write = (\<lambda>s. Some (''{'' @ nat_str (unat (sn_seq s)) @ ''}'')),
     js_read = (\<lambda>d. if trim d = ''{0}'' then Some (snapshot_empty 5) else None) \<rparr>"

definition demo_stream :: "string list" where
  "demo_stream = [''9'' @ crlf, ''data: {0}'' @ [newline], [newline], crlf, [newline]]"

lemma demo_json_ok: "json_ok demo_json (snapshot_empty 5)" "js_write demo_json (snapshot_empty 5) = Some ''{0}''"
  "js_read demo_json ''{0}'' = Some (snapshot_empty 5)"
proof -
  show w: "js_write demo_json (snapshot_empty 5) = Some ''{0}''"
    by (simp add: demo_json_def snapshot_empty_def nat_str.simps digit_chars)
  have t: "trim ''{0}'' = ''{0}''" by (rule trim_plain) (simp add: plain_def)
  with w show "json_ok demo_json (snapshot_empty 5)" by (simp add: json_ok_def plain_def) (simp add: demo_json_def)
  show "js_read demo_json ''{0}'' = Some (snapshot_empty 5)" using t by (simp add: demo_json_def)
qed

lemma demo_stream_framed: "sse_framed demo_stream (stream_handler demo_json [snapshot_empty 5])"
  using framed_noise [OF framed_event [OF framed_noise [OF framed_noise [OF framed_Nil]], of _ _ "''{0}''"]]
  by (simp add: demo_stream_def stream_handler_def demo_json_ok starts_with_def crlf_def)

theorem stream_is_reread_witness:
  "monitor_stream demo_json ([''HTTP/1.1 200 OK'' @ crlf] @ crlf # demo_stream) = [snapshot_empty 5]"
proof -
  have "crlf \<notin> set [''HTTP/1.1 200 OK'' @ crlf]" by simp
  from stream_is_reread [OF this demo_stream_framed] demo_json_ok show ?thesis by simp
qed

end
