(* ===== verification/Monitor.thy ===== *)
theory Monitor
  imports Sleep_Period Snapshot_Client Aggregation
begin

text \<open>
  The monitor of kronictl, src/bin/kronictl.rs, and of its screen the applications: the period they
  are counted in, the tree built for it, the labels of groups, and the rows.  The terminal, its keys
  and colours are ratatui's and crossterm's.

  The clock readings, the texts chrono makes of local times, and the widths of characters are
  parameters.  The tree is built by a copy of the code of the snapshot stage; that it is the same
  function is a theorem.
\<close>

section \<open>The period\<close>

definition pretty_duration :: "u64 \<Rightarrow> string" where
  "pretty_duration seconds =
     (if seconds = 0 then ''0s''
      else
        (let days = seconds div (24 * 3600);
             hours = (seconds mod (24 * 3600)) div 3600;
             minutes = (seconds mod 3600) div 60;
             sec = seconds mod 60;
             r0 = (if 0 < days then u64_str days @ ''d'' else []);
             r1 = r0 @ (if 0 < hours then u64_str hours @ ''h'' else []);
             r2 = r1 @ (if 0 < minutes then u64_str minutes @ ''m'' else [])
         in if 0 < sec \<or> r2 = [] then r2 @ u64_str sec @ ''s'' else r2))"

text \<open>The en dash is the bytes E2 80 93; \<open>hm\<close> shows an instant as local hours and minutes.\<close>

definition en_dash :: string where
  "en_dash = [CHR 0xE2, CHR 0x80, CHR 0x93]"

record apps_period =
  per_since :: instant
  per_title :: string
  per_line :: string

text \<open>\<open>now_utc\<close>, \<open>now_local\<close> and \<open>now_search\<close> are the three readings of the clock.\<close>

definition select_apps_period ::
  "time_zone \<Rightarrow> 'd score_ops \<Rightarrow> (instant \<Rightarrow> string) \<Rightarrow> instant \<Rightarrow> instant \<Rightarrow> instant \<Rightarrow> activity_record list \<Rightarrow> apps_period" where
  "select_apps_period Z D hm now_utc now_local now_search records =
     (case find_sleep_period Z D records now_utc now_search (4 * 60 * 60) of
        Some (start, fin) \<Rightarrow>
          \<lparr> per_since = start, per_title = ''Apps (since '' @ hm start @ '')'',
            per_line = ''Period: last loginwindow '' @ hm start @ en_dash @ hm fin @ '' (''
              @ pretty_duration (word_of_int (max (num_seconds (fin - start)) 0)) @ '')'' \<rparr>
      | None \<Rightarrow>
          (let midnight = local_midnight Z now_local in
           \<lparr> per_since = midnight, per_title = ''Apps (since '' @ hm midnight @ '')'',
             per_line = ''Period: since '' @ hm midnight @ '' (fallback: local midnight)'' \<rparr>))"

section \<open>The tree\<close>

fun cli_split_short ::
  "u64 \<Rightarrow> aggregated_activity list \<Rightarrow> (string \<times> aggregated_activity list) list \<Rightarrow>
   (string \<times> aggregated_activity list) list \<times> aggregated_activity list" where
  "cli_split_short max_secs [] short = (short, [])"
| "cli_split_short max_secs (a # as) short =
     (if aa_total_duration_seconds a \<le> max_secs
      then cli_split_short max_secs as (upsert (aa_app_name a) [] (\<lambda>l. l @ [a]) short)
      else (let (short', normal) = cli_split_short max_secs as short in (short', a # normal)))"

definition cli_window_node :: "window_activity \<Rightarrow> snapshot_window" where
  "cli_window_node w =
     \<lparr> sw_window_id = nat_str (unat (wa_window_id w)), sw_window_title = wa_window_title w,
       sw_first_seen = wa_first_seen w, sw_last_seen = wa_last_seen w,
       sw_duration_seconds = wa_duration_seconds w, sw_is_group = False \<rparr>"

definition cli_group_node :: "ephemeral_group \<Rightarrow> snapshot_window" where
  "cli_group_node g =
     (let avg = (if 0 < eg_occurrence_count g then eg_total_duration_seconds g div ucast (eg_occurrence_count g) else 0)
      in \<lparr> sw_window_id = ''group:'' @ eg_title_key g,
           sw_window_title = ''(short-lived) '' @ times_sign @ nat_str (card (eg_distinct_ids g))
             @ '' avg '' @ pretty_duration avg,
           sw_first_seen = eg_first_seen g, sw_last_seen = eg_last_seen g,
           sw_duration_seconds = eg_total_duration_seconds g, sw_is_group = True \<rparr>)"

definition cli_temporal_node :: "nat \<times> temporal_group \<Rightarrow> snapshot_window" where
  "cli_temporal_node = (\<lambda>(idx, g).
     (let avg = (if 0 < tg_occurrence_count g then tg_total_duration_seconds g div ucast (tg_occurrence_count g) else 0)
      in \<lparr> sw_window_id = ''group-temporal:'' @ tg_title_key g @ '':''
             @ int_str (epoch_secs (tg_anchor_last_seen g)) @ '':'' @ nat_str idx,
           sw_window_title = ''(temporal locality) '' @ times_sign @ nat_str (unat (tg_occurrence_count g))
             @ '' avg '' @ pretty_duration avg @ '' max ''
             @ pretty_duration (tg_max_duration_seconds g),
           sw_first_seen = tg_first_seen g, sw_last_seen = tg_last_seen g,
           sw_duration_seconds = tg_total_duration_seconds g, sw_is_group = True \<rparr>))"

definition cli_normal_app :: "tree_env \<Rightarrow> aggregated_activity \<Rightarrow> snapshot_app" where
  "cli_normal_app T a =
     (let k = (aa_pid a, aa_process_start_time a);
          windows = map (\<lambda>(_, w). cli_window_node w) (tr_windows T k (aa_windows a));
          groups = map (\<lambda>(_, g). cli_group_node g) (tr_groups T k (aa_ephemeral_groups a));
          temporal = map cli_temporal_node (enumerate 0 (aa_temporal_groups a))
      in \<lparr> sa_app_name = aa_app_name a, sa_pid = aa_pid a, sa_process_start_time = aa_process_start_time a,
           sa_windows = sort_key (\<lambda>w. - sw_last_seen w) (windows @ groups @ temporal),
           sa_total_duration_secs = aa_total_duration_seconds a,
           sa_total_duration_pretty = pretty_duration (aa_total_duration_seconds a) \<rparr>)"

definition cli_short_fold ::
  "u64 \<times> instant \<times> instant \<times> i32 \<times> u64 \<times> u64 \<Rightarrow> aggregated_activity \<Rightarrow> u64 \<times> instant \<times> instant \<times> i32 \<times> u64 \<times> u64" where
  "cli_short_fold = (\<lambda>(tot, first_seen, last_seen, rep_pid, rep_start, max_dur) a.
     let longer = max_dur < aa_total_duration_seconds a
     in (sat_add tot (aa_total_duration_seconds a),
         if aa_first_seen a < first_seen then aa_first_seen a else first_seen,
         if last_seen < aa_last_seen a then aa_last_seen a else last_seen,
         if longer then aa_pid a else rep_pid,
         if longer then aa_process_start_time a else rep_start,
         if longer then aa_total_duration_seconds a else max_dur))"

definition cli_short_app :: "(string \<Rightarrow> instant) \<Rightarrow> (string \<Rightarrow> instant) \<Rightarrow> string \<times> aggregated_activity list \<Rightarrow> snapshot_app" where
  "cli_short_app now1 now2 = (\<lambda>(name, v).
     case foldl cli_short_fold (0, now1 name, now2 name, 0, 0, 0) v of
       (tot, first_seen, last_seen, rep_pid, rep_start, max_dur) \<Rightarrow>
         (let count = length v;
              avg = (if 0 < count then tot div of_nat count else 0)
          in \<lparr> sa_app_name = name, sa_pid = rep_pid, sa_process_start_time = rep_start,
               sa_windows = [\<lparr> sw_window_id = ''app-group:'' @ name,
                              sw_window_title = times_sign @ nat_str count @ '' avg '' @ pretty_duration avg,
                              sw_first_seen = first_seen, sw_last_seen = last_seen,
                              sw_duration_seconds = tot, sw_is_group = True \<rparr>],
               sa_total_duration_secs = tot,
               sa_total_duration_pretty = pretty_duration tot \<rparr>))"

definition cli_app_last_seen :: "snapshot_app \<Rightarrow> instant" where
  "cli_app_last_seen a = (case sa_windows a of w # _ \<Rightarrow> sw_last_seen w | [] \<Rightarrow> 0)"

definition cli_build_app_tree ::
  "tree_env \<Rightarrow> (string \<Rightarrow> instant) \<Rightarrow> (string \<Rightarrow> instant) \<Rightarrow> aggregated_activity list \<Rightarrow> u64 \<Rightarrow> nat \<Rightarrow> snapshot_app list" where
  "cli_build_app_tree T now1 now2 aggregated app_short_max_duration_secs app_short_min_distinct =
     (let (short_per_name, normal) = cli_split_short app_short_max_duration_secs aggregated [];
          items = map (cli_normal_app T) normal
            @ map (cli_short_app now1 now2)
                (filter (\<lambda>(_, v). app_short_min_distinct \<le> length v) (tr_names T short_per_name))
      in sort_key (\<lambda>a. - cli_app_last_seen a) items)"

section \<open>The applications shown\<close>

record monitor_cfg =
  mo_sleep_filter :: bool
  mo_eph_max :: u64
  mo_eph_min :: nat
  mo_max_windows :: nat
  mo_app_eph_max :: u64
  mo_app_eph_min :: nat

text \<open>The clock readings of one drawing: the three of the period, the end of the aggregation, and the tree's.\<close>

record monitor_clock =
  mk_utc :: instant
  mk_local :: instant
  mk_search :: instant
  mk_agg :: instant
  mk_first :: "string \<Rightarrow> instant"
  mk_last :: "string \<Rightarrow> instant"

definition monitor_apps ::
  "time_zone \<Rightarrow> 'd score_ops \<Rightarrow> (instant \<Rightarrow> string) \<Rightarrow> agg_env \<Rightarrow> tree_env \<Rightarrow> monitor_cfg \<Rightarrow> monitor_clock \<Rightarrow> snapshot \<Rightarrow>
   snapshot_app list \<times> apps_period option" where
  "monitor_apps Z D hm E T cfg now snap =
     (if mo_sleep_filter cfg then
        (let period = select_apps_period Z D hm (mk_utc now) (mk_local now) (mk_search now) (sn_records snap);
             aggregated = aggregate_activities_since E (sn_records snap) (per_since period) (mk_agg now)
               (mo_eph_max cfg) (mo_eph_min cfg) (mo_max_windows cfg);
             apps = cli_build_app_tree T (mk_first now) (mk_last now) aggregated (mo_app_eph_max cfg) (mo_app_eph_min cfg)
         in (apps, Some period))
      else (sn_aggregated_apps snap, None))"

section \<open>Labels of groups\<close>

definition strip_prefix :: "string \<Rightarrow> string \<Rightarrow> string option" where
  "strip_prefix s pre = (if starts_with s pre then Some (drop (length pre) s) else None)"

definition strip_group_prefix :: "string \<Rightarrow> string \<Rightarrow> string option" where
  "strip_group_prefix title canonical = (let pre = trim canonical in
     if pre = [] then None else map_option trim_start (strip_prefix title pre))"

definition group_label_for_display :: "string \<Rightarrow> string \<Rightarrow> string" where
  "group_label_for_display window_id window_title =
     (let canonical = (case strip_prefix window_id ''group:'' of
            Some rest \<Rightarrow> Some rest
          | None \<Rightarrow> map_option (\<lambda>rest. hd (split_on (CHR '':'') rest)) (strip_prefix window_id ''group-temporal:''));
          label = (case canonical of
            Some key \<Rightarrow> (case strip_group_prefix window_title key of Some l \<Rightarrow> l | None \<Rightarrow> window_title)
          | None \<Rightarrow> window_title);
          label' = trim_start label
      in if label' = [] then window_title else label')"

section \<open>Rows\<close>

text \<open>The characters of a string, and the columns a character and a string take.\<close>

record text_env =
  te_chars :: "string \<Rightarrow> string list"
  te_char_width :: "string \<Rightarrow> nat"
  te_width :: "string \<Rightarrow> nat"

definition ellipsis :: string where
  "ellipsis = [CHR 0xE2, CHR 0x80, CHR 0xA6]"

definition bullet :: string where
  "bullet = [CHR '' '', CHR 0xE2, CHR 0x80, CHR 0xA2, CHR '' '']"

definition branch :: "bool \<Rightarrow> string" where
  "branch is_mid = ''  '' @ [CHR 0xE2, CHR 0x94, if is_mid then CHR 0x9C else CHR 0x94]
     @ [CHR 0xE2, CHR 0x94, CHR 0x80, CHR 0xE2, CHR 0x94, CHR 0x80] @ '' ''"

fun cut_title :: "text_env \<Rightarrow> nat \<Rightarrow> nat \<Rightarrow> string list \<Rightarrow> string" where
  "cut_title X limit acc [] = []"
| "cut_title X limit acc (c # cs) =
     (if limit < acc + te_char_width X c then ellipsis else c @ cut_title X limit (acc + te_char_width X c) cs)"

text \<open>The title as it fits a row, and the spaces before the right column.\<close>

definition fit_title :: "text_env \<Rightarrow> nat \<Rightarrow> nat \<Rightarrow> nat \<Rightarrow> string \<Rightarrow> string" where
  "fit_title X width left_fixed visible_right base_title =
     (if width \<le> left_fixed + te_width X base_title + visible_right
      then (let remain = width - (left_fixed + visible_right) in
        if remain = 0 then ellipsis else cut_title X (remain - 2) 0 (te_chars X base_title))
      else base_title)"

definition pad_spaces :: "nat \<Rightarrow> nat \<Rightarrow> nat \<Rightarrow> nat" where
  "pad_spaces width visible_left visible_right =
     (if visible_left + visible_right < width then width - visible_left - visible_right else 1)"

definition base_title :: "snapshot_window \<Rightarrow> string" where
  "base_title w = (if sw_is_group w then group_label_for_display (sw_window_id w) (sw_window_title w) @ '' [group]''
     else sw_window_title w)"

text \<open>\<open>i\<close> is the place of the window among the \<open>n\<close> windows of its application, \<open>hms\<close> shows a local time.\<close>

definition window_row :: "text_env \<Rightarrow> (instant \<Rightarrow> string) \<Rightarrow> nat \<Rightarrow> nat \<Rightarrow> nat \<times> snapshot_window \<Rightarrow> string list" where
  "window_row X hms width n = (\<lambda>(i, w).
     let dur_pretty = pretty_duration (sw_duration_seconds w);
         pre = branch (i + 1 < n \<and> i < 4);
         visible_right = te_width X (dur_pretty @ bullet @ ''since '' @ hms (sw_first_seen w));
         id_text = ''<#'' @ sw_window_id w @ ''>'';
         left_fixed = te_width X pre + te_width X id_text + 1;
         title_display = fit_title X width left_fixed visible_right (base_title w);
         spaces = pad_spaces width (left_fixed + te_width X title_display) visible_right
     in [pre, id_text, '' '', title_display, replicate spaces (CHR '' ''), dur_pretty, bullet, ''since '' @ hms (sw_first_seen w)])"

definition app_rows :: "text_env \<Rightarrow> (instant \<Rightarrow> string) \<Rightarrow> nat \<Rightarrow> snapshot_app \<Rightarrow> string list list" where
  "app_rows X hms width a =
     [''['' @ int_str (sint (sa_pid a)) @ '']'', '' '', sa_app_name a, bullet, sa_total_duration_pretty a]
     # map (window_row X hms width (length (sa_windows a))) (enumerate 0 (take 5 (sa_windows a)))"

text \<open>The lines of the panel, each the list of its spans; \<open>width\<close> is the panel's without its borders.\<close>

definition monitor_rows :: "text_env \<Rightarrow> (instant \<Rightarrow> string) \<Rightarrow> nat \<Rightarrow> snapshot_app list \<times> apps_period option \<Rightarrow> string list list" where
  "monitor_rows X hms width = (\<lambda>(apps, period).
     (case period of None \<Rightarrow> [] | Some p \<Rightarrow> [[per_line p]])
     @ (if apps \<noteq> [] then concat (map (app_rows X hms width) (take 8 apps))
        else if period \<noteq> None then [[''Apps: (no activity in this period)'']]
        else [[''Apps: (no recent activity)'']]))"

definition apps_title :: "apps_period option \<Rightarrow> string" where
  "apps_title period = (case period of None \<Rightarrow> ''Apps'' | Some p \<Rightarrow> per_title p)"

section \<open>Lemmas\<close>

lemma pretty_duration_eq: "pretty_duration = pretty_format_duration"
  by (simp add: pretty_duration_def pretty_format_duration_def fun_eq_iff)

lemma cli_split_short_eq: "cli_split_short m as short = split_short m as short"
  by (induction m as short rule: cli_split_short.induct) (simp_all split: prod.split)

lemma cli_nodes_eq:
  "cli_window_node = window_node" "cli_group_node = group_node" "cli_temporal_node (i, g) = temporal_node i g"
  by (simp_all add: cli_window_node_def window_node_def cli_group_node_def group_node_def cli_temporal_node_def
      temporal_node_def average_def pretty_duration_eq fun_eq_iff)

lemma cli_temporal_nodes_eq: "map cli_temporal_node (enumerate i gs) = temporal_nodes i gs"
  by (induction gs arbitrary: i) (simp_all add: cli_nodes_eq)

lemma cli_normal_app_eq: "cli_normal_app = normal_app"
  by (simp add: cli_normal_app_def normal_app_def cli_nodes_eq cli_temporal_nodes_eq newest_windows_first_def
      pretty_duration_eq fun_eq_iff)

lemma cli_short_app_eq: "cli_short_app = short_app"
proof -
  have "cli_short_fold = short_fold" by (simp add: cli_short_fold_def short_fold_def)
  then show ?thesis by (intro ext) (simp only: cli_short_app_def short_app_def pretty_duration_eq)
qed

lemma cli_app_last_seen_eq: "cli_app_last_seen = app_last_seen"
  by (simp add: cli_app_last_seen_def app_last_seen_def fun_eq_iff)

lemma cli_tree_eq: "cli_build_app_tree = build_app_tree"
  by (simp add: cli_build_app_tree_def build_app_tree_def cli_split_short_eq cli_normal_app_eq cli_short_app_eq
      cli_app_last_seen_eq fun_eq_iff)

definition chars_width :: "text_env \<Rightarrow> string list \<Rightarrow> nat" where
  "chars_width X cs = sum_list (map (te_char_width X) cs)"

text \<open>The width of a title, whole or cut, is that of its characters, and of the ellipsis one column.\<close>

definition title_measured :: "text_env \<Rightarrow> string \<Rightarrow> bool" where
  "title_measured X s \<longleftrightarrow> te_width X s = chars_width X (te_chars X s)
     \<and> (\<forall>n. te_width X (concat (take n (te_chars X s)) @ ellipsis) = chars_width X (take n (te_chars X s)) + 1)"

lemma cut_title_cases:
  "(cut_title X limit acc cs = concat cs \<and> (acc \<le> limit \<longrightarrow> acc + chars_width X cs \<le> limit))
   \<or> (\<exists>n. cut_title X limit acc cs = concat (take n cs) @ ellipsis \<and> (acc \<le> limit \<longrightarrow> acc + chars_width X (take n cs) \<le> limit))"
proof (induction X limit acc cs rule: cut_title.induct)
  case (2 X limit acc c cs)
  show ?case
  proof (cases "limit < acc + te_char_width X c")
    case True
    then show ?thesis by (intro disjI2 exI [of _ 0]) (simp add: chars_width_def)
  next
    case False
    from "2.IH" [OF False] consider
      "cut_title X limit (acc + te_char_width X c) cs = concat cs" "acc + te_char_width X c + chars_width X cs \<le> limit"
      | n where "cut_title X limit (acc + te_char_width X c) cs = concat (take n cs) @ ellipsis"
        "acc + te_char_width X c + chars_width X (take n cs) \<le> limit"
      using False by auto
    then show ?thesis
    proof cases
      case 1
      with False show ?thesis by (simp add: chars_width_def)
    next
      case (2 n)
      with False show ?thesis by (intro disjI2 exI [of _ "Suc n"]) (simp add: chars_width_def)
    qed
  qed
qed (simp add: chars_width_def)

lemma fit_title_width:
  assumes "title_measured X s" and "left_fixed + visible_right + 2 \<le> width"
  shows "left_fixed + te_width X (fit_title X width left_fixed visible_right s) + visible_right < width"
proof (cases "width \<le> left_fixed + te_width X s + visible_right")
  case True
  let ?r = "width - (left_fixed + visible_right)"
  have fit: "fit_title X width left_fixed visible_right s = cut_title X (?r - 2) 0 (te_chars X s)"
    using True assms(2) by (simp add: fit_title_def Let_def)
  have "\<not> chars_width X (te_chars X s) \<le> ?r - 2"
    using True assms by (simp add: title_measured_def)
  with cut_title_cases [of X "?r - 2" 0 "te_chars X s"] obtain n where
    "cut_title X (?r - 2) 0 (te_chars X s) = concat (take n (te_chars X s)) @ ellipsis"
    "chars_width X (take n (te_chars X s)) \<le> ?r - 2" by auto
  then have "te_width X (fit_title X width left_fixed visible_right s) \<le> ?r - 2 + 1"
    using assms(1) fit by (simp add: title_measured_def)
  then show ?thesis using assms(2) by linarith
qed (simp add: fit_title_def)

section \<open>Properties\<close>

text \<open>
  The tree that the monitor builds is the tree that the daemon builds: kronictl's copy of the code is
  the same function of the aggregated activities, iteration orders and clock readings, so the filtered
  view shows what the daemon would publish for records since the period's start; with the filter off
  it shows what the daemon published.
\<close>
theorem monitor_shows_daemon_tree:
  "monitor_apps Z D hm E T cfg now snap =
     (if mo_sleep_filter cfg
      then (let since = per_since (select_apps_period Z D hm (mk_utc now) (mk_local now) (mk_search now) (sn_records snap)) in
        (build_app_tree T (mk_first now) (mk_last now)
           (aggregate_activities_since E (sn_records snap) since (mk_agg now) (mo_eph_max cfg) (mo_eph_min cfg) (mo_max_windows cfg))
           (mo_app_eph_max cfg) (mo_app_eph_min cfg),
         Some (select_apps_period Z D hm (mk_utc now) (mk_local now) (mk_search now) (sn_records snap))))
      else (sn_aggregated_apps snap, None))"
  by (simp add: monitor_apps_def cli_tree_eq Let_def)

text \<open>
  Every row of a window fills the panel: where the fixed parts leave two columns, the title is cut so
  that the row with its padding is exactly as wide as the panel, with at least one space before the
  right column.
\<close>
theorem rows_fill_width:
  assumes "title_measured X s" and "left_fixed + visible_right + 2 \<le> width"
  shows "left_fixed + te_width X (fit_title X width left_fixed visible_right s)
      + pad_spaces width (left_fixed + te_width X (fit_title X width left_fixed visible_right s)) visible_right + visible_right = width
    \<and> 1 \<le> pad_spaces width (left_fixed + te_width X (fit_title X width left_fixed visible_right s)) visible_right"
  using fit_title_width [OF assms] by (simp add: pad_spaces_def)

section \<open>Witnesses\<close>

definition demo_text_env :: text_env where
  "demo_text_env = \<lparr> te_chars = map (\<lambda>c. [c]), te_char_width = (\<lambda>_. 1), te_width = (\<lambda>s. length (filter (\<lambda>c. \<not> c \<in> set (tl ellipsis)) s)) \<rparr>"

theorem rows_fill_width_witness:
  "fit_title demo_text_env 12 5 2 ''Inbox'' = ''Inb'' @ ellipsis
   \<and> 5 + te_width demo_text_env (''Inb'' @ ellipsis) + pad_spaces 12 (5 + te_width demo_text_env (''Inb'' @ ellipsis)) 2 + 2 = 12"
proof -
  have t: "te_chars demo_text_env ''Inbox'' = [''I'', ''n'', ''b'', ''o'', ''x'']" by (simp add: demo_text_env_def)
  have "te_width demo_text_env (concat (take n (te_chars demo_text_env ''Inbox'')) @ ellipsis)
      = chars_width demo_text_env (take n (te_chars demo_text_env ''Inbox'')) + 1" for n
    unfolding t by (cases "n \<in> {0, 1, 2, 3, 4}") (auto simp: demo_text_env_def ellipsis_def chars_width_def take_Cons')
  then have m: "title_measured demo_text_env ''Inbox''"
    by (simp add: title_measured_def) (simp add: demo_text_env_def chars_width_def ellipsis_def)
  have f: "fit_title demo_text_env 12 5 2 ''Inbox'' = ''Inb'' @ ellipsis"
    by code_simp
  show ?thesis using rows_fill_width [OF m, of 5 2 12] unfolding f by simp
qed

end
