(* ===== verification/Log_Cli.thy ===== *)
theory Log_Cli
  imports Std_Text "HOL-Library.List_Lexorder" "HOL-Library.Product_Lexorder"
begin

text \<open>
  The log commands of kronictl, src/bin/kronictl/log_cli.rs: the log directory as a numbered list,
  \<open>list\<close>, \<open>show\<close> with its selection language, and \<open>filter\<close>.

  What the file system answers is an input: the directory, the contents of the files, how the pager
  and the search tools end.  The floating point arithmetic of a file size, the local time of a file
  and the regular expressions of the regex crate are parameters.
\<close>

section \<open>Selections\<close>

text \<open>The depth of the parentheses is an \<open>i32\<close>: \<open>+=\<close> wraps, \<open>saturating_sub(1)\<close> goes below zero.\<close>

definition depth_down :: "i32 \<Rightarrow> i32" where
  "depth_down d = (if sint d = - (2 ^ 31) then d else d - 1)"

fun range_delim :: "nat \<Rightarrow> i32 \<Rightarrow> string \<Rightarrow> nat option" where
  "range_delim i d [] = None"
| "range_delim i d (c # cs) =
     (if c = CHR ''('' then range_delim (Suc i) (d + 1) cs
      else if c = CHR '')'' then range_delim (Suc i) (depth_down d) cs
      else if c = CHR ''-'' \<and> d = 0 \<and> i \<noteq> 0 then Some i
      else range_delim (Suc i) d cs)"

definition split_range :: "string \<Rightarrow> (string \<times> string) option" where
  "split_range token = (let trimmed = trim token in
     case range_delim 0 0 trimmed of
       None \<Rightarrow> None
     | Some i \<Rightarrow> Some (trim (take i trimmed), trim (drop (Suc i) trimmed)))"

function trim_wrapping_parens :: "string \<Rightarrow> string" where
  "trim_wrapping_parens value =
     (let trimmed = trim value in
      if starts_with trimmed ''('' \<and> last trimmed = CHR '')'' \<and> 2 < length trimmed
      then trim_wrapping_parens (butlast (tl trimmed)) else trimmed)"
  by pat_completeness auto
termination
proof (relation "measure length")
  fix v t
  assume "t = trim v" and "starts_with t ''('' \<and> last t = CHR '')'' \<and> 2 < length t"
  then show "(butlast (tl t), v) \<in> measure length" using length_trim [of v] by auto
qed simp

declare trim_wrapping_parens.simps [simp del]

text \<open>An index is an \<open>isize\<close>; the length of a vector fits one, so neither cast nor sum wraps.\<close>

definition normalize_index :: "int \<Rightarrow> nat \<Rightarrow> string + nat" where
  "normalize_index v len =
     (if 0 \<le> v then
        if int len \<le> v
        then Inl (''index '' @ int_str v @ '' out of range (0..'' @ nat_str (len - 1) @ '')'')
        else Inr (nat v)
      else if int len + v < 0
      then Inl (''index '' @ int_str v @ '' out of range (available '' @ nat_str len @ '')'')
      else Inr (nat (int len + v)))"

definition resolve_index :: "string \<Rightarrow> nat \<Rightarrow> string + nat" where
  "resolve_index token len =
     (if len = 0 then Inl ''no log files available''
      else let trimmed = trim_wrapping_parens (trim token) in
        case parse_isize trimmed of
          None \<Rightarrow> Inl (''invalid index '' @ [char_of (39::nat)] @ trimmed @ [char_of (39::nat)])
        | Some v \<Rightarrow> normalize_index v len)"

definition push_unique :: "nat list \<Rightarrow> nat \<Rightarrow> nat list" where
  "push_unique xs v = (if v \<in> set xs then xs else xs @ [v])"

definition neg_index :: "nat \<Rightarrow> nat \<Rightarrow> int" where
  "neg_index index len = int index - int len"

fun select_tokens :: "nat \<Rightarrow> nat list \<Rightarrow> string list \<Rightarrow> string + nat list" where
  "select_tokens len result [] = Inr result"
| "select_tokens len result (token # tokens) =
     (case split_range token of
        Some (l, r) \<Rightarrow> (case resolve_index l len of
            Inl e \<Rightarrow> Inl e
          | Inr s \<Rightarrow> (case resolve_index r len of
              Inl e \<Rightarrow> Inl e
            | Inr t \<Rightarrow> select_tokens len
                (foldl push_unique result (if s \<le> t then [s ..< Suc t] else rev [t ..< Suc s])) tokens))
      | None \<Rightarrow> (case resolve_index token len of
            Inl e \<Rightarrow> Inl e
          | Inr i \<Rightarrow> select_tokens len (push_unique result i) tokens))"

definition parse_selection :: "string \<Rightarrow> nat \<Rightarrow> string + nat list" where
  "parse_selection selection len =
     (if len = 0 then Inr []
      else select_tokens len [] (filter (\<lambda>s. s \<noteq> []) (map trim (split_on (CHR '','') selection))))"

section \<open>The log directory\<close>

text \<open>A path is the list of its components below the root.\<close>

type_synonym path = "string list"

definition path_display :: "path \<Rightarrow> string" where
  "path_display p = concat (map (\<lambda>c. CHR ''/'' # c) p)"

record log_entry =
  le_index :: nat
  le_path :: path
  le_modified :: instant
  le_size :: u64

record file_meta =
  fm_is_file :: bool
  fm_modified :: "instant option"
  fm_len :: u64

record dir_entry =
  dr_path :: path
  dr_canonical :: "path option"
  dr_meta :: "file_meta option"

text \<open>No directory, or what \<open>read_dir\<close> gives: an error, or entries, each of which may be an error.\<close>

type_synonym log_dir = "(string + (string + dir_entry) list) option"

fun read_entries :: "(string + dir_entry) list \<Rightarrow> string + log_entry list" where
  "read_entries [] = Inr []"
| "read_entries (Inl e # ds) = Inl e"
| "read_entries (Inr d # ds) = (case read_entries ds of
      Inl e \<Rightarrow> Inl e
    | Inr es \<Rightarrow> (case dr_meta d of
        None \<Rightarrow> Inr es
      | Some m \<Rightarrow> if \<not> fm_is_file m then Inr es
          else Inr (\<lparr> le_index = 0, le_path = (case dr_canonical d of None \<Rightarrow> dr_path d | Some p \<Rightarrow> p),
            le_modified = (case fm_modified m of None \<Rightarrow> 0 | Some t \<Rightarrow> t), le_size = fm_len m \<rparr> # es)))"

text \<open>Older files first, files of one age by path; paths compare component by component, byte by byte.\<close>

definition entry_key :: "log_entry \<Rightarrow> int \<times> nat list list" where
  "entry_key e = (le_modified e, map (map of_char) (le_path e))"

definition number_entries :: "log_entry list \<Rightarrow> log_entry list" where
  "number_entries es = map (\<lambda>(i, e). e\<lparr> le_index := i \<rparr>) (enumerate 0 es)"

definition collect_log_entries :: "log_dir \<Rightarrow> string + log_entry list" where
  "collect_log_entries dir = (case dir of
      None \<Rightarrow> Inr []
    | Some (Inl e) \<Rightarrow> Inl e
    | Some (Inr ds) \<Rightarrow> (case read_entries ds of
        Inl e \<Rightarrow> Inl e
      | Inr es \<Rightarrow> Inr (number_entries (sort_key entry_key es))))"

section \<open>Sizes\<close>

record 'd f64_ops =
  f64_of_u64 :: "u64 \<Rightarrow> 'd"
  f64_mul :: "'d \<Rightarrow> 'd \<Rightarrow> 'd"
  f64_div :: "'d \<Rightarrow> 'd \<Rightarrow> 'd"
  f64_lt :: "'d \<Rightarrow> 'd \<Rightarrow> bool"
  f64_str_1 :: "'d \<Rightarrow> string"

definition human_size :: "'d f64_ops \<Rightarrow> u64 \<Rightarrow> string" where
  "human_size D sz =
     (let kb = f64_of_u64 D 1024; mb = f64_mul D kb (f64_of_u64 D 1024); gb = f64_mul D mb (f64_of_u64 D 1024) in
      if sz < 1024 then nat_str (unat sz) @ ''B''
      else (let x = f64_of_u64 D sz in
        if f64_lt D x mb then f64_str_1 D (f64_div D x kb) @ ''K''
        else if f64_lt D x gb then f64_str_1 D (f64_div D x mb) @ ''M''
        else f64_str_1 D (f64_div D x gb) @ ''G''))"

section \<open>The commands\<close>

definition pad_left :: "nat \<Rightarrow> string \<Rightarrow> string" where
  "pad_left n s = replicate (n - length s) (CHR '' '') @ s"

definition list_label :: "bool \<Rightarrow> nat \<Rightarrow> log_entry \<Rightarrow> string" where
  "list_label rv position e = pad_left 4 (int_str (if rv then - (int position + 1) else int (le_index e)))"

text \<open>The lines that \<open>list\<close> prints; \<open>lt\<close> shows an instant in local time, \<open>shown\<close> is the display of the directory.\<close>

definition list_logs :: "'d f64_ops \<Rightarrow> (instant \<Rightarrow> string) \<Rightarrow> string \<Rightarrow> bool \<Rightarrow> log_dir \<Rightarrow> string + string list" where
  "list_logs D lt shown rv dir = (case collect_log_entries dir of
      Inl e \<Rightarrow> Inl e
    | Inr [] \<Rightarrow> Inr [''No log files under '' @ shown]
    | Inr es \<Rightarrow> (let entries = (if rv then rev es else es); total = length entries in
        Inr (map (\<lambda>(position, e). list_label rv position e @ ''  '' @ lt (le_modified e) @ ''  ''
               @ pad_left 7 (human_size D (le_size e)) @ ''  '' @ path_display (le_path e)) (enumerate 0 entries)
          @ (if rv \<and> 0 < total then [''(latest log: index '' @ nat_str (total - 1) @ '' or -1)''] else []))))"

text \<open>How a process started by \<open>Command::status\<close> ends; a signal leaves no exit code.\<close>

datatype spawned = Spawn_Not_Found | Spawn_Failed string | Exited "int option"

record cli_run =
  run_out :: string
  run_err :: string
  run_paged :: "path list option"
  run_failed :: "string option"

definition printed :: "string \<Rightarrow> cli_run" where
  "printed s = \<lparr> run_out = s @ [newline], run_err = [], run_paged = None, run_failed = None \<rparr>"

definition failed_run :: "string \<Rightarrow> cli_run" where
  "failed_run e = \<lparr> run_out = [], run_err = [], run_paged = None, run_failed = Some e \<rparr>"

definition log_heading :: "nat \<Rightarrow> log_entry \<Rightarrow> string" where
  "log_heading len e = ''===== ['' @ nat_str (le_index e) @ ''|'' @ int_str (neg_index (le_index e) len) @ ''] ''
     @ path_display (le_path e) @ '' ====='' @ [newline]"

text \<open>The files one by one; \<open>first\<close> holds for the file no blank line precedes.  The heading is printed before the open.\<close>

fun show_files :: "(path \<Rightarrow> string option) \<Rightarrow> nat \<Rightarrow> bool \<Rightarrow> log_entry list \<Rightarrow> string \<times> string option" where
  "show_files content len first [] = ([], None)"
| "show_files content len first (e # es) =
     (let before = (if first then [] else [newline]) @ log_heading len e in
      case content (le_path e) of
        None \<Rightarrow> (before, Some (''opening '' @ path_display (le_path e)))
      | Some text \<Rightarrow>
          (let (rest, r) = show_files content len False es in
           (before @ text @ (if text \<noteq> [] \<and> last text \<noteq> newline then [newline] else []) @ rest, r)))"

definition show_logs ::
  "string \<Rightarrow> (path \<Rightarrow> string option) \<Rightarrow> bool \<Rightarrow> bool \<Rightarrow> spawned \<Rightarrow> string \<Rightarrow> log_dir \<Rightarrow> cli_run" where
  "show_logs shown content no_pager terminal pager selection dir = (case collect_log_entries dir of
      Inl e \<Rightarrow> failed_run e
    | Inr [] \<Rightarrow> printed (''No log files under '' @ shown)
    | Inr entries \<Rightarrow> (case parse_selection selection (length entries) of
        Inl e \<Rightarrow> failed_run e
      | Inr [] \<Rightarrow> printed ''No matching log indexes''
      | Inr selected \<Rightarrow>
          (let es = map (\<lambda>i. entries ! i) selected;
               (out, r) = show_files content (length entries) True es;
               direct = \<lparr> run_out = out, run_err = [], run_paged = None, run_failed = r \<rparr> in
           if no_pager \<or> \<not> terminal then direct
           else (case pager of
             Exited _ \<Rightarrow> \<lparr> run_out = [], run_err = [], run_paged = Some (map le_path es), run_failed = None \<rparr>
           | Spawn_Not_Found \<Rightarrow> direct\<lparr> run_err := ''less not found; printing to stdout instead'' @ [newline] \<rparr>
           | Spawn_Failed e \<Rightarrow> failed_run (''failed to launch pager: '' @ e)))))"

text \<open>A search tool has done the search, is not installed, or fails; exit code 1 is no match.\<close>

definition try_search :: "string \<Rightarrow> spawned \<Rightarrow> string + bool" where
  "try_search tool s = (case s of
      Exited c \<Rightarrow> if c = Some 0 \<or> c = Some 1 then Inr True
        else Inl (tool @ '' exited with status '' @ (case c of None \<Rightarrow> ''None'' | Some n \<Rightarrow> ''Some('' @ int_str n @ '')''))
    | Spawn_Not_Found \<Rightarrow> Inr False
    | Spawn_Failed e \<Rightarrow> Inl e)"

text \<open>
  The arguments of the tools.  The pattern stands before the separator, so a tool that follows the
  usual conventions takes one that begins with a dash for an option.
\<close>

definition rg_args :: "string \<Rightarrow> log_entry list \<Rightarrow> string list" where
  "rg_args pattern entries = [''--color=never'', pattern, ''--''] @ map (\<lambda>e. path_display (le_path e)) entries"

definition grep_args :: "string \<Rightarrow> log_entry list \<Rightarrow> string list" where
  "grep_args pattern entries = [''-E'', pattern, ''--''] @ map (\<lambda>e. path_display (le_path e)) entries"

text \<open>\<open>Tool entries\<close>: a tool has printed the matches in the files.\<close>

datatype filtered = Filter_Error string | Told string | Tool "path list" | Matched "string list" "string option"

fun matching_lines ::
  "(string \<Rightarrow> bool) \<Rightarrow> (string \<Rightarrow> bool) \<Rightarrow> path \<Rightarrow> string list \<Rightarrow> string list \<times> string option" where
  "matching_lines utf8 is_match p [] = ([], None)"
| "matching_lines utf8 is_match p (line # ls) =
     (if \<not> utf8 line then ([], Some ''stream did not contain valid UTF-8'')
      else (let (rest, r) = matching_lines utf8 is_match p ls in
        ((if is_match line then [path_display p @ '':'' @ line] else []) @ rest, r)))"

fun matching_files ::
  "(string \<Rightarrow> bool) \<Rightarrow> (path \<Rightarrow> string option) \<Rightarrow> (string \<Rightarrow> bool) \<Rightarrow> log_entry list \<Rightarrow> string list \<times> string option" where
  "matching_files utf8 content is_match [] = ([], None)"
| "matching_files utf8 content is_match (e # es) = (case content (le_path e) of
      None \<Rightarrow> ([], Some (''opening '' @ path_display (le_path e)))
    | Some text \<Rightarrow> (case matching_lines utf8 is_match (le_path e) (text_lines text) of
        (found, Some err) \<Rightarrow> (found, Some err)
      | (found, None) \<Rightarrow> (let (rest, r) = matching_files utf8 content is_match es in (found @ rest, r))))"

definition filter_with_regex ::
  "(string \<Rightarrow> string + (string \<Rightarrow> bool)) \<Rightarrow> (string \<Rightarrow> bool) \<Rightarrow> (path \<Rightarrow> string option) \<Rightarrow> string \<Rightarrow> log_entry list \<Rightarrow> filtered" where
  "filter_with_regex regex utf8 content pattern entries = (case regex pattern of
      Inl e \<Rightarrow> Filter_Error e
    | Inr is_match \<Rightarrow> (case matching_files utf8 content is_match entries of
        (found, Some err) \<Rightarrow> Matched found (Some err)
      | (found, None) \<Rightarrow> Matched (if found = [] then [''No matches found''] else found) None))"

text \<open>\<open>checked_sub\<close> on a clock of \<open>i64\<close> seconds, with \<open>saturating_mul\<close> on the hours.\<close>

definition filter_cutoff :: "instant \<Rightarrow> u64 \<Rightarrow> instant" where
  "filter_cutoff now hours =
     (let s = min (uint hours * 3600) (2 ^ 64 - 1) in
      if - (2 ^ 63) \<le> epoch_secs now - s then now - secs s else 0)"

definition filter_logs ::
  "(string \<Rightarrow> string + (string \<Rightarrow> bool)) \<Rightarrow> (string \<Rightarrow> bool) \<Rightarrow> string \<Rightarrow> (path \<Rightarrow> string option) \<Rightarrow> instant \<Rightarrow> spawned \<Rightarrow> spawned \<Rightarrow>
   string \<Rightarrow> u64 \<Rightarrow> log_dir \<Rightarrow> filtered" where
  "filter_logs regex utf8 shown content now rg grep pattern hours dir = (case collect_log_entries dir of
      Inl e \<Rightarrow> Filter_Error e
    | Inr all \<Rightarrow>
        if all = [] then Told (''No log files under '' @ shown)
        else (let entries = filter (\<lambda>e. filter_cutoff now hours \<le> le_modified e) all in
          if entries = [] then Told (''No log files from the last '' @ nat_str (unat hours) @ '' hours'')
          else (case try_search ''rg'' rg of
            Inl e \<Rightarrow> Filter_Error e
          | Inr True \<Rightarrow> Tool (map le_path entries)
          | Inr False \<Rightarrow> (case try_search ''grep'' grep of
              Inl e \<Rightarrow> Filter_Error e
            | Inr True \<Rightarrow> Tool (map le_path entries)
            | Inr False \<Rightarrow> filter_with_regex regex utf8 content pattern entries))))"

section \<open>Specification\<close>

text \<open>
  The operands of a command line by the conventions of POSIX: behind \<open>--\<close> everything, before it what does
  not begin with a dash, or is one alone.
\<close>

fun operands :: "string list \<Rightarrow> string list" where
  "operands [] = []"
| "operands (a # as) = (if a = ''--'' then as else if starts_with a ''-'' \<and> a \<noteq> ''-'' then operands as else a # operands as)"


text \<open>What a selection is meant to be: indexes and ranges, from either end of the list.\<close>

datatype selection_item = One int | Span int int

fun item_text :: "selection_item \<Rightarrow> string" where
  "item_text (One v) = int_str v"
| "item_text (Span a b) = int_str a @ ''-'' @ (if b < 0 then ''('' @ int_str b @ '')'' else int_str b)"

fun item_fits :: "selection_item \<Rightarrow> bool" where
  "item_fits (One v) = (- (2 ^ 63) \<le> v \<and> v < 2 ^ 63)"
| "item_fits (Span a b) = (- (2 ^ 63) \<le> a \<and> a < 2 ^ 63 \<and> - (2 ^ 63) \<le> b \<and> b < 2 ^ 63)"

text \<open>
  The files are counted from the front, 0 first, or from the back, -1 first; \<open>None\<close> says that the list has no such
  place.  An item denotes the places it names in its order, or its first bound that names none.
\<close>

definition place :: "nat \<Rightarrow> int \<Rightarrow> nat option" where
  "place len v = (let (files, n) = (if 0 \<le> v then ([0 ..< len], nat v) else (rev [0 ..< len], nat (- v - 1)))
     in if n < length files then Some (files ! n) else None)"

fun item_denotes :: "nat \<Rightarrow> selection_item \<Rightarrow> int + nat list" where
  "item_denotes len (One v) = (case place len v of None \<Rightarrow> Inl v | Some i \<Rightarrow> Inr [i])"
| "item_denotes len (Span a b) = (case (place len a, place len b) of
      (None, _) \<Rightarrow> Inl a
    | (Some s, None) \<Rightarrow> Inl b
    | (Some s, Some t) \<Rightarrow> Inr (if s \<le> t then [s ..< Suc t] else rev [t ..< Suc s]))"

text \<open>What is said of a bound without a place.\<close>

definition range_error :: "nat \<Rightarrow> int \<Rightarrow> string" where
  "range_error len v = ''index '' @ int_str v @ '' out of range '' @
     (if v < 0 then ''(available '' @ nat_str len @ '')'' else ''(0..'' @ nat_str (len - 1) @ '')'')"

text \<open>Every index where it first occurs, or the first bound without a place.\<close>

definition firsts :: "nat list \<Rightarrow> nat list" where
  "firsts xs = rev (remdups (rev xs))"

fun all_denote :: "nat \<Rightarrow> selection_item list \<Rightarrow> int + nat list" where
  "all_denote len [] = Inr []"
| "all_denote len (x # xs) = (case item_denotes len x of
      Inl e \<Rightarrow> Inl e
    | Inr ks \<Rightarrow> map_sum id (\<lambda>js. ks @ js) (all_denote len xs))"

section \<open>Lemmas\<close>

lemma foldl_push_unique:
  "foldl push_unique (firsts xs) ys = firsts (xs @ ys)"
proof (induction ys arbitrary: xs)
  case (Cons y ys)
  have "push_unique (firsts xs) y = firsts (xs @ [y])"
    by (auto simp: push_unique_def firsts_def)
  with Cons.IH [of "xs @ [y]"] show ?case by simp
qed simp

lemma firsts_Nil [simp]: "firsts [] = []"
  by (simp add: firsts_def)

lemma firsts_single [simp]: "firsts [x] = [x]"
  by (simp add: firsts_def)

lemma range_delim_skip:
  assumes "list_all (\<lambda>c. c \<notin> {CHR ''('', CHR '')'', CHR ''-''}) s"
  shows "range_delim i d (s @ rest) = range_delim (i + length s) d rest"
  using assms by (induction s arbitrary: i) auto

lemma digits_no_delim:
  "list_all is_digit s \<Longrightarrow> list_all (\<lambda>c. c \<notin> {CHR ''('', CHR '')'', CHR ''-''}) s"
  by (auto simp: list_all_iff is_digit_def)

lemma range_delim_int:
  "range_delim 0 0 (int_str v @ rest) = range_delim (length (int_str v)) 0 rest"
proof (cases "v < 0")
  case True
  then show ?thesis
    using range_delim_skip [OF digits_no_delim, of "nat_str (nat (- v))" "Suc 0" 0 rest] nat_str_digits
    by (simp add: int_str_def)
next
  case False
  then show ?thesis
    using range_delim_skip [OF digits_no_delim, of "nat_str (nat v)" 0 0 rest] nat_str_digits
    by (simp add: int_str_def)
qed

lemma item_ends: "plain (hd (item_text x)) \<and> plain (last (item_text x)) \<and> item_text x \<noteq> []"
  by (cases x) (auto simp: int_str_plain digit_plain plain_def [of "CHR '')''"] hd_append)

lemma trim_item [simp]: "trim (item_text x) = item_text x"
  by (rule trim_plain) (simp add: item_ends)

lemma split_range_item:
  "split_range (item_text x) = (case x of One v \<Rightarrow> None
     | Span a b \<Rightarrow> Some (int_str a, if b < 0 then ''('' @ int_str b @ '')'' else int_str b))"
proof (cases x)
  case (One v)
  then show ?thesis using range_delim_int [of v "[]"] by (simp add: split_range_def flip: item_text.simps(1))
next
  case (Span a b)
  define r where "r = (if b < 0 then ''('' @ int_str b @ '')'' else int_str b)"
  have itx: "item_text x = int_str a @ CHR ''-'' # r" by (simp add: Span r_def)
  have "trim r = r"
    by (rule trim_plain) (auto simp: r_def int_str_plain digit_plain plain_def [of "CHR '')''"] plain_def [of "CHR ''(''"])
  then show ?thesis
    using range_delim_int [of a "CHR ''-'' # r"] by (simp add: split_range_def trim_item [of x, unfolded itx] itx Span flip: r_def)
qed

lemma trim_wrapping_parens_int: "trim_wrapping_parens (int_str v) = int_str v"
proof -
  have "hd (int_str v) \<noteq> CHR ''(''"
    using nat_str_ends(1) [of "nat v"] by (auto simp: int_str_def is_digit_def)
  then have "\<not> starts_with (int_str v) ''(''" by (cases "int_str v") (auto simp: starts_with_def)
  then show ?thesis by (subst trim_wrapping_parens.simps) simp
qed

lemma trim_wrapping_parens_wrapped: "trim_wrapping_parens (''('' @ int_str v @ '')'') = int_str v"
proof -
  have "trim (''('' @ int_str v @ '')'') = ''('' @ int_str v @ '')''"
    by (rule trim_plain) (simp add: plain_def)
  moreover have "0 < length (int_str v)" by simp
  ultimately show ?thesis
    by (subst trim_wrapping_parens.simps)
      (simp add: starts_with_def butlast_append trim_wrapping_parens_int del: length_greater_0_conv)
qed

lemma resolve_index_int:
  assumes "0 < len" and "- (2 ^ 63) \<le> v" and "v < 2 ^ 63"
  shows "resolve_index (int_str v) len = normalize_index v len"
    and "resolve_index (''('' @ int_str v @ '')'') len = normalize_index v len"
proof -
  have "parse_isize (int_str v) = Some v" using assms by (simp add: parse_isize_def parse_int_str)
  moreover have "trim (''('' @ int_str v @ '')'') = ''('' @ int_str v @ '')''"
    by (rule trim_plain) (simp add: plain_def)
  ultimately show "resolve_index (int_str v) len = normalize_index v len"
    and "resolve_index (''('' @ int_str v @ '')'') len = normalize_index v len"
    using assms(1) trim_wrapping_parens_wrapped [of v]
    by (simp_all add: resolve_index_def trim_wrapping_parens_int Let_def)
qed

lemma normalize_index_place:
  "normalize_index v len = (case place len v of None \<Rightarrow> Inl (range_error len v) | Some i \<Rightarrow> Inr i)"
proof (cases "0 \<le> v")
  case False
  moreover have "nat (- v - 1) < len \<longleftrightarrow> 0 \<le> int len + v" using False by linarith
  moreover have "len - Suc (nat (- v - 1)) = nat (int len + v)" using False by linarith
  ultimately show ?thesis by (auto simp: normalize_index_def place_def range_error_def rev_nth)
qed (auto simp: normalize_index_def place_def range_error_def nat_less_iff)

lemma select_item:
  assumes "0 < len" and "item_fits x"
  shows "select_tokens len (firsts xs) (item_text x # ts) =
    (case item_denotes len x of Inl v \<Rightarrow> Inl (range_error len v) | Inr js \<Rightarrow> select_tokens len (firsts (xs @ js)) ts)"
proof (cases x)
  case (One v)
  with assms show ?thesis
    using split_range_item [of x] foldl_push_unique [of xs "[i]" for i]
    by (simp add: resolve_index_int normalize_index_place split: option.split)
next
  case (Span a b)
  with assms show ?thesis
    using split_range_item [of x] resolve_index_int(2) [of len b]
    by (simp add: resolve_index_int normalize_index_place foldl_push_unique split: option.split del: upt_Suc)
qed

lemma select_items:
  assumes "0 < len" and "list_all item_fits items"
  shows "select_tokens len (firsts xs) (map item_text items) = map_sum (range_error len) (\<lambda>js. firsts (xs @ js)) (all_denote len items)"
  using assms(2)
proof (induction items arbitrary: xs)
  case (Cons x items)
  then show ?case
    by (simp add: select_item [OF assms(1)] sum.map_comp o_def del: select_tokens.simps(2) split: sum.split)
qed simp

lemma item_no_comma: "CHR '','' \<notin> set (item_text x)"
proof -
  have "CHR '','' \<notin> set s" if "list_all is_digit s" for s
    using that by (auto simp: list_all_iff is_digit_def)
  then have "CHR '','' \<notin> set (int_str v)" for v
    using nat_str_digits by (simp add: int_str_def)
  then show ?thesis by (cases x) auto
qed

lemma normalize_index_bound: "normalize_index v len = Inr i \<Longrightarrow> i < len"
  by (auto simp: normalize_index_def split: if_splits)

lemma resolve_index_bound: "resolve_index s len = Inr i \<Longrightarrow> i < len"
  by (auto simp: resolve_index_def Let_def normalize_index_bound split: if_splits option.splits)

text \<open>A selection so far is a list of distinct indexes below the length.\<close>

definition indexes_ok :: "nat \<Rightarrow> nat list \<Rightarrow> bool" where
  "indexes_ok len is \<longleftrightarrow> distinct is \<and> list_all (\<lambda>i. i < len) is"

lemma indexes_ok_push: "indexes_ok len xs \<Longrightarrow> i < len \<Longrightarrow> indexes_ok len (push_unique xs i)"
  by (auto simp: indexes_ok_def push_unique_def)

lemma indexes_ok_fold: "indexes_ok len xs \<Longrightarrow> list_all (\<lambda>i. i < len) ys \<Longrightarrow> indexes_ok len (foldl push_unique xs ys)"
  by (induction ys arbitrary: xs) (auto simp: indexes_ok_push)

lemma indexes_ok_select:
  "indexes_ok len xs \<Longrightarrow> select_tokens len xs ts = Inr js \<Longrightarrow> indexes_ok len js"
proof (induction len xs ts rule: select_tokens.induct)
  case (2 len xs t ts)
  show ?case
  proof (cases "split_range t")
    case None
    with "2.prems" obtain i where "resolve_index t len = Inr i" and "select_tokens len (push_unique xs i) ts = Inr js"
      by (auto split: sum.splits)
    then show ?thesis using "2.IH"(1) [OF None] indexes_ok_push "2.prems"(1) resolve_index_bound by blast
  next
    case (Some lr)
    obtain l r where lr: "lr = (l, r)" by (cases lr)
    with Some "2.prems" obtain a b where a: "resolve_index l len = Inr a" and b: "resolve_index r len = Inr b"
      and rest: "select_tokens len (foldl push_unique xs (if a \<le> b then [a ..< Suc b] else rev [b ..< Suc a])) ts = Inr js"
      by (auto split: sum.splits)
    have "indexes_ok len (foldl push_unique xs (if a \<le> b then [a ..< Suc b] else rev [b ..< Suc a]))"
      using resolve_index_bound [OF a] resolve_index_bound [OF b]
      by (intro indexes_ok_fold "2.prems"(1)) (auto simp: list_all_iff)
    then show ?thesis using "2.IH"(2) [OF Some [unfolded lr] refl a b] rest by blast
  qed
qed simp

lemma trim_padded [simp]: "trim (pad_left n s) = trim s"
proof -
  have "trim (replicate k (CHR '' '') @ s) = trim s" for k by (induction k) simp_all
  then show ?thesis by (simp add: pad_left_def)
qed

lemma trim_idem_label: "split_on (CHR '','') (pad_left n (int_str v)) = [pad_left n (int_str v)]"
  using item_no_comma [of "One v"] by (intro split_on_none) (auto simp: pad_left_def)

lemma select_label:
  assumes "0 < len" and "- (2 ^ 63) \<le> v" and "v < 2 ^ 63"
  shows "parse_selection (pad_left n (int_str v)) len = map_sum id (\<lambda>i. [i]) (normalize_index v len)"
proof -
  have "parse_selection (pad_left n (int_str v)) len = select_tokens len (firsts []) [item_text (One v)]"
    using assms(1) by (simp add: parse_selection_def trim_idem_label del: select_tokens.simps)
  also have "\<dots> = map_sum id (\<lambda>i. [i]) (normalize_index v len)"
    using select_item [OF assms(1), of "One v" "[]" "[]"] assms(2,3)
    by (cases "place len v") (simp_all add: normalize_index_place del: select_tokens.simps(2))
  finally show ?thesis .
qed

lemma number_entries_nth:
  "i < length es \<Longrightarrow> number_entries es ! i = (es ! i)\<lparr> le_index := i \<rparr>"
  by (simp add: number_entries_def nth_enumerate_eq)

lemma collected:
  assumes "collect_log_entries dir = Inr es" and "es \<noteq> []"
  obtains ds raw where "dir = Some (Inr ds)" and "read_entries ds = Inr raw" and "es = number_entries (sort_key entry_key raw)"
  using assms by (auto simp: collect_log_entries_def split: option.splits sum.splits)

lemma collected_index:
  assumes "collect_log_entries dir = Inr es" and "i < length es"
  shows "le_index (es ! i) = i"
proof -
  have "es \<noteq> []" using assms(2) by auto
  from collected [OF assms(1) this] obtain raw where es: "es = number_entries (sort_key entry_key raw)" .
  with assms(2) have "i < length (sort_key entry_key raw)" by (simp add: number_entries_def)
  then show ?thesis unfolding es by (simp add: number_entries_nth)
qed

lemma parse_items:
  assumes "0 < len" and "list_all item_fits items"
  shows "parse_selection (join '','' (map item_text items)) len = map_sum (range_error len) firsts (all_denote len items)"
proof -
  have "filter (\<lambda>s. s \<noteq> []) (map trim (split_on (CHR '','') (join '','' (map item_text items)))) = map item_text items"
  proof (cases "items = []")
    case False
    then have "split_on (CHR '','') (join '','' (map item_text items)) = map item_text items"
      using item_no_comma by (intro split_on_join) auto
    then show ?thesis using item_ends by (simp add: o_def filter_id_conv)
  qed simp
  then show ?thesis
    using select_items [OF assms, of "[]"] assms(1) by (simp add: parse_selection_def)
qed

lemma label_selects:
  assumes "collect_log_entries dir = Inr es" and "length es \<le> 2 ^ 63" and "p < length es"
    and "e = (if rv then rev es else es) ! p"
  shows "e = es ! le_index e"
    and "parse_selection (list_label rv p e) (length es) = Inr [le_index e]"
    and "parse_selection (nat_str (le_index e)) (length es) = Inr [le_index e]"
    and "parse_selection (int_str (neg_index (le_index e) (length es))) (length es) = Inr [le_index e]"
proof -
  define i where "i = (if rv then length es - Suc p else p)"
  have i: "i < length es" and e: "e = es ! i" using assms(3,4) by (auto simp: i_def rev_nth)
  have index: "le_index e = i" using collected_index [OF assms(1) i] e by simp
  with e show "e = es ! le_index e" by simp
  have pos: "0 < length es" using i by linarith
  have select: "parse_selection (pad_left n (int_str v)) (length es) = Inr [i]"
    if "v = int i \<or> v = int i - int (length es)" for n v
    using that i assms(2) select_label [OF pos, of v n] by (auto simp: normalize_index_def)
  have "(if rv then - (int p + 1) else int i) = int i \<or> (if rv then - (int p + 1) else int i) = int i - int (length es)"
    using assms(3) by (auto simp: i_def)
  from select [OF this, of 4] show "parse_selection (list_label rv p e) (length es) = Inr [le_index e]"
    unfolding list_label_def index .
  have "pad_left 0 s = s" for s by (simp add: pad_left_def)
  with select [of "int i" 0] show "parse_selection (nat_str (le_index e)) (length es) = Inr [le_index e]"
    by (simp add: index int_str_def)
  from select [of "int i - int (length es)" 0] \<open>\<And>s. pad_left 0 s = s\<close>
  show "parse_selection (int_str (neg_index (le_index e) (length es))) (length es) = Inr [le_index e]"
    by (simp add: index neg_index_def)
qed

section \<open>Properties\<close>

text \<open>
  C18: the selection language means what it says.  Write down a list of selections, each an index or a
  range whose bounds count from the front or, when negative, from the back of the list, a range
  possibly descending, separated by commas, with a negative upper bound in parentheses: parsing it
  yields the places the items name, each once and where it first occurs, or the error of the first
  bound that names none.  There is at least one file and the bounds fit \<open>isize\<close>.
\<close>

theorem selection_denotes:
  assumes "0 < len" and "list_all item_fits items"
  shows "parse_selection (join '','' (map item_text items)) len = map_sum (range_error len) firsts (all_denote len items)"
  using assms by (rule parse_items)

theorem selection_denotes_witness:
  "join '','' (map item_text [Span 3 1, One (- 1), Span 0 (- 4)]) = ''3-1,-1,0-(-4)''
   \<and> parse_selection ''3-1,-1,0-(-4)'' 6 = Inr [3, 2, 1, 5, 0]
   \<and> parse_selection ''0,2-6'' 6 = Inl ''index 6 out of range (0..5)''"
proof -
  have a: "join '','' (map item_text [Span 3 1, One (- 1), Span 0 (- 4)]) = ''3-1,-1,0-(-4)''"
    and b: "join '','' (map item_text [One 0, Span 2 6]) = ''0,2-6''"
    by (simp_all add: int_str_def nat_str.simps digit_chars)
  have c: "map_sum (range_error 6) firsts (all_denote 6 [Span 3 1, One (- 1), Span 0 (- 4)]) = Inr [3, 2, 1, 5, 0]"
    and d: "map_sum (range_error 6) firsts (all_denote 6 [One 0, Span 2 6]) = Inl ''index 6 out of range (0..5)''"
    by (simp_all add: place_def range_error_def firsts_def int_str_def nat_str.simps digit_chars upt_rec)
  show ?thesis
    using selection_denotes [of 6 "[Span 3 1, One (- 1), Span 0 (- 4)]"] selection_denotes [of 6 "[One 0, Span 2 6]"]
    unfolding a b c d by simp
qed

text \<open>
  whatever text is given as a selection, the result is an error or a list of distinct indexes of
  existing log files: the lookup that follows never panics and no file is shown twice.
\<close>

theorem selections_are_indexes:
  assumes "parse_selection selection len = Inr selected"
  shows "distinct selected \<and> list_all (\<lambda>i. i < len) selected"
proof (cases "len = 0")
  case False
  with assms have "select_tokens len [] (filter (\<lambda>s. s \<noteq> []) (map trim (split_on (CHR '','') selection))) = Inr selected"
    by (simp only: parse_selection_def if_False)
  then have "indexes_ok len selected" by (rule indexes_ok_select [rotated]) (simp add: indexes_ok_def)
  then show ?thesis by (simp add: indexes_ok_def)
qed (use assms in \<open>simp add: parse_selection_def\<close>)

theorem selections_are_indexes_witness: 
  "distinct [2::nat, 1, 4] \<and> list_all (\<lambda>i. i < 5) [2::nat, 1, 4]"
proof (rule selections_are_indexes)
  have "map_sum (range_error 5) firsts (all_denote 5 [Span 2 1, One (- 1)]) = Inr [2, 1, 4]"
    by (simp add: place_def firsts_def upt_rec)
  then show "parse_selection (join '','' (map item_text [Span 2 1, One (- 1)])) 5 = Inr [2, 1, 4]"
    by (subst parse_items) simp_all
qed

text \<open>
  the listing and the selection agree.  In both orders of the listing, the label printed before a
  file is a selection of exactly that file, and so are both indexes in the heading that \<open>show\<close> prints
  above it.
\<close>

theorem listed_labels_select:
  assumes "collect_log_entries dir = Inr es" and "length es \<le> 2 ^ 63" and "p < length es"
    and "e = (if rv then rev es else es) ! p"
  shows "e = es ! le_index e
    \<and> parse_selection (list_label rv p e) (length es) = Inr [le_index e]
    \<and> parse_selection (nat_str (le_index e)) (length es) = Inr [le_index e]
    \<and> parse_selection (int_str (neg_index (le_index e) (length es))) (length es) = Inr [le_index e]"
  by (intro conjI label_selects [OF assms])

definition demo_log_dir :: log_dir where
  "demo_log_dir = Some (Inr (map (\<lambda>(n, t). Inr \<lparr> dr_path = [''w'', n], dr_canonical = None,
     dr_meta = Some \<lparr> fm_is_file = True, fm_modified = Some t, fm_len = 7 \<rparr> \<rparr>) [(''b'', 5), (''c'', 3), (''a'', 5)]))"

definition demo_log_entries :: "log_entry list" where
  "demo_log_entries = map (\<lambda>(i, n, t). \<lparr> le_index = i, le_path = [''w'', n], le_modified = t, le_size = 7 \<rparr>)
     [(0, ''c'', 3), (1, ''a'', 5), (2, ''b'', 5)]"

theorem listed_labels_select_witness:
  "list_label True 1 (demo_log_entries ! 1) = ''  -2''
   \<and> parse_selection ''  -2'' 3 = Inr [1]"
proof -
  have a: "collect_log_entries demo_log_dir = Inr demo_log_entries"
    and b: "list_label True 1 (demo_log_entries ! 1) = ''  -2''"
    and c: "length demo_log_entries = 3" "le_index (demo_log_entries ! 1) = 1"
    and d: "demo_log_entries ! 1 = (if True then rev demo_log_entries else demo_log_entries) ! 1"
    by code_simp+
  show ?thesis
    using listed_labels_select [OF a _ _ d] unfolding b c by simp
qed

text \<open>The regular files of a directory whose metadata can be read.\<close>

definition regular_files :: "(string + dir_entry) list \<Rightarrow> (path \<times> instant \<times> u64) list" where
  "regular_files ds = List.map_filter (\<lambda>x. case x of Inl e \<Rightarrow> None | Inr d \<Rightarrow> (case dr_meta d of None \<Rightarrow> None
     | Some m \<Rightarrow> if fm_is_file m then Some (case dr_canonical d of None \<Rightarrow> dr_path d | Some p \<Rightarrow> p,
         case fm_modified m of None \<Rightarrow> 0 | Some t \<Rightarrow> t, fm_len m) else None)) ds"

text \<open>
  the numbered list holds every regular file of the directory once, in the order of age and, among
  files of one age, of paths, and numbers it from zero.
\<close>

theorem logs_listed_once:
  assumes "collect_log_entries (Some (Inr ds)) = Inr es"
  shows "sorted (map entry_key es) \<and> map le_index es = [0 ..< length es]
    \<and> mset (map (\<lambda>e. (le_path e, le_modified e, le_size e)) es) = mset (regular_files ds)"
proof (intro conjI)
  let ?f = "\<lambda>e. (le_path e, le_modified e, le_size e)"
  from assms obtain raw where raw: "read_entries ds = Inr raw" and es: "es = number_entries (sort_key entry_key raw)"
    by (auto simp: collect_log_entries_def split: sum.splits)
  have keep: "map (\<lambda>e. f (e\<lparr> le_index := 0 \<rparr>)) (number_entries xs) = map (\<lambda>e. f (e\<lparr> le_index := 0 \<rparr>)) xs" for f :: "log_entry \<Rightarrow> 'b" and xs
    by (rule nth_equalityI) (simp_all add: number_entries_def nth_enumerate_eq)
  have "entry_key (e\<lparr> le_index := 0 \<rparr>) = entry_key e" for e by (simp add: entry_key_def)
  then show "sorted (map entry_key es)"
    using keep [of entry_key "sort_key entry_key raw"] by (simp add: es)
  show "map le_index es = [0 ..< length es]"
    using collected_index [OF assms] by (intro nth_equalityI) simp_all
  have "map ?f raw = regular_files ds"
    using raw unfolding regular_files_def
    by (induction ds arbitrary: raw rule: read_entries.induct) (auto split: option.splits sum.splits if_splits)
  moreover have "map ?f es = map ?f (sort_key entry_key raw)"
    using keep [of ?f "sort_key entry_key raw"] by (simp add: es)
  moreover have "mset (map ?f (sort_key entry_key raw)) = mset (map ?f raw)" by simp
  ultimately show "mset (map ?f es) = mset (regular_files ds)" by (simp only:)
qed

theorem logs_listed_once_witness:
  "sorted (map entry_key demo_log_entries) \<and> map le_index demo_log_entries = [0 ..< 3]"
proof -
  have a: "collect_log_entries (Some (Inr (case demo_log_dir of Some (Inr ds) \<Rightarrow> ds | _ \<Rightarrow> []))) = Inr demo_log_entries"
    by code_simp
  have "length demo_log_entries = 3" by code_simp
  with logs_listed_once [OF a] show ?thesis by simp
qed

text \<open>
  The tools are given the pattern and the files, in this order, unless the pattern begins with a dash:
  then it is an option to them, and the first file is taken for the pattern.
\<close>
theorem dash_pattern_is_no_operand:
  "operands (rg_args pattern entries) = (if starts_with pattern ''-'' \<and> pattern \<noteq> ''-'' \<and> pattern \<noteq> ''--'' then [] else if pattern = ''--'' then [''--''] else [pattern])
     @ map (\<lambda>e. path_display (le_path e)) entries
   \<and> operands (grep_args pattern entries) = operands (rg_args pattern entries)"
proof -
  have "operands (''--'' # xs) = xs" "operands (''-E'' # xs) = operands xs" "operands (''--color=never'' # xs) = operands xs" for xs
    by (simp_all add: starts_with_def)
  then show ?thesis by (simp add: rg_args_def grep_args_def del: operands.simps(2)) (simp add: starts_with_def)
qed

end
