(* ===== verification/Snapshot_Text.thy ===== *)
theory Snapshot_Text
  imports Snapshot_Client
begin

text \<open>
  What kronictl prints of a snapshot, src/bin/kronictl.rs: the pretty form, the one line of a poll, the
  status, and the first two panels of the monitor; and the commands that print it, \<open>snapshot\<close>, \<open>watch\<close>
  with its fallbacks, and \<open>status\<close>.

  A printed text is the list of its lines, a line of the monitor the list of its spans, colours left
  out.  The texts chrono makes of an instant, \<open>Display\<close>, RFC 3339 and the local time of day, are
  parameters.
\<close>

section \<open>Texts\<close>

record time_texts =
  tt_display :: "instant \<Rightarrow> string"
  tt_rfc3339 :: "instant \<Rightarrow> string"
  tt_local_hms :: "instant \<Rightarrow> string"

definition or_dash :: "string option \<Rightarrow> string" where
  "or_dash x = (case x of None \<Rightarrow> ''-'' | Some s \<Rightarrow> s)"

definition or_blank :: "string option \<Rightarrow> string" where
  "or_blank x = (case x of None \<Rightarrow> [] | Some s \<Rightarrow> s)"

definition u32_str :: "u32 \<Rightarrow> string" where
  "u32_str w = nat_str (unat w)"

definition i32_str :: "i32 \<Rightarrow> string" where
  "i32_str w = int_str (sint w)"

definition focus_text :: "window_focus_info \<Rightarrow> string" where
  "focus_text f = fi_app_name f @ '' ['' @ i32_str (fi_pid f) @ ''] - '' @ fi_window_title f"

definition cadence_text :: "snapshot \<Rightarrow> string" where
  "cadence_text s = u32_str (sn_cadence_ms s) @ ''ms ('' @ sn_cadence_reason s @ '')''"

definition counts_text :: "snapshot \<Rightarrow> string" where
  "counts_text s = ''signals='' @ u64_str (signals_seen (sn_counts s)) @ '' hints='' @ u64_str (hints_seen (sn_counts s))
     @ '' records='' @ u64_str (records_emitted (sn_counts s))"

section \<open>The pretty form\<close>

definition config_line :: "config_summary \<Rightarrow> string" where
  "config_line c = ''- config: active='' @ u64_str (cfg_active_grace_secs c) @ ''s idle='' @ u64_str (cfg_idle_threshold_secs c)
     @ ''s retention='' @ u64_str (cfg_retention_minutes c) @ ''m eph_max='' @ u64_str (cfg_ephemeral_max_duration_secs c)
     @ ''s eph_min='' @ u64_str (cfg_ephemeral_min_distinct_ids c)
     @ '' eph_app_max='' @ u64_str (cfg_ephemeral_app_max_duration_secs c)
     @ ''s eph_app_min_procs='' @ u64_str (cfg_ephemeral_app_min_distinct_procs c)"

definition window_lines :: "time_texts \<Rightarrow> snapshot_window \<Rightarrow> string list" where
  "window_lines T w =
     [''      - title: '' @ sw_window_title w,
      ''        id: '' @ sw_window_id w @ '' first_seen: '' @ tt_display T (sw_first_seen w)
        @ '' last_seen: '' @ tt_display T (sw_last_seen w) @ '' dur: '' @ u64_str (sw_duration_seconds w) @ ''s''
        @ (if sw_is_group w then '' (group)'' else [])]"

definition app_lines :: "time_texts \<Rightarrow> snapshot_app \<Rightarrow> string list" where
  "app_lines T a =
     (''  - app: '' @ sa_app_name a @ '' ['' @ i32_str (sa_pid a) @ ''] total='' @ sa_total_duration_pretty a
        @ '' ('' @ u64_str (sa_total_duration_secs a) @ ''s)'')
     # (if sa_windows a \<noteq> []
        then (''    windows ('' @ nat_str (length (sa_windows a)) @ ''):'') # concat (map (window_lines T) (sa_windows a))
        else [''    windows: -''])"

definition record_lines :: "time_texts \<Rightarrow> activity_record \<Rightarrow> string list" where
  "record_lines T r =
     (let fin = (case rec_end_time r of None \<Rightarrow> ''-'' | Some t \<Rightarrow> tt_rfc3339 T t);
          dur = (case rec_end_time r of None \<Rightarrow> ''-'' | Some t \<Rightarrow> int_str (max (num_seconds (t - rec_start_time r)) 0))
      in [''  - id='' @ u64_str (rec_id r) @ '' state='' @ activity_state_debug (rec_state r)
            @ '' start='' @ tt_rfc3339 T (rec_start_time r) @ '' end='' @ fin @ '' dur='' @ dur
            @ ''s events='' @ u32_str (rec_event_count r) @ '' triggers='' @ nat_str (length (rec_triggering_events r))]
         @ (case rec_focus_info r of None \<Rightarrow> []
            | Some f \<Rightarrow> [''    focus: '' @ focus_text f @ '' (wid='' @ u32_str (fi_window_id f) @ '')'']))"

definition print_snapshot_pretty :: "time_texts \<Rightarrow> snapshot \<Rightarrow> string list" where
  "print_snapshot_pretty T s =
     [''Kronical Snapshot'',
      ''- seq: '' @ u64_str (sn_seq s),
      ''- monoNs: '' @ u64_str (sn_mono_ns s),
      ''- runId: '' @ or_dash (sn_run_id s),
      ''- state: '' @ activity_state_debug (sn_activity_state s),
      ''- focus: '' @ or_dash (map_option focus_text (sn_focus s))]
     @ (case sn_last_transition s of None \<Rightarrow> []
        | Some t \<Rightarrow> [''- lastTransition: '' @ activity_state_debug (trn_from t) @ '' -> '' @ activity_state_debug (trn_to t)
            @ '' at '' @ tt_display T (trn_at t)])
     @ [''- cadence: '' @ cadence_text s]
     @ (case sn_next_timeout s of None \<Rightarrow> [] | Some t \<Rightarrow> [''- nextTimeout: '' @ tt_display T t])
     @ [''- counts: '' @ counts_text s,
        ''- storage: backlog='' @ u64_str (backlog_count (sn_storage s))
          @ '' lastFlushAt='' @ or_blank (map_option (tt_rfc3339 T) (last_flush_at (sn_storage s))),
        config_line (sn_config s)]
     @ (if sn_health s \<noteq> [] then [''- health: '' @ join '', '' (sn_health s)] else [])
     @ [''- apps ('' @ nat_str (length (sn_aggregated_apps s)) @ ''):'']
     @ concat (map (app_lines T) (sn_aggregated_apps s))
     @ [''- records ('' @ nat_str (length (sn_records s)) @ ''):'']
     @ concat (map (record_lines T) (sn_records s))"

section \<open>One line, and the status\<close>

definition print_snapshot_line :: "snapshot \<Rightarrow> string" where
  "print_snapshot_line s = ''seq='' @ u64_str (sn_seq s) @ '' run='' @ or_dash (sn_run_id s)
     @ '' state='' @ activity_state_debug (sn_activity_state s) @ '' focus='' @ or_dash (map_option fi_window_title (sn_focus s))
     @ '' cad='' @ u32_str (sn_cadence_ms s) @ ''ms backlog='' @ u64_str (backlog_count (sn_storage s))"

definition short_line :: "snapshot \<Rightarrow> string" where
  "short_line s = ''seq='' @ u64_str (sn_seq s) @ '' state='' @ activity_state_debug (sn_activity_state s)
     @ '' focus='' @ or_dash (map_option fi_window_title (sn_focus s))"

text \<open>The lines of \<open>status\<close> between its heading, with the time, and its last line.\<close>

definition status_lines :: "time_texts \<Rightarrow> string + snapshot \<Rightarrow> string list" where
  "status_lines T answer = (case answer of
      Inl e \<Rightarrow> [''Kronical Daemon: Not running'']
    | Inr s \<Rightarrow> [''Kronical Daemon:'', ''  State: '' @ activity_state_debug (sn_activity_state s), ''  Run: '' @ or_dash (sn_run_id s)]
        @ (case sn_focus s of None \<Rightarrow> [] | Some f \<Rightarrow> [''  Focus: '' @ focus_text f])
        @ [''  Cadence: '' @ cadence_text s, ''  Counts: '' @ counts_text s]
        @ (case sn_next_timeout s of None \<Rightarrow> [] | Some t \<Rightarrow> [''  Next timeout: '' @ tt_display T t])
        @ [''  Storage: backlog='' @ u64_str (backlog_count (sn_storage s))
             @ '' last_flush='' @ or_blank (map_option (tt_rfc3339 T) (last_flush_at (sn_storage s)))])"

definition get_status :: "time_texts \<Rightarrow> json \<Rightarrow> string + string \<Rightarrow> string list" where
  "get_status T js http = status_lines T (case http of Inl e \<Rightarrow> Inl e | Inr resp \<Rightarrow> http_get_snapshot js resp)"

section \<open>The commands\<close>

text \<open>\<open>to_string_pretty\<close> is the parameter \<open>jp\<close>; a snapshot that cannot be written is an error.\<close>

definition print_snapshot :: "time_texts \<Rightarrow> (snapshot \<Rightarrow> string option) \<Rightarrow> bool \<Rightarrow> snapshot \<Rightarrow> string + string list" where
  "print_snapshot T jp pretty s = (if pretty then Inr (print_snapshot_pretty T s)
     else (case jp s of None \<Rightarrow> Inl ''json'' | Some d \<Rightarrow> Inr [d]))"

definition snapshot_command ::
  "time_texts \<Rightarrow> (snapshot \<Rightarrow> string option) \<Rightarrow> (int \<Rightarrow> bool) \<Rightarrow> (nat list \<Rightarrow> instant) \<Rightarrow> json \<Rightarrow> bool \<Rightarrow>
   snapshot_reply option \<Rightarrow> (string + string) \<Rightarrow> string + string list" where
  "snapshot_command T jp holds clk js pretty grpc http =
     (case snapshot_autoselect holds clk js grpc http of Inl e \<Rightarrow> Inl e | Inr s \<Rightarrow> print_snapshot T jp pretty s)"

text \<open>
  \<open>watch\<close>: the stream of gRPC, ended cleanly (\<open>None\<close>) or with an error, else the stream of HTTP, else a poll twice a
  second, of which \<open>polls\<close> are the responses so far.  The result is the lines printed and how the command has
  ended: not yet, well, or with an error.
\<close>

datatype watch_end = Watching | Watched | Watch_Failed string

definition grpc_watch :: "time_texts \<Rightarrow> (int \<Rightarrow> bool) \<Rightarrow> (nat list \<Rightarrow> instant) \<Rightarrow> json \<Rightarrow> bool \<Rightarrow> snapshot_reply list \<Rightarrow> string list" where
  "grpc_watch T holds clk js pretty replies = concat (map (\<lambda>item. let s = map_pb_snapshot holds clk item in
     if pretty then print_snapshot_pretty T s else [or_blank (js_write js s)]) replies)"

definition sse_lines :: "time_texts \<Rightarrow> bool \<Rightarrow> (string \<times> snapshot) list \<Rightarrow> string list" where
  "sse_lines T pretty evs = concat (map (\<lambda>(d, s). if pretty then print_snapshot_pretty T s else [d]) evs)"

fun poll_lines :: "json \<Rightarrow> bool \<Rightarrow> (string + string) list \<Rightarrow> string list \<times> watch_end" where
  "poll_lines js pretty [] = ([], Watching)"
| "poll_lines js pretty (http # polls) =
     (case (case http of Inl e \<Rightarrow> Inl e | Inr resp \<Rightarrow> http_get_snapshot js resp) of
        Inl e \<Rightarrow> ([], Watch_Failed e)
      | Inr s \<Rightarrow> (let (ls, r) = poll_lines js pretty polls in
          ((if pretty then print_snapshot_line s else short_line s) # ls, r)))"

definition watch_via_http ::
  "time_texts \<Rightarrow> (int \<Rightarrow> bool) \<Rightarrow> (nat list \<Rightarrow> instant) \<Rightarrow> json \<Rightarrow> bool \<Rightarrow>
   snapshot_reply list \<times> string option \<Rightarrow> string list \<times> string option \<Rightarrow> (string + string) list \<Rightarrow> string list \<times> watch_end" where
  "watch_via_http T holds clk js pretty grpc http polls =
     (let shown = grpc_watch T holds clk js pretty (fst grpc) in
      case snd grpc of
        None \<Rightarrow> (shown, Watched)
      | Some _ \<Rightarrow>
          (case sse_watch_via_http js (fst http) (snd http) of
             (evs, None) \<Rightarrow> (shown @ sse_lines T pretty evs, Watched)
           | (evs, Some _) \<Rightarrow> (case poll_lines js pretty polls of
               (ls, r) \<Rightarrow> (shown @ sse_lines T pretty evs @ ls, r))))"

section \<open>The panels of the monitor\<close>

definition arrow :: string where
  "arrow = [CHR '' '', CHR 0xE2, CHR 0x86, CHR 0x92, CHR '' '']"

definition dot :: string where
  "dot = [CHR 0xE2, CHR 0x97, CHR 0x8F, CHR '' '']"

text \<open>\<open>pid\<close> is what the pid file holds.\<close>

definition daemon_panel :: "string option \<Rightarrow> snapshot \<Rightarrow> string list list" where
  "daemon_panel pid s =
     [[''Status: '', ''running''],
      [''PID: '', (case Option.bind pid (\<lambda>p. parse_u32 (trim p)) of None \<Rightarrow> ''unknown'' | Some n \<Rightarrow> u32_str n)],
      [''State: '', activity_state_debug (sn_activity_state s)],
      [''Run: '', or_dash (sn_run_id s)],
      [''Cadence: '', cadence_text s],
      [''Focus: '', or_dash (map_option focus_text (sn_focus s))]]"

definition transition_spans :: "time_texts \<Rightarrow> string \<Rightarrow> transition \<Rightarrow> string list" where
  "transition_spans T head t =
     [head, activity_state_debug (trn_from t), arrow, activity_state_debug (trn_to t), '' at '', tt_local_hms T (trn_at t),
      if trn_by_signal t \<noteq> None then ''  '' else []]"

definition details_panel :: "time_texts \<Rightarrow> snapshot \<Rightarrow> string list list" where
  "details_panel T s =
     [[''Counts: '' @ counts_text s],
      [''Storage: backlog='' @ u64_str (backlog_count (sn_storage s))
         @ '' last_flush='' @ or_blank (map_option (tt_rfc3339 T) (last_flush_at (sn_storage s)))]]
     @ (case sn_last_transition s of None \<Rightarrow> []
        | Some t \<Rightarrow> [transition_spans T ''Last transition: '' t
            @ [if trn_by_signal t \<noteq> None then dot else [], or_blank (trn_by_signal t)]])
     @ [[''Transitions captured: '' @ nat_str (length (sn_transitions_recent s))]]
     @ (if sn_transitions_recent s \<noteq> []
        then [''Recent transitions:''] # map (\<lambda>t. transition_spans T (''  '' @ dot) t @ [or_blank (trn_by_signal t)])
               (take 5 (sn_transitions_recent s))
        else [])
     @ (if sn_health s \<noteq> [] then [''Health:''] # map (\<lambda>h. [''- '' @ h]) (sn_health s) else [])"

section \<open>Properties\<close>

text \<open>
  The snapshots whose pretty form does not depend on the way they come: the run has a name, the two counts of the
  configuration fit in 32 bits, and every total is written out, as the daemon's are.
\<close>

definition plain_snapshot :: "snapshot \<Rightarrow> bool" where
  "plain_snapshot s \<longleftrightarrow> sn_run_id s \<noteq> Some []
     \<and> unat (cfg_ephemeral_min_distinct_ids (sn_config s)) < 2 ^ 32
     \<and> unat (cfg_ephemeral_app_min_distinct_procs (sn_config s)) < 2 ^ 32
     \<and> list_all (\<lambda>a. sa_total_duration_pretty a \<noteq> []) (sn_aggregated_apps s)"

text \<open>The trees the daemon builds have every total written out.\<close>

lemma pretty_not_blank: "pretty_format_duration n \<noteq> []"
  by (simp add: pretty_format_duration_def Let_def)

lemma daemon_totals: "list_all (\<lambda>a. sa_total_duration_pretty a \<noteq> []) (build_app_tree E now1 now2 aggregated m d)"
  by (auto simp: build_app_tree_def normal_app_def short_app_def Let_def list_all_iff pretty_not_blank split: prod.splits)

lemma short_word: "unat (w :: u64) < 2 ^ 32 \<Longrightarrow> take_bit 32 w = w"
  by (rule word_unat_eq_iff [THEN iffD2]) (simp add: unsigned_take_bit_eq take_bit_nat_eq_self)

lemma record_lines_sent: "record_lines T (shown_record r) = record_lines T r"
  by (simp add: record_lines_def shown_record_def split: option.split)

lemma pretty_of_client:
  assumes "plain_snapshot s"
  shows "print_snapshot_pretty T (client_snapshot s) = print_snapshot_pretty T s"
proof -
  have "shown_run_id (sn_run_id s) = sn_run_id s" and "shown_config (sn_config s) = sn_config s"
    using assms by (simp_all add: plain_snapshot_def shown_run_id_def shown_config_def short_word)
  moreover have "map client_app (sn_aggregated_apps s) = sn_aggregated_apps s"
    using assms by (intro map_idI) (simp add: plain_snapshot_def client_app_def list_all_iff)
  moreover have "record_lines T \<circ> shown_record = record_lines T"
    by (simp add: record_lines_sent fun_eq_iff)
  ultimately show ?thesis
    by (simp add: print_snapshot_pretty_def client_snapshot_def shown_snapshot_def cadence_text_def counts_text_def
        shown_transition_def split: option.split)
qed

lemma sse_lines_of:
  "sse_lines T True (map (\<lambda>s. (the (js_write js s), s)) seen) = concat (map (print_snapshot_pretty T) seen)"
  by (simp add: sse_lines_def o_def)

text \<open>
  C15: kronictl prints the same over both transports.  A snapshot whose times the protocol can carry and that
  is plain in the sense above is printed by \<open>snapshot --pretty\<close> alike whether the gRPC server or the HTTP
  server answers, and \<open>watch --pretty\<close> prints the same lines for the snapshots of either stream.
\<close>
theorem transports_print_alike:
  assumes "list_all plain_snapshot (s # seen)"
    and "\<forall>x \<in> set (s # seen). \<forall>t \<in> set (snapshot_times x). sendable holds t"
    and "http_body resp = Some body" and "js_read js body = Some s"
    and "crlf \<notin> set hs" and "sse_framed ls (stream_handler js seen)" and "list_all (json_ok js) seen"
  shows "snapshot_command T jp holds clk js True (Some (to_pb s)) http = Inr (print_snapshot_pretty T s)
    \<and> snapshot_command T jp holds clk js True None (Inr resp) = Inr (print_snapshot_pretty T s)
    \<and> watch_via_http T holds clk js True (map to_pb seen, None) http' polls = (concat (map (print_snapshot_pretty T) seen), Watched)
    \<and> watch_via_http T holds clk js True ([], Some e) (hs @ crlf # ls, None) polls
        = (concat (map (print_snapshot_pretty T) seen), Watched)"
proof -
  have sent: "print_snapshot_pretty T (map_pb_snapshot holds clk (to_pb x)) = print_snapshot_pretty T x" if "x \<in> set (s # seen)" for x
    using that assms(1,2) by (subst snapshot_sent) (auto intro: pretty_of_client simp: list_all_iff)
  have "grpc_watch T holds clk js True (map to_pb seen) = concat (map (print_snapshot_pretty T) seen)"
    using sent by (simp add: grpc_watch_def o_def cong: map_cong)
  moreover have "sse_watch_via_http js (hs @ crlf # ls) None = (map (\<lambda>s. (the (js_write js s), s)) seen, None)"
    using framed_events [OF assms(6) refl assms(7)] by (simp add: sse_watch_via_http_def skip_headers_found [OF assms(5)])
  ultimately show ?thesis
    using sent assms(3,4)
    by (simp add: snapshot_command_def snapshot_autoselect_def http_get_snapshot_def print_snapshot_def watch_via_http_def
        sse_lines_of grpc_watch_def)
qed

lemma poll_never_well: "snd (poll_lines js pretty polls) \<noteq> Watched"
  by (induction polls) (auto split: sum.splits prod.splits)

lemma poll_lines_answers:
  assumes "list_all2 (\<lambda>p s. case p of Inl e \<Rightarrow> False | Inr resp \<Rightarrow> http_get_snapshot js resp = Inr s) polls ss"
  shows "poll_lines js pretty polls = (map (if pretty then print_snapshot_line else short_line) ss, Watching)"
  using assms by (induction rule: list_all2_induct) (auto split: sum.splits)

text \<open>
  \<open>watch\<close> ends well exactly if a stream ended cleanly; once both streams have failed it polls, prints a line
  per answer as long as there are answers, and can only end with the error of a poll.
\<close>
theorem watch_ends:
  "(snd (watch_via_http T holds clk js pretty grpc http polls) = Watched \<longleftrightarrow>
      snd grpc = None \<or> snd (sse_watch_via_http js (fst http) (snd http)) = None)
   \<and> (snd grpc \<noteq> None \<and> snd (sse_watch_via_http js (fst http) (snd http)) \<noteq> None \<longrightarrow>
      snd (watch_via_http T holds clk js pretty grpc http polls) = snd (poll_lines js pretty polls))"
  using poll_never_well [of js pretty polls]
  by (auto simp: watch_via_http_def Let_def split: option.splits prod.splits)

section \<open>Witnesses\<close>

lemma crlf_chars: "crlf = [CHR 0x0D, CHR 0x0A]"
  by (simp add: crlf_def newline_def) code_simp

definition demo_times :: time_texts where
  "demo_times = \<lparr> tt_display = int_str, tt_rfc3339 = int_str, tt_local_hms = int_str \<rparr>"

theorem transports_print_alike_witness:
  "snapshot_command demo_times (\<lambda>s. None) (\<lambda>_. True) (\<lambda>_. 77) demo_json True (Some (to_pb (snapshot_empty 5))) (Inl ''refused'')
     = snapshot_command demo_times (\<lambda>s. None) (\<lambda>_. True) (\<lambda>_. 77) demo_json True None (Inr (''HTTP/1.1 200 OK'' @ crlf @ crlf @ ''{0}''))
   \<and> watch_via_http demo_times (\<lambda>_. True) (\<lambda>_. 77) demo_json True ([], Some ''gone'') ([''HTTP/1.1 200 OK'' @ crlf] @ crlf # demo_stream, None) []
     = (print_snapshot_pretty demo_times (snapshot_empty 5), Watched)"
proof -
  let ?s = "snapshot_empty 5"
  have plain: "list_all plain_snapshot [?s, ?s]"
    by (simp add: plain_snapshot_def snapshot_empty_def config_summary_default_def)
  have times: "\<forall>x \<in> set [?s, ?s]. \<forall>t \<in> set (snapshot_times x). sendable (\<lambda>_. True) t"
    by (simp add: snapshot_empty_def snapshot_times_def option_list_def)
  have body: "http_body (''HTTP/1.1 200 OK'' @ crlf @ crlf @ ''{0}'') = Some ''{0}''"
    by (simp add: crlf_chars starts_with_def)
  have head: "crlf \<notin> set [''HTTP/1.1 200 OK'' @ crlf]" by simp
  have ok: "list_all (json_ok demo_json) [?s]" using demo_json_ok(1) by simp
  show ?thesis
    using transports_print_alike [OF plain times body demo_json_ok(3) head demo_stream_framed ok] by simp
qed

end
