(* ===== verification/App_Config.thy ===== *)
theory App_Config
  imports Kronical_Prelude
begin

text \<open>
  The configuration, crates/common/src/config.rs, and the files of the workspace,
  crates/common/src/paths.rs.  The defaults are written twice in the code, as \<open>Default\<close> and as the
  bottom layer of \<open>load\<close>; the file and then the environment lie above it.

  The config crate is a parameter: how a value of a source is read at a type.  Doubles are a type
  \<open>'d\<close> with its one.  A path is the list of its components.
\<close>

section \<open>The configuration\<close>

datatype db_backend = Duckdb | Sqlite3

record 'd app_config =
  ac_workspace_dir :: "string list"
  ac_db_backend :: db_backend
  ac_tracker_db_backend :: db_backend
  ac_persist_raw_events :: bool
  ac_retention_minutes :: u64
  ac_active_grace_secs :: u64
  ac_idle_threshold_secs :: u64
  ac_ephemeral_max_duration_secs :: u64
  ac_ephemeral_min_distinct_ids :: u64
  ac_max_windows_per_app :: u64
  ac_ephemeral_app_max_duration_secs :: u64
  ac_ephemeral_app_min_distinct_procs :: u64
  ac_pid_cache_capacity :: u64
  ac_title_cache_capacity :: u64
  ac_title_cache_ttl_secs :: u64
  ac_focus_interner_max_strings :: u64
  ac_focus_window_coalesce_ms :: u64
  ac_focus_allow_zero_window_id :: bool
  ac_tracker_enabled :: bool
  ac_tracker_interval_secs :: 'd
  ac_tracker_batch_size :: u64
  ac_tracker_refresh_secs :: 'd
  ac_monitor_apps_sleep_filter_enabled :: bool
  ac_duckdb_memory_limit_mb_main :: u64
  ac_duckdb_memory_limit_mb_tracker :: u64

text \<open>The home directory of dirs, the variable \<open>HOME\<close>, the current directory, in this order.\<close>

definition base_dir :: "string list option \<Rightarrow> string list option \<Rightarrow> string list option \<Rightarrow> string list" where
  "base_dir home home_var cwd = (case home of Some d \<Rightarrow> d | None \<Rightarrow>
     (case home_var of Some d \<Rightarrow> d | None \<Rightarrow> (case cwd of Some d \<Rightarrow> d | None \<Rightarrow> [''.''])))"

definition default_config :: "'d \<Rightarrow> string list \<Rightarrow> 'd app_config" where
  "default_config one base = \<lparr> ac_workspace_dir = base @ [''.kronical''], ac_db_backend = Duckdb, ac_tracker_db_backend = Duckdb,
     ac_persist_raw_events = False, ac_retention_minutes = 72 * 60, ac_active_grace_secs = 30, ac_idle_threshold_secs = 300,
     ac_ephemeral_max_duration_secs = 60, ac_ephemeral_min_distinct_ids = 3, ac_max_windows_per_app = 30,
     ac_ephemeral_app_max_duration_secs = 60, ac_ephemeral_app_min_distinct_procs = 3, ac_pid_cache_capacity = 1024,
     ac_title_cache_capacity = 512, ac_title_cache_ttl_secs = 0, ac_focus_interner_max_strings = 4096,
     ac_focus_window_coalesce_ms = 100, ac_focus_allow_zero_window_id = True, ac_tracker_enabled = False,
     ac_tracker_interval_secs = one, ac_tracker_batch_size = 60, ac_tracker_refresh_secs = one,
     ac_monitor_apps_sleep_filter_enabled = False, ac_duckdb_memory_limit_mb_main = 10, ac_duckdb_memory_limit_mb_tracker = 10 \<rparr>"

section \<open>Loading\<close>

datatype 'd setting = Set_Int int | Set_Float 'd | Set_Bool bool | Set_Text string | Set_Path "string list"

text \<open>How the config crate reads a value at a type.\<close>

record 'd readers =
  rd_u64 :: "'d setting \<Rightarrow> u64 option"
  rd_f64 :: "'d setting \<Rightarrow> 'd option"
  rd_bool :: "'d setting \<Rightarrow> bool option"
  rd_backend :: "'d setting \<Rightarrow> db_backend option"
  rd_path :: "'d setting \<Rightarrow> string list option"

definition config_defaults :: "'d \<Rightarrow> string list \<Rightarrow> (string \<times> 'd setting) list" where
  "config_defaults one workspace_dir =
     [(''workspace_dir'', Set_Path workspace_dir), (''db_backend'', Set_Text ''duckdb''),
      (''tracker_db_backend'', Set_Text ''duckdb''), (''persist_raw_events'', Set_Bool False),
      (''retention_minutes'', Set_Int (72 * 60)), (''active_grace_secs'', Set_Int 30),
      (''idle_threshold_secs'', Set_Int 300), (''ephemeral_max_duration_secs'', Set_Int 60),
      (''ephemeral_min_distinct_ids'', Set_Int 3), (''max_windows_per_app'', Set_Int 30),
      (''ephemeral_app_max_duration_secs'', Set_Int 60), (''ephemeral_app_min_distinct_procs'', Set_Int 3),
      (''pid_cache_capacity'', Set_Int 1024), (''title_cache_capacity'', Set_Int 512),
      (''title_cache_ttl_secs'', Set_Int 0), (''focus_interner_max_strings'', Set_Int 4096),
      (''focus_window_coalesce_ms'', Set_Int 100), (''focus_allow_zero_window_id'', Set_Bool True),
      (''tracker_enabled'', Set_Bool False), (''tracker_interval_secs'', Set_Float one),
      (''tracker_batch_size'', Set_Int 60), (''tracker_refresh_secs'', Set_Float one),
      (''monitor_apps_sleep_filter_enabled'', Set_Bool False), (''duckdb_memory_limit_mb_main'', Set_Int 10),
      (''duckdb_memory_limit_mb_tracker'', Set_Int 10)]"

text \<open>The last source that has a key gives its value.\<close>

fun layered :: "(string \<Rightarrow> 'v option) list \<Rightarrow> string \<Rightarrow> 'v option" where
  "layered [] key = None"
| "layered (source # sources) key = (case layered sources key of Some v \<Rightarrow> Some v | None \<Rightarrow> source key)"

text \<open>The derived deserialization: every field is read from its key; one that cannot be read is an error.\<close>

definition read_config :: "'d readers \<Rightarrow> (string \<Rightarrow> 'd setting option) \<Rightarrow> 'd app_config option" where
  "read_config R cfg =
     (let path = (\<lambda>k. Option.bind (cfg k) (rd_path R)); backend = (\<lambda>k. Option.bind (cfg k) (rd_backend R));
          flag = (\<lambda>k. Option.bind (cfg k) (rd_bool R)); num = (\<lambda>k. Option.bind (cfg k) (rd_u64 R));
          real = (\<lambda>k. Option.bind (cfg k) (rd_f64 R))
      in Option.bind (path ''workspace_dir'') (\<lambda>workspace_dir. Option.bind (backend ''db_backend'') (\<lambda>db.
         Option.bind (backend ''tracker_db_backend'') (\<lambda>tracker_db. Option.bind (flag ''persist_raw_events'') (\<lambda>raw.
         Option.bind (num ''retention_minutes'') (\<lambda>retention. Option.bind (num ''active_grace_secs'') (\<lambda>grace.
         Option.bind (num ''idle_threshold_secs'') (\<lambda>idle. Option.bind (num ''ephemeral_max_duration_secs'') (\<lambda>eph_max.
         Option.bind (num ''ephemeral_min_distinct_ids'') (\<lambda>eph_min. Option.bind (num ''max_windows_per_app'') (\<lambda>max_windows.
         Option.bind (num ''ephemeral_app_max_duration_secs'') (\<lambda>app_max. Option.bind (num ''ephemeral_app_min_distinct_procs'') (\<lambda>app_min.
         Option.bind (num ''pid_cache_capacity'') (\<lambda>pid_cap. Option.bind (num ''title_cache_capacity'') (\<lambda>title_cap.
         Option.bind (num ''title_cache_ttl_secs'') (\<lambda>ttl. Option.bind (num ''focus_interner_max_strings'') (\<lambda>strings.
         Option.bind (num ''focus_window_coalesce_ms'') (\<lambda>coalesce. Option.bind (flag ''focus_allow_zero_window_id'') (\<lambda>zero_id.
         Option.bind (flag ''tracker_enabled'') (\<lambda>enabled. Option.bind (real ''tracker_interval_secs'') (\<lambda>interval.
         Option.bind (num ''tracker_batch_size'') (\<lambda>batch. Option.bind (real ''tracker_refresh_secs'') (\<lambda>refresh.
         Option.bind (flag ''monitor_apps_sleep_filter_enabled'') (\<lambda>sleep. Option.bind (num ''duckdb_memory_limit_mb_main'') (\<lambda>mem_main.
         Option.bind (num ''duckdb_memory_limit_mb_tracker'') (\<lambda>mem_tracker.
           Some \<lparr> ac_workspace_dir = workspace_dir, ac_db_backend = db, ac_tracker_db_backend = tracker_db,
             ac_persist_raw_events = raw, ac_retention_minutes = retention, ac_active_grace_secs = grace, ac_idle_threshold_secs = idle,
             ac_ephemeral_max_duration_secs = eph_max, ac_ephemeral_min_distinct_ids = eph_min, ac_max_windows_per_app = max_windows,
             ac_ephemeral_app_max_duration_secs = app_max, ac_ephemeral_app_min_distinct_procs = app_min, ac_pid_cache_capacity = pid_cap,
             ac_title_cache_capacity = title_cap, ac_title_cache_ttl_secs = ttl, ac_focus_interner_max_strings = strings,
             ac_focus_window_coalesce_ms = coalesce, ac_focus_allow_zero_window_id = zero_id, ac_tracker_enabled = enabled,
             ac_tracker_interval_secs = interval, ac_tracker_batch_size = batch, ac_tracker_refresh_secs = refresh,
             ac_monitor_apps_sleep_filter_enabled = sleep, ac_duckdb_memory_limit_mb_main = mem_main,
             ac_duckdb_memory_limit_mb_tracker = mem_tracker \<rparr>))))))))))))))))))))))))))"

text \<open>
  \<open>load\<close>: the file is a source where it exists, above the defaults and below the environment; both map
  keys to values.
\<close>

definition load_config ::
  "'d readers \<Rightarrow> 'd \<Rightarrow> string list \<Rightarrow> (string \<Rightarrow> 'd setting option) option \<Rightarrow> (string \<Rightarrow> 'd setting option) \<Rightarrow> 'd app_config option" where
  "load_config R one base config_file environment =
     read_config R (layered ([map_of (config_defaults one (ac_workspace_dir (default_config one base)))]
       @ (case config_file of None \<Rightarrow> [] | Some f \<Rightarrow> [f]) @ [environment]))"

section \<open>Paths\<close>

definition pid_file :: "string list \<Rightarrow> string list" where
  "pid_file workspace_dir = workspace_dir @ [''kronid.pid'']"

definition run_id_file :: "string list \<Rightarrow> string list" where
  "run_id_file workspace_dir = workspace_dir @ [''kronid.run_id'']"

definition grpc_uds :: "string list \<Rightarrow> string list" where
  "grpc_uds workspace_dir = workspace_dir @ [''kronid.sock'']"

definition http_uds :: "string list \<Rightarrow> string list" where
  "http_uds workspace_dir = workspace_dir @ [''kronid.http.sock'']"

definition tracker_db_with_backend :: "string list \<Rightarrow> db_backend \<Rightarrow> string list" where
  "tracker_db_with_backend workspace_dir backend = (case backend of
      Duckdb \<Rightarrow> workspace_dir @ [''system-tracker.duckdb'']
    | Sqlite3 \<Rightarrow> workspace_dir @ [''system-tracker.sqlite3''])"

definition tracker_db :: "string list \<Rightarrow> string list" where
  "tracker_db workspace_dir = tracker_db_with_backend workspace_dir Duckdb"

text \<open>The data file of the daemon, by back end (\<open>create_data_store\<close> of kronid).\<close>

definition data_file :: "'d app_config \<Rightarrow> string list" where
  "data_file c = ac_workspace_dir c @ [case ac_db_backend c of Duckdb \<Rightarrow> ''data.duckdb'' | Sqlite3 \<Rightarrow> ''data.sqlite3'']"

section \<open>Properties\<close>

text \<open>What is used of the readers: each reads the kind of value it is for.\<close>

definition readers_ok :: "'d readers \<Rightarrow> bool" where
  "readers_ok R \<longleftrightarrow> (\<forall>n. 0 \<le> n \<and> n < 2 ^ 63 \<longrightarrow> rd_u64 R (Set_Int n) = Some (word_of_int n))
     \<and> (\<forall>d. rd_f64 R (Set_Float d) = Some d) \<and> (\<forall>b. rd_bool R (Set_Bool b) = Some b)
     \<and> rd_backend R (Set_Text ''duckdb'') = Some Duckdb \<and> (\<forall>p. rd_path R (Set_Path p) = Some p)"

text \<open>
  The two copies of the defaults agree, and sources override them from the bottom up: with neither a
  file nor variables \<open>load\<close> gives \<open>Default\<close>, and a key set in the environment, or else in the file,
  is read from there, every other key as if that source were not there.
\<close>
theorem load_layers_defaults:
  assumes "readers_ok R"
  shows "load_config R one base None (\<lambda>_. None) = Some (default_config one base)
    \<and> load_config R one base (Some f) env = load_config R one base None (\<lambda>k. case env k of Some v \<Rightarrow> Some v | None \<Rightarrow> f k)"
proof
  have "read_config R (map_of (config_defaults one (base @ [''.kronical'']))) = Some (default_config one base)"
    using assms by (simp add: read_config_def config_defaults_def default_config_def readers_ok_def Let_def)
  moreover have "layered [d, \<lambda>_. None] = d" for d :: "string \<Rightarrow> 'a setting option"
    by (simp add: fun_eq_iff split: option.split)
  ultimately show "load_config R one base None (\<lambda>_. None) = Some (default_config one base)"
    by (simp add: load_config_def) (simp add: default_config_def)
  have "layered [d, f, env] = layered [d, \<lambda>k. case env k of Some v \<Rightarrow> Some v | None \<Rightarrow> f k]" for d
    by (simp add: fun_eq_iff split: option.split)
  then show "load_config R one base (Some f) env = load_config R one base None (\<lambda>k. case env k of Some v \<Rightarrow> Some v | None \<Rightarrow> f k)"
    by (simp only: load_config_def option.case append.simps)
qed

text \<open>The files of a workspace are different files.\<close>

theorem workspace_files_distinct:
  "distinct [pid_file w, run_id_file w, grpc_uds w, http_uds w, tracker_db_with_backend w Duckdb, tracker_db_with_backend w Sqlite3,
     data_file (c\<lparr> ac_workspace_dir := w \<rparr>)]"
  by (cases "ac_db_backend c") (simp_all add: pid_file_def run_id_file_def grpc_uds_def http_uds_def tracker_db_with_backend_def data_file_def)

section \<open>Witness\<close>

definition demo_readers :: "int readers" where
  "demo_readers = \<lparr> rd_u64 = (\<lambda>s. case s of Set_Int n \<Rightarrow> Some (word_of_int n) | _ \<Rightarrow> None),
     rd_f64 = (\<lambda>s. case s of Set_Float d \<Rightarrow> Some d | _ \<Rightarrow> None), rd_bool = (\<lambda>s. case s of Set_Bool b \<Rightarrow> Some b | _ \<Rightarrow> None),
     rd_backend = (\<lambda>s. case s of Set_Text t \<Rightarrow> if t = ''duckdb'' then Some Duckdb else if t = ''sqlite3'' then Some Sqlite3 else None | _ \<Rightarrow> None),
     rd_path = (\<lambda>s. case s of Set_Path p \<Rightarrow> Some p | _ \<Rightarrow> None) \<rparr>"

theorem load_layers_defaults_witness:
  "load_config demo_readers 1 [''home''] None (\<lambda>_. None) = Some (default_config 1 [''home''])"
proof -
  have "readers_ok demo_readers" by (simp add: readers_ok_def demo_readers_def)
  from load_layers_defaults [OF this, of 1 "[''home'']"] show ?thesis by simp
qed

end
