(* ===== verification/Run_Id.thy ===== *)
theory Run_Id
  imports Std_Text
begin

text \<open>
  Run ids, src/util/run_id.rs: the 16 bytes of a UUID in base64, and the spellings accepted on input.

  The engines of the base64 crate are a parameter; a property names what it uses of them.  Bytes are
  characters.
\<close>

section \<open>Engines\<close>

record base64 =
  b64_run :: "string \<Rightarrow> string option"
  b64_legacy :: "string \<Rightarrow> string option"
  b64_standard_no_pad :: "string \<Rightarrow> string option"
  b64_url_no_pad :: "string \<Rightarrow> string option"
  b64_legacy_padded :: "string \<Rightarrow> string option"
  b64_standard :: "string \<Rightarrow> string option"
  b64_url :: "string \<Rightarrow> string option"
  b64_encode :: "string \<Rightarrow> string"

section \<open>Decoding and encoding\<close>

text \<open>The first engine that decodes the input.\<close>

fun first_decoded :: "(string \<Rightarrow> string option) list \<Rightarrow> string \<Rightarrow> string option" where
  "first_decoded [] input = None"
| "first_decoded (d # ds) input = (case d input of Some b \<Rightarrow> Some b | None \<Rightarrow> first_decoded ds input)"

definition pad_base64 :: "string \<Rightarrow> string" where
  "pad_base64 input = (let rem = length input mod 4 in
     if rem \<noteq> 0 then input @ replicate (4 - rem) (CHR ''='') else input)"

definition quoted :: "string \<Rightarrow> string" where
  "quoted s = [char_of (39::nat)] @ s @ [char_of (39::nat)]"

definition decode_run_id :: "base64 \<Rightarrow> string \<Rightarrow> string + string" where
  "decode_run_id B input =
     (case first_decoded [b64_run B, b64_legacy B, b64_standard_no_pad B, b64_url_no_pad B, b64_legacy_padded B,
        b64_standard B, b64_url B] input of
       Some b \<Rightarrow> Inr b
     | None \<Rightarrow> (case first_decoded [b64_legacy_padded B, b64_standard B, b64_url B] (pad_base64 input) of
         Some b \<Rightarrow> Inr b
       | None \<Rightarrow> Inl (''invalid base64 run id '' @ quoted input)))"

definition encode_uuid :: "base64 \<Rightarrow> string \<Rightarrow> string" where
  "encode_uuid B uuid = b64_encode B uuid"

definition parse_run_id :: "base64 \<Rightarrow> string \<Rightarrow> string + string" where
  "parse_run_id B input = (case decode_run_id B input of
      Inl e \<Rightarrow> Inl e
    | Inr decoded \<Rightarrow>
        if length decoded \<noteq> 16
        then Inl (''invalid run id length: expected 16 bytes, got '' @ nat_str (length decoded))
        else Inr (b64_encode B decoded))"

section \<open>Specification\<close>

text \<open>
  What is used of the engines: the encoding of 16 bytes has no padding, so the engine of run ids and
  the legacy one, which want padding, do not decode it to anything else, and the standard engine
  without padding decodes it.
\<close>

definition base64_ok :: "base64 \<Rightarrow> bool" where
  "base64_ok B \<longleftrightarrow> (\<forall>b. length b = 16 \<longrightarrow>
     (\<forall>c. b64_run B (b64_encode B b) = Some c \<longrightarrow> c = b) \<and> (\<forall>c. b64_legacy B (b64_encode B b) = Some c \<longrightarrow> c = b)
     \<and> b64_standard_no_pad B (b64_encode B b) = Some b)"

lemma decode_encoded:
  assumes "base64_ok B" and "length b = 16"
  shows "decode_run_id B (b64_encode B b) = Inr b"
  using assms by (auto simp: decode_run_id_def base64_ok_def split: option.split)

lemma parse_encoded:
  assumes "base64_ok B" and "length b = 16"
  shows "parse_run_id B (b64_encode B b) = Inr (b64_encode B b)"
  using assms by (simp add: parse_run_id_def decode_encoded)

lemma parse_run_id_canonical: "parse_run_id B s = Inr t \<Longrightarrow> \<exists>b. length b = 16 \<and> t = b64_encode B b"
  by (auto simp: parse_run_id_def split: sum.splits if_splits)

section \<open>Properties\<close>

text \<open>
  C25: A run id has one spelling: what is accepted is rewritten to the encoding of its 16 bytes, which is
  accepted as it is and decoded to the same bytes, so a restart that reads the stored id keeps it; a
  fresh UUID is such a spelling, and different UUIDs have different ones.
\<close>
theorem run_ids_are_canonical:
  assumes "base64_ok B"
  shows "(parse_run_id B s = Inr t \<longrightarrow> parse_run_id B t = Inr t \<and> (\<exists>b. decode_run_id B s = Inr b \<and> decode_run_id B t = Inr b))
    \<and> (length u = 16 \<longrightarrow> parse_run_id B (encode_uuid B u) = Inr (encode_uuid B u))
    \<and> (length u = 16 \<and> length v = 16 \<and> encode_uuid B u = encode_uuid B v \<longrightarrow> u = v)"
proof (intro conjI impI)
  assume a: "parse_run_id B s = Inr t"
  then obtain b where b: "decode_run_id B s = Inr b" "length b = 16" "t = b64_encode B b"
    by (auto simp: parse_run_id_def split: sum.splits if_splits)
  then show "parse_run_id B t = Inr t" and "\<exists>b. decode_run_id B s = Inr b \<and> decode_run_id B t = Inr b"
    using parse_encoded [OF assms] decode_encoded [OF assms] by simp_all
next
  assume "length u = 16"
  then show "parse_run_id B (encode_uuid B u) = Inr (encode_uuid B u)"
    unfolding encode_uuid_def by (rule parse_encoded [OF assms])
next
  assume "length u = 16 \<and> length v = 16 \<and> encode_uuid B u = encode_uuid B v"
  then have "length u = 16" and "length v = 16" and e: "b64_encode B u = b64_encode B v"
    by (auto simp: encode_uuid_def)
  from decode_encoded [OF assms this(1)] decode_encoded [OF assms this(2)] show "u = v"
    unfolding e by simp
qed

section \<open>Witness\<close>

text \<open>Engines that mark encoded bytes with a letter.\<close>

definition demo_base64 :: base64 where
  "demo_base64 = \<lparr> b64_run = (\<lambda>s. None), b64_legacy = (\<lambda>s. None),
     b64_standard_no_pad = (\<lambda>s. if s \<noteq> [] \<and> hd s = CHR ''x'' then Some (tl s) else None), b64_url_no_pad = (\<lambda>s. None),
     b64_legacy_padded = (\<lambda>s. None), b64_standard = (\<lambda>s. if s \<noteq> [] \<and> last s = CHR ''='' then Some (take 16 s) else None),
     b64_url = (\<lambda>s. None), b64_encode = (\<lambda>b. CHR ''x'' # b) \<rparr>"

theorem run_ids_are_canonical_witness:
  "parse_run_id demo_base64 ''0123456789abcdef-'' = Inr ''x0123456789abcdef''
   \<and> parse_run_id demo_base64 ''x0123456789abcdef'' = Inr ''x0123456789abcdef''"
proof -
  have ok: "base64_ok demo_base64" by (simp add: base64_ok_def demo_base64_def)
  have p: "parse_run_id demo_base64 ''0123456789abcdef-'' = Inr ''x0123456789abcdef''"
    by (simp add: parse_run_id_def decode_run_id_def demo_base64_def pad_base64_def)
  from run_ids_are_canonical [OF ok, THEN conjunct1, rule_format, OF p] p show ?thesis by (simp only:)
qed

end
