(* ===== verification/Daemon_Control.thy ===== *)
theory Daemon_Control
  imports Run_Id
begin

text \<open>
  The life of the daemon's process as files in the workspace: the pid file protocol of kronid,
  src/bin/kronid.rs, and the start, stop and restart of kronictl, src/bin/kronictl.rs, both step by step so that
  processes and commands interleave, and each command of kronictl as a whole.

  What the operating system answers is an input: which processes run, and whether an operation on a
  file fails.  A removal whose result the code ignores succeeds.  Opening, writing and syncing the
  temporary file is one step.
\<close>

section \<open>Files\<close>

datatype file_state = No_File | Unreadable | Content string

record work_files =
  wf_pid :: file_state
  wf_lock :: bool
  wf_tmp :: file_state
  wf_run_id :: file_state

definition pid_text :: "u32 \<Rightarrow> string" where
  "pid_text p = nat_str (unat p)"

section \<open>The start of kronid\<close>

text \<open>Where a process is in \<open>write_pid_file\<close> and \<open>verify_pid_file\<close>; up, or gone with an error.\<close>

datatype pid_pc =
    Pid_Exists
  | Pid_Read
  | Pid_Check u32
  | Remove_Pid
  | Remove_Lock
  | Lock_Exists
  | Unlock_Stale
  | Create_Lock
  | Write_Temp
  | Rename_Temp
  | Verify
  | Up
  | Failed string

record start_io =
  io_create :: "string option"
  io_write :: "string option"
  io_rename :: "string option"

text \<open>Before it looks at the pid file, a kronid writes its run id, given or fresh, over the stored one.\<close>

definition write_run_id_file :: "string \<Rightarrow> work_files \<Rightarrow> work_files" where
  "write_run_id_file run_id fs = fs\<lparr> wf_run_id := Content run_id \<rparr>"

text \<open>A failure behind the lock removes the lock and the temporary file.\<close>

definition undo_start :: "work_files \<Rightarrow> work_files" where
  "undo_start fs = fs\<lparr> wf_lock := False, wf_tmp := No_File \<rparr>"

text \<open>\<open>run n\<close> is the answer of \<open>ps -p n\<close>, or the error of calling it.\<close>

fun kronid_step ::
  "start_io \<Rightarrow> (u32 \<Rightarrow> string + bool) \<Rightarrow> u32 \<Rightarrow> pid_pc \<Rightarrow> work_files \<Rightarrow> pid_pc \<times> work_files" where
  "kronid_step io run self Pid_Exists fs = (if wf_pid fs \<noteq> No_File then Pid_Read else Lock_Exists, fs)"
| "kronid_step io run self Pid_Read fs = (case wf_pid fs of
      Content s \<Rightarrow> (case parse_u32 (trim s) of Some n \<Rightarrow> Pid_Check n | None \<Rightarrow> Remove_Pid)
    | _ \<Rightarrow> Remove_Pid, fs)"
| "kronid_step io run self (Pid_Check n) fs = (case run n of
      Inl e \<Rightarrow> Failed ''checking existing pid''
    | Inr True \<Rightarrow> Failed (''Kronical daemon is already running (PID: '' @ pid_text n @ '')'')
    | Inr False \<Rightarrow> Remove_Pid, fs)"
| "kronid_step io run self Remove_Pid fs = (Remove_Lock, fs\<lparr> wf_pid := No_File \<rparr>)"
| "kronid_step io run self Remove_Lock fs = (Create_Lock, fs\<lparr> wf_lock := False \<rparr>)"
| "kronid_step io run self Lock_Exists fs = (if wf_lock fs then Unlock_Stale else Create_Lock, fs)"
| "kronid_step io run self Unlock_Stale fs = (Create_Lock, fs\<lparr> wf_lock := False \<rparr>)"
| "kronid_step io run self Create_Lock fs =
     (if io_create io \<noteq> None \<or> wf_lock fs then (Failed ''creating lock'', fs) else (Write_Temp, fs\<lparr> wf_lock := True \<rparr>))"
| "kronid_step io run self Write_Temp fs = (case io_write io of
      Some e \<Rightarrow> (Failed e, undo_start fs)
    | None \<Rightarrow> (Rename_Temp, fs\<lparr> wf_tmp := Content (pid_text self) \<rparr>))"
| "kronid_step io run self Rename_Temp fs =
     (if io_rename io \<noteq> None \<or> wf_tmp fs = No_File then (Failed ''renaming'', undo_start fs)
      else (Verify, fs\<lparr> wf_pid := wf_tmp fs, wf_tmp := No_File \<rparr>))"
| "kronid_step io run self Verify fs = (case wf_pid fs of
      Content s \<Rightarrow> (case parse_u32 (trim s) of
          Some n \<Rightarrow> if n = self then Up else Failed ''PID file verification failed''
        | None \<Rightarrow> Failed ''parsing pid'')
    | _ \<Rightarrow> Failed ''reading pid file'', fs)"
| "kronid_step io run self Up fs = (Up, fs)"
| "kronid_step io run self (Failed e) fs = (Failed e, fs)"

section \<open>The end of kronid\<close>

definition cleanup_pid_file :: "u32 \<Rightarrow> work_files \<Rightarrow> string option \<times> work_files" where
  "cleanup_pid_file self fs = (case wf_pid fs of
      No_File \<Rightarrow> (None, fs)
    | Unreadable \<Rightarrow> (Some ''reading pid file'', fs)
    | Content s \<Rightarrow> (case parse_u32 (trim s) of
        Some n \<Rightarrow> if n = self then (None, fs\<lparr> wf_pid := No_File \<rparr>)
          else (Some ''PID file belongs to a different process'', fs)
      | None \<Rightarrow> (Some ''PID file contains invalid PID'', fs)))"

definition guard_drop :: "bool \<Rightarrow> u32 \<Rightarrow> work_files \<Rightarrow> work_files" where
  "guard_drop active self fs =
     (let fs1 = (if active then (case wf_pid fs of
            Content s \<Rightarrow> if parse_u32 (trim s) = Some self then fs\<lparr> wf_pid := No_File \<rparr> else fs
          | _ \<Rightarrow> fs) else fs)
      in fs1\<lparr> wf_lock := False \<rparr>)"

text \<open>The end of \<open>run\<close>, after \<open>start_main_thread\<close> with or without an error: clean up, disarm, drop the guard.\<close>

definition kronid_exit :: "bool \<Rightarrow> u32 \<Rightarrow> work_files \<Rightarrow> string option \<times> work_files" where
  "kronid_exit main_ok self fs =
     (if main_ok then (case cleanup_pid_file self fs of
          (None, fs') \<Rightarrow> (None, guard_drop False self fs')
        | (Some e, fs') \<Rightarrow> (Some e, guard_drop True self fs'))
      else (Some ''coordinator main thread exited with error'', guard_drop True self fs))"

section \<open>kronictl\<close>

definition read_pid_file :: "file_state \<Rightarrow> string + u32 option" where
  "read_pid_file f = (case f of
      No_File \<Rightarrow> Inr None
    | Unreadable \<Rightarrow> Inl ''Failed to read PID file''
    | Content s \<Rightarrow> (case parse_u32 (trim s) of None \<Rightarrow> Inl ''Invalid PID in file'' | Some n \<Rightarrow> Inr (Some n)))"

text \<open>The run id given to \<open>start\<close> and \<open>restart\<close>, in its canonical spelling; an invalid one ends kronictl.\<close>

definition cli_run_id :: "base64 \<Rightarrow> string option \<Rightarrow> string + string option" where
  "cli_run_id B run_id = (case run_id of None \<Rightarrow> Inr None
     | Some i \<Rightarrow> (case parse_run_id B i of Inl e \<Rightarrow> Inl e | Inr t \<Rightarrow> Inr (Some t)))"

definition load_previous_run_id :: "base64 \<Rightarrow> file_state \<Rightarrow> string + string option" where
  "load_previous_run_id B f = (case f of
      No_File \<Rightarrow> Inr None
    | Unreadable \<Rightarrow> Inl ''reading run id file''
    | Content raw \<Rightarrow> if trim raw = [] then Inr None
        else (case parse_run_id B (trim raw) of Inl e \<Rightarrow> Inl ''invalid run id'' | Inr t \<Rightarrow> Inr (Some t)))"

text \<open>What a start does beside its result: the run id it passes to a kronid it spawns.\<close>

datatype spawn_request = Spawned_With "string option"

text \<open>\<open>running\<close> is the answer of sysinfo, \<open>spawn\<close> the error of spawning, if any.\<close>

definition start_daemon ::
  "(u32 \<Rightarrow> bool) \<Rightarrow> string option \<Rightarrow> string option \<Rightarrow> work_files \<Rightarrow> (string + spawn_request) \<times> work_files" where
  "start_daemon running spawn run_id fs =
     (let spawned = (case spawn of None \<Rightarrow> Inr (Spawned_With run_id) | Some e \<Rightarrow> Inl e) in
      case read_pid_file (wf_pid fs) of
        Inl e \<Rightarrow> (Inl e, fs)
      | Inr (Some n) \<Rightarrow> if running n
          then (Inl (''Kronical daemon is already running (PID: '' @ pid_text n @ ''). Use '' @ quoted ''kronictl stop'' @ '' first.''), fs)
          else (spawned, fs\<lparr> wf_pid := No_File \<rparr>)
      | Inr None \<Rightarrow> (spawned, fs))"

datatype stop_result = Stop_Error string | Stopped u32 | Still_Running u32 | Stale u32 | Not_Running

text \<open>\<open>before\<close> and \<open>after\<close> are the processes before SIGTERM is sent and half a second later.\<close>

definition stop_daemon :: "(u32 \<Rightarrow> bool) \<Rightarrow> (u32 \<Rightarrow> bool) \<Rightarrow> work_files \<Rightarrow> stop_result \<times> work_files" where
  "stop_daemon before after fs = (case read_pid_file (wf_pid fs) of
      Inl e \<Rightarrow> (Stop_Error e, fs)
    | Inr None \<Rightarrow> (Not_Running, fs)
    | Inr (Some n) \<Rightarrow>
        if before n
        then if \<not> after n then (Stopped n, fs\<lparr> wf_pid := No_File \<rparr>) else (Still_Running n, fs)
        else (Stale n, fs\<lparr> wf_pid := No_File \<rparr>))"

definition restart_daemon ::
  "base64 \<Rightarrow> (u32 \<Rightarrow> bool) \<Rightarrow> (u32 \<Rightarrow> bool) \<Rightarrow> (u32 \<Rightarrow> bool) \<Rightarrow> string option \<Rightarrow> string option \<Rightarrow> work_files \<Rightarrow>
   (string + spawn_request) \<times> work_files" where
  "restart_daemon B before after running spawn run_id fs =
     (let (_, fs1) = stop_daemon before after fs in
      case run_id of
        Some i \<Rightarrow> start_daemon running spawn (Some i) fs1
      | None \<Rightarrow> (case load_previous_run_id B (wf_run_id fs1) of
          Inl e \<Rightarrow> (Inl e, fs1)
        | Inr i \<Rightarrow> start_daemon running spawn i fs1))"

section \<open>kronictl, step by step\<close>

text \<open>
  A command, and where it is: each look at the pid file or at the processes and each removal is a step, so that
  daemons come and go in between, half a second long at \<open>Stop_Wait\<close>.
\<close>

datatype ctl_command = Ctl_Stop | Ctl_Start "string option" | Ctl_Restart "string option"

datatype ctl_pc =
    Stop_Exists ctl_command
  | Stop_Read ctl_command
  | Stop_Check ctl_command u32
  | Stop_Wait ctl_command u32
  | Stop_Remove ctl_command stop_result
  | Load_Run_Id "string option"
  | Start_Exists "string option"
  | Start_Read "string option"
  | Start_Check "string option" u32
  | Start_Remove "string option"
  | Spawn_Kronid "string option"
  | Stop_Ended stop_result
  | Start_Refused string

fun ctl_begin :: "ctl_command \<Rightarrow> ctl_pc" where
  "ctl_begin (Ctl_Start i) = Start_Exists i"
| "ctl_begin c = Stop_Exists c"

text \<open>The result of the stop in a restart is ignored.\<close>

fun after_stop :: "ctl_command \<Rightarrow> stop_result \<Rightarrow> ctl_pc" where
  "after_stop (Ctl_Restart i) r = Load_Run_Id i"
| "after_stop c r = Stop_Ended r"

text \<open>\<open>running\<close> is the answer of sysinfo at the step.  The signal of a stop is what may make the daemon shut down.\<close>

fun ctl_step :: "base64 \<Rightarrow> (u32 \<Rightarrow> bool) \<Rightarrow> ctl_pc \<Rightarrow> work_files \<Rightarrow> ctl_pc \<times> work_files" where
  "ctl_step B running (Stop_Exists c) fs = (if wf_pid fs \<noteq> No_File then Stop_Read c else after_stop c Not_Running, fs)"
| "ctl_step B running (Stop_Read c) fs = (case wf_pid fs of
      Content s \<Rightarrow> (case parse_u32 (trim s) of Some n \<Rightarrow> Stop_Check c n | None \<Rightarrow> after_stop c (Stop_Error ''Invalid PID in file''))
    | _ \<Rightarrow> after_stop c (Stop_Error ''Failed to read PID file''), fs)"
| "ctl_step B running (Stop_Check c n) fs = (if running n then Stop_Wait c n else Stop_Remove c (Stale n), fs)"
| "ctl_step B running (Stop_Wait c n) fs = (if \<not> running n then Stop_Remove c (Stopped n) else after_stop c (Still_Running n), fs)"
| "ctl_step B running (Stop_Remove c r) fs = (after_stop c r, fs\<lparr> wf_pid := No_File \<rparr>)"
| "ctl_step B running (Load_Run_Id (Some i)) fs = (Start_Exists (Some i), fs)"
| "ctl_step B running (Load_Run_Id None) fs = (case load_previous_run_id B (wf_run_id fs) of
      Inl e \<Rightarrow> Start_Refused e
    | Inr i \<Rightarrow> Start_Exists i, fs)"
| "ctl_step B running (Start_Exists i) fs = (if wf_pid fs \<noteq> No_File then Start_Read i else Spawn_Kronid i, fs)"
| "ctl_step B running (Start_Read i) fs = (case wf_pid fs of
      Content s \<Rightarrow> (case parse_u32 (trim s) of Some n \<Rightarrow> Start_Check i n | None \<Rightarrow> Start_Refused ''Invalid PID in file'')
    | _ \<Rightarrow> Start_Refused ''Failed to read PID file'', fs)"
| "ctl_step B running (Start_Check i n) fs =
     (if running n
      then Start_Refused (''Kronical daemon is already running (PID: '' @ pid_text n @ ''). Use '' @ quoted ''kronictl stop'' @ '' first.'')
      else Start_Remove i, fs)"
| "ctl_step B running (Start_Remove i) fs = (Spawn_Kronid i, fs\<lparr> wf_pid := No_File \<rparr>)"
| "ctl_step B running pc fs = (pc, fs)"

section \<open>Processes\<close>

text \<open>
  The files, for every process id the place of the kronid that runs under it, and the commands of kronictl under way.
\<close>

record daemons =
  dm_files :: work_files
  dm_procs :: "u32 \<Rightarrow> pid_pc option"
  dm_ctls :: "nat \<Rightarrow> ctl_pc option"

fun starting :: "pid_pc \<Rightarrow> bool" where
  "starting Up = False"
| "starting (Failed e) = False"
| "starting _ = True"

definition dm_alive :: "u32 set \<Rightarrow> daemons \<Rightarrow> u32 \<Rightarrow> bool" where
  "dm_alive others s n \<longleftrightarrow> n \<in> others \<or> dm_procs s n \<noteq> None"

definition ps_answer :: "bool \<Rightarrow> u32 set \<Rightarrow> daemons \<Rightarrow> u32 \<Rightarrow> string + bool" where
  "ps_answer ps_ok others s n = (if ps_ok then Inr (dm_alive others s n) else Inl ''invoking ps'')"

text \<open>
  What may begin when: anything at any time; a kronid only while none is starting, and a command at any time; or kronids
  and commands only while no kronid is starting and no command is under way.
\<close>

datatype discipline = Overlapping | Serial_Starts | Serial_Commands

definition none_starting :: "daemons \<Rightarrow> bool" where
  "none_starting s \<longleftrightarrow> (\<forall>q pc. dm_procs s q = Some pc \<longrightarrow> \<not> starting pc)"

definition no_command :: "daemons \<Rightarrow> bool" where
  "no_command s \<longleftrightarrow> (\<forall>k. dm_ctls s k = None)"

fun may_launch :: "discipline \<Rightarrow> daemons \<Rightarrow> bool" where
  "may_launch Overlapping s = True"
| "may_launch Serial_Starts s = none_starting s"
| "may_launch Serial_Commands s = (none_starting s \<and> no_command s)"

fun may_command :: "discipline \<Rightarrow> daemons \<Rightarrow> bool" where
  "may_command Serial_Commands s = (none_starting s \<and> no_command s)"
| "may_command _ s = True"

text \<open>
  One step of some process: a kronid is launched, by hand, and writes its run id; it goes on; it shuts down; or it is
  gone, killed or after its error.  A command begins; it goes on; it spawns its kronid, which is then launched, and
  ends; or it ends otherwise, at its end or killed.  \<open>others\<close> are foreign processes.
\<close>

inductive daemon_step :: "discipline \<Rightarrow> u32 set \<Rightarrow> daemons \<Rightarrow> daemons \<Rightarrow> bool" for d others where
  launch: "dm_procs s p = None \<Longrightarrow> p \<notin> others \<Longrightarrow> may_launch d s \<Longrightarrow>
    daemon_step d others s
      (s\<lparr> dm_files := write_run_id_file run_id (dm_files s), dm_procs := (dm_procs s)(p \<mapsto> Pid_Exists) \<rparr>)"
| advance: "dm_procs s p = Some pc \<Longrightarrow> starting pc \<Longrightarrow>
    kronid_step io (ps_answer ps_ok others s) p pc (dm_files s) = (pc', fs') \<Longrightarrow>
    daemon_step d others s (s\<lparr> dm_files := fs', dm_procs := (dm_procs s)(p \<mapsto> pc') \<rparr>)"
| shutdown: "dm_procs s p = Some Up \<Longrightarrow>
    daemon_step d others s (s\<lparr> dm_files := snd (kronid_exit main_ok p (dm_files s)), dm_procs := (dm_procs s)(p := None) \<rparr>)"
| gone: "dm_procs s p = Some pc \<Longrightarrow>
    daemon_step d others s (s\<lparr> dm_procs := (dm_procs s)(p := None) \<rparr>)"
| command: "dm_ctls s k = None \<Longrightarrow> may_command d s \<Longrightarrow>
    daemon_step d others s (s\<lparr> dm_ctls := (dm_ctls s)(k \<mapsto> ctl_begin c) \<rparr>)"
| ctl: "dm_ctls s k = Some pc \<Longrightarrow> ctl_step B (dm_alive others s) pc (dm_files s) = (pc', fs') \<Longrightarrow>
    daemon_step d others s (s\<lparr> dm_files := fs', dm_ctls := (dm_ctls s)(k \<mapsto> pc') \<rparr>)"
| spawned: "dm_ctls s k = Some (Spawn_Kronid i) \<Longrightarrow> dm_procs s p = None \<Longrightarrow> p \<notin> others \<Longrightarrow>
    d = Serial_Starts \<longrightarrow> none_starting s \<Longrightarrow> pred_option (\<lambda>j. j = run_id) i \<Longrightarrow>
    daemon_step d others s
      (s\<lparr> dm_files := write_run_id_file run_id (dm_files s), dm_procs := (dm_procs s)(p \<mapsto> Pid_Exists),
         dm_ctls := (dm_ctls s)(k := None) \<rparr>)"
| leaves: "dm_ctls s k = Some pc \<Longrightarrow>
    daemon_step d others s (s\<lparr> dm_ctls := (dm_ctls s)(k := None) \<rparr>)"

definition no_daemons :: "work_files \<Rightarrow> daemons" where
  "no_daemons fs = \<lparr> dm_files = fs, dm_procs = (\<lambda>_. None), dm_ctls = (\<lambda>_. None) \<rparr>"

section \<open>Specification\<close>

definition up :: "daemons \<Rightarrow> u32 \<Rightarrow> bool" where
  "up s p \<longleftrightarrow> dm_procs s p = Some Up"

text \<open>
  The states of serial starts and commands: the pid file names the daemon that is up; at most one process is
  starting; beside a daemon that is up it has got no further than asking for that daemon; what a
  process has written is still there; and at most one command is under way, never while a process is starting, which
  beside a daemon that is up is about that daemon and about to remove or spawn nothing.
\<close>

fun asked_for :: "daemons \<Rightarrow> pid_pc \<Rightarrow> bool" where
  "asked_for s Pid_Exists = True"
| "asked_for s Pid_Read = True"
| "asked_for s (Pid_Check n) = up s n"
| "asked_for s _ = False"

fun harmless :: "daemons \<Rightarrow> ctl_pc \<Rightarrow> bool" where
  "harmless s (Stop_Check c n) = up s n"
| "harmless s (Stop_Wait c n) = up s n"
| "harmless s (Start_Check i n) = up s n"
| "harmless s (Stop_Remove c r) = False"
| "harmless s (Start_Remove i) = False"
| "harmless s (Spawn_Kronid i) = False"
| "harmless s _ = True"

definition procs_ok :: "daemons \<Rightarrow> bool" where
  "procs_ok s \<longleftrightarrow>
     (\<forall>p. up s p \<longrightarrow> wf_pid (dm_files s) = Content (pid_text p))
     \<and> (\<forall>p q pc pd. dm_procs s p = Some pc \<longrightarrow> dm_procs s q = Some pd \<longrightarrow> starting pc \<longrightarrow> starting pd \<longrightarrow> p = q)
     \<and> (\<forall>p q pc. dm_procs s p = Some pc \<longrightarrow> starting pc \<longrightarrow> up s q \<longrightarrow> asked_for s pc)
     \<and> (\<forall>p. dm_procs s p = Some Rename_Temp \<longrightarrow> wf_tmp (dm_files s) = Content (pid_text p))
     \<and> (\<forall>p. dm_procs s p = Some Verify \<longrightarrow> wf_pid (dm_files s) = Content (pid_text p))"

definition ctls_ok :: "daemons \<Rightarrow> bool" where
  "ctls_ok s \<longleftrightarrow> (\<forall>k pc. dm_ctls s k = Some pc \<longrightarrow>
     none_starting s \<and> (\<forall>l. dm_ctls s l \<noteq> None \<longrightarrow> l = k) \<and> (\<forall>p. up s p \<longrightarrow> harmless s pc))"

definition serial_ok :: "daemons \<Rightarrow> bool" where
  "serial_ok s \<longleftrightarrow> procs_ok s \<and> ctls_ok s"

section \<open>Lemmas\<close>

lemma parse_pid_text [simp]: "parse_u32 (trim (pid_text p)) = Some p"
proof -
  have "pid_text p = int_str (int (unat p))" by (simp add: pid_text_def int_str_def)
  then show ?thesis using parse_u32_nat_str [of p] by (simp add: pid_text_def)
qed

lemma pid_text_inj: "pid_text p = pid_text q \<longleftrightarrow> p = q"
  by (metis option.inject parse_pid_text)

lemma procs_okI:
  assumes "\<And>p. up s p \<Longrightarrow> wf_pid (dm_files s) = Content (pid_text p)"
    and "\<And>p q pc pd. dm_procs s p = Some pc \<Longrightarrow> dm_procs s q = Some pd \<Longrightarrow> starting pc \<Longrightarrow> starting pd \<Longrightarrow> p = q"
    and "\<And>p q pc. dm_procs s p = Some pc \<Longrightarrow> starting pc \<Longrightarrow> up s q \<Longrightarrow> asked_for s pc"
    and "\<And>p. dm_procs s p = Some Rename_Temp \<Longrightarrow> wf_tmp (dm_files s) = Content (pid_text p)"
    and "\<And>p. dm_procs s p = Some Verify \<Longrightarrow> wf_pid (dm_files s) = Content (pid_text p)"
  shows "procs_ok s"
  using assms unfolding procs_ok_def by blast

lemma procs_okD:
  assumes "procs_ok s"
  shows "up s p \<Longrightarrow> wf_pid (dm_files s) = Content (pid_text p)"
    and "dm_procs s p = Some pc \<Longrightarrow> dm_procs s q = Some pd \<Longrightarrow> starting pc \<Longrightarrow> starting pd \<Longrightarrow> p = q"
    and "dm_procs s p = Some pc \<Longrightarrow> starting pc \<Longrightarrow> up s q \<Longrightarrow> asked_for s pc"
    and "dm_procs s p = Some Rename_Temp \<Longrightarrow> wf_tmp (dm_files s) = Content (pid_text p)"
    and "dm_procs s p = Some Verify \<Longrightarrow> wf_pid (dm_files s) = Content (pid_text p)"
  using assms unfolding procs_ok_def by blast+

lemma procs_init: "procs_ok (no_daemons fs)"
  by (rule procs_okI) (simp_all add: no_daemons_def up_def)

lemma up_unique: "procs_ok s \<Longrightarrow> up s p \<Longrightarrow> up s q \<Longrightarrow> p = q"
  using procs_okD(1) [of s p] procs_okD(1) [of s q] by (simp add: pid_text_inj)

lemma up_upd: "up (s\<lparr> dm_procs := (dm_procs s)(p := x) \<rparr>) q \<longleftrightarrow> (if q = p then x = Some Up else up s q)"
  by (simp add: up_def)

lemma up_upd2: "up (s\<lparr> dm_files := fs, dm_procs := (dm_procs s)(p := x) \<rparr>) q \<longleftrightarrow> (if q = p then x = Some Up else up s q)"
  by (simp add: up_def)

lemma asked_for_mono: "asked_for s pc \<Longrightarrow> (\<And>n. up s n \<Longrightarrow> up s' n) \<Longrightarrow> asked_for s' pc"
  by (cases pc) simp_all

lemma procs_launch:
  assumes "procs_ok s" and "dm_procs s p = None" and "\<forall>q pc. dm_procs s q = Some pc \<longrightarrow> \<not> starting pc"
  shows "procs_ok (s\<lparr> dm_files := write_run_id_file i (dm_files s), dm_procs := (dm_procs s)(p \<mapsto> Pid_Exists) \<rparr>)"
proof (rule procs_okI, goal_cases)
  case (1 q)
  then show ?case using procs_okD(1) [OF assms(1)] by (simp add: up_upd2 write_run_id_file_def split: if_splits)
next
  case (2 q r pc pd)
  then show ?case using assms(3) by (auto split: if_splits)
next
  case (3 q r pc)
  then show ?case using assms(3) by (auto split: if_splits)
next
  case (4 q)
  then show ?case using assms(3) [rule_format, of q Rename_Temp] by (simp split: if_splits)
next
  case (5 q)
  then show ?case using assms(3) [rule_format, of q Verify] by (simp split: if_splits)
qed

lemma procs_gone:
  assumes ok: "procs_ok s" and p: "dm_procs s p = Some pc"
  shows "procs_ok (s\<lparr> dm_procs := (dm_procs s)(p := None) \<rparr>)"
proof (rule procs_okI, goal_cases)
  case (1 q)
  then show ?case using procs_okD(1) [OF ok] by (simp add: up_upd split: if_splits)
next
  case (2 q r pc pd)
  then show ?case using procs_okD(2) [OF ok, of q pc r pd] by (simp split: if_splits)
next
  case (3 q r pc)
  then have r: "up s r" "r \<noteq> p" and q: "dm_procs s q = Some pc" by (auto simp: up_upd split: if_splits)
  have "up (s\<lparr> dm_procs := (dm_procs s)(p := None) \<rparr>) n" if "up s n" for n
    using up_unique [OF ok r(1) that] r by (simp add: up_upd)
  with procs_okD(3) [OF ok q 3(2) r(1)] show ?case by (rule asked_for_mono)
next
  case (4 q)
  then show ?case using procs_okD(4) [OF ok] by (simp split: if_splits)
next
  case (5 q)
  then show ?case using procs_okD(5) [OF ok] by (simp split: if_splits)
qed

lemma procs_shutdown:
  assumes ok: "procs_ok s" and p: "dm_procs s p = Some Up"
  shows "procs_ok (s\<lparr> dm_files := snd (kronid_exit b p (dm_files s)), dm_procs := (dm_procs s)(p := None) \<rparr>)"
proof -
  have upp: "up s p" using p by (simp add: up_def)
  have other: "\<not> up s q" if "q \<noteq> p" for q using up_unique [OF ok upp] that by blast
  have early: "asked_for s pc" if "dm_procs s q = Some pc" "starting pc" for q pc
    using procs_okD(3) [OF ok that upp] .
  show ?thesis
  proof (rule procs_okI, goal_cases)
    case (1 q)
    then show ?case using other by (simp add: up_upd2 split: if_splits)
  next
    case (2 q r pc pd)
    then show ?case using procs_okD(2) [OF ok, of q pc r pd] by (simp split: if_splits)
  next
    case (3 q r pc)
    then show ?case using other by (simp add: up_upd2 split: if_splits)
  next
    case (4 q)
    then show ?case using early [of q Rename_Temp] by (simp split: if_splits)
  next
    case (5 q)
    then show ?case using early [of q Verify] by (simp split: if_splits)
  qed
qed

text \<open>A step beside a daemon that is up changes no file and leads towards giving up; alone, to what was written.\<close>

lemma step_beside:
  assumes "kronid_step io run p pc fs = (pc', fs')" and "starting pc" and "asked_for s pc"
    and "up s q" and "\<And>n. up s n \<Longrightarrow> n = q" and "wf_pid fs = Content (pid_text q)"
    and "\<And>b. run q = Inr b \<Longrightarrow> b"
  shows "fs' = fs \<and> (pc' = Pid_Read \<or> pc' = Pid_Check q \<or> (\<exists>e. pc' = Failed e))"
proof (cases pc)
  case Pid_Exists
  with assms(1,6) show ?thesis by auto
next
  case Pid_Read
  with assms(1,6) show ?thesis by auto
next
  case (Pid_Check n)
  with assms(3,5) have n: "n = q" by simp
  show ?thesis
  proof (cases "run q")
    case (Inl e)
    with assms(1) Pid_Check n show ?thesis by auto
  next
    case (Inr b)
    with assms(1,7) Pid_Check n show ?thesis by auto
  qed
qed (use assms(2,3) in simp_all)

lemma step_alone:
  assumes "kronid_step io run p pc fs = (pc', fs')" and "starting pc"
    and "pc = Rename_Temp \<Longrightarrow> wf_tmp fs = Content (pid_text p)" and "pc = Verify \<Longrightarrow> wf_pid fs = Content (pid_text p)"
  shows "(pc' = Up \<longrightarrow> wf_pid fs' = Content (pid_text p)) \<and> (pc' = Rename_Temp \<longrightarrow> wf_tmp fs' = Content (pid_text p))
    \<and> (pc' = Verify \<longrightarrow> wf_pid fs' = Content (pid_text p))"
  using assms
  by (cases pc) (auto split: if_splits file_state.splits option.splits sum.splits bool.splits)

lemma procs_advance:
  assumes ok: "procs_ok s" and p: "dm_procs s p = Some pc" and st: "starting pc"
    and step: "kronid_step io (ps_answer ps_ok others s) p pc (dm_files s) = (pc', fs')"
  shows "procs_ok (s\<lparr> dm_files := fs', dm_procs := (dm_procs s)(p \<mapsto> pc') \<rparr>)"
proof -
  have only: "\<not> starting pd" if "dm_procs s q = Some pd" "q \<noteq> p" for q pd
    using procs_okD(2) [OF ok that(1) p] st that(2) by blast
  have notup: "\<not> up s p" using p st by (auto simp: up_def)
  show ?thesis
  proof (cases "\<exists>q. up s q")
    case True
    then obtain q where q: "up s q" ..
    have uq: "n = q" if "up s n" for n using up_unique [OF ok that q] .
    have alive: "b" if "ps_answer ps_ok others s q = Inr b" for b
      using that q by (auto simp: ps_answer_def dm_alive_def up_def split: if_splits)
    from step_beside [OF step st procs_okD(3) [OF ok p st q] q uq procs_okD(1) [OF ok q] alive]
    have fs: "fs' = dm_files s" and pc': "pc' = Pid_Read \<or> pc' = Pid_Check q \<or> (\<exists>e. pc' = Failed e)" by simp_all
    have qp: "q \<noteq> p" using q notup by auto
    show ?thesis
    proof (rule procs_okI, goal_cases)
      case (1 r)
      then show ?case using procs_okD(1) [OF ok] fs pc' by (auto simp: up_upd up_upd2 split: if_splits)
    next
      case (2 r r' pd pe)
      then show ?case using only by (auto split: if_splits)
    next
      case (3 r r' pd)
      then show ?case using only pc' q qp by (auto simp: up_upd up_upd2 split: if_splits)
    next
      case (4 r)
      then show ?case using only [of r Rename_Temp] pc' by (auto split: if_splits)
    next
      case (5 r)
      then show ?case using only [of r Verify] pc' by (auto split: if_splits)
    qed
  next
    case False
    have w: "(pc' = Up \<longrightarrow> wf_pid fs' = Content (pid_text p)) \<and> (pc' = Rename_Temp \<longrightarrow> wf_tmp fs' = Content (pid_text p))
        \<and> (pc' = Verify \<longrightarrow> wf_pid fs' = Content (pid_text p))"
      using step_alone [OF step st] procs_okD(4,5) [OF ok, of p] p by blast
    show ?thesis
    proof (rule procs_okI, goal_cases)
      case (1 r)
      then show ?case using False w by (auto simp: up_upd up_upd2 split: if_splits)
    next
      case (2 r r' pd pe)
      then show ?case using only by (auto split: if_splits)
    next
      case (3 r r' pd)
      then show ?case using False only by (auto simp: up_upd up_upd2 split: if_splits)
    next
      case (4 r)
      then show ?case using only [of r Rename_Temp] w by (auto split: if_splits)
    next
      case (5 r)
      then show ?case using only [of r Verify] w by (auto split: if_splits)
    qed
  qed
qed

lemma up_ctls [simp]: "up (s\<lparr> dm_ctls := c \<rparr>) p = up s p" "up (s\<lparr> dm_files := fs, dm_ctls := c \<rparr>) p = up s p"
  "up (s\<lparr> dm_files := fs \<rparr>) p = up s p"
  by (simp_all add: up_def)

lemma none_starting_upd [simp]:
  "none_starting (s\<lparr> dm_ctls := c \<rparr>) = none_starting s" "none_starting (s\<lparr> dm_files := fs, dm_ctls := c \<rparr>) = none_starting s"
  by (simp_all add: none_starting_def)

lemma no_command_ok: "no_command s \<Longrightarrow> ctls_ok s"
  by (simp add: no_command_def ctls_ok_def)

text \<open>What happens to processes leaves the commands as they are, when nothing new starts.\<close>

lemma ctls_ok_procs:
  assumes "ctls_ok s" and "none_starting s \<Longrightarrow> none_starting s'" and "dm_ctls s' = dm_ctls s"
    and "\<And>p. up s' p \<Longrightarrow> up s p" and "\<And>p q. up s' p \<Longrightarrow> up s q \<Longrightarrow> up s' q"
  shows "ctls_ok s'"
proof -
  have "harmless s' c" if "harmless s c" "up s' p" for c p
    using that assms(5) by (cases c) auto
  then show ?thesis using assms unfolding ctls_ok_def by metis
qed

lemma serial_init: "serial_ok (no_daemons fs)"
  using procs_init [of fs] by (simp add: serial_ok_def ctls_ok_def no_daemons_def)

lemma serial_launch:
  assumes "serial_ok s" and "dm_procs s p = None" and "none_starting s" and "no_command s"
  shows "serial_ok (s\<lparr> dm_files := write_run_id_file i (dm_files s), dm_procs := (dm_procs s)(p \<mapsto> Pid_Exists) \<rparr>)"
  using assms procs_launch [of s p i] by (simp add: serial_ok_def none_starting_def ctls_ok_def no_command_def)

lemma serial_advance:
  assumes "serial_ok s" and "dm_procs s p = Some pc" and "starting pc"
    and "kronid_step io (ps_answer ps_ok others s) p pc (dm_files s) = (pc', fs')"
  shows "serial_ok (s\<lparr> dm_files := fs', dm_procs := (dm_procs s)(p \<mapsto> pc') \<rparr>)"
proof -
  have "\<not> none_starting s" using assms(2,3) by (auto simp: none_starting_def)
  then have "no_command s" using assms(1) by (fastforce simp: serial_ok_def ctls_ok_def no_command_def)
  then have "ctls_ok (s\<lparr> dm_files := fs', dm_procs := (dm_procs s)(p \<mapsto> pc') \<rparr>)" by (intro no_command_ok) (simp add: no_command_def)
  then show ?thesis using assms procs_advance by (simp add: serial_ok_def)
qed

lemma serial_down:
  assumes "serial_ok s" and "dm_procs s p = Some pc"
  shows "serial_ok (s\<lparr> dm_procs := (dm_procs s)(p := None) \<rparr>)"
    and "pc = Up \<Longrightarrow> serial_ok (s\<lparr> dm_files := snd (kronid_exit b p (dm_files s)), dm_procs := (dm_procs s)(p := None) \<rparr>)"
proof -
  note u = up_unique [of s] 
  have ok: "procs_ok s" "ctls_ok s" using assms(1) by (simp_all add: serial_ok_def)
  have c: "ctls_ok (s\<lparr> dm_procs := (dm_procs s)(p := None) \<rparr>)"
    "ctls_ok (s\<lparr> dm_files := fs', dm_procs := (dm_procs s)(p := None) \<rparr>)" for fs'
    using u [OF ok(1)]
    by (auto intro!: ctls_ok_procs [OF ok(2)] simp: none_starting_def up_upd up_upd2 split: if_splits)
  show "serial_ok (s\<lparr> dm_procs := (dm_procs s)(p := None) \<rparr>)"
    using procs_gone [OF ok(1) assms(2)] c(1) by (simp add: serial_ok_def)
  show "serial_ok (s\<lparr> dm_files := snd (kronid_exit b p (dm_files s)), dm_procs := (dm_procs s)(p := None) \<rparr>)" if "pc = Up"
    using procs_shutdown [OF ok(1)] assms(2) that c(2) by (simp add: serial_ok_def)
qed

lemma serial_command:
  assumes "serial_ok s" and "none_starting s" and "no_command s"
  shows "serial_ok (s\<lparr> dm_ctls := (dm_ctls s)(k \<mapsto> ctl_begin c) \<rparr>)"
proof -
  have "procs_ok (s\<lparr> dm_ctls := (dm_ctls s)(k \<mapsto> ctl_begin c) \<rparr>)"
    using assms(1) by (intro procs_okI) (auto simp: serial_ok_def dest: procs_okD intro: asked_for_mono)
  moreover have "harmless s' (ctl_begin c)" for s' by (cases c) simp_all
  ultimately show ?thesis using assms(2,3) by (simp add: serial_ok_def ctls_ok_def no_command_def)
qed

text \<open>A step of a command beside a daemon that is up changes no file; and alone it may remove the pid file.\<close>

lemma ctl_beside:
  assumes "ctl_step B running pc fs = (pc', fs')" and "harmless s pc" and "up s q" and "\<And>n. up s n \<Longrightarrow> n = q"
    and "wf_pid fs = Content (pid_text q)" and "running q"
  shows "fs' = fs \<and> harmless s pc'"
proof -
  have after: "harmless s (after_stop c r)" for c r by (cases c) simp_all
  have n: "n = q" if "pc = Stop_Check c n \<or> pc = Stop_Wait c n \<or> pc = Start_Check i n" for c i n
    using that assms(2,4) by auto
  show ?thesis
  proof (cases pc)
    case (Load_Run_Id i)
    with assms(1) show ?thesis by (cases i) (auto split: sum.splits)
  qed (use assms(1,2,3,5,6) n after in \<open>auto split: if_splits\<close>)
qed

lemma ctl_files: "ctl_step B running pc fs = (pc', fs') \<Longrightarrow> fs' = fs \<or> fs' = fs\<lparr> wf_pid := No_File \<rparr>"
  by (induction B running pc fs rule: ctl_step.induct) auto

lemma serial_ctl:
  assumes ok: "serial_ok s" and k: "dm_ctls s k = Some pc" and step: "ctl_step B (dm_alive others s) pc (dm_files s) = (pc', fs')"
  shows "serial_ok (s\<lparr> dm_files := fs', dm_ctls := (dm_ctls s)(k \<mapsto> pc') \<rparr>)"
proof -
  let ?s = "s\<lparr> dm_files := fs', dm_ctls := (dm_ctls s)(k \<mapsto> pc') \<rparr>"
  have c: "none_starting s" "\<And>l. dm_ctls s l \<noteq> None \<Longrightarrow> l = k" "\<And>p. up s p \<Longrightarrow> harmless s pc"
    using ok k unfolding serial_ok_def ctls_ok_def by blast+
  have p: "procs_ok s" using ok by (simp add: serial_ok_def)
  have beside: "fs' = dm_files s \<and> harmless s pc'" if "up s q" for q
    using ctl_beside [OF step c(3) [OF that] that up_unique [OF p _ that] procs_okD(1) [OF p that]] that
    by (simp add: dm_alive_def up_def)
  have idle: "\<not> starting pd" if "dm_procs s q = Some pd" for q pd using c(1) that by (auto simp: none_starting_def)
  have h: "harmless ?s x = harmless s x" "harmless (s\<lparr> dm_ctls := (dm_ctls s)(k \<mapsto> pc') \<rparr>) x = harmless s x" for x
    by (cases x; simp)+
  have "procs_ok ?s"
    by (rule procs_okI) (use beside procs_okD(1) [OF p] idle in \<open>fastforce+\<close>)
  moreover have "ctls_ok ?s"
    unfolding ctls_ok_def
  proof (intro allI impI conjI)
    fix l x q assume l: "dm_ctls ?s l = Some x"
    then have "l = k" using c(2) [of l] by (auto split: if_splits)
    with l have x: "x = pc'" by simp
    show "none_starting ?s" using c(1) by (simp add: none_starting_def)
    show "m = l" if "dm_ctls ?s m \<noteq> None" for m using that c(2) [of m] \<open>l = k\<close> by (auto split: if_splits)
    show "harmless ?s x" if "up ?s q" using that beside [of q] by (simp add: h x)
  qed
  ultimately show ?thesis by (simp add: serial_ok_def)
qed

lemma serial_leaves: "serial_ok s \<Longrightarrow> serial_ok (s\<lparr> dm_ctls := (dm_ctls s)(k := None) \<rparr>)"
proof -
  assume ok: "serial_ok s"
  have h: "harmless (s\<lparr> dm_ctls := c \<rparr>) x = harmless s x" "asked_for (s\<lparr> dm_ctls := c \<rparr>) y = asked_for s y" for c x y
    by (cases x; cases y; simp)+
  show ?thesis using ok by (auto simp: serial_ok_def procs_ok_def ctls_ok_def h)
qed

lemma serial_spawned:
  assumes ok: "serial_ok s" and k: "dm_ctls s k = Some (Spawn_Kronid i)" and p: "dm_procs s p = None"
  shows "serial_ok (s\<lparr> dm_files := write_run_id_file j (dm_files s), dm_procs := (dm_procs s)(p \<mapsto> Pid_Exists),
     dm_ctls := (dm_ctls s)(k := None) \<rparr>)"
proof -
  have c: "none_starting s" "\<And>l. dm_ctls s l \<noteq> None \<Longrightarrow> l = k" using ok k unfolding serial_ok_def ctls_ok_def by blast+
  then have "dm_ctls s l = None" if "l \<noteq> k" for l using that by blast
  then have nc: "no_command (s\<lparr> dm_ctls := (dm_ctls s)(k := None) \<rparr>)" by (simp add: no_command_def)
  have eq: "s\<lparr> dm_files := f, dm_procs := m, dm_ctls := c \<rparr> = (s\<lparr> dm_ctls := c \<rparr>)\<lparr> dm_files := f, dm_procs := m \<rparr>" for f m c
    by (cases s) simp
  show ?thesis
    unfolding eq using serial_launch [OF serial_leaves [OF ok, of k] _ _ nc, of p j] p c(1) by (simp add: none_starting_def)
qed

lemma serial_step: "daemon_step Serial_Commands others s s' \<Longrightarrow> serial_ok s \<Longrightarrow> serial_ok s'"
  by (induction rule: daemon_step.induct)
    (simp_all add: serial_launch serial_advance serial_down serial_command serial_ctl serial_spawned serial_leaves)

lemma serial_reachable: "(daemon_step Serial_Commands others)\<^sup>*\<^sup>* s s' \<Longrightarrow> serial_ok s \<Longrightarrow> serial_ok s'"
  by (induction rule: rtranclp_induct) (auto intro: serial_step)

text \<open>Runs, step by step.\<close>

definition plain_io :: start_io where
  "plain_io = \<lparr> io_create = None, io_write = None, io_rename = None \<rparr>"

lemma run_launch:
  assumes "(daemon_step d others)\<^sup>*\<^sup>* s0 \<lparr> dm_files = fs, dm_procs = m, dm_ctls = c \<rparr>" and "m p = None" and "p \<notin> others"
    and "may_launch d \<lparr> dm_files = fs, dm_procs = m, dm_ctls = c \<rparr>"
  shows "(daemon_step d others)\<^sup>*\<^sup>* s0 \<lparr> dm_files = write_run_id_file i fs, dm_procs = m(p \<mapsto> Pid_Exists), dm_ctls = c \<rparr>"
  using assms(1) launch [of "\<lparr> dm_files = fs, dm_procs = m, dm_ctls = c \<rparr>" p others d i] assms(2-4)
  by (auto intro: rtranclp.rtrancl_into_rtrancl)

lemma run_advance:
  assumes "(daemon_step d others)\<^sup>*\<^sup>* s0 \<lparr> dm_files = fs, dm_procs = m, dm_ctls = c \<rparr>" and "m p = Some pc" and "starting pc"
    and "kronid_step plain_io (ps_answer True others \<lparr> dm_files = fs, dm_procs = m, dm_ctls = c \<rparr>) p pc fs = (pc', fs')"
  shows "(daemon_step d others)\<^sup>*\<^sup>* s0 \<lparr> dm_files = fs', dm_procs = m(p \<mapsto> pc'), dm_ctls = c \<rparr>"
  using assms(1) advance [of "\<lparr> dm_files = fs, dm_procs = m, dm_ctls = c \<rparr>" p pc plain_io True others pc' fs' d] assms(2-4)
  by (auto intro: rtranclp.rtrancl_into_rtrancl)

lemma run_shutdown:
  assumes "(daemon_step d others)\<^sup>*\<^sup>* s0 \<lparr> dm_files = fs, dm_procs = m, dm_ctls = c \<rparr>" and "m p = Some Up"
  shows "(daemon_step d others)\<^sup>*\<^sup>* s0 \<lparr> dm_files = snd (kronid_exit True p fs), dm_procs = m(p := None), dm_ctls = c \<rparr>"
  using assms(1) shutdown [of "\<lparr> dm_files = fs, dm_procs = m, dm_ctls = c \<rparr>" p d others True] assms(2)
  by (auto intro: rtranclp.rtrancl_into_rtrancl)

lemma run_command:
  assumes "(daemon_step d others)\<^sup>*\<^sup>* s0 \<lparr> dm_files = fs, dm_procs = m, dm_ctls = c \<rparr>" and "c k = None"
    and "may_command d \<lparr> dm_files = fs, dm_procs = m, dm_ctls = c \<rparr>"
  shows "(daemon_step d others)\<^sup>*\<^sup>* s0 \<lparr> dm_files = fs, dm_procs = m, dm_ctls = c(k \<mapsto> ctl_begin x) \<rparr>"
  using assms(1) command [of "\<lparr> dm_files = fs, dm_procs = m, dm_ctls = c \<rparr>" k d others x] assms(2,3)
  by (auto intro: rtranclp.rtrancl_into_rtrancl)

lemma run_ctl:
  assumes "(daemon_step d others)\<^sup>*\<^sup>* s0 \<lparr> dm_files = fs, dm_procs = m, dm_ctls = c \<rparr>" and "c k = Some pc"
    and "ctl_step demo_base64 (dm_alive others \<lparr> dm_files = fs, dm_procs = m, dm_ctls = c \<rparr>) pc fs = (pc', fs')"
  shows "(daemon_step d others)\<^sup>*\<^sup>* s0 \<lparr> dm_files = fs', dm_procs = m, dm_ctls = c(k \<mapsto> pc') \<rparr>"
  using assms(1) ctl [of "\<lparr> dm_files = fs, dm_procs = m, dm_ctls = c \<rparr>" k pc demo_base64 others pc' fs' d] assms(2,3)
  by (auto intro: rtranclp.rtrancl_into_rtrancl)

definition empty_files :: work_files where
  "empty_files = \<lparr> wf_pid = No_File, wf_lock = False, wf_tmp = No_File, wf_run_id = No_File \<rparr>"

text \<open>The files of a daemon that has come up, and how it gets there when there is no pid file.\<close>

definition files_of :: "u32 \<Rightarrow> work_files" where
  "files_of p = \<lparr> wf_pid = Content (pid_text p), wf_lock = True, wf_tmp = No_File, wf_run_id = Content ''r'' \<rparr>"

lemma fresh_start:
  assumes R: "(daemon_step d others)\<^sup>*\<^sup>* s0 \<lparr> dm_files = fs, dm_procs = m, dm_ctls = c \<rparr>" and "m p = None" and "p \<notin> others"
    and "may_launch d \<lparr> dm_files = fs, dm_procs = m, dm_ctls = c \<rparr>" and "wf_pid fs = No_File"
  shows "(daemon_step d others)\<^sup>*\<^sup>* s0 \<lparr> dm_files = files_of p, dm_procs = m(p \<mapsto> Up), dm_ctls = c \<rparr>"
proof -
  let ?f = "\<lambda>pid lock tmp. \<lparr> wf_pid = pid, wf_lock = lock, wf_tmp = tmp, wf_run_id = Content ''r'' \<rparr>"
  let ?own = "Content (pid_text p)" and ?R = "\<lambda>f pc. (daemon_step d others)\<^sup>*\<^sup>* s0 \<lparr> dm_files = f, dm_procs = m(p \<mapsto> pc), dm_ctls = c \<rparr>"
  note go = run_advance [where d = d and others = others and ?s0.0 = s0 and m = "m(p \<mapsto> pc)" and c = c and p = p for pc, simplified]
  have w: "write_run_id_file ''r'' fs = ?f No_File (wf_lock fs) (wf_tmp fs)"
    using assms(5) by (cases fs) (simp add: write_run_id_file_def)
  have "?R (?f No_File (wf_lock fs) (wf_tmp fs)) Pid_Exists" using run_launch [OF assms(1-4), of "''r''"] by (simp add: w)
  from go [OF this] have "?R (?f No_File (wf_lock fs) (wf_tmp fs)) Lock_Exists" by simp
  from go [OF this] have l: "?R (?f No_File (wf_lock fs) (wf_tmp fs)) (if wf_lock fs then Unlock_Stale else Create_Lock)" by simp
  have "?R (?f No_File False (wf_tmp fs)) Create_Lock"
  proof (cases "wf_lock fs")
    case True
    with l have "?R (?f No_File True (wf_tmp fs)) Unlock_Stale" by simp
    from go [OF this] show ?thesis by simp
  qed (use l in simp)
  from go [OF this] have "?R (?f No_File True (wf_tmp fs)) Write_Temp" by (simp add: plain_io_def)
  from go [OF this] have "?R (?f No_File True ?own) Rename_Temp" by (simp add: plain_io_def)
  from go [OF this] have "?R (?f ?own True No_File) Verify" by (simp add: plain_io_def)
  from go [OF this] have "?R (?f ?own True No_File) Up" by simp
  then show ?thesis by (simp add: files_of_def)
qed

lemma lone_start:
  assumes "p \<notin> others"
  shows "(daemon_step d others)\<^sup>*\<^sup>* (no_daemons empty_files) \<lparr> dm_files = files_of p, dm_procs = Map.empty(p \<mapsto> Up), dm_ctls = Map.empty \<rparr>"
proof -
  have "(daemon_step d others)\<^sup>*\<^sup>* (no_daemons empty_files) \<lparr> dm_files = empty_files, dm_procs = Map.empty, dm_ctls = Map.empty \<rparr>"
    by (simp add: no_daemons_def)
  then show ?thesis
    by (rule fresh_start) (use assms in \<open>cases d; simp add: none_starting_def no_command_def empty_files_def\<close>)+
qed

section \<open>Properties\<close>

text \<open>
  C19: As long as daemons and commands come one at a time, at most one daemon is up, and the pid file names it: whatever
  files it finds, whatever fails, whenever a daemon shuts down or is killed, also in the middle of a stop or a restart
  of kronictl, which remove the pid file and spawn the next one, and whatever foreign processes run.  One at a time means
  that no kronid is launched and no command begun while a kronid is starting or a command is under way.
\<close>
theorem serial_starts_exclude:
  assumes "(daemon_step Serial_Commands others)\<^sup>*\<^sup>* (no_daemons fs) s" and "dm_procs s p = Some Up"
  shows "wf_pid (dm_files s) = Content (pid_text p) \<and> (\<forall>q. dm_procs s q = Some Up \<longrightarrow> q = p)"
proof -
  have ok: "procs_ok s" using serial_reachable [OF assms(1) serial_init] by (simp add: serial_ok_def)
  have "up s p" using assms(2) by (simp add: up_def)
  moreover have "q = p" if "dm_procs s q = Some Up" for q
    using up_unique [OF ok, of q p] that assms(2) by (simp add: up_def)
  ultimately show ?thesis using procs_okD(1) [OF ok] by blast
qed

text \<open>
  C20: The lock does not make that so: two daemons that start at the same time can both come up, each with
  its verification passed.  The second finds no pid file yet, takes the first one's lock for a stale
  one and removes it; the first then writes its pid over the other's.
\<close>
theorem parallel_starts_race:
  assumes "p \<noteq> q" and "p \<notin> others" and "q \<notin> others"
  shows "\<exists>s. (daemon_step Overlapping others)\<^sup>*\<^sup>* (no_daemons empty_files) s
    \<and> dm_procs s p = Some Up \<and> dm_procs s q = Some Up \<and> wf_pid (dm_files s) = Content (pid_text p)"
proof -
  let ?f = "\<lambda>pid lock tmp. \<lparr> wf_pid = pid, wf_lock = lock, wf_tmp = tmp, wf_run_id = Content ''r'' \<rparr>"
  let ?R = "(daemon_step Overlapping others)\<^sup>*\<^sup>* (no_daemons empty_files)"
  let ?s = "\<lambda>f a b. \<lparr> dm_files = f, dm_procs = Map.empty(p \<mapsto> a, q \<mapsto> b), dm_ctls = Map.empty \<rparr>"
  let ?p = "Content (pid_text p)" and ?q = "Content (pid_text q)"
  have init: "?R \<lparr> dm_files = empty_files, dm_procs = Map.empty, dm_ctls = Map.empty \<rparr>"
    by (simp add: no_daemons_def empty_files_def)
  have swap: "(Map.empty(p \<mapsto> a, q \<mapsto> b))(p \<mapsto> c) = Map.empty(p \<mapsto> c, q \<mapsto> b)" for a b c :: pid_pc
    using assms(1) by (auto simp: fun_eq_iff)
  have adv_p: "?R (?s f' a' b)" if "?R (?s f a b)" "starting a"
    "\<And>run. a \<noteq> Pid_Read \<Longrightarrow> kronid_step plain_io run p a f = (a', f')" "\<forall>n. a \<noteq> Pid_Check n" "a \<noteq> Pid_Read" for f a b f' a'
    using run_advance [OF that(1), of p a a' f'] that(2,3,5) assms(1) by (simp add: swap)
  have adv_q: "?R (?s f' a b')" if "?R (?s f a b)" "starting b"
    "\<And>run. b \<noteq> Pid_Read \<Longrightarrow> kronid_step plain_io run q b f = (b', f')" "\<forall>n. b \<noteq> Pid_Check n" "b \<noteq> Pid_Read" for f a b f' b'
    using run_advance [OF that(1), of q b b' f'] that(2,3,5) by simp
  have "?R (?s (?f No_File False No_File) Pid_Exists Pid_Exists)"
    using run_launch [OF run_launch [OF init, of p "''r''"], of q "''r''"] assms
    by (simp add: write_run_id_file_def empty_files_def)
  then have "?R (?s (?f No_File False No_File) Lock_Exists Pid_Exists)" by (rule adv_p) simp_all
  then have "?R (?s (?f No_File False No_File) Create_Lock Pid_Exists)" by (rule adv_p) simp_all
  then have "?R (?s (?f No_File True No_File) Write_Temp Pid_Exists)" by (rule adv_p) (simp_all add: plain_io_def)
  then have "?R (?s (?f No_File True No_File) Write_Temp Lock_Exists)" by (rule adv_q) simp_all
  then have "?R (?s (?f No_File True No_File) Write_Temp Unlock_Stale)" by (rule adv_q) simp_all
  then have "?R (?s (?f No_File False No_File) Write_Temp Create_Lock)" by (rule adv_q) simp_all
  then have "?R (?s (?f No_File True No_File) Write_Temp Write_Temp)" by (rule adv_q) (simp_all add: plain_io_def)
  then have "?R (?s (?f No_File True ?q) Write_Temp Rename_Temp)" by (rule adv_q) (simp_all add: plain_io_def)
  then have "?R (?s (?f ?q True No_File) Write_Temp Verify)" by (rule adv_q) (simp_all add: plain_io_def)
  then have "?R (?s (?f ?q True No_File) Write_Temp Up)" by (rule adv_q) simp_all
  then have "?R (?s (?f ?q True ?p) Rename_Temp Up)" by (rule adv_p) (simp_all add: plain_io_def)
  then have "?R (?s (?f ?p True No_File) Verify Up)" by (rule adv_p) (simp_all add: plain_io_def)
  then have "?R (?s (?f ?p True No_File) Up Up)" by (rule adv_p) simp_all
  then show ?thesis
    using assms(1) by (intro exI [of _ "?s (?f ?p True No_File) Up Up"] conjI) simp_all
qed

text \<open>
  Daemons that start one after the other are not enough: while \<open>kronictl stop\<close> waits for one to go, it goes and the
  next comes up; the stop then removes the pid file of the one that is up, so that a third comes up beside it.
\<close>
theorem slow_stop_races:
  assumes "distinct [p, q, r]" and "p \<notin> others" and "q \<notin> others" and "r \<notin> others"
  shows "\<exists>s. (daemon_step Serial_Starts others)\<^sup>*\<^sup>* (no_daemons empty_files) s
    \<and> dm_procs s q = Some Up \<and> dm_procs s r = Some Up \<and> wf_pid (dm_files s) = Content (pid_text r)"
proof -
  let ?R = "\<lambda>f m c. (daemon_step Serial_Starts others)\<^sup>*\<^sup>* (no_daemons empty_files) \<lparr> dm_files = f, dm_procs = m, dm_ctls = Map.empty(0 \<mapsto> c) \<rparr>"
  let ?gone = "(files_of p)\<lparr> wf_pid := No_File, wf_lock := False \<rparr>"
  have idle: "none_starting \<lparr> dm_files = f, dm_procs = Map.empty, dm_ctls = c \<rparr>"
    "none_starting \<lparr> dm_files = f, dm_procs = Map.empty(a \<mapsto> Up), dm_ctls = c \<rparr>" for f c a
    by (simp_all add: none_starting_def)
  from run_command [OF lone_start [OF assms(2), of Serial_Starts], of 0 Ctl_Stop]
  have "?R (files_of p) (Map.empty(p \<mapsto> Up)) (Stop_Exists Ctl_Stop)" by simp
  from run_ctl [OF this, of 0] have "?R (files_of p) (Map.empty(p \<mapsto> Up)) (Stop_Read Ctl_Stop)" by (simp add: files_of_def)
  from run_ctl [OF this, of 0] have "?R (files_of p) (Map.empty(p \<mapsto> Up)) (Stop_Check Ctl_Stop p)" by (simp add: files_of_def)
  from run_ctl [OF this, of 0] have "?R (files_of p) (Map.empty(p \<mapsto> Up)) (Stop_Wait Ctl_Stop p)" by (simp add: dm_alive_def)
  from run_shutdown [OF this, of p] have "?R ?gone Map.empty (Stop_Wait Ctl_Stop p)"
    by (simp add: kronid_exit_def cleanup_pid_file_def guard_drop_def files_of_def)
  from fresh_start [OF this _ assms(3)] have "?R (files_of q) (Map.empty(q \<mapsto> Up)) (Stop_Wait Ctl_Stop p)" by (simp add: idle)
  from run_ctl [OF this, of 0] have "?R (files_of q) (Map.empty(q \<mapsto> Up)) (Stop_Remove Ctl_Stop (Stopped p))"
    using assms(1,2) by (simp add: dm_alive_def)
  from run_ctl [OF this, of 0] have "?R ((files_of q)\<lparr> wf_pid := No_File \<rparr>) (Map.empty(q \<mapsto> Up)) (Stop_Ended (Stopped p))" by simp
  from fresh_start [OF this _ assms(4)] have "?R (files_of r) (Map.empty(q \<mapsto> Up, r \<mapsto> Up)) (Stop_Ended (Stopped p))"
    using assms(1) by (auto simp: idle)
  then show ?thesis
    using assms(1) by (intro exI [of _ "\<lparr> dm_files = files_of r, dm_procs = Map.empty(q \<mapsto> Up, r \<mapsto> Up), dm_ctls = Map.empty(0 \<mapsto> Stop_Ended (Stopped p)) \<rparr>"] conjI)
      (simp_all add: files_of_def)
qed

text \<open>
  Step by step, a command that nothing comes between is the command as a whole: it ends with the result and the files of
  \<open>stop_daemon\<close>, or is refused or about to spawn with those of \<open>start_daemon\<close> and \<open>restart_daemon\<close>.
\<close>
theorem commands_in_steps:
  "let answer = (\<lambda>pc. case pc of Stop_Wait _ _ \<Rightarrow> after | Start_Check _ _ \<Rightarrow> running | _ \<Rightarrow> before);
       go = (\<lambda>(pc, fs). ctl_step B (answer pc) pc fs);
       told = (\<lambda>(r, fs). (case r of Inl e \<Rightarrow> Start_Refused e | Inr (Spawned_With i) \<Rightarrow> Spawn_Kronid i, fs))
   in (go ^^ 5) (ctl_begin Ctl_Stop, fs) = (case stop_daemon before after fs of (r, fs') \<Rightarrow> (Stop_Ended r, fs'))
      \<and> (go ^^ 4) (ctl_begin (Ctl_Start i), fs) = told (start_daemon running None i fs)
      \<and> (go ^^ 10) (ctl_begin (Ctl_Restart i), fs) = told (restart_daemon B before after running None i fs)"
proof -
  define answer where "answer = (\<lambda>pc. case pc of Stop_Wait _ _ \<Rightarrow> after | Start_Check _ _ \<Rightarrow> running | _ \<Rightarrow> before)"
  define go where "go = (\<lambda>(pc, fs). ctl_step B (answer pc) pc fs)"
  define told where "told = (\<lambda>(r, fs :: work_files). (case r of Inl e \<Rightarrow> Start_Refused e | Inr (Spawned_With i) \<Rightarrow> Spawn_Kronid i, fs))"
  note run = go_def answer_def told_def numeral_eq_Suc stop_daemon_def start_daemon_def restart_daemon_def read_pid_file_def
  have "(go ^^ 5) (Stop_Exists Ctl_Stop, fs) = (case stop_daemon before after fs of (r, fs') \<Rightarrow> (Stop_Ended r, fs'))"
    "(go ^^ 4) (Start_Exists i, fs) = told (start_daemon running None i fs)"
    by (cases "wf_pid fs"; simp add: run split: option.split)+
  moreover have "(go ^^ 10) (Stop_Exists (Ctl_Restart i), fs) = told (restart_daemon B before after running None i fs)"
    by (cases "wf_pid fs"; cases i; simp add: run split: option.split sum.split)
  ultimately show ?thesis by (simp add: Let_def go_def answer_def told_def)
qed

text \<open>
  A refused start is not without effect: beside a daemon that is up, a second kronid gives up and
  leaves the pid file alone, but has by then put its own run id in the place of the running daemon's,
  which is what a restart would read.
\<close>
theorem refused_start_replaces_run_id:
  assumes "(daemon_step Serial_Commands others)\<^sup>*\<^sup>* (no_daemons fs) s" and "dm_procs s p = Some Up"
    and "none_starting s" and "no_command s" and "dm_procs s q = None" and "q \<notin> others"
  shows "\<exists>s' e. (daemon_step Serial_Commands others)\<^sup>*\<^sup>* s s' \<and> dm_procs s' p = Some Up \<and> dm_procs s' q = Some (Failed e)
    \<and> dm_files s' = (dm_files s)\<lparr> wf_run_id := Content run_id \<rparr>"
proof -
  let ?m = "dm_procs s" and ?c = "dm_ctls s" and ?f = "write_run_id_file run_id (dm_files s)"
  have qp: "q \<noteq> p" using assms(2,5) by auto
  have pid: "wf_pid (dm_files s) = Content (pid_text p)"
    using procs_okD(1) [of s p] serial_reachable [OF assms(1) serial_init] assms(2) by (simp add: up_def serial_ok_def)
  have r0: "(daemon_step Serial_Commands others)\<^sup>*\<^sup>* s \<lparr> dm_files = dm_files s, dm_procs = ?m, dm_ctls = ?c \<rparr>" by (cases s) simp
  have may: "may_launch Serial_Commands \<lparr> dm_files = dm_files s, dm_procs = ?m, dm_ctls = ?c \<rparr>"
    using assms(3,4) by (simp add: none_starting_def no_command_def)
  note r1 = run_launch [OF r0 assms(5,6) may, of run_id]
  have r2: "(daemon_step Serial_Commands others)\<^sup>*\<^sup>* s \<lparr> dm_files = ?f, dm_procs = ?m(q \<mapsto> Pid_Read), dm_ctls = ?c \<rparr>"
    using run_advance [OF r1, of q Pid_Exists Pid_Read ?f] pid by (simp add: write_run_id_file_def)
  have r3: "(daemon_step Serial_Commands others)\<^sup>*\<^sup>* s \<lparr> dm_files = ?f, dm_procs = ?m(q \<mapsto> Pid_Check p), dm_ctls = ?c \<rparr>"
    using run_advance [OF r2, of q Pid_Read "Pid_Check p" ?f] pid by (simp add: write_run_id_file_def)
  let ?e = "''Kronical daemon is already running (PID: '' @ pid_text p @ '')''"
  have r4: "(daemon_step Serial_Commands others)\<^sup>*\<^sup>* s \<lparr> dm_files = ?f, dm_procs = ?m(q \<mapsto> Failed ?e), dm_ctls = ?c \<rparr>"
    using run_advance [OF r3, of q "Pid_Check p" "Failed ?e" ?f] qp assms(2) by (simp add: ps_answer_def dm_alive_def)
  show ?thesis
    using r4 qp assms(2)
    by (intro exI [of _ "\<lparr> dm_files = ?f, dm_procs = ?m(q \<mapsto> Failed ?e), dm_ctls = ?c \<rparr>"] exI [of _ ?e] conjI)
      (simp_all add: write_run_id_file_def)
qed

text \<open>
  A restart keeps the run id and needs the old daemon to go at once: when the daemon named by the pid
  file is still there half a second after the signal, the restart fails as already running and
  changes no file; when it has gone, or was not running, a daemon is spawned with the run id asked
  for, or else the stored one in its canonical spelling, and the old pid file is removed.
\<close>
theorem restart_outcome:
  assumes "wf_pid fs = Content (pid_text p)" and "wf_run_id fs = Content t"
    and "trim t = t" and "t \<noteq> []" and "parse_run_id B t = Inr u"
  shows "restart_daemon B before after after None run_id fs =
    (if before p \<and> after p
     then (Inl (''Kronical daemon is already running (PID: '' @ pid_text p @ ''). Use '' @ quoted ''kronictl stop'' @ '' first.''), fs)
     else (Inr (Spawned_With (case run_id of Some i \<Rightarrow> Some i | None \<Rightarrow> Some u)), fs\<lparr> wf_pid := No_File \<rparr>))"
  using assms
  by (auto simp: restart_daemon_def stop_daemon_def start_daemon_def read_pid_file_def load_previous_run_id_def Let_def
      split: option.split)

section \<open>Witnesses\<close>

lemma pid_text_7: "pid_text 7 = ''7''"
  by (simp add: pid_text_def nat_str.simps digit_chars)

theorem serial_starts_exclude_witness:
  "\<exists>s. (daemon_step Serial_Commands {1})\<^sup>*\<^sup>* (no_daemons empty_files) s \<and> wf_pid (dm_files s) = Content ''7'' \<and> (\<forall>q. dm_procs s q = Some Up \<longrightarrow> q = 7)"
proof -
  let ?s = "\<lparr> dm_files = files_of 7, dm_procs = Map.empty(7 \<mapsto> Up), dm_ctls = Map.empty \<rparr>"
  have s: "(daemon_step Serial_Commands {1})\<^sup>*\<^sup>* (no_daemons empty_files) ?s" by (rule lone_start) simp
  have "dm_procs ?s 7 = Some Up" by simp
  from serial_starts_exclude [OF s this] have "wf_pid (dm_files ?s) = Content ''7'' \<and> (\<forall>q. dm_procs ?s q = Some Up \<longrightarrow> q = 7)"
    unfolding pid_text_7 .
  note w = conjunct1 [OF this] conjunct2 [OF this]
  show ?thesis by (rule exI [of _ ?s], intro conjI s w)
qed

theorem parallel_starts_race_witness:
  "\<exists>s. (daemon_step Overlapping {1})\<^sup>*\<^sup>* (no_daemons empty_files) s \<and> dm_procs s 7 = Some Up \<and> dm_procs s 8 = Some Up"
proof -
  have "(7 :: u32) \<noteq> 8" "(7 :: u32) \<notin> {1}" "(8 :: u32) \<notin> {1}" by simp_all
  from parallel_starts_race [OF this] show ?thesis by blast
qed

theorem slow_stop_races_witness:
  "\<exists>s. (daemon_step Serial_Starts {1})\<^sup>*\<^sup>* (no_daemons empty_files) s \<and> dm_procs s 8 = Some Up \<and> dm_procs s 9 = Some Up"
proof -
  have "distinct [7 :: u32, 8, 9]" "(7 :: u32) \<notin> {1}" "(8 :: u32) \<notin> {1}" "(9 :: u32) \<notin> {1}" by simp_all
  from slow_stop_races [OF this] show ?thesis by blast
qed

theorem refused_start_replaces_run_id_witness:
  "\<exists>s. (daemon_step Serial_Commands {1})\<^sup>*\<^sup>* (no_daemons empty_files) s \<and> dm_procs s 7 = Some Up \<and> wf_run_id (dm_files s) = Content ''fresh''"
proof -
  let ?s = "\<lparr> dm_files = files_of 7, dm_procs = Map.empty(7 \<mapsto> Up), dm_ctls = Map.empty \<rparr>"
  have s: "(daemon_step Serial_Commands {1})\<^sup>*\<^sup>* (no_daemons empty_files) ?s" by (rule lone_start) simp
  have "none_starting ?s" "no_command ?s" by (simp_all add: none_starting_def no_command_def)
  from refused_start_replaces_run_id [OF s _ this, of 7 8 "''fresh''"] obtain s' where
    "(daemon_step Serial_Commands {1})\<^sup>*\<^sup>* ?s s'" "dm_procs s' 7 = Some Up" "dm_files s' = (dm_files ?s)\<lparr> wf_run_id := Content ''fresh'' \<rparr>" by auto
  with s show ?thesis by (intro exI [of _ s'] conjI) (auto intro: rtranclp_trans)
qed

theorem restart_outcome_witness:
  "fst (restart_daemon demo_base64 (\<lambda>_. True) (\<lambda>_. False) (\<lambda>_. False) None None
      \<lparr> wf_pid = Content (pid_text 7), wf_lock = True, wf_tmp = No_File, wf_run_id = Content ''x0123456789abcdef'' \<rparr>)
    = Inr (Spawned_With (Some ''x0123456789abcdef''))"
proof -
  let ?fs = "\<lparr> wf_pid = Content (pid_text 7), wf_lock = True, wf_tmp = No_File, wf_run_id = Content ''x0123456789abcdef'' \<rparr>"
  have "trim ''x0123456789abcdef'' = ''x0123456789abcdef''" by (rule trim_plain) (simp add: plain_def)
  moreover have "parse_run_id demo_base64 ''x0123456789abcdef'' = Inr ''x0123456789abcdef''"
    by (simp add: parse_run_id_def decode_run_id_def demo_base64_def)
  ultimately show ?thesis
    using restart_outcome [of ?fs 7 "''x0123456789abcdef''" demo_base64 "''x0123456789abcdef''" "\<lambda>_. True" "\<lambda>_. False" None] by simp
qed

end
