(* ===== verification/Coordinator.thy ===== *)
theory Coordinator
  imports Pipeline Focus_Worker Threading App_Config Daemon_Control
begin

text \<open>
  The coordinator, src/daemon/coordinator.rs, which wires the daemon together: the hooks' events become
  the events of the pipeline and the messages of the focus worker, the configuration is handed to the
  parts, and the main thread starts the parts in an order and cleans them up in another; and the end of
  kronid's \<open>run\<close> behind it.

  The hook libraries are foreign: their codes are parameters, and whether a part starts, and whether a
  wait for a thread returns, are inputs of the main thread.
\<close>

section \<open>Events of the hooks\<close>

text \<open>The events of uiohook with what the handler reads of them; coordinates are 16 bits wide there.\<close>

datatype hook_event =
    Hook_Keyboard
  | Hook_Mouse hook_mouse_event_type hook_mouse_button i16 i16 u16
  | Hook_Wheel u16 i16 i16 u8 u16 i16 u8
  | Hook_Enabled
  | Hook_Disabled

record hook_codes =
  hk_unit :: u8
  hk_block :: u8
  hk_vertical :: u8
  hk_horizontal :: u8

definition handle_event :: "hook_codes \<Rightarrow> hook_event \<Rightarrow> kronical_event option" where
  "handle_event H event = (case event of
      Hook_Keyboard \<Rightarrow> Some KeyboardInputEvent
    | Hook_Mouse event_type button x y clicks \<Rightarrow>
        Some (MouseInputEvent (scast x) (scast y) (button_from_hook button) clicks (event_kind_from_hook event_type))
    | Hook_Wheel clicks x y type amount rotation direction \<Rightarrow>
        Some (MouseWheelEvent clicks (scast x) (scast y) (wheel_scroll_type_from_raw (hk_unit H) (hk_block H) type) amount rotation
          (wheel_axis_from_direction (hk_vertical H) (hk_horizontal H) direction))
    | Hook_Enabled \<Rightarrow> None
    | Hook_Disabled \<Rightarrow> None)"

definition on_focus_change :: "window_focus_info \<Rightarrow> kronical_event" where
  "on_focus_change focus_info = WindowFocusChangeEvent focus_info"

text \<open>The events of winshift; only the handler of the focus hook has a focus worker to send to.\<close>

datatype winshift_event =
    App_Changed i32 string
  | Window_Changed string
  | App_Changed_Info active_window_info
  | Window_Changed_Info active_window_info

definition on_winshift :: "bool \<Rightarrow> winshift_event \<Rightarrow> focus_msg option" where
  "on_winshift has_worker e =
     (if has_worker then Some (case e of
          App_Changed pid app \<Rightarrow> AppChange pid app
        | Window_Changed title \<Rightarrow> WindowChange title
        | App_Changed_Info info \<Rightarrow> AppChangeInfo info
        | Window_Changed_Info info \<Rightarrow> WindowChangeInfo info)
      else None)"

section \<open>The configuration handed on\<close>

record 'd coordinator =
  cr_retention_minutes :: u64
  cr_active_grace_secs :: u64
  cr_idle_threshold_secs :: u64
  cr_ephemeral_max_duration_secs :: u64
  cr_ephemeral_min_distinct_ids :: u64
  cr_max_windows_per_app :: u64
  cr_ephemeral_app_max_duration_secs :: u64
  cr_ephemeral_app_min_distinct_procs :: u64
  cr_pid_cache_capacity :: u64
  cr_title_cache_capacity :: u64
  cr_title_cache_ttl_secs :: u64
  cr_focus_interner_max_strings :: u64
  cr_focus_window_coalesce_ms :: u64
  cr_focus_allow_zero_window_id :: bool
  cr_persist_raw_events :: bool
  cr_tracker_enabled :: bool
  cr_tracker_interval_secs :: 'd
  cr_tracker_batch_size :: u64
  cr_tracker_db_backend :: db_backend
  cr_duckdb_memory_limit_mb_tracker :: u64
  cr_threads :: thread_registry

definition coordinator_threads :: thread_registry where
  "coordinator_threads = with_slots [''api-grpc'', ''api-http'', ''system-tracker'', ''pipeline-data'', ''pipeline-storage'',
     ''pipeline-hints'', ''focus-worker'']"

definition coordinator_initialize :: "'d app_config \<Rightarrow> 'd coordinator" where
  "coordinator_initialize c = \<lparr> cr_retention_minutes = ac_retention_minutes c, cr_active_grace_secs = ac_active_grace_secs c,
     cr_idle_threshold_secs = ac_idle_threshold_secs c, cr_ephemeral_max_duration_secs = ac_ephemeral_max_duration_secs c,
     cr_ephemeral_min_distinct_ids = ac_ephemeral_min_distinct_ids c, cr_max_windows_per_app = ac_max_windows_per_app c,
     cr_ephemeral_app_max_duration_secs = ac_ephemeral_app_max_duration_secs c,
     cr_ephemeral_app_min_distinct_procs = ac_ephemeral_app_min_distinct_procs c, cr_pid_cache_capacity = ac_pid_cache_capacity c,
     cr_title_cache_capacity = ac_title_cache_capacity c, cr_title_cache_ttl_secs = ac_title_cache_ttl_secs c,
     cr_focus_interner_max_strings = ac_focus_interner_max_strings c, cr_focus_window_coalesce_ms = ac_focus_window_coalesce_ms c,
     cr_focus_allow_zero_window_id = ac_focus_allow_zero_window_id c, cr_persist_raw_events = ac_persist_raw_events c,
     cr_tracker_enabled = ac_tracker_enabled c, cr_tracker_interval_secs = ac_tracker_interval_secs c,
     cr_tracker_batch_size = ac_tracker_batch_size c, cr_tracker_db_backend = ac_tracker_db_backend c,
     cr_duckdb_memory_limit_mb_tracker = ac_duckdb_memory_limit_mb_tracker c, cr_threads = coordinator_threads \<rparr>"

definition pipeline_config_of :: "'d coordinator \<Rightarrow> pipeline_config" where
  "pipeline_config_of k = \<lparr> retention_minutes = cr_retention_minutes k, active_grace_secs = cr_active_grace_secs k,
     idle_threshold_secs = cr_idle_threshold_secs k, ephemeral_max_duration_secs = cr_ephemeral_max_duration_secs k,
     ephemeral_min_distinct_ids = cr_ephemeral_min_distinct_ids k, max_windows_per_app = cr_max_windows_per_app k,
     ephemeral_app_max_duration_secs = cr_ephemeral_app_max_duration_secs k,
     ephemeral_app_min_distinct_procs = cr_ephemeral_app_min_distinct_procs k,
     focus_interner_max_strings = cr_focus_interner_max_strings k, persist_raw_events = cr_persist_raw_events k \<rparr>"

definition focus_caps_of :: "'d coordinator \<Rightarrow> focus_caps" where
  "focus_caps_of k = \<lparr> fc_pid_cache_capacity = unat (cr_pid_cache_capacity k), fc_title_cache_capacity = unat (cr_title_cache_capacity k),
     fc_title_cache_ttl_secs = cr_title_cache_ttl_secs k, fc_focus_window_coalesce_ms = cr_focus_window_coalesce_ms k,
     fc_focus_allow_zero_window_id = cr_focus_allow_zero_window_id k \<rparr>"

section \<open>The main thread\<close>

text \<open>The errors of the parts, in the order they are started; the tracker's start does nothing.\<close>

record startup =
  su_grpc :: "string option"
  su_http :: "string option"
  su_pipeline :: "string option"
  su_focus_hook :: "string option"
  su_handler :: "string option"
  su_uiohook :: "string option"
  su_run_focus :: "string option"

record shutdown_guard =
  gd_api :: bool
  gd_pipeline :: bool
  gd_uiohook :: bool
  gd_focus_hook :: bool

text \<open>What the guard holds when \<open>start_main_thread\<close> leaves its body, and the body's result.\<close>

definition start_main_thread :: "startup \<Rightarrow> shutdown_guard \<times> string option" where
  "start_main_thread su =
     (let g0 = \<lparr> gd_api = False, gd_pipeline = False, gd_uiohook = False, gd_focus_hook = False \<rparr> in
      case su_grpc su of Some e \<Rightarrow> (g0, Some e) | None \<Rightarrow>
      case su_http su of Some e \<Rightarrow> (g0, Some e) | None \<Rightarrow>
      let g1 = g0\<lparr> gd_api := True \<rparr> in
      case su_pipeline su of Some e \<Rightarrow> (g1, Some e) | None \<Rightarrow>
      let g2 = g1\<lparr> gd_pipeline := True \<rparr> in
      case su_focus_hook su of Some e \<Rightarrow> (g2, Some e) | None \<Rightarrow>
      let g3 = g2\<lparr> gd_focus_hook := True \<rparr> in
      case su_handler su of Some e \<Rightarrow> (g3, Some e) | None \<Rightarrow>
      case su_uiohook su of Some e \<Rightarrow> (g3, Some (''UIohook failed: '' @ e)) | None \<Rightarrow>
      let g4 = g3\<lparr> gd_uiohook := True \<rparr> in
      case su_run_focus su of Some e \<Rightarrow> (g4, Some (''Focus hook failed: '' @ e)) | None \<Rightarrow> (g4, None))"

text \<open>The drop of the guard: its actions in order; \<open>join_all\<close> waits for the gRPC server first.\<close>

datatype cleanup = Stop_Uiohook | Stop_Focus_Hook | Join_Pipeline | Join_Grpc | Join_Http | Remove_Grpc_Socket | Remove_Http_Socket

definition drop_guard :: "shutdown_guard \<Rightarrow> cleanup list" where
  "drop_guard g = (if gd_uiohook g then [Stop_Uiohook] else []) @ (if gd_focus_hook g then [Stop_Focus_Hook] else [])
     @ (if gd_pipeline g then [Join_Pipeline] else []) @ (if gd_api g then [Join_Grpc, Join_Http] else [])
     @ [Remove_Grpc_Socket, Remove_Http_Socket]"

text \<open>The actions that are done, and the one that never returns, if any.\<close>

fun perform :: "(cleanup \<Rightarrow> bool) \<Rightarrow> cleanup list \<Rightarrow> cleanup list \<times> cleanup option" where
  "perform returns [] = ([], None)"
| "perform returns (a # as) = (if returns a then (let (did, stuck) = perform returns as in (a # did, stuck)) else ([], Some a))"

text \<open>Which actions return: a join, when its thread ends; the rest always.\<close>

record thread_ends =
  ends_pipeline :: bool
  ends_grpc :: bool
  ends_http :: bool

fun action_returns :: "thread_ends \<Rightarrow> cleanup \<Rightarrow> bool" where
  "action_returns E Join_Pipeline = ends_pipeline E"
| "action_returns E Join_Grpc = ends_grpc E"
| "action_returns E Join_Http = ends_http E"
| "action_returns E _ = True"

text \<open>
  \<open>kronid\<close> from the main thread on: what is cleaned up, where it is stuck, and, when it is not, the
  result and the files at the end of \<open>run\<close>.
\<close>

record kronid_end =
  ke_done :: "cleanup list"
  ke_stuck :: "cleanup option"
  ke_result :: "string option option"
  ke_files :: work_files

definition kronid_main :: "startup \<Rightarrow> thread_ends \<Rightarrow> u32 \<Rightarrow> work_files \<Rightarrow> kronid_end" where
  "kronid_main su E self fs =
     (let (guard, r) = start_main_thread su; (did, stuck) = perform (action_returns E) (drop_guard guard) in
      case stuck of
        Some a \<Rightarrow> \<lparr> ke_done = did, ke_stuck = Some a, ke_result = None, ke_files = fs \<rparr>
      | None \<Rightarrow> (case kronid_exit (r = None) self fs of (r', fs') \<Rightarrow>
          \<lparr> ke_done = did, ke_stuck = None, ke_result = Some r', ke_files = fs' \<rparr>))"


section \<open>Lemmas\<close>



section \<open>Properties\<close>

text \<open>
  The events of the hooks reach the pipeline: only the two notices that the hook is on or off are
  dropped, every other event is one the ingest stage can convert, keeps the position it had, and a
  focus change keeps its description.
\<close>
theorem hook_events_convert:
  "(handle_event H e = None \<longleftrightarrow> e = Hook_Enabled \<or> e = Hook_Disabled)
   \<and> (\<forall>k. handle_event H e = Some k \<longrightarrow> k \<noteq> ShutdownEvent \<and> (\<exists>r. convert_kronid_to_raw k now i = Inr r))
   \<and> (\<forall>t b x y c. e = Hook_Mouse t b x y c \<longrightarrow> (\<exists>k m. handle_event H e = Some k
        \<and> convert_kronid_to_raw k now i = Inr (RawMouseInput now i m)
        \<and> sint (pos_x (mouse_pos m)) = sint x \<and> sint (pos_y (mouse_pos m)) = sint y))
   \<and> convert_kronid_to_raw (on_focus_change f) now i = Inr (RawWindowFocusChange now i f)"
proof -
  have "sint (scast (x :: i16) :: i32) = sint x" for x
    using sint_greater_eq [of x] sint_less [of x] by (simp add: signed_scast_eq signed_take_bit_int_eq_self)
  then show ?thesis
    by (cases e) (auto simp: handle_event_def convert_kronid_to_raw_def on_focus_change_def)
qed


text \<open>
  With threads that end the cleanup would be complete: every part that was started is stopped or
  waited for, in the order hooks, pipeline, servers, sockets, the pid file of this process and the lock
  are removed, and the result is that of the body.
\<close>
theorem complete_cleanup:
  assumes "ends_pipeline E" and "ends_grpc E" and "ends_http E" and "wf_pid fs = Content (pid_text self)"
    and "start_main_thread su = (g, r)"
  shows "kronid_main su E self fs = \<lparr> ke_done = drop_guard g, ke_stuck = None,
    ke_result = Some (case r of None \<Rightarrow> None | Some e \<Rightarrow> Some ''coordinator main thread exited with error''),
    ke_files = fs\<lparr> wf_pid := No_File, wf_lock := False \<rparr> \<rparr>"
proof -
  have "action_returns E a" for a using assms(1-3) by (cases a) simp_all
  then have "perform (action_returns E) as = (as, None)" for as by (induction as) simp_all
  with assms(4,5) show ?thesis
    by (auto simp: kronid_main_def kronid_exit_def cleanup_pid_file_def guard_drop_def split: option.split)
qed

text \<open>
  Every setting reaches the part it is for: the pipeline's configuration and the focus worker's limits are
  the fields of the configuration of the same names.
\<close>
theorem settings_reach_parts:
  "pipeline_config_of (coordinator_initialize c) = \<lparr> retention_minutes = ac_retention_minutes c, active_grace_secs = ac_active_grace_secs c,
     idle_threshold_secs = ac_idle_threshold_secs c, ephemeral_max_duration_secs = ac_ephemeral_max_duration_secs c,
     ephemeral_min_distinct_ids = ac_ephemeral_min_distinct_ids c, max_windows_per_app = ac_max_windows_per_app c,
     ephemeral_app_max_duration_secs = ac_ephemeral_app_max_duration_secs c,
     ephemeral_app_min_distinct_procs = ac_ephemeral_app_min_distinct_procs c,
     focus_interner_max_strings = ac_focus_interner_max_strings c, persist_raw_events = ac_persist_raw_events c \<rparr>
   \<and> focus_caps_of (coordinator_initialize c) = \<lparr> fc_pid_cache_capacity = unat (ac_pid_cache_capacity c),
     fc_title_cache_capacity = unat (ac_title_cache_capacity c), fc_title_cache_ttl_secs = ac_title_cache_ttl_secs c,
     fc_focus_window_coalesce_ms = ac_focus_window_coalesce_ms c, fc_focus_allow_zero_window_id = ac_focus_allow_zero_window_id c \<rparr>"
  by (simp add: pipeline_config_of_def focus_caps_of_def coordinator_initialize_def)

section \<open>Witnesses\<close>

definition demo_startup :: "string option \<Rightarrow> startup" where
  "demo_startup http = \<lparr> su_grpc = None, su_http = http, su_pipeline = None, su_focus_hook = None, su_handler = None,
     su_uiohook = Some ''denied'', su_run_focus = None \<rparr>"

definition demo_files :: work_files where
  "demo_files = \<lparr> wf_pid = Content (pid_text 7), wf_lock = True, wf_tmp = No_File, wf_run_id = No_File \<rparr>"


theorem complete_cleanup_witness:
  "ke_done (kronid_main (demo_startup None) \<lparr> ends_pipeline = True, ends_grpc = True, ends_http = True \<rparr> 7 demo_files)
     = [Stop_Focus_Hook, Join_Pipeline, Join_Grpc, Join_Http, Remove_Grpc_Socket, Remove_Http_Socket]"
proof -
  let ?E = "\<lparr> ends_pipeline = True, ends_grpc = True, ends_http = True \<rparr>"
  let ?g = "\<lparr> gd_api = True, gd_pipeline = True, gd_uiohook = False, gd_focus_hook = True \<rparr>"
  have s: "start_main_thread (demo_startup None) = (?g, Some (''UIohook failed: '' @ ''denied''))"
    by (simp add: start_main_thread_def demo_startup_def)
  have "wf_pid demo_files = Content (pid_text 7)" by (simp add: demo_files_def)
  from complete_cleanup [of ?E, OF _ _ _ this s] show ?thesis by (simp add: drop_guard_def)
qed

end
