(* ===== verification/Daemon_Start.thy ===== *)
theory Daemon_Start
  imports Coordinator
begin

text \<open>
  The start of the daemon: \<open>spawn_all\<close> of src/daemon/api.rs with the start of the two servers, each of which
  waits half a second for its thread to say that it listens, src/daemon/server/grpc.rs and http.rs; and
  \<open>run\<close> of src/bin/kronid.rs from the run id to the end of the main thread.

  What the operating system answers is an input: whether a thread is spawned, a socket bound, a
  directory made, whether the thread says so in time, and how it ends, if it ends.
\<close>

section \<open>Servers\<close>

text \<open>
  What a panic leaves in the result of a join.  \<open>expect\<close> of an error makes a \<open>String\<close> of the message and the
  error.
\<close>

datatype payload = String_Payload string | Str_Payload string | Other_Payload

definition panic_msg :: "payload \<Rightarrow> string option" where
  "panic_msg p = (case p of String_Payload s \<Rightarrow> Some s | Str_Payload s \<Rightarrow> Some s | Other_Payload \<Rightarrow> None)"

text \<open>
  \<open>sv_removed\<close> tells whether an old socket could be removed, \<open>sv_bind b\<close> the error of binding when the path
  is free (\<open>b = False\<close>) or not.  \<open>sv_prompt\<close>: the signal comes within 500 ms.  \<open>sv_end\<close> is how the thread ends once
  it serves: not at all (\<open>None\<close>), well (\<open>Some None\<close>), or with a panic.
\<close>

record server_env =
  sv_exists :: bool
  sv_removed :: bool
  sv_thread :: "string + nat"
  sv_build :: "string option"
  sv_bind :: "bool \<Rightarrow> string option"
  sv_meta :: "string option"
  sv_chmod :: "string option"
  sv_prompt :: bool
  sv_end :: "payload option option"

definition expect :: "string \<Rightarrow> string option \<Rightarrow> payload option" where
  "expect msg e = map_option (\<lambda>e. String_Payload (msg @ '': '' @ e)) e"

definition first_panic :: "payload option list \<Rightarrow> payload option" where
  "first_panic ps = Option.bind (find (\<lambda>p. p \<noteq> None) ps) (\<lambda>p. p)"

text \<open>What goes wrong in the thread before it signals.\<close>

definition grpc_boot :: "server_env \<Rightarrow> payload option" where
  "grpc_boot E = first_panic [expect ''build runtime'' (sv_build E), expect ''bind uds'' (sv_bind E (sv_exists E \<and> \<not> sv_removed E)),
     expect ''meta'' (sv_meta E), expect ''chmod'' (sv_chmod E)]"

definition http_boot :: "server_env \<Rightarrow> payload option" where
  "http_boot E = first_panic [expect ''build runtime'' (sv_build E),
     expect ''bind unix listener'' (sv_bind E (sv_exists E \<and> \<not> sv_removed E))]"

text \<open>\<open>None\<close>: the thread never ends.\<close>

definition thread_fate :: "payload option \<Rightarrow> server_env \<Rightarrow> payload option option" where
  "thread_fate boot E = (case boot of Some p \<Rightarrow> Some (Some p) | None \<Rightarrow> sv_end E)"

datatype 'a start = Started 'a | Start_Failed string | Start_Hangs

text \<open>
  The wait for the signal, which also ends when the thread drops its sender in a panic; without a signal the
  thread is joined for its panic.
\<close>

definition await_ready ::
  "string \<Rightarrow> payload option \<Rightarrow> server_env \<Rightarrow> thread_handle \<Rightarrow> thread_registry \<Rightarrow> thread_registry \<times> thread_handle start" where
  "await_ready name boot E h reg =
     (if boot = None \<and> sv_prompt E then (reg, Started h)
      else case thread_fate boot E of
        None \<Rightarrow> (fst (join_begin (th_id h) reg), Start_Hangs)
      | Some r \<Rightarrow> (fst (thread_join (r = None) h reg),
          Start_Failed (name @ '' server failed to signal readiness within 500ms''
            @ (case Option.bind r panic_msg of None \<Rightarrow> [] | Some m \<Rightarrow> '': '' @ m))))"

definition spawn_server :: "server_env \<Rightarrow> thread_registry \<Rightarrow> thread_registry \<times> thread_handle start" where
  "spawn_server E reg = (case spawn (sv_thread E) ''grpc-server'' reg of
      (reg', Inl e) \<Rightarrow> (reg', Start_Failed ''spawn gRPC server thread'')
    | (reg', Inr h) \<Rightarrow> await_ready ''gRPC'' (grpc_boot E) E h reg')"

definition spawn_http_server :: "server_env \<Rightarrow> thread_registry \<Rightarrow> thread_registry \<times> thread_handle start" where
  "spawn_http_server E reg = (case spawn (sv_thread E) ''http-server'' reg of
      (reg', Inl e) \<Rightarrow> (reg', Start_Failed ''spawn HTTP server thread'')
    | (reg', Inr h) \<Rightarrow> await_ready ''HTTP'' (http_boot E) E h reg')"

text \<open>An error of the second server drops the handle of the first.\<close>

definition spawn_all :: "server_env \<Rightarrow> server_env \<Rightarrow> thread_registry \<Rightarrow> thread_registry \<times> (thread_handle \<times> thread_handle) start" where
  "spawn_all G H reg = (case spawn_server G reg of
      (reg1, Start_Failed e) \<Rightarrow> (reg1, Start_Failed e)
    | (reg1, Start_Hangs) \<Rightarrow> (reg1, Start_Hangs)
    | (reg1, Started g) \<Rightarrow> (case spawn_http_server H reg1 of
        (reg2, Start_Failed e) \<Rightarrow> (drop_handle (th_id g) reg2, Start_Failed e)
      | (reg2, Start_Hangs) \<Rightarrow> (reg2, Start_Hangs)
      | (reg2, Started h) \<Rightarrow> (reg2, Started (g, h))))"

text \<open>\<open>join_all\<close>, the gRPC server first; the boolean tells whether it returns.\<close>

definition join_server :: "payload option option \<Rightarrow> thread_handle \<Rightarrow> thread_registry \<Rightarrow> thread_registry \<times> bool" where
  "join_server fate h reg = (case fate of
      None \<Rightarrow> (fst (join_begin (th_id h) reg), False)
    | Some r \<Rightarrow> (fst (thread_join (r = None) h reg), True))"

definition join_all :: "payload option option \<Rightarrow> payload option option \<Rightarrow> thread_handle \<times> thread_handle \<Rightarrow> thread_registry \<Rightarrow> thread_registry \<times> bool" where
  "join_all fate_g fate_h = (\<lambda>(g, h) reg. case join_server fate_g g reg of
      (reg', False) \<Rightarrow> (reg', False)
    | (reg', True) \<Rightarrow> join_server fate_h h reg')"

section \<open>The pid file protocol in one piece\<close>

text \<open>How far a process still is from the end of the protocol, at most.\<close>

fun steps_left :: "pid_pc \<Rightarrow> nat" where
  "steps_left Pid_Exists = 9"
| "steps_left Pid_Read = 8"
| "steps_left (Pid_Check n) = 7"
| "steps_left Remove_Pid = 6"
| "steps_left Remove_Lock = 5"
| "steps_left Lock_Exists = 6"
| "steps_left Unlock_Stale = 5"
| "steps_left Create_Lock = 4"
| "steps_left Write_Temp = 3"
| "steps_left Rename_Temp = 2"
| "steps_left Verify = 1"
| "steps_left Up = 0"
| "steps_left (Failed e) = 0"

lemma step_advances: "0 < steps_left pc \<Longrightarrow> steps_left (fst (kronid_step io run self pc fs)) < steps_left pc"
  by (cases pc) (auto split: option.splits file_state.splits sum.splits bool.splits)

text \<open>\<open>write_pid_file\<close> and \<open>verify_pid_file\<close> of a kronid that no other process disturbs.\<close>

function pid_protocol :: "start_io \<Rightarrow> (u32 \<Rightarrow> string + bool) \<Rightarrow> u32 \<Rightarrow> pid_pc \<Rightarrow> work_files \<Rightarrow> pid_pc \<times> work_files" where
  "pid_protocol io run self pc fs =
     (if steps_left pc = 0 then (pc, fs)
      else pid_protocol io run self (fst (kronid_step io run self pc fs)) (snd (kronid_step io run self pc fs)))"
  by auto
termination by (relation "measure (\<lambda>(io, run, self, pc, fs). steps_left pc)") (use step_advances in \<open>auto simp: split_beta\<close>)

declare pid_protocol.simps [simp del]

section \<open>The run of kronid\<close>

record 'd run_env =
  re_arg :: "string option"
  re_uuid :: string
  re_config :: "string + 'd app_config"
  re_workspace :: "string option"
  re_run_open :: "string option"
  re_run_write :: "(string \<times> string) option"
  re_logging :: "string option"
  re_io :: start_io
  re_ps :: "u32 \<Rightarrow> string + bool"
  re_store :: "string + nat"
  re_grpc :: server_env
  re_http :: server_env
  re_parts :: startup
  re_pipeline_ends :: bool

datatype run_end = Run_Ended kronid_end | Run_Start_Hangs work_files

definition run_fails :: "string \<Rightarrow> work_files \<Rightarrow> run_end" where
  "run_fails e fs = Run_Ended \<lparr> ke_done = [], ke_stuck = None, ke_result = Some (Some e), ke_files = fs \<rparr>"

text \<open>The stores, and the thread each has spawned in the registry when it is open.\<close>

definition store_name :: "db_backend \<Rightarrow> string" where
  "store_name b = (case b of Duckdb \<Rightarrow> ''DuckDB'' | Sqlite3 \<Rightarrow> ''SQLite'')"

definition writer_name :: "db_backend \<Rightarrow> string" where
  "writer_name b = (case b of Duckdb \<Rightarrow> ''duckdb-writer'' | Sqlite3 \<Rightarrow> ''sqlite-writer'')"

text \<open>The main thread, its servers started by \<open>spawn_all\<close>; their threads end later as their inputs say.\<close>

definition run_main :: "'d run_env \<Rightarrow> u32 \<Rightarrow> thread_registry \<Rightarrow> work_files \<Rightarrow> run_end" where
  "run_main R self reg fs =
     (let E = \<lparr> ends_pipeline = re_pipeline_ends R, ends_grpc = sv_end (re_grpc R) \<noteq> None, ends_http = sv_end (re_http R) \<noteq> None \<rparr>
      in case snd (spawn_all (re_grpc R) (re_http R) reg) of
        Start_Hangs \<Rightarrow> Run_Start_Hangs fs
      | Start_Failed e \<Rightarrow> Run_Ended (kronid_main ((re_parts R)\<lparr> su_grpc := Some e \<rparr>) E self fs)
      | Started hs \<Rightarrow> Run_Ended (kronid_main ((re_parts R)\<lparr> su_grpc := None, su_http := None \<rparr>) E self fs))"

definition kronid_run :: "base64 \<Rightarrow> 'd run_env \<Rightarrow> u32 \<Rightarrow> work_files \<Rightarrow> run_end" where
  "kronid_run B R self fs =
     (case (case re_arg R of Some i \<Rightarrow> parse_run_id B i | None \<Rightarrow> Inr (encode_uuid B (re_uuid R))) of
        Inl e \<Rightarrow> run_fails e fs
      | Inr run_id \<Rightarrow>
      (case re_config R of Inl e \<Rightarrow> run_fails ''loading application configuration'' fs | Inr config \<Rightarrow>
      (case re_workspace R of Some e \<Rightarrow> run_fails ''creating workspace dir'' fs | None \<Rightarrow>
      (case re_run_open R of Some e \<Rightarrow> run_fails e fs | None \<Rightarrow>
      (case re_run_write R of Some (e, rest) \<Rightarrow> run_fails e (write_run_id_file rest fs) | None \<Rightarrow>
      (let fs1 = write_run_id_file run_id fs in
       case re_logging R of Some e \<Rightarrow> run_fails e fs1 | None \<Rightarrow>
      (case pid_protocol (re_io R) (re_ps R) self Pid_Exists fs1 of
         (Up, fs2) \<Rightarrow> (case re_store R of
             Inl e \<Rightarrow> run_fails (''initializing '' @ store_name (ac_db_backend config) @ '' store'') (guard_drop True self fs2)
           | Inr tid \<Rightarrow> run_main R self (fst (spawn (Inr tid) (writer_name (ac_db_backend config)) coordinator_threads)) fs2)
       | (Failed e, fs2) \<Rightarrow> run_fails e fs2
       | (_, fs2) \<Rightarrow> run_fails [] fs2)))))))"

text \<open>\<open>main\<close>: the exit code, when \<open>run\<close> returns.\<close>

definition end_files :: "run_end \<Rightarrow> work_files" where
  "end_files r = (case r of Run_Start_Hangs fs \<Rightarrow> fs | Run_Ended k \<Rightarrow> ke_files k)"

definition exit_code :: "run_end \<Rightarrow> nat option" where
  "exit_code r = (case r of Run_Start_Hangs fs \<Rightarrow> None
     | Run_Ended k \<Rightarrow> map_option (\<lambda>e. if e = None then 0 else 1) (ke_result k))"

section \<open>Lemmas\<close>

definition named_pid :: "work_files \<Rightarrow> u32 option" where
  "named_pid fs = (case wf_pid fs of Content s \<Rightarrow> parse_u32 (trim s) | _ \<Rightarrow> None)"

lemma named_pid_simps [simp]:
  "wf_pid fs = Content (pid_text n) \<Longrightarrow> named_pid fs = Some n"
  "wf_pid fs = No_File \<Longrightarrow> named_pid fs = None"
  "named_pid (write_run_id_file i fs) = named_pid fs"
  "wf_pid (write_run_id_file i fs) = wf_pid fs"
  "wf_lock (write_run_id_file i fs) = wf_lock fs"
  by (simp_all add: named_pid_def write_run_id_file_def)

lemma pid_protocol_go: "0 < steps_left pc \<Longrightarrow> kronid_step io run self pc fs = (pc', fs') \<Longrightarrow>
    pid_protocol io run self pc fs = pid_protocol io run self pc' fs'"
  by (subst pid_protocol.simps) simp

lemma pid_protocol_end [simp]: "pid_protocol io run self Up fs = (Up, fs)" "pid_protocol io run self (Failed e) fs = (Failed e, fs)"
  by (simp_all add: pid_protocol.simps)

text \<open>What the protocol does once the way is free, from the creation of the lock on.\<close>

definition take_over :: "start_io \<Rightarrow> u32 \<Rightarrow> work_files \<Rightarrow> pid_pc \<times> work_files" where
  "take_over io self fs =
     (let free = fs\<lparr> wf_pid := No_File, wf_lock := False \<rparr> in
      if io_create io \<noteq> None then (Failed ''creating lock'', free)
      else (case io_write io of Some e \<Rightarrow> (Failed e, free\<lparr> wf_tmp := No_File \<rparr>) | None \<Rightarrow>
        if io_rename io \<noteq> None then (Failed ''renaming'', free\<lparr> wf_tmp := No_File \<rparr>)
        else (Up, fs\<lparr> wf_pid := Content (pid_text self), wf_lock := True, wf_tmp := No_File \<rparr>)))"

lemma take_over_free [simp]:
  "take_over io self (fs\<lparr> wf_pid := No_File, wf_lock := False \<rparr>) = take_over io self fs"
  "take_over io self (fs\<lparr> wf_lock := False \<rparr>) = take_over io self fs"
  "take_over io self (fs\<lparr> wf_pid := No_File \<rparr>) = take_over io self fs"
  by (cases "io_create io"; cases "io_write io"; cases "io_rename io"; simp add: take_over_def)+


lemma protocol_from_lock:
  assumes "wf_pid fs = No_File" and "\<not> wf_lock fs"
  shows "pid_protocol io run self Create_Lock fs = take_over io self fs"
  using assms by (cases "io_create io"; cases "io_write io"; cases "io_rename io"; cases fs)
    (simp_all add: pid_protocol.simps take_over_def undo_start_def)

text \<open>The protocol of an undisturbed process.\<close>

lemma protocol_alone:
  "pid_protocol io run self Pid_Exists fs =
     (case named_pid fs of None \<Rightarrow> take_over io self fs
      | Some n \<Rightarrow> (case run n of
          Inl e \<Rightarrow> (Failed ''checking existing pid'', fs)
        | Inr True \<Rightarrow> (Failed (''Kronical daemon is already running (PID: '' @ pid_text n @ '')''), fs)
        | Inr False \<Rightarrow> take_over io self fs))"
proof -
  have remove: "pid_protocol io run self Remove_Pid fs = take_over io self fs"
    using protocol_from_lock [of "fs\<lparr> wf_pid := No_File, wf_lock := False \<rparr>" io run self]
    by (simp add: pid_protocol_go [of Remove_Pid] pid_protocol_go [of Remove_Lock])
  show ?thesis
  proof (cases "wf_pid fs")
    case No_File
    then have "fs\<lparr> wf_pid := No_File \<rparr> = fs" by (cases fs) simp
    then show ?thesis
      using No_File protocol_from_lock [of fs io run self] protocol_from_lock [of "fs\<lparr> wf_lock := False \<rparr>" io run self]
      by (cases "wf_lock fs") (simp_all add: pid_protocol_go [of Pid_Exists] pid_protocol_go [of Lock_Exists] pid_protocol_go [of Unlock_Stale])
  next
    case Unreadable
    then show ?thesis by (simp add: named_pid_def pid_protocol_go [of Pid_Exists] pid_protocol_go [of Pid_Read] remove)
  next
    case (Content t)
    have read: "pid_protocol io run self Pid_Exists fs = pid_protocol io run self Pid_Read fs"
      using Content by (simp add: pid_protocol_go [of Pid_Exists])
    show ?thesis
    proof (cases "parse_u32 (trim t)")
      case None
      then show ?thesis using Content by (simp add: named_pid_def read pid_protocol_go [of Pid_Read] remove)
    next
      case (Some n)
      have check: "pid_protocol io run self (Pid_Check n) fs = (case run n of
          Inl e \<Rightarrow> (Failed ''checking existing pid'', fs)
        | Inr True \<Rightarrow> (Failed (''Kronical daemon is already running (PID: '' @ pid_text n @ '')''), fs)
        | Inr False \<Rightarrow> take_over io self fs)"
        by (simp add: pid_protocol_go [of "Pid_Check n"] remove split: sum.split bool.split)
      show ?thesis using Content Some by (simp add: named_pid_def read pid_protocol_go [of Pid_Read] check)
    qed
  qed
qed


text \<open>A server that listens in time, and one whose thread lives on but does not say so in time.\<close>

definition ready :: "(server_env \<Rightarrow> payload option) \<Rightarrow> server_env \<Rightarrow> bool" where
  "ready boot E \<longleftrightarrow> \<not> isl (sv_thread E) \<and> boot E = None \<and> sv_prompt E"

definition wedged :: "(server_env \<Rightarrow> payload option) \<Rightarrow> server_env \<Rightarrow> bool" where
  "wedged boot E \<longleftrightarrow> \<not> isl (sv_thread E) \<and> boot E = None \<and> \<not> sv_prompt E \<and> sv_end E = None"

lemma await_ready_cases:
  "(\<exists>h'. snd (await_ready name boot E h reg) = Started h') \<longleftrightarrow> boot = None \<and> sv_prompt E"
  "snd (await_ready name boot E h reg) = Start_Hangs \<longleftrightarrow> boot = None \<and> \<not> sv_prompt E \<and> sv_end E = None"
  by (auto simp: await_ready_def thread_fate_def split: option.split)

lemma spawn_then_wait:
  shows "(\<exists>h'. snd (case spawn (sv_thread E) name reg of (reg', Inl e) \<Rightarrow> (reg', Start_Failed m)
      | (reg', Inr h) \<Rightarrow> await_ready n boot E h reg') = Started h') \<longleftrightarrow> ready (\<lambda>_. boot) E" (is ?A)
  and "snd (case spawn (sv_thread E) name reg of (reg', Inl e) \<Rightarrow> (reg', Start_Failed m)
      | (reg', Inr h) \<Rightarrow> await_ready n boot E h reg') = Start_Hangs \<longleftrightarrow> wedged (\<lambda>_. boot) E" (is ?B)
proof -
  have "(\<exists>h'. snd (case sp of (reg', Inl e) \<Rightarrow> (reg', Start_Failed m) | (reg', Inr h) \<Rightarrow> await_ready n boot E h reg') = Started h')
      \<longleftrightarrow> \<not> isl (snd sp) \<and> boot = None \<and> sv_prompt E"
    and "snd (case sp of (reg', Inl e) \<Rightarrow> (reg', Start_Failed m) | (reg', Inr h) \<Rightarrow> await_ready n boot E h reg') = Start_Hangs
      \<longleftrightarrow> \<not> isl (snd sp) \<and> boot = None \<and> \<not> sv_prompt E \<and> sv_end E = None" for sp :: "thread_registry \<times> (string + thread_handle)"
    by (auto simp: await_ready_cases split: prod.split sum.split)
  moreover have "isl (snd (spawn (sv_thread E) name reg)) \<longleftrightarrow> isl (sv_thread E)"
    by (simp add: spawn_def split: sum.split option.split)
  ultimately show ?A ?B by (simp_all add: ready_def wedged_def)
qed

lemmas spawn_server_cases = spawn_then_wait [where E = E and name = "''grpc-server''" and reg = reg and m = "''spawn gRPC server thread''" and n = "''gRPC''" and boot = "grpc_boot E",
    folded spawn_server_def] for E reg

lemmas spawn_http_server_cases = spawn_then_wait [where E = E and name = "''http-server''" and reg = reg and m = "''spawn HTTP server thread''" and n = "''HTTP''" and boot = "http_boot E",
    folded spawn_http_server_def] for E reg

lemma spawn_all_cases:
  "(\<exists>hs. snd (spawn_all G H reg) = Started hs) \<longleftrightarrow> ready grpc_boot G \<and> ready http_boot H"
  "snd (spawn_all G H reg) = Start_Hangs \<longleftrightarrow> wedged grpc_boot G \<or> ready grpc_boot G \<and> wedged http_boot H"
proof -
  obtain reg1 x where g: "spawn_server G reg = (reg1, x)" by fastforce
  obtain reg2 y where h: "spawn_http_server H reg1 = (reg2, y)" by fastforce
  have "(\<exists>hs. snd (spawn_all G H reg) = Started hs) \<longleftrightarrow> (\<exists>h. x = Started h) \<and> (\<exists>h. y = Started h)"
    and "snd (spawn_all G H reg) = Start_Hangs \<longleftrightarrow> x = Start_Hangs \<or> (\<exists>h. x = Started h) \<and> y = Start_Hangs"
    by (cases x; cases y; simp add: spawn_all_def g h)+
  then show "(\<exists>hs. snd (spawn_all G H reg) = Started hs) \<longleftrightarrow> ready grpc_boot G \<and> ready http_boot H"
    "snd (spawn_all G H reg) = Start_Hangs \<longleftrightarrow> wedged grpc_boot G \<or> ready grpc_boot G \<and> wedged http_boot H"
    using spawn_server_cases [of G reg] spawn_http_server_cases [of H reg1]
    by (simp_all only: g h snd_conv ready_def wedged_def)
qed





lemma run_fails_exit [simp]: "exit_code (run_fails e fs) = Some 1" "end_files (run_fails e fs) = fs"
  by (simp_all add: run_fails_def exit_code_def end_files_def)

text \<open>The run id file of the workspace, once it is written, is left alone.\<close>

lemma take_over_run_id: "wf_run_id (snd (take_over io self fs)) = wf_run_id fs"
  by (simp add: take_over_def Let_def split: option.split)

lemma protocol_run_id: "wf_run_id (snd (pid_protocol io run self Pid_Exists fs)) = wf_run_id fs"
  by (simp add: protocol_alone take_over_run_id split: option.split sum.split bool.split)

lemma guard_run_id: "wf_run_id (guard_drop b self fs) = wf_run_id fs"
  by (simp add: guard_drop_def split: file_state.split)

lemma exit_run_id: "wf_run_id (snd (kronid_exit ok self fs)) = wf_run_id fs"
  by (auto simp: kronid_exit_def cleanup_pid_file_def guard_run_id split: file_state.split option.split)

lemma main_run_id: "wf_run_id (ke_files (kronid_main su E self fs)) = wf_run_id fs"
  using exit_run_id [of _ self fs]
  by (auto simp: kronid_main_def split: prod.split option.split) (metis snd_conv)

lemma run_main_run_id: "wf_run_id (end_files (run_main R self reg fs)) = wf_run_id fs"
  by (simp add: run_main_def Let_def end_files_def main_run_id split: start.split)

lemma kronid_stores_run_id:
  assumes "re_arg R = Some i" and "parse_run_id B i = Inr t" and "\<not> isl (re_config R)" and "re_workspace R = None"
    and "re_run_open R = None" and "re_run_write R = None"
  shows "wf_run_id (end_files (kronid_run B R self fs)) = Content t"
proof -
  obtain c where c: "re_config R = Inr c" using assms(3) by (cases "re_config R") simp_all
  obtain pc fs2 where p: "pid_protocol (re_io R) (re_ps R) self Pid_Exists (write_run_id_file t fs) = (pc, fs2)" by fastforce
  then have "wf_run_id fs2 = Content t"
    using protocol_run_id [of "re_io R" "re_ps R" self "write_run_id_file t fs"] by (simp add: write_run_id_file_def)
  then show ?thesis
    using assms(1,2,4-6) c p
    by (simp add: kronid_run_def Let_def run_main_run_id guard_run_id split: option.split pid_pc.split sum.split)
      (simp add: write_run_id_file_def)
qed

section \<open>Properties\<close>

text \<open>
  The servers are up exactly if both threads could be spawned and said in time that they listen.  A
  server that listens, but says so after more than half a second, is not an error: the start waits for
  the end of its thread, which does not come.  A start that fails says why, with the panic of the
  thread, and when it is the HTTP server that fails, the gRPC server goes on without an owner.
\<close>
theorem servers_up:
  "((\<exists>hs. snd (spawn_all G H reg) = Started hs) \<longleftrightarrow> ready grpc_boot G \<and> ready http_boot H)
   \<and> (snd (spawn_all G H reg) = Start_Hangs \<longleftrightarrow> wedged grpc_boot G \<or> ready grpc_boot G \<and> wedged http_boot H)"
  using spawn_all_cases by blast


text \<open>
  C22: The start of a kronid that nothing fails for and no other disturbs: a process that the pid file names and \<open>ps\<close>
  finds, be it this one by a number used again, makes it refuse, its run id already stored; else
  it takes over the pid file, the lock and the run id, leaves no temporary file, and runs the main
  thread, or waits for a server that is late.
\<close>
theorem undisturbed_start:
  assumes "(case re_arg R of Some i \<Rightarrow> parse_run_id B i | None \<Rightarrow> Inr (encode_uuid B (re_uuid R))) = Inr i"
    and "re_config R = Inr c" and "re_workspace R = None" and "re_run_open R = None" and "re_run_write R = None"
    and "re_logging R = None" and "re_io R = plain_io" and "re_store R = Inr tid"
    and "ready grpc_boot (re_grpc R)" and "ready http_boot (re_http R) \<or> wedged http_boot (re_http R)"
  shows "(\<forall>n. named_pid fs = Some n \<and> re_ps R n = Inr True \<longrightarrow>
      kronid_run B R self fs = run_fails (''Kronical daemon is already running (PID: '' @ pid_text n @ '')'') (fs\<lparr> wf_run_id := Content i \<rparr>))
    \<and> (pred_option (\<lambda>n. re_ps R n = Inr False) (named_pid fs) \<longrightarrow>
      kronid_run B R self fs =
        (let fs' = \<lparr> wf_pid = Content (pid_text self), wf_lock = True, wf_tmp = No_File, wf_run_id = Content i \<rparr> in
         if wedged http_boot (re_http R) then Run_Start_Hangs fs'
         else Run_Ended (kronid_main ((re_parts R)\<lparr> su_grpc := None, su_http := None \<rparr>)
           \<lparr> ends_pipeline = re_pipeline_ends R, ends_grpc = sv_end (re_grpc R) \<noteq> None, ends_http = sv_end (re_http R) \<noteq> None \<rparr> self fs')))"
proof -
  let ?fs1 = "write_run_id_file i fs" and ?reg = "fst (spawn (Inr tid) (writer_name (ac_db_backend c)) coordinator_threads)"
  let ?fs' = "\<lparr> wf_pid = Content (pid_text self), wf_lock = True, wf_tmp = No_File, wf_run_id = Content i \<rparr>"
  have take: "take_over (re_io R) self ?fs1 = (Up, ?fs')"
    using assms(7) by (cases fs) (simp add: take_over_def plain_io_def write_run_id_file_def)
  have main: "run_main R self ?reg ?fs' = (if wedged http_boot (re_http R) then Run_Start_Hangs ?fs'
      else Run_Ended (kronid_main ((re_parts R)\<lparr> su_grpc := None, su_http := None \<rparr>)
           \<lparr> ends_pipeline = re_pipeline_ends R, ends_grpc = sv_end (re_grpc R) \<noteq> None, ends_http = sv_end (re_http R) \<noteq> None \<rparr> self ?fs'))"
  proof (cases "wedged http_boot (re_http R)")
    case True
    then have "snd (spawn_all (re_grpc R) (re_http R) ?reg) = Start_Hangs" using assms(9) spawn_all_cases(2) by blast
    then show ?thesis using True by (simp add: run_main_def)
  next
    case False
    then obtain hs where "snd (spawn_all (re_grpc R) (re_http R) ?reg) = Started hs" using assms(9,10) spawn_all_cases(1) by blast
    then show ?thesis using False by (simp add: run_main_def Let_def)
  qed
  have run: "kronid_run B R self fs = (case pid_protocol (re_io R) (re_ps R) self Pid_Exists ?fs1 of
       (Up, fs2) \<Rightarrow> run_main R self ?reg fs2 | (Failed e, fs2) \<Rightarrow> run_fails e fs2 | (_, fs2) \<Rightarrow> run_fails [] fs2)"
    using assms(1-6,8) by (simp add: kronid_run_def Let_def split: prod.split pid_pc.split)
  have "kronid_run B R self fs = run_main R self ?reg ?fs'" if "pred_option (\<lambda>n. re_ps R n = Inr False) (named_pid fs)"
    using that by (cases "named_pid fs") (simp_all add: run protocol_alone take)
  moreover have "kronid_run B R self fs = run_fails (''Kronical daemon is already running (PID: '' @ pid_text n @ '')'') ?fs1"
    if "named_pid fs = Some n" "re_ps R n = Inr True" for n
    using that by (simp add: run protocol_alone)
  ultimately show ?thesis by (simp add: main Let_def write_run_id_file_def)
qed

text \<open>
  A run id stays what it is through the life of a daemon: what \<open>kronictl start --run\<close> makes of it is what the kronid
  it spawns stores, whatever becomes of that kronid, and, when the kronid has gone, \<open>kronictl restart\<close> without a run id
  spawns the next kronid with the same text.  (White space is not part of a spelling in base64.)
\<close>
theorem run_id_survives_restart:
  assumes "base64_ok B" and "cli_run_id B (Some x) = Inr (Some i)" and "trim i = i" and "i \<noteq> []"
    and "re_arg R = Some i" and "\<not> isl (re_config R)" and "re_workspace R = None" and "re_run_open R = None" and "re_run_write R = None"
    and "fs1 = end_files (kronid_run B R self fs)"
    and "case read_pid_file (wf_pid fs1) of Inl e \<Rightarrow> False | Inr n \<Rightarrow> pred_option (\<lambda>n. \<not> after n) n"
  shows "wf_run_id fs1 = Content i
    \<and> fst (restart_daemon B before after after None None fs1) = Inr (Spawned_With (Some i))
    \<and> wf_pid (snd (restart_daemon B before after after None None fs1)) = No_File"
proof -
  obtain b where b: "length b = 16" "i = b64_encode B b"
    using assms(2) parse_run_id_canonical [of B x i] by (auto simp: cli_run_id_def split: sum.splits)
  have parse: "parse_run_id B i = Inr i" using parse_encoded [OF assms(1) b(1)] b(2) by simp
  have stored: "wf_run_id fs1 = Content i"
    unfolding assms(10) by (rule kronid_stores_run_id [OF assms(5) parse assms(6-9)])
  then have loaded: "load_previous_run_id B (wf_run_id fs1) = Inr (Some i)"
    using assms(3,4) parse by (simp add: load_previous_run_id_def)
  show ?thesis
  proof (cases "wf_pid fs1")
    case No_File
    then show ?thesis using stored loaded by (simp add: restart_daemon_def stop_daemon_def start_daemon_def read_pid_file_def)
  next
    case Unreadable
    then show ?thesis using assms(11) by (simp add: read_pid_file_def)
  next
    case (Content s)
    then obtain n where "parse_u32 (trim s) = Some n" "\<not> after n"
      using assms(11) by (cases "parse_u32 (trim s)") (simp_all add: read_pid_file_def)
    then show ?thesis using Content stored loaded
      by (cases "before n") (simp_all add: restart_daemon_def stop_daemon_def start_daemon_def read_pid_file_def)
  qed
qed

text \<open>An invalid run id ends the start before any file is touched.\<close>

theorem invalid_run_id_touches_nothing:
  assumes "re_arg R = Some i" and "parse_run_id B i = Inl e"
  shows "kronid_run B R self fs = run_fails e fs"
  using assms by (simp add: kronid_run_def)

section \<open>Witnesses\<close>

definition demo_server :: "bool \<Rightarrow> server_env" where
  "demo_server prompt = \<lparr> sv_exists = True, sv_removed = True, sv_thread = Inr 3, sv_build = None,
     sv_bind = (\<lambda>taken. if taken then Some ''AddrInUse'' else None), sv_meta = None, sv_chmod = None, sv_prompt = prompt, sv_end = None \<rparr>"

definition demo_run :: "bool \<Rightarrow> int run_env" where
  "demo_run prompt = \<lparr> re_arg = None, re_uuid = ''0123456789abcdef'', re_config = Inr (default_config 1 [''home'']), re_workspace = None,
     re_run_open = None, re_run_write = None, re_logging = None, re_io = plain_io, re_ps = (\<lambda>n. Inr (n = 9)), re_store = Inr 2,
     re_grpc = demo_server True, re_http = demo_server prompt, re_parts = demo_startup None, re_pipeline_ends = True \<rparr>"

definition stale_files :: "u32 \<Rightarrow> work_files" where
  "stale_files n = \<lparr> wf_pid = Content (pid_text n), wf_lock = True, wf_tmp = No_File, wf_run_id = No_File \<rparr>"

lemma demo_server_cases:
  "ready grpc_boot (demo_server True)" "ready http_boot (demo_server b) \<longleftrightarrow> b" "wedged http_boot (demo_server b) \<longleftrightarrow> \<not> b"
  by (simp_all add: ready_def wedged_def demo_server_def grpc_boot_def http_boot_def first_panic_def expect_def)

theorem undisturbed_start_witness:
  "kronid_run demo_base64 (demo_run True) 9 (stale_files 9)
     = run_fails (''Kronical daemon is already running (PID: '' @ pid_text 9 @ '')'') ((stale_files 9)\<lparr> wf_run_id := Content ''x0123456789abcdef'' \<rparr>)
   \<and> kronid_run demo_base64 (demo_run False) 7 (stale_files 8)
     = Run_Start_Hangs \<lparr> wf_pid = Content (pid_text 7), wf_lock = True, wf_tmp = No_File, wf_run_id = Content ''x0123456789abcdef'' \<rparr>"
proof -
  have id: "(case re_arg (demo_run b) of Some i \<Rightarrow> parse_run_id demo_base64 i
      | None \<Rightarrow> Inr (encode_uuid demo_base64 (re_uuid (demo_run b)))) = Inr ''x0123456789abcdef''" for b
    by (simp add: demo_run_def demo_base64_def encode_uuid_def)
  have named: "named_pid (stale_files n) = Some n" for n by (simp add: stale_files_def)
  have ps: "re_ps (demo_run b) n = Inr (n = 9)" for b n by (simp add: demo_run_def)
  have env: "re_config (demo_run b) = Inr (default_config 1 [''home''])" "re_workspace (demo_run b) = None" "re_run_open (demo_run b) = None"
    "re_run_write (demo_run b) = None" "re_logging (demo_run b) = None" "re_io (demo_run b) = plain_io" "re_store (demo_run b) = Inr 2"
    "re_grpc (demo_run b) = demo_server True" "re_http (demo_run b) = demo_server b" for b
    by (simp_all add: demo_run_def)
  show ?thesis
    using undisturbed_start [OF id [of True] env(1-7), where self = 9 and fs = "stale_files 9"]
      undisturbed_start [OF id [of False] env(1-7), where self = 7 and fs = "stale_files 8"]
    by (simp add: env ps demo_server_cases named)
qed


theorem run_id_survives_restart_witness:
  "fst (restart_daemon demo_base64 (\<lambda>_. True) (\<lambda>_. False) (\<lambda>_. False) None None
      (end_files (kronid_run demo_base64 ((demo_run False)\<lparr> re_arg := Some ''x0123456789abcdef'' \<rparr>) 7 (stale_files 8))))
    = Inr (Spawned_With (Some ''x0123456789abcdef''))"
proof -
  let ?i = "''x0123456789abcdef''" and ?R = "(demo_run False)\<lparr> re_arg := Some ''x0123456789abcdef'' \<rparr>"
  let ?fs = "end_files (kronid_run demo_base64 ?R 7 (stale_files 8))"
  have ok: "base64_ok demo_base64" by (simp add: base64_ok_def demo_base64_def)
  have i: "cli_run_id demo_base64 (Some ''0123456789abcdef-'') = Inr (Some ?i)"
    by (simp add: cli_run_id_def parse_run_id_def decode_run_id_def demo_base64_def pad_base64_def)
  have t: "trim ?i = ?i" by (rule trim_plain) (simp add: plain_def)
  have parsed: "parse_run_id demo_base64 ?i = Inr ?i" by (simp add: parse_run_id_def decode_run_id_def demo_base64_def)
  have "pid_protocol plain_io (\<lambda>n. Inr (n = 9)) 7 Pid_Exists (write_run_id_file ?i (stale_files 8)) = (Up, (stale_files 7)\<lparr> wf_run_id := Content ?i \<rparr>)"
    by (simp add: protocol_alone) (simp add: stale_files_def take_over_def plain_io_def write_run_id_file_def)
  moreover have "snd (spawn_all (demo_server True) (demo_server False) reg) = Start_Hangs" for reg
    by (simp add: spawn_all_cases demo_server_cases)
  ultimately have "wf_pid ?fs = Content (pid_text 7)"
    by (simp add: kronid_run_def demo_run_def parsed run_main_def end_files_def stale_files_def)
  then have gone: "case read_pid_file (wf_pid ?fs) of Inl e \<Rightarrow> False | Inr n \<Rightarrow> pred_option (\<lambda>n. \<not> (\<lambda>_. False) n) n"
    by (simp add: read_pid_file_def)
  have "fst (restart_daemon demo_base64 (\<lambda>_. True) (\<lambda>_. False) (\<lambda>_. False) None None ?fs) = Inr (Spawned_With (Some ?i))"
    using run_id_survives_restart [OF ok i t _ _ _ _ _ _ refl gone] by (simp add: demo_run_def)
  then show ?thesis .
qed

end
