(* ===== verification/Monitor_Loop.thy ===== *)
theory Monitor_Loop
  imports Monitor Snapshot_Text
begin

text \<open>
  The loop of kronictl's monitor, src/bin/kronictl.rs: \<open>run_monitor_loop\<close> connects to the daemon's event
  stream, draws what comes, connects again when the stream ends, and listens for the key \<open>q\<close>; and
  \<open>monitor_realtime\<close>, which takes the terminal over for it.

  What happens to the loop is a parameter: the attempts to connect, and in each the lines that are
  read, the keys that are pressed between them, the clock, the pid file, and the errors of the
  terminal.  The panels are those of \<open>Snapshot_Text\<close> and \<open>Monitor\<close>; their places and colours are left out.
\<close>

section \<open>Screens\<close>

text \<open>What the screens depend on that does not change while the monitor runs.\<close>

record 'd monitor_view =
  mv_zone :: time_zone
  mv_scores :: "'d score_ops"
  mv_hm :: "instant \<Rightarrow> string"
  mv_agg :: agg_env
  mv_tree :: tree_env
  mv_cfg :: monitor_cfg
  mv_text :: text_env
  mv_times :: time_texts
  mv_json :: json

text \<open>The readings of one drawing, and its error.\<close>

record draw_input =
  di_clock :: monitor_clock
  di_pid :: "string option"
  di_width :: nat
  di_fault :: "string option"

datatype screen =
    Connecting
  | Panels (stats_panel: "string list list") (detail_panel: "string list list") (apps_heading: string)
      (apps_panel: "string list list")

definition snapshot_screen :: "'d monitor_view \<Rightarrow> draw_input \<Rightarrow> snapshot \<Rightarrow> screen" where
  "snapshot_screen V d snap =
     (let apps = monitor_apps (mv_zone V) (mv_scores V) (mv_hm V) (mv_agg V) (mv_tree V) (mv_cfg V) (di_clock d) snap
      in Panels (daemon_panel (di_pid d) snap) (details_panel (mv_times V) snap) (apps_title (snd apps))
           (monitor_rows (mv_text V) (tt_local_hms (mv_times V)) (di_width d - 2) apps))"

section \<open>The loop\<close>

text \<open>
  What a poll for a key brings; the key is its character.  A line is what \<open>read_line\<close> gives, empty at the end of
  the stream.
\<close>

datatype key_poll = No_Event | Other_Event | Key string | Poll_Failed string
datatype line_read = Read_Failed string | Read string

text \<open>
  How the loop has ended: by the key, by an error, at the end of the stream (this only ends a session); or it
  has not, and waits for what comes next.
\<close>

datatype loop_end = Quit | Failed string | Stream_Over | Waits

definition key_stop :: "key_poll \<Rightarrow> loop_end option" where
  "key_stop k = (case k of Key c \<Rightarrow> if c = ''q'' then Some Quit else None | Poll_Failed e \<Rightarrow> Some (Failed e) | _ \<Rightarrow> None)"

fun header_stop :: "line_read list \<Rightarrow> loop_end option" where
  "header_stop [] = Some Waits"
| "header_stop (Read_Failed e # ls) = Some (Failed e)"
| "header_stop (Read l # ls) = (if l = [] \<or> l = crlf then None else header_stop ls)"

text \<open>A turn of the inner loop: the poll, the line, and the drawing if it comes to one.\<close>

record turn =
  tn_key :: key_poll
  tn_line :: line_read
  tn_draw :: draw_input

fun session :: "'d monitor_view \<Rightarrow> string \<Rightarrow> turn list \<Rightarrow> screen list \<times> loop_end" where
  "session V data_buf [] = ([], Waits)"
| "session V data_buf (t # ts) = (case key_stop (tn_key t) of
      Some r \<Rightarrow> ([], r)
    | None \<Rightarrow> (case tn_line t of
        Read_Failed e \<Rightarrow> ([], Failed e)
      | Read l \<Rightarrow>
          if l = [] then ([], Stream_Over)
          else if starts_with l ''data:'' then session V (data_buf @ trim_end (drop 5 l) @ [newline]) ts
          else if l = crlf \<or> l = [newline] then
            (if data_buf \<noteq> [] then
               (case js_read (mv_json V) (trim_end data_buf) of
                  None \<Rightarrow> session V [] ts
                | Some snap \<Rightarrow> (case di_fault (tn_draw t) of
                    Some e \<Rightarrow> ([], Failed e)
                  | None \<Rightarrow> (let (scrs, r) = session V [] ts in (snapshot_screen V (tn_draw t) snap # scrs, r))))
             else session V data_buf ts)
          else session V data_buf ts))"

text \<open>
  An attempt to connect: refused, then the screen that says so is drawn, or fails to be, and a key is polled
  for; connected, but the request could not be written; or connected, with the lines of the head and the
  turns of the session.
\<close>

datatype attempt = Refused "string option" key_poll | Unwritten | Connected "line_read list" "turn list"

fun monitor_loop :: "'d monitor_view \<Rightarrow> attempt list \<Rightarrow> screen list \<times> loop_end" where
  "monitor_loop V [] = ([], Waits)"
| "monitor_loop V (Refused fault k # as) = (case fault of
      Some e \<Rightarrow> ([], Failed e)
    | None \<Rightarrow> (case key_stop k of
        Some r \<Rightarrow> ([Connecting], r)
      | None \<Rightarrow> (let (scrs, r) = monitor_loop V as in (Connecting # scrs, r))))"
| "monitor_loop V (Unwritten # as) = monitor_loop V as"
| "monitor_loop V (Connected hs ts # as) = (case header_stop hs of
      Some r \<Rightarrow> ([], r)
    | None \<Rightarrow> (case session V [] ts of
        (scrs, Stream_Over) \<Rightarrow> (let (scrs', r) = monitor_loop V as in (scrs @ scrs', r))
      | (scrs, r) \<Rightarrow> (scrs, r)))"

section \<open>The terminal\<close>

record terminal_state =
  tm_raw :: bool
  tm_alternate :: bool

text \<open>
  The terminal before and after, \<open>fault i\<close> being the error of the \<open>i\<close>th call that switches it; the result is
  what is printed (\<open>debug\<close> is an error's \<open>Debug\<close> text), or the error that ends the command.
\<close>

definition monitor_realtime ::
  "(nat \<Rightarrow> string option) \<Rightarrow> (string \<Rightarrow> string) \<Rightarrow> loop_end \<Rightarrow> terminal_state \<Rightarrow> terminal_state \<times> (string + string list)" where
  "monitor_realtime fault debug res t0 =
     (case fault 0 of Some e \<Rightarrow> (t0, Inl e) | None \<Rightarrow>
      let t1 = t0\<lparr> tm_raw := True \<rparr> in
      case fault 1 of Some e \<Rightarrow> (t1, Inl e) | None \<Rightarrow>
      let t2 = t1\<lparr> tm_alternate := True \<rparr> in
      case fault 2 of Some e \<Rightarrow> (t2, Inl e) | None \<Rightarrow>
      case fault 3 of Some e \<Rightarrow> (t2, Inl e) | None \<Rightarrow>
      case fault 4 of Some e \<Rightarrow> (t2, Inl e) | None \<Rightarrow>
      let t3 = t2\<lparr> tm_raw := False \<rparr> in
      case fault 5 of Some e \<Rightarrow> (t3, Inl e) | None \<Rightarrow>
      let t4 = t3\<lparr> tm_alternate := False \<rparr> in
      case fault 6 of Some e \<Rightarrow> (t4, Inl e) | None \<Rightarrow>
      (t4, Inr (case res of Failed e \<Rightarrow> [''Error in monitor: '' @ debug e] | _ \<Rightarrow> [])))"

section \<open>Lemmas\<close>

text \<open>A poll that neither ends the loop nor fails; a turn and an attempt that go on.\<close>

definition quiet :: "key_poll \<Rightarrow> bool" where
  "quiet k \<longleftrightarrow> key_stop k = None"

definition readable :: "line_read \<Rightarrow> bool" where
  "readable r = (case r of Read_Failed _ \<Rightarrow> False | Read _ \<Rightarrow> True)"

definition undisturbed_turn :: "turn \<Rightarrow> bool" where
  "undisturbed_turn t \<longleftrightarrow> quiet (tn_key t) \<and> readable (tn_line t) \<and> di_fault (tn_draw t) = None"

fun undisturbed :: "attempt \<Rightarrow> bool" where
  "undisturbed (Refused fault k) \<longleftrightarrow> fault = None \<and> quiet k"
| "undisturbed Unwritten = True"
| "undisturbed (Connected hs ts) \<longleftrightarrow> list_all readable hs \<and> list_all undisturbed_turn ts"

text \<open>The keys polled in an attempt.\<close>

fun polls :: "attempt \<Rightarrow> key_poll list" where
  "polls (Refused fault k) = [k]"
| "polls Unwritten = []"
| "polls (Connected hs ts) = map tn_key ts"

text \<open>A screen of a snapshot, whatever the readings were when it was drawn.\<close>

definition shows_snapshot :: "'d monitor_view \<Rightarrow> screen \<Rightarrow> snapshot \<Rightarrow> bool" where
  "shows_snapshot V scr s \<longleftrightarrow> (\<exists>d. scr = snapshot_screen V d s)"

text \<open>What of the data is left in the buffer when the lines are read.\<close>

fun data_left :: "string \<Rightarrow> string list \<Rightarrow> string" where
  "data_left data_buf [] = data_buf"
| "data_left data_buf (l # ls) =
     (if starts_with l ''data:'' then data_left (data_buf @ trim_end (drop 5 l) @ [newline]) ls
      else if l = crlf \<or> l = [newline] then data_left [] ls else data_left data_buf ls)"

lemma session_draws:
  assumes "list_all undisturbed_turn ts" and "map tn_line ts = map Read ls" and "[] \<notin> set ls"
  shows "\<exists>scrs. list_all2 (shows_snapshot V) scrs (map snd (sse_events trim_end (mv_json V) data_buf ls))
    \<and> (\<forall>more_ts. session V data_buf (ts @ more_ts) = (case session V (data_left data_buf ls) more_ts of (scrs', r) \<Rightarrow> (scrs @ scrs', r)))"
  using assms
proof (induction ls arbitrary: ts data_buf)
  case Nil
  then show ?case by (intro exI [of _ "[]"]) (simp split: prod.split)
next
  case (Cons l ls)
  obtain t ts' where ts: "ts = t # ts'" "tn_line t = Read l" "map tn_line ts' = map Read ls" using Cons.prems(2) by (cases ts) auto
  have t: "key_stop (tn_key t) = None" "di_fault (tn_draw t) = None" "list_all undisturbed_turn ts'" "l \<noteq> []" "[] \<notin> set ls"
    using Cons.prems by (auto simp: ts undisturbed_turn_def [of t] quiet_def)
  note IH = Cons.IH [OF t(3) ts(3) t(5)]
  consider (data) "starts_with l ''data:''" | (blank) "\<not> starts_with l ''data:''" "l = crlf \<or> l = [newline]" "data_buf \<noteq> []"
    | (other) "\<not> starts_with l ''data:''" "l = crlf \<or> l = [newline] \<longrightarrow> data_buf = []" by blast
  then show ?case
  proof cases
    case data
    then show ?thesis using IH [of "data_buf @ trim_end (drop 5 l) @ [newline]"] t by (simp add: ts)
  next
    case blank
    obtain scrs where scrs: "list_all2 (shows_snapshot V) scrs (map snd (sse_events trim_end (mv_json V) [] ls))"
      "\<forall>more_ts. session V [] (ts' @ more_ts) = (case session V (data_left [] ls) more_ts of (scrs', r) \<Rightarrow> (scrs @ scrs', r))"
      using IH [of "[]"] by blast
    show ?thesis
    proof (cases "js_read (mv_json V) (trim_end data_buf)")
      case None
      then show ?thesis using scrs blank t by (intro exI [of _ scrs]) (simp add: ts)
    next
      case (Some s)
      have "shows_snapshot V (snapshot_screen V (tn_draw t) s) s" by (auto simp: shows_snapshot_def)
      then show ?thesis using scrs blank t Some
        by (intro exI [of _ "snapshot_screen V (tn_draw t) s # scrs"]) (simp add: ts split_beta)
    qed
  next
    case other
    then show ?thesis using IH [of data_buf] t by (auto simp: ts)
  qed
qed

lemma header_found: "crlf \<notin> set hs \<Longrightarrow> [] \<notin> set hs \<Longrightarrow> header_stop (map Read (hs @ [crlf])) = None"
  by (induction hs) auto

lemma undisturbed_head: "list_all readable hs \<Longrightarrow> header_stop hs = None \<or> header_stop hs = Some Waits"
  by (induction hs rule: header_stop.induct) (auto simp: readable_def)

lemma undisturbed_session: "list_all undisturbed_turn ts \<Longrightarrow> snd (session V buf ts) = Waits \<or> snd (session V buf ts) = Stream_Over"
proof (induction ts arbitrary: buf)
  case (Cons t ts)
  then obtain l where "tn_line t = Read l" "key_stop (tn_key t) = None" "di_fault (tn_draw t) = None" "list_all undisturbed_turn ts"
    by (cases "tn_line t") (auto simp: undisturbed_turn_def [of t] quiet_def readable_def)
  then show ?case using Cons.IH by (auto simp: split_beta split: option.split)
qed simp

lemma key_stop_quit: "key_stop k = Some Quit \<longleftrightarrow> k = Key ''q''"
  by (cases k) (auto simp: key_stop_def)

lemma session_quit: "snd (session V buf ts) = Quit \<Longrightarrow> Key ''q'' \<in> tn_key ` set ts"
proof (induction ts arbitrary: buf)
  case (Cons t ts)
  show ?case
  proof (cases "key_stop (tn_key t)")
    case None
    with Cons show ?thesis by (fastforce simp: split_beta split: line_read.splits if_splits option.splits)
  next
    case (Some r)
    with Cons.prems show ?thesis using key_stop_quit [of "tn_key t"] by auto
  qed
qed simp

lemma header_no_quit: "header_stop hs \<noteq> Some Quit"
  by (induction hs rule: header_stop.induct) auto

lemma monitor_quit: "snd (monitor_loop V as) = Quit \<Longrightarrow> list_ex (\<lambda>a. Key ''q'' \<in> set (polls a)) as"
proof (induction V as rule: monitor_loop.induct)
  case (2 V fault k as)
  then show ?case using key_stop_quit [of k] by (auto simp: split_beta split: option.splits)
next
  case (4 V hs ts as)
  obtain scrs r where s: "session V [] ts = (scrs, r)" by force
  show ?case
  proof (cases "header_stop hs")
    case None
    with 4 s show ?thesis using session_quit [of V "[]" ts] by (cases r) (auto simp: split_beta)
  qed (use 4 header_no_quit in auto)
qed auto

section \<open>The properties\<close>

text \<open>
  C16: The monitor follows the stream.  Undisturbed, it draws one screen per snapshot that the daemon's stream
  carries, in their order and each with that snapshot's panels; when the stream ends it draws what comes
  over the next connections behind them, and ends as these end.
\<close>
theorem monitor_follows_stream:
  assumes "crlf \<notin> set hs" and "[] \<notin> set hs" and "[] \<notin> set ls"
    and "sse_framed ls (stream_handler (mv_json V) seen)" and "list_all (json_ok (mv_json V)) seen"
    and "list_all undisturbed_turn ts" and "map tn_line ts = map Read (ls @ [[]])"
  shows "\<exists>scrs. list_all2 (shows_snapshot V) scrs seen
    \<and> monitor_loop V (Connected (map Read (hs @ [crlf])) ts # as) = (case monitor_loop V as of (scrs', r) \<Rightarrow> (scrs @ scrs', r))"
proof -
  obtain us t where ts: "ts = us @ [t]" "map tn_line us = map Read ls" "tn_line t = Read []"
    using assms(7) by (auto simp: map_eq_append_conv)
  have u: "list_all undisturbed_turn us" "key_stop (tn_key t) = None"
    using assms(6) by (auto simp: ts(1) undisturbed_turn_def [of t] quiet_def)
  obtain scrs where scrs: "list_all2 (shows_snapshot V) scrs seen"
    "\<forall>more_ts. session V [] (us @ more_ts) = (case session V (data_left [] ls) more_ts of (scrs', r) \<Rightarrow> (scrs @ scrs', r))"
    using session_draws [OF u(1) ts(2) assms(3), of V "[]"] framed_events(2) [OF assms(4) refl assms(5)] by auto
  have "session V [] ts = (scrs, Stream_Over)" using scrs(2) u(2) ts(3) by (simp add: ts(1))
  then show ?thesis
    using scrs(1) header_found [OF assms(1,2)] by (intro exI [of _ scrs]) (simp add: split_beta)
qed

text \<open>
  C17: Only \<open>q\<close> or an error ends the monitor.  As long as no key \<open>q\<close> is polled and no poll, no reading and no
  drawing fails, it goes on through refused connections, lost requests and ended streams; and if it has
  quit, \<open>q\<close> was polled.
\<close>
theorem monitor_goes_on:
  assumes "list_all undisturbed as"
  shows "snd (monitor_loop V as) = Waits \<and> (snd (monitor_loop V bs) = Quit \<longrightarrow> list_ex (\<lambda>a. Key ''q'' \<in> set (polls a)) bs)"
proof
  show "snd (monitor_loop V as) = Waits"
    using assms
  proof (induction V as rule: monitor_loop.induct)
    case (2 V fault k as)
    then show ?case by (simp add: quiet_def split_beta)
  next
    case (4 V hs ts as)
    obtain scrs r where s: "session V [] ts = (scrs, r)" by force
    have "r = Waits \<or> r = Stream_Over" using undisturbed_session [of ts V "[]"] 4(2) s by simp
    moreover have "header_stop hs = None \<or> header_stop hs = Some Waits" using undisturbed_head 4(2) by simp
    ultimately show ?case using 4 s by (auto simp: split_beta)
  qed auto
  show "snd (monitor_loop V bs) = Quit \<longrightarrow> list_ex (\<lambda>a. Key ''q'' \<in> set (polls a)) bs" using monitor_quit by blast
qed

text \<open>
  When the terminal is left in raw mode.  After \<open>kronictl monitor\<close> the terminal is raw exactly if one of the four calls
  after the first switch failed: an error while it is set up returns at once and switches nothing back, while an
  error of the loop itself does not matter.
\<close>
theorem monitor_leaves_raw:
  "tm_raw (fst (monitor_realtime fault debug res t0))
     \<longleftrightarrow> (if fault 0 = None then list_ex (\<lambda>i. fault i \<noteq> None) [1, 2, 3, 4] else tm_raw t0)"
  by (auto simp: monitor_realtime_def Let_def split: option.split)

section \<open>Witnesses\<close>

definition demo_view :: "int monitor_view" where
  "demo_view = \<lparr> mv_zone = demo_zone, mv_scores = demo_scores, mv_hm = int_str, mv_agg = ascii_env, mv_tree = demo_tree_env,
     mv_cfg = \<lparr> mo_sleep_filter = False, mo_eph_max = 60, mo_eph_min = 3, mo_max_windows = 5, mo_app_eph_max = 60, mo_app_eph_min = 3 \<rparr>,
     mv_text = demo_text_env, mv_times = demo_times, mv_json = demo_json \<rparr>"

definition demo_draw :: draw_input where
  "demo_draw = \<lparr> di_clock = \<lparr> mk_utc = 0, mk_local = 0, mk_search = 0, mk_agg = 0, mk_first = (\<lambda>_. 0), mk_last = (\<lambda>_. 0) \<rparr>,
     di_pid = Some ''42'', di_width = 80, di_fault = None \<rparr>"

definition demo_turn :: "key_poll \<Rightarrow> string \<Rightarrow> turn" where
  "demo_turn k l = \<lparr> tn_key = k, tn_line = Read l, tn_draw = demo_draw \<rparr>"

theorem monitor_follows_stream_witness:
  "\<exists>scr. shows_snapshot demo_view scr (snapshot_empty 5)
    \<and> monitor_loop demo_view [Connected [Read ''HTTP/1.1 200 OK'', Read crlf] (map (demo_turn No_Event) (demo_stream @ [[]])), Refused None (Key ''q'')]
      = ([scr, Connecting], Quit)"
proof -
  have "list_all (json_ok (mv_json demo_view)) [snapshot_empty 5]" by (simp add: demo_view_def demo_json_ok)
  moreover have "sse_framed demo_stream (stream_handler (mv_json demo_view) [snapshot_empty 5])"
    using demo_stream_framed by (simp add: demo_view_def)
  moreover have "list_all undisturbed_turn (map (demo_turn No_Event) (demo_stream @ [[]]))"
    by (simp add: list_all_iff demo_turn_def undisturbed_turn_def quiet_def key_stop_def readable_def demo_draw_def)
  ultimately have "\<exists>scrs. list_all2 (shows_snapshot demo_view) scrs [snapshot_empty 5]
      \<and> monitor_loop demo_view (Connected (map Read ([''HTTP/1.1 200 OK''] @ [crlf])) (map (demo_turn No_Event) (demo_stream @ [[]])) # [Refused None (Key ''q'')])
        = (case monitor_loop demo_view [Refused None (Key ''q'')] of (scrs', r) \<Rightarrow> (scrs @ scrs', r))"
    by (intro monitor_follows_stream [where ls = demo_stream]) (simp_all add: demo_stream_def crlf_chars demo_turn_def)
  then obtain scr where "shows_snapshot demo_view scr (snapshot_empty 5)"
    and "monitor_loop demo_view (Connected (map Read ([''HTTP/1.1 200 OK''] @ [crlf])) (map (demo_turn No_Event) (demo_stream @ [[]])) # [Refused None (Key ''q'')])
      = (case monitor_loop demo_view [Refused None (Key ''q'')] of (scrs', r) \<Rightarrow> ([scr] @ scrs', r))"
    by (auto simp: list_all2_Cons2 simp del: monitor_loop.simps)
  moreover have "monitor_loop demo_view [Refused None (Key ''q'')] = ([Connecting], Quit)" by (simp add: key_stop_def)
  ultimately show ?thesis by (intro exI [of _ scr]) (simp del: monitor_loop.simps)
qed

theorem monitor_goes_on_witness:
  "snd (monitor_loop demo_view [Refused None No_Event, Unwritten, Connected [Read crlf] [demo_turn (Key ''x'') []]]) = Waits"
  using monitor_goes_on [of "[Refused None No_Event, Unwritten, Connected [Read crlf] [demo_turn (Key ''x'') []]]" demo_view "[]"]
  by (simp add: demo_turn_def undisturbed_turn_def quiet_def key_stop_def readable_def demo_draw_def)

end
