(* ===== verification/Path_Simplifiers.thy ===== *)
theory Path_Simplifiers
  imports Compressor
begin

text \<open>
  The path simplifiers of benchmarks/compressor/mouse_traj.rs: the Douglas-Peucker recursion of the
  compressor with another distance, and five competitors, behind the trait \<open>Simplifier\<close>.  The trait is
  the locale \<open>simplifier\<close>, interpreted for all six.

  Floating-point arithmetic is a parameter, as for the compressor.  A loop that may not end is a
  \<open>partial_function (option)\<close>.  The standard library's binary heap is the list of its elements; which of the
  smallest ones \<open>pop\<close> takes is a parameter, \<open>pick\<close>.
\<close>

section \<open>Arithmetic\<close>

record 'f bench_ops = "'f f32ops" +
  f_sub :: "'f \<Rightarrow> 'f \<Rightarrow> 'f"
  f_square :: "'f \<Rightarrow> 'f"
  f_hypot :: "'f \<Rightarrow> 'f \<Rightarrow> 'f"
  f_half :: 'f
  f_inf :: 'f
  f_tiny :: 'f
  f_cos30 :: 'f

definition f_le :: "('f, 'z) f32ops_scheme \<Rightarrow> 'f \<Rightarrow> 'f \<Rightarrow> bool" where
  "f_le F a b \<longleftrightarrow> f_lt F a b \<or> f_eq F a b"

definition f_clamp :: "('f, 'z) f32ops_scheme \<Rightarrow> 'f \<Rightarrow> 'f \<Rightarrow> 'f \<Rightarrow> 'f" where
  "f_clamp F lo hi x = (if f_lt F x lo then lo else if f_lt F hi x then hi else x)"

definition px :: "'f bench_ops \<Rightarrow> mouse_position \<Rightarrow> 'f" where
  "px F p = f_of_int F (sint (pos_x p))"

definition py :: "'f bench_ops \<Rightarrow> mouse_position \<Rightarrow> 'f" where
  "py F p = f_of_int F (sint (pos_y p))"

definition dist_between :: "'f bench_ops \<Rightarrow> mouse_position \<Rightarrow> mouse_position \<Rightarrow> 'f" where
  "dist_between F a b =
     (let dx = f_of_int F (sint (pos_x a - pos_x b)); dy = f_of_int F (sint (pos_y a - pos_y b))
      in f_sqrt F (f_add F (f_mul F dx dx) (f_mul F dy dy)))"

definition point_segment_distance :: "'f bench_ops \<Rightarrow> mouse_position \<Rightarrow> mouse_position \<Rightarrow> mouse_position \<Rightarrow> 'f" where
  "point_segment_distance F p a b =
     (if pos_x a = pos_x b \<and> pos_y a = pos_y b then dist_between F p a
      else let zero = f_of_int F 0;
          ax = px F a; ay = py F a;
          vx = f_sub F (px F b) ax; vy = f_sub F (py F b) ay;
          wx = f_sub F (px F p) ax; wy = f_sub F (py F p) ay;
          to_a = f_sqrt F (f_add F (f_square F (f_sub F (px F p) ax)) (f_square F (f_sub F (py F p) ay)));
          c1 = f_add F (f_mul F vx wx) (f_mul F vy wy);
          c2 = f_add F (f_mul F vx vx) (f_mul F vy vy)
        in if f_le F c1 zero then to_a
           else if f_le F c2 zero then to_a
           else let t = f_clamp F zero (f_of_int F 1) (f_div F c1 c2);
               projx = f_add F ax (f_mul F t vx); projy = f_add F ay (f_mul F t vy)
             in f_sqrt F (f_add F (f_square F (f_sub F (px F p) projx)) (f_square F (f_sub F (py F p) projy))))"

definition triangle_area :: "'f bench_ops \<Rightarrow> mouse_position \<Rightarrow> mouse_position \<Rightarrow> mouse_position \<Rightarrow> 'f" where
  "triangle_area F a b c = f_mul F (f_half F) (f_abs F (f_of_int F (sint
     (pos_x a * (pos_y b - pos_y c) + pos_x b * (pos_y c - pos_y a) + pos_x c * (pos_y a - pos_y b)))))"

section \<open>The simplifiers\<close>

text \<open>Three of them end by adding the last point unless the path ends there; a position is its two coordinates.\<close>

definition push_if_new :: "mouse_position \<Rightarrow> mouse_position list \<Rightarrow> mouse_position list" where
  "push_if_new p out = (if out = [] \<or> pos_x (last out) \<noteq> pos_x p \<or> pos_y (last out) \<noteq> pos_y p then out @ [p] else out)"

subsection \<open>Ramer, Douglas and Peucker\<close>

definition farthest_from_segment :: "'f bench_ops \<Rightarrow> mouse_position list \<Rightarrow> 'f \<times> nat" where
  "farthest_from_segment F points =
     foldl (\<lambda>(max_d, max_i) i.
        let d = point_segment_distance F (points ! i) (points ! 0) (points ! (length points - 1))
        in if f_lt F max_d d then (d, i) else (max_d, max_i))
       (f_of_int F 0, 0) [1..<length points - 1]"

partial_function (option) rdp :: "'f bench_ops \<Rightarrow> 'f \<Rightarrow> mouse_position list \<Rightarrow> mouse_position list option" where
  "rdp F eps points =
     (if length points \<le> 2 then Some points
      else let (max_d, max_i) = farthest_from_segment F points
           in if f_lt F eps max_d
              then Option.bind (rdp F eps (take (max_i + 1) points))
                     (\<lambda>left. Option.bind (rdp F eps (drop max_i points)) (\<lambda>right. Some (butlast left @ right)))
              else Some [points ! 0, points ! (length points - 1)])"

declare rdp.simps [code]

definition simplify_rdp :: "'f bench_ops \<Rightarrow> 'f \<Rightarrow> mouse_position list \<Rightarrow> mouse_position list option" where
  "simplify_rdp F param pts = rdp F (f_max F param (f_of_int F 0)) pts"

subsection \<open>Radial distance\<close>

fun radial_loop :: "'f bench_ops \<Rightarrow> 'f \<Rightarrow> mouse_position \<Rightarrow> mouse_position list \<Rightarrow> mouse_position list" where
  "radial_loop F eps kept [] = []"
| "radial_loop F eps kept (p # ps) =
     (if f_le F eps (dist_between F kept p) then p # radial_loop F eps p ps else radial_loop F eps kept ps)"

definition simplify_radial :: "'f bench_ops \<Rightarrow> 'f \<Rightarrow> mouse_position list \<Rightarrow> mouse_position list option" where
  "simplify_radial F param pts = Some (case pts of [] \<Rightarrow> []
     | p # ps \<Rightarrow> push_if_new (last pts) (p # radial_loop F (f_max F param (f_of_int F 0)) p ps))"

subsection \<open>Reumann and Witkam\<close>

text \<open>The end of the corridor around the segment that starts at point \<open>i\<close>.\<close>

function corridor :: "'f bench_ops \<Rightarrow> 'f \<Rightarrow> mouse_position list \<Rightarrow> nat \<Rightarrow> nat \<Rightarrow> nat" where
  "corridor F w pts i j =
     (if j < length pts
      then if f_lt F w (point_segment_distance F (pts ! j) (pts ! i) (pts ! (i + 1))) then j
           else corridor F w pts i (j + 1)
      else j)"
  by auto
termination by (relation "measure (\<lambda>(F, w, pts, i, j). length pts - j)") auto

declare corridor.simps [simp del]

partial_function (option) rw_loop ::
  "'f bench_ops \<Rightarrow> 'f \<Rightarrow> mouse_position list \<Rightarrow> nat \<Rightarrow> mouse_position list \<Rightarrow> mouse_position list option" where
  "rw_loop F w pts i out =
     (if i < length pts - 1
      then let j = corridor F w pts i (i + 1);
               keep = (if length pts \<le> j then length pts - 1 else j - 1)
           in rw_loop F w pts keep (push_if_new (pts ! keep) out)
      else Some out)"

declare rw_loop.simps [code]

definition simplify_reumann_witkam :: "'f bench_ops \<Rightarrow> 'f \<Rightarrow> mouse_position list \<Rightarrow> mouse_position list option" where
  "simplify_reumann_witkam F param pts =
     (if length pts \<le> 2 then Some pts
      else map_option (push_if_new (last pts)) (rw_loop F (f_max F param (f_of_int F 0)) pts 0 [pts ! 0]))"

subsection \<open>Streaming radial distance\<close>

definition turns :: "'f bench_ops \<Rightarrow> mouse_position \<Rightarrow> mouse_position \<Rightarrow> mouse_position \<Rightarrow> bool" where
  "turns F a b c =
     (let zero = f_of_int F 0;
          abx = f_of_int F (sint (pos_x b - pos_x a)); aby = f_of_int F (sint (pos_y b - pos_y a));
          bcx = f_of_int F (sint (pos_x c - pos_x b)); bcy = f_of_int F (sint (pos_y c - pos_y b));
          dot = f_add F (f_mul F abx bcx) (f_mul F aby bcy);
          n1 = f_sqrt F (f_add F (f_mul F abx abx) (f_mul F aby aby));
          n2 = f_sqrt F (f_add F (f_mul F bcx bcx) (f_mul F bcy bcy));
          cos = (if f_lt F zero n1 \<and> f_lt F zero n2
            then f_clamp F (f_of_int F (- 1)) (f_of_int F 1) (f_div F dot (f_mul F n1 n2)) else f_of_int F 1)
      in f_lt F cos (f_cos30 F))"

fun radial_s_loop :: "'f bench_ops \<Rightarrow> 'f \<Rightarrow> mouse_position \<Rightarrow> mouse_position \<Rightarrow> mouse_position list \<Rightarrow> mouse_position list" where
  "radial_s_loop F eps anchor prev [] = []"
| "radial_s_loop F eps anchor prev (p # ps) =
     (if f_le F eps (dist_between F prev p) \<or> turns F anchor prev p
      then p # radial_s_loop F eps prev p ps else radial_s_loop F eps anchor p ps)"

definition simplify_radial_s :: "'f bench_ops \<Rightarrow> 'f \<Rightarrow> mouse_position list \<Rightarrow> mouse_position list option" where
  "simplify_radial_s F param pts = Some (if length pts \<le> 2 then pts
     else push_if_new (last pts) (pts ! 0 # radial_s_loop F (f_max F param (f_of_int F 0)) (pts ! 0) (pts ! 0) (tl pts)))"

subsection \<open>The heap\<close>

text \<open>A node is the index of a point and its key; \<open>pick h\<close> is where in \<open>h\<close> the node lies that \<open>pop\<close> takes.\<close>

type_synonym 'f node = "nat \<times> 'f"

definition heap_pop :: "('f node list \<Rightarrow> nat) \<Rightarrow> 'f node list \<Rightarrow> ('f node \<times> 'f node list) option" where
  "heap_pop pick h = (if h = [] then None else Some (h ! pick h, take (pick h) h @ drop (Suc (pick h)) h))"

definition kept_points :: "bool list \<Rightarrow> mouse_position list \<Rightarrow> mouse_position list" where
  "kept_points removed pts = map fst (filter (\<lambda>(p, r). \<not> r) (zip pts removed))"

text \<open>The end both share: two points at least.\<close>

definition at_least_two :: "mouse_position list \<Rightarrow> mouse_position list \<Rightarrow> mouse_position list" where
  "at_least_two pts out = (if length out < 2 then take (min 2 (length pts)) pts else out)"

subsection \<open>Visvalingam and Whyatt\<close>

record 'f vw_state =
  vw_removed :: "bool list"
  vw_areas :: "'f list"
  vw_heap :: "'f node list"

fun seek_left :: "bool list \<Rightarrow> nat \<Rightarrow> nat" where
  "seek_left removed 0 = 0"
| "seek_left removed (Suc i) = (if removed ! Suc i then seek_left removed i else Suc i)"

function seek_right :: "bool list \<Rightarrow> nat \<Rightarrow> nat" where
  "seek_right removed i = (if i < length removed - 1 \<and> removed ! i then seek_right removed (i + 1) else i)"
  by auto
termination by (relation "measure (\<lambda>(removed, i). length removed - i)") auto

declare seek_right.simps [simp del]

definition vw_set_area :: "nat \<Rightarrow> 'f \<Rightarrow> 'f vw_state \<Rightarrow> 'f vw_state" where
  "vw_set_area i a s = s\<lparr> vw_areas := (vw_areas s)[i := a], vw_heap := (i, a) # vw_heap s \<rparr>"

definition vw_init :: "'f bench_ops \<Rightarrow> mouse_position list \<Rightarrow> 'f vw_state" where
  "vw_init F pts = foldl (\<lambda>s i. vw_set_area i (triangle_area F (pts ! (i - 1)) (pts ! i) (pts ! (i + 1))) s)
     \<lparr> vw_removed = replicate (length pts) False, vw_areas = replicate (length pts) (f_inf F), vw_heap = [] \<rparr> [1..<length pts - 1]"

definition vw_left :: "'f bench_ops \<Rightarrow> mouse_position list \<Rightarrow> nat \<Rightarrow> 'f vw_state \<Rightarrow> 'f vw_state" where
  "vw_left F pts idx s = (let prev = idx - 1; nxt = idx + 1; removed = vw_removed s in
     if 1 < idx \<and> \<not> removed ! prev \<and> nxt < length pts \<and> \<not> removed ! nxt
     then vw_set_area prev (triangle_area F (pts ! seek_left removed prev) (pts ! prev) (pts ! seek_right removed nxt)) s
     else s)"

definition vw_right :: "'f bench_ops \<Rightarrow> mouse_position list \<Rightarrow> nat \<Rightarrow> 'f vw_state \<Rightarrow> 'f vw_state" where
  "vw_right F pts idx s = (let prev = idx - 1; nxt = idx + 1; removed = vw_removed s in
     if nxt < length pts - 1 \<and> \<not> removed ! nxt \<and> 0 < idx \<and> \<not> removed ! prev
     then vw_set_area nxt (triangle_area F (pts ! seek_left removed idx) (pts ! nxt) (pts ! seek_right removed (nxt + 1))) s
     else s)"

definition vw_remove :: "'f bench_ops \<Rightarrow> mouse_position list \<Rightarrow> nat \<Rightarrow> 'f vw_state \<Rightarrow> 'f vw_state" where
  "vw_remove F pts idx s = vw_right F pts idx (vw_left F pts idx (s\<lparr> vw_removed := (vw_removed s)[idx := True] \<rparr>))"

partial_function (option) vw_loop ::
  "('f node list \<Rightarrow> nat) \<Rightarrow> 'f bench_ops \<Rightarrow> 'f \<Rightarrow> mouse_position list \<Rightarrow> 'f vw_state \<Rightarrow> 'f vw_state option" where
  "vw_loop pick F thresh pts s = (case heap_pop pick (vw_heap s) of
      None \<Rightarrow> Some s
    | Some ((idx, area), h) \<Rightarrow>
        (let s1 = s\<lparr> vw_heap := h \<rparr> in
         if vw_removed s1 ! idx \<or> \<not> f_eq F (vw_areas s1 ! idx) area then vw_loop pick F thresh pts s1
         else if f_le F thresh area then Some s1
         else vw_loop pick F thresh pts (vw_remove F pts idx s1)))"

declare vw_loop.simps [code]

definition simplify_visvalingam ::
  "('f node list \<Rightarrow> nat) \<Rightarrow> 'f bench_ops \<Rightarrow> 'f \<Rightarrow> mouse_position list \<Rightarrow> mouse_position list option" where
  "simplify_visvalingam pick F param pts =
     (if length pts \<le> 2 then Some pts
      else map_option (\<lambda>s. at_least_two pts (kept_points (vw_removed s) pts))
        (vw_loop pick F (f_max F param (f_of_int F 0)) pts (vw_init F pts)))"

subsection \<open>Bottom up\<close>

record 'f bu_state =
  bu_removed :: "bool list"
  bu_left :: "nat list"
  bu_right :: "nat list"
  bu_heap :: "'f node list"

definition bu_error :: "'f bench_ops \<Rightarrow> mouse_position list \<Rightarrow> 'f bu_state \<Rightarrow> nat \<Rightarrow> 'f" where
  "bu_error F pts s i = point_segment_distance F (pts ! i) (pts ! (bu_left s ! i)) (pts ! (bu_right s ! i))"

definition bu_init :: "'f bench_ops \<Rightarrow> mouse_position list \<Rightarrow> 'f bu_state" where
  "bu_init F pts = \<lparr> bu_removed = replicate (length pts) False, bu_left = map (\<lambda>i. i - 1) [0..<length pts],
     bu_right = map (\<lambda>i. min (i + 1) (length pts - 1)) [0..<length pts],
     bu_heap = rev (map (\<lambda>i. (i, point_segment_distance F (pts ! i) (pts ! (i - 1)) (pts ! (i + 1)))) [1..<length pts - 1]) \<rparr>"

definition bu_push :: "nat \<Rightarrow> 'f \<Rightarrow> 'f bu_state \<Rightarrow> 'f bu_state" where
  "bu_push i e s = s\<lparr> bu_heap := (i, e) # bu_heap s \<rparr>"

definition bu_remove :: "'f bench_ops \<Rightarrow> mouse_position list \<Rightarrow> nat \<Rightarrow> 'f bu_state \<Rightarrow> 'f bu_state" where
  "bu_remove F pts idx s =
     (let li = bu_left s ! idx; ri = bu_right s ! idx;
          s1 = s\<lparr> bu_removed := (bu_removed s)[idx := True], bu_right := (bu_right s)[li := ri], bu_left := (bu_left s)[ri := li] \<rparr>;
          s2 = (if 0 < li then bu_push li (point_segment_distance F (pts ! li) (pts ! (bu_left s1 ! li)) (pts ! ri)) s1 else s1)
      in if ri < length pts - 1 then bu_push ri (point_segment_distance F (pts ! ri) (pts ! li) (pts ! (bu_right s1 ! ri))) s2 else s2)"

definition stale_key :: "'f bench_ops \<Rightarrow> 'f \<Rightarrow> 'f \<Rightarrow> bool" where
  "stale_key F cur err \<longleftrightarrow> f_lt F (f_tiny F) (f_abs F (f_sub F cur err))"

partial_function (option) bu_loop ::
  "('f node list \<Rightarrow> nat) \<Rightarrow> 'f bench_ops \<Rightarrow> 'f \<Rightarrow> mouse_position list \<Rightarrow> 'f bu_state \<Rightarrow> 'f bu_state option" where
  "bu_loop pick F eps pts s = (case heap_pop pick (bu_heap s) of
      None \<Rightarrow> Some s
    | Some ((idx, err), h) \<Rightarrow>
        (let s1 = s\<lparr> bu_heap := h \<rparr>; cur = bu_error F pts s1 idx in
         if bu_removed s1 ! idx then bu_loop pick F eps pts s1
         else if stale_key F cur err then bu_loop pick F eps pts (bu_push idx cur s1)
         else if f_lt F eps cur then Some s1
         else bu_loop pick F eps pts (bu_remove F pts idx s1)))"

declare bu_loop.simps [code]

definition simplify_bottom_up ::
  "('f node list \<Rightarrow> nat) \<Rightarrow> 'f bench_ops \<Rightarrow> 'f \<Rightarrow> mouse_position list \<Rightarrow> mouse_position list option" where
  "simplify_bottom_up pick F param pts =
     (if length pts \<le> 2 then Some pts
      else map_option (\<lambda>s. at_least_two pts (kept_points (bu_removed s) pts))
        (bu_loop pick F (f_max F param (f_of_int F 0)) pts (bu_init F pts)))"

section \<open>Specification\<close>

text \<open>What every simplifier promises: part of the path, in its order, from its first to its last point.\<close>

definition keeps_path :: "mouse_position list \<Rightarrow> mouse_position list \<Rightarrow> bool" where
  "keeps_path r pts \<longleftrightarrow> subseq r pts \<and> (pts \<noteq> [] \<longrightarrow> r \<noteq> [] \<and> hd r = hd pts \<and> last r = last pts)"

text \<open>The trait: for the arguments a simplifier is meant for (\<open>fair\<close>), it returns what it promises.\<close>

locale simplifier =
  fixes simplify :: "'f \<Rightarrow> mouse_position list \<Rightarrow> mouse_position list option"
    and fair :: "'f \<Rightarrow> mouse_position list \<Rightarrow> bool"
  assumes returns: "fair param pts \<Longrightarrow> \<exists>r. simplify param pts = Some r \<and> keeps_path r pts"
begin

lemma result: "fair param pts \<Longrightarrow> simplify param pts = Some r \<Longrightarrow> keeps_path r pts"
  using returns by fastforce

lemma never_longer: "fair param pts \<Longrightarrow> simplify param pts = Some r \<Longrightarrow> length r \<le> length pts"
  using result [of param pts r] by (auto simp: keeps_path_def dest: list_emb_length)

lemma no_new_points: "fair param pts \<Longrightarrow> simplify param pts = Some r \<Longrightarrow> set r \<subseteq> set pts"
  using result [of param pts r] by (auto simp: keeps_path_def elim: list_emb_set)

end

section \<open>Lemmas\<close>

lemma same_position: "pos_x p = pos_x q \<Longrightarrow> pos_y p = pos_y q \<Longrightarrow> p = (q :: mouse_position)"
  by (cases p; cases q) simp

lemma subseq_snoc_neq: "subseq (xs @ [x]) (ys @ [y]) \<Longrightarrow> x \<noteq> y \<Longrightarrow> subseq (xs @ [x]) ys"
proof (induction ys arbitrary: xs)
  case Nil
  then show ?case using list_emb_length [OF Nil(1)] by (cases xs) (auto split: if_splits)
next
  case (Cons z ys)
  then show ?case using Cons.IH [of xs] Cons.IH [of "tl xs"] by (cases xs) (auto split: if_splits)
qed

lemma push_last [simp]: "last (push_if_new p out) = p" "push_if_new p out \<noteq> []"
  by (auto simp: push_if_new_def intro: same_position)

lemma push_hd: "out \<noteq> [] \<Longrightarrow> hd (push_if_new p out) = hd out"
  by (simp add: push_if_new_def)

lemma push_subseq:
  assumes "subseq out (take (Suc i) pts)" and "i < k" and "k < length pts"
  shows "subseq (push_if_new (pts ! k) out) (take (Suc k) pts)"
proof -
  have "take (Suc k) pts = take k pts @ [pts ! k]" using assms(3) by (simp add: take_Suc_conv_app_nth)
  moreover have "take k pts = take (Suc i) pts @ take (k - Suc i) (drop (Suc i) pts)"
    using assms(2) take_add [of "Suc i" "k - Suc i" pts] by simp
  then have "subseq out (take k pts)" using subseq_rev_drop_many [OF assms(1)] by simp
  ultimately show ?thesis by (auto simp: push_if_new_def)
qed

lemma push_last_point:
  assumes "subseq out pts" and "out \<noteq> []" and "hd out = hd pts"
  shows "keeps_path (push_if_new (last pts) out) pts"
proof -
  have "pts \<noteq> []" using assms(1,2) by auto
  then obtain xs y where p: "pts = xs @ [y]" by (cases pts rule: rev_cases) auto
  obtain us x where o: "out = us @ [x]" using assms(2) by (cases out rule: rev_cases) auto
  have "subseq (push_if_new y out) pts"
  proof (cases "x = y")
    case False
    then have "subseq out xs" using assms(1) subseq_snoc_neq by (simp add: p o)
    then show ?thesis using assms(1) by (simp add: push_if_new_def p)
  qed (use assms(1) in \<open>simp add: push_if_new_def o\<close>)
  then show ?thesis using assms by (simp add: keeps_path_def p push_hd)
qed

lemma keeps_path_refl [simp]: "keeps_path pts pts"
  by (simp add: keeps_path_def)

lemma radial_subseq: "subseq (radial_loop F eps kept ps) ps"
  by (induction ps arbitrary: kept) (auto intro: list_emb_Cons)

lemma radial_s_subseq: "subseq (radial_s_loop F eps anchor prev ps) ps"
  by (induction ps arbitrary: anchor prev) (auto intro: list_emb_Cons)

lemma simplify_radial_returns: "\<exists>r. simplify_radial F param pts = Some r \<and> keeps_path r pts"
proof (cases pts)
  case (Cons p ps)
  have "keeps_path (push_if_new (last pts) (p # radial_loop F (f_max F param (f_of_int F 0)) p ps)) pts"
    by (rule push_last_point) (simp_all add: Cons radial_subseq)
  with Cons show ?thesis by (simp add: simplify_radial_def del: last.simps)
qed (simp add: simplify_radial_def)

lemma simplify_radial_s_returns: "\<exists>r. simplify_radial_s F param pts = Some r \<and> keeps_path r pts"
proof (cases "length pts \<le> 2")
  case False
  then obtain p ps where p: "pts = p # ps" by (cases pts) auto
  have "keeps_path (push_if_new (last pts) (p # radial_s_loop F (f_max F param (f_of_int F 0)) p p ps)) pts"
    by (rule push_last_point) (simp_all add: p radial_s_subseq)
  with False show ?thesis by (simp add: simplify_radial_s_def p del: last.simps)
qed (simp add: simplify_radial_s_def)

interpretation radial: simplifier "simplify_radial F" "\<lambda>param pts. True" for F
  by unfold_locales (rule simplify_radial_returns)

interpretation radial_s: simplifier "simplify_radial_s F" "\<lambda>param pts. True" for F
  by unfold_locales (rule simplify_radial_s_returns)

subsection \<open>Douglas-Peucker\<close>

lemma farthest_from_segment_index:
  "farthest_from_segment F points = (d, i) \<Longrightarrow> (d = f_of_int F 0 \<and> i = 0) \<or> (1 \<le> i \<and> i < length points - 1)"
proof -
  have "(case foldl (\<lambda>(m, k) i. let x = g i in if f_lt F m x then (x, i) else (m, k)) (z, 0) ks of
      (d, i) \<Rightarrow> (d = z \<and> i = 0) \<or> i \<in> set ks)" for g z and ks :: "nat list"
    by (induction ks rule: rev_induct) (auto simp: Let_def split: prod.splits)
  from this [where g = "\<lambda>i. point_segment_distance F (points ! i) (points ! 0) (points ! (length points - 1))"
      and z = "f_of_int F 0" and ks = "[1..<length points - 1]"]
  show "farthest_from_segment F points = (d, i) \<Longrightarrow> ?thesis" by (auto simp: farthest_from_segment_def)
qed

lemma rdp_returns:
  assumes eps: "\<not> f_lt F eps (f_of_int F 0)"
  shows "\<exists>r. rdp F eps points = Some r \<and> simplifies r points"
proof (induction points rule: length_induct)
  case (1 points)
  show ?case
  proof (cases "length points \<le> 2")
    case True
    then show ?thesis by (subst rdp.simps) (simp add: simplifies_def)
  next
    case False
    obtain d k where f: "farthest_from_segment F points = (d, k)" by force
    show ?thesis
    proof (cases "f_lt F eps d")
      case True
      with eps farthest_from_segment_index [OF f] have k: "0 < k" "k + 1 < length points" by auto
      then obtain left right where "rdp F eps (take (k + 1) points) = Some left" "simplifies left (take (k + 1) points)"
        "rdp F eps (drop k points) = Some right" "simplifies right (drop k points)"
      proof -
        have "length (take (k + 1) points) < length points" "length (drop k points) < length points" using k by auto
        then show ?thesis using 1 that by blast
      qed
      then show ?thesis using False f True simplifies_join [OF k] by (subst rdp.simps) auto
    next
      case no: False
      then show ?thesis using False f simplifies_ends [of points] by (subst rdp.simps) auto
    qed
  qed
qed

lemma simplifies_keeps: "simplifies r pts \<Longrightarrow> keeps_path r pts"
  by (simp add: simplifies_def keeps_path_def)

text \<open>\<open>param.max(0.0)\<close> is not below zero.\<close>

definition max_zero_ok :: "'f bench_ops \<Rightarrow> 'f \<Rightarrow> bool" where
  "max_zero_ok F param \<longleftrightarrow> \<not> f_lt F (f_max F param (f_of_int F 0)) (f_of_int F 0)"

interpretation rdp: simplifier "simplify_rdp F" "\<lambda>param pts. max_zero_ok F param" for F
  using rdp_returns simplifies_keeps by unfold_locales (fastforce simp: simplify_rdp_def max_zero_ok_def)

subsection \<open>Reumann-Witkam\<close>

text \<open>A point lies on the segment that ends in it, up to the width of the corridor.\<close>

definition on_own_segment :: "'f bench_ops \<Rightarrow> 'f \<Rightarrow> mouse_position list \<Rightarrow> nat \<Rightarrow> bool" where
  "on_own_segment F w pts i \<longleftrightarrow> \<not> f_lt F w (point_segment_distance F (pts ! (i + 1)) (pts ! i) (pts ! (i + 1)))"

lemma corridor_bounds: "j \<le> length pts \<Longrightarrow> j \<le> corridor F w pts i j \<and> corridor F w pts i j \<le> length pts"
  by (induction F w pts i j rule: corridor.induct) (subst (1 2) corridor.simps, auto)

lemma corridor_advances:
  assumes "i + 1 < length pts" and "on_own_segment F w pts i"
  shows "i + 2 \<le> corridor F w pts i (i + 1)"
  using assms corridor_bounds [of "i + 2" pts F w i] by (subst corridor.simps) (simp add: on_own_segment_def)

lemma rw_loop_returns:
  assumes "\<forall>i. i + 1 < length pts \<longrightarrow> on_own_segment F w pts i"
    and "i < length pts" and "out \<noteq> []" and "hd out = hd pts" and "last out = pts ! i" and "subseq out (take (Suc i) pts)"
  shows "\<exists>r. rw_loop F w pts i out = Some r \<and> keeps_path r pts"
  using assms(2-)
proof (induction "length pts - i" arbitrary: i out rule: less_induct)
  case less
  show ?case
  proof (cases "i < length pts - 1")
    case True
    define keep where "keep = (if length pts \<le> corridor F w pts i (i + 1) then length pts - 1 else corridor F w pts i (i + 1) - 1)"
    have k: "i < keep" "keep < length pts"
    proof -
      have i: "i + 1 < length pts" using True by simp
      then have "on_own_segment F w pts i" using assms(1) by simp
      then have "i + 2 \<le> corridor F w pts i (i + 1)" by (rule corridor_advances [OF i])
      then show "i < keep" "keep < length pts" using True by (auto simp: keep_def)
    qed
    have "\<exists>r. rw_loop F w pts keep (push_if_new (pts ! keep) out) = Some r \<and> keeps_path r pts"
    proof (rule less.hyps)
      show "length pts - keep < length pts - i" "keep < length pts" using k by simp_all
      show "push_if_new (pts ! keep) out \<noteq> []" "last (push_if_new (pts ! keep) out) = pts ! keep" by simp_all
      show "hd (push_if_new (pts ! keep) out) = hd pts" using less.prems(2,3) by (simp add: push_hd)
      show "subseq (push_if_new (pts ! keep) out) (take (Suc keep) pts)" by (rule push_subseq [OF less.prems(5) k])
    qed
    then show ?thesis using True by (subst rw_loop.simps) (simp only: Let_def True if_True keep_def [symmetric])
  next
    case False
    then have "i = length pts - 1" "Suc i = length pts" using less.prems(1) by auto
    then have "keeps_path out pts" using less.prems by (auto simp: keeps_path_def last_conv_nth)
    then show ?thesis using False by (subst rw_loop.simps) simp
  qed
qed

interpretation reumann_witkam: simplifier "simplify_reumann_witkam F"
  "\<lambda>param pts. \<forall>i. i + 1 < length pts \<longrightarrow> on_own_segment F (f_max F param (f_of_int F 0)) pts i" for F
proof unfold_locales
  fix param pts
  let ?w = "f_max F param (f_of_int F 0)"
  assume fair: "\<forall>i. i + 1 < length pts \<longrightarrow> on_own_segment F ?w pts i"
  show "\<exists>r. simplify_reumann_witkam F param pts = Some r \<and> keeps_path r pts"
  proof (cases "length pts \<le> 2")
    case False
    then have "pts \<noteq> []" by auto
    then obtain r where r: "rw_loop F ?w pts 0 [pts ! 0] = Some r" "keeps_path r pts"
      using rw_loop_returns [OF fair, of 0 "[pts ! 0]"] by (cases pts) auto
    then have "keeps_path (push_if_new (last pts) r) pts"
      using \<open>pts \<noteq> []\<close> by (intro push_last_point) (auto simp: keeps_path_def)
    then show ?thesis using False r(1) by (simp add: simplify_reumann_witkam_def)
  qed (simp add: simplify_reumann_witkam_def)
qed

text \<open>When the second point lies outside the corridor of its own segment the loop stays where it is.\<close>

lemma rw_loop_stuck:
  assumes "1 < length pts" and "\<not> on_own_segment F w pts i" and "i + 1 < length pts" and "out \<noteq> []" and "last out = pts ! i"
  shows "rw_loop F w pts i out = None"
proof -
  have "(F', w', pts', i', out') \<noteq> (F, w, pts, i, out)" if "rw_loop F' w' pts' i' out' = Some r" for F' w' pts' i' out' r
  proof (rule rw_loop.raw_induct [OF _ that, where P = "\<lambda>F' w' pts' i' out' r. (F', w', pts', i', out') \<noteq> (F, w, pts, i, out)"], goal_cases)
    case (1 rec F' w' pts' i' out' r)
    have "corridor F w pts i (i + 1) = i + 1"
      using assms(2,3) by (subst corridor.simps) (simp add: on_own_segment_def)
    moreover have "push_if_new (pts ! i) out = out" using assms(4,5) by (simp add: push_if_new_def)
    ultimately show ?case using 1(1) [of F w pts i out r] 1(2) assms(3) by (auto simp: Let_def split: if_splits)
  qed
  then show ?thesis by (cases "rw_loop F w pts i out") blast+
qed

subsection \<open>Heaps and what is kept\<close>

text \<open>What \<open>pop\<close> is documented to do: it takes a node with a smallest key.\<close>

definition pick_ok :: "('f, 'z) f32ops_scheme \<Rightarrow> ('f node list \<Rightarrow> nat) \<Rightarrow> bool" where
  "pick_ok F pick \<longleftrightarrow> (\<forall>h. h \<noteq> [] \<longrightarrow> pick h < length h \<and> (\<forall>x \<in> set h. \<not> f_lt F (snd x) (snd (h ! pick h))))"

lemma heap_pop_cases:
  assumes "pick_ok F pick" and "heap_pop pick h = Some (x, h')"
  shows "x \<in> set h \<and> set h' \<subseteq> set h \<and> length h = Suc (length h') \<and> length (filter P h) = length (filter P h') + (if P x then 1 else 0)"
proof -
  have h: "h \<noteq> []" "pick h < length h" "x = h ! pick h" "h' = take (pick h) h @ drop (Suc (pick h)) h"
    using assms by (auto simp: heap_pop_def pick_ok_def split: if_splits)
  then have "h = take (pick h) h @ x # drop (Suc (pick h)) h" using id_take_nth_drop [OF h(2)] by simp
  then obtain us vs where "h = us @ x # vs" "h' = us @ vs" using h(4) by blast
  then show ?thesis by auto
qed

text \<open>Only inner points are ever removed; \<open>n\<close> is the number of points.\<close>

definition inner_removed :: "nat \<Rightarrow> bool list \<Rightarrow> bool" where
  "inner_removed n removed \<longleftrightarrow> length removed = n \<and> \<not> removed ! 0 \<and> \<not> removed ! (n - 1)"

definition points_left :: "bool list \<Rightarrow> nat" where
  "points_left removed = length (filter Not removed)"

lemma inner_removed_update: "inner_removed n removed \<Longrightarrow> 0 < i \<Longrightarrow> i < n - 1 \<Longrightarrow> inner_removed n (removed[i := True])"
  by (auto simp: inner_removed_def nth_list_update)

lemma points_left_update: "i < length removed \<Longrightarrow> \<not> removed ! i \<Longrightarrow> Suc (points_left (removed[i := True])) = points_left removed"
proof (induction removed arbitrary: i)
  case (Cons r rs)
  then show ?case by (cases i) (auto simp: points_left_def)
qed simp

lemma kept_points_keep:
  assumes "inner_removed (length pts) removed" and "3 \<le> length pts"
  shows "keeps_path (at_least_two pts (kept_points removed pts)) pts"
proof -
  obtain p ps q where pts: "pts = p # ps @ [q]"
    using assms(2) by (cases pts; cases "tl pts" rule: rev_cases) auto
  obtain r rs t where rem: "removed = r # rs @ [t]"
    using assms by (cases removed; cases "tl removed" rule: rev_cases) (auto simp: inner_removed_def)
  have l: "length rs = length ps" using assms(1) by (simp add: inner_removed_def pts rem)
  have "\<not> r" "\<not> t" using assms(1) l by (simp_all add: inner_removed_def pts rem nth_append)
  then have k: "kept_points removed pts = p # kept_points rs ps @ [q]"
    using l by (simp add: kept_points_def pts rem zip_append)
  have "subseq (map fst (filter g (zip xs ys))) xs" for g :: "mouse_position \<times> bool \<Rightarrow> bool" and xs ys
    by (induction xs arbitrary: ys) (auto simp: zip_Cons1 split: list.split)
  then have "subseq (kept_points rs ps) ps" by (simp add: kept_points_def)
  then have "keeps_path (kept_points removed pts) pts" unfolding keeps_path_def k by (simp add: pts)
  moreover have "\<not> length (kept_points removed pts) < 2" by (simp add: k)
  ultimately show ?thesis by (simp add: at_least_two_def)
qed

subsection \<open>Visvalingam-Whyatt\<close>

definition vw_ok :: "nat \<Rightarrow> 'f vw_state \<Rightarrow> bool" where
  "vw_ok n s \<longleftrightarrow> inner_removed n (vw_removed s) \<and> (\<forall>x \<in> set (vw_heap s). 0 < fst x \<and> fst x < n - 1)"

lemma vw_set_area_ok: "vw_ok n s \<Longrightarrow> 0 < i \<Longrightarrow> i < n - 1 \<Longrightarrow> vw_ok n (vw_set_area i a s)"
  by (simp add: vw_ok_def vw_set_area_def)

lemma vw_init_ok:
  assumes "3 \<le> length pts"
  shows "vw_ok (length pts) (vw_init F pts)"
proof -
  have fold: "vw_ok n (foldl (\<lambda>s i. vw_set_area i (f i) s) s is)" if "vw_ok n s" "\<forall>i \<in> set is. 0 < i \<and> i < n - 1" for n f s and "is" :: "nat list"
    using that by (induction "is" arbitrary: s) (simp_all add: vw_set_area_ok)
  have "\<not> replicate (length pts) False ! 0" using assms by (subst nth_replicate) auto
  then show ?thesis
    unfolding vw_init_def by (intro fold) (use assms in \<open>auto simp: vw_ok_def inner_removed_def\<close>)
qed

lemma vw_remove_effect:
  assumes "vw_ok (length pts) s" and "0 < idx" and "idx < length pts - 1"
  shows "vw_ok (length pts) (vw_remove F pts idx s) \<and> vw_removed (vw_remove F pts idx s) = (vw_removed s)[idx := True]
    \<and> length (vw_heap (vw_remove F pts idx s)) \<le> length (vw_heap s) + 2"
proof -
  define s1 where "s1 = s\<lparr> vw_removed := (vw_removed s)[idx := True] \<rparr>"
  define s2 where "s2 = vw_left F pts idx s1"
  have 1: "vw_ok (length pts) s1" using assms inner_removed_update by (simp add: s1_def vw_ok_def)
  then have 2: "vw_ok (length pts) s2" "vw_removed s2 = vw_removed s1" "length (vw_heap s2) \<le> length (vw_heap s1) + 1"
    using assms(3) by (auto simp: s2_def vw_left_def Let_def intro: vw_set_area_ok) (simp_all add: vw_set_area_def)
  have 3: "vw_ok (length pts) (vw_right F pts idx s2)" "vw_removed (vw_right F pts idx s2) = vw_removed s2"
    "length (vw_heap (vw_right F pts idx s2)) \<le> length (vw_heap s2) + 1"
    using 2(1) by (auto simp: vw_right_def Let_def intro: vw_set_area_ok) (simp_all add: vw_set_area_def)
  have "vw_remove F pts idx s = vw_right F pts idx s2" by (simp add: vw_remove_def s1_def s2_def)
  then show ?thesis using 2 3 by (simp add: s1_def)
qed

lemma vw_loop_returns:
  assumes "pick_ok F pick" and "vw_ok (length pts) s"
  shows "\<exists>s'. vw_loop pick F thresh pts s = Some s' \<and> vw_ok (length pts) s'"
  using assms(2)
proof (induction "3 * points_left (vw_removed s) + length (vw_heap s)" arbitrary: s rule: less_induct)
  case less
  show ?case
  proof (cases "heap_pop pick (vw_heap s)")
    case None
    then show ?thesis using less.prems by (subst vw_loop.simps) simp
  next
    case (Some y)
    obtain idx area h where y: "y = ((idx, area), h)" by (cases y) auto
    note pop = heap_pop_cases [OF assms(1) Some [unfolded y], of "\<lambda>_. True"]
    let ?s1 = "s\<lparr> vw_heap := h \<rparr>"
    have ok: "vw_ok (length pts) ?s1" and i: "0 < idx" "idx < length pts - 1"
      using less.prems pop by (auto simp: vw_ok_def)
    note r = vw_remove_effect [OF ok i, of F]
    have rec: "\<exists>s'. vw_loop pick F thresh pts ?s1 = Some s' \<and> vw_ok (length pts) s'"
      using pop ok by (intro less.hyps) simp_all
    have rem: "\<exists>s'. vw_loop pick F thresh pts (vw_remove F pts idx ?s1) = Some s' \<and> vw_ok (length pts) s'"
      if "\<not> vw_removed s ! idx"
    proof (rule less.hyps)
      have "idx < length (vw_removed s)" using i less.prems by (simp add: vw_ok_def inner_removed_def)
      then show "3 * points_left (vw_removed (vw_remove F pts idx ?s1)) + length (vw_heap (vw_remove F pts idx ?s1))
          < 3 * points_left (vw_removed s) + length (vw_heap s)"
        using r pop points_left_update [OF _ that] by simp
    qed (use r in simp)
    show ?thesis using Some y rec rem ok by (subst vw_loop.simps) (simp add: Let_def)
  qed
qed

interpretation visvalingam: simplifier "simplify_visvalingam pick F" "\<lambda>param pts. pick_ok F pick" for pick F
proof unfold_locales
  fix param pts
  assume p: "pick_ok F pick"
  show "\<exists>r. simplify_visvalingam pick F param pts = Some r \<and> keeps_path r pts"
  proof (cases "length pts \<le> 2")
    case False
    then obtain s where "vw_loop pick F (f_max F param (f_of_int F 0)) pts (vw_init F pts) = Some s" "vw_ok (length pts) s"
      using vw_loop_returns [OF p vw_init_ok] by force
    then show ?thesis using False kept_points_keep by (simp add: simplify_visvalingam_def vw_ok_def)
  qed (simp add: simplify_visvalingam_def)
qed

subsection \<open>Bottom up\<close>

definition links_ok :: "nat \<Rightarrow> nat list \<Rightarrow> nat list \<Rightarrow> bool" where
  "links_ok n left right \<longleftrightarrow> length left = n \<and> length right = n
     \<and> (\<forall>i < n. left ! i \<le> i - 1 \<and> right ! i \<le> n - 1 \<and> (i < n - 1 \<longrightarrow> i < right ! i))"

lemma links_ok_nth:
  assumes "links_ok n left right" and "0 < i" and "i < n - 1"
  shows "left ! i < i" and "i < right ! i" and "right ! i \<le> n - 1"
proof -
  have "left ! i \<le> i - 1 \<and> right ! i \<le> n - 1 \<and> i < right ! i" using assms by (simp add: links_ok_def)
  then show "left ! i < i" "i < right ! i" "right ! i \<le> n - 1" using assms(2) by auto
qed

lemma links_ok_join:
  assumes "links_ok n left right" and "li < ri" and "ri \<le> n - 1"
  shows "links_ok n (left[ri := li]) (right[li := ri])"
proof -
  have "left[ri := li] ! i \<le> i - 1 \<and> right[li := ri] ! i \<le> n - 1 \<and> (i < n - 1 \<longrightarrow> i < right[li := ri] ! i)" if "i < n" for i
  proof -
    have "left ! i \<le> i - 1 \<and> right ! i \<le> n - 1 \<and> (i < n - 1 \<longrightarrow> i < right ! i)" using assms(1) that by (simp add: links_ok_def)
    then show ?thesis using assms that by (cases "i = ri"; cases "i = li") (simp_all add: links_ok_def)
  qed
  then show ?thesis using assms(1) by (simp add: links_ok_def)
qed

definition bu_ok :: "nat \<Rightarrow> 'f bu_state \<Rightarrow> bool" where
  "bu_ok n s \<longleftrightarrow> inner_removed n (bu_removed s) \<and> links_ok n (bu_left s) (bu_right s)
     \<and> (\<forall>x \<in> set (bu_heap s). 0 < fst x \<and> fst x < n - 1)"

lemma bu_push_ok: "bu_ok n s \<Longrightarrow> 0 < i \<Longrightarrow> i < n - 1 \<Longrightarrow> bu_ok n (bu_push i e s)"
  by (simp add: bu_ok_def bu_push_def)

lemma bu_init_ok:
  assumes "3 \<le> length pts"
  shows "bu_ok (length pts) (bu_init F pts)"
proof -
  have "\<not> replicate (length pts) False ! 0" using assms by (subst nth_replicate) auto
  then show ?thesis using assms by (auto simp: bu_ok_def bu_init_def inner_removed_def links_ok_def)
qed

lemma bu_remove_effect:
  assumes "bu_ok (length pts) s" and "0 < idx" and "idx < length pts - 1"
  shows "bu_ok (length pts) (bu_remove F pts idx s) \<and> bu_removed (bu_remove F pts idx s) = (bu_removed s)[idx := True]"
proof -
  let ?n = "length pts" and ?li = "bu_left s ! idx" and ?ri = "bu_right s ! idx"
  have b: "?li < idx" "idx < ?ri" "?ri \<le> ?n - 1" using links_ok_nth [OF _ assms(2,3)] assms(1) by (auto simp: bu_ok_def)
  define s1 where "s1 = s\<lparr> bu_removed := (bu_removed s)[idx := True], bu_right := (bu_right s)[?li := ?ri], bu_left := (bu_left s)[?ri := ?li] \<rparr>"
  have 1: "bu_ok ?n s1" using assms b inner_removed_update [of ?n "bu_removed s" idx]
    by (simp add: s1_def bu_ok_def links_ok_join)
  define s2 where "s2 = (if 0 < ?li then bu_push ?li (point_segment_distance F (pts ! ?li) (pts ! (bu_left s1 ! ?li)) (pts ! ?ri)) s1 else s1)"
  have 2: "bu_ok ?n s2" "bu_removed s2 = bu_removed s1"
    using 1 b assms(3) by (auto simp: s2_def intro: bu_push_ok) (simp add: bu_push_def)
  have "bu_remove F pts idx s =
      (if ?ri < ?n - 1 then bu_push ?ri (point_segment_distance F (pts ! ?ri) (pts ! ?li) (pts ! (bu_right s1 ! ?ri))) s2 else s2)"
    by (simp add: bu_remove_def Let_def s1_def s2_def)
  moreover have "bu_ok ?n (bu_push ?ri e s2)" if "?ri < ?n - 1" for e using 2(1) b that by (intro bu_push_ok) simp_all
  ultimately show ?thesis using 2 by (simp add: s1_def bu_push_def)
qed

text \<open>The nodes whose key is not the point's error any more.\<close>

definition stale_nodes :: "'f bench_ops \<Rightarrow> mouse_position list \<Rightarrow> 'f bu_state \<Rightarrow> nat" where
  "stale_nodes F pts s = length (filter (\<lambda>(i, e). \<not> bu_removed s ! i \<and> stale_key F (bu_error F pts s i) e) (bu_heap s))"

text \<open>A key is not stale right after it has been computed.\<close>

definition keys_settle :: "'f bench_ops \<Rightarrow> bool" where
  "keys_settle F \<longleftrightarrow> (\<forall>x. \<not> stale_key F x x)"

lemma bu_loop_returns:
  assumes "pick_ok F pick" and "keys_settle F" and "bu_ok (length pts) s"
  shows "\<exists>s'. bu_loop pick F eps pts s = Some s' \<and> bu_ok (length pts) s'"
  using assms(3)
proof (induction s rule: wf_induct_rule [OF wf_measures [of
      "[\<lambda>s. points_left (bu_removed s), stale_nodes F pts, \<lambda>s. length (bu_heap s)]"]])
  case (1 s)
  show ?case
  proof (cases "heap_pop pick (bu_heap s)")
    case None
    then show ?thesis using 1(2) by (subst bu_loop.simps) simp
  next
    case (Some y)
    obtain idx e h where y: "y = ((idx, e), h)" by (cases y) auto
    let ?s1 = "s\<lparr> bu_heap := h \<rparr>"
    let ?cur = "bu_error F pts ?s1 idx"
    have err: "bu_error F pts (bu_push i k ?s1) = bu_error F pts s" "bu_error F pts ?s1 = bu_error F pts s" for i k
      by (simp_all add: bu_error_def bu_push_def fun_eq_iff)
    note pop = heap_pop_cases [OF assms(1) Some [unfolded y],
      of "\<lambda>(i, e). \<not> bu_removed s ! i \<and> stale_key F (bu_error F pts s i) e"]
    have ok: "bu_ok (length pts) ?s1" and i: "0 < idx" "idx < length pts - 1"
      using 1(2) pop by (auto simp: bu_ok_def)
    note r = bu_remove_effect [OF ok i, of F]
    have drop: "\<exists>s'. bu_loop pick F eps pts ?s1 = Some s' \<and> bu_ok (length pts) s'"
      using pop ok by (intro 1(1)) (auto simp: stale_nodes_def err)
    have again: "\<exists>s'. bu_loop pick F eps pts (bu_push idx ?cur ?s1) = Some s' \<and> bu_ok (length pts) s'"
      if "\<not> bu_removed s ! idx" "stale_key F ?cur e"
    proof (rule 1(1))
      have "stale_nodes F pts (bu_push idx ?cur ?s1) < stale_nodes F pts s"
        using pop that assms(2) unfolding stale_nodes_def err by (simp add: bu_push_def keys_settle_def err)
      then show "(bu_push idx ?cur ?s1, s) \<in> measures [\<lambda>s. points_left (bu_removed s), stale_nodes F pts, \<lambda>s. length (bu_heap s)]"
        by (simp add: bu_push_def)
      show "bu_ok (length pts) (bu_push idx ?cur ?s1)" by (rule bu_push_ok [OF ok i])
    qed
    have rem: "\<exists>s'. bu_loop pick F eps pts (bu_remove F pts idx ?s1) = Some s' \<and> bu_ok (length pts) s'"
      if "\<not> bu_removed s ! idx"
    proof (rule 1(1))
      have "idx < length (bu_removed s)" using i 1(2) by (simp add: bu_ok_def inner_removed_def)
      then show "(bu_remove F pts idx ?s1, s) \<in> measures [\<lambda>s. points_left (bu_removed s), stale_nodes F pts, \<lambda>s. length (bu_heap s)]"
        using r points_left_update [OF _ that] by simp
      show "bu_ok (length pts) (bu_remove F pts idx ?s1)" using r by simp
    qed
    show ?thesis using Some y drop again rem ok by (subst bu_loop.simps) (simp add: Let_def)
  qed
qed

interpretation bottom_up: simplifier "simplify_bottom_up pick F" "\<lambda>param pts. pick_ok F pick \<and> keys_settle F" for pick F
proof unfold_locales
  fix param pts
  assume p: "pick_ok F pick \<and> keys_settle F"
  show "\<exists>r. simplify_bottom_up pick F param pts = Some r \<and> keeps_path r pts"
  proof (cases "length pts \<le> 2")
    case False
    then obtain s where "bu_loop pick F (f_max F param (f_of_int F 0)) pts (bu_init F pts) = Some s" "bu_ok (length pts) s"
      using bu_loop_returns [OF _ _ bu_init_ok] p by force
    then show ?thesis using False kept_points_keep by (simp add: simplify_bottom_up_def bu_ok_def)
  qed (simp add: simplify_bottom_up_def)
qed

end
