(* ===== verification/Bench_Run.thy ===== *)
theory Bench_Run
  imports Complex_Main Path_Simplifiers
begin

text \<open>
  A run of the mouse benchmark, benchmarks/compressor/mouse_traj.rs, over the trajectories it has loaded
  (\<open>Mouse_Bench\<close>): how far a simplified path lies from the raw one, the search for the parameter of a
  simplifier, and what is added up per simplifier.  The times measured are a parameter.  Not modelled: the table
  that is printed at the end.
\<close>

section \<open>Measures\<close>

definition path_length :: "'f bench_ops \<Rightarrow> mouse_position list \<Rightarrow> 'f" where
  "path_length F pts =
     (if length pts < 2 then f_of_int F 0
      else foldl (\<lambda>len (a, b). f_add F len (dist_between F a b)) (f_of_int F 0) (zip pts (tl pts)))"

definition nearest_segment :: "'f bench_ops \<Rightarrow> mouse_position list \<Rightarrow> mouse_position \<Rightarrow> 'f" where
  "nearest_segment F simplified p =
     foldl (\<lambda>best (a, b). let d = point_segment_distance F p a b in if f_lt F d best then d else best)
       (f_inf F) (zip simplified (tl simplified))"

definition polyline_deviation_stats :: "'f bench_ops \<Rightarrow> mouse_position list \<Rightarrow> mouse_position list \<Rightarrow> 'f \<times> 'f" where
  "polyline_deviation_stats F raw simplified = (case simplified of
      [] \<Rightarrow> (f_inf F, f_inf F)
    | [q] \<Rightarrow>
        (let d = map (\<lambda>p. dist_between F p q) raw;
             mean = f_div F (foldl (f_add F) (f_sum_init F) d) (f_of_int F (int (max (length d) 1)))
         in (mean, foldl (f_max F) (f_of_int F 0) d))
    | _ \<Rightarrow>
        (case foldl (\<lambda>(sum_d, maxd) p.
             let best = nearest_segment F simplified p
             in (f_add F sum_d best, if f_lt F maxd best then best else maxd)) (f_of_int F 0, f_of_int F 0) raw of
           (sum_d, maxd) \<Rightarrow> (f_div F sum_d (f_of_int F (int (max (length raw) 1))), maxd)))"

definition bounds :: "mouse_position list \<Rightarrow> i32 \<times> i32 \<times> i32 \<times> i32" where
  "bounds pts = foldl (\<lambda>(minx, miny, maxx, maxy) p.
       (if pos_x p <s minx then pos_x p else minx, if pos_y p <s miny then pos_y p else miny,
        if maxx <s pos_x p then pos_x p else maxx, if maxy <s pos_y p then pos_y p else maxy))
     (word_of_int (2 ^ 31 - 1), word_of_int (2 ^ 31 - 1), word_of_int (- (2 ^ 31)), word_of_int (- (2 ^ 31))) pts"

section \<open>Calibration\<close>

text \<open>The interval, then the best parameter so far and its error.  A probe may not return.\<close>

fun calibrate_loop ::
  "'f bench_ops \<Rightarrow> 'f \<Rightarrow> ('f \<Rightarrow> 'f option) \<Rightarrow> nat \<Rightarrow> 'f \<Rightarrow> 'f \<Rightarrow> 'f \<Rightarrow> 'f \<Rightarrow> 'f option" where
  "calibrate_loop F target f 0 a b best best_err = Some best"
| "calibrate_loop F target f (Suc n) a b best best_err =
     (let mid = f_mul F (f_add F a b) (f_half F) in
      case f mid of
        None \<Rightarrow> None
      | Some m \<Rightarrow>
          (let err = f_abs F (f_sub F m target);
               (best', best_err') = (if f_lt F err best_err then (mid, err) else (best, best_err))
           in if f_lt F m target then calibrate_loop F target f n a mid best' best_err'
              else calibrate_loop F target f n mid b best' best_err'))"

definition calibrate_param :: "'f bench_ops \<Rightarrow> 'f \<Rightarrow> ('f \<Rightarrow> 'f option) \<Rightarrow> 'f \<Rightarrow> 'f \<Rightarrow> 'f option" where
  "calibrate_param F target_mean f lo hi = calibrate_loop F target_mean f 16 lo hi hi (f_inf F)"

section \<open>The run\<close>

definition algo_names :: "string list" where
  "algo_names = [''rdp'', ''radial'', ''reumann_witkam'', ''visvalingam'', ''bottom_up'', ''radial_s'']"

definition make_algo ::
  "('f node list \<Rightarrow> nat) \<Rightarrow> 'f bench_ops \<Rightarrow> string \<Rightarrow> 'f \<Rightarrow> mouse_position list \<Rightarrow> mouse_position list option" where
  "make_algo pick F name =
     (if name = ''rdp'' then simplify_rdp F
      else if name = ''radial'' then simplify_radial F
      else if name = ''reumann_witkam'' then simplify_reumann_witkam F
      else if name = ''visvalingam'' then simplify_visvalingam pick F
      else if name = ''bottom_up'' then simplify_bottom_up pick F
      else if name = ''radial_s'' then simplify_radial_s F
      else simplify_rdp F)"

record ('f, 'd) metrics_row =
  mx_name :: string
  mx_pts_sum :: nat
  mx_time_ms_sum :: 'd
  mx_mean_dev_sum :: 'f
  mx_max_dev_sum :: 'f
  mx_raw_len_sum :: 'd
  mx_simp_len_sum :: 'd
  mx_pass_cnt :: nat

text \<open>The arithmetic of \<open>f32\<close> and of \<open>f64\<close>, the conversion, the heap, and the two thresholds of the command line.\<close>

record ('f, 'd) bench_cfg =
  bg_f32 :: "'f bench_ops"
  bg_f64 :: "'d bench_ops"
  bg_widen :: "'f \<Rightarrow> 'd"
  bg_pick :: "'f node list \<Rightarrow> nat"
  bg_tau :: 'f
  bg_max_length_drift_pct :: 'f

record event_work =
  wk_idx :: nat
  wk_raw_pts :: "mouse_position list"
  wk_ref_path :: "mouse_position list"

definition event_diagonal :: "'f bench_ops \<Rightarrow> mouse_position list \<Rightarrow> 'f" where
  "event_diagonal F pts = (case bounds pts of (minx, miny, maxx, maxy) \<Rightarrow>
     f_max F (f_hypot F (f_of_int F (sint (maxx - minx))) (f_of_int F (sint (maxy - miny)))) (f_of_int F 1))"

text \<open>The parameter found for one simplifier on one event, and the path it then gives.\<close>

definition calibrated ::
  "('f, 'd) bench_cfg \<Rightarrow> event_work \<Rightarrow> string \<Rightarrow> mouse_position list option" where
  "calibrated G ev name =
     (let F = bg_f32 G; raw = wk_raw_pts ev; algo = make_algo (bg_pick G) F name;
          (ref_mean, ref_max) = polyline_deviation_stats F raw (wk_ref_path ev);
          probe = (\<lambda>param. map_option (\<lambda>s. fst (polyline_deviation_stats F raw s)) (algo param raw))
      in Option.bind (calibrate_param F ref_mean probe (f_of_int F 0) (event_diagonal F raw)) (\<lambda>param. algo param raw))"

definition no_metrics :: "('f, 'd) bench_cfg \<Rightarrow> string \<Rightarrow> ('f, 'd) metrics_row" where
  "no_metrics G name = \<lparr> mx_name = name, mx_pts_sum = 0, mx_time_ms_sum = f_of_int (bg_f64 G) 0, mx_mean_dev_sum = f_of_int (bg_f32 G) 0,
     mx_max_dev_sum = f_of_int (bg_f32 G) 0, mx_raw_len_sum = f_of_int (bg_f64 G) 0,
     mx_simp_len_sum = f_of_int (bg_f64 G) 0, mx_pass_cnt = 0 \<rparr>"

definition drift_pct :: "('f, 'd) bench_cfg \<Rightarrow> 'd \<Rightarrow> 'd \<Rightarrow> 'd" where
  "drift_pct G raw_len simp_len = (let D = bg_f64 G in
     if f_lt D (f_of_int D 0) raw_len
     then f_mul D (f_div D (f_abs D (f_sub D simp_len raw_len)) raw_len) (f_of_int D 100) else f_of_int D 0)"

definition add_metrics ::
  "('f, 'd) bench_cfg \<Rightarrow> 'd \<Rightarrow> mouse_position list \<Rightarrow> mouse_position list \<Rightarrow> ('f, 'd) metrics_row \<Rightarrow> ('f, 'd) metrics_row" where
  "add_metrics G elapsed_ms raw simp e =
     (let F = bg_f32 G; D = bg_f64 G;
          (mean_d, max_d) = polyline_deviation_stats F raw simp;
          raw_len = bg_widen G (path_length F raw); simp_len = bg_widen G (path_length F simp);
          pass = f_le F mean_d (bg_tau G) \<and> f_le D (drift_pct G raw_len simp_len) (bg_widen G (bg_max_length_drift_pct G))
      in \<lparr> mx_name = mx_name e, mx_pts_sum = mx_pts_sum e + length simp, mx_time_ms_sum = f_add D (mx_time_ms_sum e) elapsed_ms,
           mx_mean_dev_sum = f_add F (mx_mean_dev_sum e) mean_d, mx_max_dev_sum = f_add F (mx_max_dev_sum e) max_d,
           mx_raw_len_sum = f_add D (mx_raw_len_sum e) raw_len, mx_simp_len_sum = f_add D (mx_simp_len_sum e) simp_len,
           mx_pass_cnt = mx_pass_cnt e + (if pass then 1 else 0) \<rparr>)"

type_synonym ('f, 'd) totals = "(string \<times> ('f, 'd) metrics_row) list"

text \<open>\<open>elapsed name\<close> is the time the simplifier takes on this event.\<close>

fun run_algos ::
  "('f, 'd) bench_cfg \<Rightarrow> (string \<Rightarrow> 'd) \<Rightarrow> event_work \<Rightarrow> string list \<Rightarrow> ('f, 'd) totals \<Rightarrow> ('f, 'd) totals option" where
  "run_algos G elapsed ev [] totals = Some totals"
| "run_algos G elapsed ev (name # names) totals = (case calibrated G ev name of
      None \<Rightarrow> None
    | Some simp \<Rightarrow> run_algos G elapsed ev names
        (upsert name (no_metrics G name) (add_metrics G (elapsed name) (wk_raw_pts ev) simp) totals))"

text \<open>Over all events: the totals, the number of raw points and of events.\<close>

fun run_events ::
  "('f, 'd) bench_cfg \<Rightarrow> (nat \<Rightarrow> string \<Rightarrow> 'd) \<Rightarrow> event_work list \<Rightarrow> ('f, 'd) totals \<times> nat \<times> nat \<Rightarrow>
   (('f, 'd) totals \<times> nat \<times> nat) option" where
  "run_events G elapsed [] st = Some st"
| "run_events G elapsed (ev # evs) (totals, raw_pts, n) = (case run_algos G (elapsed n) ev algo_names totals of
      None \<Rightarrow> None
    | Some totals' \<Rightarrow> run_events G elapsed evs (totals', raw_pts + length (wk_raw_pts ev), n + 1))"

definition bench_compute ::
  "('f, 'd) bench_cfg \<Rightarrow> (nat \<Rightarrow> string \<Rightarrow> 'd) \<Rightarrow> event_work list \<Rightarrow> (('f, 'd) totals \<times> nat \<times> nat) option" where
  "bench_compute G elapsed all_events = run_events G elapsed all_events ([], 0, 0)"

section \<open>Specification\<close>

text \<open>The arguments all simplifiers are meant for.\<close>

definition fair_for_all :: "('f node list \<Rightarrow> nat) \<Rightarrow> 'f bench_ops \<Rightarrow> 'f \<Rightarrow> mouse_position list \<Rightarrow> bool" where
  "fair_for_all pick F param pts \<longleftrightarrow> pick_ok F pick \<and> keys_settle F \<and> max_zero_ok F param
     \<and> list_all (on_own_segment F (f_max F param (f_of_int F 0)) pts) [0..<length pts - 1]"

text \<open>What the totals say of a simplifier.\<close>

definition points_of :: "('f, 'd) totals \<Rightarrow> string \<Rightarrow> nat" where
  "points_of totals name = (case map_of totals name of None \<Rightarrow> 0 | Some e \<Rightarrow> mx_pts_sum e)"

definition passes_of :: "('f, 'd) totals \<Rightarrow> string \<Rightarrow> nat" where
  "passes_of totals name = (case map_of totals name of None \<Rightarrow> 0 | Some e \<Rightarrow> mx_pass_cnt e)"

primrec raw_points :: "event_work list \<Rightarrow> nat" where
  "raw_points [] = 0"
| "raw_points (ev # evs) = length (wk_raw_pts ev) + raw_points evs"

text \<open>Between two totals, \<open>n\<close> paths that have \<open>pts\<close> raw points were added for a simplifier.\<close>

definition counted :: "nat \<Rightarrow> nat \<Rightarrow> ('f, 'd) totals \<Rightarrow> ('f, 'd) totals \<Rightarrow> string \<Rightarrow> bool" where
  "counted n pts t t' name \<longleftrightarrow> points_of t name + n \<le> points_of t' name \<and> points_of t' name \<le> points_of t name + pts
     \<and> passes_of t' name \<le> passes_of t name + n"

section \<open>Lemmas\<close>

lemma make_algo_returns:
  assumes "fair_for_all pick F param pts"
  shows "\<exists>r. make_algo pick F name param pts = Some r \<and> keeps_path r pts"
proof -
  have "\<forall>i. i + 1 < length pts \<longrightarrow> on_own_segment F (f_max F param (f_of_int F 0)) pts i"
    using assms by (auto simp: fair_for_all_def list_all_iff)
  then show ?thesis
    using assms rdp.returns [of F param pts] radial.returns [of F param pts] reumann_witkam.returns [of pts F param]
      visvalingam.returns [of F pick param pts] bottom_up.returns [of F pick param pts] radial_s.returns [of F param pts]
    by (simp add: make_algo_def fair_for_all_def)
qed

lemma calibrate_loop_returns: "(\<And>x. f x \<noteq> None) \<Longrightarrow> calibrate_loop F target f n a b best best_err \<noteq> None"
proof (induction n arbitrary: a b best best_err)
  case (Suc n)
  obtain m where "f (f_mul F (f_add F a b) (f_half F)) = Some m" using Suc.prems by blast
  then show ?case using Suc by (simp add: Let_def split_beta)
qed simp

lemma calibrated_returns:
  assumes "\<And>param. fair_for_all (bg_pick G) (bg_f32 G) param (wk_raw_pts ev)"
  shows "\<exists>r. calibrated G ev name = Some r \<and> keeps_path r (wk_raw_pts ev)"
proof -
  note algo = make_algo_returns [OF assms, of name]
  let ?F = "bg_f32 G" and ?raw = "wk_raw_pts ev"
  let ?probe = "\<lambda>param. map_option (\<lambda>s. fst (polyline_deviation_stats ?F ?raw s)) (make_algo (bg_pick G) ?F name param ?raw)"
  have "?probe x \<noteq> None" for x using algo [of x] by auto
  then have "calibrate_param ?F t ?probe lo hi \<noteq> None" for t lo hi
    unfolding calibrate_param_def by (rule calibrate_loop_returns)
  then obtain param where "calibrate_param ?F (fst (polyline_deviation_stats ?F ?raw (wk_ref_path ev))) ?probe
      (f_of_int ?F 0) (event_diagonal ?F ?raw) = Some param" by blast
  then show ?thesis using algo [of param] by (simp add: calibrated_def Let_def split_beta)
qed

lemma keeps_path_length: "keeps_path r pts \<Longrightarrow> pts \<noteq> [] \<Longrightarrow> 1 \<le> length r \<and> length r \<le> length pts"
  by (cases r) (auto simp: keeps_path_def dest: list_emb_length)

lemma add_metrics_counts:
  "mx_pts_sum (add_metrics G t raw simp e) = mx_pts_sum e + length simp"
  "mx_pass_cnt (add_metrics G t raw simp e) \<le> mx_pass_cnt e + 1"
  by (simp_all add: add_metrics_def Let_def split_beta)

lemma upsert_counts:
  "points_of (upsert k (no_metrics G k) (add_metrics G t raw simp) totals) name
     = points_of totals name + (if name = k then length simp else 0)"
  "passes_of (upsert k (no_metrics G k) (add_metrics G t raw simp) totals) name
     \<le> passes_of totals name + (if name = k then 1 else 0)"
  using add_metrics_counts(2) [of G t raw simp]
  by (auto simp: points_of_def passes_of_def map_of_upsert add_metrics_counts no_metrics_def split: option.split)
    (use add_metrics_counts(2) [of G t raw simp "no_metrics G k"] in \<open>simp add: no_metrics_def\<close>)

lemma counted_refl [simp]: "counted 0 0 t t = (\<lambda>_. True)"
  by (simp add: counted_def fun_eq_iff)

lemma counted_trans: "counted n p t t' name \<Longrightarrow> counted m q t' t'' name \<Longrightarrow> counted (n + m) (p + q) t t'' name"
  by (simp add: counted_def)

text \<open>One round over all simplifiers.\<close>

lemma run_algos_returns:
  assumes "\<And>name. \<exists>r. calibrated G ev name = Some r \<and> keeps_path r (wk_raw_pts ev)" and "wk_raw_pts ev \<noteq> []" and "distinct names"
  shows "\<exists>totals'. run_algos G elapsed ev names totals = Some totals' \<and> (\<forall>name.
    counted (of_bool (name \<in> set names)) (if name \<in> set names then length (wk_raw_pts ev) else 0) totals totals' name)"
  using assms(3)
proof (induction names arbitrary: totals)
  case (Cons k names)
  obtain r where r: "calibrated G ev k = Some r" "keeps_path r (wk_raw_pts ev)" using assms(1) by blast
  define t where "t = upsert k (no_metrics G k) (add_metrics G (elapsed k) (wk_raw_pts ev) r) totals"
  have c: "counted (of_bool (name = k)) (if name = k then length (wk_raw_pts ev) else 0) totals t name" for name
    using upsert_counts [of k G "elapsed k" "wk_raw_pts ev" r totals name, folded t_def] keeps_path_length [OF r(2) assms(2)]
    by (auto simp: counted_def split: if_splits)
  obtain totals' where t': "run_algos G elapsed ev names t = Some totals'"
    "\<And>name. counted (of_bool (name \<in> set names)) (if name \<in> set names then length (wk_raw_pts ev) else 0) t totals' name"
    using Cons.IH [of t] Cons.prems by auto
  have "counted (of_bool (name \<in> set (k # names))) (if name \<in> set (k # names) then length (wk_raw_pts ev) else 0) totals totals' name" for name
    using counted_trans [OF c t'(2), of name] Cons.prems by (auto split: if_splits)
  moreover have "run_algos G elapsed ev (k # names) totals = Some totals'" using r(1) t'(1) by (simp add: t_def)
  ultimately show ?case by blast
qed simp

lemma run_events_returns:
  assumes "\<And>ev param. ev \<in> set evs \<Longrightarrow> fair_for_all (bg_pick G) (bg_f32 G) param (wk_raw_pts ev)"
    and "\<And>ev. ev \<in> set evs \<Longrightarrow> wk_raw_pts ev \<noteq> []"
  shows "\<exists>totals'. run_events G elapsed evs (totals, raw, n)
      = Some (totals', raw + raw_points evs, n + length evs)
    \<and> list_all (counted (length evs) (raw_points evs) totals totals') algo_names"
  using assms
proof (induction evs arbitrary: totals raw n)
  case (Cons ev evs)
  have ev: "\<exists>r. calibrated G ev name = Some r \<and> keeps_path r (wk_raw_pts ev)" for name
    by (rule calibrated_returns) (use Cons.prems(1) in simp)
  have d: "distinct algo_names" by (simp add: algo_names_def)
  obtain t where t: "run_algos G (elapsed n) ev algo_names totals = Some t"
    "\<And>name. counted (of_bool (name \<in> set algo_names)) (if name \<in> set algo_names then length (wk_raw_pts ev) else 0) totals t name"
    using run_algos_returns [OF ev _ d] Cons.prems(2) by (metis list.set_intros(1))
  obtain totals' where t': "run_events G elapsed evs (t, raw + length (wk_raw_pts ev), n + 1)
      = Some (totals', raw + length (wk_raw_pts ev) + raw_points evs, n + 1 + length evs)"
    "list_all (counted (length evs) (raw_points evs) t totals') algo_names"
    using Cons.IH [of t "raw + length (wk_raw_pts ev)" "n + 1"] Cons.prems by auto
  have "counted (1 + length evs) (length (wk_raw_pts ev) + raw_points evs) totals totals' name"
    if "name \<in> set algo_names" for name
    using counted_trans [OF t(2) [of name]] t'(2) that by (simp add: list_all_iff)
  moreover have "run_events G elapsed (ev # evs) (totals, raw, n)
      = Some (totals', raw + raw_points (ev # evs), n + length (ev # evs))"
    using t(1) t'(1) by (simp add: add.assoc)
  ultimately show ?case by (simp add: list_all_iff)
qed (simp add: list_all_iff)

section \<open>The properties\<close>

text \<open>Rational numbers as a stand-in for floats, with the floor of the square root of small numbers.\<close>

definition rat_ops :: "rat bench_ops" where
  "rat_ops = \<lparr> f_of_int = of_int, f_add = (+), f_mul = (*), f_div = (\<lambda>a b. if b = 0 then 0 else a / b),
     f_sqrt = (\<lambda>x. of_nat (length (takeWhile (\<lambda>k. of_int (k * k) \<le> x) [1..40]))), f_abs = abs, f_max = max,
     f_lt = (<), f_eq = (=), f_sum_init = 0, f_sub = (-), f_square = (\<lambda>x. x * x),
     f_hypot = (\<lambda>a b. of_nat (length (takeWhile (\<lambda>k. of_int (k * k) \<le> a * a + b * b) [1..40]))), f_half = 1 / 2,
     f_inf = 1000000, f_tiny = 1 / 1000000, f_cos30 = 866 / 1000 \<rparr>"

text \<open>The first of the nodes with the smallest key.\<close>

fun first_least :: "rat node list \<Rightarrow> nat" where
  "first_least (x # y # h) = (let k = first_least (y # h) in if snd x \<le> snd ((y # h) ! k) then 0 else Suc k)"
| "first_least _ = 0"

lemma first_least_ok: "pick_ok rat_ops first_least"
proof -
  have "h \<noteq> [] \<Longrightarrow> first_least h < length h \<and> (\<forall>x \<in> set h. snd (h ! first_least h) \<le> snd x)" for h
    by (induction h rule: first_least.induct) (auto simp: Let_def intro: order.trans less_imp_le)
  then show ?thesis by (simp add: pick_ok_def rat_ops_def not_less)
qed

definition demo_stroke :: "mouse_position list" where
  "demo_stroke = map (\<lambda>(x, y). \<lparr> pos_x = x, pos_y = y \<rparr>) [(0, 0), (10, 0), (10, 10), (0, 10), (0, 0)]"

lemma demo_fair: "fair_for_all first_least rat_ops param demo_stroke"
proof -
  have "list_all (\<lambda>i. point_segment_distance rat_ops (demo_stroke ! (i + 1)) (demo_stroke ! i) (demo_stroke ! (i + 1)) = 0)
      [0..<length demo_stroke - 1]" by code_simp
  then have "list_all (on_own_segment rat_ops (max param 0) demo_stroke) [0..<length demo_stroke - 1]"
    by (auto simp: on_own_segment_def rat_ops_def list_all_iff)
  then show ?thesis
    by (simp add: fair_for_all_def first_least_ok keys_settle_def stale_key_def max_zero_ok_def)
      (simp add: rat_ops_def)
qed

text \<open>
  C30: The simplifiers keep the path.  Each of the six the benchmark compares returns, for arguments it is
  meant for, a part of the raw path in its order that begins and ends where the path does.
\<close>
theorem simplifiers_keep_path:
  assumes "fair_for_all pick F param pts"
  shows "list_all (\<lambda>name. \<exists>r. make_algo pick F name param pts = Some r \<and> keeps_path r pts) algo_names"
  unfolding list_all_iff using make_algo_returns [OF assms] by blast

theorem simplifiers_keep_path_witness:
  "list_all (\<lambda>name. \<exists>r. make_algo first_least rat_ops name 3 demo_stroke = Some r \<and> keeps_path r demo_stroke) algo_names"
  by (rule simplifiers_keep_path [OF demo_fair])

text \<open>
  C29: A run of the benchmark ends.  Whatever the reference paths are and however long anything takes, every probe
  of every calibration returns, and so does the run.  It has counted every event and every raw point;
  no simplifier is credited with fewer points than events, with more points than were there, or
  with more passes than events.
\<close>
theorem benchmark_finishes:
  assumes "list_all (\<lambda>ev. wk_raw_pts ev \<noteq> [] \<and> (\<forall>param. fair_for_all (bg_pick G) (bg_f32 G) param (wk_raw_pts ev))) evs"
  shows "\<exists>totals. bench_compute G elapsed evs = Some (totals, raw_points evs, length evs)
    \<and> list_all (\<lambda>name. length evs \<le> points_of totals name \<and> points_of totals name \<le> raw_points evs
      \<and> passes_of totals name \<le> length evs) algo_names"
proof -
  obtain totals where "run_events G elapsed evs ([], 0, 0) = Some (totals, 0 + raw_points evs, 0 + length evs)"
    "list_all (counted (length evs) (raw_points evs) [] totals) algo_names"
    using run_events_returns [of evs G elapsed "[]" 0 0] assms by (auto simp: list_all_iff)
  then show ?thesis
    by (intro exI [of _ totals]) (simp add: bench_compute_def counted_def points_of_def passes_of_def list_all_iff)
qed

definition demo_bench :: "(rat, rat) bench_cfg" where
  "demo_bench = \<lparr> bg_f32 = rat_ops, bg_f64 = rat_ops, bg_widen = (\<lambda>x. x), bg_pick = first_least, bg_tau = 2,
     bg_max_length_drift_pct = 10 \<rparr>"

definition demo_work :: event_work where
  "demo_work = \<lparr> wk_idx = 0, wk_raw_pts = demo_stroke, wk_ref_path = [hd demo_stroke, hd demo_stroke] \<rparr>"

theorem benchmark_finishes_witness:
  "\<exists>totals. bench_compute demo_bench (\<lambda>_ _. 1) [demo_work, demo_work] = Some (totals, 10, 2)
    \<and> list_all (\<lambda>name. 2 \<le> points_of totals name \<and> points_of totals name \<le> 10 \<and> passes_of totals name \<le> 2) algo_names"
proof -
  have "list_all (\<lambda>ev. wk_raw_pts ev \<noteq> [] \<and> (\<forall>param. fair_for_all (bg_pick demo_bench) (bg_f32 demo_bench) param (wk_raw_pts ev)))
      [demo_work, demo_work]"
    by (simp add: demo_bench_def demo_work_def demo_fair) (simp add: demo_stroke_def)
  moreover have "raw_points [demo_work, demo_work] = 10" by (simp add: demo_work_def demo_stroke_def)
  ultimately show ?thesis
    using benchmark_finishes [of demo_bench "[demo_work, demo_work]" "\<lambda>_ _. 1"] by (simp add: numeral_2_eq_2)
qed

subsection \<open>The search for a parameter\<close>

text \<open>Exact arithmetic.\<close>

definition exact :: "('f::linordered_field) bench_ops \<Rightarrow> bool" where
  "exact F \<longleftrightarrow> f_add F = (+) \<and> f_mul F = (*) \<and> f_sub F = (-) \<and> f_half F = 1 / 2 \<and> f_abs F = abs \<and> f_lt F = (<)"

lemma exact_step:
  assumes "exact F"
  shows "calibrate_loop F target (\<lambda>x. Some (f x)) (Suc n) a b best best_err =
    (let mid = (a + b) / 2; err = \<bar>f mid - target\<bar>;
         best' = (if err < best_err then mid else best); best_err' = (if err < best_err then err else best_err)
     in if f mid < target then calibrate_loop F target (\<lambda>x. Some (f x)) n a mid best' best_err'
        else calibrate_loop F target (\<lambda>x. Some (f x)) n mid b best' best_err')"
proof -
  have mid: "f_mul F (f_add F a b) (f_half F) = (a + b) / 2" using assms by (auto simp only: exact_def)
  have ops: "f_sub F = (-)" "f_abs F = abs" "f_lt F = (<)" using assms by (simp_all add: exact_def)
  show ?thesis unfolding calibrate_loop.simps Let_def mid ops by simp
qed

lemma error_grows:
  fixes f :: "'f::linordered_field \<Rightarrow> 'f"
  assumes "mono f"
  shows "x \<le> m \<Longrightarrow> f m < t \<Longrightarrow> \<bar>f m - t\<bar> \<le> \<bar>f x - t\<bar>" and "m \<le> x \<Longrightarrow> \<not> f m < t \<Longrightarrow> \<bar>f m - t\<bar> \<le> \<bar>f x - t\<bar>"
  using monoD [OF assms, of x m] monoD [OF assms, of m x] by (simp_all add: abs_if)

lemma calibrate_loop_settled:
  assumes "exact F" and "a \<le> b" and "\<And>x. a \<le> x \<Longrightarrow> x \<le> b \<Longrightarrow> best_err \<le> \<bar>f x - target\<bar>"
  shows "calibrate_loop F target (\<lambda>x. Some (f x)) n a b best best_err = Some best"
  using assms(2,3)
proof (induction n arbitrary: a b)
  case (Suc n)
  let ?mid = "(a + b) / 2"
  have m: "a \<le> ?mid" "?mid \<le> b" using Suc.prems(1) by (simp_all add: field_simps)
  then have "\<not> \<bar>f ?mid - target\<bar> < best_err" using Suc.prems(2) [of ?mid] by simp
  moreover have "calibrate_loop F target (\<lambda>x. Some (f x)) n a ?mid best best_err = Some best"
    by (rule Suc.IH [OF m(1)]) (use m(2) Suc.prems(2) in \<open>meson order.trans\<close>)
  moreover have "calibrate_loop F target (\<lambda>x. Some (f x)) n ?mid b best best_err = Some best"
    by (rule Suc.IH [OF m(2)]) (use m(1) Suc.prems(2) in \<open>meson order.trans\<close>)
  ultimately show ?case by (simp only: exact_step [OF assms(1)] Let_def if_False if_cancel)
qed simp

text \<open>
  C32: The calibration searches away from its target.  The more a path may deviate the more its
  simplification does, so a mean deviation below the target asks for a larger parameter.  The loop takes the smaller half then
  (and the larger one when the deviation is above the target): in exact arithmetic and for any monotone
  probe it ends where it begins, with the middle of the interval, whatever the target is.
\<close>
theorem calibration_stays_in_the_middle:
  assumes "exact F" and "mono f" and "lo \<le> hi" and "\<bar>f ((lo + hi) / 2) - target\<bar> < f_inf F"
  shows "calibrate_param F target (\<lambda>x. Some (f x)) lo hi = Some ((lo + hi) / 2)"
proof -
  let ?mid = "(lo + hi) / 2"
  let ?err = "\<bar>f ?mid - target\<bar>"
  have m: "lo \<le> ?mid" "?mid \<le> hi" using assms(3) by (simp_all add: field_simps)
  have 1: "calibrate_loop F target (\<lambda>x. Some (f x)) 15 lo ?mid ?mid ?err = Some ?mid" if "f ?mid < target"
    by (rule calibrate_loop_settled [OF assms(1) m(1) error_grows(1) [OF assms(2) _ that]])
  have 2: "calibrate_loop F target (\<lambda>x. Some (f x)) 15 ?mid hi ?mid ?err = Some ?mid" if "\<not> f ?mid < target"
    by (rule calibrate_loop_settled [OF assms(1) m(2) error_grows(2) [OF assms(2) _ that]])
  have "(16 :: nat) = Suc 15" by simp
  then show ?thesis
    unfolding calibrate_param_def by (simp only: exact_step [OF assms(1)] Let_def assms(4) if_True) (use 1 2 in simp)
qed

theorem calibration_stays_in_the_middle_witness:
  "calibrate_param rat_ops 9 (\<lambda>x. Some (3 * x)) 0 40 = Some 20"
  using calibration_stays_in_the_middle [of rat_ops "\<lambda>x. 3 * x" 0 40 9] by (simp add: exact_def rat_ops_def mono_def)

subsection \<open>Closed strokes\<close>

text \<open>
  C31: The compressor forgets closed strokes.  The distance of a point from the line through the two ends is
  zero for the code when the ends coincide, so a movement that comes back to where it began, a circle for
  example, is reduced to its one end, however far it went in between.
\<close>
theorem closed_stroke_collapses:
  assumes "3 \<le> length points" and "hd points = last points"
    and "f_eq F (f_sqrt F (f_add F (f_mul F (f_of_int F 0) (f_of_int F 0)) (f_mul F (f_of_int F 0) (f_of_int F 0)))) (f_of_int F 0)"
    and "\<not> f_lt F (f_of_int F 0) (f_of_int F 0)" and "\<not> f_lt F epsilon (f_of_int F 0)"
  shows "douglas_peucker F epsilon points = Some [hd points, hd points]"
proof -
  have ends: "points ! 0 = hd points" "points ! (length points - 1) = hd points"
    using assms(1,2) by (cases "points = []"; simp add: hd_conv_nth last_conv_nth)+
  have d: "perpendicular_distance F p q q = f_of_int F 0" for p q
    using assms(3) by (simp add: perpendicular_distance_def Let_def mult.commute)
  have "farthest F points = foldl (\<lambda>(d, k) i. if f_lt F d (f_of_int F 0) then (f_of_int F 0, i) else (d, k)) (f_of_int F 0, 0) [1..<length points - 1]"
    unfolding farthest_def ends Let_def d by simp
  moreover have "foldl (\<lambda>(d, k) i. if f_lt F d (f_of_int F 0) then (f_of_int F 0, i) else (d, k)) (f_of_int F 0, 0) ks = (f_of_int F 0, 0 :: nat)" for ks
    using assms(4) by (induction ks rule: rev_induct) simp_all
  ultimately show ?thesis using assms(1,5) unfolding douglas_peucker.simps [of F epsilon points] ends by simp
qed

theorem closed_stroke_collapses_witness:
  "douglas_peucker int_ops 2 demo_stroke = Some [\<lparr> pos_x = 0, pos_y = 0 \<rparr>, \<lparr> pos_x = 0, pos_y = 0 \<rparr>]"
proof -
  have "douglas_peucker int_ops 2 demo_stroke = Some [hd demo_stroke, hd demo_stroke]"
    by (rule closed_stroke_collapses; code_simp)
  then show ?thesis by (simp add: demo_stroke_def)
qed

text \<open>The benchmark's recursion keeps the corners of this stroke.\<close>

lemma reference_keeps_corners: "simplify_rdp rat_ops 2 demo_stroke = Some demo_stroke"
  by code_simp

subsection \<open>Visvalingam's left neighbour\<close>

lemma seek_left_kept: "\<not> removed ! i \<Longrightarrow> seek_left removed i = i"
  by (cases i) simp_all

lemma flat_triangle: "triangle_area F p p q = f_mul F (f_half F) (f_abs F (f_of_int F 0))"
proof -
  have "pos_x p * (pos_y p - pos_y q) + pos_x p * (pos_y q - pos_y p) + pos_x q * (pos_y p - pos_y p) = 0"
    by (simp add: algebra_simps)
  then show ?thesis by (simp only: triangle_area_def) simp
qed

text \<open>
  After a point is removed its left neighbour counts as flat.  The search for the neighbour's own left
  neighbour starts at the neighbour, which is still there, so the recomputed triangle has two equal
  corners and area zero: whatever the path looks like, a run of points to the left is removed next.
\<close>
theorem left_neighbour_looks_flat:
  assumes "1 < idx" and "idx + 1 < length pts" and "length (vw_removed s) = length pts" and "length (vw_areas s) = length pts"
    and "\<not> vw_removed s ! (idx - 1)" and "\<not> vw_removed s ! (idx + 1)"
  shows "vw_areas (vw_remove F pts idx s) ! (idx - 1) = f_mul F (f_half F) (f_abs F (f_of_int F 0))"
proof -
  define s1 where "s1 = s\<lparr> vw_removed := (vw_removed s)[idx := True] \<rparr>"
  have r: "\<not> vw_removed s1 ! (idx - 1)" "\<not> vw_removed s1 ! (idx + 1)" using assms by (simp_all add: s1_def nth_list_update)
  then have "vw_left F pts idx s1 = vw_set_area (idx - 1) (f_mul F (f_half F) (f_abs F (f_of_int F 0))) s1"
    using assms(1,2) by (simp add: vw_left_def Let_def seek_left_kept flat_triangle)
  then have "vw_areas (vw_left F pts idx s1) ! (idx - 1) = f_mul F (f_half F) (f_abs F (f_of_int F 0))"
    using assms by (simp add: vw_set_area_def s1_def)
  moreover have "vw_areas (vw_right F pts idx t) ! (idx - 1) = vw_areas t ! (idx - 1)" for t
    using assms(1) by (simp add: vw_right_def Let_def vw_set_area_def nth_list_update)
  ultimately show ?thesis by (simp add: vw_remove_def s1_def)
qed

definition demo_zigzag :: "mouse_position list" where
  "demo_zigzag = map (\<lambda>(x, y). \<lparr> pos_x = x, pos_y = y \<rparr>) [(0, 0), (10, 90), (20, 0), (30, 1), (40, 0)]"

theorem left_neighbour_looks_flat_witness:
  "vw_areas (vw_remove rat_ops demo_zigzag 3 (vw_init rat_ops demo_zigzag)) ! 2 = 0"
proof -
  have "vw_areas (vw_remove rat_ops demo_zigzag 3 (vw_init rat_ops demo_zigzag)) ! (3 - 1)
      = f_mul rat_ops (f_half rat_ops) (f_abs rat_ops (f_of_int rat_ops 0))"
    by (rule left_neighbour_looks_flat; code_simp)
  then show ?thesis by (simp add: rat_ops_def)
qed

end
