(* ===== verification/Mouse_Bench.thy ===== *)
theory Mouse_Bench
  imports Bench_Run Duckdb_Storage Std_Text "HOL-Library.Product_Lexorder"
begin

text \<open>
  The benchmark of the mouse compressor, benchmarks/compressor/mouse_traj.rs, around the run of
  \<open>Bench_Run\<close>: what it reads from either database and which trajectories it selects.

  The readers of texts (serde_json, chrono) are those of the codec and two parameters more, a database that
  fails is a parameter as for the back ends.  \<open>None\<close> is a panic, or a run that does not end.
\<close>

section \<open>Reading the database\<close>

record 'f bench_row =
  br_row_index :: nat
  br_payload :: "'f compact_mouse_trajectory"
  br_raw_ref :: "raw_event_pointer option"

record raw_mouse_point =
  rm_ts :: instant
  rm_id :: u64
  rm_pos :: mouse_position
  rm_kind :: mouse_event_kind

record 'f bench_texts =
  bt_trajectory :: "string \<Rightarrow> 'f compact_mouse_trajectory option"
  bt_pointer :: "string \<Rightarrow> raw_event_pointer option"

text \<open>A row with its \<open>rowid\<close>.  The payload must parse; the pointer of the row goes before the payload's.\<close>

definition bench_row_of :: "'f bench_texts \<Rightarrow> int \<times> 't compact_row \<Rightarrow> 'f bench_row option" where
  "bench_row_of B row = (case row of (rowid, r) \<Rightarrow>
     map_option (\<lambda>payload.
         \<lparr> br_row_index = unat (word_of_int rowid - 1 :: u64), br_payload = payload,
           br_raw_ref = (case Option.bind (cw_raw_event_ref r) (bt_pointer B) of
               Some p \<Rightarrow> Some p
             | None \<Rightarrow> mt_raw_event_ids payload) \<rparr>)
       (bt_trajectory B (case cw_payload r of Some js \<Rightarrow> js | None \<Rightarrow> ''null'')))"

fun all_or_panic :: "'a option list \<Rightarrow> 'a list option" where
  "all_or_panic [] = Some []"
| "all_or_panic (x # xs) = Option.bind x (\<lambda>y. map_option ((#) y) (all_or_panic xs))"

definition load_all_compact_mouse ::
  "'f bench_texts \<Rightarrow> ((int \<times> ('t::linorder) compact_row) list \<Rightarrow> (int \<times> 't compact_row) list) \<Rightarrow> string option \<Rightarrow>
   (int \<times> 't compact_row) list \<Rightarrow> (string + 'f bench_row list) option" where
  "load_all_compact_mouse B it fault rows = (case fault of
      Some e \<Rightarrow> Some (Inl e)
    | None \<Rightarrow> map_option Inr (all_or_panic (map (bench_row_of B)
        (order_by it (\<lambda>(rowid, r). cw_start_time r) (filter (\<lambda>(rowid, r). cw_kind r = ''compact:mouse_traj'') rows)))))"

definition no_mouse_data :: mouse_event_data where
  "no_mouse_data = \<lparr> mouse_pos = \<lparr> pos_x = 0, pos_y = 0 \<rparr>, mouse_btn = None, mouse_click_count = None,
     mouse_event_type = None, wheel_amount = None, wheel_rotation = None, mouse_wheel_axis = None,
     mouse_wheel_scroll_type = None \<rparr>"

text \<open>Only moves and drags are points of a path.\<close>

definition movement_point :: "instant \<Rightarrow> int \<Rightarrow> mouse_event_data \<Rightarrow> raw_mouse_point option" where
  "movement_point ts i data =
     (if mouse_event_type data = Some Moved \<or> mouse_event_type data = Some Dragged
      then Some \<lparr> rm_ts = ts, rm_id = word_of_int i, rm_pos = mouse_pos data, rm_kind = the (mouse_event_type data) \<rparr>
      else None)"

definition row_mouse_data :: "'f codec \<Rightarrow> string option \<Rightarrow> mouse_event_data" where
  "row_mouse_data C payload =
     (case js_mouse_of C (case payload of Some js \<Rightarrow> js | None \<Rightarrow> ''{}'') of Some d \<Rightarrow> d | None \<Rightarrow> no_mouse_data)"

definition row_id :: "('t, 'b) envelope_row \<Rightarrow> int" where
  "row_id r = (case ew_event_id r of Some i \<Rightarrow> i | None \<Rightarrow> 0)"

text \<open>A row is no point, or a point; in SQLite the text of its time must parse.\<close>

definition sqlite_point :: "'f codec \<Rightarrow> (string, int) envelope_row \<Rightarrow> raw_mouse_point option option" where
  "sqlite_point C r = (case co_time_of C (ew_timestamp r) of
      Inl e \<Rightarrow> None
    | Inr ts \<Rightarrow> Some (movement_point ts (row_id r) (row_mouse_data C (ew_payload r))))"

definition duck_point :: "'f codec \<Rightarrow> (instant, bool) envelope_row \<Rightarrow> raw_mouse_point option option" where
  "duck_point C r = Some (movement_point (ew_timestamp r) (row_id r) (row_mouse_data C (ew_payload r)))"

text \<open>One query per chunk of ids; \<open>fail k\<close> is the error of the query of chunk \<open>k\<close>.\<close>

definition mouse_rows_of ::
  "((('t::linorder), 'b) envelope_row list \<Rightarrow> ('t, 'b) envelope_row list) \<Rightarrow> ('t, 'b) envelope_row list \<Rightarrow> u64 list \<Rightarrow>
   ('t, 'b) envelope_row list" where
  "mouse_rows_of it rows chunk = order_by it (\<lambda>r. (ew_timestamp r, row_id r))
     (filter (\<lambda>r. ew_kind r = ''signal:mouse'' \<and> ew_event_id r \<in> set (map (\<lambda>i. Some (sint i)) chunk)) rows)"

fun read_chunks ::
  "(('t, 'b) envelope_row \<Rightarrow> raw_mouse_point option option) \<Rightarrow> (u64 list \<Rightarrow> ('t, 'b) envelope_row list) \<Rightarrow>
   (nat \<Rightarrow> string option) \<Rightarrow> nat \<Rightarrow> u64 list list \<Rightarrow> raw_mouse_point list \<Rightarrow> (string + raw_mouse_point list) option" where
  "read_chunks point query fail k [] out = Some (Inr out)"
| "read_chunks point query fail k (chunk # cs) out = (case fail k of
      Some e \<Rightarrow> Some (Inl e)
    | None \<Rightarrow> (case all_or_panic (map point (query chunk)) of
        None \<Rightarrow> None
      | Some ps \<Rightarrow> read_chunks point query fail (Suc k) cs (out @ List.map_filter id ps)))"

text \<open>A list cut into pieces of \<open>n\<close>, the last of which may be shorter.\<close>

function chunks :: "nat \<Rightarrow> 'a list \<Rightarrow> 'a list list" where
  "chunks n xs = (if n = 0 \<or> xs = [] then [] else take n xs # chunks n (drop n xs))"
  by pat_completeness auto
termination by (relation "measure (\<lambda>(n, xs). length xs)") auto

declare chunks.simps [simp del]

definition load_raw ::
  "nat \<Rightarrow> (('t, 'b) envelope_row \<Rightarrow> raw_mouse_point option option) \<Rightarrow> (u64 list \<Rightarrow> ('t, 'b) envelope_row list) \<Rightarrow>
   (nat \<Rightarrow> string option) \<Rightarrow> raw_event_pointer option \<Rightarrow> (string + raw_mouse_point list) option" where
  "load_raw n point query fail link = (case link of
      None \<Rightarrow> Some (Inr [])
    | Some l \<Rightarrow>
        if ptr_ids l = [] then Some (Inr [])
        else map_option (map_sum id (sort_key (\<lambda>p. (rm_ts p, rm_id p))))
          (read_chunks point query fail 0 (chunks n (ptr_ids l)) []))"

definition sqlite_load_raw_mouse ::
  "'f codec \<Rightarrow> ((string, int) envelope_row list \<Rightarrow> (string, int) envelope_row list) \<Rightarrow> (nat \<Rightarrow> string option) \<Rightarrow> sqlite_db \<Rightarrow>
   raw_event_pointer option \<Rightarrow> (string + raw_mouse_point list) option" where
  "sqlite_load_raw_mouse C it fail db = load_raw 500 (sqlite_point C) (mouse_rows_of it (db_envelopes db)) fail"

definition duck_load_raw_mouse ::
  "'f codec \<Rightarrow> ((instant, bool) envelope_row list \<Rightarrow> (instant, bool) envelope_row list) \<Rightarrow> (nat \<Rightarrow> string option) \<Rightarrow> duck_db \<Rightarrow>
   raw_event_pointer option \<Rightarrow> (string + raw_mouse_point list) option" where
  "duck_load_raw_mouse C it fail db = load_raw 900 (duck_point C) (mouse_rows_of it (db_envelopes db)) fail"

section \<open>Selecting trajectories\<close>

definition parse_usize :: "string \<Rightarrow> nat option" where
  "parse_usize s = map_option nat (parse_int 0 (2 ^ 64 - 1) s)"

definition parse_range :: "string \<Rightarrow> nat \<Rightarrow> nat list" where
  "parse_range r total_rows = (case split_on (CHR '':'') r of
      [a, b] \<Rightarrow>
        (let start = (case parse_usize a of Some n \<Rightarrow> n | None \<Rightarrow> 0);
             stop = (case parse_usize b of Some n \<Rightarrow> n | None \<Rightarrow> total_rows - 1)
         in [start..<Suc (min stop (total_rows - 1))])
    | _ \<Rightarrow> [])"

record bench_cli =
  bc_indices :: "nat list option"
  bc_range :: "string option"
  bc_last :: nat
  bc_limit :: "nat option"

definition bench_selected :: "bench_cli \<Rightarrow> nat \<Rightarrow> nat list" where
  "bench_selected cli total_rows =
     (let selected = (case bc_indices cli of
            Some idxs \<Rightarrow> idxs
          | None \<Rightarrow> (case bc_range cli of
                Some r \<Rightarrow> parse_range r total_rows
              | None \<Rightarrow> (let n = min (bc_last cli) total_rows in [total_rows - n..<total_rows])))
      in case bc_limit cli of
           Some limit \<Rightarrow> if limit < length selected then drop (length selected - limit) selected else selected
         | None \<Rightarrow> selected)"

text \<open>
  The trajectories with three raw points at least; \<open>load\<close> is the reader's \<open>load_raw_mouse_for_link\<close>.  An index
  out of range is a panic.
\<close>

fun load_events ::
  "(raw_event_pointer option \<Rightarrow> (string + raw_mouse_point list) option) \<Rightarrow> 'f bench_row list \<Rightarrow> nat list \<Rightarrow>
   (string + event_work list) option" where
  "load_events load compacts [] = Some (Inr [])"
| "load_events load compacts (idx # idxs) =
     (if length compacts \<le> idx then None
      else let row = compacts ! idx in
        (case load (br_raw_ref row) of
           None \<Rightarrow> None
         | Some (Inl e) \<Rightarrow> Some (Inl e)
         | Some (Inr raws) \<Rightarrow>
             (let raw_pts = map rm_pos raws;
                  loaded = (if 3 \<le> length raw_pts
                    then [\<lparr> wk_idx = idx, wk_raw_pts = raw_pts, wk_ref_path = mt_simplified_path (br_payload row) \<rparr>] else [])
              in map_option (map_sum id (\<lambda>evs. loaded @ evs)) (load_events load compacts idxs))))"

text \<open>The whole run: \<open>None\<close> inside the right result says that there was nothing to process.\<close>

definition bench_main ::
  "('f, 'd) bench_cfg \<Rightarrow> (nat \<Rightarrow> string \<Rightarrow> 'd) \<Rightarrow> bench_cli \<Rightarrow> (string + 'f bench_row list) option \<Rightarrow>
   (raw_event_pointer option \<Rightarrow> (string + raw_mouse_point list) option) \<Rightarrow>
   (string + (('f, 'd) totals \<times> nat \<times> nat) option) option" where
  "bench_main G elapsed cli compacts load = (case compacts of
      None \<Rightarrow> None
    | Some (Inl e) \<Rightarrow> Some (Inl e)
    | Some (Inr rows) \<Rightarrow>
        if rows = [] then Some (Inl ''No compact mouse_traj events found'')
        else (case load_events load rows (bench_selected cli (length rows)) of
            None \<Rightarrow> None
          | Some (Inl e) \<Rightarrow> Some (Inl e)
          | Some (Inr evs) \<Rightarrow>
              if evs = [] then Some (Inr None) else map_option (Inr \<circ> Some) (bench_compute G elapsed evs)))"

section \<open>Lemmas: reading a path\<close>

lemma all_or_panic_map: "(\<And>x. x \<in> set xs \<Longrightarrow> f x = Some (g x)) \<Longrightarrow> all_or_panic (map f xs) = Some (map g xs)"
  by (induction xs) simp_all

lemma concat_chunks: "0 < n \<Longrightarrow> concat (chunks n xs) = xs"
proof (induction n xs rule: chunks.induct)
  case (1 n xs)
  then show ?case by (subst chunks.simps) (cases "xs = []"; simp)
qed

text \<open>Sorting by a key that tells the elements apart gives one list only.\<close>

lemma sort_key_unique:
  assumes "mset xs = mset ys" and "inj_on key (set xs)"
  shows "sort_key key xs = sort_key key ys"
proof (rule map_inj_on)
  have "sort (map key ys) = map key (sort_key key ys)" by (rule properties_for_sort) simp_all
  moreover have "sort (map key ys) = map key (sort_key key xs)" by (rule properties_for_sort) (simp_all add: assms(1))
  ultimately show "map key (sort_key key xs) = map key (sort_key key ys)" by simp
  show "inj_on key (set (sort_key key xs) \<union> set (sort_key key ys))"
    using assms mset_eq_setD [OF assms(1)] by simp
qed

text \<open>The envelopes of movements of these raw events, and their points.\<close>

definition movements :: "u64 list \<Rightarrow> event_envelope list \<Rightarrow> event_envelope list" where
  "movements ids envs = filter (\<lambda>e. env_kind e = Signal MouseInput \<and> env_id e \<in> set ids) envs"

definition envelope_point :: "event_envelope \<Rightarrow> raw_mouse_point option" where
  "envelope_point e = (case env_payload e of PMouse m \<Rightarrow> movement_point (env_timestamp e) (sint (env_id e)) m | _ \<Rightarrow> None)"

definition path_points :: "u64 list \<Rightarrow> event_envelope list \<Rightarrow> raw_mouse_point list" where
  "path_points ids envs = sort_key (\<lambda>p. (rm_ts p, rm_id p)) (List.map_filter envelope_point (movements ids envs))"

lemma read_chunks_points:
  assumes "\<And>chunk. chunk \<in> set cs \<Longrightarrow> mset (query chunk) = image_mset row (mset (movements chunk envs))"
    and "\<And>e. e \<in> set (movements (concat cs) envs) \<Longrightarrow> point (row e) = Some (envelope_point e)"
    and "distinct (concat cs)"
  shows "\<exists>ps. read_chunks point query (\<lambda>_. None) k cs out = Some (Inr (out @ ps))
    \<and> mset ps = mset (List.map_filter envelope_point (movements (concat cs) envs))"
  using assms
proof (induction cs arbitrary: k out)
  case Nil
  then show ?case by (simp add: movements_def)
next
  case (Cons c cs)
  let ?vs = "movements c envs"
  have m: "mset (movements (concat (c # cs)) envs) = mset (movements c envs) + mset (movements (concat cs) envs)"
    using Cons.prems(3) by (induction envs) (auto simp: movements_def)
  have sub: "set (movements c envs) \<subseteq> set (movements (concat (c # cs)) envs)"
    "set (movements (concat cs) envs) \<subseteq> set (movements (concat (c # cs)) envs)"
    by (auto simp: movements_def)
  define g where "g = (\<lambda>r. the (point r))"
  have rows: "set (query c) = row ` set ?vs" by (rule image_mset_set) (use Cons.prems(1) in simp)
  have "all_or_panic (map point (query c)) = Some (map g (query c))"
    using rows sub Cons.prems(2) by (intro all_or_panic_map) (auto simp: g_def)
  moreover obtain ps where ps: "read_chunks point query (\<lambda>_. None) (Suc k) cs (out @ List.map_filter id (map g (query c)))
      = Some (Inr ((out @ List.map_filter id (map g (query c))) @ ps))"
    "mset ps = mset (List.map_filter envelope_point (movements (concat cs) envs))"
    using Cons.IH [of "Suc k" "out @ List.map_filter id (map g (query c))"] Cons.prems sub by fastforce
  moreover have "mset (List.map_filter id (map g (query c))) = mset (List.map_filter envelope_point ?vs)"
  proof -
    have "image_mset g (mset (query c)) = image_mset envelope_point (mset ?vs)"
      using Cons.prems(1) [of c] sub Cons.prems(2)
      by (auto simp: g_def image_mset.compositionality comp_def intro!: image_mset_cong)
    then have "mset (map g (query c)) = mset (map envelope_point ?vs)" by simp
    then have "mset (map the (filter (\<lambda>x. x \<noteq> None) (map g (query c)))) = mset (map the (filter (\<lambda>x. x \<noteq> None) (map envelope_point ?vs)))"
      by (metis mset_filter mset_map)
    then show ?thesis by (simp add: map_filter_def filter_map comp_def)
  qed
  ultimately show ?case using m by (intro exI [of _ "List.map_filter id (map g (query c)) @ ps"]) (simp add: map_filter_def)
qed

lemma load_raw_points:
  assumes "0 < n" and "distinct ids" and "distinct (map env_id (movements ids envs))"
    and "\<And>chunk. mset (query chunk) = image_mset row (mset (movements chunk envs))"
    and "\<And>e. e \<in> set (movements ids envs) \<Longrightarrow> point (row e) = Some (envelope_point e)"
  shows "load_raw n point query (\<lambda>_. None) (Some \<lparr> ptr_table = table, ptr_ids = ids \<rparr>) = Some (Inr (path_points ids envs))"
proof (cases "ids = []")
  case True
  then show ?thesis by (simp add: load_raw_def path_points_def movements_def map_filter_def)
next
  case False
  have "\<exists>ps. read_chunks point query (\<lambda>_. None) 0 (chunks n ids) [] = Some (Inr ([] @ ps))
      \<and> mset ps = mset (List.map_filter envelope_point (movements (concat (chunks n ids)) envs))"
  proof (rule read_chunks_points)
    show "mset (query chunk) = image_mset row (mset (movements chunk envs))" for chunk by (rule assms(4))
    show "point (row e) = Some (envelope_point e)" if "e \<in> set (movements (concat (chunks n ids)) envs)" for e
      using that unfolding concat_chunks [OF assms(1)] by (rule assms(5))
    show "distinct (concat (chunks n ids))" unfolding concat_chunks [OF assms(1)] by (rule assms(2))
  qed
  then obtain ps where ps: "read_chunks point query (\<lambda>_. None) 0 (chunks n ids) [] = Some (Inr ([] @ ps))"
    "mset ps = mset (List.map_filter envelope_point (movements ids envs))"
    unfolding concat_chunks [OF assms(1)] by (elim exE conjE)
  have one: "e = e'" if "e \<in> set (movements ids envs)" "e' \<in> set (movements ids envs)"
      "envelope_point e = Some p" "envelope_point e' = Some q" "rm_id p = rm_id q" for e e' p q
  proof -
    have "rm_id p = env_id e" "rm_id q = env_id e'"
      using that(3,4) by (auto simp: envelope_point_def movement_point_def split: event_payload.splits if_splits)
    then show ?thesis using that(1,2,5) assms(3) by (auto simp: distinct_map inj_on_def)
  qed
  have "inj_on (\<lambda>p. (rm_ts p, rm_id p)) (set ps)"
  proof (rule inj_onI)
    fix p q
    assume "p \<in> set ps" "q \<in> set ps" and k: "(rm_ts p, rm_id p) = (rm_ts q, rm_id q)"
    then have "p \<in> set (List.map_filter envelope_point (movements ids envs))"
      and "q \<in> set (List.map_filter envelope_point (movements ids envs))"
      using mset_eq_setD [OF ps(2)] by simp_all
    then obtain e e' where "e \<in> set (movements ids envs)" "envelope_point e = Some p"
      "e' \<in> set (movements ids envs)" "envelope_point e' = Some q" by (auto simp: map_filter_def)
    then show "p = q" using one k by fastforce
  qed
  from sort_key_unique [OF ps(2) this] show ?thesis
    using False ps(1) by (simp add: load_raw_def path_points_def)
qed

lemma mouse_rows_of_stored:
  assumes "\<And>e. ew_event_id (row e) = Some (sint (env_id e))" and "\<And>e. ew_kind (row e) = kind_label (env_kind e)"
  shows "mset (mouse_rows_of it (map row envs) chunk) = image_mset row (mset (movements chunk envs))"
proof -
  have k: "kind_label k = ''signal:mouse'' \<longleftrightarrow> k = Signal MouseInput" for k
    using kind_label_inj [of k "Signal MouseInput"] by simp
  have i: "Some (sint (env_id e)) \<in> set (map (\<lambda>i. Some (sint i)) chunk) \<longleftrightarrow> env_id e \<in> set chunk" for e
    by (auto dest: signed_word_eqI)
  have "filter (\<lambda>r. ew_kind r = ''signal:mouse'' \<and> ew_event_id r \<in> set (map (\<lambda>i. Some (sint i)) chunk)) (map row envs)
      = map row (movements chunk envs)"
    unfolding filter_map movements_def comp_def assms k i ..
  then show ?thesis by (simp add: mouse_rows_of_def)
qed

text \<open>What a stored movement must be for the benchmark to read it.\<close>

definition movement_readable :: "'f codec \<Rightarrow> event_envelope \<Rightarrow> bool" where
  "movement_readable C e \<longleftrightarrow> co_time_of C (co_time C (env_timestamp e)) = Inr (env_timestamp e)
     \<and> co_stamp C (env_timestamp e) = env_timestamp e
     \<and> (case env_payload e of PMouse m \<Rightarrow> js_mouse_of C (js_mouse C m) = Some m | _ \<Rightarrow> False)"

lemma stored_point:
  assumes "movement_readable C e"
  shows "sqlite_point C (envelope_row_of C e) = Some (envelope_point e)"
    and "duck_point C (duck_envelope_row C e) = Some (envelope_point e)"
  using assms
  by (auto simp: movement_readable_def sqlite_point_def duck_point_def envelope_row_of_def duck_envelope_row_def
      row_mouse_data_def row_id_def envelope_point_def split: event_payload.splits)

text \<open>
  C33: The benchmark reads the path a trajectory was made of.  Whichever back end stored the envelopes,
  the points it gets for a compact event's pointer are those of the moves and drags with these ids, in
  the order of their times and ids, although it asks for the ids in pieces of 500 or of 900.
\<close>
theorem bench_rereads_path:
  assumes "db_envelopes db = map (envelope_row_of C) envs" and "db_envelopes ddb = map (duck_envelope_row C) envs"
    and "distinct ids" and "distinct (map env_id (movements ids envs))" and "list_all (movement_readable C) (movements ids envs)"
  shows "sqlite_load_raw_mouse C it (\<lambda>_. None) db (Some \<lparr> ptr_table = table, ptr_ids = ids \<rparr>) = Some (Inr (path_points ids envs))
    \<and> duck_load_raw_mouse C dit (\<lambda>_. None) ddb (Some \<lparr> ptr_table = table, ptr_ids = ids \<rparr>) = Some (Inr (path_points ids envs))"
proof
  have r: "movement_readable C e" if "e \<in> set (movements ids envs)" for e using assms(5) that by (simp add: list_all_iff)
  show "sqlite_load_raw_mouse C it (\<lambda>_. None) db (Some \<lparr> ptr_table = table, ptr_ids = ids \<rparr>) = Some (Inr (path_points ids envs))"
    unfolding sqlite_load_raw_mouse_def assms(1)
    by (rule load_raw_points [where row = "envelope_row_of C", OF _ assms(3,4) mouse_rows_of_stored])
      (simp_all add: r stored_point, simp_all add: envelope_row_of_def)
  show "duck_load_raw_mouse C dit (\<lambda>_. None) ddb (Some \<lparr> ptr_table = table, ptr_ids = ids \<rparr>) = Some (Inr (path_points ids envs))"
    unfolding duck_load_raw_mouse_def assms(2)
    by (rule load_raw_points [where row = "duck_envelope_row C", OF _ assms(3,4) mouse_rows_of_stored])
      (simp_all add: r stored_point, simp_all add: duck_envelope_row_def)
qed

text \<open>A codec that keeps the horizontal position of a move.\<close>

definition moves_codec :: "int codec" where
  "moves_codec = demo_codec\<lparr> js_mouse := (\<lambda>m. replicate (unat (pos_x (mouse_pos m))) CHR ''x''),
     js_mouse_of := (\<lambda>s. Some (no_mouse_data\<lparr> mouse_pos := \<lparr> pos_x = of_nat (length s), pos_y = 0 \<rparr>, mouse_event_type := Some Moved \<rparr>)) \<rparr>"

definition demo_movement :: "u64 \<Rightarrow> instant \<Rightarrow> i32 \<Rightarrow> event_envelope" where
  "demo_movement i t x = \<lparr> env_id = i, env_timestamp = t, env_source = Hook, env_kind = Signal MouseInput,
     env_payload = PMouse (no_mouse_data\<lparr> mouse_pos := \<lparr> pos_x = x, pos_y = 0 \<rparr>, mouse_event_type := Some Moved \<rparr>),
     env_derived = False, env_polling = False, env_sensitive = False \<rparr>"

theorem bench_rereads_path_witness:
  "let envs = [demo_movement 3 9 30, demo_movement 1 5 10, demo_movement 2 7 20, demo_movement 8 6 15] in
   map_option (map_sum id (map (pos_x \<circ> rm_pos)))
     (sqlite_load_raw_mouse moves_codec rev (\<lambda>_. None) (db_empty\<lparr> db_envelopes := map (envelope_row_of moves_codec) envs \<rparr>)
       (Some \<lparr> ptr_table = DEFAULT_RAW_EVENT_TABLE, ptr_ids = [1, 2, 3] \<rparr>)) = Some (Inr [10, 20, 30])"
proof -
  let ?envs = "[demo_movement 3 9 30, demo_movement 1 5 10, demo_movement 2 7 20, demo_movement 8 6 15]"
  let ?kept = "[demo_movement 3 9 30, demo_movement 1 5 10, demo_movement 2 7 20]"
  have k: "movements [1, 2, 3] ?envs = ?kept" by (simp add: movements_def demo_movement_def)
  have "list_all (movement_readable moves_codec) ?kept" "distinct (map env_id ?kept)"
    by (simp_all add: movement_readable_def demo_movement_def moves_codec_def demo_codec_def)
  then have "sqlite_load_raw_mouse moves_codec rev (\<lambda>_. None) (db_empty\<lparr> db_envelopes := map (envelope_row_of moves_codec) ?envs \<rparr>)
      (Some \<lparr> ptr_table = DEFAULT_RAW_EVENT_TABLE, ptr_ids = [1, 2, 3] \<rparr>) = Some (Inr (path_points [1, 2, 3] ?envs))"
    using bench_rereads_path [of _ moves_codec ?envs "db_empty\<lparr> db_envelopes := map (duck_envelope_row moves_codec) ?envs \<rparr>" "[1, 2, 3]" rev
        DEFAULT_RAW_EVENT_TABLE rev] by (simp add: k)
  moreover have "map (pos_x \<circ> rm_pos) (path_points [1, 2, 3] ?envs) = [10, 20, 30]"
    unfolding path_points_def k by (simp add: map_filter_def envelope_point_def demo_movement_def movement_point_def)
  ultimately show ?thesis by simp
qed

text \<open>Unless indices are given, what is selected is there.\<close>

lemma bench_selected_bound:
  assumes "bc_indices cli = None" and "0 < n" and "i \<in> set (bench_selected cli n)"
  shows "i < n"
proof -
  have "set (parse_range r n) \<subseteq> {..<n}" for r
    using assms(2) by (auto simp: parse_range_def Let_def split: list.splits)
  then have "set (case bc_range cli of Some r \<Rightarrow> parse_range r n | None \<Rightarrow> let k = min (bc_last cli) n in [n - k..<n]) \<subseteq> {..<n}"
    by (auto simp: Let_def split: option.split)
  with assms(1,3) show ?thesis
    by (auto simp: bench_selected_def Let_def split: option.splits if_splits dest: in_set_dropD)
qed

end
