(* ===== verification/Logging.thy ===== *)
theory Logging
  imports Kronical_Prelude
begin

text \<open>
  The log lines of the daemon, src/util/logging.rs: every line carries the id of the run, which is kept in a cell
  that can be set once.  Which levels are enabled is the logger's, a parameter; so is all it does with a line.
\<close>

section \<open>The cell and the lines\<close>

datatype log_level = Error_Level | Warn_Level | Info_Level | Debug_Level | Trace_Level

type_synonym run_cell = "string option"

definition set_run_id :: "string \<Rightarrow> run_cell \<Rightarrow> run_cell" where
  "set_run_id run_id cell = (case cell of None \<Rightarrow> Some run_id | Some r \<Rightarrow> Some r)"

definition current_run_id :: "run_cell \<Rightarrow> string option" where
  "current_run_id cell = cell"

definition log_with_run_id :: "(log_level \<Rightarrow> bool) \<Rightarrow> run_cell \<Rightarrow> log_level \<Rightarrow> string \<Rightarrow> (log_level \<times> string) list" where
  "log_with_run_id enabled cell level msg =
     (if enabled level
      then (case current_run_id cell of
          Some run \<Rightarrow> [(level, ''['' @ run @ ''] '' @ msg)]
        | None \<Rightarrow> [(level, ''[-] '' @ msg)])
      else [])"

text \<open>The macros, each with its level.\<close>

definition log_error where "log_error enabled cell msg = log_with_run_id enabled cell Error_Level msg"
definition log_warn where "log_warn enabled cell msg = log_with_run_id enabled cell Warn_Level msg"
definition log_info where "log_info enabled cell msg = log_with_run_id enabled cell Info_Level msg"
definition log_debug where "log_debug enabled cell msg = log_with_run_id enabled cell Debug_Level msg"
definition log_trace where "log_trace enabled cell msg = log_with_run_id enabled cell Trace_Level msg"

text \<open>What a process does with it: it sets the id, or logs a message with one of the macros.\<close>

datatype log_call = Set_Run string | Log log_level string

fun log_macro :: "(log_level \<Rightarrow> bool) \<Rightarrow> run_cell \<Rightarrow> log_level \<Rightarrow> string \<Rightarrow> (log_level \<times> string) list" where
  "log_macro enabled cell Error_Level msg = log_error enabled cell msg"
| "log_macro enabled cell Warn_Level msg = log_warn enabled cell msg"
| "log_macro enabled cell Info_Level msg = log_info enabled cell msg"
| "log_macro enabled cell Debug_Level msg = log_debug enabled cell msg"
| "log_macro enabled cell Trace_Level msg = log_trace enabled cell msg"

fun log_run :: "(log_level \<Rightarrow> bool) \<Rightarrow> run_cell \<Rightarrow> log_call list \<Rightarrow> (log_level \<times> string) list" where
  "log_run enabled cell [] = []"
| "log_run enabled cell (Set_Run r # calls) = log_run enabled (set_run_id r cell) calls"
| "log_run enabled cell (Log level msg # calls) = log_macro enabled cell level msg @ log_run enabled cell calls"

text \<open>
  How the focus worker writes titles into its lines (\<open>escape_log_value\<close>, src/daemon/tracker/focus.rs): line ends
  and tabs as a backslash, which is 0x5C, and a letter.
\<close>

definition escape_char :: "char \<Rightarrow> string" where
  "escape_char ch = (if ch = CHR 0x0A then [CHR 0x5C, CHR ''n''] else if ch = CHR 0x0D then [CHR 0x5C, CHR ''r'']
     else if ch = CHR 0x09 then [CHR 0x5C, CHR ''t''] else [ch])"

definition escape_log_value :: "string \<Rightarrow> string" where
  "escape_log_value v =
     (if CHR 0x0A \<notin> set v \<and> CHR 0x0D \<notin> set v \<and> CHR 0x09 \<notin> set v then v else concat (map escape_char v))"

section \<open>Specification\<close>

fun messages :: "(log_level \<Rightarrow> bool) \<Rightarrow> log_call list \<Rightarrow> (log_level \<times> string) list" where
  "messages enabled [] = []"
| "messages enabled (Set_Run r # calls) = messages enabled calls"
| "messages enabled (Log level msg # calls) = (if enabled level then [(level, msg)] else []) @ messages enabled calls"

definition tagged :: "string \<Rightarrow> log_level \<times> string \<Rightarrow> log_level \<times> string" where
  "tagged tag = (\<lambda>(level, msg). (level, ''['' @ tag @ ''] '' @ msg))"

section \<open>Lemmas\<close>

lemma log_macro_eq: "log_macro enabled cell level msg = log_with_run_id enabled cell level msg"
  by (cases level) (simp_all add: log_error_def log_warn_def log_info_def log_debug_def log_trace_def)

lemma log_run_tagged: "log_run enabled (Some r) calls = map (tagged r) (messages enabled calls)"
  by (induction enabled calls rule: messages.induct)
    (simp_all add: set_run_id_def log_macro_eq log_with_run_id_def current_run_id_def tagged_def)

lemma log_run_untagged:
  "list_all (\<lambda>c. case c of Set_Run _ \<Rightarrow> False | Log _ _ \<Rightarrow> True) before \<Longrightarrow>
     log_run enabled None (before @ calls) = map (tagged ''-'') (messages enabled before) @ log_run enabled None calls"
  by (induction enabled before rule: messages.induct) (simp_all add: log_macro_eq log_with_run_id_def current_run_id_def tagged_def)

text \<open>An escaped value stays on its line; a value that needs no escape is written as it is.\<close>

lemma escaped_on_one_line:
  "set (escape_log_value v) \<inter> {CHR 0x0A, CHR 0x0D, CHR 0x09} = {}"
  by (auto simp: escape_log_value_def escape_char_def split: if_splits)

lemma escape_plain: "escape_log_value v = concat (map escape_char v)"
proof (cases "CHR 0x0A \<in> set v \<or> CHR 0x0D \<in> set v \<or> CHR 0x09 \<in> set v")
  case False
  have "c \<in> set v \<longrightarrow> escape_char c = [c]" for c using False by (auto simp: escape_char_def)
  then have "concat (map escape_char v) = concat (map (\<lambda>c. [c]) v)" by (metis map_eq_conv)
  then show ?thesis using False by (simp add: escape_log_value_def)
qed (auto simp: escape_log_value_def)

section \<open>The property\<close>

text \<open>
  Log lines name the run.  Every enabled message is one line of its level, in the order of the calls; the lines
  before the first setting of the id are marked with a dash, and all later ones with that first id,
  whatever is set afterwards.
\<close>
theorem log_lines_name_run:
  assumes "list_all (\<lambda>c. case c of Set_Run _ \<Rightarrow> False | Log _ _ \<Rightarrow> True) before"
  shows "log_run enabled None (before @ Set_Run r # after)
    = map (tagged ''-'') (messages enabled before) @ map (tagged r) (messages enabled after)"
  using log_run_untagged [OF assms, of enabled "Set_Run r # after"] by (simp add: set_run_id_def log_run_tagged)

theorem log_lines_name_run_witness:
  "log_run (\<lambda>l. l \<noteq> Trace_Level) None [Log Warn_Level ''early'', Set_Run ''A'', Log Trace_Level ''detail'', Set_Run ''B'', Log Info_Level ''up'']
     = [(Warn_Level, ''[-] early''), (Info_Level, ''[A] up'')]"
  using log_lines_name_run [of "[Log Warn_Level ''early'']" "\<lambda>l. l \<noteq> Trace_Level" "''A''"
      "[Log Trace_Level ''detail'', Set_Run ''B'', Log Info_Level ''up'']"]
  by (simp add: tagged_def)

end
