(* ===== verification/Kronictl_Main.thy ===== *)
theory Kronictl_Main
  imports Daemon_Control Logging
begin

text \<open>
  kronictl from its command line to its exit code, src/bin/kronictl.rs: \<open>main\<close>, and the commands for the tracker,
  which is switched off.  The other commands are modelled elsewhere (\<open>Daemon_Control\<close>, \<open>Snapshot_Text\<close>,
  \<open>Monitor_Loop\<close>, \<open>Log_Cli\<close>); which of them is called with what is a value here, a call, and what it
  results in is a parameter.  clap's parsing is left out.
\<close>

section \<open>Commands\<close>

datatype tracker_action = Tracker_Show "nat option" bool | Tracker_Status

datatype command =
    Cmd_Start "string option"
  | Cmd_Stop
  | Cmd_Restart "string option"
  | Cmd_Status
  | Cmd_Snapshot bool
  | Cmd_Watch bool
  | Cmd_Monitor
  | Cmd_Log string
  | Cmd_Tracker tracker_action

text \<open>The functions \<open>main\<close> calls, with the arguments that come from the command line.\<close>

datatype call =
    Start_Daemon "string option"
  | Stop_Daemon
  | Restart_Daemon "string option"
  | Get_Status
  | Snapshot_Autoselect bool
  | Watch_Via_Http bool
  | Monitor_Realtime
  | Log_Execute string
  | Show_Tracker "nat option" bool
  | Report_Tracker

definition setup_level :: "nat \<Rightarrow> log_level" where
  "setup_level verbose = (if verbose = 0 then Warn_Level else if verbose = 1 then Info_Level
     else if verbose = 2 then Debug_Level else Trace_Level)"

text \<open>The directory is made unless it is there; \<open>fail\<close> is the error of making it.\<close>

definition ensure_workspace_dir :: "bool \<Rightarrow> string option \<Rightarrow> string + bool" where
  "ensure_workspace_dir dir_there fail =
     (if \<not> dir_there then (case fail of Some e \<Rightarrow> Inl ''Failed to create workspace directory'' | None \<Rightarrow> Inr True)
      else Inr True)"

fun command_call :: "base64 \<Rightarrow> command \<Rightarrow> string + call" where
  "command_call B (Cmd_Start run) = (case cli_run_id B run of Inl e \<Rightarrow> Inl (''Invalid run id: '' @ e) | Inr i \<Rightarrow> Inr (Start_Daemon i))"
| "command_call B Cmd_Stop = Inr Stop_Daemon"
| "command_call B (Cmd_Restart run) = (case cli_run_id B run of Inl e \<Rightarrow> Inl (''Invalid run id: '' @ e) | Inr i \<Rightarrow> Inr (Restart_Daemon i))"
| "command_call B Cmd_Status = Inr Get_Status"
| "command_call B (Cmd_Snapshot pretty) = Inr (Snapshot_Autoselect pretty)"
| "command_call B (Cmd_Watch pretty) = Inr (Watch_Via_Http pretty)"
| "command_call B Cmd_Monitor = Inr Monitor_Realtime"
| "command_call B (Cmd_Log action) = Inr (Log_Execute action)"
| "command_call B (Cmd_Tracker (Tracker_Show rows watch)) = Inr (Show_Tracker rows watch)"
| "command_call B (Cmd_Tracker Tracker_Status) = Inr Report_Tracker"

text \<open>What the run of kronictl does: the calls it makes, the error it logs, its exit code.\<close>

record cli_outcome =
  co_calls :: "call list"
  co_error :: "string option"
  co_exit :: nat

definition exit_with :: "call list \<Rightarrow> string \<Rightarrow> cli_outcome" where
  "exit_with calls e = \<lparr> co_calls = calls, co_error = Some e, co_exit = 1 \<rparr>"

definition kronictl_main ::
  "base64 \<Rightarrow> (string + 'c) \<Rightarrow> bool \<Rightarrow> string option \<Rightarrow> (call \<Rightarrow> string option) \<Rightarrow> command \<Rightarrow> cli_outcome" where
  "kronictl_main B config dir_there mkdir_fail result cmd = (case config of
      Inl e \<Rightarrow> exit_with [] (''Failed to load configuration: '' @ e)
    | Inr c \<Rightarrow> (case ensure_workspace_dir dir_there mkdir_fail of
        Inl e \<Rightarrow> exit_with [] (''Failed to create workspace directory: '' @ e)
      | Inr _ \<Rightarrow> (case command_call B cmd of
          Inl e \<Rightarrow> exit_with [] e
        | Inr call \<Rightarrow> (case result call of
            Some e \<Rightarrow> exit_with [call] (''Error: '' @ e)
          | None \<Rightarrow> \<lparr> co_calls = [call], co_error = None, co_exit = 0 \<rparr>))))"

section \<open>The tracker commands\<close>

text \<open>The file \<open>tracker.pid\<close> of earlier versions; the line under the heading is twenty times U+2550.\<close>

definition tracker_status_lines :: "string list" where
  "tracker_status_lines =
     [''System Tracker Status'', concat (replicate 20 [CHR 0xE2, CHR 0x95, CHR 0x90]), ''Status: DISABLED'',
      ''Reason: tracker runtime is intentionally disabled to avoid adding memory and CPU noise'']"

definition cleanup_stale_tracker_pid :: "bool \<Rightarrow> bool \<Rightarrow> bool \<times> string list" where
  "cleanup_stale_tracker_pid pid_there remove_fails =
     (if pid_there then (remove_fails, [''Removing stale tracker.pid file (tracker is now part of daemon)'']) else (False, []))"

definition tracker_show :: "bool \<Rightarrow> bool \<Rightarrow> nat option \<Rightarrow> bool \<Rightarrow> bool \<times> string list" where
  "tracker_show pid_there remove_fails rows watch =
     (let (pid_there', printed) = cleanup_stale_tracker_pid pid_there remove_fails
      in (pid_there', printed @ [''System tracker output is unavailable.'',
            ''Reason: tracker runtime is intentionally disabled to avoid adding memory and CPU noise.'']))"

section \<open>Properties\<close>

text \<open>
  kronictl ends well exactly if the configuration loads, the workspace is there or made, a run id that is given is
  one, and the command it calls succeeds; it calls at most one, the one of the command line, and none before these
  checks.
\<close>
theorem kronictl_exit_code:
  "(co_exit (kronictl_main B config dir_there mkdir_fail result cmd) = 0 \<longleftrightarrow>
      \<not> isl config \<and> (dir_there \<or> mkdir_fail = None) \<and> (\<exists>c. command_call B cmd = Inr c \<and> result c = None))
   \<and> length (co_calls (kronictl_main B config dir_there mkdir_fail result cmd)) \<le> 1
   \<and> list_all (\<lambda>c. command_call B cmd = Inr c) (co_calls (kronictl_main B config dir_there mkdir_fail result cmd))"
  by (auto simp: kronictl_main_def exit_with_def ensure_workspace_dir_def split: sum.split option.split)

end
