(* ===== verification/Storage_Schema.thy ===== *)
theory Storage_Schema
  imports Kronical_Prelude
begin

text \<open>
  How the back ends open their databases, crates/storage/src/sqlite3.rs and duckdb.rs: \<open>new\<close>, with the tables
  \<open>init_db\<close> makes and the columns it adds to databases of earlier versions, up to the start of the writer.

  A schema is what SQL keeps of it: the tables with their columns, and the indexes.  Errors of the engine and of
  the operating system are parameters, and so is whether a table can be altered.
\<close>

section \<open>Statements\<close>

record schema =
  sc_tables :: "(string \<times> string list) list"
  sc_indexes :: "string list"

datatype statement =
    Create_Table string "string list"
  | Create_Index string string string
  | Add_Column string string

definition columns :: "schema \<Rightarrow> string \<Rightarrow> string list" where
  "columns s t = (case map_of (sc_tables s) t of None \<Rightarrow> [] | Some cs \<Rightarrow> cs)"

text \<open>\<open>CREATE \<dots> IF NOT EXISTS\<close> and \<open>ALTER TABLE \<dots> ADD COLUMN\<close>; \<open>None\<close> is an error.\<close>

fun execute :: "(string \<Rightarrow> schema \<Rightarrow> bool) \<Rightarrow> statement \<Rightarrow> schema \<Rightarrow> schema option" where
  "execute alterable (Create_Table t cs) s =
     (if t \<in> fst ` set (sc_tables s) then Some s else Some (s\<lparr> sc_tables := sc_tables s @ [(t, cs)] \<rparr>))"
| "execute alterable (Create_Index i t c) s =
     (if i \<in> set (sc_indexes s) then Some s
      else if c \<in> set (columns s t) then Some (s\<lparr> sc_indexes := sc_indexes s @ [i] \<rparr>) else None)"
| "execute alterable (Add_Column t c) s =
     (if t \<in> fst ` set (sc_tables s) \<and> c \<notin> set (columns s t) \<and> alterable t s
      then Some (s\<lparr> sc_tables := map (\<lambda>(t', cs). (t', if t' = t then cs @ [c] else cs)) (sc_tables s) \<rparr>) else None)"

text \<open>\<open>execute_batch\<close> ends at the first error; \<open>fault i\<close> is an error of statement \<open>i\<close> beside those of SQL.\<close>

fun execute_batch ::
  "(string \<Rightarrow> schema \<Rightarrow> bool) \<Rightarrow> (nat \<Rightarrow> bool) \<Rightarrow> nat \<Rightarrow> statement list \<Rightarrow> schema \<Rightarrow> schema \<times> bool" where
  "execute_batch alterable fault i [] s = (s, True)"
| "execute_batch alterable fault i (st # sts) s =
     (if fault i then (s, False)
      else (case execute alterable st s of None \<Rightarrow> (s, False) | Some s' \<Rightarrow> execute_batch alterable fault (Suc i) sts s'))"

definition execute_ignoring :: "(string \<Rightarrow> schema \<Rightarrow> bool) \<Rightarrow> statement \<Rightarrow> schema \<Rightarrow> schema" where
  "execute_ignoring alterable st s = (case execute alterable st s of None \<Rightarrow> s | Some s' \<Rightarrow> s')"

section \<open>The tables\<close>

definition sqlite_create :: "statement list" where
  "sqlite_create =
     [Create_Table ''raw_events'' [''id'', ''timestamp'', ''event_type'', ''data''],
      Create_Index ''idx_raw_events_timestamp'' ''raw_events'' ''timestamp'',
      Create_Table ''raw_envelopes'' [''id'', ''event_id'', ''timestamp'', ''source'', ''kind'', ''payload'', ''derived'', ''polling'', ''sensitive''],
      Create_Index ''idx_raw_envelopes_timestamp'' ''raw_envelopes'' ''timestamp'',
      Create_Table ''activity_records'' [''id'', ''record_id'', ''start_time'', ''end_time'', ''state'', ''focus_info'', ''run_id''],
      Create_Table ''compact_events'' [''start_time'', ''end_time'', ''kind'', ''payload'', ''raw_event_ref''],
      Create_Index ''idx_compact_events_start_time'' ''compact_events'' ''start_time'',
      Create_Index ''idx_activity_records_start_time'' ''activity_records'' ''start_time'',
      Create_Table ''recent_transitions'' [''id'', ''at'', ''from_state'', ''to_state'', ''by_signal'', ''run_id''],
      Create_Index ''idx_recent_transitions_at'' ''recent_transitions'' ''at'']"

definition duck_create :: "statement list" where
  "duck_create =
     [Create_Table ''raw_events'' [''id'', ''timestamp'', ''event_type'', ''data''],
      Create_Index ''idx_raw_events_timestamp'' ''raw_events'' ''timestamp'',
      Create_Table ''raw_envelopes'' [''id'', ''event_id'', ''timestamp'', ''source'', ''kind'', ''payload'', ''derived'', ''polling'', ''sensitive''],
      Create_Index ''idx_raw_envelopes_timestamp'' ''raw_envelopes'' ''timestamp'',
      Create_Table ''activity_records'' [''id'', ''record_id'', ''start_time'', ''end_time'', ''state'', ''focus_info'', ''run_id''],
      Create_Table ''compact_events'' [''start_time'', ''end_time'', ''kind'', ''payload'', ''raw_event_ref''],
      Create_Index ''idx_compact_events_start_time'' ''compact_events'' ''start_time'',
      Create_Index ''idx_activity_records_start_time'' ''activity_records'' ''start_time'',
      Create_Table ''recent_transitions'' [''at'', ''from_state'', ''to_state'', ''by_signal'', ''run_id''],
      Create_Index ''idx_recent_transitions_at'' ''recent_transitions'' ''at'']"

definition added_columns :: "statement list" where
  "added_columns = [Add_Column ''recent_transitions'' ''run_id'', Add_Column ''activity_records'' ''run_id'',
     Add_Column ''activity_records'' ''record_id'']"

text \<open>The first three faults of SQLite are those of its pragmas.  The result says whether it succeeded.\<close>

definition sqlite_init_db :: "(string \<Rightarrow> schema \<Rightarrow> bool) \<Rightarrow> (nat \<Rightarrow> bool) \<Rightarrow> schema \<Rightarrow> schema \<times> bool" where
  "sqlite_init_db alterable fault s =
     (if fault 0 \<or> fault 1 \<or> fault 2 then (s, False)
      else (case execute_batch alterable fault 3 sqlite_create s of
          (s', False) \<Rightarrow> (s', False)
        | (s', True) \<Rightarrow> (fold (execute_ignoring alterable) added_columns s', True)))"

definition duck_init_db :: "(string \<Rightarrow> schema \<Rightarrow> bool) \<Rightarrow> (nat \<Rightarrow> bool) \<Rightarrow> schema \<Rightarrow> schema \<times> bool" where
  "duck_init_db alterable fault s = (case execute_batch alterable fault 0 duck_create s of
      (s', False) \<Rightarrow> (s', False)
    | (s', True) \<Rightarrow> (fold (execute_ignoring alterable) added_columns s', True))"

section \<open>Opening\<close>

text \<open>
  The steps of \<open>new\<close> up to the writer's thread, each of which may fail; \<open>limit\<close> tells \<open>new_with_limit\<close>, whose
  pragmas may fail unnoticed, and is what the handle keeps.  The result: the schema of the database that is left, and
  the handle's limit if there is a handle.
\<close>

record open_faults =
  of_create_dir :: bool
  of_open :: bool
  of_init :: "nat \<Rightarrow> bool"
  of_spawn :: bool

definition open_backend :: "open_faults \<Rightarrow> ((nat \<Rightarrow> bool) \<Rightarrow> schema \<Rightarrow> schema \<times> bool) \<Rightarrow> 'l \<Rightarrow> schema \<Rightarrow> schema \<times> 'l option" where
  "open_backend faults init limit s =
     (if of_create_dir faults \<or> of_open faults then (s, None)
      else (case init (of_init faults) s of
          (s', False) \<Rightarrow> (s', None)
        | (s', True) \<Rightarrow> (s', if of_spawn faults then None else Some limit)))"

definition sqlite_new :: "(string \<Rightarrow> schema \<Rightarrow> bool) \<Rightarrow> open_faults \<Rightarrow> schema \<Rightarrow> schema \<times> unit option" where
  "sqlite_new alterable faults = open_backend faults (sqlite_init_db alterable) ()"

definition duck_new :: "(string \<Rightarrow> schema \<Rightarrow> bool) \<Rightarrow> open_faults \<Rightarrow> schema \<Rightarrow> schema \<times> u64 option option" where
  "duck_new alterable faults = open_backend faults (duck_init_db alterable) None"

definition duck_new_with_limit :: "(string \<Rightarrow> schema \<Rightarrow> bool) \<Rightarrow> open_faults \<Rightarrow> u64 \<Rightarrow> schema \<Rightarrow> schema \<times> u64 option option" where
  "duck_new_with_limit alterable faults limit_mb = open_backend faults (duck_init_db alterable) (Some limit_mb)"

section \<open>Specification\<close>

text \<open>The columns the statements of the writers and of the queries name.\<close>

definition used_columns :: "(string \<times> string list) list" where
  "used_columns =
     [(''raw_events'', [''timestamp'', ''event_type'', ''data'']),
      (''raw_envelopes'', [''event_id'', ''timestamp'', ''source'', ''kind'', ''payload'', ''derived'', ''polling'', ''sensitive'']),
      (''activity_records'', [''id'', ''record_id'', ''start_time'', ''end_time'', ''state'', ''focus_info'', ''run_id'']),
      (''compact_events'', [''start_time'', ''end_time'', ''kind'', ''payload'', ''raw_event_ref'']),
      (''recent_transitions'', [''at'', ''from_state'', ''to_state'', ''by_signal'', ''run_id''])]"

definition complete_table :: "schema \<Rightarrow> string \<times> string list \<Rightarrow> bool" where
  "complete_table s tc \<longleftrightarrow> fst tc \<in> fst ` set (sc_tables s) \<and> set (snd tc) \<subseteq> set (columns s (fst tc))"

definition complete :: "schema \<Rightarrow> bool" where
  "complete s \<longleftrightarrow> list_all (complete_table s) used_columns"

text \<open>
  The columns that databases of earlier versions lack, by the repository's history: the run of a transition and of a
  record, and the record's number.  A database of an earlier version may have any of the tables, each with every column
  it always had, and with some, all or none of these.
\<close>

definition late_columns :: "(string \<times> string) list" where
  "late_columns = [(''recent_transitions'', ''run_id''), (''activity_records'', ''run_id''), (''activity_records'', ''record_id'')]"

definition earlier_version :: "schema \<Rightarrow> bool" where
  "earlier_version s \<longleftrightarrow> distinct (map fst (sc_tables s)) \<and> list_all (\<lambda>(t, cs).
     t \<in> fst ` set (sc_tables s) \<longrightarrow> set (filter (\<lambda>c. (t, c) \<notin> set late_columns) cs) \<subseteq> set (columns s t)) used_columns"

text \<open>Nothing is lost.\<close>

definition extends_schema :: "schema \<Rightarrow> schema \<Rightarrow> bool" where
  "extends_schema s s' \<longleftrightarrow> fst ` set (sc_tables s) \<subseteq> fst ` set (sc_tables s') \<and> (\<forall>t. set (columns s t) \<subseteq> set (columns s' t))
     \<and> set (sc_indexes s) \<subseteq> set (sc_indexes s')"

section \<open>Lemmas\<close>

abbreviation tables :: "schema \<Rightarrow> string set" where
  "tables s \<equiv> fst ` set (sc_tables s)"

lemma extends_refl: "extends_schema s s"
  by (simp add: extends_schema_def)

lemma extends_trans: "extends_schema r s \<Longrightarrow> extends_schema s t \<Longrightarrow> extends_schema r t"
  unfolding extends_schema_def by (metis subset_trans)

lemma columns_absent:
  assumes "t \<notin> tables s"
  shows "columns s t = []"
proof -
  have "map_of (sc_tables s) t = None" using assms by (simp add: map_of_eq_None_iff)
  then show ?thesis by (simp add: columns_def)
qed

lemma map_of_keyed: "map_of (map (\<lambda>(k, v). (k, f k v)) xs) k = map_option (f k) (map_of xs k)"
  by (induction xs) auto

lemma columns_after:
  "t \<notin> tables s \<Longrightarrow> columns (s\<lparr> sc_tables := sc_tables s @ [(t, cs)] \<rparr>) u = (if u = t then cs else columns s u)"
  "t \<in> tables s \<Longrightarrow> columns (s\<lparr> sc_tables := map (\<lambda>(t', cs). (t', if t' = t then cs @ [c] else cs)) (sc_tables s) \<rparr>) u
     = (if u = t then columns s t @ [c] else columns s u)"
proof -
  assume "t \<notin> tables s"
  then have "map_of (sc_tables s) t = None" by (simp add: map_of_eq_None_iff)
  then show "columns (s\<lparr> sc_tables := sc_tables s @ [(t, cs)] \<rparr>) u = (if u = t then cs else columns s u)"
    by (auto simp: columns_def map_add_def split: option.split)
next
  assume "t \<in> tables s"
  then have "map_of (sc_tables s) t \<noteq> None" by (simp add: map_of_eq_None_iff)
  then show "columns (s\<lparr> sc_tables := map (\<lambda>(t', cs). (t', if t' = t then cs @ [c] else cs)) (sc_tables s) \<rparr>) u
      = (if u = t then columns s t @ [c] else columns s u)"
    by (auto simp: columns_def map_of_keyed split: option.split)
qed

lemma execute_extends: "execute a st s = Some s' \<Longrightarrow> extends_schema s s'"
proof (cases st)
  case (Create_Table t cs)
  assume e: "execute a st s = Some s'"
  show ?thesis
  proof (cases "t \<in> tables s")
    case False
    then have "s' = s\<lparr> sc_tables := sc_tables s @ [(t, cs)] \<rparr>" using e Create_Table by simp
    then show ?thesis using columns_after(1) [OF False] columns_absent [OF False] by (auto simp: extends_schema_def)
  qed (use e Create_Table in \<open>simp add: extends_refl\<close>)
next
  case (Create_Index i t c)
  assume "execute a st s = Some s'"
  then show ?thesis using Create_Index by (auto simp: extends_schema_def columns_def split: if_splits)
next
  case (Add_Column t c)
  assume "execute a st s = Some s'"
  then have t: "t \<in> tables s" and s': "s' = s\<lparr> sc_tables := map (\<lambda>(t', cs). (t', if t' = t then cs @ [c] else cs)) (sc_tables s) \<rparr>"
    using Add_Column by (auto split: if_splits)
  have "tables s' = tables s" by (force simp: s')
  then show ?thesis using columns_after(2) [OF t] by (auto simp: extends_schema_def s')
qed

text \<open>A schema whose tables have these columns at least.\<close>

definition has_columns :: "(string \<times> string list) list \<Rightarrow> schema \<Rightarrow> bool" where
  "has_columns req s \<longleftrightarrow> (\<forall>(t, cs) \<in> set req. t \<in> tables s \<longrightarrow> set cs \<subseteq> set (columns s t))"

definition lasting_columns :: "(string \<times> string list) list" where
  "lasting_columns = map (\<lambda>(t, cs). (t, filter (\<lambda>c. (t, c) \<notin> set late_columns) cs)) used_columns"

text \<open>In a batch every index comes behind its table, and every table is created with its columns.\<close>

fun ordered :: "string list \<Rightarrow> statement list \<Rightarrow> bool" where
  "ordered seen [] = True"
| "ordered seen (Create_Table t cs # sts) \<longleftrightarrow>
     list_all (\<lambda>(t', cs'). t' = t \<longrightarrow> set cs' \<subseteq> set cs) lasting_columns \<and> ordered (t # seen) sts"
| "ordered seen (Create_Index i t c # sts) \<longleftrightarrow>
     t \<in> set seen \<and> list_ex (\<lambda>(t', cs'). t' = t \<and> c \<in> set cs') lasting_columns \<and> ordered seen sts"
| "ordered seen (Add_Column t c # sts) \<longleftrightarrow> False"

fun made :: "statement \<Rightarrow> schema \<Rightarrow> bool" where
  "made (Create_Table t cs) s \<longleftrightarrow> t \<in> tables s"
| "made (Create_Index i t c) s \<longleftrightarrow> i \<in> set (sc_indexes s)"
| "made (Add_Column t c) s \<longleftrightarrow> c \<in> set (columns s t)"

lemma made_extends: "made st s \<Longrightarrow> extends_schema s s' \<Longrightarrow> made st s'"
  by (cases st) (auto simp: extends_schema_def)

lemma made_again:
  "made st s \<Longrightarrow> (case st of Add_Column _ _ \<Rightarrow> False | _ \<Rightarrow> True) \<Longrightarrow> execute a st s = Some s"
  "made (Add_Column t c) s \<Longrightarrow> execute a (Add_Column t c) s = None"
  by (cases st) auto

lemma batch_again:
  "list_all (\<lambda>st. made st s \<and> (case st of Add_Column _ _ \<Rightarrow> False | _ \<Rightarrow> True)) sts \<Longrightarrow>
     execute_batch a (\<lambda>_. False) i sts s = (s, True)"
  by (induction sts arbitrary: i) (simp_all add: made_again(1))

lemma batch_succeeds:
  assumes "has_columns lasting_columns s" and "set seen \<subseteq> tables s" and "ordered seen sts"
  shows "\<exists>s'. execute_batch a (\<lambda>_. False) i sts s = (s', True) \<and> has_columns lasting_columns s' \<and> extends_schema s s'
    \<and> list_all (\<lambda>st. made st s') sts"
  using assms
proof (induction seen sts arbitrary: s i rule: ordered.induct)
  case (1 seen)
  then show ?case by (simp add: extends_refl)
next
  case (2 seen t cs sts)
  obtain s1 where s1: "execute a (Create_Table t cs) s = Some s1" by (cases "t \<in> tables s") simp_all
  have ext: "extends_schema s s1" by (rule execute_extends [OF s1])
  have "has_columns lasting_columns s1"
  proof (cases "t \<in> tables s")
    case False
    then have "s1 = s\<lparr> sc_tables := sc_tables s @ [(t, cs)] \<rparr>" using s1 by simp
    then have cols: "columns s1 u = (if u = t then cs else columns s u)" "tables s1 = insert t (tables s)" for u
      using columns_after(1) [OF False] by auto
    have "set cs' \<subseteq> set (columns s1 t')" if "(t', cs') \<in> set lasting_columns" "t' \<in> tables s1" for t' cs'
    proof (cases "t' = t")
      case True
      then have "set cs' \<subseteq> set cs" using 2(4) that(1) by (auto simp: list_all_iff)
      then show ?thesis using True by (simp add: cols(1))
    next
      case other: False
      then have "t' \<in> tables s" using that(2) cols(2) by simp
      then have "set cs' \<subseteq> set (columns s t')" using 2(2) that(1) by (auto simp: has_columns_def)
      then show ?thesis using other by (simp add: cols(1))
    qed
    then show ?thesis unfolding has_columns_def by blast
  qed (use s1 2(2) in simp)
  moreover have t: "t \<in> tables s1" using s1 by (auto split: if_splits)
  moreover have "set (t # seen) \<subseteq> tables s1" using 2(3) ext t by (auto simp: extends_schema_def)
  moreover have "ordered (t # seen) sts" using 2(4) by simp
  ultimately obtain s' where "execute_batch a (\<lambda>_. False) (Suc i) sts s1 = (s', True)" "has_columns lasting_columns s'"
    "extends_schema s1 s'" "list_all (\<lambda>st. made st s') sts" using 2(1) by blast
  moreover have "made (Create_Table t cs) s'" using t \<open>extends_schema s1 s'\<close> by (auto simp only: extends_schema_def made.simps)
  ultimately show ?case using s1 extends_trans [OF ext] by (intro exI [of _ s']) simp
next
  case (3 seen i' t c sts)
  have "t \<in> tables s" using 3(3,4) by auto
  then have "c \<in> set (columns s t)" using 3(2,4) by (fastforce simp: has_columns_def list_ex_iff)
  then obtain s1 where s1: "execute a (Create_Index i' t c) s = Some s1" and m: "made (Create_Index i' t c) s1"
    and same: "sc_tables s1 = sc_tables s" by (cases "i' \<in> set (sc_indexes s)") simp_all
  have ext: "extends_schema s s1" by (rule execute_extends [OF s1])
  have "has_columns lasting_columns s1" using 3(2) same by (simp add: has_columns_def columns_def)
  moreover have "set seen \<subseteq> tables s1" using 3(3) same by simp
  moreover have "ordered seen sts" using 3(4) by simp
  ultimately obtain s' where "execute_batch a (\<lambda>_. False) (Suc i) sts s1 = (s', True)" "has_columns lasting_columns s'"
    "extends_schema s1 s'" "list_all (\<lambda>st. made st s') sts" using 3(1) by blast
  then show ?case using s1 extends_trans [OF ext] made_extends [OF m] by (intro exI [of _ s']) simp
qed simp

lemma add_columns:
  assumes "\<And>t s. alterable t s" and "list_all (\<lambda>st. case st of Add_Column t c \<Rightarrow> t \<in> tables s | _ \<Rightarrow> False) sts"
  shows "extends_schema s (fold (execute_ignoring alterable) sts s) \<and> list_all (\<lambda>st. made st (fold (execute_ignoring alterable) sts s)) sts"
  using assms(2)
proof (induction sts arbitrary: s)
  case (Cons st sts)
  then obtain t c where st: "st = Add_Column t c" "t \<in> tables s" by (cases st) auto
  let ?s1 = "execute_ignoring alterable st s"
  have 1: "extends_schema s ?s1" using execute_extends [of alterable st s]
    by (auto simp: execute_ignoring_def extends_refl split: option.split)
  have 2: "made st ?s1"
  proof (cases "c \<in> set (columns s t)")
    case False
    then have "?s1 = s\<lparr> sc_tables := map (\<lambda>(t', cs). (t', if t' = t then cs @ [c] else cs)) (sc_tables s) \<rparr>"
      using st assms(1) by (simp add: execute_ignoring_def)
    then show ?thesis using columns_after(2) [OF st(2)] by (simp add: st(1))
  qed (simp add: st execute_ignoring_def)
  have sub: "tables s \<subseteq> tables ?s1" using 1 by (simp only: extends_schema_def)
  have "list_all (\<lambda>st. case st of Add_Column t c \<Rightarrow> t \<in> tables s | _ \<Rightarrow> False) sts" using Cons.prems by simp
  then have "list_all (\<lambda>st. case st of Add_Column t c \<Rightarrow> t \<in> tables ?s1 | _ \<Rightarrow> False) sts"
    by (rule list.pred_mono_strong) (use sub in \<open>auto split: statement.splits\<close>)
  from Cons.IH [OF this] show ?case using extends_trans [OF 1] made_extends [OF 2] by auto
qed (simp add: extends_refl)

lemma lists_ordered: "ordered [] sqlite_create" "ordered [] duck_create"
  by code_simp+

text \<open>Both initialisations are a batch and the three additions.\<close>

definition init_with :: "statement list \<Rightarrow> (string \<Rightarrow> schema \<Rightarrow> bool) \<Rightarrow> schema \<Rightarrow> schema \<times> bool" where
  "init_with sts alterable s = (case execute_batch alterable (\<lambda>_. False) 0 sts s of
      (s', False) \<Rightarrow> (s', False)
    | (s', True) \<Rightarrow> (fold (execute_ignoring alterable) added_columns s', True))"

lemma batch_numbers: "execute_batch a (\<lambda>_. False) i sts s = execute_batch a (\<lambda>_. False) j sts s"
  by (induction sts arbitrary: s i j) (auto split: option.split)

lemma init_with_eq:
  "sqlite_init_db alterable (\<lambda>_. False) s = init_with sqlite_create alterable s"
  "duck_init_db alterable (\<lambda>_. False) s = init_with duck_create alterable s"
  by (simp_all add: sqlite_init_db_def duck_init_db_def init_with_def batch_numbers [of alterable 3 _ s 0])

lemma added_again: "list_all (\<lambda>st. made st s) added_columns \<Longrightarrow> fold (execute_ignoring a) added_columns s = s"
  by (simp add: added_columns_def execute_ignoring_def)

text \<open>What was made is complete.\<close>

lemma complete_of_made:
  assumes "has_columns lasting_columns s" and "list_all (\<lambda>(t, cs). t \<in> tables s) used_columns" and "list_all (\<lambda>st. made st s) added_columns"
  shows "complete s"
proof -
  have "set cs \<subseteq> set (columns s t)" if tc: "(t, cs) \<in> set used_columns" for t cs
  proof
    fix c
    assume c: "c \<in> set cs"
    show "c \<in> set (columns s t)"
    proof (cases "(t, c) \<in> set late_columns")
      case True
      then have "Add_Column t c \<in> set added_columns" by (auto simp: late_columns_def added_columns_def)
      then show ?thesis using assms(3) by (fastforce simp: list_all_iff)
    next
      case False
      have "(t, filter (\<lambda>c. (t, c) \<notin> set late_columns) cs) \<in> set lasting_columns"
        using tc by (force simp: lasting_columns_def)
      then show ?thesis using assms(1,2) tc c False by (fastforce simp: has_columns_def list_all_iff)
    qed
  qed
  then show ?thesis using assms(2) by (auto simp: complete_def complete_table_def list_all_iff)
qed

lemma init_with_completes:
  assumes "has_columns lasting_columns s" and "\<And>t s. alterable t s" and "ordered [] sts"
    and "list_all (\<lambda>(t, cs). list_ex (\<lambda>st. case st of Create_Table t' _ \<Rightarrow> t' = t | _ \<Rightarrow> False) sts) used_columns"
    and "list_all (\<lambda>st. case st of Add_Column _ _ \<Rightarrow> False | _ \<Rightarrow> True) sts"
  shows "\<exists>s'. init_with sts alterable s = (s', True) \<and> complete s' \<and> extends_schema s s' \<and> init_with sts alterable s' = (s', True)"
proof -
  obtain s1 where s1: "execute_batch alterable (\<lambda>_. False) 0 sts s = (s1, True)" "has_columns lasting_columns s1"
    "extends_schema s s1" "list_all (\<lambda>st. made st s1) sts"
    using batch_succeeds [OF assms(1) _ assms(3), of alterable 0] by auto
  define s2 where "s2 = fold (execute_ignoring alterable) added_columns s1"
  have t1: "t \<in> tables s1" if "(t, cs) \<in> set used_columns" for t cs
  proof -
    have "list_ex (\<lambda>st. case st of Create_Table t' _ \<Rightarrow> t' = t | _ \<Rightarrow> False) sts" using assms(4) that by (auto simp: list_all_iff)
    then obtain st where st: "st \<in> set sts" "case st of Create_Table t' _ \<Rightarrow> t' = t | _ \<Rightarrow> False" by (auto simp only: list_ex_iff)
    then have "made st s1" using s1(4) by (simp only: list_all_iff)
    with st(2) show ?thesis by (cases st) simp_all
  qed
  have "list_all (\<lambda>st. case st of Add_Column t c \<Rightarrow> t \<in> tables s1 | _ \<Rightarrow> False) added_columns"
    using t1 by (auto simp: added_columns_def used_columns_def)
  from add_columns [OF assms(2) this] have s2: "extends_schema s1 s2" "list_all (\<lambda>st. made st s2) added_columns"
    by (simp_all add: s2_def)
  have made2: "list_all (\<lambda>st. made st s2) sts"
    by (rule list.pred_mono_strong [OF s1(4)]) (rule made_extends [OF _ s2(1)])
  have "tables s1 \<subseteq> tables s2" using s2(1) by (simp only: extends_schema_def)
  then have tab: "list_all (\<lambda>(t, cs). t \<in> tables s2) used_columns" using t1 by (auto simp: list_all_iff)
  have "has_columns lasting_columns s2"
    unfolding has_columns_def
  proof (intro ballI, clarify)
    fix t cs c
    assume a: "(t, cs) \<in> set lasting_columns" "c \<in> set cs"
    then have "t \<in> tables s1" using t1 by (auto simp: lasting_columns_def)
    then have "c \<in> set (columns s1 t)" using a s1(2) by (fastforce simp: has_columns_def)
    then show "c \<in> set (columns s2 t)" using s2(1) by (auto simp only: extends_schema_def)
  qed
  then have "complete s2" using tab s2(2) by (rule complete_of_made)
  moreover have "init_with sts alterable s2 = (s2, True)"
    using batch_again [of s2 sts alterable 0] made2 assms(5) added_again [OF s2(2)] by (simp add: init_with_def list_all_iff)
  moreover have "init_with sts alterable s = (s2, True)" by (simp add: init_with_def s1(1) s2_def)
  ultimately show ?thesis using extends_trans [OF s1(3) s2(1)] by blast
qed

section \<open>The property\<close>

text \<open>
  C36: Opening a database makes it complete.  If neither the engine nor the system fails, a new database or one of an
  earlier version, which lacks only the three late columns, has after \<open>new\<close> every table and every column that the
  statements of the writer and the queries name, and has kept all it had; and to open it again changes nothing.
\<close>
theorem opening_completes_schema:
  assumes "earlier_version s"
    and "\<not> of_create_dir f" and "\<not> of_open f" and "\<not> of_spawn f" and "of_init f = (\<lambda>_. False)"
  shows "(\<exists>s'. sqlite_new (\<lambda>_ _. True) f s = (s', Some ()) \<and> complete s' \<and> extends_schema s s' \<and> sqlite_new (\<lambda>_ _. True) f s' = (s', Some ()))
    \<and> (\<exists>s'. duck_new_with_limit (\<lambda>_ _. True) f limit s = (s', Some (Some limit)) \<and> complete s' \<and> extends_schema s s'
        \<and> duck_new (\<lambda>_ _. True) f s' = (s', Some None))"
proof -
  have h: "has_columns lasting_columns s"
    using assms(1) by (fastforce simp: earlier_version_def has_columns_def lasting_columns_def list_all_iff)
  have c: "list_all (\<lambda>(t, cs). list_ex (\<lambda>st. case st of Create_Table t' _ \<Rightarrow> t' = t | _ \<Rightarrow> False) sqlite_create) used_columns"
    "list_all (\<lambda>(t, cs). list_ex (\<lambda>st. case st of Create_Table t' _ \<Rightarrow> t' = t | _ \<Rightarrow> False) duck_create) used_columns"
    "list_all (\<lambda>st. case st of Add_Column _ _ \<Rightarrow> False | _ \<Rightarrow> True) sqlite_create"
    "list_all (\<lambda>st. case st of Add_Column _ _ \<Rightarrow> False | _ \<Rightarrow> True) duck_create"
    by code_simp+
  note init = init_with_completes [where alterable = "\<lambda>_ _. True", OF h TrueI]
  have "\<exists>s'. sqlite_new (\<lambda>_ _. True) f s = (s', Some ()) \<and> complete s' \<and> extends_schema s s' \<and> sqlite_new (\<lambda>_ _. True) f s' = (s', Some ())"
    using init [OF lists_ordered(1) c(1,3)] by (auto simp: sqlite_new_def open_backend_def assms(2-) init_with_eq)
  moreover have "\<exists>s'. duck_new_with_limit (\<lambda>_ _. True) f limit s = (s', Some (Some limit)) \<and> complete s' \<and> extends_schema s s'
      \<and> duck_new (\<lambda>_ _. True) f s' = (s', Some None)"
    using init [OF lists_ordered(2) c(2,4)] by (auto simp: duck_new_def duck_new_with_limit_def open_backend_def assms(2-) init_with_eq)
  ultimately show ?thesis by blast
qed

text \<open>A database without the columns that were added later.\<close>

definition demo_earlier :: schema where
  "demo_earlier = \<lparr> sc_tables = [(''activity_records'', [''id'', ''start_time'', ''end_time'', ''state'', ''focus_info''])], sc_indexes = [] \<rparr>"

theorem opening_completes_schema_witness:
  "\<exists>s'. sqlite_new (\<lambda>_ _. True) \<lparr> of_create_dir = False, of_open = False, of_init = (\<lambda>_. False), of_spawn = False \<rparr> demo_earlier = (s', Some ())
    \<and> complete s' \<and> extends_schema demo_earlier s'"
proof -
  have "earlier_version demo_earlier" by (simp add: earlier_version_def) code_simp
  then show ?thesis
    using opening_completes_schema [of demo_earlier "\<lparr> of_create_dir = False, of_open = False, of_init = (\<lambda>_. False), of_spawn = False \<rparr>"]
    by auto
qed

end
