(* ===== verification/Bench_Summary.thy ===== *)
theory Bench_Summary
  imports Mouse_Bench Log_Cli
begin

text \<open>
  The table at the end of a benchmark, benchmarks/compressor/mouse_traj.rs: the totals of the
  simplifiers sorted by compression, the averages of each, and the lines printed.

  A hash map gives its values in an order of its own, the parameter \<open>values\<close>.  Texts of floating point
  numbers with so many places are parameters, the conversion of a count to \<open>f64\<close> is \<open>f_of_int\<close>.
\<close>

section \<open>Sorting\<close>

text \<open>Compression: raw points over points left, infinity for none left.\<close>

definition raw_over_simp :: "('f, 'd) bench_cfg \<Rightarrow> nat \<Rightarrow> ('f, 'd) metrics_row \<Rightarrow> 'd" where
  "raw_over_simp G total_raw_pts v = (let D = bg_f64 G in
     if mx_pts_sum v = 0 then f_inf D else f_div D (f_of_int D (int total_raw_pts)) (f_of_int D (int (mx_pts_sum v))))"

text \<open>
  The stable sort of \<open>sort_by\<close>; \<open>before a b\<close> is the comparison giving \<open>Less\<close>.  Of two compressions the
  larger is \<open>Less\<close>; numbers that do not compare are \<open>Equal\<close>.
\<close>

fun insert_row :: "('a \<Rightarrow> 'a \<Rightarrow> bool) \<Rightarrow> 'a \<Rightarrow> 'a list \<Rightarrow> 'a list" where
  "insert_row before x [] = [x]"
| "insert_row before x (y # ys) = (if before y x then y # insert_row before x ys else x # y # ys)"

definition sort_by :: "('a \<Rightarrow> 'a \<Rightarrow> bool) \<Rightarrow> 'a list \<Rightarrow> 'a list" where
  "sort_by before xs = foldr (insert_row before) xs []"

definition better_compression :: "('f, 'd) bench_cfg \<Rightarrow> nat \<Rightarrow> ('f, 'd) metrics_row \<Rightarrow> ('f, 'd) metrics_row \<Rightarrow> bool" where
  "better_compression G total_raw_pts a b \<longleftrightarrow> f_lt (bg_f64 G) (raw_over_simp G total_raw_pts b) (raw_over_simp G total_raw_pts a)"

section \<open>Printing\<close>

record ('f, 'd) float_texts =
  ft_f32 :: "nat \<Rightarrow> 'f \<Rightarrow> string"
  ft_f64 :: "nat \<Rightarrow> 'd \<Rightarrow> string"

definition len_drift_pct :: "('f, 'd) bench_cfg \<Rightarrow> ('f, 'd) metrics_row \<Rightarrow> 'd" where
  "len_drift_pct G v = (let D = bg_f64 G in
     if f_lt D (f_of_int D 0) (mx_raw_len_sum v)
     then f_mul D (f_div D (f_abs D (f_sub D (mx_simp_len_sum v) (mx_raw_len_sum v))) (mx_raw_len_sum v)) (f_of_int D 100)
     else f_of_int D 0)"

definition pass_rate :: "('f, 'd) bench_cfg \<Rightarrow> nat \<Rightarrow> ('f, 'd) metrics_row \<Rightarrow> 'd" where
  "pass_rate G events v = (let D = bg_f64 G in
     if events = 0 then f_of_int D 0
     else f_div D (f_mul D (f_of_int D (int (mx_pass_cnt v))) (f_of_int D 100)) (f_of_int D (int events)))"

definition us_per_pt :: "('f, 'd) bench_cfg \<Rightarrow> nat \<Rightarrow> ('f, 'd) metrics_row \<Rightarrow> 'd" where
  "us_per_pt G total_raw_pts v = (let D = bg_f64 G in
     if total_raw_pts = 0 then f_of_int D 0
     else f_div D (f_mul D (mx_time_ms_sum v) (f_of_int D 1000)) (f_of_int D (int total_raw_pts)))"

definition table_header :: string where
  "table_header = pad_right 18 ''Algo'' @ '' '' @ pad_left 11 ''raw/simp'' @ '' '' @ pad_left 9 ''avg_pts'' @ '' ''
     @ pad_left 9 ''mean(px)'' @ '' '' @ pad_left 12 ''len_drift(%)'' @ '' '' @ pad_left 9 ''us/pt'' @ '' '' @ pad_left 6 ''PASS''"

text \<open>The mean is divided by the number of events as an \<open>f32\<close>.\<close>

definition table_row ::
  "('f, 'd) bench_cfg \<Rightarrow> ('d \<Rightarrow> 'f) \<Rightarrow> ('f, 'd) float_texts \<Rightarrow> nat \<Rightarrow> nat \<Rightarrow> ('f, 'd) metrics_row \<Rightarrow> string" where
  "table_row G narrow T total_raw_pts events v =
     (let F = bg_f32 G; D = bg_f64 G; n_events = f_of_int D (int (max events 1));
          stream_tag = (if mx_name v = ''radial_s'' then '' (stream)'' else [])
      in pad_right 18 (mx_name v @ stream_tag)
         @ '' '' @ pad_left 10 (ft_f64 T 2 (raw_over_simp G total_raw_pts v)) @ ''x''
         @ '' '' @ pad_left 9 (ft_f64 T 2 (f_div D (f_of_int D (int (mx_pts_sum v))) n_events))
         @ '' '' @ pad_left 9 (ft_f32 T 3 (f_div F (mx_mean_dev_sum v) (narrow n_events)))
         @ '' '' @ pad_left 12 (ft_f64 T 2 (len_drift_pct G v))
         @ '' '' @ pad_left 9 (ft_f64 T 2 (us_per_pt G total_raw_pts v))
         @ '' '' @ pad_left 5 (ft_f64 T 0 (pass_rate G events v)) @ ''%'')"

definition bench_summary ::
  "('f, 'd) bench_cfg \<Rightarrow> ('d \<Rightarrow> 'f) \<Rightarrow> ('f, 'd) float_texts \<Rightarrow> (('f, 'd) totals \<Rightarrow> ('f, 'd) metrics_row list) \<Rightarrow>
   ('f, 'd) totals \<times> nat \<times> nat \<Rightarrow> string list" where
  "bench_summary G narrow T vals st = (case st of (totals, total_raw_pts, events) \<Rightarrow>
     [[], ''Summary over '' @ nat_str events @ '' events (raw pts total='' @ nat_str total_raw_pts @ ''):'', table_header]
     @ map (table_row G narrow T total_raw_pts events) (sort_by (better_compression G total_raw_pts) (vals totals))
     @ [[], ''PASS rule: mean <= '' @ ft_f32 T 2 (bg_tau G) @ ''px AND length drift <= ''
          @ ft_f32 T 1 (bg_max_length_drift_pct G) @ ''%. Sorted by compression (raw/simp).''])"

text \<open>What a whole run prints, \<open>None\<close> a panic.\<close>

definition bench_output ::
  "('f, 'd) bench_cfg \<Rightarrow> ('d \<Rightarrow> 'f) \<Rightarrow> ('f, 'd) float_texts \<Rightarrow> (('f, 'd) totals \<Rightarrow> ('f, 'd) metrics_row list) \<Rightarrow>
   (string + (('f, 'd) totals \<times> nat \<times> nat) option) option \<Rightarrow> (string + string list) option" where
  "bench_output G narrow T vals run = map_option (map_sum id (\<lambda>r. case r of
       None \<Rightarrow> [''No events with >=3 raw points after selection.'']
     | Some st \<Rightarrow> bench_summary G narrow T vals st)) run"

section \<open>Lemmas\<close>

lemma mset_insert_row [simp]: "mset (insert_row before x ys) = add_mset x (mset ys)"
  by (induction ys) simp_all

lemma mset_sort_by [simp]: "mset (sort_by before xs) = mset xs"
  by (induction xs) (simp_all add: sort_by_def)

text \<open>A comparison by a key orders the rows by the key.\<close>

lemma set_insert_row [simp]: "set (insert_row before x ys) = insert x (set ys)"
  by (induction ys) auto

lemma sorted_insert_row:
  assumes "\<And>a b. a \<in> insert x (set ys) \<Longrightarrow> b \<in> insert x (set ys) \<Longrightarrow> before a b \<longleftrightarrow> (key a :: 'k::linorder) < key b"
    and "sorted (map key ys)"
  shows "sorted (map key (insert_row before x ys))"
  using assms by (induction ys) auto

lemma sorted_sort_by:
  assumes "\<And>a b. a \<in> set xs \<Longrightarrow> b \<in> set xs \<Longrightarrow> before a b \<longleftrightarrow> (key a :: 'k::linorder) < key b"
  shows "sorted (map key (sort_by before xs))"
  using assms
proof (induction xs)
  case (Cons x xs)
  have "set (sort_by before xs) = set xs" using mset_eq_setD [OF mset_sort_by] .
  with Cons show ?case by (auto simp: sort_by_def intro!: sorted_insert_row)
qed (simp add: sort_by_def)

text \<open>The totals have one row per simplifier, under its name.\<close>

definition rows_named :: "string set \<Rightarrow> ('f, 'd) totals \<Rightarrow> bool" where
  "rows_named names totals \<longleftrightarrow> distinct (map fst totals) \<and> fst ` set totals = names \<and> list_all (\<lambda>(k, e). mx_name e = k) totals"

lemma rows_named_upsert:
  assumes "rows_named names totals"
  shows "rows_named (insert k names) (upsert k (no_metrics G k) (add_metrics G t raw simp) totals)"
proof -
  have n: "mx_name (add_metrics G t raw simp e) = mx_name e" for e
    by (simp add: add_metrics_def Let_def split_beta)
  have "list_all (\<lambda>(k, e). mx_name e = k) totals \<Longrightarrow>
      list_all (\<lambda>(k, e). mx_name e = k) (upsert k (no_metrics G k) (add_metrics G t raw simp) totals)" for totals
    by (induction totals) (auto simp: n no_metrics_def)
  with assms show ?thesis by (simp add: rows_named_def keys_upsert)
qed

lemma rows_named_algos:
  "run_algos G elapsed ev names totals = Some totals' \<Longrightarrow> rows_named ks totals \<Longrightarrow> rows_named (ks \<union> set names) totals'"
proof (induction names arbitrary: ks totals)
  case (Cons k names)
  from Cons.prems(1) obtain r where
    "run_algos G elapsed ev names (upsert k (no_metrics G k) (add_metrics G (elapsed k) (wk_raw_pts ev) r) totals) = Some totals'"
    by (auto split: option.splits)
  from Cons.IH [OF this rows_named_upsert [OF Cons.prems(2)]] show ?case by simp
qed simp

lemma rows_named_events:
  "run_events G elapsed evs (totals, raw, n) = Some (totals', st) \<Longrightarrow> rows_named ks totals \<Longrightarrow>
   rows_named (ks \<union> (if evs = [] then {} else set algo_names)) totals'"
proof (induction evs arbitrary: ks totals raw n)
  case (Cons ev evs)
  from Cons.prems(1) obtain t where t: "run_algos G (elapsed n) ev algo_names totals = Some t"
    "run_events G elapsed evs (t, raw + length (wk_raw_pts ev), n + 1) = Some (totals', st)"
    by (auto split: option.splits)
  from Cons.IH [OF t(2) rows_named_algos [OF t(1) Cons.prems(2)]] show ?case
    by (cases "evs = []") (simp_all add: Un_assoc)
qed simp

text \<open>Division of counts as the ordered field has it.\<close>

definition exact_ratios :: "('d::linordered_field) bench_ops \<Rightarrow> bool" where
  "exact_ratios D \<longleftrightarrow> f_lt D = (<) \<and> f_of_int D = of_int \<and> (\<forall>a b. b \<noteq> 0 \<longrightarrow> f_div D a b = a / b)"

lemma better_compression_iff:
  fixes G :: "('f, 'd::linordered_field) bench_cfg"
  assumes "exact_ratios (bg_f64 G)" and "0 < n" and "0 < mx_pts_sum a" and "0 < mx_pts_sum b"
  shows "better_compression G n a b \<longleftrightarrow> mx_pts_sum a < mx_pts_sum b"
proof -
  have "(of_nat n :: 'd) / of_nat y < of_nat n / of_nat x \<longleftrightarrow> x < y" if "0 < x" "0 < y" for x y
    using that assms(2) by (simp add: divide_less_eq less_divide_eq)
  with assms show ?thesis by (simp add: better_compression_def raw_over_simp_def exact_ratios_def Let_def)
qed

section \<open>The properties\<close>

text \<open>
  A run over at least one trajectory that the simplifiers are meant for prints a table with one row
  for each of the six simplifiers, the totals of that simplifier, the fewest points left first.
\<close>
theorem table_ranks_simplifiers:
  fixes G :: "('f, 'd::linordered_field) bench_cfg"
  assumes "evs \<noteq> []"
    and "list_all (\<lambda>ev. wk_raw_pts ev \<noteq> [] \<and> (\<forall>param. fair_for_all (bg_pick G) (bg_f32 G) param (wk_raw_pts ev))) evs"
    and "exact_ratios (bg_f64 G)" and "\<And>t. mset (vals t) = mset (map snd t)"
  shows "\<exists>totals rows. bench_output G narrow T vals (map_option (Inr \<circ> Some) (bench_compute G elapsed evs)) =
      Some (Inr ([[], ''Summary over '' @ nat_str (length evs) @ '' events (raw pts total='' @ nat_str (raw_points evs) @ ''):'', table_header]
        @ map (table_row G narrow T (raw_points evs) (length evs)) rows
        @ [[], ''PASS rule: mean <= '' @ ft_f32 T 2 (bg_tau G) @ ''px AND length drift <= ''
             @ ft_f32 T 1 (bg_max_length_drift_pct G) @ ''%. Sorted by compression (raw/simp).'']))
    \<and> mset (map mx_name rows) = mset algo_names \<and> sorted (map mx_pts_sum rows)
    \<and> list_all (\<lambda>v. map_of totals (mx_name v) = Some v) rows \<and> bench_compute G elapsed evs = Some (totals, raw_points evs, length evs)"
proof -
  obtain totals where run: "run_events G elapsed evs ([], 0, 0) = Some (totals, raw_points evs, length evs)"
    and counts: "list_all (counted (length evs) (raw_points evs) [] totals) algo_names"
    using run_events_returns [of evs G elapsed "[]" 0 0] assms(2) by (auto simp: list_all_iff)
  have named: "rows_named (set algo_names) totals"
    using rows_named_events [OF run, of "{}"] assms(1) by (simp add: rows_named_def)
  have raw: "0 < raw_points evs" using assms(1,2) by (cases evs) auto
  have row: "map_of totals (mx_name v) = Some v \<and> mx_name v \<in> set algo_names \<and> 0 < mx_pts_sum v" if "v \<in> set (vals totals)" for v
  proof -
    from that obtain k where k: "(k, v) \<in> set totals" using mset_eq_setD [OF assms(4)] by fastforce
    with named have "mx_name v = k" by (auto simp: rows_named_def list_all_iff)
    with named k have m: "map_of totals (mx_name v) = Some v" by (simp add: rows_named_def)
    from named k \<open>mx_name v = k\<close> have "mx_name v \<in> set algo_names" by (metis rows_named_def fst_conv imageI)
    moreover from this counts have "counted (length evs) (raw_points evs) [] totals (mx_name v)" by (simp add: list_all_iff)
    ultimately show ?thesis using assms(1) m by (cases evs) (simp_all add: counted_def points_of_def)
  qed
  let ?rows = "sort_by (better_compression G (raw_points evs)) (vals totals)"
  have set_rows: "set ?rows = set (vals totals)" using mset_eq_setD [OF mset_sort_by] .
  have "mset (map mx_name ?rows) = mset (map (mx_name \<circ> snd) totals)"
    by (simp only: mset_map mset_sort_by assms(4) multiset.map_comp)
  also have "map (mx_name \<circ> snd) totals = map fst totals"
    using named by (auto simp: rows_named_def list_all_iff)
  also have "mset (map fst totals) = mset algo_names"
    using named by (intro set_eq_iff_mset_eq_distinct [THEN iffD1]) (simp_all add: rows_named_def algo_names_def)
  finally have names: "mset (map mx_name ?rows) = mset algo_names" .
  have "sorted (map mx_pts_sum ?rows)"
    using row by (intro sorted_sort_by better_compression_iff [OF assms(3) raw]) auto
  with run names row set_rows show ?thesis
    by (intro exI [of _ totals] exI [of _ ?rows]) (simp add: bench_output_def bench_summary_def bench_compute_def list_all_iff)
qed

theorem table_ranks_simplifiers_witness:
  "\<exists>lines. bench_output demo_bench id \<lparr> ft_f32 = (\<lambda>_ _. ''f''), ft_f64 = (\<lambda>_ _. ''d'') \<rparr> (map snd)
     (map_option (Inr \<circ> Some) (bench_compute demo_bench (\<lambda>_ _. 1) [demo_work, demo_work])) = Some (Inr lines) \<and> length lines = 11"
proof -
  let ?T = "\<lparr> ft_f32 = (\<lambda>(_::nat) (_::rat). ''f''), ft_f64 = (\<lambda>(_::nat) (_::rat). ''d'') \<rparr>"
  have "list_all (\<lambda>ev. wk_raw_pts ev \<noteq> [] \<and> (\<forall>param. fair_for_all (bg_pick demo_bench) (bg_f32 demo_bench) param (wk_raw_pts ev)))
      [demo_work, demo_work]"
    by (simp add: demo_bench_def demo_work_def demo_fair) (simp add: demo_stroke_def)
  moreover have "exact_ratios (bg_f64 demo_bench)"
    by (simp add: exact_ratios_def demo_bench_def rat_ops_def)
  ultimately obtain rows where rows: "bench_output demo_bench id ?T (map snd)
      (map_option (Inr \<circ> Some) (bench_compute demo_bench (\<lambda>_ _. 1) [demo_work, demo_work])) =
      Some (Inr ([[], ''Summary over '' @ nat_str (length [demo_work, demo_work]) @ '' events (raw pts total=''
          @ nat_str (raw_points [demo_work, demo_work]) @ ''):'', table_header]
        @ map (table_row demo_bench id ?T (raw_points [demo_work, demo_work]) (length [demo_work, demo_work])) rows
        @ [[], ''PASS rule: mean <= '' @ ft_f32 ?T 2 (bg_tau demo_bench) @ ''px AND length drift <= ''
             @ ft_f32 ?T 1 (bg_max_length_drift_pct demo_bench) @ ''%. Sorted by compression (raw/simp).'']))"
    "mset (map mx_name rows) = mset algo_names"
    using table_ranks_simplifiers [of "[demo_work, demo_work]" demo_bench "map snd" id ?T "\<lambda>_ _. 1"] by blast
  from rows(2) have "length rows = 6" using mset_eq_length by (fastforce simp: algo_names_def)
  with rows(1) show ?thesis by simp
qed

end
