(* ===== verification/Tracker_Table.thy ===== *)
theory Tracker_Table
  imports Snapshot_Text Log_Cli
begin

text \<open>
  The table of tracker samples, \<open>show_tracker_data_grpc\<close> of src/bin/kronictl.rs: the request for the
  newest rows of the daemon's process, and the lines printed of the reply.  The command line does not
  reach it, \<open>tracker show\<close> says that the tracker is disabled; it is the only client of the request for
  metrics.

  The answer of the server is a parameter, a function of the request, so that the handler of the
  server can be put in its place.  The texts of instants and numbers are parameters.
\<close>

section \<open>The request\<close>

definition tracker_limit :: "u64 option \<Rightarrow> u64" where
  "tracker_limit rows_wanted = (case rows_wanted of Some n \<Rightarrow> n | None \<Rightarrow> 10)"

definition tracker_request :: "u32 \<Rightarrow> u64 option \<Rightarrow> metrics_request" where
  "tracker_request daemon_pid rows_wanted =
     \<lparr> rq_pid = daemon_pid, rq_start_time = None, rq_end_time = None, rq_limit = ucast (tracker_limit rows_wanted) \<rparr>"

section \<open>The table\<close>

record 'd table_texts =
  tx_micros :: "instant \<Rightarrow> string"
  tx_rfc3339 :: "instant \<Rightarrow> string"
  tx_cpu :: "'d \<Rightarrow> string"

datatype table_error =
    Connect_Failed string
  | Status_Returned grpc_status
  | Invalid_Timestamp_Range

definition table_line :: "string \<Rightarrow> string \<Rightarrow> string \<Rightarrow> string \<Rightarrow> string" where
  "table_line a b c d = pad_right 32 a @ '' '' @ pad_left 8 b @ '' '' @ pad_left 12 c @ '' '' @ pad_left 12 d"

definition metric_line :: "(int \<Rightarrow> bool) \<Rightarrow> 'd table_texts \<Rightarrow> 'd pb_metric \<Rightarrow> string option" where
  "metric_line holds X m =
     map_option (\<lambda>time_part. table_line time_part (tx_cpu X (pm_cpu_percent m))
         (u64_str (pm_memory_bytes m div 1024)) (u64_str (pm_disk_io_bytes m div 1024)))
       (case pm_timestamp m of
          Some ts \<Rightarrow> map_option (tx_micros X) (from_timestamp holds ts)
        | None \<Rightarrow> Some ''unknown'')"

text \<open>The rows, up to the first one whose timestamp chrono cannot hold.\<close>

fun metric_lines :: "(int \<Rightarrow> bool) \<Rightarrow> 'd table_texts \<Rightarrow> 'd pb_metric list \<Rightarrow> string list \<times> table_error option" where
  "metric_lines holds X [] = ([], None)"
| "metric_lines holds X (m # ms) = (case metric_line holds X m of
      None \<Rightarrow> ([], Some Invalid_Timestamp_Range)
    | Some l \<Rightarrow> (let (ls, e) = metric_lines holds X ms in (l # ls, e)))"

definition end_time_text :: "(int \<Rightarrow> bool) \<Rightarrow> 'd table_texts \<Rightarrow> 'd pb_metric \<Rightarrow> string" where
  "end_time_text holds X m = (case Option.bind (pm_timestamp m) (from_timestamp holds) of
      Some t \<Rightarrow> tx_micros X t | None \<Rightarrow> ''unknown'')"

definition table_footer :: "(int \<Rightarrow> bool) \<Rightarrow> 'd table_texts \<Rightarrow> instant \<Rightarrow> u32 \<Rightarrow> 'd pb_metric list \<Rightarrow> string list" where
  "table_footer holds X now daemon_pid ms =
     [[], ''Showing '' @ nat_str (length ms) @ '' entries from '' @ end_time_text holds X (hd ms) @ '' to ''
            @ end_time_text holds X (last ms),
      ''Source: PID='' @ u32_str daemon_pid]
     @ (case Option.bind (pm_timestamp (last ms)) (from_timestamp holds) of
          None \<Rightarrow> []
        | Some t \<Rightarrow> [''Debug: last_ts_age='' @ int_str (num_seconds (now - t)) @ ''s (now='' @ tx_rfc3339 X now @ '')''])"

text \<open>The lines printed, and the error the command ends with; \<open>server\<close> is \<open>Inl\<close> when the socket cannot be connected.\<close>

definition show_tracker_data_grpc ::
  "(int \<Rightarrow> bool) \<Rightarrow> 'd table_texts \<Rightarrow> instant \<Rightarrow> string \<Rightarrow> u64 option \<Rightarrow> u32 \<Rightarrow>
   string + (metrics_request \<Rightarrow> grpc_status + 'd metrics_reply) \<Rightarrow> string list \<times> table_error option" where
  "show_tracker_data_grpc holds X now uds rows_wanted daemon_pid server = (case server of
      Inl e \<Rightarrow> ([], Some (Connect_Failed e))
    | Inr call \<Rightarrow>
        (let debug = ''Debug: UDS='' @ uds @ '' PID='' @ u32_str daemon_pid @ '' limit='' @ u64_str (tracker_limit rows_wanted)
               @ '' (server flush-before-query)''
         in case call (tracker_request daemon_pid rows_wanted) of
              Inl status \<Rightarrow> ([debug], Some (Status_Returned status))
            | Inr reply \<Rightarrow>
                if mr_metrics reply = [] then ([debug, ''No tracker data found for current daemon run''], None)
                else (case metric_lines holds X (mr_metrics reply) of
                    (rows, e) \<Rightarrow>
                      ([debug, table_line ''Timestamp (RFC3339)'' ''CPU %'' ''Memory KB'' ''Disk IO KB'', replicate 68 (CHR ''-'')]
                       @ rows @ (if e = None then table_footer holds X now daemon_pid (mr_metrics reply) else []), e))))"

section \<open>Specification\<close>

text \<open>The line of a sample, and the whole output for some samples.\<close>

definition sample_line :: "'d table_texts \<Rightarrow> 'd system_metrics \<Rightarrow> string" where
  "sample_line X m = table_line (tx_micros X (sm_timestamp m)) (tx_cpu X (sm_cpu_percent m))
     (u64_str (sm_memory_bytes m div 1024)) (u64_str (sm_disk_io_bytes m div 1024))"

definition samples_table :: "'d table_texts \<Rightarrow> instant \<Rightarrow> u32 \<Rightarrow> 'd system_metrics list \<Rightarrow> string list" where
  "samples_table X now daemon_pid ms =
     (if ms = [] then [''No tracker data found for current daemon run'']
      else [table_line ''Timestamp (RFC3339)'' ''CPU %'' ''Memory KB'' ''Disk IO KB'', replicate 68 (CHR ''-'')]
        @ map (sample_line X) ms
        @ [[], ''Showing '' @ nat_str (length ms) @ '' entries from '' @ tx_micros X (sm_timestamp (hd ms)) @ '' to ''
             @ tx_micros X (sm_timestamp (last ms)),
           ''Source: PID='' @ u32_str daemon_pid,
           ''Debug: last_ts_age='' @ int_str (num_seconds (now - sm_timestamp (last ms))) @ ''s (now='' @ tx_rfc3339 X now @ '')''])"

section \<open>Lemmas\<close>

lemma metric_line_sent:
  "sendable holds (sm_timestamp m) \<Longrightarrow> metric_line holds X (pb_of_metric m) = Some (sample_line X m)"
  by (simp add: metric_line_def pb_of_metric_def sample_line_def from_timestamp_sent)

lemma metric_lines_sent:
  "list_all (\<lambda>m. sendable holds (sm_timestamp m)) ms \<Longrightarrow>
   metric_lines holds X (map pb_of_metric ms) = (map (sample_line X) ms, None)"
  by (induction ms) (simp_all add: metric_line_sent)

lemma table_footer_sent:
  assumes "list_all (\<lambda>m. sendable holds (sm_timestamp m)) ms" and "ms \<noteq> []"
  shows "table_footer holds X now daemon_pid (map pb_of_metric ms) =
    [[], ''Showing '' @ nat_str (length ms) @ '' entries from '' @ tx_micros X (sm_timestamp (hd ms)) @ '' to ''
         @ tx_micros X (sm_timestamp (last ms)),
     ''Source: PID='' @ u32_str daemon_pid,
     ''Debug: last_ts_age='' @ int_str (num_seconds (now - sm_timestamp (last ms))) @ ''s (now='' @ tx_rfc3339 X now @ '')'']"
proof -
  have "sendable holds (sm_timestamp (hd ms))" "sendable holds (sm_timestamp (last ms))"
    using assms by (simp_all add: list_all_iff)
  with assms(2) show ?thesis
    by (simp add: table_footer_def end_time_text_def hd_map last_map pb_of_metric_def from_timestamp_sent)
qed

section \<open>The properties\<close>

text \<open>
  Client and server together: with the server configured and the flush acknowledged, the table shows
  exactly the newest samples of the process, at most as many as asked for and oldest first, each with
  the instant, the load, and the kilobytes of its sample, and the command succeeds.
\<close>
theorem table_shows_newest:
  assumes "ap_db_path cfg" and "ac_control (ap_cells cfg) \<noteq> None" and "ac_query (ap_cells cfg) \<noteq> None"
    and "rows_wanted = Some n" and "0 < n" and "n < 2 ^ 32"
    and "time_codec C T" and "sm_timestamp ` set ms \<subseteq> T" and "list_all (\<lambda>m. sendable holds (sm_timestamp m)) ms"
    and "\<And>i q. ask i q = Answered (tracker_query (sqlite_metrics_store C) q None (map (sqlite_metric_row C daemon_pid) ms))"
  shows "show_tracker_data_grpc holds X now uds rows_wanted daemon_pid (Inr (get_system_metrics holds cfg (Answered ()) clock ask)) =
    ((''Debug: UDS='' @ uds @ '' PID='' @ u32_str daemon_pid @ '' limit='' @ u64_str n @ '' (server flush-before-query)'')
       # samples_table X now daemon_pid (rev (take (unat n) (rev (sort_key sm_timestamp ms)))), None)"
proof -
  define found where "found = rev (take (unat n) (rev (sort_key sm_timestamp ms)))"
  have limit: "unat (ucast n :: u32) = unat n"
    using assms(6) by (simp add: unsigned_ucast_eq word_less_nat_alt take_bit_nat_eq_self)
  with assms(5) have pos: "0 < (ucast n :: u32)"
    by (simp add: word_less_nat_alt)
  have own: "sqlite_table C (map (Pair daemon_pid) ms) = map (sqlite_metric_row C daemon_pid) ms"
    "samples_of_pid daemon_pid (map (Pair daemon_pid) ms) = ms"
    by (simp_all add: sqlite_table_def samples_of_pid_def filter_map comp_def)
  have call: "get_system_metrics holds cfg (Answered ()) clock ask (tracker_request daemon_pid rows_wanted) =
      Inr \<lparr> mr_metrics = map pb_of_metric found, mr_total_count = of_nat (length found) \<rparr>"
    using limit_reply [of cfg "tracker_request daemon_pid rows_wanted" C T "map (Pair daemon_pid) ms" ask holds clock] assms pos limit
    by (simp add: own reply_with_def tracker_request_def tracker_limit_def Let_def found_def)
  have sent: "list_all (\<lambda>m. sendable holds (sm_timestamp m)) found"
    using assms(9) set_take_subset [of "unat n" "rev (sort_key sm_timestamp ms)"] by (auto simp: list_all_iff found_def)
  show ?thesis
    unfolding found_def [symmetric]
    using metric_lines_sent [OF sent] table_footer_sent [OF sent] assms(4)
    by (cases "found = []") (simp_all add: show_tracker_data_grpc_def call [unfolded assms(4)] samples_table_def tracker_limit_def Let_def)
qed

text \<open>
  The limit is cut to 32 bits, and none left means to the server that an interval is asked for: a count
  of zero, or of any multiple of \<open>2 ^ 32\<close>, asks for all samples of the last five minutes instead of the
  newest rows.
\<close>
theorem no_rows_asks_for_interval:
  assumes "rows_wanted = Some n" and "n mod 2 ^ 32 = 0"
  shows "request_query holds now1 now2 (tracker_request daemon_pid rows_wanted) = Inr (ByRange daemon_pid (now1 - mins 5) now2)"
proof -
  have "(ucast n :: u32) = 0"
    using arg_cong [OF assms(2), of unat]
    by (simp add: word_eq_iff_unsigned [where 'a = nat] unsigned_ucast_eq take_bit_eq_mod unat_mod)
  with assms(1) show ?thesis by (simp add: request_query_def tracker_request_def tracker_limit_def request_time_def)
qed

definition demo_table_texts :: "int table_texts" where
  "demo_table_texts = \<lparr> tx_micros = int_str, tx_rfc3339 = int_str, tx_cpu = int_str \<rparr>"

theorem table_shows_newest_witness:
  "\<exists>debug found. show_tracker_data_grpc (\<lambda>_. True) demo_table_texts 5 ''kroni.sock'' (Some 2) 7
      (Inr (get_system_metrics (\<lambda>_. True) demo_api (Answered ()) (\<lambda>_. 0)
        (\<lambda>i q. Answered (tracker_query (sqlite_metrics_store demo_codec) q None
           (map (sqlite_metric_row demo_codec 7) (samples_of 0 [demo_reading 4, demo_reading 2, demo_reading 1]))))))
     = (debug # samples_table demo_table_texts 5 7 found, None) \<and> map sm_timestamp found = [2, 4]"
proof -
  let ?ms = "samples_of 0 [demo_reading 4, demo_reading 2, demo_reading 1]"
  have ts: "sm_timestamp ` set ?ms = {4, 2, 1}" by (auto simp: demo_tracker_defs)
  then have c: "time_codec demo_codec {4, 2, 1, 9}" "sm_timestamp ` set ?ms \<subseteq> {4, 2, 1, 9}"
    by (auto intro: demo_time_codec)
  have "sendable (\<lambda>_. True) t" if "t \<in> {4, 2, 1}" for t
    using that by (auto simp: sendable_def in_i64_def epoch_secs_def)
  then have s: "list_all (\<lambda>m. sendable (\<lambda>_. True) (sm_timestamp m)) ?ms"
    using ts by (auto simp: list_all_iff)
  have "ap_db_path demo_api" "ac_control (ap_cells demo_api) \<noteq> None" "ac_query (ap_cells demo_api) \<noteq> None" "0 < (2::u64)" "2 < (2::u64) ^ 32"
    by (simp_all add: demo_api_def)
  note r = table_shows_newest [where X = demo_table_texts and now = 5 and uds = "''kroni.sock''" and daemon_pid = 7 and clock = "\<lambda>_. 0",
      OF this(1-3) refl this(4,5) c s refl]
  have "map sm_timestamp (rev (take (unat (2::u64)) (rev (sort_key sm_timestamp ?ms)))) = [2, 4]"
    by (simp add: demo_tracker_defs)
  from conjI [OF r this] show ?thesis by (intro exI)
qed

theorem no_rows_asks_for_interval_witness:
  "request_query (\<lambda>_. True) (mins 9) (mins 10) (tracker_request 7 (Some 0)) = Inr (ByRange 7 (mins 4) (mins 10))
   \<and> request_query (\<lambda>_. True) (mins 9) (mins 10) (tracker_request 7 (Some 4294967296)) = Inr (ByRange 7 (mins 4) (mins 10))"
proof -
  have "mins 9 - mins 5 = mins 4" by (simp add: mins_def)
  then show ?thesis
    using no_rows_asks_for_interval [of "Some 0" 0 "\<lambda>_. True" "mins 9" "mins 10" 7]
      no_rows_asks_for_interval [of "Some 4294967296" 4294967296 "\<lambda>_. True" "mins 9" "mins 10" 7] by simp
qed

end
