(* ===== verification/Spec2Isabelle.thy ===== *)
theory Spec2Isabelle
  imports Snapshot_Bus Aggregation Focus_Worker Threading Storage_Pipeline Duckdb_Storage Monitor Log_Cli
    Snapshot_Text Daemon_Start Monitor_Loop Mouse_Bench Kronictl_Main
    Storage_Schema Bench_Summary Tracker_Table
begin

text \<open>
  Kronical records what its user does on a machine: a daemon (kronid) turns input and focus events
  into activity records and stores them, a control program (kronictl) starts it, reads from it and
  shows what it has seen.  The theories model the Rust code of both, component by component; this
  one imports all others and says how they belong together.

  \<^bold>\<open>From a key press to the database.\<close>  The hooks' events enter at the coordinator
  (\<open>Coordinator\<close>, src/daemon/coordinator.rs: \<open>handle_event\<close>); focus changes pass the focus worker
  (\<open>Focus_Worker\<close>, src/daemon/tracker/focus.rs), which merges the reports of the window hook with its
  own polls.  Six threads connected by channels form the pipeline (\<open>Pipeline\<close>, src/daemon/pipeline.rs):

    \<^item> the ingest stage (\<open>Ingest\<close>, pipeline/ingest.rs) numbers raw events and batches them on a ticker;
    \<^item> the envelope stage (\<open>Envelope_Stage\<close>, pipeline/envelope.rs) runs the adapter (\<open>Adapter\<close>,
      crates/core/src/events/adapter.rs), the lock deriver (\<open>Lock_Deriver\<close>, derive_signal.rs) and the
      state deriver with its state machine (\<open>State_Engine\<close>, derive_hint.rs and model.rs) over a batch;
    \<^item> the hints stage (\<open>Hints_Stage\<close>, pipeline/hints.rs) feeds the record builder (\<open>Records\<close>,
      crates/core/src/records.rs);
    \<^item> the compression stage (\<open>Compression_Stage\<close>, pipeline/compression.rs) summarises the batch with the
      compressors (\<open>Compressor\<close> on \<open>Grouping\<close>, src/daemon/compressor.rs);
    \<^item> the snapshot stage (\<open>Snapshot_Stage\<close>, pipeline/snapshot_stage.rs) keeps what the daemon shows,
      aggregates records per application (\<open>Aggregation\<close>, records.rs) and publishes on the snapshot bus
      (\<open>Snapshot_Bus\<close>, crates/core/src/snapshot.rs);
    \<^item> the storage stage (also \<open>Compression_Stage\<close>, pipeline/storage.rs) hands commands to a back end.

  The data of all of them is in \<open>Events\<close> (crates/core/src/events.rs, events/model.rs).  A back end is a
  handle whose sends are counted (\<open>Storage_Client\<close>, crates/storage/src/lib.rs) and a writer thread:
  \<open>Sqlite_Storage\<close> (sqlite3.rs) or \<open>Duckdb_Storage\<close> (duckdb.rs), both on the rows of \<open>Storage_Rows\<close>.
  \<open>Storage_Pipeline\<close> puts the pipeline and the SQLite writer together; \<open>Storage_Schema\<close> is how the databases are
  opened, made and brought up to date.

  \<^bold>\<open>Beside the pipeline.\<close>  The system tracker (\<open>System_Tracker\<close>, \<open>Tracker_Life\<close>, tracker/system.rs) samples
  the daemon itself into a metrics store (\<open>Metrics_Store\<close>, crates/storage/src/system_metrics.rs).  The gRPC server
  (\<open>Grpc_Server\<close>, server/grpc.rs) sends the bus's snapshot and the tracker's samples.  Threads are
  registered in \<open>Threading\<close> (crates/common/src/threading.rs); \<open>Caches\<close> has the LRU cache and the weak interner
  (lru.rs, interner.rs).  \<open>Coordinator\<close> also starts all this and cleans it up at the end; \<open>Daemon_Start\<close> is the run
  of the daemon around it, with the start of the servers (kronid.rs, src/daemon/api.rs, the starts in
  grpc.rs and http.rs); \<open>App_Config\<close>
  has the configuration and the paths of the workspace (config.rs, paths.rs), \<open>Run_Id\<close> the ids of
  runs (src/util/run_id.rs).

  \<^bold>\<open>The control program\<close>, src/bin/kronictl.rs.  \<open>Daemon_Control\<close> has its start, stop and restart, each
  as a whole and in the steps that interleave with others, with the pid file protocol of src/bin/kronid.rs;
  \<open>Snapshot_Client\<close> reads snapshots from gRPC, HTTP and the event stream (the other end is src/daemon/server/http.rs); \<open>Snapshot_Text\<close> has
  what it prints of them, \<open>Monitor\<close> the applications panel and
  \<open>Sleep_Period\<close> the night it counts from; \<open>Monitor_Loop\<close> is the loop that reads the stream, draws and
  connects again; \<open>Log_Cli\<close> the log commands (kronictl/log_cli.rs); \<open>Kronictl_Main\<close> goes from a command to the
  exit code; \<open>Tracker_Table\<close> is the client of the tracker's samples, which is compiled but not called.
  The lines the daemon logs are in \<open>Logging\<close> (src/util/logging.rs).

  \<^bold>\<open>The benchmark\<close> of the mouse compressor, benchmarks/compressor/mouse_traj.rs: \<open>Path_Simplifiers\<close> has its six
  simplifiers, \<open>Bench_Run\<close> the calibration and the totals, \<open>Mouse_Bench\<close> what it reads from either database,
  \<open>Bench_Summary\<close> the table it prints.

  \<^bold>\<open>How the code is translated.\<close>  A struct is a record whose fields carry a prefix, an enum a datatype, an
  operation a function from the state to the new state, what it sends and what it returns.  Integers
  keep their width (\<open>Kronical_Prelude\<close>); additions wrap as in the release build.  A \<open>usize\<close> that counts the elements of
  something in memory is a \<open>nat\<close>.  Strings are their bytes; \<open>trim\<close>, \<open>split\<close>, \<open>lines\<close> and integer
  parsing are defined in \<open>Std_Text\<close>, white space being Unicode's.  Instants and durations are
  integers in nanoseconds.  A thread's loop is a function on one message (\<open>derive_event\<close>,
  \<open>builder_step\<close>, \<open>worker_step\<close>, \<open>sqlite_step\<close>, \<open>tracker_step\<close>), and where threads or processes interleave
  a step relation (\<open>pipe_step\<close>, \<open>daemon_step\<close>, \<open>backlog_step\<close>, \<open>life_reach\<close>).

  \<^bold>\<open>Parameters.\<close>  What the code cannot determine is an argument of the definitions that use it: every reading of a
  clock, each its own; the order of iteration over a hash map and of rows with equal keys; floating
  point; what SQLite, DuckDB, the operating system and sysinfo answer; the text that serde_json
  and chrono produce; the base64 engines; how the config crate reads a value at a type; the time zone; whether a
  channel's receiver still exists, whether a thread ends; which of several smallest elements a binary heap gives.  Where a property needs a law of one of them it is a
  hypothesis by name (\<open>json_ok\<close>, \<open>base64_ok\<close>, \<open>agg_env_ok\<close>, \<open>faultless\<close> and the like), and the
  witness after the property instantiates it.

  \<^bold>\<open>What is shown.\<close>

    \<^item> Deriving: the state machine refines a specification over the whole history of inputs; lock signals
      are exactly the changes between login window and other windows, and nothing passes while locked;
      the completed records of a run are the segments of its hints.
    \<^item> Stages: event ids increase, every event is flushed once and in order, every transition of a
      batch reaches the snapshot stage; the compressors compute a summary per run of neighbouring events, as
      specified without an accumulator; the aggregation preserves the total time and keeps each window in one place.
    \<^item> The pipeline as a whole, for every interleaving: shutdown reaches a state where all stages
      have stopped, and what the envelope, hints and snapshot stages have sent is stored.  Two things are lost
      and shown to be: compact events at shutdown, and, in \<open>Snapshot_Stage\<close>, the order of hydrated transitions after a restart.
    \<^item> Storage: what the SQLite writer loses are the rows of failed statements and of batches whose \<open>BEGIN\<close>
      or \<open>COMMIT\<close> failed, and nothing else; what was stored is read back, both back ends answer alike, and the run of a
      pipeline on SQLite ends with the rows of what was sent in the database, less those losses, so with all of it when
      nothing fails; opening a database of an earlier version gives it every column that is used.
    \<^item> Focus worker: what it emits is complete, was said by its inputs and, but for the login window after a failed poll,
      names a process and an app; a report is emitted, and a case in which a lock is missed.
    \<^item> Metrics: the tracker's samples are stored or in the buffer; DuckDB's store can block for
      good; the first tracker of a process cannot be stopped; a reply has exactly the samples asked for,
      of the process asked for.
    \<^item> Clients: a snapshot survives the protocol up to the fields that have no place in it, the event stream survives any framing; both print alike;
      selections of log files mean what they denote; the sleep found is the best undisturbed one.
    \<^item> The monitor draws exactly the snapshots of the stream and, undisturbed, goes on until \<open>q\<close> is polled.
    \<^item> The benchmark: each simplifier returns and keeps a part of the path with its ends, so a run ends
      with every event counted; the raw path of a trajectory is read back from either database,
      and the table has every simplifier once, best compression first.  Also shown: the
      calibration searches away from its target, and the compressor forgets closed strokes.
    \<^item> Life of the daemon: one at a time when neither starts nor commands of kronictl overlap, two
      when starts overlap or a slow stop removes the file of the next daemon; a daemon goes on only as the one the pid file
      names; a run id survives restarts; the main thread does not come back from its cleanup before the pipeline and the API
      servers have ended, nor from the start of a server that is up but late.

  The interfaces that several components share are locales: \<open>batch_component\<close> (adapter, both
  derivers, record builder: a batch at once is its events in turn), \<open>grouping_loop\<close> (three
  compressors), \<open>bounded_history\<close> (both histories of the bus), \<open>lookup_cache\<close>,
  \<open>metrics_store\<close> (both stores), \<open>simplifier\<close> (the six of the benchmark).

  \<^bold>\<open>Bounds.\<close>  Recursions of the code are recursions of the definitions; there is no fuel; the pid file
  protocol in one piece ends by a measure.  The Douglas-Peucker
  recursion, three loops of the benchmark and the search for an event id, which spins on the clock, are partial, with \<open>None\<close> for no
  result, and are shown to return where the code relies on it.  Lengths are bounded only where a counter
  of the code has a width: \<open>2 ^ 31\<close> commands of one writer (an \<open>i32\<close> counts to a hundred), \<open>2 ^ 64\<close>
  hints of a run (record ids).

  \<^bold>\<open>Not modelled\<close>, being input and output with nothing to prove beside what libraries do: opening sockets and
  the transport of tonic and axum, the places and colours of what is drawn, command line parsing, the set-up of
  tracing, progress bars.  The calls into macOS (the hooks, \<open>proc_pid_rusage\<close>, \<open>ps\<close>) appear by their results.  Code generated
  from the protocol file, build scripts and tests are not modelled.
\<close>

end
